(* ===== verification/Prelude.thy ===== *)
theory Prelude
  imports Main "HOL-Library.Multiset"
begin

text \<open>
  The prelude of the development: the number types of the Rust code, its checked, saturating
  and plain arithmetic, the result type that carries \<open>Result\<close> errors and panics, and the
  generic lemmas the component theories share.

  Unsigned integers (\<open>u32\<close>, \<open>u64\<close>, \<open>usize\<close>) are natural numbers with the
  width written out in every operation that can leave it: \<open>checked_add\<close> returns an option,
  \<open>saturating_add\<close> stops at the maximum, and the plain operators (which panic in the
  repository's debug profile and wrap in its release profile) are modelled by their panic. A
  theorem that a function never yields \<open>Panic\<close> therefore says that both profiles compute
  the same value.
\<close>

section \<open>Collections of facts\<close>

named_theorems outcome_simps \<open>rewriting of the outcome monad: when a computation returns\<close>
named_theorems arith_defs \<open>definitions of the machine arithmetic\<close>

section \<open>Numbers\<close>

type_synonym u8 = nat
type_synonym u32 = nat
type_synonym u64 = nat
type_synonym usize = nat

definition u32_max :: nat where "u32_max = 4294967295"
definition u64_max :: nat where "u64_max = 18446744073709551615"

definition checked_add :: "nat \<Rightarrow> nat \<Rightarrow> nat \<Rightarrow> nat option" where
  [arith_defs]: "checked_add limit a b = (if a + b \<le> limit then Some (a + b) else None)"

definition checked_sub :: "nat \<Rightarrow> nat \<Rightarrow> nat option" where
  [arith_defs]: "checked_sub a b = (if b \<le> a then Some (a - b) else None)"

definition checked_mul :: "nat \<Rightarrow> nat \<Rightarrow> nat \<Rightarrow> nat option" where
  [arith_defs]: "checked_mul limit a b = (if a * b \<le> limit then Some (a * b) else None)"

definition saturating_add :: "nat \<Rightarrow> nat \<Rightarrow> nat \<Rightarrow> nat" where
  [arith_defs]: "saturating_add limit a b = min limit (a + b)"

definition saturating_sub :: "nat \<Rightarrow> nat \<Rightarrow> nat" where
  [arith_defs]: "saturating_sub a b = a - b"

section \<open>Results, errors and panics\<close>

text \<open>
  \<open>Ok\<close> and \<open>Err\<close> are Rust's \<open>Result\<close>; \<open>Panic\<close> is an unwinding panic (a failed
  \<open>expect\<close>, an index out of range, an arithmetic overflow of the plain operators).
\<close>

datatype ('e, 'a) outcome = Ok 'a | Err 'e | Panic

fun obind :: "('e, 'a) outcome \<Rightarrow> ('a \<Rightarrow> ('e, 'b) outcome) \<Rightarrow> ('e, 'b) outcome" where
  "obind (Ok x) f = f x"
| "obind (Err e) f = Err e"
| "obind Panic f = Panic"

fun is_ok :: "('e, 'a) outcome \<Rightarrow> bool" where
  "is_ok (Ok _) = True"
| "is_ok _ = False"

text \<open>\<open>ok_or\<close> turns an absent value into an error, \<open>expect\<close> into a panic.\<close>

definition ok_or :: "'a option \<Rightarrow> 'e \<Rightarrow> ('e, 'a) outcome" where
  "ok_or x e = (case x of None \<Rightarrow> Err e | Some y \<Rightarrow> Ok y)"

definition expect :: "'a option \<Rightarrow> ('e, 'a) outcome" where
  "expect x = (case x of None \<Rightarrow> Panic | Some y \<Rightarrow> Ok y)"

definition ensure :: "bool \<Rightarrow> 'e \<Rightarrow> ('e, unit) outcome" where
  "ensure b e = (if b then Ok () else Err e)"

text \<open>The plain operators \<open>+\<close>, \<open>-\<close> and \<open>*\<close> on \<open>u64\<close>.\<close>

definition plain_add :: "u64 \<Rightarrow> u64 \<Rightarrow> ('e, u64) outcome" where
  "plain_add a b = expect (checked_add u64_max a b)"

definition plain_sub :: "u64 \<Rightarrow> u64 \<Rightarrow> ('e, u64) outcome" where
  "plain_sub a b = expect (checked_sub a b)"

text \<open>A loop over a list with an accumulator, and one that collects results.\<close>

fun foldM :: "('s \<Rightarrow> 'a \<Rightarrow> ('e, 's) outcome) \<Rightarrow> 's \<Rightarrow> 'a list \<Rightarrow> ('e, 's) outcome" where
  "foldM f s [] = Ok s"
| "foldM f s (x # xs) = obind (f s x) (\<lambda>s'. foldM f s' xs)"

fun mapM :: "('a \<Rightarrow> ('e, 'b) outcome) \<Rightarrow> 'a list \<Rightarrow> ('e, 'b list) outcome" where
  "mapM f [] = Ok []"
| "mapM f (x # xs) = obind (f x) (\<lambda>y. obind (mapM f xs) (\<lambda>ys. Ok (y # ys)))"

text \<open>\<open>iter().sum::<u64>()\<close>, and \<open>try_fold\<close> with \<open>checked_add\<close>.\<close>

definition plain_sum :: "u64 list \<Rightarrow> ('e, u64) outcome" where
  "plain_sum xs = foldM plain_add 0 xs"

definition try_sum :: "'e \<Rightarrow> u64 list \<Rightarrow> ('e, u64) outcome" where
  "try_sum e xs = foldM (\<lambda>acc v. ok_or (checked_add u64_max acc v) e) 0 xs"

subsection \<open>Congruence rules for recursion under the loops\<close>

lemma obind_cong [fundef_cong]:
  "m = m' \<Longrightarrow> (\<And>x. m' = Ok x \<Longrightarrow> f x = f' x) \<Longrightarrow> obind m f = obind m' f'"
  by (cases m') auto

lemma foldM_cong [fundef_cong]:
  "xs = ys \<Longrightarrow> s = t \<Longrightarrow> (\<And>a x. x \<in> set ys \<Longrightarrow> f a x = g a x) \<Longrightarrow> foldM f s xs = foldM g t ys"
  by (induction ys arbitrary: xs s t) (auto intro: obind_cong)

lemma mapM_cong [fundef_cong]:
  "xs = ys \<Longrightarrow> (\<And>x. x \<in> set ys \<Longrightarrow> f x = g x) \<Longrightarrow> mapM f xs = mapM g ys"
  by (induction ys arbitrary: xs) (auto intro: obind_cong)

subsection \<open>When a computation returns\<close>

text \<open>\<open>map_err\<close>.\<close>

fun map_err :: "('e \<Rightarrow> 'f) \<Rightarrow> ('e, 'a) outcome \<Rightarrow> ('f, 'a) outcome" where
  "map_err f (Ok x) = Ok x"
| "map_err f (Err e) = Err (f e)"
| "map_err f Panic = Panic"

lemma map_err_eq [outcome_simps]:
  "(map_err f m = Ok x) = (m = Ok x)"
  "(map_err f m = Err d) = (\<exists>e. m = Err e \<and> d = f e)"
  "(map_err f m = Panic) = (m = Panic)"
  by (cases m; auto)+

lemma obind_eq_Ok [outcome_simps]: "(obind m f = Ok y) = (\<exists>x. m = Ok x \<and> f x = Ok y)"
  by (cases m) auto

lemma obind_eq_Err [outcome_simps]:
  "(obind m f = Err e) = (m = Err e \<or> (\<exists>x. m = Ok x \<and> f x = Err e))"
  by (cases m) auto

lemma obind_eq_Panic [outcome_simps]:
  "(obind m f = Panic) = (m = Panic \<or> (\<exists>x. m = Ok x \<and> f x = Panic))"
  by (cases m) auto

lemma ok_or_eq [outcome_simps]:
  "(ok_or x e = Ok y) = (x = Some y)"
  "(ok_or x e = Err e') = (x = None \<and> e' = e)"
  "(ok_or x e = Panic) = False"
  by (auto simp: ok_or_def split: option.splits)

lemma expect_eq [outcome_simps]:
  "(expect x = Ok y) = (x = Some y)"
  "(expect x = Err e) = False"
  "(expect x = Panic) = (x = None)"
  by (auto simp: expect_def split: option.splits)

lemma expect_Some [simp]: "expect (Some x) = Ok x"
  by (simp add: expect_def)

lemma ensure_eq [outcome_simps]:
  "(ensure b e = Ok u) = b"
  "(ensure b e = Err e') = (\<not> b \<and> e' = e)"
  "(ensure b e = Panic) = False"
  by (auto simp: ensure_def)

lemma checked_add_Some [outcome_simps]: "(checked_add l a b = Some c) = (a + b \<le> l \<and> c = a + b)"
  by (auto simp: checked_add_def)

lemma checked_sub_Some [outcome_simps]: "(checked_sub a b = Some c) = (b \<le> a \<and> c = a - b)"
  by (auto simp: checked_sub_def)

lemma checked_mul_Some [outcome_simps]: "(checked_mul l a b = Some c) = (a * b \<le> l \<and> c = a * b)"
  by (auto simp: checked_mul_def)

lemma checked_Some_sym [outcome_simps]:
  "(Some c = checked_add l a b) = (a + b \<le> l \<and> c = a + b)"
  "(Some c = checked_sub a b) = (b \<le> a \<and> c = a - b)"
  "(Some c = checked_mul l a b) = (a * b \<le> l \<and> c = a * b)"
  by (auto simp: checked_add_def checked_sub_def checked_mul_def)

lemma plain_add_Ok: "(plain_add a b = Ok c) = (a + b \<le> u64_max \<and> c = a + b)"
  by (simp add: plain_add_def outcome_simps)

lemma plain_sub_Ok: "(plain_sub a b = Ok c) = (b \<le> a \<and> c = a - b)"
  by (simp add: plain_sub_def outcome_simps)

lemma plain_add_value: "a + b \<le> u64_max \<Longrightarrow> plain_add a b = Ok (a + b)"
  by (simp add: plain_add_Ok)

lemma plain_sub_value: "b \<le> a \<Longrightarrow> plain_sub a b = Ok (a - b)"
  by (simp add: plain_sub_Ok)

lemma plain_not_Err: "plain_add a b \<noteq> Err e" "plain_sub a b \<noteq> Err e'"
  by (simp_all add: plain_add_def plain_sub_def outcome_simps)

lemma mapM_Ok_map: "mapM (\<lambda>x. Ok (f x)) xs = Ok (map f xs)"
  by (induction xs) auto

lemma mapM_eq_Ok: "(mapM f xs = Ok ys) = list_all2 (\<lambda>x y. f x = Ok y) xs ys"
proof (induction xs arbitrary: ys)
  case Nil
  show ?case by auto
next
  case (Cons x xs)
  then show ?case by (cases ys) (auto simp: outcome_simps)
qed

lemma mapM_all_Ok: "(\<And>x. x \<in> set xs \<Longrightarrow> f x = Ok (g x)) \<Longrightarrow> mapM f xs = Ok (map g xs)"
  by (induction xs) auto

lemma mapM_total: "(\<And>x. x \<in> set xs \<Longrightarrow> \<exists>y. f x = Ok y) \<Longrightarrow> \<exists>ys. mapM f xs = Ok ys"
  by (induction xs) fastforce+

lemma mapM_Ok_member: "mapM f xs = Ok ys \<Longrightarrow> y \<in> set ys \<Longrightarrow> \<exists>x \<in> set xs. f x = Ok y"
  unfolding mapM_eq_Ok by (induction rule: list_all2_induct) auto

lemma mapM_Ok_result: "mapM f xs = Ok ys \<Longrightarrow> x \<in> set xs \<Longrightarrow> \<exists>y \<in> set ys. f x = Ok y"
  by (induction xs arbitrary: ys) (auto simp: obind_eq_Ok)

lemma mapM_Ok_length: "mapM f xs = Ok ys \<Longrightarrow> length ys = length xs"
  by (auto simp: mapM_eq_Ok dest: list_all2_lengthD)

lemma mapM_Ok_map_eq:
  "mapM f xs = Ok ys \<Longrightarrow> (\<And>x y. x \<in> set xs \<Longrightarrow> f x = Ok y \<Longrightarrow> g y = h x) \<Longrightarrow> map g ys = map h xs"
  by (auto simp: mapM_eq_Ok list_all2_conv_all_nth intro!: nth_equalityI)

lemma foldM_append: "foldM f s (xs @ ys) = obind (foldM f s xs) (\<lambda>t. foldM f t ys)"
proof (induction xs arbitrary: s)
  case (Cons x xs)
  then show ?case by (cases "f s x") auto
qed simp

lemma foldM_plain_add:
  "(foldM plain_add acc xs = Ok s) = (acc + sum_list xs \<le> u64_max \<and> s = acc + sum_list xs
     \<or> xs = [] \<and> s = acc)"
proof (induction xs arbitrary: acc)
  case (Cons x xs)
  then show ?case by (cases xs) (auto simp: outcome_simps plain_add_Ok add.assoc)
qed auto

lemma plain_sum_Ok: "(plain_sum xs = Ok s) = (sum_list xs \<le> u64_max \<and> s = sum_list xs)"
  by (auto simp: plain_sum_def foldM_plain_add u64_max_def)

lemma plain_sum_value: "sum_list xs \<le> u64_max \<Longrightarrow> plain_sum xs = Ok (sum_list xs)"
  by (simp add: plain_sum_Ok)

lemma foldM_checked_add:
  "(foldM (\<lambda>acc v. ok_or (checked_add l acc v) e) acc xs = Ok s)
     = (xs = [] \<and> s = acc \<or> xs \<noteq> [] \<and> acc + sum_list xs \<le> l \<and> s = acc + sum_list xs)"
proof (induction xs arbitrary: acc)
  case (Cons x xs)
  then show ?case by (cases xs) (auto simp: outcome_simps add.assoc)
qed auto

lemma try_sum_Ok: "(try_sum e xs = Ok s) = (sum_list xs \<le> u64_max \<and> s = sum_list xs)"
  by (cases "xs = []") (auto simp: try_sum_def foldM_checked_add u64_max_def)

lemma foldM_checked_no_Panic:
  "foldM (\<lambda>acc v. ok_or (checked_add l acc v) e) acc xs \<noteq> Panic"
  by (induction xs arbitrary: acc) (auto simp: outcome_simps)

lemma try_sum_no_Panic: "try_sum e xs \<noteq> Panic"
  by (simp add: try_sum_def foldM_checked_no_Panic)

lemma foldM_checked_Err:
  "foldM (\<lambda>acc v. ok_or (checked_add l acc v) e) acc xs = Err e' \<Longrightarrow> e' = e"
  by (induction xs arbitrary: acc) (auto simp: outcome_simps)

text \<open>
  A result that may also never be returned: \<open>None\<close> is a loop that does not end.
\<close>

definition dbind ::
    "('e, 'a) outcome option \<Rightarrow> ('a \<Rightarrow> ('e, 'b) outcome option) \<Rightarrow> ('e, 'b) outcome option" where
  "dbind m f = (case m of None \<Rightarrow> None | Some (Ok x) \<Rightarrow> f x | Some (Err e) \<Rightarrow> Some (Err e)
     | Some Panic \<Rightarrow> Some Panic)"

lemma dbind_Ok [outcome_simps]:
  "(dbind m f = Some (Ok y)) = (\<exists>x. m = Some (Ok x) \<and> f x = Some (Ok y))"
  by (auto simp: dbind_def split: option.splits outcome.splits)

section \<open>Text codecs\<close>

text \<open>
  The interface of an \<open>as_str\<close> and \<open>parse\<close> pair: the database columns and the bridge
  carry the names, and the code compares either the names or the values.
\<close>

locale text_codec =
  fixes as_str :: "'a \<Rightarrow> string"
    and parse :: "string \<Rightarrow> ('e, 'a) outcome"
  assumes parse_as_str: "parse (as_str x) = Ok x"
    and parse_sound: "parse s = Ok x \<Longrightarrow> as_str x = s"
begin

lemma as_str_eq [simp]: "as_str x = as_str y \<longleftrightarrow> x = y"
  by (metis parse_as_str outcome.inject(1))

lemma parse_iff: "parse s = Ok x \<longleftrightarrow> s = as_str x"
  using parse_as_str parse_sound by blast

lemma parse_is_name: "(\<exists>x. parse s = Ok x) \<longleftrightarrow> s \<in> range as_str"
  by (auto simp: parse_iff)

end

section \<open>Lists\<close>

text \<open>\<open>sort_unstable_by(|a, b| b.cmp(a))\<close> on plain integers: equal elements are identical.\<close>

definition sort_desc :: "nat list \<Rightarrow> nat list" where
  "sort_desc xs = rev (sort xs)"

lemma mset_sort_desc [simp]: "mset (sort_desc xs) = mset xs"
  by (simp add: sort_desc_def)

lemma set_sort_desc [simp]: "set (sort_desc xs) = set xs"
  by (simp add: sort_desc_def)

lemma length_sort_desc [simp]: "length (sort_desc xs) = length xs"
  by (simp add: sort_desc_def)

lemma sorted_sort_desc: "sorted_wrt (\<ge>) (sort_desc xs)"
  by (simp add: sort_desc_def sorted_wrt_rev)

lemma sum_list_sort_desc [simp]: "sum_list (sort_desc xs) = sum_list xs"
  by (metis mset_sort_desc sum_mset_sum_list)

lemma member_le_sum: "x \<in> set xs \<Longrightarrow> f x \<le> sum_list (map f xs)" for f :: "'a \<Rightarrow> nat"
  by (induction xs) (auto simp: trans_le_add2)

lemma sum_list_mset_eq: "mset xs = mset ys \<Longrightarrow> sum_list (map f xs) = sum_list (map f ys)"
  for f :: "'a \<Rightarrow> nat"
  by (metis mset_map sum_mset_sum_list)

text \<open>Contiguous groups of given sizes: the slices \<open>&xs[start..start + size]\<close>.\<close>

fun split_groups :: "nat list \<Rightarrow> 'a list \<Rightarrow> 'a list list" where
  "split_groups [] xs = []"
| "split_groups (n # ns) xs = take n xs # split_groups ns (drop n xs)"

lemma length_split_groups [simp]: "length (split_groups ns xs) = length ns"
  by (induction ns arbitrary: xs) auto

lemma concat_split_groups: "sum_list ns = length xs \<Longrightarrow> concat (split_groups ns xs) = xs"
  by (induction ns arbitrary: xs) auto

lemma split_groups_member:
  "sum_list ns = length xs \<Longrightarrow> ys \<in> set (split_groups ns xs) \<Longrightarrow>
     \<exists>n \<in> set ns. length ys = n \<and> set ys \<subseteq> set xs"
proof (induction ns arbitrary: xs)
  case (Cons n ns)
  show ?case
  proof (cases "ys = take n xs")
    case True
    with Cons.prems(1) show ?thesis by (auto dest: in_set_takeD)
  next
    case False
    with Cons.prems(2) have "ys \<in> set (split_groups ns (drop n xs))" by simp
    moreover have "sum_list ns = length (drop n xs)" using Cons.prems(1) by simp
    ultimately obtain m where "m \<in> set ns" "length ys = m" "set ys \<subseteq> set (drop n xs)"
      using Cons.IH by blast
    then show ?thesis using set_drop_subset [of n xs] by auto
  qed
qed simp

text \<open>\<open>filter_map\<close>.\<close>

lemma map_filter_append: "List.map_filter f (xs @ ys) = List.map_filter f xs @ List.map_filter f ys"
  by (simp add: List.map_filter_def)

lemma map_filter_all_None: "(\<And>x. x \<in> set xs \<Longrightarrow> f x = None) \<Longrightarrow> List.map_filter f xs = []"
  by (induction xs) (auto simp: map_filter_simps)

lemma set_map_filter: "y \<in> set (List.map_filter f xs) \<longleftrightarrow> (\<exists>x \<in> set xs. f x = Some y)"
  by (induction xs) (auto simp: map_filter_simps split: option.splits)

text \<open>\<open>iter().enumerate()\<close>.\<close>

lemma bex_enumerate:
  "(\<exists>p \<in> set (List.enumerate n xs). P p) \<longleftrightarrow> (\<exists>i < length xs. P (n + i, xs ! i))"
proof
  assume "\<exists>p \<in> set (List.enumerate n xs). P p"
  then obtain p where "p \<in> set (List.enumerate n xs)" "P p" by blast
  then show "\<exists>i < length xs. P (n + i, xs ! i)"
    by (intro exI [of _ "fst p - n"]) (cases p, auto simp: in_set_enumerate_eq)
next
  assume "\<exists>i < length xs. P (n + i, xs ! i)"
  then obtain i where i: "i < length xs" "P (n + i, xs ! i)" by blast
  then have "(n + i, xs ! i) \<in> set (List.enumerate n xs)" by (simp add: in_set_enumerate_eq)
  with i show "\<exists>p \<in> set (List.enumerate n xs). P p" by blast
qed

lemma ball_enumerate:
  "(\<forall>p \<in> set (List.enumerate n xs). P p) \<longleftrightarrow> (\<forall>i < length xs. P (n + i, xs ! i))"
  using bex_enumerate [of n xs "\<lambda>p. \<not> P p"] by blast

lemma in_concat_map: "x \<in> set (concat (map f ys)) \<longleftrightarrow> (\<exists>y \<in> set ys. x \<in> set (f y))"
  by simp

lemma distinct_sub_mset: "mset xs \<subseteq># mset ys \<Longrightarrow> distinct ys \<Longrightarrow> distinct xs"
proof -
  assume sub: "mset xs \<subseteq># mset ys" and dist: "distinct ys"
  obtain zs where "mset zs = mset ys - mset xs" by (metis ex_mset)
  with sub have "mset ys = mset (xs @ zs)" by (simp add: subset_mset.add_diff_inverse)
  with dist have "distinct (xs @ zs)" by (metis mset_eq_imp_distinct_iff)
  then show "distinct xs" by simp
qed

end
