(* ===== verification/PrepTypes.thy ===== *)
theory PrepTypes
  imports Prelude
begin

text \<open>
  The data of the preparation planner,
  \<open>rust/src/wallet/sync/migration/preparation_plan.rs\<close>: notes a transaction spends and
  produces, transactions, layered plans and their accessors.

  Amounts are the values \<open>Zatoshis\<close> holds. What the planner uses of that type is outside
  the repository and comes in through \<open>planner_env\<close>: \<open>zat_ok v\<close> says that
  \<open>Zatoshis::from_u64(v)\<close> succeeds. Its second field decides what \<open>sort_unstable_by_key\<close>
  leaves open: an unstable sort fixes the order only up to equal keys, so notes of equal value
  are ordered by \<open>tie_key\<close>, which may depend on the whole vector. The locale
  \<open>planner_contract\<close> states what \<open>Zatoshis\<close> must satisfy, and \<open>reference_env\<close>
  interprets it.
\<close>

definition PREP_TX_ACTIONS :: usize where "PREP_TX_ACTIONS = 16"
definition FUNDING_OUTPUTS_PER_TX :: usize where
  "FUNDING_OUTPUTS_PER_TX = PREP_TX_ACTIONS - 2"
definition CONSOLIDATION_INPUTS_PER_TX :: usize where
  "CONSOLIDATION_INPUTS_PER_TX = PREP_TX_ACTIONS - 1"

lemmas prep_constants =
  PREP_TX_ACTIONS_def FUNDING_OUTPUTS_PER_TX_def CONSOLIDATION_INPUTS_PER_TX_def

section \<open>Notes\<close>

datatype prep_input =
    Wallet usize u64              \<comment> \<open>index into \<open>available\<close>, value\<close>
  | Prior usize usize usize u64   \<comment> \<open>layer, transaction, output, value\<close>

fun input_value :: "prep_input \<Rightarrow> u64" where
  "input_value (Wallet index v) = v"
| "input_value (Prior layer transaction output v) = v"

datatype prep_output = Funding u64 | Intermediate u64 | Change u64

fun output_value :: "prep_output \<Rightarrow> u64" where
  "output_value (Funding v) = v"
| "output_value (Intermediate v) = v"
| "output_value (Change v) = v"

datatype parse_prep_output_error = ParsePrepOutputError

definition from_role :: "string \<Rightarrow> u64 \<Rightarrow> (parse_prep_output_error, prep_output) outcome" where
  "from_role role v =
     (if role = ''funding'' then Ok (Funding v)
      else if role = ''intermediate'' then Ok (Intermediate v)
      else if role = ''change'' then Ok (Change v)
      else Err ParsePrepOutputError)"

fun prep_output_role :: "prep_output \<Rightarrow> string" where
  "prep_output_role (Funding v) = ''funding''"
| "prep_output_role (Intermediate v) = ''intermediate''"
| "prep_output_role (Change v) = ''change''"

lemma from_role_role: "from_role (prep_output_role out) (output_value out) = Ok out"
  by (cases out) (simp_all add: from_role_def)

lemma from_role_Ok: "from_role role v = Ok out \<Longrightarrow> prep_output_role out = role \<and> output_value out = v"
  by (auto simp: from_role_def split: if_splits)

section \<open>Transactions and plans\<close>

record prep_transaction =
  tx_inputs :: "prep_input list"
  tx_outputs :: "prep_output list"

definition action_count :: "prep_transaction \<Rightarrow> usize" where
  "action_count tx = length (tx_inputs tx) + length (tx_outputs tx)"

type_synonym layers = "prep_transaction list list"

record preparation_plan =
  plan_layers :: layers
  direct_funding :: "(usize \<times> u64) list"

definition layer_count :: "preparation_plan \<Rightarrow> usize" where
  "layer_count plan = length (plan_layers plan)"

definition transaction_count :: "preparation_plan \<Rightarrow> usize" where
  "transaction_count plan = sum_list (map length (plan_layers plan))"

definition all_outputs :: "layers \<Rightarrow> prep_output list" where
  "all_outputs layers = concat (map tx_outputs (concat layers))"

definition all_inputs :: "layers \<Rightarrow> prep_input list" where
  "all_inputs layers = concat (map tx_inputs (concat layers))"

fun funding_value :: "prep_output \<Rightarrow> u64 option" where
  "funding_value (Funding v) = Some v"
| "funding_value _ = None"

fun intermediate_value :: "prep_output \<Rightarrow> u64 option" where
  "intermediate_value (Intermediate v) = Some v"
| "intermediate_value _ = None"

fun change_value :: "prep_output \<Rightarrow> u64 option" where
  "change_value (Change v) = Some v"
| "change_value _ = None"

definition funding_notes :: "preparation_plan \<Rightarrow> u64 list" where
  "funding_notes plan =
     List.map_filter funding_value (all_outputs (plan_layers plan)) @ map snd (direct_funding plan)"

definition residual_notes :: "preparation_plan \<Rightarrow> u64 list" where
  "residual_notes plan = List.map_filter change_value (all_outputs (plan_layers plan))"

definition residual_count :: "preparation_plan \<Rightarrow> usize" where
  "residual_count plan = length (residual_notes plan)"

datatype prep_error = InsufficientFunds | BalanceInvalid

section \<open>The environment of the planner\<close>

record planner_env =
  zat_ok :: "u64 \<Rightarrow> bool"
  tie_key :: "prep_input list \<Rightarrow> prep_input \<Rightarrow> nat"

definition order_desc :: "planner_env \<Rightarrow> prep_input list \<Rightarrow> prep_input list" where
  "order_desc E pool = rev (sort_key input_value (sort_key (tie_key E pool) pool))"

lemma mset_order [simp]: "mset (order_desc E pool) = mset pool"
  by (simp add: order_desc_def)

lemma set_order [simp]: "set (order_desc E pool) = set pool"
  by (simp add: order_desc_def)

lemma length_order [simp]: "length (order_desc E pool) = length pool"
  by (simp add: order_desc_def)

lemma distinct_order [simp]: "distinct (order_desc E pool) = distinct pool"
  by (simp add: order_desc_def distinct_sort)

lemma sum_order: "sum_list (map input_value (order_desc E pool)) = sum_list (map input_value pool)"
  by (rule sum_list_mset_eq) simp

lemma sorted_order: "sorted_wrt (\<lambda>a b. input_value b \<le> input_value a) (order_desc E pool)"
  using sorted_sort_key [of input_value "sort_key (tie_key E pool) pool"]
  by (simp add: order_desc_def sorted_wrt_rev sorted_map)

text \<open>
  \<open>zat\<close> is the planner's conversion with \<open>expect\<close>; \<open>zat_sum\<close> is
  \<open>sum::<Option<Zatoshis>>()\<close>.
\<close>

definition zat :: "planner_env \<Rightarrow> u64 \<Rightarrow> (prep_error, u64) outcome" where
  "zat E v = expect (if zat_ok E v then Some v else None)"

definition zat_sum :: "planner_env \<Rightarrow> u64 list \<Rightarrow> u64 option" where
  "zat_sum E vs = (if zat_ok E (sum_list vs) then Some (sum_list vs) else None)"

lemma zat_Ok: "(zat E v = Ok w) = (zat_ok E v \<and> w = v)"
  by (auto simp: zat_def outcome_simps)

lemma zat_value: "zat_ok E v \<Longrightarrow> zat E v = Ok v"
  by (simp add: zat_Ok)

lemma zat_not_Err: "zat E v \<noteq> Err e"
  by (simp add: zat_def outcome_simps)

locale planner_contract =
  fixes E :: planner_env
  assumes zat_down: "zat_ok E v \<Longrightarrow> w \<le> v \<Longrightarrow> zat_ok E w"
    and zat_twice: "zat_ok E v \<Longrightarrow> 2 * v \<le> u64_max"
begin

lemma zat_le: "zat_ok E v \<Longrightarrow> v \<le> u64_max"
  using zat_twice by fastforce

lemma zat_add_le: "zat_ok E v \<Longrightarrow> zat_ok E w \<Longrightarrow> v + w \<le> u64_max"
  using zat_twice [of v] zat_twice [of w] by linarith

end

text \<open>
  The reference environment: amounts up to 21 million ZEC, equal notes in reverse order of
  insertion.
\<close>

definition reference_env :: planner_env where
  "reference_env = \<lparr>zat_ok = (\<lambda>v. v \<le> 2100000000000000), tie_key = (\<lambda>_ _. 0)\<rparr>"

interpretation reference: planner_contract reference_env
  by unfold_locales (auto simp: reference_env_def u64_max_def)

end
