(* ===== verification/PrepPlan.thy ===== *)
theory PrepPlan
  imports PrepTypes
begin

text \<open>
  The functions of \<open>preparation_plan.rs\<close>: exact matches, consolidation, the balanced split
  tree, the layered greedy planner, its consolidation fallback and \<open>plan_preparation\<close>.
  Vectors passed by mutable reference are arguments that come back in the result; a loop is a
  recursive function or a fold with the loop's variables as accumulator.
\<close>

section \<open>Exact matches\<close>

definition position_unused :: "u64 list \<Rightarrow> bool list \<Rightarrow> u64 \<Rightarrow> usize option" where
  "position_unused available used funding =
     find (\<lambda>index. \<not> used ! index \<and> available ! index = funding) [0..<length available]"

text \<open>\<open>remaining.retain\<close> with its closure; \<open>kept\<close> is what stays in \<open>remaining\<close>.\<close>

fun extract_loop ::
    "planner_env \<Rightarrow> u64 list \<Rightarrow> bool list \<Rightarrow> (usize \<times> u64) list \<Rightarrow> u64 list \<Rightarrow> u64 list \<Rightarrow>
      (prep_error, bool list \<times> (usize \<times> u64) list \<times> u64 list) outcome" where
  "extract_loop E available used direct kept [] = Ok (used, direct, kept)"
| "extract_loop E available used direct kept (funding # rest) =
     (case position_unused available used funding of
        Some index \<Rightarrow>
          obind (zat E funding) (\<lambda>z.
            extract_loop E available (used[index := True]) (direct @ [(index, z)]) kept rest)
      | None \<Rightarrow> extract_loop E available used direct (kept @ [funding]) rest)"

definition extract_direct_funding ::
    "planner_env \<Rightarrow> u64 list \<Rightarrow> u64 list \<Rightarrow>
      (prep_error, bool list \<times> (usize \<times> u64) list \<times> u64 list) outcome" where
  "extract_direct_funding E available remaining =
     extract_loop E available (replicate (length available) False) [] [] remaining"

section \<open>Consolidation\<close>

function consolidation_batch_sizes :: "usize \<Rightarrow> usize list" where
  "consolidation_batch_sizes n =
     (if n = 0 then []
      else let take_count =
             (if n \<le> CONSOLIDATION_INPUTS_PER_TX then n
              else if n - CONSOLIDATION_INPUTS_PER_TX = 1 then CONSOLIDATION_INPUTS_PER_TX - 1
              else CONSOLIDATION_INPUTS_PER_TX)
           in take_count # consolidation_batch_sizes (n - take_count))"
  by pat_completeness auto
termination
  by (relation "measure id") (auto simp: prep_constants)

declare consolidation_batch_sizes.simps [simp del]

fun consolidate_batches ::
    "planner_env \<Rightarrow> usize \<Rightarrow> u64 \<Rightarrow> prep_input list \<Rightarrow> prep_transaction list \<Rightarrow> prep_input list \<Rightarrow>
      prep_input list list \<Rightarrow>
      (prep_error, prep_input list \<times> prep_transaction list \<times> prep_input list) outcome" where
  "consolidate_batches E layer fee leftover txs next_notes [] = Ok (leftover, txs, next_notes)"
| "consolidate_batches E layer fee leftover txs next_notes (batch # batches) =
     obind (plain_sum (map input_value batch)) (\<lambda>total.
       if total \<le> fee
       then consolidate_batches E layer fee (leftover @ batch) txs next_notes batches
       else obind (zat E (total - fee)) (\<lambda>feeder.
         consolidate_batches E layer fee leftover
           (txs @ [\<lparr>tx_inputs = batch, tx_outputs = [Intermediate feeder]\<rparr>])
           (next_notes @ [Prior layer (length txs) 0 feeder]) batches))"

definition consolidate ::
    "planner_env \<Rightarrow> prep_input list \<Rightarrow> usize \<Rightarrow> u64 \<Rightarrow> prep_transaction list \<Rightarrow> prep_input list \<Rightarrow>
      (prep_error, prep_input list \<times> prep_transaction list \<times> prep_input list) outcome" where
  "consolidate E pool layer fee txs next_notes =
     (if length pool < 2 then Ok (pool, txs, next_notes)
      else let sorted_pool = order_desc E pool in
        consolidate_batches E layer fee [] txs next_notes
          (split_groups (consolidation_batch_sizes (length sorted_pool)) sorted_pool))"

section \<open>Unconsumed feeders\<close>

text \<open>Output coordinates \<open>(layer, transaction, output)\<close> that some transaction spends.\<close>

fun spent_ref :: "prep_input \<Rightarrow> (usize \<times> usize \<times> usize) option" where
  "spent_ref (Wallet _ _) = None"
| "spent_ref (Prior layer transaction output _) = Some (layer, transaction, output)"

definition spent_outputs :: "layers \<Rightarrow> (usize \<times> usize \<times> usize) list" where
  "spent_outputs layers = List.map_filter spent_ref (all_inputs layers)"

text \<open>
  The intermediate outputs of the transactions of one layer as input references, counting
  transactions from \<open>start\<close>, and those of all layers in order.
\<close>

definition tx_feeders :: "usize \<Rightarrow> usize \<Rightarrow> prep_transaction \<Rightarrow> prep_input list" where
  "tx_feeders li ti tx =
     List.map_filter (\<lambda>(oi, out). map_option (Prior li ti oi) (intermediate_value out))
       (List.enumerate 0 (tx_outputs tx))"

definition layer_feeders :: "usize \<Rightarrow> usize \<Rightarrow> prep_transaction list \<Rightarrow> prep_input list" where
  "layer_feeders li start layer =
     concat (map (\<lambda>(ti, tx). tx_feeders li ti tx) (List.enumerate start layer))"

definition feeders :: "layers \<Rightarrow> prep_input list" where
  "feeders layers =
     concat (map (\<lambda>(li, layer). layer_feeders li 0 layer) (List.enumerate 0 layers))"

definition unconsumed_feeders :: "layers \<Rightarrow> prep_input list" where
  "unconsumed_feeders layers =
     filter (\<lambda>nt. the (spent_ref nt) \<notin> set (spent_outputs layers)) (feeders layers)"

section \<open>The balanced split tree\<close>

definition subtree_capacity :: "usize \<Rightarrow> usize" where
  "subtree_capacity depth = FUNDING_OUTPUTS_PER_TX ^ depth"

lemma depth_less_capacity: "depth < subtree_capacity depth"
  by (simp add: subtree_capacity_def prep_constants power_gt_expt)

function split_depth_from :: "usize \<Rightarrow> usize \<Rightarrow> usize" where
  "split_depth_from depth n =
     (if subtree_capacity depth < n then split_depth_from (depth + 1) n else depth)"
  by pat_completeness auto
termination
proof (relation "measure (\<lambda>(depth, n). n - depth)")
  fix depth n assume "subtree_capacity depth < n"
  then show "((depth + 1, n), depth, n) \<in> measure (\<lambda>(depth, n). n - depth)"
    using depth_less_capacity [of depth] by simp
qed simp

declare split_depth_from.simps [simp del]

definition split_depth :: "usize \<Rightarrow> usize" where
  "split_depth n = (if n = 0 then 0 else split_depth_from 1 n)"

definition even_group_sizes :: "usize \<Rightarrow> usize \<Rightarrow> usize list" where
  "even_group_sizes len g =
     map (\<lambda>i. len div g + (if i < len mod g then 1 else 0)) [0..<g]"

definition div_ceil :: "nat \<Rightarrow> nat \<Rightarrow> nat" where
  "div_ceil a b = (if a mod b = 0 then a div b else a div b + 1)"

text \<open>The slices of \<open>targets\<close> that the children of an internal node produce.\<close>

definition child_groups :: "u64 list \<Rightarrow> u64 list list" where
  "child_groups targets =
     (let child_cap = subtree_capacity (split_depth (length targets) - 1);
          g = div_ceil (length targets) child_cap
      in split_groups (even_group_sizes (length targets) g) targets)"

subsection \<open>Depth and group sizes\<close>

lemma subtree_capacity_Suc: "subtree_capacity (Suc d) = 14 * subtree_capacity d"
  by (simp add: subtree_capacity_def prep_constants)

lemma subtree_capacity_mono: "d \<le> e \<Longrightarrow> subtree_capacity d \<le> subtree_capacity e"
  by (simp add: subtree_capacity_def prep_constants power_increasing)

lemma subtree_capacity_1: "subtree_capacity 1 = 14"
  by (simp add: subtree_capacity_def prep_constants)

lemma subtree_capacity_pos [simp]: "0 < subtree_capacity d"
  by (simp add: subtree_capacity_def prep_constants)

lemma split_depth_from_bounds:
  "depth \<le> split_depth_from depth n \<and> n \<le> subtree_capacity (split_depth_from depth n)
     \<and> (depth < split_depth_from depth n \<longrightarrow> subtree_capacity (split_depth_from depth n - 1) < n)"
proof (induction depth n rule: split_depth_from.induct)
  case (1 depth n)
  show ?case
  proof (cases "subtree_capacity depth < n")
    case True
    with 1 have IH: "depth + 1 \<le> split_depth_from (depth + 1) n"
      "n \<le> subtree_capacity (split_depth_from (depth + 1) n)"
      "depth + 1 < split_depth_from (depth + 1) n \<longrightarrow>
         subtree_capacity (split_depth_from (depth + 1) n - 1) < n" by blast+
    moreover have "split_depth_from depth n = split_depth_from (depth + 1) n"
      using True by (subst split_depth_from.simps) simp
    ultimately show ?thesis
      using True by (cases "depth + 1 < split_depth_from (depth + 1) n") auto
  next
    case False
    then show ?thesis by (subst (1 2 3 4) split_depth_from.simps) simp
  qed
qed

lemma le_capacity_split_depth: "n \<le> subtree_capacity (split_depth n)"
  using split_depth_from_bounds [of 1 n] by (simp add: split_depth_def)

lemma capacity_less_split_depth:
  "1 < split_depth n \<Longrightarrow> subtree_capacity (split_depth n - 1) < n"
  using split_depth_from_bounds [of 1 n] by (simp add: split_depth_def split: if_splits)

lemma split_depth_le_1: "split_depth n \<le> 1 \<longleftrightarrow> n \<le> 14"
proof
  assume "split_depth n \<le> 1"
  then have "subtree_capacity (split_depth n) \<le> 14"
    using subtree_capacity_mono subtree_capacity_1 by metis
  with le_capacity_split_depth [of n] show "n \<le> 14" by linarith
next
  assume n: "n \<le> 14"
  show "split_depth n \<le> 1"
  proof (rule ccontr)
    assume d: "\<not> split_depth n \<le> 1"
    then have "14 \<le> subtree_capacity (split_depth n - 1)"
      using subtree_capacity_mono [of 1 "split_depth n - 1"] subtree_capacity_1 by simp
    moreover have "subtree_capacity (split_depth n - 1) < n"
      using d by (intro capacity_less_split_depth) simp
    ultimately show False using n by simp
  qed
qed

lemma sum_indicator: "sum_list (map (\<lambda>i. if i < r then 1 else 0) [0..<g]) = min r g" for r :: nat
  by (induction g) auto

lemma sum_even_group_sizes: "0 < g \<Longrightarrow> sum_list (even_group_sizes len g) = len"
proof -
  assume g: "0 < g"
  have "sum_list (even_group_sizes len g) = len div g * g + min (len mod g) g"
    by (simp add: even_group_sizes_def sum_list_addf sum_list_triv sum_indicator mult.commute)
  then show ?thesis using g by simp
qed

lemma div_ceil_bounds:
  assumes "0 < b"
  shows "a \<le> div_ceil a b * b \<and> div_ceil a b * b < a + b"
proof (cases "a mod b = 0")
  case True
  then have "div_ceil a b * b = a"
    unfolding div_ceil_def using div_mult_mod_eq [of a b] by simp
  with assms show ?thesis by simp
next
  case False
  then have "div_ceil a b * b = a div b * b + b" by (simp add: div_ceil_def)
  moreover have "a mod b < b" using assms by simp
  ultimately show ?thesis using False div_mult_mod_eq [of a b] by linarith
qed

lemma even_group_size_bounds:
  assumes "k \<in> set (even_group_sizes len g)" and "g \<le> len" and "len \<le> g * cap" and "0 < g"
  shows "0 < k \<and> k \<le> cap"
proof -
  from assms(1) obtain i where i: "k = len div g + (if i < len mod g then 1 else 0)"
    by (auto simp: even_group_sizes_def)
  have "1 \<le> len div g" using assms(2,4) by (simp add: div_greater_zero_iff Suc_leI)
  moreover have "k \<le> cap"
  proof (cases "len mod g = 0")
    case True
    have "len div g \<le> cap" using assms(3,4)
      by (metis div_le_mono nonzero_mult_div_cancel_left less_numeral_extra(3))
    with True show ?thesis by (simp add: i)
  next
    case False
    have "len div g * g < g * cap" using assms(3,4) False div_mult_mod_eq [of len g]
      by linarith
    then have "len div g < cap" by (simp add: mult.commute)
    then show ?thesis by (simp add: i)
  qed
  ultimately show ?thesis by (simp add: i)
qed

text \<open>
  An internal node has between 2 and 14 children, they partition its targets in order, and each
  is non-empty and fits a subtree one level lower.
\<close>

lemma child_groups_facts:
  assumes "1 < split_depth (length targets)"
  shows "concat (child_groups targets) = targets"
    and "2 \<le> length (child_groups targets)" "length (child_groups targets) \<le> 14"
    and "grp \<in> set (child_groups targets) \<Longrightarrow>
      0 < length grp \<and> length grp \<le> subtree_capacity (split_depth (length targets) - 1)
        \<and> length grp < length targets \<and> set grp \<subseteq> set targets"
proof -
  let ?n = "length targets"
  let ?cap = "subtree_capacity (split_depth ?n - 1)"
  define g where "g = div_ceil ?n ?cap"
  have cap: "0 < ?cap" "?cap < ?n" using capacity_less_split_depth [OF assms] by auto
  have "?n \<le> subtree_capacity (Suc (split_depth ?n - 1))"
    using le_capacity_split_depth [of ?n] assms by simp
  then have n14: "?n \<le> 14 * ?cap" by (simp add: subtree_capacity_Suc)
  note g1 = div_ceil_bounds [OF cap(1), of ?n, folded g_def]
  have g_ge: "2 \<le> g"
  proof (rule ccontr)
    assume "\<not> 2 \<le> g"
    then have "g * ?cap \<le> 1 * ?cap" by (intro mult_le_mono1) simp
    with g1 cap show False by linarith
  qed
  have g_le: "g \<le> 14"
  proof (rule ccontr)
    assume "\<not> g \<le> 14"
    then have "15 * ?cap \<le> g * ?cap" by (intro mult_le_mono1) simp
    with g1 n14 show False by linarith
  qed
  have g_n: "g \<le> ?n"
  proof (rule ccontr)
    assume "\<not> g \<le> ?n"
    then have "(?n + 1) * ?cap \<le> g * ?cap" by (intro mult_le_mono1) simp
    then have "?n * ?cap + ?cap \<le> g * ?cap" by simp
    moreover have "?n * 1 \<le> ?n * ?cap" using cap(1) by (intro mult_le_mono2) linarith
    ultimately show False using g1 by linarith
  qed
  have groups: "child_groups targets = split_groups (even_group_sizes ?n g) targets"
    by (simp add: child_groups_def g_def Let_def)
  have sum: "sum_list (even_group_sizes ?n g) = length targets"
    using g_ge by (intro sum_even_group_sizes) simp
  show "concat (child_groups targets) = targets"
    by (simp add: groups concat_split_groups sum)
  show "2 \<le> length (child_groups targets)" "length (child_groups targets) \<le> 14"
    using g_ge g_le by (simp_all add: groups even_group_sizes_def)
  assume "grp \<in> set (child_groups targets)"
  with split_groups_member [OF sum] groups obtain k where
    "k \<in> set (even_group_sizes ?n g)" "length grp = k" "set grp \<subseteq> set targets" by auto
  moreover from this(1) g_n g1 g_ge have "0 < k \<and> k \<le> ?cap"
    by (intro even_group_size_bounds) auto
  ultimately show "0 < length grp \<and> length grp \<le> ?cap \<and> length grp < ?n
      \<and> set grp \<subseteq> set targets" using cap by auto
qed

lemma length_child_group_nth:
  "1 < split_depth (length targets) \<Longrightarrow> i < length (child_groups targets) \<Longrightarrow>
     length (child_groups targets ! i) < length targets"
  using child_groups_facts(4) nth_mem by blast

lemma length_child_group:
  "\<not> split_depth (length targets) \<le> 1 \<Longrightarrow> grp \<in> set (child_groups targets) \<Longrightarrow>
     length grp < length targets"
  using child_groups_facts(4) [of targets grp] by simp

section \<open>Cost and construction of a split tree\<close>

function subtree_cost :: "u64 list \<Rightarrow> u64 \<Rightarrow> (prep_error, u64 \<times> u64) outcome" where
  "subtree_cost targets fee =
     (if split_depth (length targets) \<le> 1
      then obind (plain_sum targets) (\<lambda>s. obind (plain_add s fee) (\<lambda>v. Ok (1, v)))
      else foldM (\<lambda>acc grp.
             obind (subtree_cost grp fee) (\<lambda>(t, v).
             obind (plain_add (fst acc) t) (\<lambda>txs'.
             obind (plain_add (snd acc) v) (\<lambda>value'. Ok (txs', value')))))
           (1, fee) (child_groups targets))"
  by pat_completeness auto
termination
proof (relation "measure (\<lambda>(targets, fee). length targets)")
  fix targets :: "u64 list" and fee acc grp
  assume "\<not> split_depth (length targets) \<le> 1" and "grp \<in> set (child_groups targets)"
  then show "((grp, fee), targets, fee) \<in> measure (\<lambda>(targets, fee). length targets)"
    using length_child_group by simp
qed simp

declare subtree_cost.simps [simp del]

text \<open>
  \<open>build_split\<close>: \<open>pad_layers\<close> is its first loop, \<open>push_tx\<close> is
  \<open>layers[layer].push(..)\<close>. The children recurse with the growing layers as accumulator.
\<close>

definition pad_layers :: "usize \<Rightarrow> layers \<Rightarrow> layers" where
  "pad_layers layer layers = layers @ replicate (layer + 1 - length layers) []"

definition push_tx :: "usize \<Rightarrow> prep_transaction \<Rightarrow> layers \<Rightarrow> layers" where
  "push_tx layer tx layers = layers[layer := layers ! layer @ [tx]]"

text \<open>The leftover of the top call becomes one more intermediate output.\<close>

definition leftover_output :: "planner_env \<Rightarrow> u64 \<Rightarrow> (prep_error, prep_output list) outcome" where
  "leftover_output E leftover =
     (if leftover > 0 then obind (zat E leftover) (\<lambda>z. Ok [Intermediate z]) else Ok [])"

function build_split ::
    "planner_env \<Rightarrow> prep_input \<Rightarrow> u64 \<Rightarrow> u64 list \<Rightarrow> u64 \<Rightarrow> usize \<Rightarrow> layers \<Rightarrow> (prep_error, layers) outcome"
where
  "build_split E source source_value targets fee layer layers0 =
     (let layers = pad_layers layer layers0;
          tx_index = length (layers ! layer)
      in if split_depth (length targets) \<le> 1 then
           obind (mapM (zat E) targets) (\<lambda>minted.
           obind (plain_sum targets) (\<lambda>spent.
           obind (plain_sub source_value fee) (\<lambda>after_fee.
           obind (plain_sub after_fee spent) (\<lambda>leftover.
           obind (leftover_output E leftover) (\<lambda>extra.
             Ok (push_tx layer
                   \<lparr>tx_inputs = [source], tx_outputs = map Funding minted @ extra\<rparr> layers))))))
         else
           obind (mapM (\<lambda>grp. obind (subtree_cost grp fee) (\<lambda>(t, v). Ok v)) (child_groups targets))
             (\<lambda>child_values.
           obind (mapM (zat E) child_values) (\<lambda>minted.
           obind (plain_sum child_values) (\<lambda>spent.
           obind (plain_sub source_value fee) (\<lambda>after_fee.
           obind (plain_sub after_fee spent) (\<lambda>leftover.
           obind (leftover_output E leftover) (\<lambda>extra.
             foldM (\<lambda>acc (output, (grp, cv)).
                 obind (zat E cv) (\<lambda>z.
                   build_split E (Prior layer tx_index output z) cv grp fee (layer + 1) acc))
               (push_tx layer
                  \<lparr>tx_inputs = [source], tx_outputs = map Intermediate minted @ extra\<rparr> layers)
               (List.enumerate 0 (zip (child_groups targets) child_values)))))))))"
  by pat_completeness auto
termination
  by (relation "measure (\<lambda>(E, source, v, targets, fee, layer, layers). length targets)")
    (auto simp: in_set_enumerate_eq intro!: length_child_group_nth)

declare build_split.simps [simp del]

end
