(* ===== verification/PrepGreedy.thy ===== *)
theory PrepGreedy
  imports PrepPlan
begin

text \<open>
  \<open>plan_preparation\<close> of \<open>preparation_plan.rs\<close>: the layered greedy planner, its
  fan-out fast path, the residual consolidation and the fallback that first consolidates every
  note into one.
\<close>

section \<open>What a consolidation does\<close>

lemma batch_sizes_sum: "sum_list (consolidation_batch_sizes n) = n"
proof (induction n rule: consolidation_batch_sizes.induct)
  case (1 n)
  then show ?case
    by (subst consolidation_batch_sizes.simps) (auto simp: Let_def prep_constants)
qed

lemma batch_sizes_bounds:
  "n \<noteq> 1 \<Longrightarrow> k \<in> set (consolidation_batch_sizes n) \<Longrightarrow> 2 \<le> k \<and> k \<le> 15"
proof (induction n rule: consolidation_batch_sizes.induct)
  case (1 n)
  show ?case
  proof (cases "n = 0")
    case False
    define t where "t = (if n \<le> CONSOLIDATION_INPUTS_PER_TX then n
      else if n - CONSOLIDATION_INPUTS_PER_TX = 1 then CONSOLIDATION_INPUTS_PER_TX - 1
      else CONSOLIDATION_INPUTS_PER_TX)"
    have sizes: "consolidation_batch_sizes n = t # consolidation_batch_sizes (n - t)"
      using False by (subst consolidation_batch_sizes.simps) (simp add: t_def Let_def)
    have t: "2 \<le> t \<and> t \<le> 15 \<and> n - t \<noteq> 1"
      using False "1.prems"(1) by (auto simp: t_def prep_constants)
    with "1.IH" [OF False t_def] "1.prems"(2) sizes show ?thesis by auto
  qed (use "1.prems" in \<open>simp add: consolidation_batch_sizes.simps\<close>)
qed

text \<open>
  The transactions a consolidation appends: each spends one batch of at least two notes and
  mints their value less the fee; the batches and the returned notes are the pool.
\<close>

definition consolidation_tx :: "u64 \<Rightarrow> prep_transaction \<Rightarrow> bool" where
  "consolidation_tx fee tx \<longleftrightarrow> 2 \<le> length (tx_inputs tx) \<and> length (tx_inputs tx) \<le> 15 \<and>
     fee < sum_list (map input_value (tx_inputs tx)) \<and>
     tx_outputs tx = [Intermediate (sum_list (map input_value (tx_inputs tx)) - fee)]"

lemma layer_feeders_append:
  "layer_feeders li start (txs @ new) =
     layer_feeders li start txs @ layer_feeders li (start + length txs) new"
  by (simp add: layer_feeders_def enumerate_append_eq)

lemma layer_feeders_Cons:
  "layer_feeders li start (tx # txs) = tx_feeders li start tx @ layer_feeders li (Suc start) txs"
  by (simp add: layer_feeders_def)

lemma layer_feeders_Nil [simp]: "layer_feeders li start [] = []"
  by (simp add: layer_feeders_def)

lemma tx_feeders_consolidation:
  "tx_feeders li ti \<lparr>tx_inputs = batch, tx_outputs = [Intermediate v]\<rparr> = [Prior li ti 0 v]"
  by (simp add: tx_feeders_def map_filter_simps)

lemma tx_feeders_funding:
  "tx_feeders li ti \<lparr>tx_inputs = batch, tx_outputs = map Funding vs @ [Intermediate v]\<rparr>
     = [Prior li ti (length vs) v]"
  "tx_feeders li ti \<lparr>tx_inputs = batch, tx_outputs = map Funding vs\<rparr> = []"
proof -
  have none: "List.map_filter (\<lambda>(oi, out). map_option (Prior li ti oi) (intermediate_value out))
      (List.enumerate n (map Funding vs)) = []" for n
    by (rule map_filter_all_None) (auto simp: in_set_enumerate_eq)
  show "tx_feeders li ti \<lparr>tx_inputs = batch, tx_outputs = map Funding vs @ [Intermediate v]\<rparr>
      = [Prior li ti (length vs) v]"
    by (simp add: tx_feeders_def enumerate_append_eq map_filter_append none map_filter_simps)
  show "tx_feeders li ti \<lparr>tx_inputs = batch, tx_outputs = map Funding vs\<rparr> = []"
    by (simp add: tx_feeders_def none)
qed

lemma length_tx_feeders_consolidation: "consolidation_tx fee tx \<Longrightarrow> length (tx_feeders li ti tx) = 1"
  by (simp add: consolidation_tx_def tx_feeders_def map_filter_simps)

lemma length_layer_feeders_consolidation:
  "\<forall>tx \<in> set txs. consolidation_tx fee tx \<Longrightarrow> length (layer_feeders li start txs) = length txs"
  by (induction txs arbitrary: start)
    (auto simp: layer_feeders_Cons length_tx_feeders_consolidation)

lemma consolidate_batches_Ok:
  assumes "consolidate_batches E layer fee left0 txs0 next0 batches = Ok (left, txs, next_notes)"
    and "\<And>b. b \<in> set batches \<Longrightarrow> 2 \<le> length b \<and> length b \<le> 15"
  shows "\<exists>new. txs = txs0 @ new \<and> next_notes = next0 @ layer_feeders layer (length txs0) new
    \<and> (\<forall>tx \<in> set new. consolidation_tx fee tx \<and> (\<forall>out \<in> set (tx_outputs tx). zat_ok E (output_value out)))
    \<and> mset left + mset (concat (map tx_inputs new)) = mset left0 + mset (concat batches)"
  using assms
proof (induction E layer fee left0 txs0 next0 batches
    rule: consolidate_batches.induct [case_names Nil Cons])
  case Nil
  then show ?case by (auto)
next
  case (Cons E layer fee left0 txs0 next0 batch batches)
  let ?s = "sum_list (map input_value batch)"
  from Cons.prems(1) have s: "plain_sum (map input_value batch) = (Ok ?s :: (prep_error, u64) outcome)"
    by (auto simp: outcome_simps plain_sum_Ok)
  show ?case
  proof (cases "?s \<le> fee")
    case True
    with Cons.prems s have
      "consolidate_batches E layer fee (left0 @ batch) txs0 next0 batches = Ok (left, txs, next_notes)"
      by simp
    from Cons.IH(1) [OF s True this] Cons.prems(2) show ?thesis by (auto simp: ac_simps)
  next
    case False
    define tx where "tx = \<lparr>tx_inputs = batch, tx_outputs = [Intermediate (?s - fee)]\<rparr>"
    from False Cons.prems s have z: "zat E (?s - fee) = Ok (?s - fee)" and
      rest: "consolidate_batches E layer fee left0 (txs0 @ [tx])
        (next0 @ [Prior layer (length txs0) 0 (?s - fee)]) batches = Ok (left, txs, next_notes)"
      by (auto simp: outcome_simps zat_Ok tx_def)
    from Cons.IH(2) [OF s False z] rest Cons.prems(2) obtain new where new:
      "txs = txs0 @ [tx] @ new"
      "next_notes = next0 @ [Prior layer (length txs0) 0 (?s - fee)]
         @ layer_feeders layer (Suc (length txs0)) new"
      "\<forall>tx \<in> set new. consolidation_tx fee tx \<and> (\<forall>out \<in> set (tx_outputs tx). zat_ok E (output_value out))"
      "mset left + mset (concat (map tx_inputs new)) = mset left0 + mset (concat batches)"
      by (auto simp: tx_def)
    have "consolidation_tx fee tx"
      using Cons.prems(2) [of batch] False by (simp add: consolidation_tx_def tx_def)
    moreover have "layer_feeders layer (length txs0) (tx # new) =
      Prior layer (length txs0) 0 (?s - fee) # layer_feeders layer (Suc (length txs0)) new"
      by (simp add: layer_feeders_Cons tx_feeders_consolidation tx_def)
    ultimately show ?thesis using new z
      by (intro exI [of _ "tx # new"]) (auto simp: tx_def zat_Ok ac_simps)
  qed
qed

lemma consolidate_Ok:
  assumes "consolidate E pool layer fee txs0 next0 = Ok (left, txs, next_notes)"
  shows "\<exists>new. txs = txs0 @ new \<and> next_notes = next0 @ layer_feeders layer (length txs0) new
    \<and> (\<forall>tx \<in> set new. consolidation_tx fee tx \<and> (\<forall>out \<in> set (tx_outputs tx). zat_ok E (output_value out)))
    \<and> mset left + mset (concat (map tx_inputs new)) = mset pool"
proof (cases "length pool < 2")
  case True
  with assms show ?thesis by (auto simp: consolidate_def)
next
  case False
  let ?sizes = "consolidation_batch_sizes (length pool)"
  let ?batches = "split_groups ?sizes (order_desc E pool)"
  from assms False have run:
    "consolidate_batches E layer fee [] txs0 next0 ?batches = Ok (left, txs, next_notes)"
    by (simp add: consolidate_def Let_def)
  have sum: "sum_list ?sizes = length (order_desc E pool)" by (simp add: batch_sizes_sum)
  have bounds: "2 \<le> length b \<and> length b \<le> 15" if "b \<in> set ?batches" for b
  proof -
    from split_groups_member [OF sum that] obtain k where "k \<in> set ?sizes" "length b = k" by blast
    moreover have "length pool \<noteq> 1" using False by simp
    ultimately show ?thesis using batch_sizes_bounds [of "length pool" k] by simp
  qed
  have "mset (concat ?batches) = mset pool" by (simp add: concat_split_groups sum)
  moreover have "\<And>b. b \<in> set ?batches \<Longrightarrow> 2 \<le> length b \<and> length b \<le> 15" by (rule bounds)
  ultimately show ?thesis using consolidate_batches_Ok [OF run] by simp
qed

lemma consolidation_inputs_ge:
  "\<forall>tx \<in> set new. consolidation_tx fee tx \<Longrightarrow>
     2 * length new \<le> length (concat (map tx_inputs new))"
  by (induction new) (auto simp: consolidation_tx_def)

lemma consolidate_shrinks:
  assumes "consolidate E pool layer fee [] [] = Ok (left, txs, next_notes)" and "txs \<noteq> []"
  shows "length (next_notes @ left) < length pool"
proof -
  from consolidate_Ok [OF assms(1)] have new: "next_notes = layer_feeders layer 0 txs"
    "\<forall>tx \<in> set txs. consolidation_tx fee tx"
    "mset left + mset (concat (map tx_inputs txs)) = mset pool" by auto
  have "length left + length (concat (map tx_inputs txs)) = length pool"
    using arg_cong [OF new(3), of size] by simp
  moreover have "length next_notes = length txs"
    by (simp add: new(1) length_layer_feeders_consolidation [OF new(2)])
  moreover have "0 < length txs" using assms(2) by simp
  ultimately show ?thesis using consolidation_inputs_ge [OF new(2)]
    unfolding length_append by linarith
qed

section \<open>One layer of the greedy planner\<close>

text \<open>
  Pass 1, inner loop: takes from \<open>remaining\<close> every value that still fits the budget, until
  the transaction is full. \<open>kept\<close> is the part of \<open>remaining\<close> before \<open>i\<close>, \<open>rest\<close>
  the part from \<open>i\<close> on.
\<close>

fun assign_funding ::
    "u64 \<Rightarrow> u64 \<Rightarrow> u64 list \<Rightarrow> u64 list \<Rightarrow> u64 list \<Rightarrow>
      (prep_error, u64 \<times> u64 list \<times> u64 list) outcome" where
  "assign_funding budget used assigned kept [] = Ok (used, assigned, kept)"
| "assign_funding budget used assigned kept (v # rest) =
     (if length assigned < FUNDING_OUTPUTS_PER_TX
      then obind (plain_add used v) (\<lambda>used'.
        if used' \<le> budget
        then assign_funding budget used' (assigned @ [v]) kept rest
        else assign_funding budget used assigned (kept @ [v]) rest)
      else Ok (used, assigned, kept @ v # rest))"

text \<open>Pass 1: the state is \<open>(remaining, partial, consolidatable)\<close>.\<close>

type_synonym pass1_state =
  "u64 list \<times> (prep_input \<times> u64 list \<times> u64) list \<times> prep_input list"

definition pass1_step :: "u64 \<Rightarrow> pass1_state \<Rightarrow> prep_input \<Rightarrow> (prep_error, pass1_state) outcome" where
  "pass1_step fee st input =
     (case st of (remaining, partial, consolidatable) \<Rightarrow>
        if remaining = [] then Ok st
        else if input_value input \<le> fee \<or> input_value input - fee < last remaining
        then Ok (remaining, partial, consolidatable @ [input])
        else let budget = input_value input - fee in
          obind (assign_funding budget 0 [] [] remaining) (\<lambda>(used, assigned, kept).
          if assigned = [] then Panic
          else obind (plain_sub budget used) (\<lambda>leftover.
            Ok (kept, partial @ [(input, assigned, leftover)], consolidatable))))"

text \<open>Pass 2: the state is \<open>(txs, next)\<close>.\<close>

definition pass2_step ::
    "planner_env \<Rightarrow> usize \<Rightarrow> prep_transaction list \<times> prep_input list \<Rightarrow>
      prep_input \<times> u64 list \<times> u64 \<Rightarrow> (prep_error, prep_transaction list \<times> prep_input list) outcome"
where
  "pass2_step E layer st part =
     (case st of (txs, next_notes) \<Rightarrow> case part of (input, assigned, leftover) \<Rightarrow>
        obind (mapM (zat E) assigned) (\<lambda>minted.
        if leftover > 0
        then obind (zat E leftover) (\<lambda>z.
          Ok (txs @ [\<lparr>tx_inputs = [input], tx_outputs = map Funding minted @ [Intermediate z]\<rparr>],
              next_notes @ [Prior layer (length txs) (length minted) z]))
        else Ok (txs @ [\<lparr>tx_inputs = [input], tx_outputs = map Funding minted\<rparr>], next_notes)))"

definition greedy_layer ::
    "planner_env \<Rightarrow> u64 \<Rightarrow> usize \<Rightarrow> prep_input list \<Rightarrow> u64 list \<Rightarrow>
      (prep_error, u64 list \<times> prep_transaction list \<times> prep_input list) outcome" where
  "greedy_layer E fee layer current remaining =
     obind (foldM (pass1_step fee) (remaining, [], []) (order_desc E current))
       (\<lambda>(remaining', partial, consolidatable).
     obind (foldM (pass2_step E layer) ([], []) partial) (\<lambda>(txs, next_notes).
     obind (consolidate E consolidatable layer fee txs next_notes) (\<lambda>(left, txs', next_notes').
       if txs' = [] then Err InsufficientFunds else Ok (remaining', txs', next_notes'))))"

subsection \<open>A layer makes progress\<close>

lemma assign_funding_Ok:
  assumes "assign_funding budget used assigned kept rest = Ok (used', assigned', kept')"
  shows "\<exists>new. assigned' = assigned @ new \<and> mset new + mset kept' = mset kept + mset rest
    \<and> used' = used + sum_list new \<and> (used \<le> budget \<longrightarrow> used' \<le> budget)
    \<and> (length assigned \<le> 14 \<longrightarrow> length assigned' \<le> 14)"
  using assms
proof (induction budget used assigned kept rest rule: assign_funding.induct [case_names Nil Cons])
  case (Cons budget used assigned kept v rest)
  show ?case
  proof (cases "length assigned < FUNDING_OUTPUTS_PER_TX \<and> used + v \<le> budget")
    case True
    with Cons.prems have add: "plain_add used v = (Ok (used + v) :: (prep_error, u64) outcome)"
      and run: "assign_funding budget (used + v) (assigned @ [v]) kept rest = Ok (used', assigned', kept')"
      by (auto simp: outcome_simps plain_add_Ok split: if_splits)
    from Cons.IH(1) [OF _ add _ run] True obtain new where
      "assigned' = assigned @ v # new" "mset new + mset kept' = mset kept + mset rest"
      "used' = used + v + sum_list new" "used' \<le> budget" "length assigned' \<le> 14"
      by (auto simp: prep_constants)
    then show ?thesis by (intro exI [of _ "v # new"]) (auto simp: ac_simps)
  next
    case False
    show ?thesis
    proof (cases "length assigned < FUNDING_OUTPUTS_PER_TX")
      case True
      with Cons.prems False have add: "plain_add used v = (Ok (used + v) :: (prep_error, u64) outcome)"
        and run: "assign_funding budget used assigned (kept @ [v]) rest = Ok (used', assigned', kept')"
        by (auto simp: outcome_simps plain_add_Ok split: if_splits)
      from Cons.IH(2) [OF True add _ run] True False show ?thesis by (auto simp: ac_simps)
    next
      case False
      with Cons.prems show ?thesis by auto
    qed
  qed
qed auto

lemma pass1_step_Ok:
  assumes "pass1_step fee (remaining, partial, cons) input = Ok (remaining', partial', cons')"
  shows "remaining = [] \<and> remaining' = [] \<and> partial' = partial \<and> cons' = cons
    \<or> remaining \<noteq> [] \<and> remaining' = remaining \<and> partial' = partial \<and> cons' = cons @ [input]
    \<or> remaining \<noteq> [] \<and> (\<exists>assigned leftover. partial' = partial @ [(input, assigned, leftover)]
        \<and> cons' = cons \<and> assigned \<noteq> [] \<and> length assigned \<le> 14
        \<and> mset assigned + mset remaining' = mset remaining
        \<and> input_value input = sum_list assigned + leftover + fee)"
proof -
  consider "remaining = []" | "remaining \<noteq> []"
      "input_value input \<le> fee \<or> input_value input - fee < last remaining"
    | "remaining \<noteq> []" "\<not> (input_value input \<le> fee \<or> input_value input - fee < last remaining)"
    by blast
  then show ?thesis
  proof cases
    case 3
    let ?budget = "input_value input - fee"
    from 3 assms obtain used assigned leftover where run:
      "assign_funding ?budget 0 [] [] remaining = Ok (used, assigned, remaining')"
      "assigned \<noteq> []" "plain_sub ?budget used = (Ok leftover :: (prep_error, u64) outcome)"
      "partial' = partial @ [(input, assigned, leftover)]" "cons' = cons"
      by (auto simp: pass1_step_def Let_def outcome_simps split: if_splits)
    from assign_funding_Ok [OF run(1)] have
      "mset assigned + mset remaining' = mset remaining" "used = sum_list assigned"
      "length assigned \<le> 14" by auto
    moreover have "input_value input = used + leftover + fee"
      using run(3) 3 by (auto simp: plain_sub_Ok)
    ultimately show ?thesis using 3 run by auto
  qed (use assms in \<open>auto simp: pass1_step_def\<close>)
qed

text \<open>
  After pass 1: the entries of \<open>partial\<close> hold distinct inputs with what each mints, the
  inputs of \<open>partial\<close> and \<open>consolidatable\<close> come from the pool, and the assigned values are
  what left \<open>remaining\<close>.
\<close>

definition good_part :: "u64 \<Rightarrow> prep_input \<times> u64 list \<times> u64 \<Rightarrow> bool" where
  "good_part fee part \<longleftrightarrow> (case part of (input, assigned, leftover) \<Rightarrow>
     assigned \<noteq> [] \<and> length assigned \<le> 14 \<and> input_value input = sum_list assigned + leftover + fee)"

lemma pass1_Ok:
  assumes "foldM (pass1_step fee) (remaining, partial, cons) pool = Ok (remaining', partial', cons')"
  shows "\<exists>parts rest. partial' = partial @ parts \<and> cons' = cons @ rest
    \<and> list_all (good_part fee) parts
    \<and> mset (map fst parts) + mset rest \<subseteq># mset pool
    \<and> mset (concat (map (\<lambda>p. fst (snd p)) parts)) + mset remaining' = mset remaining"
  using assms
proof (induction pool arbitrary: remaining partial cons)
  case (Cons input pool)
  from Cons.prems obtain rem1 part1 cons1 where
    step: "pass1_step fee (remaining, partial, cons) input = Ok (rem1, part1, cons1)" and
    rest: "foldM (pass1_step fee) (rem1, part1, cons1) pool = Ok (remaining', partial', cons')"
    by (auto simp: outcome_simps)
  from Cons.IH [OF rest] obtain parts rest' where IH:
    "partial' = part1 @ parts" "cons' = cons1 @ rest'" "list_all (good_part fee) parts"
    "mset (map fst parts) + mset rest' \<subseteq># mset pool"
    "mset (concat (map (\<lambda>p. fst (snd p)) parts)) + mset remaining' = mset rem1" by blast
  have mono: "mset (map fst parts) + mset rest' \<subseteq># add_mset input (mset pool)"
    using IH(4) by (metis add_mset_add_single mset_subset_eq_add_left subset_mset.order_trans)
  have mono': "add_mset input (mset (map fst parts) + mset rest') \<subseteq># add_mset input (mset pool)"
    using IH(4) by simp
  from pass1_step_Ok [OF step] show ?case
  proof (elim disjE conjE exE)
    assume "rem1 = []" "part1 = partial" "cons1 = cons" "remaining = []"
    then show ?thesis using IH mono by auto
  next
    assume "rem1 = remaining" "part1 = partial" "cons1 = cons @ [input]"
    then show ?thesis using IH mono'
      by (intro exI [of _ parts] exI [of _ "input # rest'"]) (auto simp: ac_simps)
  next
    fix assigned leftover
    assume "part1 = partial @ [(input, assigned, leftover)]" "cons1 = cons" "assigned \<noteq> []"
      "length assigned \<le> 14" "mset assigned + mset rem1 = mset remaining"
      "input_value input = sum_list assigned + leftover + fee"
    moreover from this have "good_part fee (input, assigned, leftover)"
      by (simp add: good_part_def)
    ultimately show ?thesis using IH mono'
      by (intro exI [of _ "(input, assigned, leftover) # parts"] exI [of _ rest'])
        (auto simp: ac_simps)
  qed
qed auto

text \<open>
  What holds of every transaction of a plan: it has inputs and outputs, at most 16 actions, and
  what it spends is what it mints and the fee.
\<close>

definition sound_tx :: "u64 \<Rightarrow> prep_transaction \<Rightarrow> bool" where
  "sound_tx fee tx \<longleftrightarrow> tx_inputs tx \<noteq> [] \<and> tx_outputs tx \<noteq> [] \<and> action_count tx \<le> PREP_TX_ACTIONS
     \<and> sum_list (map input_value (tx_inputs tx)) = sum_list (map output_value (tx_outputs tx)) + fee"

text \<open>Before relabelling no output is change.\<close>

definition raw_tx :: "u64 \<Rightarrow> prep_transaction \<Rightarrow> bool" where
  "raw_tx fee tx \<longleftrightarrow> sound_tx fee tx \<and> (\<forall>out \<in> set (tx_outputs tx). change_value out = None)"

lemma consolidation_tx_raw: "consolidation_tx fee tx \<Longrightarrow> raw_tx fee tx"
  by (auto simp: consolidation_tx_def raw_tx_def sound_tx_def action_count_def prep_constants)

definition minted_funding :: "prep_transaction list \<Rightarrow> u64 list" where
  "minted_funding txs = List.map_filter funding_value (concat (map tx_outputs txs))"

lemma minted_funding_append [simp]:
  "minted_funding (txs @ txs') = minted_funding txs @ minted_funding txs'"
  by (simp add: minted_funding_def map_filter_append)

lemma minted_funding_Nil [simp]: "minted_funding [] = []"
  by (simp add: minted_funding_def map_filter_simps)

lemma map_filter_funding [simp]: "List.map_filter funding_value (map Funding vs) = vs"
  by (induction vs) (auto simp: map_filter_simps)

lemma sum_output_Funding [simp]: "sum_list (map output_value (map Funding vs)) = sum_list vs"
  by (induction vs) auto

lemma minted_funding_consolidation:
  "\<forall>tx \<in> set txs. consolidation_tx fee tx \<Longrightarrow> minted_funding txs = []"
  by (induction txs)
    (auto simp: minted_funding_def map_filter_append map_filter_simps consolidation_tx_def)

text \<open>One entry of \<open>partial\<close> becomes one transaction.\<close>

lemma pass2_step_Ok:
  assumes "pass2_step E layer (txs, next_notes) part = Ok (txs', next_notes')"
    and "good_part fee part"
  shows "\<exists>tx. txs' = txs @ [tx] \<and> next_notes' = next_notes @ tx_feeders layer (length txs) tx
    \<and> raw_tx fee tx \<and> tx_inputs tx = [fst part] \<and> minted_funding [tx] = fst (snd part)"
proof -
  obtain input assigned leftover where part: "part = (input, assigned, leftover)"
    by (metis surj_pair)
  have good: "assigned \<noteq> []" "length assigned \<le> 14"
    "input_value input = sum_list assigned + leftover + fee"
    using assms(2) by (auto simp: good_part_def part)
  have minted: "mapM (zat E) assigned = Ok ys \<Longrightarrow> ys = assigned" for ys
    by (auto simp: mapM_eq_Ok zat_Ok list_all2_conv_all_nth intro: nth_equalityI)
  define tx where "tx = \<lparr>tx_inputs = [input],
    tx_outputs = map Funding assigned @ (if leftover > 0 then [Intermediate leftover] else [])\<rparr>"
  have "txs' = txs @ [tx]" "next_notes' = next_notes @ tx_feeders layer (length txs) tx"
    using assms(1) minted
    by (auto simp: pass2_step_def part outcome_simps zat_Ok tx_def tx_feeders_funding
        split: if_splits)
  moreover have "raw_tx fee tx"
    using good by (auto simp: raw_tx_def sound_tx_def tx_def action_count_def prep_constants comp_def)
  ultimately show ?thesis
    by (auto simp: part tx_def minted_funding_def map_filter_append map_filter_simps)
qed

lemma pass2_Ok:
  assumes "foldM (pass2_step E layer) (txs, next_notes) parts = Ok (txs', next_notes')"
    and "list_all (good_part fee) parts"
  shows "\<exists>new. txs' = txs @ new \<and> next_notes' = next_notes @ layer_feeders layer (length txs) new
    \<and> list_all (raw_tx fee) new \<and> concat (map tx_inputs new) = map fst parts
    \<and> length new = length parts \<and> minted_funding new = concat (map (\<lambda>p. fst (snd p)) parts)"
  using assms
proof (induction parts arbitrary: txs next_notes)
  case (Cons part parts)
  from Cons.prems obtain txs1 next1 where
    step: "pass2_step E layer (txs, next_notes) part = Ok (txs1, next1)" and
    rest: "foldM (pass2_step E layer) (txs1, next1) parts = Ok (txs', next_notes')"
    by (auto simp: outcome_simps)
  from pass2_step_Ok [OF step] Cons.prems(2) obtain tx where tx:
    "txs1 = txs @ [tx]" "next1 = next_notes @ tx_feeders layer (length txs) tx" "raw_tx fee tx"
    "tx_inputs tx = [fst part]" "minted_funding [tx] = fst (snd part)" by auto
  from Cons.IH [OF rest] Cons.prems(2) obtain new where new:
    "txs' = txs1 @ new" "next_notes' = next1 @ layer_feeders layer (length txs1) new"
    "list_all (raw_tx fee) new" "concat (map tx_inputs new) = map fst parts"
    "length new = length parts" "minted_funding new = concat (map (\<lambda>p. fst (snd p)) parts)" by auto
  have "minted_funding (tx # new) = minted_funding [tx] @ minted_funding new"
    by (metis append_Cons append_Nil minted_funding_append)
  then show ?case using tx new
    by (intro exI [of _ "tx # new"]) (auto simp: layer_feeders_Cons)
qed auto

text \<open>The contract of one layer.\<close>

lemma greedy_layer_Ok:
  assumes "greedy_layer E fee layer current remaining = Ok (remaining', txs, next_notes)"
  shows "txs \<noteq> []" and "next_notes = layer_feeders layer 0 txs" and "list_all (raw_tx fee) txs"
    and "mset (concat (map tx_inputs txs)) \<subseteq># mset current"
    and "mset (minted_funding txs) + mset remaining' = mset remaining"
    and "length remaining' < length remaining
      \<or> length remaining' = length remaining \<and> length next_notes < length current"
proof -
  from assms obtain partial cons txs1 next1 left where runs:
    "foldM (pass1_step fee) (remaining, [], []) (order_desc E current) = Ok (remaining', partial, cons)"
    "foldM (pass2_step E layer) ([], []) partial = Ok (txs1, next1)"
    "consolidate E cons layer fee txs1 next1 = Ok (left, txs, next_notes)" "txs \<noteq> []"
    by (auto simp: greedy_layer_def outcome_simps split: if_splits)
  from pass1_Ok [OF runs(1)] have p1: "list_all (good_part fee) partial"
    "mset (map fst partial) + mset cons \<subseteq># mset current"
    "mset (concat (map (\<lambda>p. fst (snd p)) partial)) + mset remaining' = mset remaining" by auto
  from pass2_Ok [OF runs(2) p1(1)] have p2: "next1 = layer_feeders layer 0 txs1"
    "list_all (raw_tx fee) txs1" "concat (map tx_inputs txs1) = map fst partial"
    "length txs1 = length partial" "minted_funding txs1 = concat (map (\<lambda>p. fst (snd p)) partial)"
    by auto
  from consolidate_Ok [OF runs(3)] obtain new where new: "txs = txs1 @ new"
    "next_notes = next1 @ layer_feeders layer (length txs1) new"
    "\<forall>tx \<in> set new. consolidation_tx fee tx"
    "mset left + mset (concat (map tx_inputs new)) = mset cons" by auto
  show "txs \<noteq> []" by (rule runs(4))
  show "next_notes = layer_feeders layer 0 txs" by (simp add: new(1,2) p2(1) layer_feeders_append)
  show "list_all (raw_tx fee) txs"
    using p2(2) new(3) consolidation_tx_raw by (auto simp: new(1) list_all_iff)
  have "mset (concat (map tx_inputs new)) \<subseteq># mset cons"
    unfolding new(4) [symmetric] by simp
  then have "mset (map fst partial) + mset (concat (map tx_inputs new))
      \<subseteq># mset (map fst partial) + mset cons" by (rule subset_mset.add_left_mono)
  then have "mset (map fst partial) + mset (concat (map tx_inputs new)) \<subseteq># mset current"
    using p1(2) by (rule subset_mset.order_trans)
  then show sub: "mset (concat (map tx_inputs txs)) \<subseteq># mset current"
    by (simp add: new(1) p2(3))
  show "mset (minted_funding txs) + mset remaining' = mset remaining"
    using p1(3) p2(5) by (simp add: new(1) minted_funding_consolidation [OF new(3)])
  have rem: "length (concat (map (\<lambda>p. fst (snd p)) partial)) + length remaining' = length remaining"
    using arg_cong [OF p1(3), of size] by simp
  show "length remaining' < length remaining
      \<or> length remaining' = length remaining \<and> length next_notes < length current"
  proof (cases partial)
    case (Cons part parts)
    with p1(1) have "0 < length (fst (snd part))" by (cases part) (auto simp: good_part_def)
    with rem show ?thesis unfolding Cons list.map concat.simps length_append by linarith
  next
    case Nil
    with p2 have "txs1 = []" by simp
    with runs(4) new have "new \<noteq> []" "next_notes = layer_feeders layer 0 new" "txs = new"
      by (auto simp: p2(1))
    moreover from this(1) have pos: "0 < length new" by simp
    moreover have "length (concat (map tx_inputs txs)) \<le> length current"
      using size_mset_mono [OF sub] by simp
    moreover have "length next_notes = length new"
      using calculation(2) length_layer_feeders_consolidation [OF new(3)] by simp
    ultimately have "length next_notes < length current"
      using consolidation_inputs_ge [OF new(3)] pos unfolding \<open>txs = new\<close> by linarith
    with rem Nil show ?thesis by simp
  qed
qed

section \<open>The loops\<close>

text \<open>\<open>while !remaining.is_empty()\<close>.\<close>

function greedy_loop ::
    "planner_env \<Rightarrow> u64 \<Rightarrow> layers \<Rightarrow> prep_input list \<Rightarrow> u64 list \<Rightarrow> (prep_error, layers) outcome"
where
  "greedy_loop E fee layers current remaining =
     (if remaining = [] then Ok layers
      else if current = [] then Err InsufficientFunds
      else case greedy_layer E fee (length layers) current remaining of
             Ok (remaining', txs, next_notes) \<Rightarrow>
               greedy_loop E fee (layers @ [txs]) next_notes remaining'
           | Err e \<Rightarrow> Err e
           | Panic \<Rightarrow> Panic)"
  by pat_completeness auto
termination
  by (relation "measures [\<lambda>(E, fee, layers, current, remaining). length remaining,
      \<lambda>(E, fee, layers, current, remaining). length current]")
    (auto dest: greedy_layer_Ok(6))

declare greedy_loop.simps [simp del]

text \<open>The residual consolidation after every funding note is scheduled.\<close>

lemma all_inputs_snoc:
  "all_inputs (layers @ [txs]) = all_inputs layers @ concat (map tx_inputs txs)"
  by (simp add: all_inputs_def)

lemma feeders_snoc: "feeders (layers @ [txs]) = feeders layers @ layer_feeders (length layers) 0 txs"
  by (simp add: feeders_def enumerate_append_eq)

lemma set_spent_outputs:
  "r \<in> set (spent_outputs layers) \<longleftrightarrow> (\<exists>x \<in> set (all_inputs layers). spent_ref x = Some r)"
  by (auto simp: spent_outputs_def set_map_filter)

lemma unconsumed_snoc_length:
  assumes "consolidate E (unconsumed_feeders layers) (length layers) fee [] [] = Ok (left, txs, next_notes)"
    and "txs \<noteq> []"
  shows "length (unconsumed_feeders (layers @ [txs])) < length (unconsumed_feeders layers)"
proof -
  let ?pool = "unconsumed_feeders layers"
  let ?batches = "concat (map tx_inputs txs)"
  let ?fresh = "layer_feeders (length layers) 0 txs"
  from consolidate_Ok [OF assms(1)] have new: "\<forall>tx \<in> set txs. consolidation_tx fee tx"
    "mset left + mset ?batches = mset ?pool" by auto
  define P where "P = (\<lambda>nt. the (spent_ref nt) \<notin> set (spent_outputs (layers @ [txs])))"
  have ref: "\<exists>r. spent_ref nt = Some r" if "nt \<in> set ?pool" for nt
    using that by (auto simp: unconsumed_feeders_def feeders_def layer_feeders_def tx_feeders_def
        List.map_filter_def)
  have spent: "\<not> P nt" if "nt \<in> set ?batches" for nt
  proof -
    have "nt \<in># mset ?pool" using that by (simp flip: new(2))
    then have "nt \<in> set ?pool" by simp
    from ref [OF this] obtain r where "spent_ref nt = Some r" by blast
    with that show ?thesis unfolding P_def set_spent_outputs all_inputs_snoc by auto
  qed
  have P_old: "P nt \<Longrightarrow> the (spent_ref nt) \<notin> set (spent_outputs layers)" for nt
    by (auto simp: P_def set_spent_outputs all_inputs_snoc)
  have old: "filter P (feeders layers) = filter P ?pool"
    unfolding unconsumed_feeders_def filter_filter by (rule filter_cong) (auto dest: P_old)
  have left_length: "length left + length ?batches = length ?pool"
    using arg_cong [OF new(2), of size] by simp
  have "mset (filter P ?pool) = filter_mset P (mset left + mset ?batches)"
    by (simp add: new(2))
  also have "\<dots> = filter_mset P (mset left)"
  proof -
    have "filter P ?batches = []" using spent by (simp add: filter_empty_conv)
    then show ?thesis by (metis add_0_right filter_union_mset mset.simps(1) mset_filter)
  qed
  finally have "length (filter P ?pool) \<le> length left"
    by (metis mset_filter size_mset length_filter_le)
  moreover have "length (unconsumed_feeders (layers @ [txs]))
      \<le> length (filter P (feeders layers)) + length ?fresh"
    by (simp add: unconsumed_feeders_def feeders_snoc flip: P_def)
  moreover have "length ?fresh = length txs"
    by (rule length_layer_feeders_consolidation [OF new(1)])
  moreover have "0 < length txs" using assms(2) by simp
  ultimately show ?thesis
    using left_length consolidation_inputs_ge [OF new(1)] unfolding old by linarith
qed

function residual_loop :: "planner_env \<Rightarrow> u64 \<Rightarrow> layers \<Rightarrow> (prep_error, layers) outcome" where
  "residual_loop E fee layers =
     (if length (unconsumed_feeders layers) \<le> 1 then Ok layers
      else case consolidate E (unconsumed_feeders layers) (length layers) fee [] [] of
             Ok (left, txs, next_notes) \<Rightarrow>
               if txs = [] then Ok layers else residual_loop E fee (layers @ [txs])
           | Err e \<Rightarrow> Err e
           | Panic \<Rightarrow> Panic)"
  by pat_completeness auto
termination
  by (relation "measure (\<lambda>(E, fee, layers). length (unconsumed_feeders layers))")
    (auto dest: unconsumed_snoc_length)

declare residual_loop.simps [simp del]

text \<open>The fallback's loop: everything into one note.\<close>

function consolidation_loop ::
    "planner_env \<Rightarrow> u64 \<Rightarrow> layers \<Rightarrow> prep_input list \<Rightarrow>
      (prep_error, layers \<times> prep_input list) outcome" where
  "consolidation_loop E fee layers current =
     (if length current \<le> 1 then Ok (layers, current)
      else case consolidate E current (length layers) fee [] [] of
             Ok (left, txs, next_notes) \<Rightarrow>
               if txs = [] then Err InsufficientFunds
               else consolidation_loop E fee (layers @ [txs]) (next_notes @ left)
           | Err e \<Rightarrow> Err e
           | Panic \<Rightarrow> Panic)"
  by pat_completeness auto
termination
  by (relation "measure (\<lambda>(E, fee, layers, current). length current)")
    (auto dest: consolidate_shrinks)

declare consolidation_loop.simps [simp del]

section \<open>Relabelling and the planner\<close>

text \<open>An intermediate output that nothing spends becomes change.\<close>

fun relabel_output :: "(usize \<times> usize \<times> usize) list \<Rightarrow> usize \<times> usize \<times> usize \<Rightarrow> prep_output \<Rightarrow> prep_output"
where
  "relabel_output spent at (Intermediate v) =
     (if at \<in> set spent then Intermediate v else Change v)"
| "relabel_output spent at out = out"

definition relabel_tx ::
    "(usize \<times> usize \<times> usize) list \<Rightarrow> usize \<Rightarrow> usize \<times> prep_transaction \<Rightarrow> prep_transaction" where
  "relabel_tx spent li = (\<lambda>(ti, tx).
     tx\<lparr>tx_outputs := map (\<lambda>(oi, out). relabel_output spent (li, ti, oi) out)
                        (List.enumerate 0 (tx_outputs tx))\<rparr>)"

definition relabel_unspent :: "layers \<Rightarrow> layers" where
  "relabel_unspent layers =
     map (\<lambda>(li, layer). map (relabel_tx (spent_outputs layers) li) (List.enumerate 0 layer))
       (List.enumerate 0 layers)"

text \<open>\<open>max_by_key\<close> returns the last of several maximal elements.\<close>

fun max_note :: "(usize \<times> u64) list \<Rightarrow> (usize \<times> u64) option" where
  "max_note [] = None"
| "max_note (n # ns) =
     (case max_note ns of None \<Rightarrow> Some n | Some m \<Rightarrow> Some (if snd n \<le> snd m then m else n))"

definition unused_notes :: "u64 list \<Rightarrow> bool list \<Rightarrow> (usize \<times> u64) list" where
  "unused_notes available used = filter (\<lambda>(i, v). \<not> used ! i) (List.enumerate 0 available)"

definition wallet_input :: "planner_env \<Rightarrow> usize \<times> u64 \<Rightarrow> (prep_error, prep_input) outcome" where
  "wallet_input E = (\<lambda>(i, v). obind (zat E v) (\<lambda>z. Ok (Wallet i z)))"

definition positive_desc :: "u64 list \<Rightarrow> u64 list" where
  "positive_desc funding = sort_desc (filter (\<lambda>v. v > 0) funding)"

text \<open>The fan-out fast path: one note that can produce everything that remains.\<close>

definition fast_path ::
    "planner_env \<Rightarrow> u64 \<Rightarrow> (usize \<times> u64) list \<Rightarrow> u64 list \<Rightarrow> (prep_error, layers \<times> u64 list) outcome"
where
  "fast_path E fee candidates remaining =
     (case max_note candidates of
        None \<Rightarrow> Ok ([], remaining)
      | Some (idx, big) \<Rightarrow>
          obind (subtree_cost remaining fee) (\<lambda>(t, cost).
          if big \<ge> cost
          then obind (zat E big) (\<lambda>z.
               obind (build_split E (Wallet idx z) big remaining fee 0 []) (\<lambda>layers.
                 Ok (layers, [])))
          else Ok ([], remaining)))"

definition plan_preparation_greedy ::
    "planner_env \<Rightarrow> u64 list \<Rightarrow> u64 list \<Rightarrow> u64 \<Rightarrow> (prep_error, preparation_plan) outcome" where
  "plan_preparation_greedy E available funding fee =
     obind (ok_or (zat_sum E available) BalanceInvalid) (\<lambda>_.
     obind (ok_or (zat_sum E funding) BalanceInvalid) (\<lambda>_.
     obind (extract_direct_funding E available (positive_desc funding)) (\<lambda>(used, direct, remaining).
       if remaining = [] then Ok \<lparr>plan_layers = [], direct_funding = direct\<rparr>
       else
         obind (fast_path E fee (unused_notes available used) remaining) (\<lambda>(layers, remaining').
         obind (mapM (wallet_input E) (unused_notes available used)) (\<lambda>current.
         obind (greedy_loop E fee layers current remaining') (\<lambda>layers'.
         obind (residual_loop E fee layers') (\<lambda>layers''.
           Ok \<lparr>plan_layers = relabel_unspent layers'', direct_funding = direct\<rparr>)))))))"

definition plan_preparation_via_consolidation ::
    "planner_env \<Rightarrow> u64 list \<Rightarrow> u64 list \<Rightarrow> u64 \<Rightarrow> (prep_error, preparation_plan) outcome" where
  "plan_preparation_via_consolidation E available funding fee =
     obind (ok_or (zat_sum E available) BalanceInvalid) (\<lambda>_.
     obind (ok_or (zat_sum E funding) BalanceInvalid) (\<lambda>_.
     obind (extract_direct_funding E available (positive_desc funding)) (\<lambda>(used, direct, targets).
       if targets = [] then Ok \<lparr>plan_layers = [], direct_funding = direct\<rparr>
       else
         obind (mapM (wallet_input E) (filter (\<lambda>(i, v). v > 0) (unused_notes available used))) (\<lambda>current0.
         if current0 = [] then Err InsufficientFunds
         else obind (consolidation_loop E fee [] current0) (\<lambda>(layers, current).
           if current = [] then Panic
           else let source = last current in
             obind (subtree_cost targets fee) (\<lambda>(t, cost).
             if input_value source < cost then Err InsufficientFunds
             else obind (build_split E source (input_value source) targets fee (length layers) layers)
               (\<lambda>layers'. Ok \<lparr>plan_layers = relabel_unspent layers', direct_funding = direct\<rparr>)))))))"

definition plan_preparation ::
    "planner_env \<Rightarrow> u64 list \<Rightarrow> u64 list \<Rightarrow> u64 \<Rightarrow> (prep_error, preparation_plan) outcome" where
  "plan_preparation E available funding fee =
     (case plan_preparation_greedy E available funding fee of
        Ok plan \<Rightarrow> Ok plan
      | Err InsufficientFunds \<Rightarrow> plan_preparation_via_consolidation E available funding fee
      | Err e \<Rightarrow> Err e
      | Panic \<Rightarrow> Panic)"

end
