(* ===== verification/PrepGraph.thy ===== *)
theory PrepGraph
  imports PrepGreedy
begin

text \<open>
  The layered transactions of the planner as a graph of notes: which intermediate outputs
  exist, that every input refers to a wallet note or to an output of an earlier layer, that no
  note is spent twice, and that appending a layer or a transaction keeps this.
\<close>

section \<open>Notes that exist\<close>

fun note_exists :: "layers \<Rightarrow> prep_input \<Rightarrow> bool" where
  "note_exists layers (Wallet index v) = False"
| "note_exists layers (Prior li ti oi v) \<longleftrightarrow>
     li < length layers \<and> ti < length (layers ! li) \<and> oi < length (tx_outputs (layers ! li ! ti))
     \<and> tx_outputs (layers ! li ! ti) ! oi = Intermediate v"

lemma intermediate_value_Some: "intermediate_value out = Some v \<longleftrightarrow> out = Intermediate v"
  by (cases out) auto

lemma set_tx_feeders:
  "x \<in> set (tx_feeders li ti tx) \<longleftrightarrow>
     (\<exists>oi v. x = Prior li ti oi v \<and> oi < length (tx_outputs tx) \<and> tx_outputs tx ! oi = Intermediate v)"
  unfolding tx_feeders_def set_map_filter bex_enumerate by (auto simp: intermediate_value_Some)

lemma set_layer_feeders:
  "x \<in> set (layer_feeders li start layer) \<longleftrightarrow>
     (\<exists>ti oi v. x = Prior li (start + ti) oi v \<and> ti < length layer
        \<and> oi < length (tx_outputs (layer ! ti)) \<and> tx_outputs (layer ! ti) ! oi = Intermediate v)"
proof -
  have "x \<in> set (layer_feeders li start layer) \<longleftrightarrow>
      (\<exists>ti < length layer. x \<in> set (tx_feeders li (start + ti) (layer ! ti)))"
    unfolding layer_feeders_def in_concat_map bex_enumerate by simp
  then show ?thesis by (auto simp: set_tx_feeders)
qed

lemma set_feeders: "x \<in> set (feeders layers) \<longleftrightarrow> note_exists layers x"
proof -
  have "x \<in> set (feeders layers) \<longleftrightarrow>
      (\<exists>li < length layers. x \<in> set (layer_feeders li 0 (layers ! li)))"
    unfolding feeders_def in_concat_map bex_enumerate by simp
  then show ?thesis by (cases x) (auto simp: set_layer_feeders)
qed

lemma distinct_concat_enumerate:
  assumes "\<And>i x. i < length xs \<Longrightarrow> distinct (f (start + i) (xs ! i))"
    and "\<And>i j. i < length xs \<Longrightarrow> j < length xs \<Longrightarrow> i \<noteq> j \<Longrightarrow>
      set (f (start + i) (xs ! i)) \<inter> set (f (start + j) (xs ! j)) = {}"
  shows "distinct (concat (map (\<lambda>(i, x). f i x) (List.enumerate start xs)))"
  using assms
proof (induction xs rule: rev_induct)
  case (snoc x xs)
  have IH: "distinct (concat (map (\<lambda>(i, x). f i x) (List.enumerate start xs)))"
  proof (rule snoc.IH)
    show "distinct (f (start + i) (xs ! i))" if "i < length xs" for i
      using snoc.prems(1) [of i] that by (simp add: nth_append)
    show "set (f (start + i) (xs ! i)) \<inter> set (f (start + j) (xs ! j)) = {}"
      if "i < length xs" "j < length xs" "i \<noteq> j" for i j
      using snoc.prems(2) [of i j] that by (simp add: nth_append)
  qed
  have "set (f (start + i) (xs ! i)) \<inter> set (f (start + length xs) x) = {}" if "i < length xs" for i
    using snoc.prems(2) [of i "length xs"] that by (simp add: nth_append)
  then have "set (f n y) \<inter> set (f (start + length xs) x) = {}"
    if "(n, y) \<in> set (List.enumerate start xs)" for n y
    using that by (auto simp: in_set_enumerate_eq)
      (metis IntI add_diff_inverse_nat empty_iff less_diff_conv2 not_less)
  moreover have "distinct (f (start + length xs) x)"
    using snoc.prems(1) [of "length xs"] by simp
  ultimately show ?case using IH by (fastforce simp: enumerate_append_eq)
qed simp

lemma distinct_tx_feeders: "distinct (tx_feeders li ti tx)"
proof -
  have "distinct (List.map_filter (\<lambda>(oi, out). map_option (Prior li ti oi) (intermediate_value out))
      (List.enumerate start outs))" for start outs
  proof (induction outs arbitrary: start)
    case (Cons out outs)
    have "Prior li ti start v \<notin> set (List.map_filter
        (\<lambda>(oi, out). map_option (Prior li ti oi) (intermediate_value out))
        (List.enumerate (Suc start) outs))" for v
      by (auto simp: set_map_filter in_set_enumerate_eq)
    with Cons show ?case by (auto simp: map_filter_simps split: option.splits)
  qed (simp add: map_filter_simps)
  then show ?thesis by (simp add: tx_feeders_def)
qed

lemma distinct_layer_feeders: "distinct (layer_feeders li start layer)"
  unfolding layer_feeders_def
  by (rule distinct_concat_enumerate) (auto simp: distinct_tx_feeders set_tx_feeders)

lemma distinct_feeders: "distinct (feeders layers)"
  unfolding feeders_def
  by (rule distinct_concat_enumerate) (auto simp: distinct_layer_feeders set_layer_feeders)

section \<open>Growing layers\<close>

definition grows :: "layers \<Rightarrow> layers \<Rightarrow> bool" where
  "grows L L' \<longleftrightarrow> length L \<le> length L' \<and> (\<forall>i < length L. \<exists>txs. L' ! i = L ! i @ txs)"

lemma grows_refl [simp]: "grows L L"
  by (simp add: grows_def)

lemma grows_trans: "grows L L' \<Longrightarrow> grows L' L'' \<Longrightarrow> grows L L''"
  unfolding grows_def by (metis append.assoc le_trans less_le_trans)

lemma grows_snoc: "grows L (L @ M)"
  by (simp add: grows_def nth_append)

lemma grows_take: "grows L L' \<Longrightarrow> grows (take k L) (take k L')"
  by (auto simp: grows_def)

lemma note_exists_grows: "grows L L' \<Longrightarrow> note_exists L x \<Longrightarrow> note_exists L' x"
proof (cases x)
  case (Prior li ti oi v)
  assume "grows L L'" "note_exists L x"
  with Prior have "li < length L" "ti < length (L ! li)" by auto
  with \<open>grows L L'\<close> obtain txs where "L' ! li = L ! li @ txs" "li < length L'"
    unfolding grows_def by force
  with \<open>note_exists L x\<close> \<open>ti < length (L ! li)\<close> Prior show ?thesis by (simp add: nth_append)
qed simp

lemma note_exists_take: "note_exists (take k L) x \<Longrightarrow> note_exists L x"
  by (rule note_exists_grows [of "take k L"]) (simp_all add: grows_def)

lemma note_exists_take_mono: "note_exists (take j L) x \<Longrightarrow> j \<le> k \<Longrightarrow> note_exists (take k L) x"
  by (rule note_exists_grows [of "take j L"]) (simp_all add: grows_def)

lemma note_exists_take_iff:
  "note_exists (take k L) (Prior li ti oi v) \<longleftrightarrow> li < k \<and> note_exists L (Prior li ti oi v)"
  by auto

lemma note_exists_snoc_layer:
  "note_exists (L @ [txs]) x \<longleftrightarrow> note_exists L x \<or> x \<in> set (layer_feeders (length L) 0 txs)"
  by (simp flip: set_feeders add: feeders_snoc)

text \<open>Padding with empty layers and pushing a transaction.\<close>

lemma grows_pad: "grows L (pad_layers layer L)"
  by (simp add: pad_layers_def grows_snoc)

lemma concat_pad [simp]: "concat (pad_layers layer L) = concat L"
  by (simp add: pad_layers_def)

lemma length_pad: "length (pad_layers layer L) = max (length L) (layer + 1)"
  by (simp add: pad_layers_def)

lemma all_inputs_pad [simp]: "all_inputs (pad_layers layer L) = all_inputs L"
  by (simp add: all_inputs_def)

lemma note_exists_pad [simp]: "note_exists (pad_layers layer L) x \<longleftrightarrow> note_exists L x"
  by (cases x) (auto simp: pad_layers_def nth_append)

lemma length_push [simp]: "length (push_tx layer tx L) = length L"
  by (simp add: push_tx_def)

lemma grows_push: "layer < length L \<Longrightarrow> grows L (push_tx layer tx L)"
  by (auto simp: grows_def push_tx_def nth_list_update)

lemma mset_concat_push: "layer < length L \<Longrightarrow> mset (concat (push_tx layer tx L)) = mset (concat L) + {#tx#}"
proof -
  assume "layer < length L"
  then have "L = take layer L @ L ! layer # drop (Suc layer) L"
    and "push_tx layer tx L = take layer L @ (L ! layer @ [tx]) # drop (Suc layer) L"
    by (simp_all add: push_tx_def id_take_nth_drop upd_conv_take_nth_drop)
  then show ?thesis by (smt (verit, best) add.assoc add.commute concat.simps(2) concat_append
        mset.simps mset_append)
qed

lemma mset_all_inputs: "mset (all_inputs L) = \<Sum>\<^sub># (image_mset (mset \<circ> tx_inputs) (mset (concat L)))"
proof -
  have "mset (concat (map tx_inputs txs)) = \<Sum>\<^sub># (image_mset (mset \<circ> tx_inputs) (mset txs))" for txs
    by (induction txs) auto
  then show ?thesis by (simp add: all_inputs_def)
qed

lemma mset_all_inputs_push:
  "layer < length L \<Longrightarrow> mset (all_inputs (push_tx layer tx L)) = mset (all_inputs L) + mset (tx_inputs tx)"
  by (simp add: mset_all_inputs mset_concat_push)

lemma mset_minted_funding:
  "mset (minted_funding txs) = \<Sum>\<^sub># (image_mset (\<lambda>tx. mset (minted_funding [tx])) (mset txs))"
proof (induction txs)
  case (Cons tx txs)
  have "minted_funding (tx # txs) = minted_funding [tx] @ minted_funding txs"
    by (metis append_Cons append_Nil minted_funding_append)
  with Cons show ?case by simp
qed simp

lemma mset_minted_push:
  "layer < length L \<Longrightarrow> mset (minted_funding (concat (push_tx layer tx L)))
     = mset (minted_funding (concat L)) + mset (minted_funding [tx])"
  by (simp add: mset_minted_funding [of "concat _"] mset_concat_push)

section \<open>Wiring\<close>

text \<open>
  \<open>wired N L\<close>: no note is spent twice, and every input of layer \<open>k\<close> is one of the
  notes \<open>N\<close> or an intermediate output of a layer before \<open>k\<close>.
\<close>

definition wired :: "prep_input set \<Rightarrow> layers \<Rightarrow> bool" where
  "wired N L \<longleftrightarrow> distinct (all_inputs L) \<and>
     (\<forall>k < length L. \<forall>tx \<in> set (L ! k). \<forall>x \<in> set (tx_inputs tx). x \<in> N \<or> note_exists (take k L) x)"

text \<open>\<open>spendable N L pool\<close>: different notes that exist and that nothing spends yet.\<close>

definition spendable :: "prep_input set \<Rightarrow> layers \<Rightarrow> prep_input list \<Rightarrow> bool" where
  "spendable N L pool \<longleftrightarrow> distinct pool \<and>
     (\<forall>x \<in> set pool. (x \<in> N \<or> note_exists L x) \<and> x \<notin> set (all_inputs L))"

definition wallet_notes :: "prep_input set \<Rightarrow> bool" where
  "wallet_notes N \<longleftrightarrow> (\<forall>x \<in> N. \<exists>i v. x = Wallet i v)"

lemma wired_Nil [simp]: "wired N []"
  by (simp add: wired_def all_inputs_def)

lemma wired_inputs_exist: "wired N L \<Longrightarrow> x \<in> set (all_inputs L) \<Longrightarrow> x \<in> N \<or> note_exists L x"
  by (auto simp: wired_def all_inputs_def in_set_conv_nth dest: note_exists_take) 
    (metis nth_mem note_exists_take)

lemma wired_pad: "wired N L \<Longrightarrow> wired N (pad_layers layer L)"
  unfolding wired_def
  by (auto simp: pad_layers_def nth_append all_inputs_def)

lemma wired_push:
  assumes "wired N L" and "layer < length L" and "distinct (tx_inputs tx)"
    and "\<forall>x \<in> set (tx_inputs tx). (x \<in> N \<or> note_exists (take layer L) x) \<and> x \<notin> set (all_inputs L)"
  shows "wired N (push_tx layer tx L)"
proof -
  note mset = mset_all_inputs_push [OF assms(2), of tx]
  have "distinct (all_inputs L @ tx_inputs tx)" using assms by (auto simp: wired_def)
  then have "distinct (all_inputs (push_tx layer tx L))"
    by (metis mset mset_append mset_eq_imp_distinct_iff)
  moreover have "x \<in> N \<or> note_exists (take k (push_tx layer tx L)) x"
    if k: "k < length L" and tx': "tx' \<in> set (push_tx layer tx L ! k)" and x: "x \<in> set (tx_inputs tx')"
    for k tx' x
  proof -
    have mono: "note_exists (take k L) x \<Longrightarrow> note_exists (take k (push_tx layer tx L)) x"
      by (rule note_exists_grows [OF grows_take [OF grows_push [OF assms(2)]]])
    show ?thesis
    proof (cases "tx' \<in> set (L ! k)")
      case True
      with assms(1) k x have "x \<in> N \<or> note_exists (take k L) x" by (auto simp: wired_def)
      with mono show ?thesis by blast
    next
      case False
      with tx' k have "k = layer \<and> tx' = tx"
        by (cases "k = layer") (auto simp: push_tx_def)
      with assms(4) x mono show ?thesis by auto
    qed
  qed
  ultimately show ?thesis by (simp add: wired_def)
qed

lemma wired_snoc:
  assumes "wired N L" and "distinct (concat (map tx_inputs txs))"
    and "\<forall>x \<in> set (concat (map tx_inputs txs)). (x \<in> N \<or> note_exists L x) \<and> x \<notin> set (all_inputs L)"
  shows "wired N (L @ [txs])"
proof -
  have "distinct (all_inputs (L @ [txs]))"
    using assms by (auto simp: all_inputs_snoc wired_def)
  moreover have "x \<in> N \<or> note_exists (take k (L @ [txs])) x"
    if k: "k < Suc (length L)" and tx': "tx' \<in> set ((L @ [txs]) ! k)" and x: "x \<in> set (tx_inputs tx')"
    for k tx' x
  proof (cases "k < length L")
    case True
    with assms(1) tx' x show ?thesis by (auto simp: wired_def nth_append)
  next
    case False
    with k tx' x assms(3) show ?thesis by (auto simp: nth_append)
  qed
  ultimately show ?thesis by (simp add: wired_def)
qed

text \<open>
  A new layer that spends part of the spendable notes: it is wired, and both its own feeders and
  the notes it does not spend are spendable after it.
\<close>

lemma layer_step:
  assumes "wired N L" and "spendable N L pool" and "wallet_notes N"
    and "mset (concat (map tx_inputs txs)) + mset rest \<subseteq># mset pool"
  shows "wired N (L @ [txs])"
    and "spendable N (L @ [txs]) (layer_feeders (length L) 0 txs @ rest)"
proof -
  let ?ins = "concat (map tx_inputs txs)"
  have le: "mset (?ins @ rest) \<subseteq># mset pool" using assms(4) unfolding mset_append .
  have "distinct pool" using assms(2) unfolding spendable_def by blast
  with le have dist: "distinct (?ins @ rest)" by (rule distinct_sub_mset)
  have sub: "set (?ins @ rest) \<subseteq> set pool"
    using set_mset_mono [OF le] unfolding set_mset_mset .
  show w: "wired N (L @ [txs])"
  proof (rule wired_snoc [OF assms(1)])
    show "distinct ?ins" using dist unfolding distinct_append by blast
    show "\<forall>x \<in> set ?ins. (x \<in> N \<or> note_exists L x) \<and> x \<notin> set (all_inputs L)"
      using sub assms(2) unfolding spendable_def set_append by blast
  qed
  have fresh: "x \<notin> set (all_inputs (L @ [txs])) \<and> x \<notin> set rest"
    if "x \<in> set (layer_feeders (length L) 0 txs)" for x
  proof -
    from that have new: "\<not> note_exists L x" "x \<notin> N"
      using assms(3) by (auto simp: set_layer_feeders wallet_notes_def)
    have "x \<notin> set (all_inputs L)" using wired_inputs_exist [OF assms(1)] new by blast
    moreover have "x \<notin> set pool" using assms(2) new by (auto simp: spendable_def)
    ultimately show ?thesis using sub by (auto simp: all_inputs_snoc)
  qed
  show "spendable N (L @ [txs]) (layer_feeders (length L) 0 txs @ rest)"
    unfolding spendable_def
  proof (intro conjI ballI)
    show "distinct (layer_feeders (length L) 0 txs @ rest)"
      using dist fresh by (auto simp: distinct_layer_feeders)
    fix x assume x: "x \<in> set (layer_feeders (length L) 0 txs @ rest)"
    then show "x \<in> N \<or> note_exists (L @ [txs]) x"
      using sub assms(2) by (auto simp: note_exists_snoc_layer spendable_def)
    show "x \<notin> set (all_inputs (L @ [txs]))"
      using x fresh dist sub assms(2) by (auto simp: all_inputs_snoc spendable_def)
  qed
qed

end
