(* ===== verification/PrepTree.thy ===== *)
theory PrepTree
  imports PrepGraph
begin

text \<open>
  The balanced split tree: what \<open>subtree_cost\<close> computes, and that \<open>build_split\<close> turns
  one spendable note into exactly the requested funding notes, spending nothing else.
\<close>

section \<open>Cost\<close>

definition cost_step ::
    "u64 \<Rightarrow> u64 \<times> u64 \<Rightarrow> u64 list \<Rightarrow> (prep_error, u64 \<times> u64) outcome" where
  "cost_step fee acc grp =
     obind (subtree_cost grp fee) (\<lambda>(t, v).
     obind (plain_add (fst acc) t) (\<lambda>txs'.
     obind (plain_add (snd acc) v) (\<lambda>value'. Ok (txs', value'))))"

lemma subtree_cost_leaf:
  "split_depth (length targets) \<le> 1 \<Longrightarrow> subtree_cost targets fee =
     obind (plain_sum targets) (\<lambda>s. obind (plain_add s fee) (\<lambda>v. Ok (1, v)))"
  by (subst subtree_cost.simps) simp

lemma subtree_cost_node:
  "\<not> split_depth (length targets) \<le> 1 \<Longrightarrow>
     subtree_cost targets fee = foldM (cost_step fee) (1, fee) (child_groups targets)"
  by (subst subtree_cost.simps) (simp add: cost_step_def [abs_def])

lemma cost_step_Ok:
  "cost_step fee acc grp = Ok acc' \<longleftrightarrow>
     (\<exists>t v. subtree_cost grp fee = Ok (t, v) \<and> acc' = (fst acc + t, snd acc + v)
        \<and> fst acc + t \<le> u64_max \<and> snd acc + v \<le> u64_max)"
  by (auto simp: cost_step_def outcome_simps plain_add_Ok)

text \<open>The value is that of the targets and one fee for each transaction of the tree.\<close>

lemma cost_fold_value:
  assumes "\<And>grp t v. grp \<in> set grps \<Longrightarrow> subtree_cost grp fee = Ok (t, v) \<Longrightarrow>
      v = sum_list grp + fee * t"
    and "foldM (cost_step fee) (t0, v0) grps = Ok (t, v)" and "v0 = s0 + fee * t0"
  shows "v = s0 + sum_list (concat grps) + fee * t"
  using assms
proof (induction grps arbitrary: t0 v0 s0)
  case (Cons grp grps)
  from Cons.prems(2) obtain t1 v1 where grp: "subtree_cost grp fee = Ok (t1, v1)" and
    rest: "foldM (cost_step fee) (t0 + t1, v0 + v1) grps = Ok (t, v)"
    by (auto simp: outcome_simps cost_step_Ok)
  have v1: "v1 = sum_list grp + fee * t1" using Cons.prems(1) grp by simp
  have "v = (s0 + sum_list grp) + sum_list (concat grps) + fee * t"
    by (rule Cons.IH [OF _ rest]) (use Cons.prems(1,3) v1 in \<open>auto simp: algebra_simps\<close>)
  then show ?case by simp
qed simp

lemma subtree_cost_value:
  "subtree_cost targets fee = Ok (t, v) \<Longrightarrow> v = sum_list targets + fee * t"
proof (induction targets arbitrary: t v rule: length_induct)
  case (1 targets)
  show ?case
  proof (cases "split_depth (length targets) \<le> 1")
    case True
    with "1.prems" show ?thesis
      by (auto simp: subtree_cost_leaf outcome_simps plain_add_Ok plain_sum_Ok)
  next
    case False
    have fold: "foldM (cost_step fee) (1, fee) (child_groups targets) = Ok (t, v)"
      using "1.prems" False by (simp add: subtree_cost_node)
    have "v = 0 + sum_list (concat (child_groups targets)) + fee * t"
      by (rule cost_fold_value [OF _ fold]) (use "1.IH" length_child_group [OF False] in auto)
    then show ?thesis using child_groups_facts(1) [of targets] False by simp
  qed
qed

section \<open>Construction\<close>

text \<open>
  What one call promises: the layers only grow, the wiring stays valid, apart from \<open>source\<close>
  only notes the call itself creates are spent, every new transaction is sound, the new funding
  notes are the targets, and at most one new note is left unspent, none when the source carries
  exactly the cost of the tree.
\<close>

definition open_note :: "layers \<Rightarrow> prep_input \<Rightarrow> bool" where
  "open_note L x \<longleftrightarrow> note_exists L x \<and> x \<notin> set (all_inputs L)"

definition split_spec ::
    "u64 \<Rightarrow> prep_input set \<Rightarrow> prep_input \<Rightarrow> u64 list \<Rightarrow> layers \<Rightarrow> layers \<Rightarrow> bool" where
  "split_spec fee N source targets L L' \<longleftrightarrow>
     grows L L' \<and> wired N L'
     \<and> (\<forall>x \<in> set (all_inputs L'). x \<in> set (all_inputs L) \<or> x = source \<or> \<not> note_exists L x \<and> x \<notin> N)
     \<and> (list_all (raw_tx fee) (concat L) \<longrightarrow> list_all (raw_tx fee) (concat L'))
     \<and> mset (minted_funding (concat L')) = mset (minted_funding (concat L)) + mset targets
     \<and> (\<exists>top. (\<forall>x. open_note L' x \<longrightarrow> open_note L x \<and> x \<noteq> source \<or> top = Some x)
          \<and> ((\<exists>t. subtree_cost targets fee = Ok (t, input_value source)) \<longrightarrow> top = None))"

text \<open>A note the call may spend: available to \<open>layer\<close> and not spent.\<close>

definition ready :: "prep_input set \<Rightarrow> usize \<Rightarrow> layers \<Rightarrow> prep_input \<Rightarrow> bool" where
  "ready N layer L x \<longleftrightarrow> (x \<in> N \<or> note_exists (take layer L) x) \<and> x \<notin> set (all_inputs L)"

lemma ready_exists: "ready N layer L x \<Longrightarrow> x \<in> N \<or> note_exists L x"
  by (auto simp: ready_def dest: note_exists_take)

lemma ready_pad [simp]: "ready N layer (pad_layers layer L) x \<longleftrightarrow> ready N layer L x"
proof -
  have "note_exists (take layer (pad_layers layer L)) x \<longleftrightarrow> note_exists (take layer L) x"
    by (cases x) (simp_all only: note_exists_take_iff note_exists_pad note_exists.simps(1))
  then show ?thesis by (simp add: ready_def)
qed

text \<open>The transaction every call appends.\<close>

definition split_tx :: "prep_input \<Rightarrow> prep_output list \<Rightarrow> u64 \<Rightarrow> prep_transaction" where
  "split_tx source outs leftover =
     \<lparr>tx_inputs = [source],
      tx_outputs = outs @ (if leftover > 0 then [Intermediate leftover] else [])\<rparr>"

lemma raw_split_tx:
  assumes "input_value source = fee + sum_list (map output_value outs) + leftover"
    and "outs \<noteq> []" and "length outs \<le> 14" and "\<forall>out \<in> set outs. change_value out = None"
  shows "raw_tx fee (split_tx source outs leftover)"
  using assms by (auto simp: raw_tx_def sound_tx_def split_tx_def action_count_def prep_constants)

lemma minted_split_tx:
  "minted_funding [split_tx source outs leftover] = List.map_filter funding_value outs"
  by (auto simp: minted_funding_def split_tx_def map_filter_append map_filter_simps)

lemma map_filter_intermediate [simp]: "List.map_filter funding_value (map Intermediate vs) = []"
  by (induction vs) (auto simp: map_filter_simps)

lemma sum_output_Intermediate [simp]: "sum_list (map output_value (map Intermediate vs)) = sum_list vs"
  by (induction vs) auto

lemma split_tx_nth:
  "oi < length (tx_outputs (split_tx source outs leftover))
      \<and> tx_outputs (split_tx source outs leftover) ! oi = Intermediate v \<longleftrightarrow>
    oi < length outs \<and> outs ! oi = Intermediate v \<or> oi = length outs \<and> leftover > 0 \<and> v = leftover"
  by (auto simp: split_tx_def nth_append less_Suc_eq)

lemma note_exists_push:
  assumes "layer < length P"
  shows "note_exists (push_tx layer tx P) x \<longleftrightarrow> note_exists P x \<or>
    (\<exists>oi v. x = Prior layer (length (P ! layer)) oi v \<and> oi < length (tx_outputs tx)
       \<and> tx_outputs tx ! oi = Intermediate v)"
proof (cases x)
  case (Prior li ti oi v)
  with assms show ?thesis
    by (cases "li = layer") (auto simp: push_tx_def nth_append less_Suc_eq)
qed simp

text \<open>Pushing that transaction on the padded layers.\<close>

lemma split_push:
  assumes "wired N L" and "ready N layer L source" and "raw_tx fee (split_tx source outs leftover)"
    and "L1 = push_tx layer (split_tx source outs leftover) (pad_layers layer L)"
  shows "grows L L1" and "wired N L1"
    and "mset (all_inputs L1) = mset (all_inputs L) + {#source#}"
    and "list_all (raw_tx fee) (concat L) \<Longrightarrow> list_all (raw_tx fee) (concat L1)"
    and "mset (minted_funding (concat L1))
      = mset (minted_funding (concat L)) + mset (List.map_filter funding_value outs)"
    and "layer < length L1"
    and "open_note L1 x \<Longrightarrow> open_note L x \<and> x \<noteq> source \<or>
      (\<exists>oi v. x = Prior layer (length (pad_layers layer L ! layer)) oi v
         \<and> oi < length outs \<and> outs ! oi = Intermediate v)
      \<or> leftover > 0 \<and> x = Prior layer (length (pad_layers layer L ! layer)) (length outs) leftover"
proof -
  let ?P = "pad_layers layer L" and ?tx = "split_tx source outs leftover"
  have layer: "layer < length ?P" by (simp add: length_pad)
  show "layer < length L1" using layer by (simp add: assms(4))
  show "grows L L1" unfolding assms(4) by (rule grows_trans [OF grows_pad grows_push [OF layer]])
  have "ready N layer ?P source" using assms(2) by simp
  then show "wired N L1" unfolding assms(4)
    by (intro wired_push [OF wired_pad [OF assms(1)] layer]) (auto simp: ready_def split_tx_def)
  show ins: "mset (all_inputs L1) = mset (all_inputs L) + {#source#}"
    by (simp add: assms(4) mset_all_inputs_push [OF layer] split_tx_def)
  show "mset (minted_funding (concat L1))
      = mset (minted_funding (concat L)) + mset (List.map_filter funding_value outs)"
    by (simp add: assms(4) mset_minted_push [OF layer] minted_split_tx)
  have "set (concat L1) = insert ?tx (set (concat L))"
    using arg_cong [OF mset_concat_push [OF layer, of ?tx], of set_mset] by (simp add: assms(4))
  then show "list_all (raw_tx fee) (concat L) \<Longrightarrow> list_all (raw_tx fee) (concat L1)"
    using assms(3) by (simp add: list_all_iff)
  assume op: "open_note L1 x"
  have "set (all_inputs L1) = insert source (set (all_inputs L))"
    using arg_cong [OF ins, of set_mset] by simp
  with op have x: "x \<noteq> source" "x \<notin> set (all_inputs L)" "note_exists L1 x"
    by (auto simp: open_note_def)
  show "open_note L x \<and> x \<noteq> source \<or>
      (\<exists>oi v. x = Prior layer (length (?P ! layer)) oi v \<and> oi < length outs \<and> outs ! oi = Intermediate v)
      \<or> leftover > 0 \<and> x = Prior layer (length (?P ! layer)) (length outs) leftover"
    using note_exists_push [OF layer, of ?tx x] x split_tx_nth
    unfolding assms(4) open_note_def by auto
qed

text \<open>One call in the terms of \<open>split_tx\<close>.\<close>

lemma leftover_output_split:
  "leftover_output E leftover = Ok extra \<Longrightarrow>
     \<lparr>tx_inputs = [source], tx_outputs = outs @ extra\<rparr> = split_tx source outs leftover"
  by (auto simp: leftover_output_def split_tx_def outcome_simps zat_Ok split: if_splits)

lemma mapM_zat: "mapM (zat E) vs = Ok ws \<Longrightarrow> ws = vs"
  by (auto simp: mapM_eq_Ok zat_Ok list_all2_conv_all_nth intro: nth_equalityI)

definition node_values :: "u64 list \<Rightarrow> u64 \<Rightarrow> (prep_error, u64 list) outcome" where
  "node_values targets fee =
     mapM (\<lambda>grp. obind (subtree_cost grp fee) (\<lambda>(t, v). Ok v)) (child_groups targets)"

definition child_step ::
    "planner_env \<Rightarrow> u64 \<Rightarrow> usize \<Rightarrow> usize \<Rightarrow> layers \<Rightarrow> usize \<times> u64 list \<times> u64 \<Rightarrow>
      (prep_error, layers) outcome" where
  "child_step E fee layer ti acc item = (case item of (output, grp, cv) \<Rightarrow>
     obind (zat E cv) (\<lambda>z. build_split E (Prior layer ti output z) cv grp fee (layer + 1) acc))"

lemma build_split_leaf:
  assumes "build_split E source v targets fee layer L = Ok L'" and "split_depth (length targets) \<le> 1"
  shows "\<exists>leftover. v = fee + sum_list targets + leftover
    \<and> L' = push_tx layer (split_tx source (map Funding targets) leftover) (pad_layers layer L)"
proof -
  from assms(1) obtain minted extra where run: "mapM (zat E) targets = Ok minted"
    "fee \<le> v" "sum_list targets \<le> v - fee"
    "leftover_output E (v - fee - sum_list targets) = Ok extra"
    "L' = push_tx layer \<lparr>tx_inputs = [source], tx_outputs = map Funding minted @ extra\<rparr>
       (pad_layers layer L)"
    using assms(2) by (subst (asm) build_split.simps)
      (auto simp: Let_def outcome_simps plain_sub_Ok plain_sum_Ok)
  show ?thesis
    by (rule exI [of _ "v - fee - sum_list targets"])
      (use run in \<open>simp add: leftover_output_split mapM_zat [OF run(1)]\<close>)
qed

lemma build_split_node:
  assumes "build_split E source v targets fee layer L = Ok L'" and "\<not> split_depth (length targets) \<le> 1"
  shows "\<exists>leftover cvs. node_values targets fee = Ok cvs \<and> v = fee + sum_list cvs + leftover
    \<and> foldM (child_step E fee layer (length (pad_layers layer L ! layer)))
        (push_tx layer (split_tx source (map Intermediate cvs) leftover) (pad_layers layer L))
        (List.enumerate 0 (zip (child_groups targets) cvs)) = Ok L'"
proof -
  from assms(1) obtain cvs minted extra where run: "node_values targets fee = Ok cvs"
    "mapM (zat E) cvs = Ok minted" "fee \<le> v" "sum_list cvs \<le> v - fee"
    "leftover_output E (v - fee - sum_list cvs) = Ok extra"
    "foldM (child_step E fee layer (length (pad_layers layer L ! layer)))
       (push_tx layer \<lparr>tx_inputs = [source], tx_outputs = map Intermediate minted @ extra\<rparr>
          (pad_layers layer L))
       (List.enumerate 0 (zip (child_groups targets) cvs)) = Ok L'"
    using assms(2) unfolding node_values_def child_step_def [abs_def] by (subst (asm) build_split.simps)
      (auto simp: Let_def outcome_simps plain_sub_Ok plain_sum_Ok)
  show ?thesis
    by (rule exI [of _ "v - fee - sum_list cvs"])
      (use run in \<open>simp add: leftover_output_split mapM_zat [OF run(2)]\<close>)
qed

lemma length_node_values: "node_values targets fee = Ok cvs \<Longrightarrow> length cvs = length (child_groups targets)"
  by (auto simp: node_values_def mapM_eq_Ok dest: list_all2_lengthD)

lemma node_values_nth:
  assumes "node_values targets fee = Ok cvs" and "j < length cvs"
  shows "\<exists>t. subtree_cost (child_groups targets ! j) fee = Ok (t, cvs ! j)"
  using assms by (auto simp: node_values_def mapM_eq_Ok list_all2_conv_all_nth outcome_simps)

lemma cost_fold_children:
  assumes "foldM (cost_step fee) (t0, v0) grps = Ok (t, v)"
    and "mapM (\<lambda>grp. obind (subtree_cost grp fee) (\<lambda>(t, v). Ok v)) grps = Ok cvs"
  shows "v = v0 + sum_list cvs"
  using assms
proof (induction grps arbitrary: t0 v0 cvs)
  case (Cons grp grps)
  from Cons.prems(1) obtain t1 v1 where grp: "subtree_cost grp fee = Ok (t1, v1)" and
    rest: "foldM (cost_step fee) (t0 + t1, v0 + v1) grps = Ok (t, v)"
    by (auto simp: outcome_simps cost_step_Ok)
  from Cons.prems(2) grp obtain cvs' where
    "cvs = v1 # cvs'" "mapM (\<lambda>grp. obind (subtree_cost grp fee) (\<lambda>(t, v). Ok v)) grps = Ok cvs'"
    by (auto simp: outcome_simps)
  with Cons.IH [OF rest] show ?case by simp
qed auto

text \<open>The children in order: each spends its own feeder and keeps the others ready.\<close>

lemma children_spec:
  assumes "\<And>oi grp cv acc acc'. (oi, grp, cv) \<in> set items \<Longrightarrow> wired N acc \<Longrightarrow>
      ready N (layer + 1) acc (Prior layer ti oi cv) \<Longrightarrow>
      child_step E fee layer ti acc (oi, grp, cv) = Ok acc' \<Longrightarrow>
      split_spec fee N (Prior layer ti oi cv) grp acc acc'"
    and "foldM (child_step E fee layer ti) L items = Ok L'"
    and "wired N L" and "wallet_notes N"
    and "distinct (map fst items)"
    and "\<And>oi grp cv. (oi, grp, cv) \<in> set items \<Longrightarrow>
      ready N (layer + 1) L (Prior layer ti oi cv)"
    and "\<And>oi grp cv. (oi, grp, cv) \<in> set items \<Longrightarrow> \<exists>t. subtree_cost grp fee = Ok (t, cv)"
  shows "grows L L' \<and> wired N L'
    \<and> (\<forall>x \<in> set (all_inputs L'). x \<in> set (all_inputs L) \<or> (\<exists>oi v. x = Prior layer ti oi v)
         \<or> \<not> note_exists L x \<and> x \<notin> N)
    \<and> (list_all (raw_tx fee) (concat L) \<longrightarrow> list_all (raw_tx fee) (concat L'))
    \<and> mset (minted_funding (concat L'))
        = mset (minted_funding (concat L)) + mset (concat (map (\<lambda>(oi, grp, cv). grp) items))
    \<and> (\<forall>x. open_note L' x \<longrightarrow> open_note L x \<and> (\<forall>(oi, grp, cv) \<in> set items. x \<noteq> Prior layer ti oi cv))"
  using assms
proof (induction items arbitrary: L)
  case (Cons item items)
  obtain oi grp cv where item: "item = (oi, grp, cv)" by (metis surj_pair)
  from Cons.prems(2) obtain L1 where step: "child_step E fee layer ti L (oi, grp, cv) = Ok L1"
    and rest: "foldM (child_step E fee layer ti) L1 items = Ok L'"
    by (auto simp: item outcome_simps)
  have "split_spec fee N (Prior layer ti oi cv) grp L L1"
    using Cons.prems(1) [OF _ Cons.prems(3) _ step] Cons.prems(6) by (auto simp: item)
  moreover have "\<exists>t. subtree_cost grp fee = Ok (t, input_value (Prior layer ti oi cv))"
    using Cons.prems(7) [of oi grp cv] by (simp add: item)
  ultimately have L1: "grows L L1" "wired N L1"
    "\<forall>x \<in> set (all_inputs L1). x \<in> set (all_inputs L) \<or> x = Prior layer ti oi cv
       \<or> \<not> note_exists L x \<and> x \<notin> N"
    "list_all (raw_tx fee) (concat L) \<longrightarrow> list_all (raw_tx fee) (concat L1)"
    "mset (minted_funding (concat L1)) = mset (minted_funding (concat L)) + mset grp"
    "\<forall>x. open_note L1 x \<longrightarrow> open_note L x \<and> x \<noteq> Prior layer ti oi cv"
    unfolding split_spec_def by fast+
  have ready1: "ready N (layer + 1) L1 (Prior layer ti oi' cv')"
    if "(oi', grp', cv') \<in> set items" for oi' grp' cv'
  proof -
    have r: "ready N (layer + 1) L (Prior layer ti oi' cv')"
      using Cons.prems(6) that by (auto simp: item)
    have "oi' \<noteq> oi" using Cons.prems(5) that by (force simp: item)
    moreover have "Prior layer ti oi' cv' \<notin> N"
      using Cons.prems(4) by (auto simp: wallet_notes_def)
    ultimately have "Prior layer ti oi' cv' \<notin> set (all_inputs L1)"
      using L1(3) ready_exists [OF r] r by (auto simp: ready_def)
    moreover have "note_exists (take (layer + 1) L1) (Prior layer ti oi' cv')"
      using r \<open>Prior layer ti oi' cv' \<notin> N\<close> note_exists_grows [OF grows_take [OF L1(1)]]
      unfolding ready_def by blast
    ultimately show ?thesis by (simp add: ready_def)
  qed
  have exact1: "\<exists>t. subtree_cost grp' fee = Ok (t, cv')" if "(oi', grp', cv') \<in> set items" for oi' grp' cv'
    using Cons.prems(7) [of oi' grp' cv'] that by simp
  have IH: "grows L1 L' \<and> wired N L'
    \<and> (\<forall>x \<in> set (all_inputs L'). x \<in> set (all_inputs L1) \<or> (\<exists>oi v. x = Prior layer ti oi v)
         \<or> \<not> note_exists L1 x \<and> x \<notin> N)
    \<and> (list_all (raw_tx fee) (concat L1) \<longrightarrow> list_all (raw_tx fee) (concat L'))
    \<and> mset (minted_funding (concat L'))
        = mset (minted_funding (concat L1)) + mset (concat (map (\<lambda>(oi, grp, cv). grp) items))
    \<and> (\<forall>x. open_note L' x \<longrightarrow> open_note L1 x \<and> (\<forall>(oi, grp, cv) \<in> set items. x \<noteq> Prior layer ti oi cv))"
    by (rule Cons.IH [OF Cons.prems(1) rest L1(2) Cons.prems(4) _ ready1 exact1])
      (use Cons.prems(5) in \<open>auto simp: item\<close>)
  have "x \<in> set (all_inputs L) \<or> (\<exists>oi v. x = Prior layer ti oi v) \<or> \<not> note_exists L x \<and> x \<notin> N"
    if "x \<in> set (all_inputs L')" for x
    using IH that L1(3) note_exists_grows [OF L1(1), of x] by blast
  then show ?case
    using IH L1 grows_trans [OF L1(1)] by (simp add: item ac_simps)
qed auto

text \<open>The feeders an internal node has just created are ready for its children.\<close>

lemma children_ready:
  assumes "wired N L" and "ready N layer L source" and "raw_tx fee (split_tx source (map Intermediate cvs) leftover)"
    and "wallet_notes N" and "j < length cvs"
  shows "ready N (layer + 1)
      (push_tx layer (split_tx source (map Intermediate cvs) leftover) (pad_layers layer L))
      (Prior layer (length (pad_layers layer L ! layer)) j (cvs ! j))"
proof -
  let ?P = "pad_layers layer L" and ?tx = "split_tx source (map Intermediate cvs) leftover"
  let ?x = "Prior layer (length (?P ! layer)) j (cvs ! j)"
  have layer: "layer < length ?P" by (simp add: length_pad)
  have "tx_outputs ?tx ! j = Intermediate (cvs ! j)" "j < length (tx_outputs ?tx)"
    using assms(5) by (simp_all add: split_tx_def nth_append)
  then have new: "note_exists (push_tx layer ?tx ?P) ?x"
    using layer by (simp add: push_tx_def)
  have "\<not> note_exists ?P ?x" by simp
  then have "\<not> note_exists L ?x" unfolding note_exists_pad .
  moreover have "?x \<notin> N" using assms(4) by (auto simp: wallet_notes_def)
  ultimately have "?x \<notin> set (all_inputs L)" "?x \<noteq> source"
    using wired_inputs_exist [OF assms(1)] ready_exists [OF assms(2)] by blast+
  moreover have "set (all_inputs (push_tx layer ?tx ?P)) = insert source (set (all_inputs L))"
    using arg_cong [OF split_push(3) [OF assms(1-3) refl], of set_mset] by simp
  ultimately have "?x \<notin> set (all_inputs (push_tx layer ?tx ?P))" by simp
  moreover have "note_exists (take (layer + 1) (push_tx layer ?tx ?P)) ?x"
    using new by (simp only: note_exists_take_iff) simp
  ultimately show ?thesis by (simp add: ready_def)
qed

lemma map_enumerate_groups:
  "length gs = length cvs \<Longrightarrow> map (\<lambda>(oi, grp, cv). grp) (List.enumerate n (zip gs cvs)) = gs"
  by (rule nth_equalityI) (auto simp: nth_enumerate_eq)

lemma build_split_spec:
  assumes "build_split E source v targets fee layer L = Ok L'" and "targets \<noteq> []"
    and "input_value source = v" and "wired N L" and "ready N layer L source" and "wallet_notes N"
  shows "split_spec fee N source targets L L'"
  using assms
proof (induction targets arbitrary: source v layer L L' rule: length_induct)
  case (1 targets)
  note IH = "1.IH" [rule_format] and wired = "1.prems"(4) and rdy = "1.prems"(5)
    and wallet = "1.prems"(6)
  show ?case
  proof (cases "split_depth (length targets) \<le> 1")
    case True
    from build_split_leaf [OF "1.prems"(1) True] obtain leftover where
      leaf: "v = fee + sum_list targets + leftover"
      "L' = push_tx layer (split_tx source (map Funding targets) leftover) (pad_layers layer L)"
      by blast
    have sound: "raw_tx fee (split_tx source (map Funding targets) leftover)"
      using True "1.prems"(2,3) leaf(1) split_depth_le_1
      by (intro raw_split_tx) (simp_all del: map_map)
    note push = split_push [OF wired rdy sound leaf(2)]
    have "set (all_inputs L') = insert source (set (all_inputs L))"
      using arg_cong [OF push(3), of set_mset] by simp
    moreover have "(\<exists>t. subtree_cost targets fee = Ok (t, v)) \<longrightarrow> leftover = 0"
      using leaf(1) True by (auto simp: subtree_cost_leaf outcome_simps plain_add_Ok plain_sum_Ok)
    moreover have "\<forall>x. open_note L' x \<longrightarrow> open_note L x \<and> x \<noteq> source
        \<or> (if leftover > 0 then Some (Prior layer (length (pad_layers layer L ! layer)) (length targets) leftover)
            else None) = Some x"
      using push(7) by fastforce
    ultimately show ?thesis using push(1,2,4,5) "1.prems"(3) unfolding split_spec_def
      by (intro conjI exI [of _ "if leftover > 0
          then Some (Prior layer (length (pad_layers layer L ! layer)) (length targets) leftover) else None"])
        auto
  next
    case False
    let ?P = "pad_layers layer L"
    let ?ti = "length (?P ! layer)"
    from build_split_node [OF "1.prems"(1) False] obtain leftover cvs where
      node: "node_values targets fee = Ok cvs" "v = fee + sum_list cvs + leftover"
        "foldM (child_step E fee layer ?ti)
           (push_tx layer (split_tx source (map Intermediate cvs) leftover) ?P)
           (List.enumerate 0 (zip (child_groups targets) cvs)) = Ok L'" by blast
    let ?tx = "split_tx source (map Intermediate cvs) leftover"
    let ?items = "List.enumerate 0 (zip (child_groups targets) cvs)"
    define L1 where "L1 = push_tx layer ?tx ?P"
    have groups: "1 < split_depth (length targets)" using False by simp
    note gf = child_groups_facts [OF groups]
    have len: "length cvs = length (child_groups targets)" by (rule length_node_values [OF node(1)])
    have sound: "raw_tx fee ?tx"
      using gf(2,3) "1.prems"(3) node(2) len
      by (intro raw_split_tx) (auto simp del: map_map)
    note push = split_push [OF wired rdy sound L1_def]
    have items: "(oi, grp, cv) \<in> set ?items \<Longrightarrow> oi < length cvs \<and> cv = cvs ! oi \<and> grp \<in> set (child_groups targets)"
      for oi grp cv using len by (auto simp: in_set_enumerate_eq)
    have ready1: "ready N (layer + 1) L1 (Prior layer ?ti oi cv)" if "(oi, grp, cv) \<in> set ?items" for oi grp cv
      using items [OF that] children_ready [OF wired rdy sound wallet] by (simp add: L1_def)
    have exact: "\<exists>t. subtree_cost grp fee = Ok (t, cv)" if "(oi, grp, cv) \<in> set ?items" for oi grp cv
      using node_values_nth [OF node(1)] that len by (auto simp: in_set_enumerate_eq)
    have child: "split_spec fee N (Prior layer ?ti oi cv) grp acc acc'"
      if "(oi, grp, cv) \<in> set ?items" "wired N acc" "ready N (layer + 1) acc (Prior layer ?ti oi cv)"
        "child_step E fee layer ?ti acc (oi, grp, cv) = Ok acc'" for oi grp cv acc acc'
    proof -
      have "build_split E (Prior layer ?ti oi cv) cv grp fee (layer + 1) acc = Ok acc'"
        using that(4) by (auto simp: child_step_def outcome_simps zat_Ok)
      with IH [OF _ this] items [OF that(1)] gf(4) [of grp] that(2,3) wallet show ?thesis by auto
    qed
    have all: "grows L1 L' \<and> wired N L'
      \<and> (\<forall>x \<in> set (all_inputs L'). x \<in> set (all_inputs L1) \<or> (\<exists>oi v. x = Prior layer ?ti oi v)
           \<or> \<not> note_exists L1 x \<and> x \<notin> N)
      \<and> (list_all (raw_tx fee) (concat L1) \<longrightarrow> list_all (raw_tx fee) (concat L'))
      \<and> mset (minted_funding (concat L')) = mset (minted_funding (concat L1))
          + mset (concat (map (\<lambda>(oi, grp, cv). grp) ?items))
      \<and> (\<forall>x. open_note L' x \<longrightarrow> open_note L1 x \<and> (\<forall>(oi, grp, cv) \<in> set ?items. x \<noteq> Prior layer ?ti oi cv))"
      by (rule children_spec [OF child node(3) [folded L1_def] push(2) wallet _ ready1 exact]) simp_all
    have in_items: "(j, child_groups targets ! j, cvs ! j) \<in> set ?items" if "j < length cvs" for j
      using that len by (simp add: in_set_enumerate_eq)
    define top where "top = (if leftover > 0 then Some (Prior layer ?ti (length cvs) leftover) else None)"
    have op: "open_note L x \<and> x \<noteq> source \<or> top = Some x" if "open_note L' x" for x
    proof -
      from all that have x: "open_note L1 x" "\<forall>(oi, grp, cv) \<in> set ?items. x \<noteq> Prior layer ?ti oi cv" by blast+
      have "x \<noteq> Prior layer ?ti j (cvs ! j)" if "j < length cvs" for j
        using bspec [OF x(2) in_items [OF that]] by simp
      then have "\<forall>j < length cvs. x \<noteq> Prior layer ?ti j (cvs ! j)" by blast
      with push(7) [OF x(1)] show ?thesis by (auto simp: top_def)
    qed
    have "v = fee + sum_list cvs" if "subtree_cost targets fee = Ok (t, v)" for t
      using cost_fold_children [OF _ node(1) [unfolded node_values_def]] that False
      by (simp add: subtree_cost_node)
    then have top: "(\<exists>t. subtree_cost targets fee = Ok (t, v)) \<longrightarrow> top = None"
      using node(2) by (auto simp: top_def)
    have fresh: "\<not> note_exists L (Prior layer ?ti oi v) \<and> Prior layer ?ti oi v \<notin> N" for oi v
    proof -
      have "\<not> note_exists ?P (Prior layer ?ti oi v)" by simp
      then show ?thesis using wallet unfolding note_exists_pad by (auto simp: wallet_notes_def)
    qed
    have ins: "set (all_inputs L1) = insert source (set (all_inputs L))"
      using arg_cong [OF push(3), of set_mset] by simp
    have "x \<in> set (all_inputs L) \<or> x = source \<or> \<not> note_exists L x \<and> x \<notin> N"
      if "x \<in> set (all_inputs L')" for x
      using all that ins fresh note_exists_grows [OF push(1), of x] by blast
    moreover have "mset (minted_funding (concat L')) = mset (minted_funding (concat L)) + mset targets"
      using all push(5) len gf(1) by (simp add: map_enumerate_groups)
    ultimately show ?thesis
      using all push(4) grows_trans [OF push(1)] op top "1.prems"(3) unfolding split_spec_def by blast
  qed
qed

end
