(* ===== verification/PrepCorrect.thy ===== *)
theory PrepCorrect
  imports PrepTree
begin

text \<open>
  Correctness of \<open>plan_preparation\<close>: the loops keep the wiring invariant, relabelling leaves
  no dangling intermediate, and the properties of the plan that the rest of the migration
  relies on.
\<close>

section \<open>The loops\<close>

text \<open>What the loops keep: valid wiring, sound transactions, the funding still to mint.\<close>

definition layers_ok :: "u64 \<Rightarrow> prep_input set \<Rightarrow> layers \<Rightarrow> bool" where
  "layers_ok fee N L \<longleftrightarrow> wired N L \<and> list_all (raw_tx fee) (concat L)"

lemma layers_ok_Nil [simp]: "layers_ok fee N []"
  by (simp add: layers_ok_def)

lemma layers_ok_snoc:
  assumes "layers_ok fee N L" and "spendable N L pool" and "wallet_notes N"
    and "mset (concat (map tx_inputs txs)) + mset rest \<subseteq># mset pool" and "list_all (raw_tx fee) txs"
  shows "layers_ok fee N (L @ [txs])"
    and "spendable N (L @ [txs]) (layer_feeders (length L) 0 txs @ rest)"
  using layer_step [OF _ assms(2-4)] assms(1,5) by (auto simp: layers_ok_def)

lemma greedy_loop_spec:
  assumes "greedy_loop E fee L current remaining = Ok L'"
    and "layers_ok fee N L" and "spendable N L current" and "wallet_notes N"
  shows "layers_ok fee N L'
    \<and> mset (minted_funding (concat L')) = mset (minted_funding (concat L)) + mset remaining"
  using assms
proof (induction E fee L current remaining rule: greedy_loop.induct)
  case (1 E fee L current remaining)
  show ?case
  proof (cases "remaining = []")
    case True
    with "1.prems" show ?thesis by (simp add: greedy_loop.simps)
  next
    case False
    with "1.prems"(1) have current: "current \<noteq> []" by (subst (asm) greedy_loop.simps) auto
    with False "1.prems"(1) obtain remaining' txs next_notes where
      layer: "greedy_layer E fee (length L) current remaining = Ok (remaining', txs, next_notes)" and
      rest: "greedy_loop E fee (L @ [txs]) next_notes remaining' = Ok L'"
      by (subst (asm) greedy_loop.simps) (auto split: outcome.splits)
    note facts = greedy_layer_Ok [OF layer]
    have "mset (concat (map tx_inputs txs)) + mset [] \<subseteq># mset current" using facts(4) by simp
    from layers_ok_snoc [OF "1.prems"(2-4) this facts(3)]
    have "layers_ok fee N (L @ [txs])" "spendable N (L @ [txs]) next_notes"
      by (simp_all add: facts(2) layer_feeders_def)
    with "1.IH" [OF False current layer refl refl rest] "1.prems"(4) facts(5)
    show ?thesis by (simp add: ac_simps)
  qed
qed

lemma unconsumed_spendable:
  assumes "wired N L" shows "spendable N L (unconsumed_feeders L)"
  using assms distinct_feeders
  by (auto simp: spendable_def unconsumed_feeders_def set_feeders set_spent_outputs)
    (metis note_exists.elims(2) option.sel spent_ref.simps(2))

lemma unconsumed_open: "x \<in> set (unconsumed_feeders L) \<Longrightarrow> open_note L x"
proof -
  assume x: "x \<in> set (unconsumed_feeders L)"
  then have ex: "note_exists L x" by (simp add: unconsumed_feeders_def set_feeders)
  then obtain r where "spent_ref x = Some r" by (cases x) auto
  with x ex show "open_note L x"
    by (auto simp: open_note_def unconsumed_feeders_def set_spent_outputs)
qed

lemma length_unconsumed_le_1:
  assumes "set (unconsumed_feeders L) \<subseteq> set_option extra" shows "length (unconsumed_feeders L) \<le> 1"
proof -
  have "distinct (unconsumed_feeders L)" by (simp add: unconsumed_feeders_def distinct_feeders)
  then have "length (unconsumed_feeders L) = card (set (unconsumed_feeders L))"
    by (simp add: distinct_card)
  also have "\<dots> \<le> card (set_option extra)" using assms by (intro card_mono) simp_all
  also have "\<dots> \<le> 1" by (cases extra) simp_all
  finally show ?thesis .
qed

lemma consolidation_layer:
  assumes "consolidate E pool (length L) fee [] [] = Ok (left, txs, next_notes)"
    and "layers_ok fee N L" and "spendable N L pool" and "wallet_notes N"
  shows "layers_ok fee N (L @ [txs])" and "spendable N (L @ [txs]) (next_notes @ left)"
    and "minted_funding (concat (L @ [txs])) = minted_funding (concat L)"
    and "\<forall>x. open_note L x \<longrightarrow> x \<in> set pool \<Longrightarrow>
      \<forall>x. open_note (L @ [txs]) x \<longrightarrow> x \<in> set (next_notes @ left)"
proof -
  from consolidate_Ok [OF assms(1)] have new: "next_notes = layer_feeders (length L) 0 txs"
    "\<forall>tx \<in> set txs. consolidation_tx fee tx"
    "mset left + mset (concat (map tx_inputs txs)) = mset pool" by auto
  have "list_all (raw_tx fee) txs" using new(2) consolidation_tx_raw by (auto simp: list_all_iff)
  moreover have "mset (concat (map tx_inputs txs)) + mset left \<subseteq># mset pool"
    unfolding new(3) [symmetric] by (simp add: add.commute)
  ultimately show "layers_ok fee N (L @ [txs])" "spendable N (L @ [txs]) (next_notes @ left)"
    using layers_ok_snoc [OF assms(2-4)] by (simp_all add: new(1))
  show "minted_funding (concat (L @ [txs])) = minted_funding (concat L)"
    by (simp add: minted_funding_consolidation [OF new(2)])
  have pool: "set pool = set left \<union> set (concat (map tx_inputs txs))"
    using arg_cong [OF new(3), of set_mset] by simp
  show "\<forall>x. open_note (L @ [txs]) x \<longrightarrow> x \<in> set (next_notes @ left)"
    if "\<forall>x. open_note L x \<longrightarrow> x \<in> set pool"
    using that pool by (auto simp: open_note_def note_exists_snoc_layer all_inputs_snoc new(1))
qed

lemma residual_loop_spec:
  assumes "residual_loop E fee L = Ok L'" and "layers_ok fee N L" and "wallet_notes N"
  shows "layers_ok fee N L' \<and> mset (minted_funding (concat L')) = mset (minted_funding (concat L))
    \<and> (length (unconsumed_feeders L') \<le> 1
       \<or> (\<exists>left next_notes. consolidate E (unconsumed_feeders L') (length L') fee [] [] = Ok (left, [], next_notes)))"
  using assms
proof (induction E fee L rule: residual_loop.induct)
  case (1 E fee L)
  show ?case
  proof (cases "length (unconsumed_feeders L) \<le> 1")
    case True
    with "1.prems" show ?thesis by (simp add: residual_loop.simps)
  next
    case False
    with "1.prems"(1) obtain left txs next_notes where
      run: "consolidate E (unconsumed_feeders L) (length L) fee [] [] = Ok (left, txs, next_notes)" and
      rest: "(if txs = [] then Ok L else residual_loop E fee (L @ [txs])) = Ok L'"
      by (subst (asm) residual_loop.simps) (auto split: outcome.splits)
    show ?thesis
    proof (cases "txs = []")
      case True
      with rest run "1.prems" show ?thesis by auto
    next
      case ne: False
      have "spendable N L (unconsumed_feeders L)"
        using "1.prems"(2) by (intro unconsumed_spendable) (simp add: layers_ok_def)
      note layer = consolidation_layer [OF run "1.prems"(2) this "1.prems"(3)]
      from ne rest have "residual_loop E fee (L @ [txs]) = Ok L'" by simp
      with "1.IH" [OF False run refl refl ne] layer(1,3) "1.prems"(3) show ?thesis by simp
    qed
  qed
qed

lemma consolidation_loop_spec:
  assumes "consolidation_loop E fee L current = Ok (L', current')"
    and "layers_ok fee N L" and "spendable N L current" and "wallet_notes N"
    and "\<forall>x. open_note L x \<longrightarrow> x \<in> set current"
  shows "layers_ok fee N L' \<and> spendable N L' current' \<and> length current' \<le> 1
    \<and> (\<forall>x. open_note L' x \<longrightarrow> x \<in> set current')
    \<and> minted_funding (concat L') = minted_funding (concat L)"
  using assms
proof (induction E fee L current rule: consolidation_loop.induct)
  case (1 E fee L current)
  show ?case
  proof (cases "length current \<le> 1")
    case True
    with "1.prems" show ?thesis by (simp add: consolidation_loop.simps)
  next
    case False
    with "1.prems"(1) obtain left txs next_notes where
      run: "consolidate E current (length L) fee [] [] = Ok (left, txs, next_notes)" and
      ne: "txs \<noteq> []" and
      rest: "consolidation_loop E fee (L @ [txs]) (next_notes @ left) = Ok (L', current')"
      by (subst (asm) consolidation_loop.simps) (auto split: outcome.splits if_splits)
    note layer = consolidation_layer [OF run "1.prems"(2-4)]
    from "1.IH" [OF False run refl refl ne rest layer(1,2) "1.prems"(4) layer(4) [OF "1.prems"(5)]] layer(3)
    show ?thesis by simp
  qed
qed

section \<open>Relabelling\<close>

lemma relabel_output_value [simp]: "output_value (relabel_output spent at out) = output_value out"
  by (cases out) auto

lemma relabel_funding_value [simp]: "funding_value (relabel_output spent at out) = funding_value out"
  by (cases out) auto

lemma relabel_Intermediate:
  "relabel_output spent at out = Intermediate v \<longleftrightarrow> out = Intermediate v \<and> at \<in> set spent"
  by (cases out) auto

lemma relabel_Change:
  "relabel_output spent at out = Change v \<longleftrightarrow> out = Change v \<or> out = Intermediate v \<and> at \<notin> set spent"
  by (cases out) auto

lemma relabel_tx_simps [simp]:
  "tx_inputs (relabel_tx spent li p) = tx_inputs (snd p)"
  "length (tx_outputs (relabel_tx spent li p)) = length (tx_outputs (snd p))"
  by (cases p; simp add: relabel_tx_def)+

lemma relabel_tx_nth:
  "oi < length (tx_outputs tx) \<Longrightarrow> tx_outputs (relabel_tx spent li (ti, tx)) ! oi
     = relabel_output spent (li, ti, oi) (tx_outputs tx ! oi)"
  by (simp add: relabel_tx_def nth_enumerate_eq)

lemma length_relabel [simp]: "length (relabel_unspent L) = length L"
  by (simp add: relabel_unspent_def)

lemma length_relabel_nth [simp]: "li < length L \<Longrightarrow> length (relabel_unspent L ! li) = length (L ! li)"
  by (simp add: relabel_unspent_def nth_enumerate_eq)

lemma relabel_nth:
  "li < length L \<Longrightarrow> ti < length (L ! li) \<Longrightarrow>
     relabel_unspent L ! li ! ti = relabel_tx (spent_outputs L) li (ti, L ! li ! ti)"
  by (simp add: relabel_unspent_def nth_enumerate_eq)

text \<open>A function of the transactions that relabelling does not change, summed over the plan.\<close>

lemma map_enumerate_snd: "map (\<lambda>p. f (snd p)) (List.enumerate n xs) = map f xs"
  by (metis (no_types, lifting) list.map_comp comp_apply map_cong map_snd_enumerate)

lemma map_concat_relabel:
  assumes "\<And>li ti tx. f (relabel_tx (spent_outputs L) li (ti, tx)) = f tx"
  shows "map f (concat (relabel_unspent L)) = map f (concat L)"
proof -
  have inner: "map f (map (relabel_tx (spent_outputs L) li) (List.enumerate 0 layer)) = map f layer"
    for li layer
  proof -
    have "map f (map (relabel_tx (spent_outputs L) li) (List.enumerate 0 layer))
        = map (\<lambda>p. f (snd p)) (List.enumerate 0 layer)" using assms by auto
    then show ?thesis by (simp add: map_enumerate_snd)
  qed
  have "map f (concat (relabel_unspent L)) = concat (map (map f) (relabel_unspent L))"
    by (simp add: map_concat)
  also have "map (map f) (relabel_unspent L) = map (\<lambda>p. map f (snd p)) (List.enumerate 0 L)"
    unfolding relabel_unspent_def list.map_comp
    by (rule map_cong [OF refl]) (use inner in \<open>auto simp: comp_def split: prod.splits\<close>)
  also have "concat \<dots> = map f (concat L)"
    using map_enumerate_snd [of "map f" 0 L] by (simp add: map_concat)
  finally show ?thesis .
qed

lemma all_inputs_relabel [simp]: "all_inputs (relabel_unspent L) = all_inputs L"
  unfolding all_inputs_def by (subst map_concat_relabel) auto

lemma relabel_outputs_values:
  "map output_value (tx_outputs (relabel_tx spent li (ti, tx))) = map output_value (tx_outputs tx)"
  by (rule nth_equalityI) (simp_all add: relabel_tx_nth)

lemma relabel_outputs_funding:
  "List.map_filter funding_value (tx_outputs (relabel_tx spent li (ti, tx)))
     = List.map_filter funding_value (tx_outputs tx)"
proof -
  have eq: "List.map_filter funding_value xs = map the (filter (\<lambda>y. y \<noteq> None) (map funding_value xs))" for xs
    by (induction xs) (auto simp: map_filter_simps split: option.splits)
  have "map funding_value (tx_outputs (relabel_tx spent li (ti, tx))) = map funding_value (tx_outputs tx)"
    by (rule nth_equalityI) (simp_all add: relabel_tx_nth)
  then show ?thesis by (simp add: eq)
qed

lemma sound_tx_relabel: "sound_tx fee (relabel_tx spent li (ti, tx)) \<longleftrightarrow> sound_tx fee tx"
  unfolding sound_tx_def action_count_def relabel_outputs_values
  by (simp, metis relabel_tx_simps(2) snd_conv length_0_conv)

lemma sound_relabel:
  "list_all (sound_tx fee) (concat (relabel_unspent L)) \<longleftrightarrow> list_all (sound_tx fee) (concat L)"
proof -
  have "list_all (sound_tx fee) txs \<longleftrightarrow> list_all id (map (sound_tx fee) txs)" for txs
    by (simp add: list_all_iff)
  then show ?thesis by (simp only: map_concat_relabel [OF sound_tx_relabel])
qed

lemma minted_relabel [simp]:
  "minted_funding (concat (relabel_unspent L)) = minted_funding (concat L)"
proof -
  have "minted_funding txs = concat (map (\<lambda>tx. List.map_filter funding_value (tx_outputs tx)) txs)" for txs
    by (induction txs) (auto simp: minted_funding_def map_filter_append map_filter_simps)
  then show ?thesis by (simp only: map_concat_relabel [OF relabel_outputs_funding])
qed

lemma note_exists_relabel:
  "note_exists (relabel_unspent L) (Prior li ti oi v) \<longleftrightarrow>
     note_exists L (Prior li ti oi v) \<and> (li, ti, oi) \<in> set (spent_outputs L)"
  by (auto simp: relabel_nth relabel_tx_nth relabel_Intermediate)

text \<open>Under a valid wiring the intermediates that remain are exactly the notes spent.\<close>

lemma note_exists_relabel_iff:
  assumes "wired N L" and "wallet_notes N"
  shows "note_exists (relabel_unspent L) x \<longleftrightarrow> x \<in> set (all_inputs L) \<and> x \<notin> N"
proof (cases x)
  case (Wallet i v)
  then show ?thesis using wired_inputs_exist [OF assms(1), of x] by auto
next
  case (Prior li ti oi v)
  have "x \<in> set (all_inputs L)" if "note_exists L x" and "(li, ti, oi) \<in> set (spent_outputs L)"
  proof -
    from that(2) obtain y where y: "y \<in> set (all_inputs L)" "spent_ref y = Some (li, ti, oi)"
      by (auto simp: set_spent_outputs)
    from y(2) obtain w where w: "y = Prior li ti oi w" by (cases y rule: spent_ref.cases) auto
    have "y \<notin> N" using assms(2) w by (auto simp: wallet_notes_def)
    with wired_inputs_exist [OF assms(1) y(1)] have "note_exists L y" by simp
    with that(1) have "y = x" by (simp add: w Prior)
    with y show ?thesis by simp
  qed
  moreover have "note_exists L x \<and> (li, ti, oi) \<in> set (spent_outputs L)"
    if "x \<in> set (all_inputs L)" "x \<notin> N"
    using wired_inputs_exist [OF assms(1) that(1)] that unfolding set_spent_outputs Prior
    by (metis spent_ref.simps(2))
  moreover have "x \<notin> N" using assms(2) Prior by (auto simp: wallet_notes_def)
  ultimately show ?thesis unfolding Prior note_exists_relabel by blast
qed

lemma wired_relabel:
  assumes "wired N L" and "wallet_notes N" shows "wired N (relabel_unspent L)"
proof -
  have "x \<in> N \<or> note_exists (take k (relabel_unspent L)) x"
    if k: "k < length L" and tx: "tx \<in> set (relabel_unspent L ! k)" and x: "x \<in> set (tx_inputs tx)" for k tx x
  proof -
    from tx k obtain ti where ti: "ti < length (L ! k)" "tx = relabel_unspent L ! k ! ti"
      by (auto simp: in_set_conv_nth)
    with k x have x': "x \<in> set (tx_inputs (L ! k ! ti))" by (simp add: relabel_nth)
    have "L ! k ! ti \<in> set (L ! k)" using ti(1) by simp
    with k x' assms(1) have old: "x \<in> N \<or> note_exists (take k L) x"
      unfolding wired_def by blast
    have "x \<in> set (all_inputs L)" using k ti(1) x' by (auto simp: all_inputs_def) (meson nth_mem)
    with old assms note_exists_relabel_iff [OF assms] have "x \<in> N \<or> note_exists (relabel_unspent L) x"
      by blast
    with old show ?thesis by (cases x) (auto simp: note_exists_take_iff simp del: note_exists.simps(2))
  qed
  with assms(1) show ?thesis by (simp add: wired_def)
qed

section \<open>Exact matches\<close>

lemma position_unused_Some:
  "position_unused available used v = Some i \<Longrightarrow>
     i < length available \<and> \<not> used ! i \<and> available ! i = v"
  by (auto simp: position_unused_def find_Some_iff)

lemma position_unused_None:
  "position_unused available used v = None \<Longrightarrow> i < length available \<Longrightarrow> \<not> used ! i \<Longrightarrow> available ! i \<noteq> v"
  by (auto simp: position_unused_def find_None_iff)

lemma extract_loop_Ok:
  assumes "extract_loop E available used direct kept rest = Ok (used', direct', kept')"
    and "length used = length available"
  shows "\<exists>new later. direct' = direct @ new \<and> kept' = kept @ later \<and> length used' = length available
    \<and> (\<forall>i < length available. used' ! i \<longleftrightarrow> used ! i \<or> i \<in> set (map fst new))
    \<and> distinct (map fst new)
    \<and> (\<forall>(i, v) \<in> set new. i < length available \<and> available ! i = v \<and> \<not> used ! i)
    \<and> mset (map snd new) + mset later = mset rest
    \<and> (\<forall>v \<in> set later. \<forall>i < length available. \<not> used' ! i \<longrightarrow> available ! i \<noteq> v)
    \<and> (sorted_wrt (\<ge>) rest \<longrightarrow> sorted_wrt (\<ge>) later)"
  using assms
proof (induction E available used direct kept rest rule: extract_loop.induct [case_names Nil Cons])
  case (Cons E available used direct kept funding rest)
  show ?case
  proof (cases "position_unused available used funding")
    case None
    with Cons.prems have "extract_loop E available used direct (kept @ [funding]) rest = Ok (used', direct', kept')"
      by simp
    from Cons.IH(1) [OF None this Cons.prems(2)] obtain new later where IH:
      "direct' = direct @ new" "kept' = kept @ funding # later" "length used' = length available"
      "\<forall>i < length available. used' ! i \<longleftrightarrow> used ! i \<or> i \<in> set (map fst new)"
      "distinct (map fst new)"
      "\<forall>(i, v) \<in> set new. i < length available \<and> available ! i = v \<and> \<not> used ! i"
      "mset (map snd new) + mset later = mset rest"
      "\<forall>v \<in> set later. \<forall>i < length available. \<not> used' ! i \<longrightarrow> available ! i \<noteq> v"
      "sorted_wrt (\<ge>) rest \<longrightarrow> sorted_wrt (\<ge>) later" by auto
    have "set later \<subseteq> set rest" using arg_cong [OF IH(7), of set_mset] by auto
    moreover have "\<forall>i < length available. \<not> used' ! i \<longrightarrow> available ! i \<noteq> funding"
      using position_unused_None [OF None] IH(4) by blast
    ultimately show ?thesis using IH
      by (intro exI [of _ new] exI [of _ "funding # later"]) auto
  next
    case (Some index)
    note at = position_unused_Some [OF Some]
    from Some Cons.prems have z: "zat E funding = Ok funding" and
      run: "extract_loop E available (used[index := True]) (direct @ [(index, funding)]) kept rest
        = Ok (used', direct', kept')" by (auto simp: outcome_simps zat_Ok)
    from Cons.IH(2) [OF Some z run] Cons.prems(2) obtain new later where IH:
      "direct' = direct @ (index, funding) # new" "kept' = kept @ later" "length used' = length available"
      "\<forall>i < length available. used' ! i \<longleftrightarrow> used[index := True] ! i \<or> i \<in> set (map fst new)"
      "distinct (map fst new)"
      "\<forall>(i, v) \<in> set new. i < length available \<and> available ! i = v \<and> \<not> used[index := True] ! i"
      "mset (map snd new) + mset later = mset rest"
      "\<forall>v \<in> set later. \<forall>i < length available. \<not> used' ! i \<longrightarrow> available ! i \<noteq> v"
      "sorted_wrt (\<ge>) rest \<longrightarrow> sorted_wrt (\<ge>) later" by auto
    have each: "i < length available \<and> available ! i = v \<and> \<not> used ! i \<and> i \<noteq> index"
      if "(i, v) \<in> set new" for i v
    proof -
      from bspec [OF IH(6) that]
      have here: "i < length available \<and> available ! i = v \<and> \<not> used[index := True] ! i"
        by simp
      then have "i \<noteq> index" using at Cons.prems(2) by auto
      with here show ?thesis by simp
    qed
    have fresh: "index \<notin> set (map fst new)"
    proof
      assume "index \<in> set (map fst new)"
      then obtain v where "(index, v) \<in> set new" unfolding set_map image_iff by (metis prod.collapse)
      from each [OF this] show False by simp
    qed
    have old: "\<forall>(i, v) \<in> set new. i < length available \<and> available ! i = v \<and> \<not> used ! i"
    proof
      fix p assume "p \<in> set new"
      then have "(fst p, snd p) \<in> set new" by simp
      from each [OF this] show "case p of (i, v) \<Rightarrow> i < length available \<and> available ! i = v \<and> \<not> used ! i"
        by (simp add: split_beta)
    qed
    have marks: "\<forall>i < length available. used' ! i \<longleftrightarrow> used ! i \<or> i \<in> set (map fst ((index, funding) # new))"
      using IH(4) at Cons.prems(2) by (simp add: nth_list_update)
    have pairs: "\<forall>(i, v) \<in> set ((index, funding) # new).
        i < length available \<and> available ! i = v \<and> \<not> used ! i"
      using old at by simp
    have dist: "distinct (map fst ((index, funding) # new))" using fresh IH(5) by simp
    have sum: "mset (map snd ((index, funding) # new)) + mset later = mset (funding # rest)"
      using IH(7) by simp
    have sorted: "sorted_wrt (\<ge>) (funding # rest) \<longrightarrow> sorted_wrt (\<ge>) later" using IH(9) by simp
    show ?thesis
      by (rule exI [of _ "(index, funding) # new"], rule exI [of _ later], intro conjI)
        (fact IH(1) IH(2) IH(3) marks dist pairs sum IH(8) sorted)+
  qed
qed auto

lemma extract_direct_Ok:
  assumes "extract_direct_funding E available remaining = Ok (used, direct, remaining')"
  shows "length used = length available" and "\<And>i. i < length available \<Longrightarrow> used ! i \<longleftrightarrow> i \<in> set (map fst direct)"
    and "distinct (map fst direct)"
    and "\<And>i v. (i, v) \<in> set direct \<Longrightarrow> i < length available \<and> available ! i = v"
    and "mset (map snd direct) + mset remaining' = mset remaining"
    and "\<And>v i. v \<in> set remaining' \<Longrightarrow> i < length available \<Longrightarrow> i \<notin> set (map fst direct) \<Longrightarrow> available ! i \<noteq> v"
    and "sorted_wrt (\<ge>) remaining \<Longrightarrow> sorted_wrt (\<ge>) remaining'"
  using extract_loop_Ok [OF assms [unfolded extract_direct_funding_def]] by auto

section \<open>The plan\<close>

text \<open>The notes the graph may use: the wallet notes that no exact match took.\<close>

definition free_notes :: "u64 list \<Rightarrow> bool list \<Rightarrow> prep_input set" where
  "free_notes available used =
     {x. \<exists>i. i < length available \<and> \<not> used ! i \<and> x = Wallet i (available ! i)}"

lemma wallet_free_notes: "wallet_notes (free_notes available used)"
  by (auto simp: wallet_notes_def free_notes_def)

lemma set_unused_notes:
  "(i, v) \<in> set (unused_notes available used) \<longleftrightarrow> i < length available \<and> \<not> used ! i \<and> v = available ! i"
  by (auto simp: unused_notes_def in_set_enumerate_eq)

lemma distinct_unused: "distinct (map fst (unused_notes available used))"
proof -
  have "distinct (map fst (filter P (List.enumerate n xs)))" for P n and xs :: "u64 list"
    by (rule distinct_map_filter) simp
  then show ?thesis by (simp add: unused_notes_def)
qed

lemma wallet_inputs_Ok: "mapM (wallet_input E) notes' = Ok ws \<Longrightarrow> ws = map (\<lambda>(i, v). Wallet i v) notes'"
  by (auto simp: mapM_eq_Ok wallet_input_def outcome_simps zat_Ok list_all2_conv_all_nth
      split: prod.splits intro!: nth_equalityI)

lemma unused_spendable:
  assumes "mapM (wallet_input E) (filter P (unused_notes available used)) = Ok ws"
  shows "spendable (free_notes available used) [] ws"
proof -
  have ws: "ws = map (\<lambda>(i, v). Wallet i v) (filter P (unused_notes available used))"
    by (rule wallet_inputs_Ok [OF assms])
  have "distinct (map fst (filter P (unused_notes available used)))"
    by (rule distinct_map_filter) (rule distinct_unused)
  then have "distinct (filter P (unused_notes available used))" by (simp add: distinct_map)
  then have "distinct ws" unfolding ws
    by (subst distinct_map) (auto intro!: inj_onI)
  then show ?thesis
    by (auto simp: spendable_def ws free_notes_def set_unused_notes all_inputs_def)
qed

text \<open>
  What every plan satisfies, over the notes \<open>N\<close>: valid wiring, sound transactions, no intermediate output that
  nothing spends, and the funding notes asked for.
\<close>

definition plan_ok :: "u64 \<Rightarrow> prep_input set \<Rightarrow> u64 list \<Rightarrow> layers \<Rightarrow> bool" where
  "plan_ok fee N targets L \<longleftrightarrow> wired N L \<and> list_all (sound_tx fee) (concat L)
     \<and> (\<forall>x. note_exists L x \<longrightarrow> x \<in> set (all_inputs L))
     \<and> mset (minted_funding (concat L)) = mset targets"

lemma relabel_plan_ok:
  assumes "layers_ok fee N L" and "wallet_notes N" and "mset (minted_funding (concat L)) = mset targets"
  shows "plan_ok fee N targets (relabel_unspent L)"
proof -
  have wired: "wired N L" and "list_all (sound_tx fee) (concat L)"
    using assms(1) by (auto simp: layers_ok_def raw_tx_def list_all_iff)
  then have "list_all (sound_tx fee) (concat (relabel_unspent L))" by (simp add: sound_relabel)
  with wired_relabel [OF wired assms(2)] note_exists_relabel_iff [OF wired assms(2)] assms(3)
  show ?thesis by (simp add: plan_ok_def)
qed

lemma max_note_in: "max_note ns = Some n \<Longrightarrow> n \<in> set ns"
  by (induction ns arbitrary: n) (auto split: option.splits if_splits)

lemma fast_path_spec:
  assumes "fast_path E fee (unused_notes available used) remaining = Ok (L, remaining')"
    and "remaining \<noteq> []"
  shows "(L = [] \<and> remaining' = remaining) \<or>
    (remaining' = [] \<and> layers_ok fee (free_notes available used) L
      \<and> mset (minted_funding (concat L)) = mset remaining)"
proof -
  let ?N = "free_notes available used"
  have "L = [] \<and> remaining' = remaining \<or> (\<exists>i v. (i, v) \<in> set (unused_notes available used)
      \<and> build_split E (Wallet i v) v remaining fee 0 [] = Ok L \<and> remaining' = [])"
    using assms(1) by (auto simp: fast_path_def outcome_simps zat_Ok dest!: max_note_in
        split: option.splits if_splits)
  then show ?thesis
  proof (elim disjE exE conjE)
    fix i v
    assume wn: "(i, v) \<in> set (unused_notes available used)"
      and build: "build_split E (Wallet i v) v remaining fee 0 [] = Ok L" and rem: "remaining' = []"
    have "ready ?N 0 [] (Wallet i v)"
      using wn by (auto simp: ready_def free_notes_def set_unused_notes all_inputs_def)
    from build_split_spec [OF build assms(2) _ _ this wallet_free_notes]
    have "split_spec fee ?N (Wallet i v) remaining [] L" by simp
    then show ?thesis using rem by (simp add: split_spec_def layers_ok_def)
  qed simp
qed

lemma positive_desc_facts:
  "mset (positive_desc funding) = filter_mset (\<lambda>v. v > 0) (mset funding)"
  "sorted_wrt (\<ge>) (positive_desc funding)"
  by (simp_all add: positive_desc_def sorted_sort_desc)

text \<open>Every successful run starts with the exact matches; what differs is how the rest is minted.\<close>

lemma greedy_plan_spec:
  assumes "plan_preparation_greedy E available funding fee = Ok plan"
  shows "\<exists>used remaining. extract_direct_funding E available (positive_desc funding)
      = Ok (used, direct_funding plan, remaining)
    \<and> plan_ok fee (free_notes available used) remaining (plan_layers plan)
    \<and> (\<exists>L left next_notes. plan_layers plan = relabel_unspent L
        \<and> layers_ok fee (free_notes available used) L
        \<and> (length (unconsumed_feeders L) \<le> 1
          \<or> consolidate E (unconsumed_feeders L) (length L) fee [] [] = Ok (left, [], next_notes)))"
proof -
  from assms obtain used direct remaining where
    ext: "extract_direct_funding E available (positive_desc funding) = Ok (used, direct, remaining)" and
    run: "remaining = [] \<and> plan = \<lparr>plan_layers = [], direct_funding = direct\<rparr>
      \<or> remaining \<noteq> [] \<and> (\<exists>L remaining' current L' L''.
          fast_path E fee (unused_notes available used) remaining = Ok (L, remaining')
        \<and> mapM (wallet_input E) (unused_notes available used) = Ok current
        \<and> greedy_loop E fee L current remaining' = Ok L'
        \<and> residual_loop E fee L' = Ok L''
        \<and> plan = \<lparr>plan_layers = relabel_unspent L'', direct_funding = direct\<rparr>)"
    by (auto simp: plan_preparation_greedy_def outcome_simps split: if_splits)
  let ?N = "free_notes available used"
  show ?thesis
  proof (cases "remaining = []")
    case True
    with run ext show ?thesis
      by (auto simp: plan_ok_def relabel_unspent_def unconsumed_feeders_def feeders_def
          intro!: exI [of _ used] exI [of _ "[]"])
        (metis list.size(3) not_less_zero note_exists.elims(2))
  next
    case False
    with run obtain L remaining' current L' L'' where steps:
      "fast_path E fee (unused_notes available used) remaining = Ok (L, remaining')"
      "mapM (wallet_input E) (unused_notes available used) = Ok current"
      "greedy_loop E fee L current remaining' = Ok L'" "residual_loop E fee L' = Ok L''"
      "plan = \<lparr>plan_layers = relabel_unspent L'', direct_funding = direct\<rparr>" by auto
    have L': "layers_ok fee ?N L' \<and> mset (minted_funding (concat L')) = mset remaining"
    proof (cases "remaining' = []")
      case True
      then have "L' = L" using steps(3) by (simp add: greedy_loop.simps)
      with fast_path_spec [OF steps(1) False] True False show ?thesis by auto
    next
      case nonempty: False
      with fast_path_spec [OF steps(1) False] have "L = []" "remaining' = remaining" by auto
      moreover have "spendable ?N [] current"
        using unused_spendable [of E "\<lambda>_. True" available used current] steps(2) by simp
      ultimately show ?thesis
        using greedy_loop_spec [OF steps(3), of ?N] wallet_free_notes by simp
    qed
    from residual_loop_spec [OF steps(4) _ wallet_free_notes] L' have L'':
      "layers_ok fee ?N L''" "mset (minted_funding (concat L'')) = mset remaining"
      "length (unconsumed_feeders L'') \<le> 1
       \<or> (\<exists>left next_notes. consolidate E (unconsumed_feeders L'') (length L'') fee [] [] = Ok (left, [], next_notes))"
      by auto
    with relabel_plan_ok [OF L''(1) wallet_free_notes L''(2)] ext steps(5) show ?thesis
      by (intro exI [of _ used] exI [of _ remaining]) auto
  qed
qed

lemma fallback_plan_spec:
  assumes "plan_preparation_via_consolidation E available funding fee = Ok plan"
  shows "\<exists>used remaining. extract_direct_funding E available (positive_desc funding)
      = Ok (used, direct_funding plan, remaining)
    \<and> plan_ok fee (free_notes available used) remaining (plan_layers plan)
    \<and> (\<exists>L. plan_layers plan = relabel_unspent L \<and> layers_ok fee (free_notes available used) L
        \<and> length (unconsumed_feeders L) \<le> 1)"
proof -
  from assms obtain used direct targets where
    ext: "extract_direct_funding E available (positive_desc funding) = Ok (used, direct, targets)" and
    run: "targets = [] \<and> plan = \<lparr>plan_layers = [], direct_funding = direct\<rparr>
      \<or> targets \<noteq> [] \<and> (\<exists>current0 L current L'.
          mapM (wallet_input E) (filter (\<lambda>(i, v). v > 0) (unused_notes available used)) = Ok current0
        \<and> consolidation_loop E fee [] current0 = Ok (L, current) \<and> current \<noteq> []
        \<and> build_split E (last current) (input_value (last current)) targets fee (length L) L = Ok L'
        \<and> plan = \<lparr>plan_layers = relabel_unspent L', direct_funding = direct\<rparr>)"
    by (auto simp: plan_preparation_via_consolidation_def Let_def outcome_simps split: if_splits)
  let ?N = "free_notes available used"
  show ?thesis
  proof (cases "targets = []")
    case True
    with run ext show ?thesis
      by (auto simp: plan_ok_def relabel_unspent_def unconsumed_feeders_def feeders_def
          intro!: exI [of _ used] exI [of _ "[]"])
        (metis list.size(3) not_less_zero note_exists.elims(2))
  next
    case False
    with run obtain current0 L current L' where steps:
      "mapM (wallet_input E) (filter (\<lambda>(i, v). v > 0) (unused_notes available used)) = Ok current0"
      "consolidation_loop E fee [] current0 = Ok (L, current)" "current \<noteq> []"
      "build_split E (last current) (input_value (last current)) targets fee (length L) L = Ok L'"
      "plan = \<lparr>plan_layers = relabel_unspent L', direct_funding = direct\<rparr>" by auto
    from consolidation_loop_spec [OF steps(2) _ unused_spendable [OF steps(1)] wallet_free_notes]
    have L: "layers_ok fee ?N L" "spendable ?N L current" "minted_funding (concat L) = []"
      "length current \<le> 1" "\<forall>x. open_note L x \<longrightarrow> x \<in> set current"
      by (auto simp: open_note_def set_feeders [symmetric] feeders_def)
    have single: "current = [last current]" using L(4) steps(3) by (cases current) auto
    have "ready ?N (length L) L (last current)"
      using L(2) steps(3) by (simp add: spendable_def ready_def)
    from build_split_spec [OF steps(4) False refl _ this wallet_free_notes] L(1)
    have "split_spec fee ?N (last current) targets L L'" by (simp add: layers_ok_def)
    then obtain top where L': "layers_ok fee ?N L'" "mset (minted_funding (concat L')) = mset targets"
      "\<forall>x. open_note L' x \<longrightarrow> open_note L x \<and> x \<noteq> last current \<or> top = Some x"
      using L by (auto simp: split_spec_def layers_ok_def)
    have "open_note L' x \<Longrightarrow> top = Some x" for x
      using L'(3) L(5) single by (metis empty_iff insert_iff list.set(1) list.set(2))
    then have "set (unconsumed_feeders L') \<subseteq> set_option top"
      using unconsumed_open by fastforce
    then have "length (unconsumed_feeders L') \<le> 1"
      by (rule length_unconsumed_le_1)
    with relabel_plan_ok [OF L'(1) wallet_free_notes L'(2)] ext steps(5) L'(1) show ?thesis
      by (intro exI [of _ used] exI [of _ targets]) auto
  qed
qed

lemma plan_cases:
  assumes "plan_preparation E available funding fee = Ok plan"
  obtains "plan_preparation_greedy E available funding fee = Ok plan"
  | "plan_preparation_via_consolidation E available funding fee = Ok plan"
  using assms by (auto simp: plan_preparation_def split: outcome.splits prep_error.splits)

lemma plan_spec:
  assumes "plan_preparation E available funding fee = Ok plan"
  obtains used remaining where
    "extract_direct_funding E available (positive_desc funding) = Ok (used, direct_funding plan, remaining)"
    "plan_ok fee (free_notes available used) remaining (plan_layers plan)"
  using assms by (cases rule: plan_cases) (use greedy_plan_spec fallback_plan_spec in blast)+

end
