(* ===== verification/PrepProperties.thy ===== *)
theory PrepProperties
  imports PrepCorrect
begin

text \<open>
  The properties of \<open>plan_preparation\<close> the migration relies on: what it mints, which notes
  it spends, that it conserves value and leaves no more change than it must.
\<close>

section \<open>Evaluation on a concrete input\<close>

lemmas planner_eval =
  plan_preparation_def plan_preparation_greedy_def plan_preparation_via_consolidation_def
  zat_sum_def reference_env_def ok_or_def expect_def zat_def extract_direct_funding_def
  positive_desc_def sort_desc_def position_unused_def fast_path_def unused_notes_def
  subtree_cost.simps split_depth_def split_depth_from.simps subtree_capacity_def prep_constants
  plain_sum_def plain_add_def plain_sub_def checked_add_def checked_sub_def u64_max_def
  wallet_input_def greedy_loop.simps residual_loop.simps consolidation_loop.simps greedy_layer_def
  pass1_step_def pass2_step_def consolidate_def consolidation_batch_sizes.simps order_desc_def
  unconsumed_feeders_def feeders_def layer_feeders_def tx_feeders_def spent_outputs_def
  all_inputs_def build_split.simps pad_layers_def push_tx_def leftover_output_def
  relabel_unspent_def relabel_tx_def map_filter_simps

text \<open>The input of the unit test at the end of \<open>preparation_plan.rs\<close>.\<close>

definition example_plan :: preparation_plan where
  "example_plan = \<lparr>plan_layers =
       [[\<lparr>tx_inputs = [Wallet 1 100, Wallet 2 100], tx_outputs = [Intermediate 190]\<rparr>],
        [\<lparr>tx_inputs = [Prior 0 0 0 190], tx_outputs = [Funding 150, Change 30]\<rparr>]],
     direct_funding = [(0, 100)]\<rparr>"

lemma example_plan_run:
  "plan_preparation reference_env [100, 100, 100] [100, 150] 10 = Ok example_plan"
  by (simp add: planner_eval example_plan_def Let_def upt_rec)

section \<open>Funding\<close>

lemma minted_funding_all_outputs:
  "funding_notes plan = minted_funding (concat (plan_layers plan)) @ map snd (direct_funding plan)"
  by (simp add: funding_notes_def minted_funding_def all_outputs_def)

text \<open>
  C7: A plan mints or reuses exactly the positive funding notes that were asked for, each as
  often as it was asked for, whatever path of the planner produced it.
\<close>

theorem plan_preparation_funding:
  assumes "plan_preparation E available funding fee = Ok plan"
  shows "mset (funding_notes plan) = filter_mset (\<lambda>v. v > 0) (mset funding)"
proof -
  from assms obtain used remaining where
    ext: "extract_direct_funding E available (positive_desc funding) = Ok (used, direct_funding plan, remaining)"
    and ok: "plan_ok fee (free_notes available used) remaining (plan_layers plan)" by (rule plan_spec)
  have "mset (funding_notes plan) = mset remaining + mset (map snd (direct_funding plan))"
    using ok by (simp add: minted_funding_all_outputs plan_ok_def)
  also have "\<dots> = mset (positive_desc funding)"
    using extract_direct_Ok(5) [OF ext] by (simp add: add.commute)
  finally show ?thesis by (simp add: positive_desc_facts)
qed

theorem plan_preparation_funding_witness:
  "mset (funding_notes example_plan) = {#100, 150#}"
  using plan_preparation_funding [OF example_plan_run] by simp

section \<open>Inputs\<close>

text \<open>An input of layer \<open>k\<close> refers to something the layer can spend.\<close>

fun valid_input :: "u64 list \<Rightarrow> preparation_plan \<Rightarrow> usize \<Rightarrow> prep_input \<Rightarrow> bool" where
  "valid_input available plan k (Wallet i v) \<longleftrightarrow>
     i < length available \<and> available ! i = v \<and> i \<notin> set (map fst (direct_funding plan))"
| "valid_input available plan k (Prior li ti oi v) \<longleftrightarrow>
     li < k \<and> ti < length (plan_layers plan ! li)
     \<and> oi < length (tx_outputs (plan_layers plan ! li ! ti))
     \<and> tx_outputs (plan_layers plan ! li ! ti) ! oi = Intermediate v"

text \<open>
  C12: Every input of a plan is a wallet note with its own value that no exact match took, or
  an intermediate output of a strictly earlier layer with its value; no note is spent twice, and
  the exact matches are different wallet notes with the values they stand for.
\<close>

theorem plan_preparation_inputs_valid:
  assumes "plan_preparation E available funding fee = Ok plan"
  shows "distinct (all_inputs (plan_layers plan)) \<and> distinct (map fst (direct_funding plan))
    \<and> (\<forall>(i, v) \<in> set (direct_funding plan). i < length available \<and> available ! i = v)
    \<and> (\<forall>k < layer_count plan. \<forall>tx \<in> set (plan_layers plan ! k). \<forall>x \<in> set (tx_inputs tx).
         valid_input available plan k x)"
proof -
  from assms obtain used remaining where
    ext: "extract_direct_funding E available (positive_desc funding) = Ok (used, direct_funding plan, remaining)"
    and ok: "plan_ok fee (free_notes available used) remaining (plan_layers plan)" by (rule plan_spec)
  note ext = extract_direct_Ok [OF ext]
  from ok have wired: "wired (free_notes available used) (plan_layers plan)" by (simp add: plan_ok_def)
  have "valid_input available plan k x"
    if "k < layer_count plan" "tx \<in> set (plan_layers plan ! k)" "x \<in> set (tx_inputs tx)" for k tx x
  proof -
    from that wired have "x \<in> free_notes available used \<or> note_exists (take k (plan_layers plan)) x"
      by (auto simp: wired_def layer_count_def)
    then show ?thesis using ext(2) by (cases x) (auto simp: free_notes_def)
  qed
  with wired ext(3,4) show ?thesis by (auto simp: wired_def)
qed

theorem plan_preparation_inputs_valid_witness:
  "distinct (all_inputs (plan_layers example_plan))
     \<and> valid_input [100, 100, 100] example_plan 1 (Prior 0 0 0 190)"
  using plan_preparation_inputs_valid [OF example_plan_run]
  by (simp add: example_plan_def layer_count_def)

text \<open>
  No dangling notes: in a plan every intermediate output is spent by one of its
  transactions (only once and in a later layer, by the previous property), so what is left is labelled change.
\<close>

theorem plan_preparation_no_dangling:
  assumes "plan_preparation E available funding fee = Ok plan"
  shows "unconsumed_feeders (plan_layers plan) = []"
proof -
  from assms obtain used remaining where
    "plan_ok fee (free_notes available used) remaining (plan_layers plan)" by (rule plan_spec)
  then have "note_exists (plan_layers plan) x \<Longrightarrow> x \<in> set (all_inputs (plan_layers plan))" for x
    by (simp add: plan_ok_def)
  then have "x \<notin> set (unconsumed_feeders (plan_layers plan))" for x
    using unconsumed_open [of x "plan_layers plan"] by (auto simp: open_note_def)
  then show ?thesis by (metis list.set_intros(1) neq_Nil_conv)
qed

theorem plan_preparation_no_dangling_witness:
  "unconsumed_feeders (plan_layers example_plan) = []"
  by (rule plan_preparation_no_dangling [OF example_plan_run])

text \<open>
  Every transaction of a plan has inputs and outputs, at most 16 actions, and spends
  exactly the value of its outputs and one fee.
\<close>

theorem plan_preparation_transactions_sound:
  assumes "plan_preparation E available funding fee = Ok plan"
    and "tx \<in> set (concat (plan_layers plan))"
  shows "tx_inputs tx \<noteq> [] \<and> tx_outputs tx \<noteq> [] \<and> action_count tx \<le> 16
    \<and> sum_list (map input_value (tx_inputs tx)) = sum_list (map output_value (tx_outputs tx)) + fee"
proof -
  from assms(1) obtain used remaining where
    "plan_ok fee (free_notes available used) remaining (plan_layers plan)" by (rule plan_spec)
  with assms(2) have "sound_tx fee tx" by (simp only: plan_ok_def list_all_iff)
  then show ?thesis by (simp add: sound_tx_def prep_constants)
qed

theorem plan_preparation_transactions_sound_witness:
  "sum_list (map input_value [Prior 0 0 0 190])
     = sum_list (map output_value [Funding 150, Change 30]) + 10"
  using plan_preparation_transactions_sound [OF example_plan_run,
      of "\<lparr>tx_inputs = [Prior 0 0 0 190], tx_outputs = [Funding 150, Change 30]\<rparr>"]
  by (simp add: example_plan_def)

section \<open>Value\<close>

fun wallet_ref :: "prep_input \<Rightarrow> (usize \<times> u64) option" where
  "wallet_ref (Wallet i v) = Some (i, v)"
| "wallet_ref (Prior _ _ _ _) = None"

definition wallet_spent :: "layers \<Rightarrow> (usize \<times> u64) list" where
  "wallet_spent L = List.map_filter wallet_ref (all_inputs L)"

lemma sum_sound_txs:
  "list_all (sound_tx fee) txs \<Longrightarrow>
     sum_list (map input_value (concat (map tx_inputs txs)))
       = sum_list (map output_value (concat (map tx_outputs txs))) + fee * length txs"
  by (induction txs) (auto simp: sound_tx_def)

lemma sum_outputs_split:
  "sum_list (map output_value outs) =
     sum_list (List.map_filter funding_value outs) + sum_list (List.map_filter intermediate_value outs)
       + sum_list (List.map_filter change_value outs)"
proof (induction outs)
  case (Cons out outs)
  then show ?case by (cases out) (auto simp: map_filter_simps)
qed (simp add: map_filter_simps)

lemma sum_inputs_split:
  "sum_list (map input_value xs) = sum_list (map snd (List.map_filter wallet_ref xs))
     + sum_list (map input_value (filter (\<lambda>x. wallet_ref x = None) xs))"
proof (induction xs)
  case (Cons x xs)
  then show ?case by (cases x) (auto simp: map_filter_simps)
qed (simp add: map_filter_simps)

lemma map_filter_concat: "List.map_filter f (concat xss) = concat (map (List.map_filter f) xss)"
  by (induction xss) (auto simp: map_filter_append map_filter_simps)

lemma tx_feeders_values:
  "map input_value (tx_feeders li ti tx) = List.map_filter intermediate_value (tx_outputs tx)"
proof -
  have "map input_value (List.map_filter (\<lambda>(oi, out). map_option (Prior li ti oi) (intermediate_value out))
      (List.enumerate n outs)) = List.map_filter intermediate_value outs" for n outs
    by (induction outs arbitrary: n) (auto simp: map_filter_simps split: option.splits)
  then show ?thesis by (simp add: tx_feeders_def)
qed

lemma feeders_Nil: "feeders [] = []"
  by (simp add: feeders_def)

lemma feeders_values: "map input_value (feeders L) = List.map_filter intermediate_value (all_outputs L)"
proof -
  have layer: "map input_value (layer_feeders li n txs)
      = List.map_filter intermediate_value (concat (map tx_outputs txs))" for li n txs
    by (induction txs arbitrary: n)
      (auto simp: layer_feeders_Cons tx_feeders_values map_filter_append map_filter_simps)
  show ?thesis
    by (induction L rule: rev_induct)
      (auto simp: feeders_snoc layer all_outputs_def map_filter_append map_filter_simps feeders_Nil)
qed

text \<open>Without dangling notes the spent intermediates are the intermediate outputs.\<close>

lemma prior_inputs_feeders:
  assumes "plan_ok fee N targets L" and "wallet_notes N"
  shows "mset (filter (\<lambda>x. wallet_ref x = None) (all_inputs L)) = mset (feeders L)"
proof -
  have "distinct (all_inputs L)" using assms(1) by (simp add: plan_ok_def wired_def)
  then have "distinct (filter (\<lambda>x. wallet_ref x = None) (all_inputs L))" by simp
  moreover have "set (filter (\<lambda>x. wallet_ref x = None) (all_inputs L)) = set (feeders L)"
  proof (rule set_eqI)
    fix x
    have "wallet_ref x = None \<longleftrightarrow> (\<forall>i v. x \<noteq> Wallet i v)" by (cases x) auto
    moreover have "x \<in> set (all_inputs L) \<Longrightarrow> x \<in> N \<or> note_exists L x"
      using assms(1) wired_inputs_exist by (auto simp: plan_ok_def)
    moreover have "note_exists L x \<Longrightarrow> x \<in> set (all_inputs L) \<and> (\<forall>i v. x \<noteq> Wallet i v)"
      using assms(1) by (auto simp: plan_ok_def)
    ultimately show "x \<in> set (filter (\<lambda>x. wallet_ref x = None) (all_inputs L)) \<longleftrightarrow> x \<in> set (feeders L)"
      using assms(2) unfolding set_feeders wallet_notes_def set_filter mem_Collect_eq by blast
  qed
  ultimately show ?thesis using distinct_feeders by (metis set_eq_iff_mset_eq_distinct)
qed

lemma length_concat_count: "length (concat xss) = sum_list (map length xss)"
  by (induction xss) auto

text \<open>
  C13: End to end a plan conserves value: the wallet notes its transactions spend are worth
  the funding notes they mint, the residual notes and one fee for each transaction.
\<close>

theorem plan_preparation_conserves:
  assumes "plan_preparation E available funding fee = Ok plan"
  shows "sum_list (map snd (wallet_spent (plan_layers plan))) + sum_list (map snd (direct_funding plan))
    = sum_list (funding_notes plan) + sum_list (residual_notes plan) + fee * transaction_count plan"
proof -
  let ?L = "plan_layers plan"
  from assms obtain used remaining where
    ok: "plan_ok fee (free_notes available used) remaining ?L" by (rule plan_spec)
  have "sum_list (map input_value (all_inputs ?L))
      = sum_list (map output_value (all_outputs ?L)) + fee * length (concat ?L)"
    using ok sum_sound_txs by (simp add: plan_ok_def all_inputs_def all_outputs_def)
  moreover have "sum_list (map input_value (filter (\<lambda>x. wallet_ref x = None) (all_inputs ?L)))
      = sum_list (List.map_filter intermediate_value (all_outputs ?L))"
    using sum_list_mset_eq [OF prior_inputs_feeders [OF ok wallet_free_notes], of input_value]
    by (simp add: feeders_values)
  ultimately show ?thesis
    using sum_inputs_split [of "all_inputs ?L"] sum_outputs_split [of "all_outputs ?L"]
    by (simp add: wallet_spent_def funding_notes_def residual_notes_def transaction_count_def
        length_concat_count)
qed

theorem plan_preparation_conserves_witness:
  "(100::nat) + 100 + 100 = (150 + 100) + 30 + 10 * 2"
  using plan_preparation_conserves [OF example_plan_run]
  by (simp add: example_plan_def wallet_spent_def all_inputs_def funding_notes_def residual_notes_def
      all_outputs_def transaction_count_def map_filter_simps)

section \<open>Change\<close>

text \<open>The residual notes are the values of the feeders nothing spends.\<close>

lemma relabel_tx_change:
  assumes "\<forall>out \<in> set (tx_outputs tx). change_value out = None"
  shows "List.map_filter change_value (tx_outputs (relabel_tx spent li (ti, tx)))
    = map input_value (filter (\<lambda>x. the (spent_ref x) \<notin> set spent) (tx_feeders li ti tx))"
proof -
  have "List.map_filter change_value
        (map (\<lambda>(oi, out). relabel_output spent (li, ti, oi) out) (List.enumerate n outs))
      = map input_value (filter (\<lambda>x. the (spent_ref x) \<notin> set spent)
          (List.map_filter (\<lambda>(oi, out). map_option (Prior li ti oi) (intermediate_value out))
            (List.enumerate n outs)))"
    if "\<forall>out \<in> set outs. change_value out = None" for n outs
    using that
  proof (induction outs arbitrary: n)
    case (Cons out outs)
    then show ?case by (cases out) (auto simp: map_filter_simps)
  qed (simp add: map_filter_simps)
  with assms show ?thesis by (simp add: relabel_tx_def tx_feeders_def)
qed

lemma map_filter_map_concat:
  "List.map_filter f (concat (map g xs)) = concat (map (\<lambda>x. List.map_filter f (g x)) xs)"
  by (induction xs) (auto simp: map_filter_append map_filter_simps)

lemma residual_relabel:
  assumes "list_all (raw_tx fee) (concat L)"
  shows "List.map_filter change_value (all_outputs (relabel_unspent L)) = map input_value (unconsumed_feeders L)"
proof -
  define spent where "spent = spent_outputs L"
  have layer: "List.map_filter change_value (concat (map tx_outputs
        (map (relabel_tx spent li) (List.enumerate n txs))))
      = map input_value (filter (\<lambda>x. the (spent_ref x) \<notin> set spent) (layer_feeders li n txs))"
    if "list_all (raw_tx fee) txs" for li n txs
    using that
    by (induction txs arbitrary: n)
      (auto simp: layer_feeders_Cons map_filter_append map_filter_simps relabel_tx_change raw_tx_def)
  have "List.map_filter change_value (concat (map tx_outputs (concat
        (map (\<lambda>(li, layer). map (relabel_tx spent li) (List.enumerate 0 layer)) (List.enumerate n M)))))
      = map input_value (filter (\<lambda>x. the (spent_ref x) \<notin> set spent)
          (concat (map (\<lambda>(li, layer). layer_feeders li 0 layer) (List.enumerate n M))))"
    if "list_all (raw_tx fee) (concat M)" for n M
    using that
    by (induction M arbitrary: n) (auto simp: map_filter_append map_filter_simps layer simp del: map_map)
  with assms show ?thesis
    by (simp add: all_outputs_def relabel_unspent_def unconsumed_feeders_def feeders_def spent_def)
qed

text \<open>A consolidation that produces no transaction found no batch worth more than the fee.\<close>

lemma consolidate_batches_none:
  assumes "consolidate_batches E layer fee left0 txs0 next0 batches = Ok (left, txs, next_notes)"
    and "length txs = length txs0" and "b \<in> set batches"
    and "\<And>b. b \<in> set batches \<Longrightarrow> 2 \<le> length b \<and> length b \<le> 15"
  shows "sum_list (map input_value b) \<le> fee"
  using assms
proof (induction E layer fee left0 txs0 next0 batches
    rule: consolidate_batches.induct [case_names Nil Cons])
  case (Cons E layer fee left0 txs0 next0 batch batches)
  let ?s = "sum_list (map input_value batch)"
  from Cons.prems(1) have s: "plain_sum (map input_value batch) = (Ok ?s :: (prep_error, u64) outcome)"
    by (auto simp: outcome_simps plain_sum_Ok)
  show ?case
  proof (cases "?s \<le> fee")
    case True
    with Cons.prems(1) s have
      "consolidate_batches E layer fee (left0 @ batch) txs0 next0 batches = Ok (left, txs, next_notes)"
      by simp
    from Cons.IH(1) [OF s True this Cons.prems(2) _ Cons.prems(4)] Cons.prems(3) True show ?thesis by auto
  next
    case False
    with Cons.prems(1) s obtain tx next1 where
      "consolidate_batches E layer fee left0 (txs0 @ [tx]) next1 batches = Ok (left, txs, next_notes)"
      by (auto simp: outcome_simps)
    from consolidate_batches_Ok [OF this] Cons.prems(4) have "length txs0 < length txs" by fastforce
    with Cons.prems(2) show ?thesis by simp
  qed
qed simp

lemma order_desc_values: "map input_value (order_desc E pool) = sort_desc (map input_value pool)"
proof -
  have "sorted (rev (map input_value (order_desc E pool)))"
    using sorted_order [of E pool] by (simp add: sorted_wrt_rev sorted_wrt_map flip: rev_map)
  then have "sort (map input_value pool) = rev (map input_value (order_desc E pool))"
    by (intro properties_for_sort) simp_all
  then show ?thesis by (simp add: sort_desc_def)
qed

lemma map_split_groups: "map (map f) (split_groups ns xs) = split_groups ns (map f xs)"
  by (induction ns arbitrary: xs) (auto simp: take_map drop_map)

lemma consolidate_none:
  assumes "consolidate E pool layer fee [] [] = Ok (left, [], next_notes)" and "2 \<le> length pool"
    and "b \<in> set (split_groups (consolidation_batch_sizes (length pool)) (sort_desc (map input_value pool)))"
  shows "sum_list b \<le> fee"
proof -
  let ?sizes = "consolidation_batch_sizes (length pool)"
  have run: "consolidate_batches E layer fee [] [] [] (split_groups ?sizes (order_desc E pool))
      = Ok (left, [], next_notes)"
    using assms(1,2) by (simp add: consolidate_def Let_def)
  from assms(3) obtain c where c: "c \<in> set (split_groups ?sizes (order_desc E pool))" "b = map input_value c"
    unfolding order_desc_values [of E, symmetric] map_split_groups [symmetric] by auto
  have bounds: "2 \<le> length d \<and> length d \<le> 15" if "d \<in> set (split_groups ?sizes (order_desc E pool))" for d
  proof -
    have "sum_list ?sizes = length (order_desc E pool)" by (simp add: batch_sizes_sum)
    from split_groups_member [OF this that] obtain k where "k \<in> set ?sizes" "length d = k" by blast
    moreover have "length pool \<noteq> 1" using assms(2) by simp
    ultimately show ?thesis using batch_sizes_bounds [of "length pool" k] by simp
  qed
  show ?thesis using consolidate_batches_none [OF run _ c(1) bounds] by (simp add: c(2))
qed

text \<open>
  A plan leaves at most one residual note, unless what it leaves is dust: then, sorted
  and batched the way the planner consolidates, no batch of the residual notes is worth more than
  the fee of the transaction that would merge it.
\<close>

theorem plan_preparation_residual:
  assumes "plan_preparation E available funding fee = Ok plan"
  shows "residual_count plan \<le> 1 \<or>
    (\<forall>batch \<in> set (split_groups (consolidation_batch_sizes (residual_count plan))
         (sort_desc (residual_notes plan))). sum_list batch \<le> fee)"
proof -
  have "\<exists>L used left next_notes. plan_layers plan = relabel_unspent L
      \<and> layers_ok fee (free_notes available used) L
      \<and> (length (unconsumed_feeders L) \<le> 1
          \<or> consolidate E (unconsumed_feeders L) (length L) fee [] [] = Ok (left, [], next_notes))"
    using assms
    by (cases rule: plan_cases) (use greedy_plan_spec fallback_plan_spec in blast)+
  then obtain L used left next_notes where L: "plan_layers plan = relabel_unspent L"
    "list_all (raw_tx fee) (concat L)"
    "length (unconsumed_feeders L) \<le> 1
      \<or> consolidate E (unconsumed_feeders L) (length L) fee [] [] = Ok (left, [], next_notes)"
    by (auto simp: layers_ok_def)
  have res: "residual_notes plan = map input_value (unconsumed_feeders L)"
    using residual_relabel [OF L(2)] by (simp add: residual_notes_def L(1))
  show ?thesis
  proof (cases "length (unconsumed_feeders L) \<le> 1")
    case True
    then show ?thesis by (simp add: residual_count_def res)
  next
    case False
    with L(3) have none: "consolidate E (unconsumed_feeders L) (length L) fee [] [] = Ok (left, [], next_notes)"
      by blast
    show ?thesis
      using consolidate_none [OF none] False by (simp add: residual_count_def res)
  qed
qed

theorem plan_preparation_residual_witness:
  "residual_notes example_plan = [30] \<and> residual_count example_plan \<le> 1"
proof -
  have notes': "residual_notes example_plan = [30]"
    by (simp add: example_plan_def residual_notes_def all_outputs_def map_filter_simps)
  from plan_preparation_residual [OF example_plan_run] show ?thesis
    by (simp add: notes' residual_count_def)
qed

end
