(* ===== verification/Errors.thy ===== *)
theory Errors
  imports Prelude
begin

text \<open>
  The errors of the migration module (\<open>rust/src/wallet/sync/migration.rs\<close> and the files
  it includes), which the code carries as \<open>String\<close>: one constructor per message, with the
  values a \<open>format!\<close> puts into it, and a function that gives the message itself. There is
  one type per source file, so that each result type names the errors its functions can return.
\<close>

fun digits_rev :: "nat \<Rightarrow> string" where
  "digits_rev n =
     (if n < 10 then [char_of (48 + n)] else char_of (48 + n mod 10) # digits_rev (n div 10))"

declare digits_rev.simps [simp del]

definition show_nat :: "nat \<Rightarrow> string" where
  "show_nat n = rev (digits_rev n)"

datatype policy_error =
    UnsupportedTimingPolicy string
  | DenominationSplitFeeUnderflow
  | CanonicalDenominationFeeUnderflow
  | MigratableTotalOverflow
  | ExpiryWindowOverflow
  | ExpiryHeightOverflow
  | ProofReadinessHeightOverflow
  | AnchorBoundaryOverflow
  | ProofRetryHeightOverflow

primrec policy_error_text :: "policy_error \<Rightarrow> string" where
  "policy_error_text (UnsupportedTimingPolicy v) = ''Unsupported migration timing policy: '' @ v"
| "policy_error_text DenominationSplitFeeUnderflow = ''Denomination split fee underflow''"
| "policy_error_text CanonicalDenominationFeeUnderflow = ''Canonical denomination fee underflow''"
| "policy_error_text MigratableTotalOverflow = ''Migratable total overflow''"
| "policy_error_text ExpiryWindowOverflow = ''ZIP 318 expiry window overflow''"
| "policy_error_text ExpiryHeightOverflow = ''ZIP 318 canonical expiry height overflow''"
| "policy_error_text ProofReadinessHeightOverflow = ''Migration proof readiness height overflow''"
| "policy_error_text AnchorBoundaryOverflow = ''Migration anchor boundary overflow''"
| "policy_error_text ProofRetryHeightOverflow = ''Migration proof retry height overflow''"

datatype schedule_error =
    ScheduleMissingRecoveryChild
  | SchedulePartsNotIdentified
  | SchedulePartIndexesIncomplete
  | SchedulePartIndexOutside
  | SchedulePartIndexDuplicated
  | ScheduleCountChanged
  | ScheduleValuesChanged
  | ScheduleNotOrdered
  | ScheduleDelayOutsidePolicy
  | SchedulePartValueChanged

primrec schedule_error_text :: "schedule_error \<Rightarrow> string" where
  "schedule_error_text ScheduleMissingRecoveryChild =
     ''Approved migration schedule is missing a recovery child''"
| "schedule_error_text SchedulePartsNotIdentified =
     ''Approved migration schedule does not identify migration parts''"
| "schedule_error_text SchedulePartIndexesIncomplete =
     ''Approved migration schedule part indexes are incomplete''"
| "schedule_error_text SchedulePartIndexOutside =
     ''Approved migration schedule part index is outside the plan''"
| "schedule_error_text SchedulePartIndexDuplicated =
     ''Approved migration schedule part index is duplicated''"
| "schedule_error_text ScheduleCountChanged = ''Approved migration schedule count changed''"
| "schedule_error_text ScheduleValuesChanged = ''Approved migration schedule values changed''"
| "schedule_error_text ScheduleNotOrdered = ''Approved migration schedule is not ordered''"
| "schedule_error_text ScheduleDelayOutsidePolicy =
     ''Approved migration schedule delay is outside policy''"
| "schedule_error_text SchedulePartValueChanged = ''Approved migration schedule part value changed''"

datatype preparation_error =
    UnsupportedPreparationTimingPolicy string
  | PreparationSpacingOverflow
  | PreparationMissingLayer nat
  | PreparationHeightOverflow
  | PreparationLayerHeightOverflow
  | PreparationCatchUpHeightOverflow
  | PreparationCatchUpCountOverflow

primrec preparation_error_text :: "preparation_error \<Rightarrow> string" where
  "preparation_error_text (UnsupportedPreparationTimingPolicy v) =
     ''Unsupported migration preparation timing policy: '' @ v"
| "preparation_error_text PreparationSpacingOverflow = ''Migration preparation spacing estimate overflow''"
| "preparation_error_text (PreparationMissingLayer n) =
     ''Migration preparation schedule is missing layer '' @ show_nat n"
| "preparation_error_text PreparationHeightOverflow =
     ''Migration preparation scheduled height overflow''"
| "preparation_error_text PreparationLayerHeightOverflow = ''Migration preparation layer height overflow''"
| "preparation_error_text PreparationCatchUpHeightOverflow =
     ''Migration preparation catch-up height overflow''"
| "preparation_error_text PreparationCatchUpCountOverflow =
     ''Migration preparation catch-up count exceeds u32''"

datatype split_error =
    MinimumFundingNoteOverflow
  | RefinementMustPreserveValue
  | RefinementNoncanonical
  | RefinementTotalOverflow
  | RefinementCountOverflow
  | ApprovedDenominationNotCanonical nat
  | ApprovedPlanOrder
  | ApprovedPlanStale
  | StageFeeMustBePositive
  | MinimumOutputMustBeOne
  | SelectedValueOverflow
  | SelectedNoteExceedsSupply
  | StageFeeInvalid
  | PreparedNoteValueOverflow
  | PreparedNoteValueInvalid
  | PreparationBalanceInvalid
  | FundingTotalOverflow
  | PreparationTransactionCountOverflow
  | PreparationFeeTotalOverflow
  | CommittedValueOverflow
  | DenominationFundingCountsDiffer
  | PlanExceedsSelectedValue
  | MigratableDenominationTotalOverflow
  | DirectFundingIndexOutOfRange
  | UnexpectedFundingValue nat
  | WalletInputIndexOutOfRange
  | UnknownPriorTransaction
  | PreparationActionCountOverflow
  | TooManyActions nat
  | PreparationInputTotalOverflow
  | PreparationOutputTotalOverflow
  | PreparationTransactionValueOverflow
  | PreparationDoesNotConserveValue
  | PlanDidNotAssignEveryPart

primrec split_error_text :: "split_error \<Rightarrow> string" where
  "split_error_text MinimumFundingNoteOverflow = ''Minimum migration funding note overflow''"
| "split_error_text RefinementMustPreserveValue =
     ''Denomination refinement must preserve the selected value''"
| "split_error_text RefinementNoncanonical =
     ''Denomination refinement produced a noncanonical value''"
| "split_error_text RefinementTotalOverflow = ''Denomination refinement total overflow''"
| "split_error_text RefinementCountOverflow = ''Denomination refinement candidate count overflow''"
| "split_error_text (ApprovedDenominationNotCanonical v) =
     ''Approved migration denomination '' @ show_nat v @ '' is not canonical''"
| "split_error_text ApprovedPlanOrder =
     ''Approved migration denominations are not in canonical part order. Review the migration plan again.''"
| "split_error_text ApprovedPlanStale =
     ''Approved migration plan no longer matches the spendable Orchard balance. Review the migration plan again.''"
| "split_error_text StageFeeMustBePositive = ''Padded denomination stage fee must be positive''"
| "split_error_text MinimumOutputMustBeOne =
     ''Padded denomination stages require a 1-zatoshi minimum output to preserve the exact ZIP 317 fee''"
| "split_error_text SelectedValueOverflow = ''Selected Orchard value overflow''"
| "split_error_text SelectedNoteExceedsSupply =
     ''Selected Orchard note exceeds the maximum money supply''"
| "split_error_text StageFeeInvalid = ''Padded denomination fee is invalid''"
| "split_error_text PreparedNoteValueOverflow = ''Prepared migration note value overflow''"
| "split_error_text PreparedNoteValueInvalid = ''Prepared migration note value is invalid''"
| "split_error_text PreparationBalanceInvalid = ''Migration preparation balance is invalid''"
| "split_error_text FundingTotalOverflow = ''Migration funding total overflow''"
| "split_error_text PreparationTransactionCountOverflow = ''Preparation transaction count overflow''"
| "split_error_text PreparationFeeTotalOverflow = ''Preparation fee total overflow''"
| "split_error_text CommittedValueOverflow = ''Migration committed value overflow''"
| "split_error_text DenominationFundingCountsDiffer =
     ''Migration denomination and funding note counts differ''"
| "split_error_text PlanExceedsSelectedValue =
     ''Migration preparation plan exceeds selected Orchard value''"
| "split_error_text MigratableDenominationTotalOverflow = ''Migratable denomination total overflow''"
| "split_error_text DirectFundingIndexOutOfRange = ''Direct funding input index is out of range''"
| "split_error_text (UnexpectedFundingValue v) =
     ''Preparation plan produced unexpected funding value '' @ show_nat v"
| "split_error_text WalletInputIndexOutOfRange = ''Preparation wallet input index is out of range''"
| "split_error_text UnknownPriorTransaction =
     ''Preparation input references an unknown prior transaction''"
| "split_error_text PreparationActionCountOverflow = ''Preparation action count overflow''"
| "split_error_text (TooManyActions n) =
     ''Preparation transaction requests '' @ show_nat n @ '' actions instead of at most 16''"
| "split_error_text PreparationInputTotalOverflow = ''Preparation input total overflow''"
| "split_error_text PreparationOutputTotalOverflow = ''Preparation output total overflow''"
| "split_error_text PreparationTransactionValueOverflow = ''Preparation transaction value overflow''"
| "split_error_text PreparationDoesNotConserveValue =
     ''Preparation transaction does not conserve value''"
| "split_error_text PlanDidNotAssignEveryPart =
     ''Preparation plan did not assign every migration part''"

end
