(* ===== verification/Policy.thy ===== *)
theory Policy
  imports Errors
begin

text \<open>
  Networks and timing policies: \<open>WalletNetwork\<close> of \<open>rust/src/wallet/network.rs\<close>, and
  the constants, policy names, configured policy and schedule parameters of
  \<open>rust/src/wallet/sync/migration/policy.rs\<close>. The process-wide switch
  \<open>FAST_TESTNET_MIGRATION_ENABLED\<close> is the field of \<open>policy_state\<close>.
\<close>

section \<open>Networks\<close>

datatype wallet_network = Main | Test | Regtest

definition network_from_str :: "string \<Rightarrow> wallet_network option" where
  "network_from_str s =
     (if s = ''main'' then Some Main
      else if s = ''test'' then Some Test
      else if s = ''regtest'' then Some Regtest
      else None)"

text \<open>\<open>network_name\<close> of \<open>migration.rs\<close>, the inverse that is stored with a run.\<close>

fun network_name :: "wallet_network \<Rightarrow> string" where
  "network_name Main = ''main''"
| "network_name Test = ''test''"
| "network_name Regtest = ''regtest''"

section \<open>Constants of the migration policy\<close>

definition ZATOSHIS_PER_ZEC :: u64 where "ZATOSHIS_PER_ZEC = 100000000"
definition ZIP318_MAX_RESIDUAL_VALUE_ZATOSHI :: u64 where
  "ZIP318_MAX_RESIDUAL_VALUE_ZATOSHI = ZATOSHIS_PER_ZEC div 100"
definition ZIP318_MAX_MIGRATION_DENOMINATION_ZATOSHI :: u64 where
  "ZIP318_MAX_MIGRATION_DENOMINATION_ZATOSHI = 10000 * ZATOSHIS_PER_ZEC"
definition ZIP318_ANCHOR_BUCKET_MODULUS :: u32 where "ZIP318_ANCHOR_BUCKET_MODULUS = 144"
definition REGTEST_ANCHOR_BUCKET_MODULUS :: u32 where "REGTEST_ANCHOR_BUCKET_MODULUS = 1"
definition ZIP318_ANCHOR_AGE_CAP :: u32 where "ZIP318_ANCHOR_AGE_CAP = 4"
definition ZIP318_EXPIRY_MODULUS :: u32 where "ZIP318_EXPIRY_MODULUS = 34560"
definition ZIP318_TRANSFER_MEAN_DELAY_BLOCKS :: u32 where
  "ZIP318_TRANSFER_MEAN_DELAY_BLOCKS = 144"
definition ZIP318_TRANSFER_MAX_DELAY_BLOCKS :: u32 where
  "ZIP318_TRANSFER_MAX_DELAY_BLOCKS = 576"
definition NINETY_MINUTE_TRANSFER_MEAN_DELAY_BLOCKS :: u32 where
  "NINETY_MINUTE_TRANSFER_MEAN_DELAY_BLOCKS = 66"
definition REGTEST_TRANSFER_MEAN_DELAY_BLOCKS :: u32 where
  "REGTEST_TRANSFER_MEAN_DELAY_BLOCKS = 1"
definition REGTEST_TRANSFER_MAX_DELAY_BLOCKS :: u32 where
  "REGTEST_TRANSFER_MAX_DELAY_BLOCKS = 4"
definition FAST_TESTNET_TRANSFER_MEAN_DELAY_BLOCKS :: u32 where
  "FAST_TESTNET_TRANSFER_MEAN_DELAY_BLOCKS = 12"
definition FAST_TESTNET_TRANSFER_MAX_DELAY_BLOCKS :: u32 where
  "FAST_TESTNET_TRANSFER_MAX_DELAY_BLOCKS = 48"
definition FAST_TESTNET_ANCHOR_BUCKET_MODULUS :: u32 where
  "FAST_TESTNET_ANCHOR_BUCKET_MODULUS = 12"
definition DENSE_MIGRATION_PART_THRESHOLD :: usize where "DENSE_MIGRATION_PART_THRESHOLD = 10"

lemmas denomination_constants =
  ZATOSHIS_PER_ZEC_def ZIP318_MAX_RESIDUAL_VALUE_ZATOSHI_def
  ZIP318_MAX_MIGRATION_DENOMINATION_ZATOSHI_def

lemmas anchor_constants =
  ZIP318_ANCHOR_BUCKET_MODULUS_def REGTEST_ANCHOR_BUCKET_MODULUS_def ZIP318_ANCHOR_AGE_CAP_def
  FAST_TESTNET_ANCHOR_BUCKET_MODULUS_def

lemmas transfer_constants =
  ZIP318_TRANSFER_MEAN_DELAY_BLOCKS_def ZIP318_TRANSFER_MAX_DELAY_BLOCKS_def
  NINETY_MINUTE_TRANSFER_MEAN_DELAY_BLOCKS_def REGTEST_TRANSFER_MEAN_DELAY_BLOCKS_def
  REGTEST_TRANSFER_MAX_DELAY_BLOCKS_def FAST_TESTNET_TRANSFER_MEAN_DELAY_BLOCKS_def
  FAST_TESTNET_TRANSFER_MAX_DELAY_BLOCKS_def

section \<open>Timing policies\<close>

datatype timing_policy =
  Standard | Standard90Minutes | Standard90MinutesLatestAnchor | FastTestnet

fun timing_policy_as_str :: "timing_policy \<Rightarrow> string" where
  "timing_policy_as_str Standard = ''standard''"
| "timing_policy_as_str Standard90Minutes = ''standard_90m''"
| "timing_policy_as_str Standard90MinutesLatestAnchor = ''standard_90m_latest_anchor''"
| "timing_policy_as_str FastTestnet = ''fast_testnet''"

definition timing_policy_from_str :: "string \<Rightarrow> (policy_error, timing_policy) outcome" where
  "timing_policy_from_str s =
     (if s = ''standard'' then Ok Standard
      else if s = ''standard_90m'' then Ok Standard90Minutes
      else if s = ''standard_90m_latest_anchor'' then Ok Standard90MinutesLatestAnchor
      else if s = ''fast_testnet'' then Ok FastTestnet
      else Err (UnsupportedTimingPolicy s))"

record policy_state =
  fast_testnet_enabled :: bool

definition configure_fast_testnet_migration :: "bool \<Rightarrow> policy_state \<Rightarrow> policy_state" where
  "configure_fast_testnet_migration enabled s = s\<lparr>fast_testnet_enabled := enabled\<rparr>"

definition configured_timing_policy :: "policy_state \<Rightarrow> wallet_network \<Rightarrow> timing_policy" where
  "configured_timing_policy s network =
     (if network \<in> {Test, Regtest} \<and> fast_testnet_enabled s then FastTestnet
      else if network = Regtest then Standard
      else Standard90Minutes)"

section \<open>Schedule parameters\<close>

text \<open>Mean and maximum delay in blocks between two broadcasts.\<close>

fun schedule_parameters_with_policy :: "wallet_network \<Rightarrow> timing_policy \<Rightarrow> u32 \<times> u32" where
  "schedule_parameters_with_policy Regtest policy =
     (if policy = FastTestnet
      then (FAST_TESTNET_TRANSFER_MEAN_DELAY_BLOCKS, FAST_TESTNET_TRANSFER_MAX_DELAY_BLOCKS)
      else (REGTEST_TRANSFER_MEAN_DELAY_BLOCKS, REGTEST_TRANSFER_MAX_DELAY_BLOCKS))"
| "schedule_parameters_with_policy network policy =
     (if network = Test \<and> policy = FastTestnet
      then (FAST_TESTNET_TRANSFER_MEAN_DELAY_BLOCKS, FAST_TESTNET_TRANSFER_MAX_DELAY_BLOCKS)
      else if policy = Standard90Minutes \<or> policy = Standard90MinutesLatestAnchor
      then (NINETY_MINUTE_TRANSFER_MEAN_DELAY_BLOCKS, ZIP318_TRANSFER_MAX_DELAY_BLOCKS)
      else (ZIP318_TRANSFER_MEAN_DELAY_BLOCKS, ZIP318_TRANSFER_MAX_DELAY_BLOCKS))"

definition schedule_parameters_with_policy_for_part_count ::
    "wallet_network \<Rightarrow> timing_policy \<Rightarrow> usize \<Rightarrow> u32 \<times> u32" where
  "schedule_parameters_with_policy_for_part_count network policy part_count =
     (let (mean_delay, max_delay) = schedule_parameters_with_policy network policy;
          effective_mean = (if part_count > DENSE_MIGRATION_PART_THRESHOLD
                            then max (mean_delay div 2) 1 else mean_delay)
      in (effective_mean, max_delay))"

definition schedule_parameters :: "policy_state \<Rightarrow> wallet_network \<Rightarrow> u32 \<times> u32" where
  "schedule_parameters s network =
     schedule_parameters_with_policy network (configured_timing_policy s network)"

definition schedule_parameters_for_part_count ::
    "policy_state \<Rightarrow> wallet_network \<Rightarrow> usize \<Rightarrow> u32 \<times> u32" where
  "schedule_parameters_for_part_count s network part_count =
     schedule_parameters_with_policy_for_part_count network
       (configured_timing_policy s network) part_count"

section \<open>Lemmas\<close>

lemma network_roundtrip: "network_from_str (network_name n) = Some n"
  by (cases n) (simp_all add: network_from_str_def)

lemma network_from_str_Some: "network_from_str s = Some n \<Longrightarrow> network_name n = s"
  by (auto simp: network_from_str_def split: if_splits)

lemma timing_policy_from_str_Ok:
  "timing_policy_from_str s = Ok p \<Longrightarrow> timing_policy_as_str p = s"
  by (auto simp: timing_policy_from_str_def split: if_splits)

lemma timing_policy_from_as_str: "timing_policy_from_str (timing_policy_as_str p) = Ok p"
  by (cases p) (simp_all add: timing_policy_from_str_def)

interpretation timing_policy: text_codec timing_policy_as_str timing_policy_from_str
  by unfold_locales (simp_all add: timing_policy_from_as_str timing_policy_from_str_Ok)

lemma schedule_parameters_cases:
  "schedule_parameters_with_policy network policy \<in> {(12, 48), (1, 4), (66, 576), (144, 576)}"
  by (cases network) (auto simp: transfer_constants)

lemma snd_schedule_parameters_for_part_count [simp]:
  "snd (schedule_parameters_with_policy_for_part_count network policy n)
     = snd (schedule_parameters_with_policy network policy)"
  by (simp add: schedule_parameters_with_policy_for_part_count_def split_def Let_def)

lemma schedule_parameters_positive:
  "0 < fst (schedule_parameters_with_policy_for_part_count network policy n)"
  "0 < snd (schedule_parameters_with_policy network policy)"
  using schedule_parameters_cases [of network policy]
  by (auto simp: schedule_parameters_with_policy_for_part_count_def)

lemma schedule_mean_le_max:
  "fst (schedule_parameters_with_policy_for_part_count network policy n)
     \<le> snd (schedule_parameters_with_policy network policy)"
  using schedule_parameters_cases [of network policy]
  by (auto simp: schedule_parameters_with_policy_for_part_count_def)

text \<open>
  The fast testnet policy is never configured on the main network, whatever the switch says,
  and switching it off restores the standard policies.
\<close>

lemma configured_main: "configured_timing_policy s Main = Standard90Minutes"
  by (simp add: configured_timing_policy_def)

lemma configured_off:
  "configured_timing_policy (configure_fast_testnet_migration False s) network \<noteq> FastTestnet"
  by (simp add: configured_timing_policy_def configure_fast_testnet_migration_def)

end
