(* ===== verification/Anchors.thy ===== *)
theory Anchors
  imports Policy
begin

text \<open>
  Anchor boundaries: the second half of
  \<open>rust/src/wallet/sync/migration/denomination_policy.rs\<close>. Which bucket boundary a note's
  proof may be anchored at, when the first one becomes usable, and the weighted draw among the
  usable ones.

  Two values come from outside the repository and are arguments: \<open>trusted\<close>, the number of
  confirmations \<open>ConfirmationsPolicy::default().trusted()\<close> asks for (a \<open>NonZeroU32\<close>), and
  \<open>gen_range\<close>, the random draw \<open>OsRng.gen_range(0..n)\<close> as a function of \<open>n\<close>.
\<close>

section \<open>Buckets\<close>

fun anchor_bucket_modulus :: "wallet_network \<Rightarrow> timing_policy \<Rightarrow> u32" where
  "anchor_bucket_modulus Regtest policy =
     (if policy = FastTestnet then FAST_TESTNET_ANCHOR_BUCKET_MODULUS
      else REGTEST_ANCHOR_BUCKET_MODULUS)"
| "anchor_bucket_modulus Test policy =
     (if policy = FastTestnet then FAST_TESTNET_ANCHOR_BUCKET_MODULUS
      else ZIP318_ANCHOR_BUCKET_MODULUS)"
| "anchor_bucket_modulus Main policy = ZIP318_ANCHOR_BUCKET_MODULUS"

fun anchor_bucket_min_age :: "wallet_network \<Rightarrow> timing_policy \<Rightarrow> u32" where
  "anchor_bucket_min_age Regtest policy = (if policy = FastTestnet then 1 else 0)"
| "anchor_bucket_min_age Test policy =
     (if policy = FastTestnet then 1
      else if policy = Standard90MinutesLatestAnchor then 0 else 1)"
| "anchor_bucket_min_age Main policy = (if policy = Standard90MinutesLatestAnchor then 0 else 1)"

lemma modulus_positive [simp]: "0 < anchor_bucket_modulus network policy"
  by (cases network) (simp_all add: anchor_constants)

lemma modulus_le: "anchor_bucket_modulus network policy \<le> 144"
  by (cases network) (simp_all add: anchor_constants)

lemma min_age_le: "anchor_bucket_min_age network policy \<le> 1"
  by (cases network) simp_all

section \<open>Heights\<close>

definition anchor_boundary_containing_note_with_policy ::
    "wallet_network \<Rightarrow> timing_policy \<Rightarrow> u32 \<Rightarrow> (policy_error, u32) outcome" where
  "anchor_boundary_containing_note_with_policy network policy mined_height =
     (let modulus = anchor_bucket_modulus network policy;
          remainder = mined_height mod modulus
      in if remainder = 0 then Ok mined_height
         else ok_or (checked_add u32_max mined_height (modulus - remainder))
                AnchorBoundaryOverflow)"

definition proof_ready_height_for_note_mined_height ::
    "u32 \<Rightarrow> wallet_network \<Rightarrow> timing_policy \<Rightarrow> u32 \<Rightarrow> (policy_error, u32) outcome" where
  "proof_ready_height_for_note_mined_height trusted network policy mined_height =
     (let modulus = anchor_bucket_modulus network policy;
          confirmation_lag = saturating_sub trusted 1
      in obind (anchor_boundary_containing_note_with_policy network policy mined_height)
           (\<lambda>containing_boundary.
         obind (ok_or (checked_mul u32_max modulus (anchor_bucket_min_age network policy))
                  ProofReadinessHeightOverflow)
           (\<lambda>aging_blocks.
         ok_or (Option.bind (checked_add u32_max containing_boundary aging_blocks)
                  (\<lambda>height. checked_add u32_max height confirmation_lag))
           ProofReadinessHeightOverflow)))"

definition estimated_proof_ready_height ::
    "u32 \<Rightarrow> policy_state \<Rightarrow> wallet_network \<Rightarrow> u32 \<Rightarrow> (policy_error, u32) outcome" where
  "estimated_proof_ready_height trusted s network estimated_mined_height =
     proof_ready_height_for_note_mined_height trusted network
       (configured_timing_policy s network) estimated_mined_height"

definition next_anchor_retry_height_after ::
    "u32 \<Rightarrow> wallet_network \<Rightarrow> timing_policy \<Rightarrow> u32 \<Rightarrow> (policy_error, u32) outcome" where
  "next_anchor_retry_height_after trusted network policy fully_scanned_height =
     (let modulus = anchor_bucket_modulus network policy;
          confirmation_lag = saturating_sub trusted 1;
          boundary_reference =
            (if anchor_bucket_min_age network policy > 0
             then saturating_sub fully_scanned_height confirmation_lag
             else fully_scanned_height);
          distance = modulus - boundary_reference mod modulus
      in ok_or (Option.bind (checked_add u32_max boundary_reference distance)
                  (\<lambda>boundary. checked_add u32_max boundary confirmation_lag))
           ProofRetryHeightOverflow)"

section \<open>Candidate boundaries\<close>

definition zip318_anchor_boundary_at_or_before_with_policy ::
    "wallet_network \<Rightarrow> timing_policy \<Rightarrow> u32 \<Rightarrow> u32 option" where
  "zip318_anchor_boundary_at_or_before_with_policy network policy height =
     (let boundary = height - height mod anchor_bucket_modulus network policy
      in if boundary > 0 then Some boundary else None)"

definition zip318_anchor_boundary_age ::
    "wallet_network \<Rightarrow> timing_policy \<Rightarrow> u32 \<Rightarrow> u32 \<Rightarrow> u32 option" where
  "zip318_anchor_boundary_age network policy latest_boundary anchor_boundary =
     (if anchor_boundary > latest_boundary then None
      else Option.bind (checked_sub latest_boundary anchor_boundary) (\<lambda>delta.
        let modulus = anchor_bucket_modulus network policy in
        if delta mod modulus \<noteq> 0 then None
        else let age = delta div modulus in
          if anchor_bucket_min_age network policy \<le> age \<and> age \<le> ZIP318_ANCHOR_AGE_CAP
          then Some age else None))"

text \<open>The loop over the ages; each \<open>break\<close> ends the list.\<close>

fun candidate_loop :: "u32 \<Rightarrow> u32 \<Rightarrow> u32 \<Rightarrow> u32 list \<Rightarrow> u32 list" where
  "candidate_loop modulus latest_boundary lower_bound [] = []"
| "candidate_loop modulus latest_boundary lower_bound (age # ages) =
     (case checked_mul u32_max age modulus of
        None \<Rightarrow> []
      | Some distance \<Rightarrow>
          (case checked_sub latest_boundary distance of
             None \<Rightarrow> []
           | Some boundary \<Rightarrow>
               if boundary < lower_bound then []
               else boundary # candidate_loop modulus latest_boundary lower_bound ages))"

text \<open>The range \<open>anchor_bucket_min_age(..)..=ZIP318_ANCHOR_AGE_CAP\<close>.\<close>

definition candidate_ages :: "wallet_network \<Rightarrow> timing_policy \<Rightarrow> u32 list" where
  "candidate_ages network policy =
     [anchor_bucket_min_age network policy ..< Suc ZIP318_ANCHOR_AGE_CAP]"

definition zip318_anchor_candidate_boundaries_with_policy ::
    "wallet_network \<Rightarrow> timing_policy \<Rightarrow> u32 \<Rightarrow> u32 \<Rightarrow> u32 \<Rightarrow> u32 list" where
  "zip318_anchor_candidate_boundaries_with_policy network policy observed_anchor_height
       note_mined_height nu6_3_activation_height =
     (case zip318_anchor_boundary_at_or_before_with_policy network policy
             observed_anchor_height of
        None \<Rightarrow> []
      | Some latest_boundary \<Rightarrow>
          candidate_loop (anchor_bucket_modulus network policy) latest_boundary
            (max note_mined_height (saturating_add u32_max nu6_3_activation_height 1))
            (candidate_ages network policy))"

definition zip318_anchor_boundary_is_candidate_with_policy ::
    "wallet_network \<Rightarrow> timing_policy \<Rightarrow> u32 \<Rightarrow> u32 \<Rightarrow> u32 \<Rightarrow> u32 \<Rightarrow> bool" where
  "zip318_anchor_boundary_is_candidate_with_policy network policy anchor_boundary
       observed_anchor_height note_mined_height nu6_3_activation_height =
     (if anchor_boundary = 0 \<or> anchor_boundary mod anchor_bucket_modulus network policy \<noteq> 0
      then False
      else if anchor_boundary < note_mined_height \<or> anchor_boundary \<le> nu6_3_activation_height
      then False
      else case zip318_anchor_boundary_at_or_before_with_policy network policy
                  observed_anchor_height of
             None \<Rightarrow> False
           | Some latest_boundary \<Rightarrow>
               zip318_anchor_boundary_age network policy latest_boundary anchor_boundary \<noteq> None)"

section \<open>The weighted draw\<close>

text \<open>
  The loop that collects the weights: \<open>None\<close> is its early return, for a boundary without an
  age or an overflowing total.
\<close>

fun weigh_candidates ::
    "wallet_network \<Rightarrow> timing_policy \<Rightarrow> u32 \<Rightarrow> u32 \<Rightarrow> u32 list \<Rightarrow> ((u32 \<times> u32) list \<times> u32) option"
where
  "weigh_candidates network policy latest_boundary total_weight [] = Some ([], total_weight)"
| "weigh_candidates network policy latest_boundary total_weight (boundary # rest) =
     Option.bind (zip318_anchor_boundary_age network policy latest_boundary boundary) (\<lambda>age.
       let weight = 2 ^ (ZIP318_ANCHOR_AGE_CAP - age) in
       Option.bind (checked_add u32_max total_weight weight) (\<lambda>total'.
         map_option (\<lambda>(weighted, t). ((boundary, weight) # weighted, t))
           (weigh_candidates network policy latest_boundary total' rest)))"

fun pick_weighted :: "(u32 \<times> u32) list \<Rightarrow> u32 \<Rightarrow> u32 option" where
  "pick_weighted [] draw = None"
| "pick_weighted ((boundary, weight) # rest) draw =
     (if draw < weight then Some boundary else pick_weighted rest (draw - weight))"

definition zip318_draw_anchor_boundary_from_available_with_policy ::
    "(u32 \<Rightarrow> u32) \<Rightarrow> wallet_network \<Rightarrow> timing_policy \<Rightarrow> u32 \<Rightarrow> u32 list \<Rightarrow> u32 option" where
  "zip318_draw_anchor_boundary_from_available_with_policy gen_range network policy
       observed_anchor_height available_candidates =
     Option.bind (zip318_anchor_boundary_at_or_before_with_policy network policy
                    observed_anchor_height) (\<lambda>latest_boundary.
       if available_candidates = [] then None
       else Option.bind (weigh_candidates network policy latest_boundary 0 available_candidates)
         (\<lambda>(weighted, total_weight).
           if total_weight = 0 then None
           else pick_weighted weighted (gen_range total_weight)))"

section \<open>Lemmas\<close>

lemma strict_sorted_imp_distinct_gt: "sorted_wrt (>) xs \<Longrightarrow> distinct xs" for xs :: "nat list"
  by (induction xs) auto

lemma boundary_at_or_before_Some:
  "zip318_anchor_boundary_at_or_before_with_policy network policy h = Some b \<longleftrightarrow>
     b = h div anchor_bucket_modulus network policy * anchor_bucket_modulus network policy \<and> 0 < b"
  by (auto simp: zip318_anchor_boundary_at_or_before_with_policy_def Let_def
      minus_mod_eq_div_mult)

lemma anchor_age_Some:
  "zip318_anchor_boundary_age network policy latest b = Some a \<longleftrightarrow>
     latest = b + a * anchor_bucket_modulus network policy
       \<and> anchor_bucket_min_age network policy \<le> a \<and> a \<le> ZIP318_ANCHOR_AGE_CAP"
proof -
  let ?m = "anchor_bucket_modulus network policy"
  have m: "?m \<noteq> 0" using modulus_positive [of network policy] by simp
  show ?thesis
  proof (cases "b \<le> latest \<and> (latest - b) mod ?m = 0")
    case True
    then have "latest - b = (latest - b) div ?m * ?m" by (metis add.right_neutral div_mult_mod_eq)
    with True have "latest = b + a * ?m \<longleftrightarrow> a = (latest - b) div ?m"
      using m by (metis add_diff_cancel_left' le_add_diff_inverse nonzero_mult_div_cancel_right)
    with True show ?thesis
      by (auto simp: zip318_anchor_boundary_age_def checked_sub_def Let_def)
  next
    case False
    then show ?thesis by (auto simp: zip318_anchor_boundary_age_def checked_sub_def)
  qed
qed

lemma set_candidate_ages:
  "set (candidate_ages network policy)
     = {anchor_bucket_min_age network policy .. ZIP318_ANCHOR_AGE_CAP}"
  by (auto simp: candidate_ages_def)

lemma sorted_candidate_ages: "sorted_wrt (<) (candidate_ages network policy)"
  unfolding candidate_ages_def by (rule sorted_wrt_upt)

lemma candidate_distance:
  "age \<in> set (candidate_ages network policy) \<Longrightarrow>
     age * anchor_bucket_modulus network policy \<le> u32_max"
proof -
  assume "age \<in> set (candidate_ages network policy)"
  then have "age \<le> 4" by (auto simp: candidate_ages_def ZIP318_ANCHOR_AGE_CAP_def)
  then have "age * anchor_bucket_modulus network policy \<le> 4 * 144"
    using modulus_le by (intro mult_le_mono)
  then show ?thesis by (simp add: u32_max_def)
qed

lemma set_candidate_loop:
  assumes "sorted_wrt (<) ages" and "\<forall>age \<in> set ages. age * m \<le> u32_max"
  shows "set (candidate_loop m latest lower ages)
    = {latest - age * m | age. age \<in> set ages \<and> age * m \<le> latest \<and> lower \<le> latest - age * m}"
  using assms
proof (induction ages)
  case (Cons a ages)
  then have later: "a * m \<le> age * m" if "age \<in> set (a # ages)" for age
    using that by (auto simp: less_imp_le)
  have IH: "set (candidate_loop m latest lower ages) = {latest - age * m | age.
      age \<in> set ages \<and> age * m \<le> latest \<and> lower \<le> latest - age * m}"
    using Cons by simp
  show ?case
  proof (cases "a * m \<le> latest \<and> lower \<le> latest - a * m")
    case True
    with Cons.prems IH show ?thesis by (auto simp: checked_mul_def checked_sub_def)
  next
    case False
    have "\<not> (age * m \<le> latest \<and> lower \<le> latest - age * m)" if "age \<in> set (a # ages)" for age
      using False later [OF that] by linarith
    then have "{latest - age * m | age. age \<in> set (a # ages) \<and> age * m \<le> latest
        \<and> lower \<le> latest - age * m} = {}" by blast
    with Cons.prems False show ?thesis by (auto simp: checked_mul_def checked_sub_def)
  qed
qed simp

lemma candidate_loop_ages:
  "b \<in> set (candidate_loop m latest lower ages) \<Longrightarrow> \<exists>age \<in> set ages. b + age * m = latest"
  by (induction ages) (auto simp: outcome_simps split: option.splits if_splits)

lemma length_candidate_loop: "length (candidate_loop m latest lower ages) \<le> length ages"
  by (induction ages) (auto split: option.splits)

lemma sorted_candidate_loop:
  assumes "0 < m" and "sorted_wrt (<) ages"
  shows "sorted_wrt (>) (candidate_loop m latest lower ages)"
  using assms(2)
proof (induction ages)
  case (Cons a ages)
  let ?rest = "candidate_loop m latest lower ages"
  have rest: "b < latest - a * m" if b: "b \<in> set ?rest" for b
  proof -
    from candidate_loop_ages [OF b] obtain age where "age \<in> set ages" "b + age * m = latest"
      by blast
    moreover from this(1) Cons.prems \<open>0 < m\<close> have "a * m < age * m" by simp
    ultimately show ?thesis by linarith
  qed
  show ?case
    using Cons rest by (auto simp: outcome_simps split: option.splits)
qed simp

lemma candidates_age:
  assumes "b \<in> set (zip318_anchor_candidate_boundaries_with_policy network policy obs note nu)"
  obtains latest age where
    "zip318_anchor_boundary_at_or_before_with_policy network policy obs = Some latest"
    "zip318_anchor_boundary_age network policy latest b = Some age"
proof (cases "zip318_anchor_boundary_at_or_before_with_policy network policy obs")
  case None
  with assms show thesis by (simp add: zip318_anchor_candidate_boundaries_with_policy_def)
next
  case (Some latest)
  with assms have "b \<in> set (candidate_loop (anchor_bucket_modulus network policy) latest
       (max note (saturating_add u32_max nu 1)) (candidate_ages network policy))"
    by (simp add: zip318_anchor_candidate_boundaries_with_policy_def)
  then obtain age where "age \<in> set (candidate_ages network policy)"
    "b + age * anchor_bucket_modulus network policy = latest"
    using candidate_loop_ages by blast
  then have "zip318_anchor_boundary_age network policy latest b = Some age"
    by (auto simp: anchor_age_Some set_candidate_ages)
  then show thesis by (rule that [OF Some])
qed

lemma distinct_candidates:
  "distinct (zip318_anchor_candidate_boundaries_with_policy network policy obs note nu)"
  using sorted_candidate_loop [OF modulus_positive sorted_candidate_ages]
  by (auto simp: zip318_anchor_candidate_boundaries_with_policy_def split: option.splits
      intro: strict_sorted_imp_distinct_gt)

subsection \<open>The draw\<close>

definition total_of :: "(u32 \<times> u32) list \<Rightarrow> u32" where
  "total_of weighted = sum_list (map snd weighted)"

lemma weigh_candidates_Some:
  assumes "\<forall>b \<in> set bs. zip318_anchor_boundary_age network policy latest b = Some (age b)"
    and "acc + sum_list (map (\<lambda>b. 2 ^ (ZIP318_ANCHOR_AGE_CAP - age b)) bs) \<le> u32_max"
  shows "weigh_candidates network policy latest acc bs
    = Some (map (\<lambda>b. (b, 2 ^ (ZIP318_ANCHOR_AGE_CAP - age b))) bs,
            acc + sum_list (map (\<lambda>b. 2 ^ (ZIP318_ANCHOR_AGE_CAP - age b)) bs))"
  using assms by (induction bs arbitrary: acc) (auto simp: Let_def checked_add_def add.assoc)

lemma pick_weighted_total:
  "draw < total_of weighted \<Longrightarrow> \<exists>b w. pick_weighted weighted draw = Some b \<and> (b, w) \<in> set weighted"
proof (induction weighted arbitrary: draw)
  case (Cons bw weighted)
  obtain b w where bw: "bw = (b, w)" by fastforce
  show ?case
  proof (cases "draw < w")
    case True
    then show ?thesis by (auto simp: bw)
  next
    case False
    with Cons.prems have "draw - w < total_of weighted" by (simp add: total_of_def bw)
    with Cons.IH False show ?thesis by (auto simp: bw)
  qed
qed (simp add: total_of_def)

lemma pick_weighted_member: "pick_weighted weighted draw = Some b \<Longrightarrow> b \<in> fst ` set weighted"
  by (induction weighted draw rule: pick_weighted.induct) (force split: if_splits)+

text \<open>Every boundary is hit by exactly as many draws as its weight says.\<close>

lemma pick_weighted_count:
  assumes "distinct (map fst weighted)" and "(b, w) \<in> set weighted"
  shows "card {d. d < total_of weighted \<and> pick_weighted weighted d = Some b} = w"
  using assms
proof (induction weighted)
  case (Cons cv weighted)
  obtain c v where cv: "cv = (c, v)" by fastforce
  have total: "total_of (cv # weighted) = v + total_of weighted" by (simp add: total_of_def cv)
  show ?case
  proof (cases "b = c")
    case True
    with Cons.prems cv have "w = v" "b \<notin> fst ` set weighted" by (force simp: image_iff)+
    then have "{d. d < total_of (cv # weighted) \<and> pick_weighted (cv # weighted) d = Some b} = {..<v}"
      using True pick_weighted_member [of weighted] by (auto simp: cv total [unfolded cv])
    with \<open>w = v\<close> show ?thesis by simp
  next
    case False
    with Cons.prems cv have "(b, w) \<in> set weighted" "distinct (map fst weighted)" by auto
    then have IH: "card {d. d < total_of weighted \<and> pick_weighted weighted d = Some b} = w"
      by (rule Cons.IH [rotated])
    have "{d. d < total_of (cv # weighted) \<and> pick_weighted (cv # weighted) d = Some b}
        = (\<lambda>d. d + v) ` {d. d < total_of weighted \<and> pick_weighted weighted d = Some b}"
      (is "?L = ?R")
    proof
      show "?L \<subseteq> ?R"
      proof
        fix d assume "d \<in> ?L"
        with False have "v \<le> d" "d - v < total_of weighted"
          "pick_weighted weighted (d - v) = Some b"
          by (auto simp: cv total [unfolded cv] split: if_splits)
        then show "d \<in> ?R" by (intro image_eqI [of _ _ "d - v"]) auto
      qed
      show "?R \<subseteq> ?L" using False by (auto simp: cv total [unfolded cv])
    qed
    then show ?thesis by (simp add: IH card_image)
  qed
qed simp

text \<open>The definitions a closed instance needs for its evaluation.\<close>

lemmas anchor_eval =
  zip318_anchor_candidate_boundaries_with_policy_def candidate_ages_def anchor_constants
  zip318_anchor_boundary_at_or_before_with_policy_def
  proof_ready_height_for_note_mined_height_def anchor_boundary_containing_note_with_policy_def
  next_anchor_retry_height_after_def arith_defs ok_or_def u32_max_def Let_def upt_rec

section \<open>Properties\<close>

text \<open>
  the candidate list and the candidate test agree: a boundary is listed exactly when the
  test accepts it. (At the largest \<open>u32\<close> height they differ when the activation height is
  the regtest default \<open>u32::MAX\<close>, because the lower bound saturates; the hypothesis excludes
  that height.)
\<close>

theorem anchor_candidates_iff_is_candidate:
  assumes "obs < u32_max"
  shows "b \<in> set (zip318_anchor_candidate_boundaries_with_policy network policy obs note nu)
    \<longleftrightarrow> zip318_anchor_boundary_is_candidate_with_policy network policy b obs note nu"
proof (cases "zip318_anchor_boundary_at_or_before_with_policy network policy obs")
  case None
  then show ?thesis
    by (simp add: zip318_anchor_candidate_boundaries_with_policy_def
        zip318_anchor_boundary_is_candidate_with_policy_def)
next
  case (Some latest)
  let ?m = "anchor_bucket_modulus network policy"
  from Some have latest: "latest = obs div ?m * ?m" by (simp add: boundary_at_or_before_Some)
  then have "latest \<le> obs" using div_mult_mod_eq [of obs ?m] by linarith
  with assms have lt: "latest < u32_max" by linarith
  have "b \<in> set (zip318_anchor_candidate_boundaries_with_policy network policy obs note nu) \<longleftrightarrow>
      (\<exists>age \<in> set (candidate_ages network policy). age * ?m \<le> latest \<and> b = latest - age * ?m
         \<and> max note (saturating_add u32_max nu 1) \<le> b)"
    using set_candidate_loop [OF sorted_candidate_ages, of network policy ?m]
      candidate_distance [of _ network policy]
    by (auto simp: Some zip318_anchor_candidate_boundaries_with_policy_def)
  also have "\<dots> \<longleftrightarrow> (\<exists>age. zip318_anchor_boundary_age network policy latest b = Some age)
      \<and> note \<le> b \<and> nu < b"
  proof -
    have "(max note (saturating_add u32_max nu 1) \<le> b) = (note \<le> b \<and> nu < b)" if "b \<le> latest"
      using lt that by (auto simp: saturating_add_def)
    moreover have "(\<exists>age \<in> set (candidate_ages network policy). age * ?m \<le> latest
        \<and> b = latest - age * ?m) = (\<exists>age. zip318_anchor_boundary_age network policy latest b = Some age)"
    proof -
      have "(age * ?m \<le> latest \<and> b = latest - age * ?m) = (latest = b + age * ?m)" for age
        by linarith
      then show ?thesis by (auto simp only: anchor_age_Some set_candidate_ages atLeastAtMost_iff)
    qed
    moreover have "b \<le> latest" if "zip318_anchor_boundary_age network policy latest b = Some age" for age
      using that by (simp add: anchor_age_Some)
    ultimately show ?thesis by auto
  qed
  also have "\<dots> \<longleftrightarrow> zip318_anchor_boundary_is_candidate_with_policy network policy b obs note nu"
    (is "?L \<longleftrightarrow> ?R")
  proof
    assume L: ?L
    then obtain age where "latest = b + age * ?m" by (auto simp: anchor_age_Some)
    with latest have "b mod ?m = 0" by (metis add.commute mod_mult_self1 mod_mult_self2_is_0)
    with L Some show ?R
      by (auto simp: zip318_anchor_boundary_is_candidate_with_policy_def)
  next
    assume ?R
    then show ?L
      by (auto simp: Some zip318_anchor_boundary_is_candidate_with_policy_def split: if_splits)
  qed
  finally show ?thesis .
qed

theorem anchor_candidates_iff_is_candidate_witness:
  "zip318_anchor_boundary_is_candidate_with_policy Main Standard90Minutes 2880 3100 2800 2000
     = (2880 \<in> set (zip318_anchor_candidate_boundaries_with_policy Main Standard90Minutes
                       3100 2800 2000))"
proof -
  have "(3100 :: nat) < u32_max" by (simp add: u32_max_def)
  from anchor_candidates_iff_is_candidate [OF this] show ?thesis by simp
qed

text \<open>
  over the candidates of a note the weighted draw always returns one of them, and for
  every candidate the number of draws below the total weight that select it is two to the power
  of its distance from the age cap: each bucket of age is half as likely as the next newer one.
\<close>

theorem anchor_draw_weights:
  assumes "candidates = zip318_anchor_candidate_boundaries_with_policy network policy obs note nu"
    and "candidates \<noteq> []" and "\<And>n. 0 < n \<Longrightarrow> gen_range n < n"
  shows "\<exists>latest weight_total.
      zip318_anchor_boundary_at_or_before_with_policy network policy obs = Some latest
    \<and> (\<exists>b \<in> set candidates. zip318_draw_anchor_boundary_from_available_with_policy gen_range
         network policy obs candidates = Some b)
    \<and> (\<forall>b \<in> set candidates. \<exists>age. zip318_anchor_boundary_age network policy latest b = Some age
         \<and> card {d. d < weight_total \<and>
              zip318_draw_anchor_boundary_from_available_with_policy (\<lambda>_. d) network policy obs
                candidates = Some b} = 2 ^ (ZIP318_ANCHOR_AGE_CAP - age))"
proof -
  obtain latest where L:
    "zip318_anchor_boundary_at_or_before_with_policy network policy obs = Some latest"
    using assms(1,2) by (cases "zip318_anchor_boundary_at_or_before_with_policy network policy obs")
      (auto simp: zip318_anchor_candidate_boundaries_with_policy_def)
  let ?age = "\<lambda>b. the (zip318_anchor_boundary_age network policy latest b)"
  let ?w = "map (\<lambda>b. (b, 2 ^ (ZIP318_ANCHOR_AGE_CAP - ?age b) :: nat)) candidates"
  have ages: "\<forall>b \<in> set candidates.
      zip318_anchor_boundary_age network policy latest b = Some (?age b)"
    using assms(1) L by (metis candidates_age option.inject option.sel)
  have total: "total_of ?w
      = sum_list (map (\<lambda>b. 2 ^ (ZIP318_ANCHOR_AGE_CAP - ?age b)) candidates)"
    by (simp add: total_of_def comp_def)
  have small: "length candidates \<le> 5"
  proof -
    have "length (candidate_loop m l lo (candidate_ages network policy)) \<le> 5" for m l lo
      by (rule le_trans [OF length_candidate_loop])
        (simp add: candidate_ages_def ZIP318_ANCHOR_AGE_CAP_def)
    then show ?thesis
      by (simp add: assms(1) zip318_anchor_candidate_boundaries_with_policy_def
          split: option.split)
  qed
  have "total_of ?w \<le> length candidates * 16"
    unfolding total
  proof (rule order_trans [OF sum_list_mono])
    show "(2::nat) ^ (ZIP318_ANCHOR_AGE_CAP - ?age b) \<le> (\<lambda>_. 16) b" for b
      using power_increasing [of "4 - ?age b" 4 "2::nat"] by (simp add: ZIP318_ANCHOR_AGE_CAP_def)
  qed (simp add: sum_list_triv)
  with small have bound: "total_of ?w \<le> u32_max" by (simp add: u32_max_def)
  have pos: "0 < total_of ?w"
    using assms(2) by (cases candidates) (auto simp: total_of_def)
  have draw: "zip318_draw_anchor_boundary_from_available_with_policy g network policy obs candidates
      = pick_weighted ?w (g (total_of ?w))" for g
    using L assms(2) bound pos ages
    by (simp add: zip318_draw_anchor_boundary_from_available_with_policy_def total
        weigh_candidates_Some)
  have "distinct (map fst ?w)" using assms(1) distinct_candidates by (simp add: comp_def)
  then have "\<forall>b \<in> set candidates. card {d. d < total_of ?w \<and> pick_weighted ?w d = Some b}
      = 2 ^ (ZIP318_ANCHOR_AGE_CAP - ?age b)"
    by (intro ballI pick_weighted_count) auto
  moreover obtain b w where "pick_weighted ?w (gen_range (total_of ?w)) = Some b" "(b, w) \<in> set ?w"
    using pick_weighted_total [OF assms(3) [OF pos]] by blast
  ultimately show ?thesis
    using L ages by (intro exI [of _ latest] exI [of _ "total_of ?w"]) (auto simp: draw)
qed

theorem anchor_draw_weights_witness:
  "\<exists>b \<in> {2880, 3024 :: nat}. zip318_draw_anchor_boundary_from_available_with_policy (\<lambda>n. n - 1)
     Main Standard90Minutes 3200
     (zip318_anchor_candidate_boundaries_with_policy Main Standard90Minutes 3200 2800 2000)
     = Some b"
proof -
  have c: "zip318_anchor_candidate_boundaries_with_policy Main Standard90Minutes 3200 2800 2000
      = [3024, 2880]" by (simp add: anchor_eval)
  show ?thesis
    using anchor_draw_weights [OF refl, of Main Standard90Minutes 3200 2800 2000 "\<lambda>n. n - 1"]
    by (auto simp: c)
qed

text \<open>
  C35: at the computed proof-ready height the note has a candidate. When the height is \<open>h\<close>,
  an anchor observed at the trusted depth below \<open>h\<close> makes the first boundary at or after the
  note's mined height an accepted candidate, provided that boundary is above the activation
  height.
\<close>

theorem proof_ready_height_has_candidate:
  assumes "proof_ready_height_for_note_mined_height trusted network policy mined = Ok h"
    and "anchor_boundary_containing_note_with_policy network policy mined = Ok boundary"
    and "nu < boundary"
  shows "mined \<le> boundary \<and> boundary < mined + anchor_bucket_modulus network policy
    \<and> saturating_sub trusted 1 \<le> h
    \<and> zip318_anchor_boundary_is_candidate_with_policy network policy boundary
         (h - saturating_sub trusted 1) mined nu"
proof -
  let ?m = "anchor_bucket_modulus network policy"
  let ?age = "anchor_bucket_min_age network policy"
  have m: "0 < ?m" by simp
  have "mined mod ?m < ?m" by simp
  then have b: "boundary = (if mined mod ?m = 0 then mined else mined + (?m - mined mod ?m))"
    using assms(2) by (auto simp: anchor_boundary_containing_note_with_policy_def Let_def
        outcome_simps split: if_splits)
  have "boundary mod ?m = 0"
  proof (cases "mined mod ?m = 0")
    case False
    have "mined = mined div ?m * ?m + mined mod ?m" by (rule div_mult_mod_eq [symmetric])
    then have "boundary = (mined div ?m + 1) * ?m"
      using b False \<open>mined mod ?m < ?m\<close> by simp
    then show ?thesis by simp
  qed (simp add: b)
  then obtain k where k: "boundary = k * ?m" by (metis dvd_div_mult_self mod_0_imp_dvd)
  have range: "mined \<le> boundary" "boundary < mined + ?m"
  proof -
    define e where "e = (if mined mod ?m = 0 then 0 else ?m - mined mod ?m)"
    have "boundary = mined + e" "e < ?m" using b m by (auto simp: e_def)
    then show "mined \<le> boundary" "boundary < mined + ?m" by simp_all
  qed
  have h: "h = boundary + ?m * ?age + saturating_sub trusted 1"
    using assms(1,2) by (auto simp: proof_ready_height_for_note_mined_height_def Let_def
        outcome_simps bind_eq_Some_conv)
  have "boundary + ?m * ?age = (k + ?age) * ?m" by (simp add: k algebra_simps)
  then have "(h - saturating_sub trusted 1) div ?m * ?m = boundary + ?m * ?age" using h by simp
  then have "zip318_anchor_boundary_at_or_before_with_policy network policy
      (h - saturating_sub trusted 1) = Some (boundary + ?m * ?age)"
    using assms(3) by (auto simp: boundary_at_or_before_Some)
  moreover have "zip318_anchor_boundary_age network policy (boundary + ?m * ?age) boundary
      = Some ?age"
    using min_age_le [of network policy]
    by (auto simp: anchor_age_Some ZIP318_ANCHOR_AGE_CAP_def)
  ultimately show ?thesis
    using range h assms(3) \<open>boundary mod ?m = 0\<close>
    by (auto simp: zip318_anchor_boundary_is_candidate_with_policy_def)
qed

theorem proof_ready_height_has_candidate_witness:
  "proof_ready_height_for_note_mined_height 3 Main Standard90Minutes 2800 = Ok 3026
    \<and> zip318_anchor_boundary_is_candidate_with_policy Main Standard90Minutes 2880
         (3026 - saturating_sub 3 1) 2800 2000"
proof -
  have h: "proof_ready_height_for_note_mined_height 3 Main Standard90Minutes 2800 = Ok 3026"
    "anchor_boundary_containing_note_with_policy Main Standard90Minutes 2800 = Ok 2880"
    by (simp_all add: anchor_eval)
  show ?thesis using proof_ready_height_has_candidate [OF h, of 2000] h by simp
qed

text \<open>
  a retry height is a bucket boundary plus the confirmation lag, lies strictly above the
  scanned height (so a retry never fires at once), and no boundary is skipped: it is at most one
  bucket and the lag above the scanned height.
\<close>

theorem next_anchor_retry_progress:
  assumes "next_anchor_retry_height_after trusted network policy scanned = Ok h"
    and "saturating_sub trusted 1 \<le> scanned"
  shows "scanned < h \<and> h \<le> u32_max
    \<and> h \<le> scanned + anchor_bucket_modulus network policy + saturating_sub trusted 1
    \<and> (h - saturating_sub trusted 1) mod anchor_bucket_modulus network policy = 0"
proof -
  let ?m = "anchor_bucket_modulus network policy"
  let ?lag = "saturating_sub trusted 1"
  define ref where
    "ref = (if anchor_bucket_min_age network policy > 0 then saturating_sub scanned ?lag else scanned)"
  define d where "d = ?m - ref mod ?m"
  have h: "h = ref + d + ?lag" "h \<le> u32_max"
    using assms(1) by (auto simp: next_anchor_retry_height_after_def ref_def d_def Let_def
        outcome_simps bind_eq_Some_conv)
  have d: "0 < d" "d \<le> ?m" by (simp_all add: d_def)
  have ref: "ref \<le> scanned" "scanned \<le> ref + ?lag"
    using assms(2) by (auto simp: ref_def saturating_sub_def)
  have "ref mod ?m < ?m" by simp
  then have "ref mod ?m + d = ?m" by (simp add: d_def)
  then have "ref + d = (ref div ?m + 1) * ?m" using div_mult_mod_eq [of ref ?m] by simp
  then have "(ref + d) mod ?m = 0" by simp
  moreover have "h - ?lag = ref + d" using h by simp
  ultimately show ?thesis using h d ref by auto
qed

theorem next_anchor_retry_progress_witness:
  "next_anchor_retry_height_after 3 Main Standard90Minutes 3025 = Ok 3026 \<and> (3025 :: nat) < 3026"
proof -
  have h: "next_anchor_retry_height_after 3 Main Standard90Minutes 3025 = Ok 3026" by (simp add: anchor_eval)
  show ?thesis
    using next_anchor_retry_progress [OF h] h by (simp add: saturating_sub_def)
qed

end
