(* ===== verification/Denominations.thy ===== *)
theory Denominations
  imports Policy
begin

text \<open>
  ZIP 318 denominations: the first half of
  \<open>rust/src/wallet/sync/migration/denomination_policy.rs\<close>. The greedy denomination plan, the
  search for the largest canonical denomination, and the canonical expiry height.
\<close>

section \<open>The largest canonical denomination\<close>

text \<open>
  The body of the \<open>for multiplier in [1, 2, 5]\<close> loop: a product that overflows \<open>u64\<close>
  is skipped.
\<close>

definition try_multiplier :: "u64 \<Rightarrow> u64 \<Rightarrow> u64 \<Rightarrow> u64 option \<Rightarrow> u64 option" where
  "try_multiplier value_zatoshi magnitude multiplier best =
     (case checked_mul u64_max magnitude multiplier of
        None \<Rightarrow> best
      | Some denomination \<Rightarrow>
          if denomination \<le> value_zatoshi
             \<and> denomination \<le> ZIP318_MAX_MIGRATION_DENOMINATION_ZATOSHI
          then Some denomination else best)"

text \<open>
  The outer loop. The code starts it at a positive magnitude and multiplies it by ten; the
  test for 0 only makes the function total.
\<close>

function zip318_scan :: "u64 \<Rightarrow> u64 \<Rightarrow> u64 option \<Rightarrow> u64 option" where
  "zip318_scan value_zatoshi magnitude best =
     (let best' = fold (try_multiplier value_zatoshi magnitude) [1, 2, 5] best
      in if magnitude \<ge> ZIP318_MAX_MIGRATION_DENOMINATION_ZATOSHI \<or> magnitude = 0 then best'
         else case checked_mul u64_max magnitude 10 of
                None \<Rightarrow> None
              | Some magnitude' \<Rightarrow> zip318_scan value_zatoshi magnitude' best')"
  by pat_completeness auto
termination
  by (relation "measure (\<lambda>(v, m, b). ZIP318_MAX_MIGRATION_DENOMINATION_ZATOSHI - m)")
    (auto simp: checked_mul_def split: if_splits)

declare zip318_scan.simps [simp del]

definition largest_zip318_denomination_at_or_below :: "u64 \<Rightarrow> u64 option" where
  "largest_zip318_denomination_at_or_below value_zatoshi =
     (if value_zatoshi < ZIP318_MAX_RESIDUAL_VALUE_ZATOSHI then None
      else zip318_scan value_zatoshi ZIP318_MAX_RESIDUAL_VALUE_ZATOSHI None)"

definition is_zip318_canonical_denomination :: "u64 \<Rightarrow> bool" where
  "is_zip318_canonical_denomination value_zatoshi \<longleftrightarrow>
     largest_zip318_denomination_at_or_below value_zatoshi = Some value_zatoshi"

subsection \<open>The canonical denominations\<close>

text \<open>
  1, 2 and 5 times a power of ten, from 0.01 to 10,000 ZEC. The scan returns the last of them
  that does not exceed the value.
\<close>

definition canonical_denominations :: "u64 list" where
  "canonical_denominations =
     concat (map (\<lambda>k. [10 ^ k * 1000000, 2 * 10 ^ k * 1000000, 5 * 10 ^ k * 1000000]) [0..<6])
       @ [10 ^ 6 * 1000000]"

definition pick :: "u64 \<Rightarrow> u64 \<Rightarrow> u64 option \<Rightarrow> u64 option" where
  "pick v d best = (if d \<le> v then Some d else best)"

lemma zip318_scan_step:
  assumes "0 < m" "m < 1000000000000" "5 * m \<le> 1000000000000"
  shows "zip318_scan v m best = zip318_scan v (10 * m) (fold (pick v) [m, 2 * m, 5 * m] best)"
  using assms
  by (subst zip318_scan.simps)
    (simp add: try_multiplier_def pick_def checked_mul_def denomination_constants u64_max_def
      Let_def mult.commute)

lemma zip318_scan_last:
  "zip318_scan v 1000000000000 best = pick v 1000000000000 best"
  by (subst zip318_scan.simps)
    (simp add: try_multiplier_def pick_def checked_mul_def denomination_constants u64_max_def)

lemma zip318_scan_canonical:
  "zip318_scan v 1000000 None = fold (pick v) canonical_denominations None"
  by (simp add: zip318_scan_step zip318_scan_last canonical_denominations_def upt_rec)

lemma fold_pick:
  "fold (pick v) ds best
     = (case filter (\<lambda>d. d \<le> v) ds of [] \<Rightarrow> best | d # ds' \<Rightarrow> Some (last (d # ds')))"
proof (induction ds arbitrary: best)
  case (Cons d ds)
  then show ?case by (auto simp: pick_def split: list.splits)
qed simp

lemma sorted_canonical: "sorted_wrt (<) canonical_denominations"
  by (simp add: canonical_denominations_def upt_rec)

lemma largest_denomination_filter:
  "largest_zip318_denomination_at_or_below v
     = (case filter (\<lambda>d. d \<le> v) canonical_denominations of
          [] \<Rightarrow> None | d # ds \<Rightarrow> Some (last (d # ds)))"
proof (cases "v < 1000000")
  case True
  then have "filter (\<lambda>d. d \<le> v) canonical_denominations = []"
    by (auto simp: canonical_denominations_def upt_rec filter_empty_conv)
  with True show ?thesis
    by (simp add: largest_zip318_denomination_at_or_below_def denomination_constants)
next
  case False
  then show ?thesis
    by (simp add: largest_zip318_denomination_at_or_below_def denomination_constants
        zip318_scan_canonical fold_pick)
qed

lemma last_filter_greatest:
  assumes "sorted_wrt (<) (xs :: nat list)" and "filter P xs \<noteq> []"
  shows "last (filter P xs) \<in> set xs \<and> P (last (filter P xs))
           \<and> (\<forall>x \<in> set xs. P x \<longrightarrow> x \<le> last (filter P xs))"
  using assms
proof (induction xs)
  case (Cons x xs)
  show ?case
  proof (cases "filter P xs = []")
    case True
    with Cons.prems show ?thesis by (auto simp: filter_empty_conv split: if_splits)
  next
    case False
    with Cons have IH: "last (filter P xs) \<in> set xs \<and> P (last (filter P xs))
        \<and> (\<forall>x \<in> set xs. P x \<longrightarrow> x \<le> last (filter P xs))" by simp
    with Cons.prems(1) have "x < last (filter P xs)" by auto
    with IH False show ?thesis by auto
  qed
qed simp

lemma largest_denomination_Some_iff:
  "largest_zip318_denomination_at_or_below v = Some d \<longleftrightarrow>
     d \<in> set canonical_denominations \<and> d \<le> v
       \<and> (\<forall>c \<in> set canonical_denominations. c \<le> v \<longrightarrow> c \<le> d)"
proof (cases "filter (\<lambda>d. d \<le> v) canonical_denominations")
  case Nil
  then have "\<forall>c \<in> set canonical_denominations. \<not> c \<le> v" by (simp add: filter_empty_conv)
  with Nil show ?thesis by (auto simp: largest_denomination_filter)
next
  case (Cons e es)
  then have eq: "largest_zip318_denomination_at_or_below v
      = Some (last (filter (\<lambda>d. d \<le> v) canonical_denominations))"
    by (simp add: largest_denomination_filter)
  from Cons have "filter (\<lambda>d. d \<le> v) canonical_denominations \<noteq> []" by simp
  note last = last_filter_greatest [OF sorted_canonical this]
  show ?thesis
    using last by (auto simp: eq intro: antisym)
qed

lemma largest_denomination_None_iff:
  "largest_zip318_denomination_at_or_below v = None \<longleftrightarrow> v < 1000000"
  by (auto simp: largest_denomination_filter canonical_denominations_def upt_rec split: list.splits if_splits)

lemma canonical_bounds:
  "d \<in> set canonical_denominations \<Longrightarrow> 1000000 \<le> d \<and> d \<le> 1000000000000"
  by (auto simp: canonical_denominations_def upt_rec)

lemma largest_denomination_bounds:
  "largest_zip318_denomination_at_or_below v = Some d \<Longrightarrow> 1000000 \<le> d \<and> d \<le> v"
  by (auto simp: largest_denomination_Some_iff dest: canonical_bounds)

lemma is_canonical_iff:
  "is_zip318_canonical_denomination v \<longleftrightarrow> v \<in> set canonical_denominations"
  by (auto simp: is_zip318_canonical_denomination_def largest_denomination_Some_iff)

lemma largest_denomination_mono:
  "largest_zip318_denomination_at_or_below v = Some d \<Longrightarrow>
   largest_zip318_denomination_at_or_below w = Some e \<Longrightarrow> v \<le> w \<Longrightarrow> d \<le> e"
  by (auto simp: largest_denomination_Some_iff)

section \<open>The greedy denomination plan\<close>

record denomination_plan =
  migration_outputs :: "u64 list"
  orchard_change :: "u64 option"
  split_fee_zatoshi :: u64
  migration_fee_zatoshi :: u64
  total_input_zatoshi :: u64
  total_migratable_zatoshi :: u64

text \<open>
  The loop of \<open>plan_denominations\<close>: it returns the outputs and what remains. Each round
  takes at least the smallest denomination off what remains, so it ends.
\<close>

function denomination_loop ::
    "u64 \<Rightarrow> u64 \<Rightarrow> u64 list \<Rightarrow> (policy_error, u64 list \<times> u64) outcome" where
  "denomination_loop migration_fee remaining outputs =
     (case checked_sub remaining migration_fee of
        None \<Rightarrow> Ok (outputs, remaining)
      | Some spendable_after_fee \<Rightarrow>
          (case largest_zip318_denomination_at_or_below spendable_after_fee of
             None \<Rightarrow> Ok (outputs, remaining)
           | Some denomination \<Rightarrow>
               (case Option.bind (checked_sub remaining denomination)
                       (\<lambda>v. checked_sub v migration_fee) of
                  None \<Rightarrow> Err CanonicalDenominationFeeUnderflow
                | Some remaining' \<Rightarrow>
                    denomination_loop migration_fee remaining' (outputs @ [denomination]))))"
  by pat_completeness auto
termination
  by (relation "measure (\<lambda>(f, r, outs). r)")
    (auto simp: outcome_simps bind_eq_Some_conv dest: largest_denomination_bounds)

declare denomination_loop.simps [simp del]

definition plan_denominations ::
    "u64 \<Rightarrow> u64 \<Rightarrow> u64 \<Rightarrow> u64 \<Rightarrow> (policy_error, denomination_plan) outcome" where
  "plan_denominations total_input split_fee migration_fee minimum_output =
     (if total_input \<le> split_fee then
        Ok \<lparr>migration_outputs = [], orchard_change = None, split_fee_zatoshi = total_input,
            migration_fee_zatoshi = migration_fee, total_input_zatoshi = total_input,
            total_migratable_zatoshi = 0\<rparr>
      else
        obind (ok_or (checked_sub total_input split_fee) DenominationSplitFeeUnderflow)
          (\<lambda>remaining0.
        obind (denomination_loop migration_fee remaining0 []) (\<lambda>(outputs, remaining).
        let change = (if remaining \<ge> minimum_output then Some remaining else None) in
        obind (try_sum MigratableTotalOverflow outputs) (\<lambda>total_migratable.
        Ok \<lparr>migration_outputs = outputs, orchard_change = change,
            split_fee_zatoshi = split_fee, migration_fee_zatoshi = migration_fee,
            total_input_zatoshi = total_input,
            total_migratable_zatoshi = total_migratable\<rparr>))))"

subsection \<open>What the loop computes\<close>

text \<open>
  From \<open>remaining\<close> and outputs \<open>acc\<close> the loop returns \<open>acc @ new\<close> and a rest that no
  further denomination fits in; every new output is canonical and the new outputs descend.
\<close>

lemma denomination_loop_result:
  "\<exists>new r. denomination_loop fee remaining acc = Ok (acc @ new, r)
     \<and> remaining = sum_list new + length new * fee + r
     \<and> set new \<subseteq> set canonical_denominations
     \<and> sorted_wrt (\<ge>) new
     \<and> (\<forall>d \<in> set new. d + fee \<le> remaining)
     \<and> r < 1000000 + fee"
proof (induction remaining arbitrary: acc rule: less_induct)
  case (less remaining)
  show ?case
  proof (cases "remaining < 1000000 + fee")
    case True
    then have "largest_zip318_denomination_at_or_below (remaining - fee) = None"
      by (simp add: largest_denomination_None_iff)
    then have "denomination_loop fee remaining acc = Ok (acc, remaining)"
      by (subst denomination_loop.simps) (simp add: checked_sub_def)
    with True show ?thesis by (intro exI [of _ "[]"] exI [of _ remaining]) simp
  next
    case False
    then have "\<not> remaining - fee < 1000000" by simp
    then obtain d where d: "largest_zip318_denomination_at_or_below (remaining - fee) = Some d"
      using largest_denomination_None_iff by fastforce
    note b = largest_denomination_bounds [OF d]
    let ?r = "remaining - d - fee"
    have fits: "d + fee \<le> remaining" using b False by linarith
    then have step: "denomination_loop fee remaining acc
        = denomination_loop fee ?r (acc @ [d])"
      using d False by (subst denomination_loop.simps) (auto simp: checked_sub_def)
    have "?r < remaining" using b fits by linarith
    from less.IH [OF this, of "acc @ [d]"] obtain new r where
      IH: "denomination_loop fee ?r (acc @ [d]) = Ok ((acc @ [d]) @ new, r)"
        "?r = sum_list new + length new * fee + r" "set new \<subseteq> set canonical_denominations"
        "sorted_wrt (\<ge>) new" "\<forall>e \<in> set new. e + fee \<le> ?r" "r < 1000000 + fee"
      by blast
    have canon: "d \<in> set canonical_denominations"
      and greatest: "\<And>c. c \<in> set canonical_denominations \<Longrightarrow> c \<le> remaining - fee \<Longrightarrow> c \<le> d"
      using d by (auto simp: largest_denomination_Some_iff)
    have "\<forall>e \<in> set new. e \<le> d"
    proof
      fix e assume e: "e \<in> set new"
      with IH(3) have "e \<in> set canonical_denominations" by blast
      moreover from e IH(5) have "e \<le> remaining - fee" by fastforce
      ultimately show "e \<le> d" by (rule greatest)
    qed
    moreover have "\<forall>e \<in> set (d # new). e + fee \<le> remaining" using IH(5) fits by fastforce
    moreover have "remaining = sum_list (d # new) + length (d # new) * fee + r"
      using IH(2) fits by simp
    ultimately show ?thesis
      using step IH canon by (intro exI [of _ "d # new"] exI [of _ r]) auto
  qed
qed

section \<open>The canonical expiry height\<close>

definition zip318_canonical_migration_expiry_height :: "u32 \<Rightarrow> (policy_error, u32) outcome" where
  "zip318_canonical_migration_expiry_height scheduled_height =
     (let boundary = scheduled_height - scheduled_height mod ZIP318_EXPIRY_MODULUS in
      obind (ok_or (checked_mul u32_max ZIP318_EXPIRY_MODULUS 2) ExpiryWindowOverflow)
        (\<lambda>window. ok_or (checked_add u32_max boundary window) ExpiryHeightOverflow))"

lemma expiry_height_eq:
  "zip318_canonical_migration_expiry_height h =
     (if h div 34560 * 34560 + 69120 \<le> u32_max then Ok (h div 34560 * 34560 + 69120)
      else Err ExpiryHeightOverflow)"
  by (simp add: zip318_canonical_migration_expiry_height_def ZIP318_EXPIRY_MODULUS_def u32_max_def
      checked_mul_def checked_add_def ok_or_def minus_mod_eq_div_mult)

section \<open>Properties\<close>

text \<open>
  the search returns nothing below 0.01 ZEC and otherwise the greatest canonical
  denomination that does not exceed the value, for every \<open>u64\<close>: the nested loops with their
  overflow guards agree with the maximum of the set they search.
\<close>

theorem largest_denomination_is_maximum:
  "largest_zip318_denomination_at_or_below v =
     (if v < ZIP318_MAX_RESIDUAL_VALUE_ZATOSHI then None
      else Some (Max {c \<in> set canonical_denominations. c \<le> v}))"
proof (cases "v < 1000000")
  case True
  then show ?thesis using largest_denomination_None_iff by (simp add: denomination_constants)
next
  case False
  then obtain d where d: "largest_zip318_denomination_at_or_below v = Some d"
    using largest_denomination_None_iff by fastforce
  then have "Max {c \<in> set canonical_denominations. c \<le> v} = d"
    by (intro Max_eqI) (auto simp: largest_denomination_Some_iff)
  with d False show ?thesis by (simp add: denomination_constants)
qed

text \<open>
  planning denominations over a representable balance above the split fee never fails. The
  outputs are canonical and descend; inputs equal split fee, outputs, one migration fee per output
  and a rest; the rest is too small for another output, and becomes Orchard change exactly when it
  reaches the minimum output.
\<close>

theorem plan_denominations_conserves:
  assumes "balance \<le> u64_max" and "split_fee < balance"
  shows "\<exists>p rest. plan_denominations balance split_fee fee minimum = Ok p
    \<and> balance = split_fee + sum_list (migration_outputs p)
                + length (migration_outputs p) * fee + rest
    \<and> rest < ZIP318_MAX_RESIDUAL_VALUE_ZATOSHI + fee
    \<and> orchard_change p = (if rest \<ge> minimum then Some rest else None)
    \<and> total_migratable_zatoshi p = sum_list (migration_outputs p)
    \<and> sorted_wrt (\<ge>) (migration_outputs p)
    \<and> list_all is_zip318_canonical_denomination (migration_outputs p)"
proof -
  obtain new r where L: "denomination_loop fee (balance - split_fee) [] = Ok (new, r)"
    "balance - split_fee = sum_list new + length new * fee + r"
    "set new \<subseteq> set canonical_denominations" "sorted_wrt (\<ge>) new" "r < 1000000 + fee"
    using denomination_loop_result [of fee "balance - split_fee" "[]"] by auto
  let ?p = "\<lparr>migration_outputs = new, orchard_change = if r \<ge> minimum then Some r else None,
    split_fee_zatoshi = split_fee, migration_fee_zatoshi = fee, total_input_zatoshi = balance,
    total_migratable_zatoshi = sum_list new\<rparr>"
  have "try_sum MigratableTotalOverflow new = Ok (sum_list new)"
    using L(2) assms by (simp add: try_sum_Ok)
  then have "plan_denominations balance split_fee fee minimum = Ok ?p"
    using assms(2) L(1) by (simp add: plan_denominations_def checked_sub_def ok_or_def Let_def)
  moreover have "balance = split_fee + sum_list new + length new * fee + r"
    using L(2) assms(2) by linarith
  moreover have "list_all is_zip318_canonical_denomination new"
    using L(3) by (auto simp: is_canonical_iff list_all_iff)
  ultimately show ?thesis
    using L(4,5) by (intro exI [of _ ?p] exI [of _ r]) (simp add: denomination_constants)
qed

theorem plan_denominations_conserves_witness:
  "\<exists>p rest. plan_denominations 350000000 80000 15000 1 = Ok p
    \<and> 350000000 = 80000 + sum_list (migration_outputs p)
                + length (migration_outputs p) * 15000 + rest
    \<and> rest < ZIP318_MAX_RESIDUAL_VALUE_ZATOSHI + 15000"
proof -
  have "(350000000 :: nat) \<le> u64_max" "(80000 :: nat) < 350000000" by (simp_all add: u64_max_def)
  from plan_denominations_conserves [OF this, of 15000 1] show ?thesis by blast
qed

text \<open>
  The canonical expiry height is a multiple of the expiry modulus, more than one and at most
  two windows after the scheduled height, and the same for all heights of one window; the only
  failure is a height whose window end does not fit \<open>u32\<close>.
\<close>

theorem expiry_height_canonical:
  "(case zip318_canonical_migration_expiry_height h of
      Ok e \<Rightarrow> e mod ZIP318_EXPIRY_MODULUS = 0 \<and> h + ZIP318_EXPIRY_MODULUS < e
        \<and> e \<le> h + 2 * ZIP318_EXPIRY_MODULUS \<and> e \<le> u32_max
        \<and> e div ZIP318_EXPIRY_MODULUS = h div ZIP318_EXPIRY_MODULUS + 2
    | Err err \<Rightarrow> err = ExpiryHeightOverflow \<and> u32_max < h + 2 * ZIP318_EXPIRY_MODULUS
    | Panic \<Rightarrow> False)"
proof -
  have "h div 34560 * 34560 + h mod 34560 = h" and "h mod 34560 < 34560" by simp_all
  then have "h < h div 34560 * 34560 + 34560" and "h div 34560 * 34560 \<le> h" by linarith+
  then show ?thesis
    by (auto simp: expiry_height_eq ZIP318_EXPIRY_MODULUS_def split: outcome.splits if_splits)
qed

end
