(* ===== verification/SplitPlan.thy ===== *)
theory SplitPlan
  imports PrepProperties Denominations "HOL-Library.List_Lexorder"
begin

text \<open>
  \<open>rust/src/wallet/sync/migration/split_plan.rs\<close>: choosing canonical denominations together
  with the preparation transactions that fund them, the optional random refinement of large
  denominations, and the translation of a preparation plan into split stages.

  The random generator is a parameter: \<open>next_u32\<close> maps the generator's state to a draw and
  the next state, so a run is a function of the initial state.
\<close>

section \<open>Refinement of large denominations\<close>

definition TEN_THOUSAND_ZEC_ZATOSHI :: u64 where
  "TEN_THOUSAND_ZEC_ZATOSHI = ZIP318_MAX_MIGRATION_DENOMINATION_ZATOSHI"
definition FIVE_THOUSAND_ZEC_ZATOSHI :: u64 where
  "FIVE_THOUSAND_ZEC_ZATOSHI = TEN_THOUSAND_ZEC_ZATOSHI div 2"
definition TWO_THOUSAND_ZEC_ZATOSHI :: u64 where
  "TWO_THOUSAND_ZEC_ZATOSHI = TEN_THOUSAND_ZEC_ZATOSHI div 5"
definition ONE_THOUSAND_ZEC_ZATOSHI :: u64 where
  "ONE_THOUSAND_ZEC_ZATOSHI = TEN_THOUSAND_ZEC_ZATOSHI div 10"

lemmas refinement_constants =
  TEN_THOUSAND_ZEC_ZATOSHI_def FIVE_THOUSAND_ZEC_ZATOSHI_def TWO_THOUSAND_ZEC_ZATOSHI_def
  ONE_THOUSAND_ZEC_ZATOSHI_def ZIP318_MAX_MIGRATION_DENOMINATION_ZATOSHI_def ZATOSHIS_PER_ZEC_def

record refinement_policy =
  ten_thousand_split_percent :: u32
  five_thousand_split_percent :: u32
  two_thousand_split_percent :: u32

text \<open>\<open>DenominationRefinement\<close>: a selected value and the refinements of its children.\<close>

datatype refinement = Refinement (refined_value: u64) (refined_children: "refinement list")

definition leaf :: "u64 \<Rightarrow> refinement" where
  "leaf v = Refinement v []"

text \<open>\<open>DenominationRefinementPolicy::new\<close> asserts its arguments.\<close>

definition refinement_policy_new :: "u32 \<Rightarrow> u32 \<Rightarrow> u32 \<Rightarrow> (split_error, refinement_policy) outcome" where
  "refinement_policy_new ten five two =
     (if ten \<le> 100 \<and> five \<le> 100 \<and> two \<le> 100
      then Ok \<lparr>ten_thousand_split_percent = ten, five_thousand_split_percent = five,
               two_thousand_split_percent = two\<rparr>
      else Panic)"

definition split_rule :: "refinement_policy \<Rightarrow> u64 \<Rightarrow> (u32 \<times> u64 list) option" where
  "split_rule policy denomination =
     (if denomination = TEN_THOUSAND_ZEC_ZATOSHI then
        Some (ten_thousand_split_percent policy,
              [FIVE_THOUSAND_ZEC_ZATOSHI, FIVE_THOUSAND_ZEC_ZATOSHI])
      else if denomination = FIVE_THOUSAND_ZEC_ZATOSHI then
        Some (five_thousand_split_percent policy,
              [TWO_THOUSAND_ZEC_ZATOSHI, TWO_THOUSAND_ZEC_ZATOSHI, ONE_THOUSAND_ZEC_ZATOSHI])
      else if denomination = TWO_THOUSAND_ZEC_ZATOSHI then
        Some (two_thousand_split_percent policy,
              [ONE_THOUSAND_ZEC_ZATOSHI, ONE_THOUSAND_ZEC_ZATOSHI])
      else None)"

definition AGGRESSIVE_REFINEMENT_POLICY :: refinement_policy where
  "AGGRESSIVE_REFINEMENT_POLICY =
     \<lparr>ten_thousand_split_percent = 80, five_thousand_split_percent = 55,
      two_thousand_split_percent = 35\<rparr>"

text \<open>A map that threads a state: \<open>iter().map\<close> with a closure that draws random numbers.\<close>

fun map_state :: "('s \<Rightarrow> 'a \<Rightarrow> 'b \<times> 's) \<Rightarrow> 's \<Rightarrow> 'a list \<Rightarrow> 'b list \<times> 's" where
  "map_state f s [] = ([], s)"
| "map_state f s (x # xs) =
     (let (y, s1) = f s x; (ys, s2) = map_state f s1 xs in (y # ys, s2))"

lemma map_state_cong [fundef_cong]:
  "xs = ys \<Longrightarrow> s = t \<Longrightarrow> (\<And>u x. x \<in> set ys \<Longrightarrow> f u x = g u x) \<Longrightarrow> map_state f s xs = map_state g t ys"
  by (induction ys arbitrary: xs s t) (auto simp: Let_def split: prod.splits)

function refine_denomination ::
    "('r \<Rightarrow> u32 \<times> 'r) \<Rightarrow> refinement_policy \<Rightarrow> 'r \<Rightarrow> u64 \<Rightarrow> refinement \<times> 'r" where
  "refine_denomination next_u32 policy rng denomination =
     (case split_rule policy denomination of
        None \<Rightarrow> (leaf denomination, rng)
      | Some (split_percent, children) \<Rightarrow>
          if split_percent = 0 then (leaf denomination, rng)
          else if fst (next_u32 rng) mod 100 \<ge> split_percent then (leaf denomination, snd (next_u32 rng))
          else let (kids, rng') = map_state (\<lambda>r child. refine_denomination next_u32 policy r child)
                                    (snd (next_u32 rng)) children
               in (Refinement denomination kids, rng'))"
  by pat_completeness auto
termination
  by (relation "measure (\<lambda>(next_u32, policy, rng, denomination). denomination)")
    (auto simp: split_rule_def refinement_constants split: if_splits)

declare refine_denomination.simps [simp del]

text \<open>
  \<open>refinement_candidates\<close>. Sorting by descending length and then by the order of vectors is
  a stable sort by length of the lexicographically sorted list; equal elements are identical.
\<close>

definition combine_candidates :: "u64 list list \<Rightarrow> u64 list list \<Rightarrow> u64 list list" where
  "combine_candidates expanded kids = [prefix @ kid. prefix \<leftarrow> expanded, kid \<leftarrow> kids]"

definition order_candidates :: "u64 list list \<Rightarrow> u64 list list" where
  "order_candidates expanded =
     remdups_adj (sort_key (\<lambda>c. - int (length c)) (sort (map sort_desc expanded)))"

fun refinement_candidates :: "refinement \<Rightarrow> (split_error, u64 list list) outcome" where
  "refinement_candidates (Refinement v children) =
     (if \<not> is_zip318_canonical_denomination v then Err RefinementNoncanonical
      else if children = [] then Ok [[v]]
      else obind (try_sum RefinementTotalOverflow (map refined_value children)) (\<lambda>sum_children.
        if sum_children \<noteq> v then Err RefinementMustPreserveValue
        else obind (foldM (\<lambda>expanded child.
               obind (refinement_candidates child) (\<lambda>kids.
               obind (ok_or (checked_mul u64_max (length expanded) (length kids)) RefinementCountOverflow) (\<lambda>_.
                 Ok (combine_candidates expanded kids)))) [[]] children) (\<lambda>expanded.
          Ok (order_candidates (expanded @ [[v]])))))"

text \<open>Every candidate is a descending list of canonical values with the sum of the root.\<close>

definition good_candidate :: "u64 \<Rightarrow> u64 list \<Rightarrow> bool" where
  "good_candidate v c \<longleftrightarrow> sum_list c = v \<and> (\<forall>d \<in> set c. is_zip318_canonical_denomination d)"

lemma set_order_candidates: "set (order_candidates cs) = sort_desc ` set cs"
  by (simp add: order_candidates_def)

lemma good_candidate_sort_desc [simp]: "good_candidate v (sort_desc c) \<longleftrightarrow> good_candidate v c"
  by (simp add: good_candidate_def)

lemma fold_candidates_good:
  assumes "\<And>child kids. child \<in> set children \<Longrightarrow> refinement_candidates child = Ok kids \<Longrightarrow>
      (\<forall>c \<in> set kids. good_candidate (refined_value child) c)"
    and "foldM (\<lambda>expanded child. obind (refinement_candidates child) (\<lambda>kids.
        obind (ok_or (checked_mul u64_max (length expanded) (length kids)) RefinementCountOverflow) (\<lambda>_.
          Ok (combine_candidates expanded kids)))) expanded0 children = Ok expanded"
    and "\<forall>c \<in> set expanded0. good_candidate s c"
  shows "\<forall>c \<in> set expanded. good_candidate (s + sum_list (map refined_value children)) c"
  using assms
proof (induction children arbitrary: expanded0 s)
  case (Cons child children)
  from Cons.prems(2) obtain kids where kids: "refinement_candidates child = Ok kids" and
    rest: "foldM (\<lambda>expanded child. obind (refinement_candidates child) (\<lambda>kids.
        obind (ok_or (checked_mul u64_max (length expanded) (length kids)) RefinementCountOverflow) (\<lambda>_.
          Ok (combine_candidates expanded kids)))) (combine_candidates expanded0 kids) children = Ok expanded"
    by (auto simp: outcome_simps)
  have "\<forall>c \<in> set kids. good_candidate (refined_value child) c" using Cons.prems(1) kids by simp
  then have "\<forall>c \<in> set (combine_candidates expanded0 kids). good_candidate (s + refined_value child) c"
    using Cons.prems(3) by (auto simp: combine_candidates_def good_candidate_def)
  from Cons.IH [OF Cons.prems(1) rest this] show ?case by (simp add: add.assoc)
qed simp

lemma refinement_candidates_good:
  "refinement_candidates r = Ok cs \<Longrightarrow> (\<forall>c \<in> set cs. good_candidate (refined_value r) c \<and> sorted_wrt (\<ge>) c)"
proof (induction r arbitrary: cs)
  case (Refinement v children)
  show ?case
  proof (cases "children = []")
    case True
    with Refinement.prems show ?thesis by (auto simp: good_candidate_def split: if_splits)
  next
    case False
    from Refinement.prems False obtain expanded where
      sum: "sum_list (map refined_value children) = v" and
      canon: "is_zip318_canonical_denomination v" and
      fold: "foldM (\<lambda>expanded child. obind (refinement_candidates child) (\<lambda>kids.
        obind (ok_or (checked_mul u64_max (length expanded) (length kids)) RefinementCountOverflow) (\<lambda>_.
          Ok (combine_candidates expanded kids)))) [[]] children = Ok expanded" and
      cs: "cs = order_candidates (expanded @ [[v]])"
      by (auto simp: outcome_simps try_sum_Ok split: if_splits)
    have "\<forall>c \<in> set expanded. good_candidate (0 + sum_list (map refined_value children)) c"
      by (rule fold_candidates_good [OF _ fold]) (use Refinement.IH in \<open>auto simp: good_candidate_def\<close>)
    with sum canon show ?thesis
      by (auto simp: cs set_order_candidates sorted_sort_desc) (simp add: good_candidate_def)
  qed
qed

section \<open>Planning context and committed value\<close>

record planning_context =
  positive_input_indices :: "usize list"
  context_total_input :: u64
  context_available :: "u64 list"
  prep_fee :: u64

text \<open>\<open>Zatoshis::from_u64(..).map_err(..)\<close>.\<close>

definition zat_or :: "planner_env \<Rightarrow> split_error \<Rightarrow> u64 \<Rightarrow> (split_error, u64) outcome" where
  "zat_or E e v = (if zat_ok E v then Ok v else Err e)"

definition planning_context_of ::
    "planner_env \<Rightarrow> u64 list \<Rightarrow> u64 \<Rightarrow> u64 \<Rightarrow> (split_error, planning_context option) outcome" where
  "planning_context_of E input_values fee_per_stage minimum_output =
     (let indices = map fst (filter (\<lambda>(index, v). v > 0) (List.enumerate 0 input_values)) in
      if indices = [] then Ok None
      else if fee_per_stage = 0 then Err StageFeeMustBePositive
      else if minimum_output \<noteq> 1 then Err MinimumOutputMustBeOne
      else let positive = map (\<lambda>index. input_values ! index) indices in
        obind (try_sum SelectedValueOverflow positive) (\<lambda>total_input.
        obind (mapM (zat_or E SelectedNoteExceedsSupply) positive) (\<lambda>available.
        obind (zat_or E StageFeeInvalid fee_per_stage) (\<lambda>fee.
          Ok (Some \<lparr>positive_input_indices = indices, context_total_input = total_input,
                    context_available = available, prep_fee = fee\<rparr>)))))"

definition committed_value :: "u64 list \<Rightarrow> preparation_plan \<Rightarrow> u64 \<Rightarrow> (split_error, u64) outcome" where
  "committed_value funding_values preparation fee_per_stage =
     obind (try_sum FundingTotalOverflow funding_values) (\<lambda>funding_total.
     obind (ok_or (checked_mul u64_max fee_per_stage (transaction_count preparation))
              PreparationFeeTotalOverflow) (\<lambda>prep_fees.
       ok_or (checked_add u64_max funding_total prep_fees) CommittedValueOverflow))"

definition preparation_for_crossings ::
    "planner_env \<Rightarrow> planning_context \<Rightarrow> u64 list \<Rightarrow> u64 \<Rightarrow> u64 \<Rightarrow>
      (split_error, (u64 list \<times> preparation_plan) option) outcome" where
  "preparation_for_crossings E ctx crossing_values fee_per_stage migration_fee =
     obind (mapM (\<lambda>crossing. ok_or (checked_add u64_max crossing migration_fee) PreparedNoteValueOverflow)
              crossing_values) (\<lambda>funding_values.
     obind (mapM (zat_or E PreparedNoteValueInvalid) funding_values) (\<lambda>typed_funding.
       case plan_preparation E (context_available ctx) typed_funding (prep_fee ctx) of
         Ok preparation \<Rightarrow>
           obind (committed_value funding_values preparation fee_per_stage) (\<lambda>committed.
             Ok (if committed \<le> context_total_input ctx then Some (funding_values, preparation) else None))
       | Err InsufficientFunds \<Rightarrow> Ok None
       | Err BalanceInvalid \<Rightarrow> Err PreparationBalanceInvalid
       | Panic \<Rightarrow> Panic))"

lemma checked_fee_list:
  "mapM (\<lambda>crossing. ok_or (checked_add u64_max crossing fee) e) crossings = Ok funding \<Longrightarrow>
     funding = map (\<lambda>c. c + fee) crossings"
  by (auto simp: mapM_eq_Ok outcome_simps list_all2_conv_all_nth intro!: nth_equalityI)

lemma mapM_zat_or: "mapM (zat_or E e) vs = Ok ws \<Longrightarrow> ws = vs"
  by (auto simp: mapM_eq_Ok zat_or_def list_all2_conv_all_nth split: if_splits intro!: nth_equalityI)

lemma preparation_for_crossings_Some:
  assumes "preparation_for_crossings E ctx crossings fee mfee = Ok (Some (funding, preparation))"
  shows "funding = map (\<lambda>c. c + mfee) crossings"
    and "plan_preparation E (context_available ctx) funding (prep_fee ctx) = Ok preparation"
    and "sum_list funding + fee * transaction_count preparation \<le> context_total_input ctx"
    and "list_all (zat_ok E) funding"
proof -
  from assms obtain funding1 typed where pre:
    "mapM (\<lambda>crossing. ok_or (checked_add u64_max crossing mfee) PreparedNoteValueOverflow) crossings = Ok funding1"
    "mapM (zat_or E PreparedNoteValueInvalid) funding1 = Ok typed" and
    rest: "(case plan_preparation E (context_available ctx) typed (prep_fee ctx) of
         Ok preparation \<Rightarrow>
           obind (committed_value funding1 preparation fee) (\<lambda>committed.
             Ok (if committed \<le> context_total_input ctx then Some (funding1, preparation) else None))
       | Err InsufficientFunds \<Rightarrow> Ok None
       | Err BalanceInvalid \<Rightarrow> Err PreparationBalanceInvalid
       | Panic \<Rightarrow> Panic) = Ok (Some (funding, preparation))"
    unfolding preparation_for_crossings_def obind_eq_Ok by blast
  have "\<exists>committed. plan_preparation E (context_available ctx) typed (prep_fee ctx) = Ok preparation
      \<and> funding1 = funding \<and> committed_value funding preparation fee = Ok committed
      \<and> committed \<le> context_total_input ctx"
  proof (cases "plan_preparation E (context_available ctx) typed (prep_fee ctx)")
    case (Err e)
    with rest show ?thesis by (cases e) simp_all
  qed (use rest in \<open>auto simp: outcome_simps split: if_splits\<close>)
  with pre obtain committed where run:
    "mapM (\<lambda>crossing. ok_or (checked_add u64_max crossing mfee) PreparedNoteValueOverflow) crossings = Ok funding"
    "mapM (zat_or E PreparedNoteValueInvalid) funding = Ok typed"
    "plan_preparation E (context_available ctx) typed (prep_fee ctx) = Ok preparation"
    "committed_value funding preparation fee = Ok committed" "committed \<le> context_total_input ctx"
    by blast
  show "funding = map (\<lambda>c. c + mfee) crossings" by (rule checked_fee_list [OF run(1)])
  show "plan_preparation E (context_available ctx) funding (prep_fee ctx) = Ok preparation"
    using run(3) mapM_zat_or [OF run(2)] by simp
  show "sum_list funding + fee * transaction_count preparation \<le> context_total_input ctx"
    using run(4,5) by (auto simp: committed_value_def outcome_simps try_sum_Ok)
  show "list_all (zat_ok E) funding"
    using run(2) by (auto simp: mapM_eq_Ok zat_or_def list_all2_conv_all_nth list_all_length split: if_splits)
qed

section \<open>Choosing the denominations\<close>

text \<open>The candidates of one refinement, most split first, until one is affordable.\<close>

fun try_candidates ::
    "planner_env \<Rightarrow> planning_context \<Rightarrow> u64 list \<Rightarrow> u64 \<Rightarrow> u64 \<Rightarrow> u64 list list \<Rightarrow>
      (split_error, (u64 list \<times> u64 list \<times> preparation_plan) option) outcome" where
  "try_candidates E ctx crossings fee mfee [] = Ok None"
| "try_candidates E ctx crossings fee mfee (candidate # candidates) =
     obind (preparation_for_crossings E ctx (crossings @ candidate) fee mfee) (\<lambda>found.
       case found of
         Some (funding, preparation) \<Rightarrow> Ok (Some (crossings @ candidate, funding, preparation))
       | None \<Rightarrow> try_candidates E ctx crossings fee mfee candidates)"

text \<open>
  The inner loop over \<open>affordable\<close>; \<open>refine\<close> draws from the generator state. It returns
  what was accepted and the state.
\<close>

function affordable_loop ::
    "planner_env \<Rightarrow> ('r \<Rightarrow> u64 \<Rightarrow> refinement \<times> 'r) \<Rightarrow> planning_context \<Rightarrow> u64 \<Rightarrow> u64 \<Rightarrow> u64 list \<Rightarrow>
      u64 \<Rightarrow> 'r \<Rightarrow> (split_error, (u64 list \<times> u64 list \<times> preparation_plan) option \<times> 'r) outcome" where
  "affordable_loop E refine ctx fee mfee crossings affordable rng =
     (if affordable < ZIP318_MAX_RESIDUAL_VALUE_ZATOSHI then Ok (None, rng)
      else case largest_zip318_denomination_at_or_below affordable of
        None \<Rightarrow> Ok (None, rng)
      | Some greedy \<Rightarrow>
          let (refinement, rng') = refine rng greedy in
          if refined_value refinement \<noteq> greedy then Err RefinementMustPreserveValue
          else obind (refinement_candidates refinement) (\<lambda>candidates.
            obind (try_candidates E ctx crossings fee mfee candidates) (\<lambda>accepted.
              if accepted \<noteq> None \<or> greedy = ZIP318_MAX_RESIDUAL_VALUE_ZATOSHI then Ok (accepted, rng')
              else affordable_loop E refine ctx fee mfee crossings (greedy - 1) rng')))"
  by pat_completeness auto
termination
  by (relation "measure (\<lambda>(E, refine, ctx, fee, mfee, crossings, affordable, rng). affordable)")
    (auto dest!: largest_denomination_bounds)

declare affordable_loop.simps [simp del]

lemma try_candidates_Some:
  "try_candidates E ctx crossings fee mfee candidates = Ok (Some (crossings', funding, preparation)) \<Longrightarrow>
     \<exists>c \<in> set candidates. crossings' = crossings @ c \<and>
       preparation_for_crossings E ctx crossings' fee mfee = Ok (Some (funding, preparation))"
  by (induction candidates) (auto simp: outcome_simps split: option.splits prod.splits)

text \<open>What the inner loop accepts: canonical values that sum to a denomination, and their plan.\<close>

lemma affordable_loop_Some:
  assumes "affordable_loop E refine ctx fee mfee crossings affordable rng
      = Ok (Some (crossings', funding, preparation), rng')"
  shows "preparation_for_crossings E ctx crossings' fee mfee = Ok (Some (funding, preparation))
    \<and> (\<exists>c d. crossings' = crossings @ c \<and> good_candidate d c \<and> 1000000 \<le> d \<and> d \<le> affordable)"
  using assms
proof (induction E refine ctx fee mfee crossings affordable rng rule: affordable_loop.induct)
  case (1 E refine ctx fee mfee crossings affordable rng)
  from "1.prems" obtain greedy where g: "\<not> affordable < ZIP318_MAX_RESIDUAL_VALUE_ZATOSHI"
    "largest_zip318_denomination_at_or_below affordable = Some greedy"
    by (subst (asm) affordable_loop.simps) (auto split: if_splits option.splits)
  obtain r rng1 where r: "refine rng greedy = (r, rng1)" by (metis surj_pair)
  from "1.prems" g r obtain cs accepted where body: "refined_value r = greedy" "refinement_candidates r = Ok cs"
    "try_candidates E ctx crossings fee mfee cs = Ok accepted"
    "(if accepted \<noteq> None \<or> greedy = ZIP318_MAX_RESIDUAL_VALUE_ZATOSHI then Ok (accepted, rng1)
      else affordable_loop E refine ctx fee mfee crossings (greedy - 1) rng1)
       = Ok (Some (crossings', funding, preparation), rng')"
    by (subst (asm) affordable_loop.simps) (auto simp: outcome_simps split: if_splits)
  note bounds = largest_denomination_bounds [OF g(2)]
  show ?case
  proof (cases accepted)
    case (Some a)
    with body(4) have a: "a = (crossings', funding, preparation)" by simp
    from try_candidates_Some [OF body(3) [unfolded Some a]] refinement_candidates_good [OF body(2)]
      body(1) bounds show ?thesis by fastforce
  next
    case None
    with body(4) have "\<not> (accepted \<noteq> None \<or> greedy = ZIP318_MAX_RESIDUAL_VALUE_ZATOSHI)"
      "affordable_loop E refine ctx fee mfee crossings (greedy - 1) rng1
        = Ok (Some (crossings', funding, preparation), rng')"
      by (auto split: if_splits)
    from "1.IH" [OF g r [symmetric] refl _ body(2,3) this] body(1) bounds show ?thesis by fastforce
  qed
qed

text \<open>
  The outer loop: \<open>committed\<close> grows with every accepted denomination, so it ends when no
  further one is affordable.
\<close>

function denominations_loop ::
    "planner_env \<Rightarrow> ('r \<Rightarrow> u64 \<Rightarrow> refinement \<times> 'r) \<Rightarrow> planning_context \<Rightarrow> u64 \<Rightarrow> u64 \<Rightarrow> u64 \<Rightarrow>
      u64 list \<Rightarrow> u64 list \<Rightarrow> preparation_plan \<Rightarrow> 'r \<Rightarrow>
      (split_error, (u64 list \<times> u64 list \<times> preparation_plan) \<times> 'r) outcome" where
  "denominations_loop E refine ctx minimum_funding_note fee mfee crossings funding preparation rng =
     (case committed_value funding preparation fee of
        Err e \<Rightarrow> Err e
      | Panic \<Rightarrow> Panic
      | Ok committed \<Rightarrow>
          let budget = saturating_sub (context_total_input ctx) committed in
          if budget < minimum_funding_note then Ok ((crossings, funding, preparation), rng)
          else case checked_sub budget mfee of
            None \<Rightarrow> Panic
          | Some affordable \<Rightarrow>
              (case affordable_loop E refine ctx fee mfee crossings
                      (min affordable ZIP318_MAX_MIGRATION_DENOMINATION_ZATOSHI) rng of
                 Err e \<Rightarrow> Err e
               | Panic \<Rightarrow> Panic
               | Ok (None, rng') \<Rightarrow> Ok ((crossings, funding, preparation), rng')
               | Ok (Some (crossings', funding', preparation'), rng') \<Rightarrow>
                   denominations_loop E refine ctx minimum_funding_note fee mfee
                     crossings' funding' preparation' rng'))"
  by pat_completeness auto
termination
proof (relation "measure (\<lambda>(E, refine, ctx, m, fee, mfee, crossings, funding, preparation, rng).
      Suc (context_total_input ctx) - sum_list crossings)", goal_cases)
  case 1
  then show ?case by simp
next
  case (2 E refine ctx m fee mfee crossings funding preparation rng committed budget affordable
      accepted_rng accepted rng' triple crossings' rest funding' preparation')
  then have "affordable_loop E refine ctx fee mfee crossings
      (min affordable ZIP318_MAX_MIGRATION_DENOMINATION_ZATOSHI) rng
      = Ok (Some (crossings', funding', preparation'), rng')" by simp
  from affordable_loop_Some [OF this] obtain c d where
    acc: "preparation_for_crossings E ctx crossings' fee mfee = Ok (Some (funding', preparation'))"
      "crossings' = crossings @ c" "sum_list c = d" "1000000 \<le> d" by (auto simp: good_candidate_def)
  have "sum_list crossings' \<le> sum_list funding'"
    unfolding preparation_for_crossings_Some(1) [OF acc(1)] by (rule sum_list_mono2) simp_all
  then have "sum_list crossings' \<le> context_total_input ctx"
    using preparation_for_crossings_Some(3) [OF acc(1)] by simp
  then show ?case using acc by simp
qed

declare denominations_loop.simps [simp del]

section \<open>Split stages\<close>

definition DENOMINATION_SPLIT_ACTIONS :: usize where
  "DENOMINATION_SPLIT_ACTIONS = PREP_TX_ACTIONS"

datatype split_stage_input =
    Original usize u64            \<comment> \<open>wallet input index, value\<close>
  | PriorStage usize usize u64    \<comment> \<open>stage, output, value\<close>

fun stage_input_value :: "split_stage_input \<Rightarrow> u64" where
  "stage_input_value (Original index v) = v"
| "stage_input_value (PriorStage stage output v) = v"

datatype split_terminal_kind = Migration | OrchardChange | Continuation

record split_stage_output =
  output_value_zatoshi :: u64
  output_kind :: split_terminal_kind
  output_part_index :: "usize option"

record split_stage_plan =
  stage_layer_index :: usize
  stage_inputs :: "split_stage_input list"
  stage_outputs :: "split_stage_output list"
  stage_fee_zatoshi :: u64
  requested_actions :: usize

record direct_migration_input =
  direct_input_index :: usize
  direct_part_index :: usize
  direct_value_zatoshi :: u64

record padded_denomination_plan =
  padded_denominations :: denomination_plan
  padded_stages :: "split_stage_plan list"
  padded_layer_count :: usize
  direct_migration_inputs :: "direct_migration_input list"

text \<open>
  \<open>available_parts: BTreeMap<u64, Vec<usize>>\<close>. A missing key and an empty vector behave the
  same in every use, so the map is a function to lists.
\<close>

type_synonym part_map = "u64 \<Rightarrow> usize list"

definition initial_parts :: "u64 list \<Rightarrow> part_map" where
  "initial_parts funding_values =
     fold (\<lambda>(part_index, v) parts. parts(v := parts v @ [part_index]))
       (rev (List.enumerate 0 funding_values)) (\<lambda>_. [])"

definition take_part_index :: "part_map \<Rightarrow> u64 \<Rightarrow> (split_error, usize \<times> part_map) outcome" where
  "take_part_index parts v =
     (if parts v = [] then Err (UnexpectedFundingValue v)
      else Ok (last (parts v), parts(v := butlast (parts v))))"

definition index_or :: "'a list \<Rightarrow> usize \<Rightarrow> split_error \<Rightarrow> (split_error, 'a) outcome" where
  "index_or xs i e = (if i < length xs then Ok (xs ! i) else Err e)"

definition translate_direct ::
    "usize list \<Rightarrow> direct_migration_input list \<times> part_map \<Rightarrow> usize \<times> u64 \<Rightarrow>
      (split_error, direct_migration_input list \<times> part_map) outcome" where
  "translate_direct indices st direct =
     (case st of (acc, parts) \<Rightarrow> case direct of (input_index, v) \<Rightarrow>
        obind (index_or indices input_index DirectFundingIndexOutOfRange) (\<lambda>index.
        obind (take_part_index parts v) (\<lambda>(part_index, parts').
          Ok (acc @ [\<lparr>direct_input_index = index, direct_part_index = part_index,
                      direct_value_zatoshi = v\<rparr>], parts'))))"

type_synonym coordinate_map = "usize \<times> usize \<Rightarrow> usize option"

fun translate_input ::
    "usize list \<Rightarrow> coordinate_map \<Rightarrow> prep_input \<Rightarrow> (split_error, split_stage_input) outcome" where
  "translate_input indices coordinates (Wallet index v) =
     obind (index_or indices index WalletInputIndexOutOfRange) (\<lambda>i. Ok (Original i v))"
| "translate_input indices coordinates (Prior layer transaction output v) =
     obind (ok_or (coordinates (layer, transaction)) UnknownPriorTransaction) (\<lambda>stage.
       Ok (PriorStage stage output v))"

fun translate_output ::
    "split_stage_output list \<times> part_map \<Rightarrow> prep_output \<Rightarrow>
      (split_error, split_stage_output list \<times> part_map) outcome" where
  "translate_output (acc, parts) (Funding v) =
     obind (take_part_index parts v) (\<lambda>(part_index, parts').
       Ok (acc @ [\<lparr>output_value_zatoshi = v, output_kind = Migration,
                   output_part_index = Some part_index\<rparr>], parts'))"
| "translate_output (acc, parts) (Intermediate v) =
     Ok (acc @ [\<lparr>output_value_zatoshi = v, output_kind = Continuation,
                 output_part_index = None\<rparr>], parts)"
| "translate_output (acc, parts) (Change v) =
     Ok (acc @ [\<lparr>output_value_zatoshi = v, output_kind = OrchardChange,
                 output_part_index = None\<rparr>], parts)"

text \<open>One transaction; the state is \<open>(available_parts, coordinates, stages)\<close>.\<close>

type_synonym translation_state = "part_map \<times> coordinate_map \<times> split_stage_plan list"

definition translate_transaction ::
    "usize list \<Rightarrow> u64 \<Rightarrow> usize \<Rightarrow> translation_state \<Rightarrow> usize \<times> prep_transaction \<Rightarrow>
      (split_error, translation_state) outcome" where
  "translate_transaction indices fee layer_index st indexed =
     (case st of (parts, coordinates, stages) \<Rightarrow> case indexed of (transaction_index, tx) \<Rightarrow>
        obind (mapM (translate_input indices coordinates) (tx_inputs tx)) (\<lambda>inputs.
        obind (foldM translate_output ([], parts) (tx_outputs tx)) (\<lambda>(outputs, parts').
        obind (ok_or (checked_add u64_max (length inputs) (length outputs))
                 PreparationActionCountOverflow) (\<lambda>requested.
        if requested > DENOMINATION_SPLIT_ACTIONS then Err (TooManyActions requested)
        else
          obind (try_sum PreparationInputTotalOverflow (map stage_input_value inputs)) (\<lambda>input_total.
          obind (try_sum PreparationOutputTotalOverflow (map output_value_zatoshi outputs)) (\<lambda>output_total.
          obind (ok_or (checked_add u64_max output_total fee) PreparationTransactionValueOverflow) (\<lambda>spent.
          if input_total \<noteq> spent then Err PreparationDoesNotConserveValue
          else Ok (parts', coordinates((layer_index, transaction_index) \<mapsto> length stages),
                   stages @ [\<lparr>stage_layer_index = layer_index, stage_inputs = inputs,
                              stage_outputs = outputs, stage_fee_zatoshi = fee,
                              requested_actions = requested\<rparr>]))))))))"

definition translate_layers ::
    "usize list \<Rightarrow> u64 \<Rightarrow> translation_state \<Rightarrow> layers \<Rightarrow> (split_error, translation_state) outcome" where
  "translate_layers indices fee st layers =
     foldM (\<lambda>st' (layer_index, layer).
         foldM (translate_transaction indices fee layer_index) st' (List.enumerate 0 layer))
       st (List.enumerate 0 layers)"

definition translate_preparation_plan ::
    "preparation_plan \<Rightarrow> denomination_plan \<Rightarrow> usize list \<Rightarrow> u64 list \<Rightarrow> u64 \<Rightarrow>
      (split_error, padded_denomination_plan) outcome" where
  "translate_preparation_plan preparation denominations indices funding_values fee =
     obind (foldM (translate_direct indices) ([], initial_parts funding_values)
              (direct_funding preparation)) (\<lambda>(direct, parts).
     obind (translate_layers indices fee (parts, \<lambda>_. None, []) (plan_layers preparation))
       (\<lambda>(parts', coordinates, stages).
     if list_ex (\<lambda>v. parts' v \<noteq> []) funding_values then Err PlanDidNotAssignEveryPart
     else Ok \<lparr>padded_denominations = denominations, padded_stages = stages,
              padded_layer_count = layer_count preparation,
              direct_migration_inputs = sort_key direct_part_index direct\<rparr>))"

text \<open>
  \<open>finish_plan\<close>. The pairs are sorted by descending crossing value; pairs with equal crossing
  have equal funding, because funding is the crossing and a constant fee.
\<close>

definition finish_plan ::
    "planning_context \<Rightarrow> u64 list \<Rightarrow> u64 list \<Rightarrow> preparation_plan \<Rightarrow> u64 \<Rightarrow> u64 \<Rightarrow> u64 \<Rightarrow>
      (split_error, padded_denomination_plan option) outcome" where
  "finish_plan ctx crossing_values funding_values preparation fee mfee minimum_output =
     (if crossing_values = [] then Ok None
      else if length crossing_values \<noteq> length funding_values then Err DenominationFundingCountsDiffer
      else let pairs = sort_key (\<lambda>(crossing, funding). - int crossing) (zip crossing_values funding_values);
               crossings = map fst pairs; fundings = map snd pairs in
        obind (ok_or (checked_mul u64_max fee (transaction_count preparation))
                 PreparationFeeTotalOverflow) (\<lambda>split_fee.
        obind (try_sum FundingTotalOverflow fundings) (\<lambda>funding_total.
        obind (ok_or (Option.bind (checked_sub (context_total_input ctx) funding_total)
                        (\<lambda>v. checked_sub v split_fee)) PlanExceedsSelectedValue) (\<lambda>remaining.
        obind (try_sum MigratableDenominationTotalOverflow crossings) (\<lambda>total_migratable.
        obind (translate_preparation_plan preparation
                 \<lparr>migration_outputs = crossings,
                  orchard_change = (if remaining \<ge> minimum_output then Some remaining else None),
                  split_fee_zatoshi = split_fee, migration_fee_zatoshi = mfee,
                  total_input_zatoshi = context_total_input ctx,
                  total_migratable_zatoshi = total_migratable\<rparr>
                 (positive_input_indices ctx) fundings fee) (\<lambda>padded. Ok (Some padded)))))))"

section \<open>The entry points\<close>

definition plan_padded_denominations_with_refiner ::
    "planner_env \<Rightarrow> ('r \<Rightarrow> u64 \<Rightarrow> refinement \<times> 'r) \<Rightarrow> u64 list \<Rightarrow> u64 \<Rightarrow> u64 \<Rightarrow> u64 \<Rightarrow> 'r \<Rightarrow>
      (split_error, padded_denomination_plan option) outcome" where
  "plan_padded_denominations_with_refiner E refine input_values fee mfee minimum_output rng =
     obind (planning_context_of E input_values fee minimum_output) (\<lambda>found.
       case found of
         None \<Rightarrow> Ok None
       | Some ctx \<Rightarrow>
           obind (ok_or (checked_add u64_max ZIP318_MAX_RESIDUAL_VALUE_ZATOSHI mfee)
                    MinimumFundingNoteOverflow) (\<lambda>minimum_funding_note.
           obind (denominations_loop E refine ctx minimum_funding_note fee mfee [] []
                    \<lparr>plan_layers = [], direct_funding = []\<rparr> rng)
             (\<lambda>((crossings, funding, preparation), rng').
               finish_plan ctx crossings funding preparation fee mfee minimum_output)))"

definition plan_padded_denominations_with_policy_and_rng ::
    "planner_env \<Rightarrow> ('r \<Rightarrow> u32 \<times> 'r) \<Rightarrow> u64 list \<Rightarrow> u64 \<Rightarrow> u64 \<Rightarrow> u64 \<Rightarrow> refinement_policy \<Rightarrow> 'r \<Rightarrow>
      (split_error, padded_denomination_plan option) outcome" where
  "plan_padded_denominations_with_policy_and_rng E next_u32 input_values fee mfee minimum_output policy rng =
     plan_padded_denominations_with_refiner E (\<lambda>r greedy. refine_denomination next_u32 policy r greedy)
       input_values fee mfee minimum_output rng"

definition plan_padded_denominations ::
    "planner_env \<Rightarrow> ('r \<Rightarrow> u32 \<times> 'r) \<Rightarrow> u64 list \<Rightarrow> u64 \<Rightarrow> u64 \<Rightarrow> u64 \<Rightarrow> 'r \<Rightarrow>
      (split_error, padded_denomination_plan option) outcome" where
  "plan_padded_denominations E next_u32 input_values fee mfee minimum_output rng =
     plan_padded_denominations_with_policy_and_rng E next_u32 input_values fee mfee minimum_output
       AGGRESSIVE_REFINEMENT_POLICY rng"

definition plan_padded_denominations_without_refinement ::
    "planner_env \<Rightarrow> u64 list \<Rightarrow> u64 \<Rightarrow> u64 \<Rightarrow> u64 \<Rightarrow>
      (split_error, padded_denomination_plan option) outcome" where
  "plan_padded_denominations_without_refinement E input_values fee mfee minimum_output =
     plan_padded_denominations_with_refiner E (\<lambda>r v. (leaf v, r)) input_values fee mfee minimum_output ()"

text \<open>\<open>can_append_canonical_denomination\<close>: its loop over \<open>affordable\<close>.\<close>

function append_loop ::
    "planner_env \<Rightarrow> planning_context \<Rightarrow> u64 list \<Rightarrow> u64 \<Rightarrow> u64 \<Rightarrow> u64 \<Rightarrow> (split_error, bool) outcome" where
  "append_loop E ctx crossings fee mfee affordable =
     (if affordable < ZIP318_MAX_RESIDUAL_VALUE_ZATOSHI then Ok False
      else case largest_zip318_denomination_at_or_below affordable of
        None \<Rightarrow> Ok False
      | Some crossing \<Rightarrow>
          (case preparation_for_crossings E ctx (crossings @ [crossing]) fee mfee of
             Err e \<Rightarrow> Err e
           | Panic \<Rightarrow> Panic
           | Ok (Some found) \<Rightarrow> Ok True
           | Ok None \<Rightarrow>
               if crossing = ZIP318_MAX_RESIDUAL_VALUE_ZATOSHI then Ok False
               else append_loop E ctx crossings fee mfee (crossing - 1)))"
  by pat_completeness auto
termination
  by (relation "measure (\<lambda>(E, ctx, crossings, fee, mfee, affordable). affordable)")
    (auto dest!: largest_denomination_bounds)

declare append_loop.simps [simp del]

definition can_append_canonical_denomination ::
    "planner_env \<Rightarrow> planning_context \<Rightarrow> u64 list \<Rightarrow> u64 list \<Rightarrow> preparation_plan \<Rightarrow> u64 \<Rightarrow> u64 \<Rightarrow>
      (split_error, bool) outcome" where
  "can_append_canonical_denomination E ctx crossings funding preparation fee mfee =
     obind (committed_value funding preparation fee) (\<lambda>committed.
     let budget = saturating_sub (context_total_input ctx) committed in
     obind (ok_or (checked_add u64_max ZIP318_MAX_RESIDUAL_VALUE_ZATOSHI mfee)
              MinimumFundingNoteOverflow) (\<lambda>minimum_funding_note.
     if budget < minimum_funding_note then Ok False
     else obind (expect (checked_sub budget mfee)) (\<lambda>affordable.
       append_loop E ctx crossings fee mfee
         (min affordable ZIP318_MAX_MIGRATION_DENOMINATION_ZATOSHI))))"

fun find_noncanonical :: "u64 list \<Rightarrow> u64 option" where
  "find_noncanonical [] = None"
| "find_noncanonical (v # vs) = (if is_zip318_canonical_denomination v then find_noncanonical vs else Some v)"

fun non_increasing :: "u64 list \<Rightarrow> bool" where
  "non_increasing (a # b # rest) \<longleftrightarrow> a \<ge> b \<and> non_increasing (b # rest)"
| "non_increasing _ \<longleftrightarrow> True"

definition plan_padded_denominations_for_targets ::
    "planner_env \<Rightarrow> u64 list \<Rightarrow> u64 list \<Rightarrow> u64 \<Rightarrow> u64 \<Rightarrow> u64 \<Rightarrow>
      (split_error, padded_denomination_plan option) outcome" where
  "plan_padded_denominations_for_targets E input_values targets fee mfee minimum_output =
     (if targets = [] then Ok None
      else case find_noncanonical targets of
        Some v \<Rightarrow> Err (ApprovedDenominationNotCanonical v)
      | None \<Rightarrow>
          if \<not> non_increasing targets then Err ApprovedPlanOrder
          else obind (planning_context_of E input_values fee minimum_output) (\<lambda>found.
            case found of
              None \<Rightarrow> Err ApprovedPlanStale
            | Some ctx \<Rightarrow>
                obind (preparation_for_crossings E ctx targets fee mfee) (\<lambda>prep.
                case prep of
                  None \<Rightarrow> Err ApprovedPlanStale
                | Some (funding, preparation) \<Rightarrow>
                    obind (can_append_canonical_denomination E ctx targets funding preparation fee mfee)
                      (\<lambda>more. if more then Err ApprovedPlanStale
                        else finish_plan ctx targets funding preparation fee mfee minimum_output))))"

end
