(* ===== verification/SplitProps.thy ===== *)
theory SplitProps
  imports SplitPlan
begin

text \<open>
  Correctness of the split planner: the translation of a preparation plan assigns every
  migration part exactly once and keeps the transactions' values and order; the planner's
  result spends the wallet's value exactly; an approved list of denominations is kept as it is.
\<close>

section \<open>Parts\<close>

lemma foldM_keeps:
  "foldM f s xs = Ok s' \<Longrightarrow> P s \<Longrightarrow> (\<And>x s s'. x \<in> set xs \<Longrightarrow> P s \<Longrightarrow> f s x = Ok s' \<Longrightarrow> P s') \<Longrightarrow> P s'"
  by (induction xs arbitrary: s) (auto simp: obind_eq_Ok)

text \<open>The part indices of a value, and the invariant of the part map: left or assigned.\<close>

definition slots_of :: "u64 list \<Rightarrow> u64 \<Rightarrow> nat multiset" where
  "slots_of funding v = mset (map fst (filter (\<lambda>p. snd p = v) (List.enumerate 0 funding)))"

definition parts_kept :: "u64 list \<Rightarrow> part_map \<Rightarrow> (nat \<times> u64) list \<Rightarrow> bool" where
  "parts_kept funding parts assigned \<longleftrightarrow>
     (\<forall>v. mset (parts v) + mset (map fst (filter (\<lambda>p. snd p = v) assigned)) = slots_of funding v)"

lemma initial_parts_kept: "parts_kept funding (initial_parts funding) []"
proof -
  have "mset (fold (\<lambda>(i, v) parts. parts(v := parts v @ [i])) ps parts0 v) =
      mset (parts0 v) + mset (map fst (filter (\<lambda>p. snd p = v) ps))" for ps v and parts0 :: part_map
    by (induction ps arbitrary: parts0) auto
  then show ?thesis by (simp add: parts_kept_def initial_parts_def slots_of_def rev_filter [symmetric] flip: rev_map)
qed

lemma take_keeps:
  assumes "take_part_index parts v = Ok (i, parts')" and "parts_kept funding parts assigned"
  shows "parts_kept funding parts' (assigned @ [(i, v)])"
proof -
  from assms(1) have i: "parts v \<noteq> []" "i = last (parts v)" "parts' = parts(v := butlast (parts v))"
    by (auto simp: take_part_index_def split: if_splits)
  then have "mset (parts v) = add_mset i (mset (parts' v))"
    by (metis append_butlast_last_id fun_upd_same mset_append add_mset_add_single mset_single_iff_right union_commute)
  note own = this
  show ?thesis
    unfolding parts_kept_def
  proof
    fix w
    have "mset (parts w) + mset (map fst (filter (\<lambda>p. snd p = w) assigned)) = slots_of funding w"
      using assms(2) by (simp add: parts_kept_def)
    then show "mset (parts' w) + mset (map fst (filter (\<lambda>p. snd p = w) (assigned @ [(i, v)]))) = slots_of funding w"
      using own i(3) by (cases "w = v") simp_all
  qed
qed

definition direct_pair :: "direct_migration_input \<Rightarrow> nat \<times> u64" where
  "direct_pair d = (direct_part_index d, direct_value_zatoshi d)"

definition output_pairs :: "split_stage_output list \<Rightarrow> (nat \<times> u64) list" where
  "output_pairs outs = List.map_filter (\<lambda>out. map_option (\<lambda>i. (i, output_value_zatoshi out)) (output_part_index out)) outs"

definition stage_pairs :: "split_stage_plan list \<Rightarrow> (nat \<times> u64) list" where
  "stage_pairs stages = concat (map (\<lambda>s. output_pairs (stage_outputs s)) stages)"

lemma output_pairs_snoc [simp]:
  "output_pairs [] = []"
  "output_pairs (outs @ [out]) = output_pairs outs @
     (case output_part_index out of None \<Rightarrow> [] | Some i \<Rightarrow> [(i, output_value_zatoshi out)])"
  by (simp_all add: output_pairs_def List.map_filter_def split: option.split)

lemma stage_pairs_snoc [simp]:
  "stage_pairs [] = []" "stage_pairs (stages @ [s]) = stage_pairs stages @ output_pairs (stage_outputs s)"
  by (simp_all add: stage_pairs_def)

lemma translate_direct_Ok:
  "translate_direct indices (acc, parts) d = Ok st \<Longrightarrow> \<exists>i k parts'. take_part_index parts (snd d) = Ok (k, parts')
     \<and> st = (acc @ [\<lparr>direct_input_index = i, direct_part_index = k, direct_value_zatoshi = snd d\<rparr>], parts')"
  by (cases d) (auto simp: translate_direct_def obind_eq_Ok)

lemma direct_keeps:
  "foldM (translate_direct indices) (acc, parts) ds = Ok (acc', parts') \<Longrightarrow>
     parts_kept funding parts (map direct_pair acc) \<Longrightarrow> parts_kept funding parts' (map direct_pair acc')"
proof (induction ds arbitrary: acc parts)
  case (Cons d ds)
  from Cons.prems(1) obtain i k parts1 where
    one: "take_part_index parts (snd d) = Ok (k, parts1)" and
    rest: "foldM (translate_direct indices) (acc @ [\<lparr>direct_input_index = i, direct_part_index = k,
       direct_value_zatoshi = snd d\<rparr>], parts1) ds = Ok (acc', parts')"
    by (auto simp: obind_eq_Ok dest!: translate_direct_Ok)
  from Cons.IH [OF rest] take_keeps [OF one Cons.prems(2)] show ?case by (simp add: direct_pair_def)
qed simp

lemma outputs_keep:
  "foldM translate_output (acc, parts) outs = Ok (acc', parts') \<Longrightarrow>
     parts_kept funding parts (before @ output_pairs acc) \<Longrightarrow>
     parts_kept funding parts' (before @ output_pairs acc')
     \<and> map output_value_zatoshi acc' = map output_value_zatoshi acc @ map output_value outs"
proof (induction outs arbitrary: acc parts)
  case (Cons out outs)
  from Cons.prems(1) obtain acc1 parts1 where
    one: "translate_output (acc, parts) out = Ok (acc1, parts1)" and
    rest: "foldM translate_output (acc1, parts1) outs = Ok (acc', parts')" by (auto simp: obind_eq_Ok)
  have "parts_kept funding parts1 (before @ output_pairs acc1)
      \<and> map output_value_zatoshi acc1 = map output_value_zatoshi acc @ [output_value out]"
  proof (cases out)
    case (Funding v)
    with one obtain i where take: "take_part_index parts v = Ok (i, parts1)"
      "acc1 = acc @ [\<lparr>output_value_zatoshi = v, output_kind = Migration, output_part_index = Some i\<rparr>]"
      by (auto simp: obind_eq_Ok)
    from take_keeps [OF take(1) Cons.prems(2)] take(2) Funding show ?thesis by simp
  qed (use one Cons.prems(2) in auto)
  with Cons.IH [OF rest] show ?case by simp
qed simp

section \<open>Stages\<close>

text \<open>
  A stage spends what it creates and one fee, fits the padded transaction, and spends only
  outputs of earlier stages, at their values.
\<close>

definition split_stage_ok :: "u64 \<Rightarrow> split_stage_plan list \<Rightarrow> nat \<Rightarrow> bool" where
  "split_stage_ok fee stages j \<longleftrightarrow>
     sum_list (map stage_input_value (stage_inputs (stages ! j)))
       = sum_list (map output_value_zatoshi (stage_outputs (stages ! j))) + fee
     \<and> stage_fee_zatoshi (stages ! j) = fee
     \<and> length (stage_inputs (stages ! j)) + length (stage_outputs (stages ! j)) \<le> DENOMINATION_SPLIT_ACTIONS
     \<and> (\<forall>k out v. PriorStage k out v \<in> set (stage_inputs (stages ! j)) \<longrightarrow>
          k < j \<and> stage_layer_index (stages ! k) < stage_layer_index (stages ! j)
          \<and> out < length (stage_outputs (stages ! k)) \<and> output_value_zatoshi (stage_outputs (stages ! k) ! out) = v)"

lemma split_stage_ok_append: "j < length stages \<Longrightarrow> split_stage_ok fee (stages @ later) j = split_stage_ok fee stages j"
  unfolding split_stage_ok_def by (fastforce simp: nth_append)

definition placed :: "layers \<Rightarrow> coordinate_map \<Rightarrow> split_stage_plan list \<Rightarrow> bool" where
  "placed layers coordinates stages \<longleftrightarrow> (\<forall>l t k. coordinates (l, t) = Some k \<longrightarrow>
     k < length stages \<and> stage_layer_index (stages ! k) = l
     \<and> map output_value_zatoshi (stage_outputs (stages ! k)) = map output_value (tx_outputs (layers ! l ! t)))"

definition translated :: "u64 list \<Rightarrow> u64 \<Rightarrow> layers \<Rightarrow> (nat \<times> u64) list \<Rightarrow> translation_state \<Rightarrow> bool" where
  "translated funding fee layers before = (\<lambda>(parts, coordinates, stages).
     parts_kept funding parts (before @ stage_pairs stages) \<and> placed layers coordinates stages
     \<and> (\<forall>j < length stages. split_stage_ok fee stages j))"

definition inputs_valid :: "u64 list \<Rightarrow> preparation_plan \<Rightarrow> bool" where
  "inputs_valid available plan \<longleftrightarrow> (\<forall>k < layer_count plan. \<forall>tx \<in> set (plan_layers plan ! k).
     \<forall>x \<in> set (tx_inputs tx). valid_input available plan k x)"

lemma translate_input_prior:
  assumes "translate_input indices coordinates x = Ok (PriorStage k out v)"
  shows "\<exists>l t. x = Prior l t out v \<and> coordinates (l, t) = Some k"
  using assms by (cases x) (auto simp: obind_eq_Ok ok_or_eq index_or_def split: if_splits)

lemma translate_transaction_keeps:
  assumes step: "translate_transaction indices fee l st (t, tx) = Ok st'"
    and inv: "translated funding fee (plan_layers plan) before st"
    and valid: "inputs_valid available plan" and l: "l < layer_count plan"
    and t: "t < length (plan_layers plan ! l)" "tx = plan_layers plan ! l ! t"
  shows "translated funding fee (plan_layers plan) before st'"
proof -
  obtain parts coordinates stages where st: "st = (parts, coordinates, stages)" by (cases st)
  from step obtain ins outs parts' where
    ins: "mapM (translate_input indices coordinates) (tx_inputs tx) = Ok ins" and
    outs: "foldM translate_output ([], parts) (tx_outputs tx) = Ok (outs, parts')" and
    fits: "length ins + length outs \<le> DENOMINATION_SPLIT_ACTIONS" and
    total: "sum_list (map stage_input_value ins) = sum_list (map output_value_zatoshi outs) + fee" and
    st': "st' = (parts', coordinates((l, t) \<mapsto> length stages),
      stages @ [\<lparr>stage_layer_index = l, stage_inputs = ins, stage_outputs = outs, stage_fee_zatoshi = fee,
                 requested_actions = length ins + length outs\<rparr>])"
    by (auto simp: translate_transaction_def st obind_eq_Ok ok_or_eq checked_add_Some try_sum_Ok split: if_splits)
  let ?s = "\<lparr>stage_layer_index = l, stage_inputs = ins, stage_outputs = outs, stage_fee_zatoshi = fee,
                 requested_actions = length ins + length outs\<rparr>"
  from inv have kept: "parts_kept funding parts (before @ stage_pairs stages)" and
    place: "placed (plan_layers plan) coordinates stages" and
    ok: "\<forall>j < length stages. split_stage_ok fee stages j"
    by (auto simp: translated_def st)
  from outputs_keep [OF outs, of funding "before @ stage_pairs stages"] kept have
    kept': "parts_kept funding parts' (before @ stage_pairs (stages @ [?s]))" and
    same_values: "map output_value_zatoshi outs = map output_value (tx_outputs tx)" by simp_all
  have place': "placed (plan_layers plan) (coordinates((l, t) \<mapsto> length stages)) (stages @ [?s])"
    using place same_values t(2) by (fastforce simp: placed_def nth_append)
  have prior: "k < length stages \<and> stage_layer_index (stages ! k) < l \<and> out < length (stage_outputs (stages ! k))
      \<and> output_value_zatoshi (stage_outputs (stages ! k) ! out) = v"
    if mem: "PriorStage k out v \<in> set ins" for k out v
  proof -
    from mapM_Ok_member [OF ins mem] obtain x where x: "x \<in> set (tx_inputs tx)"
      "translate_input indices coordinates x = Ok (PriorStage k out v)" by blast
    from translate_input_prior [OF x(2)] obtain pl pt where p: "x = Prior pl pt out v" "coordinates (pl, pt) = Some k"
      by blast
    have "tx \<in> set (plan_layers plan ! l)" using t by simp
    with valid l x(1) have "valid_input available plan l x" by (auto simp: inputs_valid_def)
    then have v: "pl < l" "out < length (tx_outputs (plan_layers plan ! pl ! pt))"
      "tx_outputs (plan_layers plan ! pl ! pt) ! out = Intermediate v" by (simp_all add: p)
    from place p(2) have k: "k < length stages" "stage_layer_index (stages ! k) = pl"
      "map output_value_zatoshi (stage_outputs (stages ! k)) = map output_value (tx_outputs (plan_layers plan ! pl ! pt))"
      by (auto simp: placed_def)
    from k(3) v(2) have "out < length (stage_outputs (stages ! k))" by (metis length_map)
    moreover from this v(2,3) k(3) have "output_value_zatoshi (stage_outputs (stages ! k) ! out) = v"
      by (metis nth_map output_value.simps(2))
    ultimately show ?thesis using k(1,2) v(1) by simp
  qed
  have "split_stage_ok fee (stages @ [?s]) (length stages)"
    using total fits prior by (auto simp: split_stage_ok_def nth_append)
  with ok have "\<forall>j < length (stages @ [?s]). split_stage_ok fee (stages @ [?s]) j"
    by (auto simp: less_Suc_eq split_stage_ok_append)
  with kept' place' show ?thesis by (simp add: translated_def st')
qed

lemma enumerate_mem: "(i, x) \<in> set (List.enumerate 0 xs) \<Longrightarrow> i < length xs \<and> xs ! i = x"
  by (auto simp: in_set_enumerate_eq)

lemma translate_layers_keeps:
  assumes "translate_layers indices fee st (plan_layers plan) = Ok st'"
    and "translated funding fee (plan_layers plan) before st" and valid: "inputs_valid available plan"
  shows "translated funding fee (plan_layers plan) before st'"
  using assms(1) unfolding translate_layers_def
proof (rule foldM_keeps [where P = "translated funding fee (plan_layers plan) before"])
  show "translated funding fee (plan_layers plan) before st" by (rule assms(2))
next
  fix p st1 st2
  assume p: "p \<in> set (List.enumerate 0 (plan_layers plan))" and inv: "translated funding fee (plan_layers plan) before st1"
    and "(case p of (layer_index, layer) \<Rightarrow>
      foldM (translate_transaction indices fee layer_index) st1 (List.enumerate 0 layer)) = Ok st2"
  moreover obtain l layer where "p = (l, layer)" by (cases p)
  ultimately have l: "l < layer_count plan" "plan_layers plan ! l = layer" and
    run: "foldM (translate_transaction indices fee l) st1 (List.enumerate 0 layer) = Ok st2"
    using enumerate_mem [of l layer "plan_layers plan"] by (simp_all add: layer_count_def)
  show "translated funding fee (plan_layers plan) before st2"
  using run inv
  proof (rule foldM_keeps [where P = "translated funding fee (plan_layers plan) before"])
    fix q s s' assume q: "q \<in> set (List.enumerate 0 layer)" and s: "translated funding fee (plan_layers plan) before s"
      "translate_transaction indices fee l s q = Ok s'"
    obtain t tx where "q = (t, tx)" by (cases q)
    with q s l(2) enumerate_mem [of t tx layer] show "translated funding fee (plan_layers plan) before s'"
      by (intro translate_transaction_keeps [OF _ s(1) valid l(1), of indices t tx]) auto
  qed
qed

lemma translate_layers_length:
  assumes "translate_layers indices fee (parts, coordinates, stages) layers = Ok (parts', coordinates', stages')"
  shows "length stages' = length stages + sum_list (map length layers)"
proof -
  have layer: "length (snd (snd st')) = length (snd (snd st)) + length txs"
    if "foldM (translate_transaction indices fee l) st (List.enumerate n txs) = Ok st'" for l st st' n txs
    using that
  proof (induction txs arbitrary: st n)
    case (Cons tx txs)
    then obtain st1 where st1: "translate_transaction indices fee l st (n, tx) = Ok st1"
      "foldM (translate_transaction indices fee l) st1 (List.enumerate (Suc n) txs) = Ok st'"
      by (auto simp: obind_eq_Ok)
    from st1(1) have "length (snd (snd st1)) = Suc (length (snd (snd st)))"
      by (cases st) (auto simp: translate_transaction_def obind_eq_Ok split: if_splits)
    with Cons.IH [OF st1(2)] show ?case by simp
  qed simp
  have "length (snd (snd st')) = length (snd (snd st)) + sum_list (map length layers)"
    if "foldM (\<lambda>st' (layer_index, layer). foldM (translate_transaction indices fee layer_index) st' (List.enumerate 0 layer))
       st (List.enumerate n layers) = Ok st'" for st st' n
    using that
  proof (induction layers arbitrary: st n)
    case (Cons txs layers)
    then obtain st1 where "foldM (translate_transaction indices fee n) st (List.enumerate 0 txs) = Ok st1"
      "foldM (\<lambda>st' (layer_index, layer). foldM (translate_transaction indices fee layer_index) st' (List.enumerate 0 layer))
         st1 (List.enumerate (Suc n) layers) = Ok st'" by (auto simp: obind_eq_Ok)
    from Cons.IH [OF this(2)] layer [OF this(1)] show ?case by simp
  qed simp
  from this [OF assms [unfolded translate_layers_def]] show ?thesis by simp
qed

section \<open>The translation\<close>

definition assigned_parts :: "padded_denomination_plan \<Rightarrow> (nat \<times> u64) list" where
  "assigned_parts p = map direct_pair (direct_migration_inputs p) @ stage_pairs (padded_stages p)"

lemma count_pairs:
  fixes A B :: "('a \<times> 'b) list"
  assumes "\<forall>v. mset (map fst (filter (\<lambda>p. snd p = v) A)) = mset (map fst (filter (\<lambda>p. snd p = v) B))"
  shows "mset A = mset B"
proof (rule multiset_eqI)
  fix x :: "'a \<times> 'b"
  obtain i v where x: "x = (i, v)" by (cases x)
  have "count (mset (map fst (filter (\<lambda>p. snd p = v) C))) i = count (mset C) (i, v)" for C :: "('a \<times> 'b) list"
    by (induction C) auto
  with assms show "count (mset A) x = count (mset B) x" unfolding x by metis
qed

lemma translate_plan:
  assumes run: "translate_preparation_plan plan d indices funding fee = Ok p" and valid: "inputs_valid available plan"
  shows "mset (assigned_parts p) = mset (List.enumerate 0 funding)"
    and "\<forall>j < length (padded_stages p). split_stage_ok fee (padded_stages p) j"
    and "length (padded_stages p) = transaction_count plan" and "padded_denominations p = d"
proof -
  from run obtain direct parts parts' coordinates stages where
    direct: "foldM (translate_direct indices) ([], initial_parts funding) (direct_funding plan) = Ok (direct, parts)" and
    layers: "translate_layers indices fee (parts, \<lambda>_. None, []) (plan_layers plan) = Ok (parts', coordinates, stages)" and
    empty: "\<forall>v \<in> set funding. parts' v = []" and
    p: "p = \<lparr>padded_denominations = d, padded_stages = stages, padded_layer_count = layer_count plan,
             direct_migration_inputs = sort_key direct_part_index direct\<rparr>"
    by (auto simp: translate_preparation_plan_def obind_eq_Ok list_ex_iff split: if_splits)
  have "parts_kept funding parts (map direct_pair direct)"
    using direct_keeps [OF direct, of funding] initial_parts_kept by simp
  then have "translated funding fee (plan_layers plan) (map direct_pair direct) (parts, \<lambda>_. None, [])"
    by (simp add: translated_def placed_def)
  from translate_layers_keeps [OF layers this valid]
  have kept: "parts_kept funding parts' (map direct_pair direct @ stage_pairs stages)" and
    ok: "\<forall>j < length stages. split_stage_ok fee stages j" by (auto simp: translated_def)
  have used: "mset (parts' v) = {#}" for v
  proof (cases "v \<in> set funding")
    case False
    then have "slots_of funding v = {#}" by (auto simp: slots_of_def filter_empty_conv in_set_enumerate_eq)
    moreover have "mset (parts' v) + mset (map fst (filter (\<lambda>p. snd p = v) (map direct_pair direct @ stage_pairs stages)))
        = slots_of funding v"
      using kept by (simp only: parts_kept_def)
    ultimately show ?thesis by (simp only: union_eq_empty)
  qed (simp add: empty)
  have "mset (map direct_pair direct @ stage_pairs stages) = mset (List.enumerate 0 funding)"
    by (rule count_pairs) (use kept used in \<open>simp add: parts_kept_def slots_of_def\<close>)
  moreover have "mset (map direct_pair (sort_key direct_part_index direct)) = mset (map direct_pair direct)" by simp
  ultimately show "mset (assigned_parts p) = mset (List.enumerate 0 funding)"
    by (simp add: assigned_parts_def p)
  show "\<forall>j < length (padded_stages p). split_stage_ok fee (padded_stages p) j" using ok by (simp add: p)
  show "length (padded_stages p) = transaction_count plan"
    using translate_layers_length [OF layers] by (simp add: p transaction_count_def)
  show "padded_denominations p = d" by (simp add: p)
qed

lemma plan_inputs_valid:
  assumes "plan_preparation E available funding fee = Ok plan"
  shows "inputs_valid available plan"
proof -
  from assms obtain used remaining where
    ext: "extract_direct_funding E available (positive_desc funding) = Ok (used, direct_funding plan, remaining)"
    and ok: "plan_ok fee (free_notes available used) remaining (plan_layers plan)" by (rule plan_spec)
  note ext = extract_direct_Ok [OF ext]
  from ok have wired: "wired (free_notes available used) (plan_layers plan)" by (simp add: plan_ok_def)
  show ?thesis
    unfolding inputs_valid_def
  proof (intro allI impI ballI)
    fix k tx x assume "k < layer_count plan" "tx \<in> set (plan_layers plan ! k)" "x \<in> set (tx_inputs tx)"
    with wired have "x \<in> free_notes available used \<or> note_exists (take k (plan_layers plan)) x"
      by (auto simp: wired_def layer_count_def)
    then show "valid_input available plan k x" using ext(2) by (cases x) (auto simp: free_notes_def)
  qed
qed

section \<open>The planner\<close>

text \<open>What \<open>finish_plan\<close> makes of accepted crossings.\<close>

definition change_or_0 :: "denomination_plan \<Rightarrow> u64" where
  "change_or_0 d = (case orchard_change d of None \<Rightarrow> 0 | Some c \<Rightarrow> c)"

definition padded_ok :: "u64 \<Rightarrow> u64 \<Rightarrow> u64 \<Rightarrow> padded_denomination_plan \<Rightarrow> bool" where
  "padded_ok balance fee mfee p \<longleftrightarrow>
     (let outs = migration_outputs (padded_denominations p); d = padded_denominations p in
      sorted_wrt (\<ge>) outs \<and> (\<forall>v \<in> set outs. is_zip318_canonical_denomination v)
      \<and> mset (assigned_parts p) = mset (List.enumerate 0 (map (\<lambda>v. v + mfee) outs))
      \<and> split_fee_zatoshi d = fee * length (padded_stages p)
      \<and> balance = sum_list outs + mfee * length outs + split_fee_zatoshi d + change_or_0 d
      \<and> (\<forall>j < length (padded_stages p). split_stage_ok fee (padded_stages p) j))"

lemma sort_key_desc: "sorted_wrt (\<ge>) (map fst (sort_key (\<lambda>(c, f). - int c) ps))"
proof -
  have "sorted (map (\<lambda>(c, f). - int c) (sort_key (\<lambda>(c, f). - int c) ps))" by simp
  then show ?thesis
    by (simp add: sorted_map sorted_wrt_map case_prod_beta)
qed

lemma sum_plus_fee: "sum_list (map (\<lambda>v. v + c) xs) = sum_list xs + c * length xs" for c :: nat
  by (induction xs) auto

lemma finish_plan_ok:
  assumes run: "finish_plan ctx crossings funding plan fee mfee 1 = Ok (Some p)"
    and funding: "funding = map (\<lambda>c. c + mfee) crossings" and valid: "inputs_valid available plan"
    and canon: "\<forall>v \<in> set crossings. is_zip318_canonical_denomination v"
  shows "padded_ok (context_total_input ctx) fee mfee p"
    and "mset (migration_outputs (padded_denominations p)) = mset crossings"
    and "sorted_wrt (\<ge>) crossings \<Longrightarrow> migration_outputs (padded_denominations p) = crossings"
proof -
  define pairs where "pairs = sort_key (\<lambda>(c, f). - int c) (zip crossings funding)"
  have sizes: "(crossings = []) = False" "(length crossings \<noteq> length funding) = False"
    using run by (auto simp: finish_plan_def split: if_splits)
  from run obtain split_fee funding_total remaining total_migratable where
    split_fee: "checked_mul u64_max fee (transaction_count plan) = Some split_fee" and
    funding_total: "try_sum FundingTotalOverflow (map snd pairs) = Ok funding_total" and
    rest: "Option.bind (checked_sub (context_total_input ctx) funding_total) (\<lambda>v. checked_sub v split_fee) = Some remaining" and
    translate1: "translate_preparation_plan plan
      \<lparr>migration_outputs = map fst pairs, orchard_change = (if remaining \<ge> 1 then Some remaining else None),
       split_fee_zatoshi = split_fee, migration_fee_zatoshi = mfee,
       total_input_zatoshi = context_total_input ctx, total_migratable_zatoshi = total_migratable\<rparr>
      (positive_input_indices ctx) (map snd pairs) fee = Ok p"
    unfolding finish_plan_def pairs_def [symmetric] Let_def sizes if_False
    by (simp only: obind_eq_Ok ok_or_eq outcome.inject option.inject) blast
  have fee_value: "split_fee = fee * transaction_count plan" using split_fee by (simp add: checked_mul_Some)
  have remaining: "context_total_input ctx = sum_list (map snd pairs) + fee * transaction_count plan + remaining"
    using funding_total rest by (auto simp: try_sum_Ok checked_sub_Some bind_eq_Some_conv fee_value)
  note translate = translate1 [unfolded fee_value]
  have pair: "snd q = fst q + mfee" if "q \<in> set pairs" for q
    using that unfolding pairs_def funding by (auto simp: set_zip)
  have fundings: "map snd pairs = map (\<lambda>v. v + mfee) (map fst pairs)" using pair by simp
  have same: "mset (map fst pairs) = mset crossings"
  proof -
    have "mset (map fst pairs) = mset (map fst (zip crossings funding))" by (simp add: pairs_def)
    then show ?thesis by (simp add: funding)
  qed
  note facts = translate_plan [OF translate valid]
  have outs: "migration_outputs (padded_denominations p) = map fst pairs" by (simp add: facts(4))
  show "padded_ok (context_total_input ctx) fee mfee p"
    unfolding padded_ok_def Let_def outs
  proof (intro conjI)
    show "sorted_wrt (\<ge>) (map fst pairs)" unfolding pairs_def by (rule sort_key_desc)
    show "\<forall>v \<in> set (map fst pairs). is_zip318_canonical_denomination v"
      using canon same by (metis set_mset_mset)
    show "mset (assigned_parts p) = mset (List.enumerate 0 (map (\<lambda>v. v + mfee) (map fst pairs)))"
      using facts(1) fundings by simp
    show "split_fee_zatoshi (padded_denominations p) = fee * length (padded_stages p)" by (simp add: facts(3,4))
    show "context_total_input ctx = sum_list (map fst pairs) + mfee * length (map fst pairs)
        + split_fee_zatoshi (padded_denominations p) + change_or_0 (padded_denominations p)"
      using remaining unfolding fundings sum_plus_fee by (simp add: facts(4) change_or_0_def)
    show "\<forall>j < length (padded_stages p). split_stage_ok fee (padded_stages p) j" by (rule facts(2))
  qed
  show "mset (migration_outputs (padded_denominations p)) = mset crossings" using same by (simp add: outs)
  assume sorted: "sorted_wrt (\<ge>) crossings"
  have "sorted (rev (map fst pairs))" "sorted (rev crossings)"
    using sort_key_desc [of "zip crossings funding"] sorted by (simp_all add: pairs_def sorted_wrt_rev)
  moreover have "mset (rev (map fst pairs)) = mset (rev crossings)" using same by simp
  ultimately have "rev (map fst pairs) = rev crossings" by (metis properties_for_sort)
  then show "migration_outputs (padded_denominations p) = crossings" by (simp add: outs)
qed

text \<open>The loop over the denominations: what it holds is empty or affordable and canonical.\<close>

definition accepted :: "planner_env \<Rightarrow> planning_context \<Rightarrow> u64 \<Rightarrow> u64 \<Rightarrow> u64 list \<times> u64 list \<times> preparation_plan \<Rightarrow> bool" where
  "accepted E ctx fee mfee = (\<lambda>(crossings, funding, plan). crossings = []
     \<or> preparation_for_crossings E ctx crossings fee mfee = Ok (Some (funding, plan))
       \<and> (\<forall>v \<in> set crossings. is_zip318_canonical_denomination v))"

lemma denominations_loop_accepted:
  "denominations_loop E refine ctx m fee mfee crossings funding plan rng = Ok (result, rng') \<Longrightarrow>
     accepted E ctx fee mfee (crossings, funding, plan) \<Longrightarrow> accepted E ctx fee mfee result"
proof (induction E refine ctx m fee mfee crossings funding plan rng rule: denominations_loop.induct)
  case (1 E refine ctx m fee mfee crossings funding plan rng)
  from "1.prems"(1) obtain committed where committed: "committed_value funding plan fee = Ok committed"
    by (subst (asm) denominations_loop.simps) (auto split: outcome.splits)
  let ?budget = "saturating_sub (context_total_input ctx) committed"
  show ?case
  proof (cases "?budget < m")
    case True
    with "1.prems" committed show ?thesis
      by (subst (asm) denominations_loop.simps) (auto simp: Let_def)
  next
    case False
    with "1.prems"(1) committed obtain affordable where affordable: "checked_sub ?budget mfee = Some affordable"
      by (subst (asm) denominations_loop.simps) (auto simp: Let_def split: option.splits)
    let ?inner = "affordable_loop E refine ctx fee mfee crossings (min affordable ZIP318_MAX_MIGRATION_DENOMINATION_ZATOSHI) rng"
    show ?thesis
    proof (cases ?inner)
      case (Ok res)
      obtain found rng1 where res: "res = (found, rng1)" by (cases res)
      show ?thesis
      proof (cases found)
        case None
        with "1.prems" committed affordable False Ok res show ?thesis
          by (subst (asm) denominations_loop.simps) (auto simp: Let_def)
      next
        case (Some triple)
        obtain crossings' funding' plan' where triple: "triple = (crossings', funding', plan')" by (cases triple)
        note inner = Ok [unfolded res Some triple]
        have rest: "denominations_loop E refine ctx m fee mfee crossings' funding' plan' rng1 = Ok (result, rng')"
          using "1.prems"(1) committed affordable False inner
          by (subst (asm) denominations_loop.simps) (simp add: Let_def)
        from affordable_loop_Some [OF inner] obtain c d where
          c: "preparation_for_crossings E ctx crossings' fee mfee = Ok (Some (funding', plan'))"
          "crossings' = crossings @ c" "good_candidate d c" by blast
        have "\<forall>v \<in> set crossings. is_zip318_canonical_denomination v"
          using "1.prems"(2) by (auto simp: accepted_def)
        with c have "accepted E ctx fee mfee (crossings', funding', plan')"
          by (auto simp: accepted_def good_candidate_def)
        from "1.IH" [OF committed refl False affordable inner refl refl refl refl rest this] show ?thesis .
      qed
    qed (use "1.prems"(1) committed affordable False in \<open>subst (asm) denominations_loop.simps, simp add: Let_def\<close>)+
  qed
qed

lemma finish_nonempty: "finish_plan ctx crossings funding plan fee mfee m = Ok (Some p) \<Longrightarrow> crossings \<noteq> []"
  by (auto simp: finish_plan_def)

lemma context_facts:
  assumes "planning_context_of E input_values fee m = Ok (Some ctx)"
  shows "context_total_input ctx = sum_list input_values" and "m = 1"
proof -
  let ?indices = "map fst (filter (\<lambda>(index, v). v > 0) (List.enumerate 0 input_values))"
  have positive: "map (\<lambda>index. input_values ! index) ?indices = filter (\<lambda>v. v > 0) input_values"
  proof -
    have "map (\<lambda>i. xs ! (i - n)) (map fst (filter (\<lambda>(i, v). v > 0) (List.enumerate n xs))) = filter (\<lambda>v. v > 0) xs"
      for xs :: "u64 list" and n
    proof (induction xs arbitrary: n)
      case (Cons x xs)
      have later: "map (\<lambda>i. (x # xs) ! (i - n)) (map fst (filter (\<lambda>(i, v). v > 0) (List.enumerate (Suc n) xs))) =
          map (\<lambda>i. xs ! (i - Suc n)) (map fst (filter (\<lambda>(i, v). v > 0) (List.enumerate (Suc n) xs)))"
        by (auto simp: in_set_enumerate_eq nth_Cons')
      show ?case using Cons.IH [of "Suc n"] later by auto
    qed simp
    from this [where n = 0] show ?thesis by simp
  qed
  have "sum_list (filter (\<lambda>v. v > 0) xs) = sum_list xs" for xs :: "u64 list"
    by (induction xs) auto
  with assms positive show "context_total_input ctx = sum_list input_values"
    by (auto simp: planning_context_of_def Let_def obind_eq_Ok try_sum_Ok split: if_splits)
  from assms show "m = 1"
    by (auto simp: planning_context_of_def Let_def split: if_splits)
qed

lemma refiner_plan:
  assumes "plan_padded_denominations_with_refiner E refine input_values fee mfee m rng = Ok (Some p)"
  shows "padded_ok (sum_list input_values) fee mfee p"
proof -
  from assms obtain ctx where ctx: "planning_context_of E input_values fee m = Ok (Some ctx)"
    by (auto simp: plan_padded_denominations_with_refiner_def obind_eq_Ok split: option.splits)
  with assms obtain minimum crossings funding plan rng' where
    loop: "denominations_loop E refine ctx minimum fee mfee [] [] \<lparr>plan_layers = [], direct_funding = []\<rparr> rng
      = Ok ((crossings, funding, plan), rng')" and
    finish: "finish_plan ctx crossings funding plan fee mfee m = Ok (Some p)"
    by (auto simp: plan_padded_denominations_with_refiner_def obind_eq_Ok)
  have "accepted E ctx fee mfee (crossings, funding, plan)"
    by (rule denominations_loop_accepted [OF loop]) (simp add: accepted_def)
  with finish_nonempty [OF finish] have
    acc: "preparation_for_crossings E ctx crossings fee mfee = Ok (Some (funding, plan))"
      "\<forall>v \<in> set crossings. is_zip318_canonical_denomination v" by (auto simp: accepted_def)
  note prep = preparation_for_crossings_Some [OF acc(1)]
  from finish_plan_ok(1) [OF finish [unfolded context_facts(2) [OF ctx]] prep(1) plan_inputs_valid [OF prep(2)] acc(2)]
  show ?thesis by (simp add: context_facts(1) [OF ctx])
qed

lemma find_noncanonical_None: "find_noncanonical vs = None \<longleftrightarrow> (\<forall>v \<in> set vs. is_zip318_canonical_denomination v)"
  by (induction vs) auto

lemma non_increasing_sorted: "non_increasing vs \<longleftrightarrow> sorted_wrt (\<ge>) vs"
  using le_trans by (induction vs rule: non_increasing.induct) fastforce+

lemma targets_plan:
  assumes "plan_padded_denominations_for_targets E input_values targets fee mfee m = Ok (Some p)"
  shows "padded_ok (sum_list input_values) fee mfee p \<and> migration_outputs (padded_denominations p) = targets"
proof -
  from assms have targets: "find_noncanonical targets = None" "non_increasing targets"
    by (auto simp: plan_padded_denominations_for_targets_def split: if_splits option.splits)
  with assms obtain ctx where ctx: "planning_context_of E input_values fee m = Ok (Some ctx)"
    by (auto simp: plan_padded_denominations_for_targets_def obind_eq_Ok split: if_splits option.splits)
  with assms targets obtain funding plan where
    acc: "preparation_for_crossings E ctx targets fee mfee = Ok (Some (funding, plan))" and
    finish: "finish_plan ctx targets funding plan fee mfee m = Ok (Some p)"
    by (auto simp: plan_padded_denominations_for_targets_def obind_eq_Ok split: if_splits option.splits)
  note prep = preparation_for_crossings_Some [OF acc]
  note ok = finish_plan_ok [OF finish [unfolded context_facts(2) [OF ctx]] prep(1) plan_inputs_valid [OF prep(2)]
      targets(1) [unfolded find_noncanonical_None]]
  from ok(1,3) targets(2) show ?thesis by (simp add: context_facts(1) [OF ctx] non_increasing_sorted)
qed

section \<open>Properties\<close>

lemmas split_eval = planning_context_of_def preparation_for_crossings_def committed_value_def zat_or_def
  try_sum_def checked_mul_def finish_plan_def translate_preparation_plan_def translate_layers_def translate_direct_def
  initial_parts_def take_part_index_def index_or_def transaction_count_def layer_count_def
  can_append_canonical_denomination_def saturating_sub_def denomination_constants

text \<open>
  C8: A plan the denomination planner returns, whatever the refinement draws: its outputs are
  canonical denominations in descending order, every one of them gets exactly one note of its
  value plus the migration fee (a wallet note or a stage output), the stages conserve value, fit
  the padded transaction and spend only earlier stages, and outputs, fees and change add up to
  the wallet's balance.
\<close>

theorem split_plan_sound:
  assumes "plan_padded_denominations_with_refiner E refine input_values fee mfee minimum_output rng = Ok (Some p)"
  shows "padded_ok (sum_list input_values) fee mfee p"
  by (rule refiner_plan [OF assms])

text \<open>
  Planning for approved denominations never changes them: a plan for a list of targets has
  exactly these targets as its outputs, in their order, and is sound like every other plan.
\<close>

theorem approved_targets_kept:
  assumes "plan_padded_denominations_for_targets E input_values targets fee mfee minimum_output = Ok (Some p)"
  shows "migration_outputs (padded_denominations p) = targets \<and> padded_ok (sum_list input_values) fee mfee p"
  using targets_plan [OF assms] by blast

lemma centi_canonical: "is_zip318_canonical_denomination 1000000"
  by (simp add: is_canonical_iff canonical_denominations_def)

lemma centi_largest: "largest_zip318_denomination_at_or_below 1000000 = Some 1000000"
  using centi_canonical by (simp add: is_zip318_canonical_denomination_def)

definition centi_plan :: padded_denomination_plan where
  "centi_plan = \<lparr>padded_denominations = \<lparr>migration_outputs = [1000000], orchard_change = None, split_fee_zatoshi = 0,
        migration_fee_zatoshi = 10000, total_input_zatoshi = 1010000, total_migratable_zatoshi = 1000000\<rparr>,
      padded_stages = [], padded_layer_count = 0,
      direct_migration_inputs = [\<lparr>direct_input_index = 0, direct_part_index = 0, direct_value_zatoshi = 1010000\<rparr>]\<rparr>"

lemma centi_targets:
  "plan_padded_denominations_for_targets reference_env [1010000] [1000000] 10000 10000 1 = Ok (Some centi_plan)"
  by (simp add: plan_padded_denominations_for_targets_def split_eval planner_eval Let_def centi_canonical centi_plan_def)

theorem approved_targets_kept_witness:
  "migration_outputs (padded_denominations centi_plan) = [1000000] \<and> padded_ok 1010000 10000 10000 centi_plan"
  using approved_targets_kept [OF centi_targets] by simp

lemma centi_planned:
  "plan_padded_denominations_with_refiner reference_env (\<lambda>r v. (leaf v, r)) [1010000] 10000 10000 1 () = Ok (Some centi_plan)"
  unfolding plan_padded_denominations_with_refiner_def
  by (subst denominations_loop.simps, subst affordable_loop.simps)
    (simp add: split_eval planner_eval Let_def centi_canonical centi_largest centi_plan_def leaf_def u64_max_def,
     subst denominations_loop.simps, simp add: split_eval planner_eval Let_def)

theorem split_plan_sound_witness:
  "padded_ok 1010000 10000 10000 centi_plan"
  using split_plan_sound [OF centi_planned] by simp

end
