(* ===== verification/Schedule.thy ===== *)
theory Schedule
  imports Policy
begin

text \<open>
  \<open>rust/src/wallet/sync/migration/schedule.rs\<close> and \<open>schedule_block_offset_for_part\<close> of
  \<open>migration.rs\<close>: drawing the broadcast schedule of the migration parts, validating an
  approved schedule, and reading a part's offset back from it.

  What the random draws use from outside the repository is the record \<open>rng_env\<close>: the next
  64-bit word of the generator, the permutation \<open>shuffle\<close> applies to a vector of a given
  length, and the rounded exponential delay of a 53-bit mantissa \<open>m\<close>, which the code computes
  in floating point as \<open>-ln(1 - m / 2^53) * mean\<close>. A loop that redraws until the delay is in
  range returns \<open>None\<close> when it never ends.
\<close>

record 'r rng_env =
  next_u64 :: "'r \<Rightarrow> u64 \<times> 'r"
  delay_of :: "u64 \<Rightarrow> u32 \<Rightarrow> u32"
  shuffle_perm :: "'r \<Rightarrow> nat \<Rightarrow> nat list \<times> 'r"

text \<open>What the documentation of the generator promises.\<close>

locale rng_contract =
  fixes G :: "'r rng_env"
  assumes shuffle_permutes: "mset (fst (shuffle_perm G rng n)) = mset [0..<n]"
    and delay_zero: "delay_of G 0 mean = 0"
begin

lemma shuffle_facts:
  "length (fst (shuffle_perm G rng n)) = n" "set (fst (shuffle_perm G rng n)) = {0..<n}"
  "distinct (fst (shuffle_perm G rng n))"
proof -
  show "length (fst (shuffle_perm G rng n)) = n"
    using arg_cong [OF shuffle_permutes, of size rng n] by simp
  show "set (fst (shuffle_perm G rng n)) = {0..<n}"
    using arg_cong [OF shuffle_permutes, of set_mset rng n] by simp
  show "distinct (fst (shuffle_perm G rng n))"
    by (metis shuffle_permutes distinct_upt mset_eq_imp_distinct_iff)
qed

lemma shuffle_mset: "mset (map ((!) xs) (fst (shuffle_perm G rng (length xs)))) = mset xs"
proof -
  have "mset (map ((!) xs) (fst (shuffle_perm G rng (length xs)))) = image_mset ((!) xs) (mset [0..<length xs])"
    by (simp add: shuffle_permutes)
  also have "\<dots> = mset xs" by (metis map_nth mset_map)
  finally show ?thesis .
qed

end

section \<open>Drawing\<close>

record schedule_entry =
  part_index :: "u32 option"
  value_zatoshi :: u64
  block_offset :: u32

definition draw_delay_once :: "'r rng_env \<Rightarrow> u32 \<Rightarrow> 'r \<Rightarrow> u32 \<times> 'r" where
  "draw_delay_once G mean rng =
     (delay_of G (fst (next_u64 G rng) div 2 ^ 11) mean, snd (next_u64 G rng))"

partial_function (option) draw_delay :: "'r rng_env \<Rightarrow> u32 \<Rightarrow> u32 \<Rightarrow> 'r \<Rightarrow> (u32 \<times> 'r) option" where
  "draw_delay G mean max_delay rng =
     (if fst (draw_delay_once G mean rng) \<le> max_delay then Some (draw_delay_once G mean rng)
      else draw_delay G mean max_delay (snd (draw_delay_once G mean rng)))"

fun draw_offsets :: "'r rng_env \<Rightarrow> nat \<Rightarrow> u32 \<Rightarrow> u32 \<Rightarrow> u32 \<Rightarrow> 'r \<Rightarrow> (u32 list \<times> 'r) option" where
  "draw_offsets G 0 mean max_delay elapsed rng = Some ([], rng)"
| "draw_offsets G (Suc n) mean max_delay elapsed rng =
     Option.bind (draw_delay G mean max_delay rng) (\<lambda>(delay, rng').
     let elapsed' = saturating_add u32_max elapsed delay in
     Option.bind (draw_offsets G n mean max_delay elapsed' rng') (\<lambda>(offsets, rng'').
       Some (elapsed' # offsets, rng'')))"

definition random_schedule_block_offsets_with_rng ::
    "'r rng_env \<Rightarrow> nat \<Rightarrow> u32 \<Rightarrow> u32 \<Rightarrow> 'r \<Rightarrow> (schedule_error, u32 list \<times> 'r) outcome option" where
  "random_schedule_block_offsets_with_rng G n mean max_delay rng =
     (if mean = 0 \<or> max_delay = 0 then Some Panic
      else map_option Ok (draw_offsets G n mean max_delay 0 rng))"

definition planned_transfer_schedule_for_parts_with_policy ::
    "'r rng_env \<Rightarrow> (u32 \<times> u64) list \<Rightarrow> wallet_network \<Rightarrow> timing_policy \<Rightarrow> 'r \<Rightarrow>
      (schedule_error, schedule_entry list) outcome option" where
  "planned_transfer_schedule_for_parts_with_policy G parts network policy rng =
     (let (perm, rng') = shuffle_perm G rng (length parts);
          shuffled = map ((!) parts) perm;
          (mean, max_delay) = schedule_parameters_with_policy_for_part_count network policy (length shuffled)
      in map_option (\<lambda>drawn. obind drawn (\<lambda>(offsets, rng'').
           Ok (map (\<lambda>((index, v), offset).
                 \<lparr>part_index = Some index, value_zatoshi = v, block_offset = offset\<rparr>) (zip shuffled offsets))))
         (random_schedule_block_offsets_with_rng G (length shuffled) mean max_delay rng'))"

definition indexed_parts :: "u64 list \<Rightarrow> (u32 \<times> u64) list" where
  "indexed_parts values = map (\<lambda>(i, v). (i mod 2 ^ 32, v)) (List.enumerate 0 values)"

definition planned_transfer_schedule_with_policy ::
    "'r rng_env \<Rightarrow> u64 list \<Rightarrow> wallet_network \<Rightarrow> timing_policy \<Rightarrow> 'r \<Rightarrow>
      (schedule_error, schedule_entry list) outcome option" where
  "planned_transfer_schedule_with_policy G values network policy rng =
     planned_transfer_schedule_for_parts_with_policy G (indexed_parts values) network policy rng"

definition planned_transfer_schedule ::
    "'r rng_env \<Rightarrow> policy_state \<Rightarrow> u64 list \<Rightarrow> wallet_network \<Rightarrow> 'r \<Rightarrow>
      (schedule_error, schedule_entry list) outcome option" where
  "planned_transfer_schedule G st values network rng =
     planned_transfer_schedule_for_parts_with_policy G (indexed_parts values) network
       (configured_timing_policy st network) rng"

section \<open>Reading an offset back\<close>

definition schedule_block_offset_for_part ::
    "schedule_entry list \<Rightarrow> u64 list \<Rightarrow> u32 \<Rightarrow> u64 \<Rightarrow> u32 option" where
  "schedule_block_offset_for_part schedule target_values part v =
     (if list_all (\<lambda>entry. part_index entry \<noteq> None) schedule then
        map_option block_offset
          (find (\<lambda>entry. part_index entry = Some part \<and> value_zatoshi entry = v) schedule)
      else if \<not> (part < length target_values \<and> target_values ! part = v) then None
      else let rank = length (filter (\<lambda>w. w = v) (take part target_values));
               same = filter (\<lambda>entry. value_zatoshi entry = v) schedule
           in if rank < length same then Some (block_offset (same ! rank)) else None)"

text \<open>\<open>assigned[slot] = offset\<close> for the shuffled slots.\<close>

definition assign_slots :: "nat list \<Rightarrow> u32 list \<Rightarrow> nat \<Rightarrow> u32 list" where
  "assign_slots slots offsets n =
     fold (\<lambda>(slot, offset) assigned. assigned[slot := offset]) (zip slots offsets) (replicate n 0)"

definition rebuild_schedule_block_offsets ::
    "'r rng_env \<Rightarrow> schedule_entry list \<Rightarrow> u64 list \<Rightarrow> (u32 \<times> u64) list \<Rightarrow> wallet_network \<Rightarrow>
      timing_policy \<Rightarrow> 'r \<Rightarrow> (schedule_error, u32 list) outcome option" where
  "rebuild_schedule_block_offsets G schedule target_values recoveries network policy rng =
     (if list_all (\<lambda>(part, v). schedule_block_offset_for_part schedule target_values part v \<noteq> None) recoveries
      then let (mean, max_delay) = schedule_parameters_with_policy network policy in
        map_option (\<lambda>drawn. obind drawn (\<lambda>(offsets, rng').
            Ok (assign_slots (fst (shuffle_perm G rng' (length recoveries))) offsets (length recoveries))))
          (random_schedule_block_offsets_with_rng G (length recoveries) mean max_delay rng)
      else Some (Err ScheduleMissingRecoveryChild))"

section \<open>Validating\<close>

fun fill_targets :: "schedule_entry list \<Rightarrow> u64 option list \<Rightarrow> (schedule_error, u64 option list) outcome" where
  "fill_targets [] slots = Ok slots"
| "fill_targets (entry # entries) slots =
     obind (expect (part_index entry)) (\<lambda>part.
       if part \<ge> length slots then Err SchedulePartIndexOutside
       else if slots ! part \<noteq> None then Err SchedulePartIndexDuplicated
       else fill_targets entries (slots[part := Some (value_zatoshi entry)]))"

definition target_values_from_schedule :: "schedule_entry list \<Rightarrow> (schedule_error, u64 list) outcome" where
  "target_values_from_schedule schedule =
     (if schedule = [] then Ok []
      else if list_all (\<lambda>entry. part_index entry = None) schedule then Err SchedulePartsNotIdentified
      else if list_ex (\<lambda>entry. part_index entry = None) schedule then Err SchedulePartIndexesIncomplete
      else obind (fill_targets schedule (replicate (length schedule) None)) (\<lambda>slots.
        mapM (\<lambda>slot. ok_or slot SchedulePartIndexesIncomplete) slots))"

fun check_part_indexes ::
    "u64 list \<Rightarrow> u32 list \<Rightarrow> schedule_entry list \<Rightarrow> (schedule_error, unit) outcome" where
  "check_part_indexes target_values seen [] = Ok ()"
| "check_part_indexes target_values seen (entry # entries) =
     obind (ok_or (part_index entry) SchedulePartIndexesIncomplete) (\<lambda>part.
       if part \<ge> length target_values then Err SchedulePartIndexOutside
       else if part \<in> set seen then Err SchedulePartIndexDuplicated
       else if target_values ! part \<noteq> value_zatoshi entry then Err SchedulePartValueChanged
       else check_part_indexes target_values (part # seen) entries)"

definition validate_schedule_part_indexes ::
    "schedule_entry list \<Rightarrow> u64 list \<Rightarrow> (schedule_error, unit) outcome" where
  "validate_schedule_part_indexes schedule target_values =
     (if list_all (\<lambda>entry. part_index entry = None) schedule then Ok ()
      else if list_ex (\<lambda>entry. part_index entry = None) schedule then Err SchedulePartIndexesIncomplete
      else check_part_indexes target_values [] schedule)"

fun check_gaps :: "u32 \<Rightarrow> u32 \<Rightarrow> schedule_entry list \<Rightarrow> (schedule_error, unit) outcome" where
  "check_gaps max_delay previous [] = Ok ()"
| "check_gaps max_delay previous (entry # entries) =
     obind (ok_or (checked_sub (block_offset entry) previous) ScheduleNotOrdered) (\<lambda>gap.
       if gap > max_delay then Err ScheduleDelayOutsidePolicy
       else check_gaps max_delay (block_offset entry) entries)"

definition validate_schedule_with_policy ::
    "schedule_entry list \<Rightarrow> u64 list \<Rightarrow> wallet_network \<Rightarrow> timing_policy \<Rightarrow> (schedule_error, unit) outcome"
where
  "validate_schedule_with_policy schedule target_values network policy =
     (if length schedule \<noteq> length target_values then Err ScheduleCountChanged
      else if sort (map value_zatoshi schedule) \<noteq> sort target_values then Err ScheduleValuesChanged
      else obind (validate_schedule_part_indexes schedule target_values) (\<lambda>_.
        check_gaps (snd (schedule_parameters_with_policy network policy)) 0 schedule))"

definition validate_schedule ::
    "policy_state \<Rightarrow> schedule_entry list \<Rightarrow> u64 list \<Rightarrow> wallet_network \<Rightarrow> (schedule_error, unit) outcome" where
  "validate_schedule st schedule target_values network =
     validate_schedule_with_policy schedule target_values network (configured_timing_policy st network)"

end
