(* ===== verification/ScheduleProps.thy ===== *)
theory ScheduleProps
  imports Schedule
begin

text \<open>
  Properties of the broadcast schedule: drawing stays within the policy and returns, what
  validation accepts, the round trip of the target values, and that every part of a validated
  schedule has an offset.
\<close>

section \<open>Offsets\<close>

text \<open>Ascending offsets with no gap above \<open>max_delay\<close>, counted from \<open>previous\<close>.\<close>

fun gaps_ok :: "u32 \<Rightarrow> u32 \<Rightarrow> u32 list \<Rightarrow> bool" where
  "gaps_ok max_delay previous [] \<longleftrightarrow> True"
| "gaps_ok max_delay previous (offset # offsets) \<longleftrightarrow>
     previous \<le> offset \<and> offset - previous \<le> max_delay \<and> gaps_ok max_delay offset offsets"

lemma check_gaps_iff: "check_gaps max_delay previous es = Ok () \<longleftrightarrow> gaps_ok max_delay previous (map block_offset es)"
  by (induction es arbitrary: previous) (auto simp: outcome_simps)

lemma draw_delay_le: "draw_delay G mean max_delay rng = Some (delay, rng') \<Longrightarrow> delay \<le> max_delay"
proof -
  assume run: "draw_delay G mean max_delay rng = Some (delay, rng')"
  have "fst (delay, rng') \<le> max_delay"
    by (rule draw_delay.raw_induct [OF _ run]) (auto split: if_splits)
  then show "delay \<le> max_delay" by simp
qed

lemma draw_offsets_ok:
  "draw_offsets G n mean max_delay elapsed rng = Some (offsets, rng') \<Longrightarrow> elapsed \<le> u32_max \<Longrightarrow>
     length offsets = n \<and> gaps_ok max_delay elapsed offsets \<and> (\<forall>offset \<in> set offsets. offset \<le> u32_max)"
proof (induction n arbitrary: elapsed rng offsets)
  case (Suc n)
  from Suc.prems(1) obtain delay rng1 rest where draw: "draw_delay G mean max_delay rng = Some (delay, rng1)" and
    rest: "draw_offsets G n mean max_delay (saturating_add u32_max elapsed delay) rng1 = Some (rest, rng')" and
    offsets: "offsets = saturating_add u32_max elapsed delay # rest"
    by (auto simp: Let_def bind_eq_Some_conv)
  from Suc.IH [OF rest] draw_delay_le [OF draw] Suc.prems(2) show ?case
    by (auto simp: offsets saturating_add_def)
qed simp

text \<open>The offsets a schedule draws.\<close>

lemma random_offsets_ok:
  assumes "random_schedule_block_offsets_with_rng G n mean max_delay rng = Some (Ok (offsets, rng'))"
  shows "length offsets = n" and "gaps_ok max_delay 0 offsets"
  using assms draw_offsets_ok [of G n mean max_delay 0 rng]
  by (auto simp: random_schedule_block_offsets_with_rng_def split: if_splits)

section \<open>Validation\<close>

definition identified :: "schedule_entry list \<Rightarrow> u64 list \<Rightarrow> bool" where
  "identified schedule target_values \<longleftrightarrow> distinct (map part_index schedule) \<and>
     (\<forall>entry \<in> set schedule. \<exists>p. part_index entry = Some p \<and> p < length target_values
        \<and> target_values ! p = value_zatoshi entry)"

lemma check_part_indexes_iff:
  "check_part_indexes target_values seen es = Ok () \<longleftrightarrow>
     identified es target_values \<and> (\<forall>entry \<in> set es. \<forall>p. part_index entry = Some p \<longrightarrow> p \<notin> set seen)"
proof (induction es arbitrary: seen)
  case (Cons entry es)
  show ?case
  proof (cases "part_index entry")
    case None
    then show ?thesis by (auto simp: identified_def outcome_simps)
  next
    case (Some p)
    then have "check_part_indexes target_values seen (entry # es) = Ok () \<longleftrightarrow>
        p < length target_values \<and> p \<notin> set seen \<and> target_values ! p = value_zatoshi entry
        \<and> check_part_indexes target_values (p # seen) es = Ok ()"
      by (auto simp: outcome_simps)
    also have "\<dots> \<longleftrightarrow> identified (entry # es) target_values
        \<and> (\<forall>e \<in> set (entry # es). \<forall>p. part_index e = Some p \<longrightarrow> p \<notin> set seen)"
      unfolding Cons.IH using Some by (auto simp: identified_def) (metis image_eqI)+
    finally show ?thesis .
  qed
qed (simp add: identified_def)

lemma sort_eq_iff: "sort xs = sort ys \<longleftrightarrow> mset xs = mset ys" for xs ys :: "nat list"
  by (metis mset_sort properties_for_sort sorted_sort)

lemma validate_schedule_spec:
  "validate_schedule_with_policy schedule target_values network policy = Ok () \<longleftrightarrow>
     mset (map value_zatoshi schedule) = mset target_values
     \<and> ((\<forall>entry \<in> set schedule. part_index entry = None) \<or> identified schedule target_values)
     \<and> gaps_ok (snd (schedule_parameters_with_policy network policy)) 0 (map block_offset schedule)"
proof -
  have parts: "validate_schedule_part_indexes schedule target_values = Ok () \<longleftrightarrow>
      (\<forall>entry \<in> set schedule. part_index entry = None) \<or> identified schedule target_values"
    using check_part_indexes_iff [of target_values "[]" schedule]
    by (auto simp: validate_schedule_part_indexes_def list_all_iff list_ex_iff identified_def)
  have len: "mset (map value_zatoshi schedule) = mset target_values \<Longrightarrow> length schedule = length target_values"
    by (metis length_map size_mset)
  show ?thesis
  proof (cases "length schedule = length target_values")
    case True
    then show ?thesis
      by (simp add: validate_schedule_with_policy_def sort_eq_iff outcome_simps parts check_gaps_iff
          del: mset_map)
  next
    case False
    then show ?thesis using len by (auto simp: validate_schedule_with_policy_def simp del: mset_map)
  qed
qed

text \<open>
  An approved schedule is accepted exactly when its values are the target values, it
  either identifies no part or identifies every part with its own value and none twice, and its
  offsets ascend with no gap above the maximum delay of the policy.
\<close>

theorem validate_schedule_iff:
  "validate_schedule_with_policy schedule target_values network policy = Ok () \<longleftrightarrow>
     mset (map value_zatoshi schedule) = mset target_values
     \<and> ((\<forall>entry \<in> set schedule. part_index entry = None) \<or> identified schedule target_values)
     \<and> gaps_ok (snd (schedule_parameters_with_policy network policy)) 0 (map block_offset schedule)"
  by (rule validate_schedule_spec)

theorem validate_schedule_iff_witness:
  "validate_schedule_with_policy [\<lparr>part_index = None, value_zatoshi = 200, block_offset = 3\<rparr>,
      \<lparr>part_index = None, value_zatoshi = 500, block_offset = 7\<rparr>] [500, 200] Main Standard90Minutes = Ok ()"
  by (simp add: validate_schedule_iff transfer_constants)

section \<open>Target values\<close>

lemma fill_targets_Ok:
  "fill_targets es slots = Ok slots' \<Longrightarrow> length slots' = length slots \<and> distinct (map part_index es)
     \<and> (\<forall>entry \<in> set es. \<exists>p. part_index entry = Some p \<and> p < length slots \<and> slots ! p = None
          \<and> slots' ! p = Some (value_zatoshi entry))
     \<and> (\<forall>p < length slots. Some p \<notin> part_index ` set es \<longrightarrow> slots' ! p = slots ! p)"
proof (induction es arbitrary: slots)
  case (Cons entry es)
  from Cons.prems obtain p where p: "part_index entry = Some p" "p < length slots" "slots ! p = None" and
    rest: "fill_targets es (slots[p := Some (value_zatoshi entry)]) = Ok slots'"
    by (auto simp: outcome_simps split: if_splits)
  note IH = Cons.IH [OF rest]
  have fresh: "Some p \<notin> part_index ` set es"
  proof
    assume "Some p \<in> part_index ` set es"
    with IH obtain q where "Some p = Some q" "slots[p := Some (value_zatoshi entry)] ! q = None" by fastforce
    with p(2) show False by simp
  qed
  have here: "slots' ! p = Some (value_zatoshi entry)" using IH fresh p(2) by simp
  have others: "\<exists>q. part_index e = Some q \<and> q < length slots \<and> slots ! q = None \<and> slots' ! q = Some (value_zatoshi e)"
    if "e \<in> set es" for e
  proof -
    from IH that obtain q where "part_index e = Some q" "q < length slots"
      "slots[p := Some (value_zatoshi entry)] ! q = None" "slots' ! q = Some (value_zatoshi e)" by fastforce
    with p(2) show ?thesis by (cases "q = p") auto
  qed
  have keep: "slots' ! q = slots ! q" if "q < length slots" "Some q \<notin> part_index ` set (entry # es)" for q
    using IH that p by auto
  from IH p fresh here others keep show ?case by auto
qed auto

lemma fill_targets_total:
  "distinct (map part_index es) \<Longrightarrow>
     \<forall>entry \<in> set es. \<exists>p. part_index entry = Some p \<and> p < length slots \<and> slots ! p = None \<Longrightarrow>
     \<exists>slots'. fill_targets es slots = Ok slots'"
proof (induction es arbitrary: slots)
  case (Cons entry es)
  from Cons.prems(2) obtain p where p: "part_index entry = Some p" "p < length slots" "slots ! p = None" by auto
  have "\<exists>slots'. fill_targets es (slots[p := Some (value_zatoshi entry)]) = Ok slots'"
  proof (rule Cons.IH)
    show "distinct (map part_index es)" using Cons.prems(1) by simp
    show "\<forall>e \<in> set es. \<exists>q. part_index e = Some q \<and> q < length (slots[p := Some (value_zatoshi entry)])
        \<and> slots[p := Some (value_zatoshi entry)] ! q = None"
    proof
      fix e assume e: "e \<in> set es"
      with Cons.prems(2) obtain q where q: "part_index e = Some q" "q < length slots" "slots ! q = None" by auto
      have "part_index e \<noteq> part_index entry" using Cons.prems(1) e by (metis (no_types, lifting)
            distinct.simps(2) image_eqI list.set_map list.simps(9))
      with p q show "\<exists>q. part_index e = Some q \<and> q < length (slots[p := Some (value_zatoshi entry)])
        \<and> slots[p := Some (value_zatoshi entry)] ! q = None" by simp
    qed
  qed
  with p show ?case by simp
qed simp

lemma identified_covers:
  assumes "identified schedule target_values" and "length schedule = length target_values"
    and "i < length target_values"
  shows "\<exists>entry \<in> set schedule. part_index entry = Some i"
proof -
  have dist: "distinct (map part_index schedule)" using assms(1) by (simp add: identified_def)
  have "part_index ` set schedule = Some ` {..<length schedule}"
  proof (rule card_subset_eq)
    show "part_index ` set schedule \<subseteq> Some ` {..<length schedule}"
      using assms(1,2) by (auto simp: identified_def)
    have "card (part_index ` set schedule) = length schedule" using distinct_card [OF dist] by simp
    then show "card (part_index ` set schedule) = card (Some ` {..<length schedule})"
      by (simp add: card_image)
  qed simp
  then show ?thesis using assms(2,3) by (metis image_iff lessThan_iff)
qed

lemma target_values_spec:
  "target_values_from_schedule schedule = Ok target_values \<longleftrightarrow>
     identified schedule target_values \<and> length schedule = length target_values"
proof
  assume ok: "target_values_from_schedule schedule = Ok target_values"
  show "identified schedule target_values \<and> length schedule = length target_values"
  proof (cases "schedule = []")
    case False
    with ok obtain slots where fill: "fill_targets schedule (replicate (length schedule) None) = Ok slots"
      and all: "mapM (\<lambda>slot. ok_or slot SchedulePartIndexesIncomplete) slots = Ok target_values"
      by (auto simp: target_values_from_schedule_def outcome_simps split: if_splits)
    have slots: "length target_values = length slots" "i < length slots \<Longrightarrow> slots ! i = Some (target_values ! i)" for i
      using all by (auto simp: mapM_eq_Ok list_all2_conv_all_nth outcome_simps)
    from fill_targets_Ok [OF fill] slots show ?thesis
      by (auto simp: identified_def)
  qed (use ok in \<open>auto simp: target_values_from_schedule_def identified_def\<close>)
next
  assume R: "identified schedule target_values \<and> length schedule = length target_values"
  show "target_values_from_schedule schedule = Ok target_values"
  proof (cases "schedule = []")
    case False
    have some: "\<forall>entry \<in> set schedule. part_index entry \<noteq> None" using R by (auto simp: identified_def)
    have dist: "distinct (map part_index schedule)" using R by (simp add: identified_def)
    have each: "\<forall>entry \<in> set schedule. \<exists>p. part_index entry = Some p
        \<and> p < length (replicate (length schedule) (None :: u64 option))
        \<and> replicate (length schedule) (None :: u64 option) ! p = None"
      using R by (auto simp: identified_def)
    from fill_targets_total [OF dist each] obtain slots where
      fill: "fill_targets schedule (replicate (length schedule) None) = Ok slots" by blast
    note facts = fill_targets_Ok [OF fill]
    have "slots ! i = Some (target_values ! i)" if "i < length schedule" for i
    proof -
      from identified_covers [of schedule target_values i] R that
      obtain entry where entry: "entry \<in> set schedule" "part_index entry = Some i" by auto
      with facts have "slots ! i = Some (value_zatoshi entry)" by fastforce
      moreover have "target_values ! i = value_zatoshi entry" using R entry by (auto simp: identified_def)
      ultimately show ?thesis by simp
    qed
    then have "mapM (\<lambda>slot. ok_or slot SchedulePartIndexesIncomplete) slots = Ok target_values"
      using facts R by (auto simp: mapM_eq_Ok list_all2_conv_all_nth outcome_simps)
    moreover have "\<not> list_all (\<lambda>entry. part_index entry = None) schedule"
      "\<not> list_ex (\<lambda>entry. part_index entry = None) schedule"
      using some False by (auto simp: list_all_iff list_ex_iff) (metis ex_in_conv set_empty)
    ultimately show ?thesis using fill False by (simp add: target_values_from_schedule_def)
  qed (use R in \<open>auto simp: target_values_from_schedule_def\<close>)
qed

text \<open>
  The target values are read back from a schedule exactly when it identifies every part
  of a list of that length, each once and with its value; so a schedule determines its targets.
\<close>

theorem target_values_iff:
  "target_values_from_schedule schedule = Ok target_values \<longleftrightarrow>
     identified schedule target_values \<and> length schedule = length target_values"
  by (rule target_values_spec)

theorem target_values_iff_witness:
  "target_values_from_schedule [\<lparr>part_index = Some 1, value_zatoshi = 200, block_offset = 3\<rparr>,
      \<lparr>part_index = Some 0, value_zatoshi = 500, block_offset = 7\<rparr>] = Ok [500, 200]"
  by (simp add: target_values_iff identified_def)

section \<open>Planned schedules\<close>

lemma map_snd_indexed: "map snd (indexed_parts values) = values"
  by (simp add: indexed_parts_def comp_def split_beta map_snd_enumerate [unfolded comp_def])

lemma nth_indexed:
  "i < length values \<Longrightarrow> length values \<le> 2 ^ 32 \<Longrightarrow> indexed_parts values ! i = (i, values ! i)"
  by (simp add: indexed_parts_def nth_enumerate_eq)

lemma length_indexed [simp]: "length (indexed_parts values) = length values"
  by (simp add: indexed_parts_def)

context rng_contract
begin

text \<open>A planned schedule is a shuffled copy of its parts with drawn offsets.\<close>

lemma planned_parts:
  assumes "planned_transfer_schedule_for_parts_with_policy G parts network policy rng = Some (Ok schedule)"
  shows "mset (map (\<lambda>entry. (part_index entry, value_zatoshi entry)) schedule)
      = mset (map (\<lambda>(i, v). (Some i, v)) parts)"
    and "gaps_ok (snd (schedule_parameters_with_policy network policy)) 0 (map block_offset schedule)"
proof -
  obtain perm rng1 where perm: "shuffle_perm G rng (length parts) = (perm, rng1)" by (metis surj_pair)
  define shuffled where "shuffled = map ((!) parts) perm"
  obtain mean max_delay where
    params: "schedule_parameters_with_policy_for_part_count network policy (length perm) = (mean, max_delay)"
    by (metis surj_pair)
  from assms obtain offsets rng2 where
    draw: "random_schedule_block_offsets_with_rng G (length perm) mean max_delay rng1 = Some (Ok (offsets, rng2))"
    and schedule: "schedule = map (\<lambda>((index, v), offset).
        \<lparr>part_index = Some index, value_zatoshi = v, block_offset = offset\<rparr>) (zip shuffled offsets)"
    by (auto simp: planned_transfer_schedule_for_parts_with_policy_def Let_def perm shuffled_def [symmetric]
        params outcome_simps)
  have "length shuffled = length perm" by (simp add: shuffled_def)
  with random_offsets_ok [OF draw]
  have offs: "length offsets = length shuffled" "gaps_ok max_delay 0 offsets" by simp_all
  have "map (\<lambda>entry. (part_index entry, value_zatoshi entry)) schedule = map (\<lambda>(i, v). (Some i, v)) shuffled"
    using offs(1) by (intro nth_equalityI) (auto simp: schedule split_beta)
  moreover have "mset shuffled = mset parts"
    using shuffle_mset [of parts rng] by (simp add: perm shuffled_def)
  ultimately show "mset (map (\<lambda>entry. (part_index entry, value_zatoshi entry)) schedule)
      = mset (map (\<lambda>(i, v). (Some i, v)) parts)" by simp
  have "map block_offset schedule = offsets"
    using offs(1) by (intro nth_equalityI) (auto simp: schedule split_beta)
  moreover have "max_delay = snd (schedule_parameters_with_policy network policy)"
    using params by (auto simp: schedule_parameters_with_policy_for_part_count_def split: prod.splits)
  ultimately show "gaps_ok (snd (schedule_parameters_with_policy network policy)) 0 (map block_offset schedule)"
    using offs(2) by simp
qed

lemma planned_identified:
  assumes "planned_transfer_schedule_with_policy G values network policy rng = Some (Ok schedule)"
    and "length values \<le> 2 ^ 32"
  shows "identified schedule values" and "length schedule = length values"
    and "mset (map value_zatoshi schedule) = mset values"
    and "gaps_ok (snd (schedule_parameters_with_policy network policy)) 0 (map block_offset schedule)"
proof -
  note planned = planned_parts [OF assms(1) [unfolded planned_transfer_schedule_with_policy_def]]
  let ?pair = "\<lambda>entry. (part_index entry, value_zatoshi entry)"
  let ?parts = "map (\<lambda>(i, v). (Some i, v)) (indexed_parts values)"
  show "length schedule = length values" using arg_cong [OF planned(1), of size] by simp
  have "mset (map value_zatoshi schedule) = image_mset snd (mset (map ?pair schedule))"
    by (simp add: multiset.map_comp comp_def)
  also have "\<dots> = mset (map snd ?parts)" unfolding planned(1) by (rule mset_map [symmetric])
  also have "map snd ?parts = values"
    using map_snd_indexed [of "values"] by (simp add: comp_def split_beta)
  finally show "mset (map value_zatoshi schedule) = mset values" .
  have "mset (map part_index schedule) = image_mset fst (mset (map ?pair schedule))"
    by (simp add: multiset.map_comp comp_def)
  also have "\<dots> = mset (map fst ?parts)" unfolding planned(1) by (rule mset_map [symmetric])
  also have "map fst ?parts = map Some [0..<length values]"
    using assms(2) by (intro nth_equalityI) (simp_all add: nth_indexed)
  finally have "mset (map part_index schedule) = mset (map Some [0..<length values])" .
  moreover have "distinct (map Some [0..<length values])" by (simp add: distinct_map)
  ultimately have "distinct (map part_index schedule)" by (metis mset_eq_imp_distinct_iff)
  moreover have "\<exists>p. part_index entry = Some p \<and> p < length values \<and> values ! p = value_zatoshi entry"
    if "entry \<in> set schedule" for entry
  proof -
    have "?pair entry \<in># mset (map ?pair schedule)" using that by simp
    then have "?pair entry \<in> set ?parts" unfolding planned(1) by simp
    then obtain i where "i < length values" "?pair entry = (\<lambda>(i, v). (Some i, v)) (indexed_parts values ! i)"
      by (auto simp: in_set_conv_nth)
    with assms(2) show ?thesis by (auto simp: nth_indexed)
  qed
  ultimately show "identified schedule values" by (auto simp: identified_def)
  show "gaps_ok (snd (schedule_parameters_with_policy network policy)) 0 (map block_offset schedule)"
    by (rule planned(2))
qed

end

text \<open>
  A reference generator: the words count up, a delay is the mantissa modulo 10 and a shuffle
  reverses. It satisfies the contract.
\<close>

definition counting_rng :: "nat rng_env" where
  "counting_rng = \<lparr>next_u64 = (\<lambda>r. (r mod 2 ^ 64, r + 2048)), delay_of = (\<lambda>m mean. m mod 10),
     shuffle_perm = (\<lambda>r n. (rev [0..<n], r))\<rparr>"

interpretation counting: rng_contract counting_rng
  by unfold_locales (simp_all add: counting_rng_def)

text \<open>
  C38: A planned schedule is accepted by the validation that guards it, and the target values
  read back from it are the values it was planned for, in part order.
\<close>

theorem planned_schedule_roundtrip:
  assumes "rng_contract G" and "length values \<le> 2 ^ 32"
    and "planned_transfer_schedule_with_policy G values network policy rng = Some (Ok schedule)"
  shows "validate_schedule_with_policy schedule values network policy = Ok ()
    \<and> target_values_from_schedule schedule = Ok values"
  using rng_contract.planned_identified [OF assms(1,3,2)]
  by (simp add: validate_schedule_spec target_values_spec)

lemma draw_delay_simp:
  "draw_delay G mean max_delay rng =
     (if fst (draw_delay_once G mean rng) \<le> max_delay then Some (draw_delay_once G mean rng)
      else draw_delay G mean max_delay (snd (draw_delay_once G mean rng)))"
  by (rule draw_delay.simps)

lemmas schedule_eval =
  planned_transfer_schedule_with_policy_def planned_transfer_schedule_for_parts_with_policy_def
  indexed_parts_def counting_rng_def schedule_parameters_with_policy_for_part_count_def
  transfer_constants DENSE_MIGRATION_PART_THRESHOLD_def random_schedule_block_offsets_with_rng_def
  draw_delay_simp draw_delay_once_def saturating_add_def u32_max_def

lemma example_schedule_run:
  "planned_transfer_schedule_with_policy counting_rng [500, 200, 200] Main Standard90Minutes 6144 =
     Some (Ok [\<lparr>part_index = Some 2, value_zatoshi = 200, block_offset = 3\<rparr>,
               \<lparr>part_index = Some 1, value_zatoshi = 200, block_offset = 7\<rparr>,
               \<lparr>part_index = Some 0, value_zatoshi = 500, block_offset = 12\<rparr>])"
  by (simp add: schedule_eval upt_rec)

theorem planned_schedule_roundtrip_witness:
  "target_values_from_schedule
     [\<lparr>part_index = Some 2, value_zatoshi = 200, block_offset = 3\<rparr>,
      \<lparr>part_index = Some 1, value_zatoshi = 200, block_offset = 7\<rparr>,
      \<lparr>part_index = Some 0, value_zatoshi = 500, block_offset = 12\<rparr>] = Ok [500, 200, 200]"
  using planned_schedule_roundtrip [OF counting.rng_contract_axioms _ example_schedule_run] by simp

section \<open>Drawing returns\<close>

text \<open>
  The redrawing loop returns as soon as one of the generator's draws is in range: with a
  draw within \<open>max_delay\<close> after \<open>k\<close> redraws it returns a delay within \<open>max_delay\<close>.
\<close>

theorem draw_delay_returns:
  assumes "fst (draw_delay_once G mean (((\<lambda>r. snd (draw_delay_once G mean r)) ^^ k) rng)) \<le> max_delay"
  shows "\<exists>delay rng'. draw_delay G mean max_delay rng = Some (delay, rng') \<and> delay \<le> max_delay"
  using assms
proof (induction k arbitrary: rng)
  case 0
  then show ?case by (subst draw_delay_simp) (auto intro!: exI [of _ "fst (draw_delay_once G mean rng)"]
        exI [of _ "snd (draw_delay_once G mean rng)"])
next
  case (Suc k)
  show ?case
  proof (cases "fst (draw_delay_once G mean rng) \<le> max_delay")
    case True
    then show ?thesis by (subst draw_delay_simp) (auto intro!: exI [of _ "fst (draw_delay_once G mean rng)"]
        exI [of _ "snd (draw_delay_once G mean rng)"])
  next
    case False
    from Suc.prems have "fst (draw_delay_once G mean
        (((\<lambda>r. snd (draw_delay_once G mean r)) ^^ k) (snd (draw_delay_once G mean rng)))) \<le> max_delay"
      by (simp add: funpow_Suc_right del: funpow.simps)
    from Suc.IH [OF this] False show ?thesis by (subst draw_delay_simp) simp
  qed
qed

theorem draw_delay_returns_witness:
  "\<exists>delay rng'. draw_delay counting_rng 66 5 18432 = Some (delay, rng') \<and> delay \<le> 5"
  by (rule draw_delay_returns [where k = "Suc 0"]) (simp add: draw_delay_once_def counting_rng_def)

section \<open>Recovery\<close>

lemma fold_assign_other:
  "i \<notin> set slots \<Longrightarrow> fold (\<lambda>(slot, offset) assigned. assigned[slot := offset]) (zip slots offsets) acc ! i = acc ! i"
  by (induction slots offsets arbitrary: acc rule: list_induct2') auto

lemma length_fold_assign [simp]:
  "length (fold (\<lambda>(slot, offset) assigned. assigned[slot := offset]) (zip slots offsets) acc) = length acc"
  by (induction slots offsets arbitrary: acc rule: list_induct2') auto

lemma fold_assign_nth:
  "length slots = length offsets \<Longrightarrow> distinct slots \<Longrightarrow> set slots \<subseteq> {..<length acc} \<Longrightarrow> k < length slots \<Longrightarrow>
     fold (\<lambda>(slot, offset) assigned. assigned[slot := offset]) (zip slots offsets) acc ! (slots ! k) = offsets ! k"
proof (induction slots offsets arbitrary: acc k rule: list_induct2)
  case (Cons slot slots offset offsets)
  then show ?case by (cases k) (auto simp: fold_assign_other)
qed simp

lemma mset_assign_slots:
  assumes "mset slots = mset [0..<n]" and "length offsets = n"
  shows "mset (assign_slots slots offsets n) = mset offsets"
proof -
  have slots: "length slots = n" "set slots = {0..<n}" "distinct slots"
    using arg_cong [OF assms(1), of size] arg_cong [OF assms(1), of set_mset]
      mset_eq_imp_distinct_iff [OF assms(1)] by simp_all
  let ?a = "assign_slots slots offsets n"
  have len: "length ?a = n" by (simp add: assign_slots_def)
  have "map ((!) ?a) slots = offsets"
  proof (intro nth_equalityI)
    fix k assume "k < length (map ((!) ?a) slots)"
    with slots assms(2) show "map ((!) ?a) slots ! k = offsets ! k"
      unfolding assign_slots_def by (simp, subst fold_assign_nth) auto
  qed (use slots assms(2) in simp)
  then have "mset offsets = image_mset ((!) ?a) (mset [0..<n])"
    by (metis assms(1) mset_map)
  also have "\<dots> = mset ?a" by (metis len map_nth mset_map)
  finally show ?thesis by simp
qed

text \<open>
  Rebuilding offsets for recovered parts fails exactly when one of them is not in the
  approved schedule; otherwise every part gets one slot of a fresh ladder of offsets with no gap
  above the maximum delay.
\<close>

theorem rebuild_offsets_ladder:
  assumes "rng_contract G"
    and "rebuild_schedule_block_offsets G schedule targets recoveries network policy rng = Some (Ok offsets)"
  shows "length offsets = length recoveries
    \<and> (\<forall>(part, v) \<in> set recoveries. schedule_block_offset_for_part schedule targets part v \<noteq> None)
    \<and> (\<exists>ladder. mset offsets = mset ladder
         \<and> gaps_ok (snd (schedule_parameters_with_policy network policy)) 0 ladder)"
proof -
  obtain mean max_delay where params: "schedule_parameters_with_policy network policy = (mean, max_delay)"
    by (metis surj_pair)
  from assms(2) obtain ladder rng' where
    known: "list_all (\<lambda>(part, v). schedule_block_offset_for_part schedule targets part v \<noteq> None) recoveries" and
    draw: "random_schedule_block_offsets_with_rng G (length recoveries) mean max_delay rng = Some (Ok (ladder, rng'))" and
    offsets: "offsets = assign_slots (fst (shuffle_perm G rng' (length recoveries))) ladder (length recoveries)"
    by (auto simp: rebuild_schedule_block_offsets_def params outcome_simps split: if_splits)
  note ladder = random_offsets_ok [OF draw]
  have mset: "mset offsets = mset ladder"
    unfolding offsets by (rule mset_assign_slots [OF rng_contract.shuffle_permutes [OF assms(1)] ladder(1)])
  have "length offsets = length recoveries" using arg_cong [OF mset, of size] ladder(1) by simp
  moreover have "\<forall>(part, v) \<in> set recoveries. schedule_block_offset_for_part schedule targets part v \<noteq> None"
    using known by (simp only: list_all_iff)
  ultimately show ?thesis using mset ladder(2) params by auto
qed

lemma example_rebuild:
  "rebuild_schedule_block_offsets counting_rng
     [\<lparr>part_index = Some 0, value_zatoshi = 500, block_offset = 4\<rparr>,
      \<lparr>part_index = Some 1, value_zatoshi = 200, block_offset = 9\<rparr>] [500, 200] [(0, 500), (1, 200)]
     Main Standard90Minutes 6144 = Some (Ok [7, 3])"
  by (simp add: rebuild_schedule_block_offsets_def schedule_block_offset_for_part_def schedule_eval
      assign_slots_def upt_rec)

theorem rebuild_offsets_ladder_witness:
  "\<exists>ladder. mset [7, 3] = mset ladder \<and> gaps_ok 576 0 ladder"
  using rebuild_offsets_ladder [OF counting.rng_contract_axioms example_rebuild]
  by (simp add: transfer_constants)

section \<open>Offsets of the parts\<close>

lemma rank_less:
  assumes "p < length xs"
  shows "length (filter (\<lambda>w. w = xs ! p) (take p xs)) < length (filter (\<lambda>w. w = xs ! p) xs)"
proof -
  have "xs = take p xs @ xs ! p # drop (Suc p) xs" by (rule id_take_nth_drop [OF assms])
  then have "filter (\<lambda>w. w = xs ! p) xs
      = filter (\<lambda>w. w = xs ! p) (take p xs) @ xs ! p # filter (\<lambda>w. w = xs ! p) (drop (Suc p) xs)"
    by (metis (mono_tags, lifting) filter.simps(2) filter_append)
  then show ?thesis by simp
qed

text \<open>
  In a validated schedule every part of the plan has a broadcast offset, that of an entry
  with its value which identifies this part or identifies none.
\<close>

theorem validated_part_has_offset:
  assumes "validate_schedule_with_policy schedule targets network policy = Ok ()" and "p < length targets"
  shows "\<exists>entry \<in> set schedule. value_zatoshi entry = targets ! p
    \<and> (part_index entry = Some p \<or> part_index entry = None)
    \<and> schedule_block_offset_for_part schedule targets p (targets ! p) = Some (block_offset entry)"
proof -
  from assms(1) have val: "mset (map value_zatoshi schedule) = mset targets"
    "(\<forall>entry \<in> set schedule. part_index entry = None) \<or> identified schedule targets"
    by (simp_all only: validate_schedule_spec)
  have len: "length schedule = length targets" using arg_cong [OF val(1), of size] by simp
  show ?thesis
  proof (cases "list_all (\<lambda>entry. part_index entry \<noteq> None) schedule")
    case True
    let ?P = "\<lambda>entry. part_index entry = Some p \<and> value_zatoshi entry = targets ! p"
    have "schedule \<noteq> []" using len assms(2) by auto
    with True val(2) have ident: "identified schedule targets" by (cases schedule) (auto simp: list_all_iff)
    from identified_covers [OF this len assms(2)] obtain e where "e \<in> set schedule" "?P e"
      using ident by (auto simp: identified_def)
    then obtain entry where find: "find ?P schedule = Some entry"
      by (cases "find ?P schedule") (auto simp: find_None_iff)
    then have "entry \<in> set schedule" "?P entry" by (auto simp: find_Some_iff)
    with find True show ?thesis by (auto simp: schedule_block_offset_for_part_def)
  next
    case False
    with val(2) have none: "\<forall>entry \<in> set schedule. part_index entry = None"
      by (auto simp: list_all_iff identified_def)
    let ?v = "targets ! p"
    let ?same = "filter (\<lambda>entry. value_zatoshi entry = ?v) schedule"
    let ?rank = "length (filter (\<lambda>w. w = ?v) (take p targets))"
    have "length ?same = length (filter (\<lambda>w. w = ?v) (map value_zatoshi schedule))"
      by (simp add: filter_map comp_def)
    also have "\<dots> = length (filter (\<lambda>w. w = ?v) targets)"
      using arg_cong [OF val(1), of "\<lambda>m. size (filter_mset (\<lambda>w. w = ?v) m)"]
      by (simp flip: mset_filter del: mset_map)
    finally have "?rank < length ?same" using rank_less [OF assms(2)] by simp
    moreover from this have "?same ! ?rank \<in> set ?same" by (rule nth_mem)
    ultimately show ?thesis using False assms(2) none
      by (auto simp: schedule_block_offset_for_part_def Let_def intro!: bexI [of _ "?same ! ?rank"])
  qed
qed

theorem validated_part_has_offset_witness:
  "schedule_block_offset_for_part
     [\<lparr>part_index = None, value_zatoshi = 200, block_offset = 3\<rparr>,
      \<lparr>part_index = None, value_zatoshi = 200, block_offset = 7\<rparr>] [200, 200] 1 200 = Some 7"
proof -
  let ?s = "[\<lparr>part_index = None, value_zatoshi = 200, block_offset = 3\<rparr>,
      \<lparr>part_index = None, value_zatoshi = 200, block_offset = 7\<rparr>]"
  have "validate_schedule_with_policy ?s [200, 200] Main Standard90Minutes = Ok ()"
    by (simp add: validate_schedule_spec transfer_constants)
  from validated_part_has_offset [OF this, of 1]
  have "schedule_block_offset_for_part ?s [200, 200] 1 200 \<noteq> None" by auto
  then show ?thesis by (simp add: schedule_block_offset_for_part_def)
qed

end
