(* ===== verification/PrepTiming.thy ===== *)
theory PrepTiming
  imports ScheduleProps
begin

text \<open>
  \<open>rust/src/wallet/sync/migration/preparation_policy.rs\<close>: how the preparation transactions
  are spread over time. The number of confirmations a preparation output needs
  (\<open>denomination_confirmations_required\<close> of \<open>migration.rs\<close>, a constant of the wallet
  library) is the argument \<open>confirmations\<close>; the random draws come from \<open>rng_env\<close>. The
  parts of that file which work on the stage table are in the theory of the stages.
\<close>

definition ZIP318_PREPARATION_MEAN_DELAY_BLOCKS :: u32 where "ZIP318_PREPARATION_MEAN_DELAY_BLOCKS = 16"
definition ZIP318_PREPARATION_MAX_DELAY_BLOCKS :: u32 where "ZIP318_PREPARATION_MAX_DELAY_BLOCKS = 96"
definition REGTEST_PREPARATION_MEAN_DELAY_BLOCKS :: u32 where "REGTEST_PREPARATION_MEAN_DELAY_BLOCKS = 1"
definition REGTEST_PREPARATION_MAX_DELAY_BLOCKS :: u32 where "REGTEST_PREPARATION_MAX_DELAY_BLOCKS = 4"
definition FAST_TESTNET_PREPARATION_MEAN_DELAY_BLOCKS :: u32 where
  "FAST_TESTNET_PREPARATION_MEAN_DELAY_BLOCKS = 4"
definition FAST_TESTNET_PREPARATION_MAX_DELAY_BLOCKS :: u32 where
  "FAST_TESTNET_PREPARATION_MAX_DELAY_BLOCKS = 16"
definition DENSE_PREPARATION_TRANSACTION_THRESHOLD :: usize where
  "DENSE_PREPARATION_TRANSACTION_THRESHOLD = 3"

lemmas preparation_constants =
  ZIP318_PREPARATION_MEAN_DELAY_BLOCKS_def ZIP318_PREPARATION_MAX_DELAY_BLOCKS_def
  REGTEST_PREPARATION_MEAN_DELAY_BLOCKS_def REGTEST_PREPARATION_MAX_DELAY_BLOCKS_def
  FAST_TESTNET_PREPARATION_MEAN_DELAY_BLOCKS_def FAST_TESTNET_PREPARATION_MAX_DELAY_BLOCKS_def
  DENSE_PREPARATION_TRANSACTION_THRESHOLD_def

datatype preparation_timing_policy = Immediate | Zip318Spaced

definition from_spacing_enabled :: "bool \<Rightarrow> preparation_timing_policy" where
  "from_spacing_enabled enabled = (if enabled then Zip318Spaced else Immediate)"

fun preparation_policy_as_str :: "preparation_timing_policy \<Rightarrow> string" where
  "preparation_policy_as_str Immediate = ''immediate''"
| "preparation_policy_as_str Zip318Spaced = ''zip318_spaced''"

definition preparation_policy_from_str ::
    "string \<Rightarrow> (preparation_error, preparation_timing_policy) outcome" where
  "preparation_policy_from_str s =
     (if s = ''immediate'' then Ok Immediate
      else if s = ''zip318_spaced'' then Ok Zip318Spaced
      else Err (UnsupportedPreparationTimingPolicy s))"

lemma preparation_policy_roundtrip: "preparation_policy_from_str (preparation_policy_as_str p) = Ok p"
  by (cases p) (simp_all add: preparation_policy_from_str_def)

interpretation preparation_policy: text_codec preparation_policy_as_str preparation_policy_from_str
  by (unfold_locales, rule preparation_policy_roundtrip)
    (auto simp: preparation_policy_from_str_def split: if_splits)

section \<open>Parameters\<close>

definition preparation_schedule_parameters :: "wallet_network \<Rightarrow> timing_policy \<Rightarrow> u32 \<times> u32" where
  "preparation_schedule_parameters network policy =
     (if network = Regtest then
        (if policy = FastTestnet
         then (FAST_TESTNET_PREPARATION_MEAN_DELAY_BLOCKS, FAST_TESTNET_PREPARATION_MAX_DELAY_BLOCKS)
         else (REGTEST_PREPARATION_MEAN_DELAY_BLOCKS, REGTEST_PREPARATION_MAX_DELAY_BLOCKS))
      else if network = Test \<and> policy = FastTestnet
      then (FAST_TESTNET_PREPARATION_MEAN_DELAY_BLOCKS, FAST_TESTNET_PREPARATION_MAX_DELAY_BLOCKS)
      else (ZIP318_PREPARATION_MEAN_DELAY_BLOCKS, ZIP318_PREPARATION_MAX_DELAY_BLOCKS))"

definition preparation_schedule_parameters_for_transaction_count ::
    "wallet_network \<Rightarrow> timing_policy \<Rightarrow> usize \<Rightarrow> u32 \<times> u32" where
  "preparation_schedule_parameters_for_transaction_count network policy tx_count =
     (let (mean, max_delay) = preparation_schedule_parameters network policy;
          effective_mean = (if tx_count > DENSE_PREPARATION_TRANSACTION_THRESHOLD then max (mean div 2) 1 else mean)
      in (effective_mean, max_delay))"

definition estimated_preparation_spacing_delay_blocks ::
    "policy_state \<Rightarrow> wallet_network \<Rightarrow> preparation_timing_policy \<Rightarrow> u32 \<Rightarrow> (preparation_error, u32) outcome"
where
  "estimated_preparation_spacing_delay_blocks st network preparation_policy tx_count =
     (if preparation_policy = Immediate then Ok 0
      else ok_or (checked_mul u32_max
                    (fst (preparation_schedule_parameters_for_transaction_count network
                            (configured_timing_policy st network) tx_count)) tx_count)
             PreparationSpacingOverflow)"

definition preparation_delay_with_rng ::
    "'r rng_env \<Rightarrow> wallet_network \<Rightarrow> timing_policy \<Rightarrow> usize \<Rightarrow> 'r \<Rightarrow> (u32 \<times> 'r) option" where
  "preparation_delay_with_rng G network policy tx_count rng =
     (let (mean, max_delay) = preparation_schedule_parameters_for_transaction_count network policy tx_count
      in draw_delay G mean max_delay rng)"

section \<open>Scheduled heights\<close>

text \<open>The stages of one layer in turn; \<open>draw\<close> is the delay of the spaced policy.\<close>

fun schedule_layer ::
    "bool \<Rightarrow> ('r \<Rightarrow> (u32 \<times> 'r) option) \<Rightarrow> u32 list \<Rightarrow> u32 \<Rightarrow> 'r \<Rightarrow> usize list \<Rightarrow>
      (preparation_error, u32 list \<times> u32 \<times> 'r) outcome option" where
  "schedule_layer spaced draw heights height rng [] = Some (Ok (heights, height, rng))"
| "schedule_layer spaced draw heights height rng (stage # stages) =
     (if spaced then
        Option.bind (draw rng) (\<lambda>(delay, rng').
          case checked_add u32_max height delay of
            None \<Rightarrow> Some (Err PreparationHeightOverflow)
          | Some height' \<Rightarrow> schedule_layer spaced draw (heights[stage := height']) height' rng' stages)
      else schedule_layer spaced draw (heights[stage := height]) height rng stages)"

definition stages_of_layer :: "usize list \<Rightarrow> usize \<Rightarrow> usize list" where
  "stages_of_layer stage_layers layer =
     filter (\<lambda>stage. stage_layers ! stage = layer) [0..<length stage_layers]"

fun schedule_layers ::
    "'r rng_env \<Rightarrow> u32 \<Rightarrow> bool \<Rightarrow> ('r \<Rightarrow> (u32 \<times> 'r) option) \<Rightarrow> usize list \<Rightarrow> u32 list \<Rightarrow> u32 \<Rightarrow> 'r \<Rightarrow>
      usize list \<Rightarrow> (preparation_error, u32 list) outcome option" where
  "schedule_layers G confirmations spaced draw stage_layers heights layer_base rng [] = Some (Ok heights)"
| "schedule_layers G confirmations spaced draw stage_layers heights layer_base rng (layer # layers) =
     (let stages = stages_of_layer stage_layers layer in
      if stages = [] then Some (Err (PreparationMissingLayer layer))
      else let (order, rng1) = (if spaced then let (perm, r) = shuffle_perm G rng (length stages)
                                               in (map ((!) stages) perm, r)
                                else (stages, rng)) in
        dbind (schedule_layer spaced draw heights layer_base rng1 order) (\<lambda>(heights', scheduled, rng2).
          case checked_add u32_max scheduled confirmations of
            None \<Rightarrow> Some (Err PreparationLayerHeightOverflow)
          | Some layer_base' \<Rightarrow>
              schedule_layers G confirmations spaced draw stage_layers heights' layer_base' rng2 layers))"

definition planned_preparation_scheduled_heights ::
    "'r rng_env \<Rightarrow> u32 \<Rightarrow> wallet_network \<Rightarrow> preparation_timing_policy \<Rightarrow> timing_policy \<Rightarrow> u32 \<Rightarrow>
      usize list \<Rightarrow> 'r \<Rightarrow> (preparation_error, u32 list) outcome option" where
  "planned_preparation_scheduled_heights G confirmations network preparation_policy policy
       target_height stage_layers rng =
     (if stage_layers = [] then Some (Ok [])
      else schedule_layers G confirmations (preparation_policy = Zip318Spaced)
             (preparation_delay_with_rng G network policy (length stage_layers)) stage_layers
             (replicate (length stage_layers) 0) (saturating_sub target_height 1) rng
             [0..<Suc (Max (set stage_layers))])"

section \<open>Layers wait for each other\<close>

lemma schedule_layer_Ok:
  "schedule_layer spaced draw heights height rng stages = Some (Ok (heights', height', rng')) \<Longrightarrow>
     length heights' = length heights \<and> height \<le> height'
     \<and> (\<forall>stage < length heights. stage \<notin> set stages \<longrightarrow> heights' ! stage = heights ! stage)
     \<and> (\<forall>stage < length heights. stage \<in> set stages \<longrightarrow> height \<le> heights' ! stage \<and> heights' ! stage \<le> height')"
proof (induction stages arbitrary: heights height rng)
  case (Cons stage stages)
  from Cons.prems obtain next_height rng1 where
    run: "schedule_layer spaced draw (heights[stage := next_height]) next_height rng1 stages
      = Some (Ok (heights', height', rng'))" and "height \<le> next_height"
    by (auto simp: bind_eq_Some_conv outcome_simps split: if_splits option.splits)
  with Cons.IH [OF run] show ?case
    by (cases "stage \<in> set stages") (auto simp: nth_list_update)
qed auto

lemma set_stages_of_layer:
  "stage \<in> set (stages_of_layer stage_layers layer) \<longleftrightarrow> stage < length stage_layers \<and> stage_layers ! stage = layer"
  by (auto simp: stages_of_layer_def)

text \<open>
  With the heights of the layers below \<open>l\<close> at least \<open>confirmations\<close> under the base of
  \<open>l\<close>, scheduling the layers from \<open>l\<close> to \<open>m\<close> keeps a stage at least \<open>confirmations\<close>
  above every stage of a lower layer.
\<close>

definition layers_apart :: "u32 \<Rightarrow> usize list \<Rightarrow> u32 list \<Rightarrow> usize \<Rightarrow> u32 \<Rightarrow> bool" where
  "layers_apart confirmations stage_layers heights l base \<longleftrightarrow>
     (\<forall>i < length stage_layers. stage_layers ! i < l \<longrightarrow> heights ! i + confirmations \<le> base
        \<and> (\<forall>j < length stage_layers. stage_layers ! j < l \<longrightarrow> stage_layers ! i < stage_layers ! j
             \<longrightarrow> heights ! i + confirmations \<le> heights ! j))"

context rng_contract
begin

lemma schedule_layers_Ok:
  assumes "schedule_layers G confirmations spaced draw stage_layers heights base rng [l..<m] = Some (Ok heights')"
    and "length heights = length stage_layers" and "layers_apart confirmations stage_layers heights l base"
    and "\<forall>i < length stage_layers. stage_layers ! i < l \<longrightarrow> floor \<le> heights ! i"
    and "floor \<le> base" and "l \<le> m"
  shows "length heights' = length stage_layers
    \<and> (\<forall>i < length stage_layers. stage_layers ! i < m \<longrightarrow> floor \<le> heights' ! i)
    \<and> (\<exists>base'. layers_apart confirmations stage_layers heights' m base')"
  using assms
proof (induction "m - l" arbitrary: l heights base rng)
  case 0
  then show ?case by auto
next
  case (Suc k)
  then have lm: "[l..<m] = l # [Suc l..<m]" by (simp add: upt_rec)
  let ?stages = "stages_of_layer stage_layers l"
  obtain order rng1 where
    order: "(if spaced then let (perm, r) = shuffle_perm G rng (length ?stages) in (map ((!) ?stages) perm, r)
      else (?stages, rng)) = (order, rng1)" by (metis surj_pair)
  have set_order: "set order = set ?stages"
  proof (cases spaced)
    case True
    with order have "order = map ((!) ?stages) (fst (shuffle_perm G rng (length ?stages)))"
      by (auto simp: Let_def split: prod.splits)
    then show ?thesis using arg_cong [OF shuffle_mset [of ?stages rng], of set_mset] by simp
  qed (use order in simp)
  from Suc.prems(1) obtain heights1 scheduled rng2 base1 where
    layer: "schedule_layer spaced draw heights base rng1 order = Some (Ok (heights1, scheduled, rng2))" and
    base1: "base1 = scheduled + confirmations" and
    rest: "schedule_layers G confirmations spaced draw stage_layers heights1 base1 rng2 [Suc l..<m] = Some (Ok heights')"
    unfolding lm by (auto simp: Let_def order outcome_simps split: if_splits option.splits)
  note run = schedule_layer_Ok [OF layer]
  have here: "base \<le> heights1 ! i \<and> heights1 ! i \<le> scheduled"
    if "i < length stage_layers" "stage_layers ! i = l" for i
    using run that Suc.prems(2) set_order by (simp add: set_stages_of_layer)
  have below: "heights1 ! i = heights ! i" if "i < length stage_layers" "stage_layers ! i < l" for i
    using run that Suc.prems(2) set_order by (simp add: set_stages_of_layer)
  have apart: "layers_apart confirmations stage_layers heights1 (Suc l) base1"
    unfolding layers_apart_def
  proof (intro allI impI conjI)
    fix i assume i: "i < length stage_layers" "stage_layers ! i < Suc l"
    show "heights1 ! i + confirmations \<le> base1"
      using i here [of i] below [of i] Suc.prems(3) run base1
      by (cases "stage_layers ! i = l") (fastforce simp: layers_apart_def)+
    fix j assume j: "j < length stage_layers" "stage_layers ! j < Suc l" "stage_layers ! i < stage_layers ! j"
    show "heights1 ! i + confirmations \<le> heights1 ! j"
      using i j here [of j] below [of i] below [of j] Suc.prems(3)
      by (cases "stage_layers ! j = l") (fastforce simp: layers_apart_def)+
  qed
  have floor1: "\<forall>i < length stage_layers. stage_layers ! i < Suc l \<longrightarrow> floor \<le> heights1 ! i"
    using here below Suc.prems(4,5) by (metis less_Suc_eq le_trans)
  have "floor \<le> base1" "length heights1 = length stage_layers" "k = m - Suc l" "Suc l \<le> m"
    using run base1 Suc.prems(2,5) Suc.hyps(2) by auto
  with Suc.hyps(1) [OF _ rest _ apart floor1] show ?case by simp
qed

lemma planned_heights_apart:
  assumes "planned_preparation_scheduled_heights G confirmations network preparation_policy policy
      target_height stage_layers rng = Some (Ok heights)"
  shows "length heights = length stage_layers"
    and "i < length stage_layers \<Longrightarrow> target_height - 1 \<le> heights ! i"
    and "i < length stage_layers \<Longrightarrow> j < length stage_layers \<Longrightarrow> stage_layers ! i < stage_layers ! j \<Longrightarrow>
      heights ! i + confirmations \<le> heights ! j"
proof -
  have "length heights = length stage_layers
    \<and> (\<forall>i < length stage_layers. target_height - 1 \<le> heights ! i)
    \<and> (\<forall>i < length stage_layers. \<forall>j < length stage_layers. stage_layers ! i < stage_layers ! j
          \<longrightarrow> heights ! i + confirmations \<le> heights ! j)"
  proof (cases "stage_layers = []")
    case False
    let ?m = "Suc (Max (set stage_layers))"
    have below: "stage_layers ! i < ?m" if "i < length stage_layers" for i
      using that by (simp add: less_Suc_eq_le)
    from assms False have run: "schedule_layers G confirmations (preparation_policy = Zip318Spaced)
        (preparation_delay_with_rng G network policy (length stage_layers)) stage_layers
        (replicate (length stage_layers) 0) (target_height - 1) rng [0..<?m] = Some (Ok heights)"
      by (simp only: planned_preparation_scheduled_heights_def saturating_sub_def if_False)
    from schedule_layers_Ok [OF run, of "target_height - 1"] below show ?thesis
      by (auto simp: layers_apart_def)
  qed (use assms in \<open>simp add: planned_preparation_scheduled_heights_def\<close>)
  then show "length heights = length stage_layers"
    "i < length stage_layers \<Longrightarrow> target_height - 1 \<le> heights ! i"
    "i < length stage_layers \<Longrightarrow> j < length stage_layers \<Longrightarrow> stage_layers ! i < stage_layers ! j \<Longrightarrow>
      heights ! i + confirmations \<le> heights ! j" by blast+
qed

end

text \<open>
  C39: When the preparation heights are planned, every stage of a later layer is scheduled at
  least the required confirmations after every stage of an earlier layer, and none before the
  block preceding the target height.
\<close>

theorem preparation_layers_wait:
  assumes "rng_contract G"
    and "planned_preparation_scheduled_heights G confirmations network preparation_policy policy
      target_height stage_layers rng = Some (Ok heights)"
  shows "length heights = length stage_layers
    \<and> (\<forall>i < length heights. target_height - 1 \<le> heights ! i)
    \<and> (\<forall>i < length heights. \<forall>j < length heights. stage_layers ! i < stage_layers ! j
          \<longrightarrow> heights ! i + confirmations \<le> heights ! j)"
  using rng_contract.planned_heights_apart [OF assms] by simp

lemma example_heights:
  "planned_preparation_scheduled_heights counting_rng 3 Main Zip318Spaced Standard90Minutes 1000 [0, 0, 1] 6144
     = Some (Ok [1006, 1002, 1014])"
  by (simp add: planned_preparation_scheduled_heights_def stages_of_layer_def counting_rng_def
      preparation_delay_with_rng_def preparation_schedule_parameters_for_transaction_count_def
      preparation_schedule_parameters_def preparation_constants draw_delay_simp draw_delay_once_def
      saturating_sub_def checked_add_def u32_max_def dbind_def upt_rec)

theorem preparation_layers_wait_witness:
  "(1006::nat) + 3 \<le> 1014 \<and> (1002::nat) + 3 \<le> 1014"
proof -
  from preparation_layers_wait [OF counting.rng_contract_axioms example_heights]
  have "\<forall>i < length [1006, 1002, 1014 :: nat]. \<forall>j < length [1006, 1002, 1014 :: nat].
      [0, 0, 1 :: nat] ! i < [0, 0, 1] ! j \<longrightarrow> [1006, 1002, 1014] ! i + 3 \<le> [1006, 1002, 1014 :: nat] ! j"
    by blast
  from this [rule_format, of 0 2] this [rule_format, of 1 2] show ?thesis by simp
qed

end
