(* ===== verification/Bytes.thy ===== *)
theory Bytes
  imports Prelude "HOL-Library.Word"
begin

text \<open>
  Byte strings and hexadecimal text: \<open>u8\<close> data is an 8-bit word, \<open>Vec<u8>\<close> a list of them,
  \<open>String\<close> a list of characters. The theory holds the little-endian form of a \<open>u32\<close> and
  the two functions on text the stage store uses, \<open>to_ascii_lowercase\<close> and
  \<open>validate_hex_32\<close>'s digit test.
\<close>

type_synonym byte = "8 word"
type_synonym bytes = "byte list"

text \<open>\<open>u32::to_le_bytes\<close> and \<open>u32::from_le_bytes\<close>.\<close>

definition le_bytes :: "u32 \<Rightarrow> bytes" where
  "le_bytes n =
     map word_of_nat [n mod 256, n div 256 mod 256, n div 65536 mod 256, n div 16777216 mod 256]"

definition from_le_bytes :: "bytes \<Rightarrow> u32" where
  "from_le_bytes bs =
     unat (bs ! 0) + 256 * unat (bs ! 1) + 65536 * unat (bs ! 2) + 16777216 * unat (bs ! 3)"

lemma length_le_bytes [simp]: "length (le_bytes n) = 4"
  by (simp add: le_bytes_def)

lemma unat_byte: "n < 256 \<Longrightarrow> unat (word_of_nat n :: byte) = n"
  by (simp add: unat_of_nat take_bit_eq_mod)

lemma unat_byte_less: "unat (b :: byte) < 256"
  using unsigned_less [of b, where ?'a = nat] by simp

lemma digits_256:
  fixes n :: nat
  shows "n < 256 ^ 4 \<Longrightarrow>
    n mod 256 + 256 * (n div 256 mod 256) + 65536 * (n div 65536 mod 256)
      + 16777216 * (n div 16777216 mod 256) = n"
proof -
  assume "n < 256 ^ 4"
  then have top: "n div 16777216 < 256" by simp
  have d: "n div 65536 = n div 256 div 256" "n div 16777216 = n div 65536 div 256"
    by (simp_all add: div_mult2_eq [symmetric])
  have "n = 256 * (n div 256) + n mod 256" by simp
  moreover have "n div 256 = 256 * (n div 65536) + n div 256 mod 256" using d by simp
  moreover have "n div 65536 = 256 * (n div 16777216) + n div 65536 mod 256" using d by simp
  moreover have "n div 16777216 mod 256 = n div 16777216" using top by simp
  ultimately show ?thesis by linarith
qed

lemma digit_step:
  fixes a q :: nat
  shows "a < 256 \<Longrightarrow> (a + 256 * q) mod 256 = a" "a < 256 \<Longrightarrow> (a + 256 * q) div 256 = q"
  by simp_all

lemma le_bytes_roundtrip: "n \<le> u32_max \<Longrightarrow> from_le_bytes (le_bytes n) = n"
  using digits_256 [of n] by (simp add: u32_max_def le_bytes_def from_le_bytes_def unat_byte)

lemma from_le_bytes_roundtrip:
  assumes "length bs = 4"
  shows "le_bytes (from_le_bytes bs) = bs \<and> from_le_bytes bs \<le> u32_max"
proof -
  from assms obtain a b c d where bs: "bs = [a, b, c, d]"
    by (auto simp: numeral_eq_Suc length_Suc_conv)
  define a' b' c' d' where
    un: "a' = unat a" "b' = unat b" "c' = unat c" "d' = unat d"
  have lt: "a' < 256" "b' < 256" "c' < 256" "d' < 256"
    by (simp_all add: un unat_byte_less)
  have n: "from_le_bytes bs = a' + 256 * (b' + 256 * (c' + 256 * d'))"
    by (simp add: bs from_le_bytes_def un)
  have d: "m div 65536 = m div 256 div 256" "m div 16777216 = m div 256 div 256 div 256" for m :: nat
    by (simp_all add: div_mult2_eq [symmetric])
  have "le_bytes (from_le_bytes bs) = map word_of_nat [a', b', c', d']"
    unfolding n le_bytes_def d by (simp only: digit_step lt) (use lt in simp)
  then have "le_bytes (from_le_bytes bs) = bs" by (simp add: bs un)
  moreover have "from_le_bytes bs \<le> u32_max"
    unfolding n u32_max_def distrib_left using lt by linarith
  ultimately show ?thesis by simp
qed

section \<open>Text\<close>

definition ascii_lower_char :: "char \<Rightarrow> char" where
  "ascii_lower_char c =
     (let k = (of_char c :: nat) in if 65 \<le> k \<and> k \<le> 90 then char_of (k + 32) else c)"

definition to_ascii_lowercase :: "string \<Rightarrow> string" where
  "to_ascii_lowercase s = map ascii_lower_char s"

definition is_ascii_hexdigit :: "char \<Rightarrow> bool" where
  "is_ascii_hexdigit c \<longleftrightarrow> c \<in> set ''0123456789abcdefABCDEF''"

lemma ascii_lower_char_idem [simp]: "ascii_lower_char (ascii_lower_char c) = ascii_lower_char c"
  by (auto simp: ascii_lower_char_def Let_def of_char_of)

lemma is_ascii_hexdigit_lower: "is_ascii_hexdigit c \<Longrightarrow> is_ascii_hexdigit (ascii_lower_char c)"
  unfolding is_ascii_hexdigit_def by (auto simp: ascii_lower_char_def Let_def char_of_eq_iff)

lemma to_ascii_lowercase_idem [simp]: "to_ascii_lowercase (to_ascii_lowercase s) = to_ascii_lowercase s"
  by (simp add: to_ascii_lowercase_def)

lemma length_to_ascii_lowercase [simp]: "length (to_ascii_lowercase s) = length s"
  by (simp add: to_ascii_lowercase_def)

end
