(* ===== verification/CompactSigs.thy ===== *)
theory CompactSigs
  imports Bytes
begin

text \<open>
  The compact blob that stores a signature list in the migration database
  (\<open>encode_compact_action_sigs\<close>, \<open>decode_compact_action_sigs\<close> and the pool codes of
  \<open>rust/src/wallet/keystone.rs\<close>): a little-endian 32-bit count and one 69-byte record per
  signature. \<open>SpendAuthSignature\<close> is the record of what its accessors return.
\<close>

definition ZCASH_SIG_LEN :: usize where "ZCASH_SIG_LEN = 64"
definition COMPACT_ACTION_SIG_LEN :: usize where "COMPACT_ACTION_SIG_LEN = 1 + 4 + ZCASH_SIG_LEN"

lemmas sig_constants = ZCASH_SIG_LEN_def COMPACT_ACTION_SIG_LEN_def

datatype signature_pool = PoolOrchard | PoolIronwood

record spend_auth_signature =
  value_pool :: signature_pool
  action_index :: usize
  signature :: bytes

datatype sig_error =
    TooManySignatures
  | BlobLengthOverflow
  | ActionIndexExceedsU32
  | BlobTooShort
  | BlobBodyLength nat nat nat      \<comment> \<open>body bytes, expected, count\<close>
  | UnsupportedSignaturePool nat

fun encode_signature_pool :: "signature_pool \<Rightarrow> byte" where
  "encode_signature_pool PoolOrchard = 0"
| "encode_signature_pool PoolIronwood = 1"

definition decode_signature_pool :: "u32 \<Rightarrow> (sig_error, signature_pool) outcome" where
  "decode_signature_pool code =
     (if code = 0 then Ok PoolOrchard else if code = 1 then Ok PoolIronwood
      else Err (UnsupportedSignaturePool code))"

definition try_u32 :: "usize \<Rightarrow> u32 option" where
  "try_u32 n = (if n \<le> u32_max then Some n else None)"

definition encode_sig :: "spend_auth_signature \<Rightarrow> (sig_error, bytes) outcome" where
  "encode_sig sig =
     obind (ok_or (try_u32 (action_index sig)) ActionIndexExceedsU32) (\<lambda>index.
       Ok (encode_signature_pool (value_pool sig) # le_bytes index @ signature sig))"

definition encode_compact_action_sigs :: "spend_auth_signature list \<Rightarrow> (sig_error, bytes) outcome" where
  "encode_compact_action_sigs sigs =
     obind (ok_or (try_u32 (length sigs)) TooManySignatures) (\<lambda>sig_count.
     obind (ok_or (Option.bind (checked_mul u64_max (length sigs) COMPACT_ACTION_SIG_LEN)
                     (\<lambda>body_len. checked_add u64_max body_len 4)) BlobLengthOverflow) (\<lambda>capacity.
     obind (mapM encode_sig sigs) (\<lambda>records. Ok (le_bytes sig_count @ concat records))))"

text \<open>\<open>chunks_exact(n)\<close> for \<open>n > 0\<close>; a shorter rest is dropped.\<close>

function chunks_exact :: "nat \<Rightarrow> 'a list \<Rightarrow> 'a list list" where
  "chunks_exact n xs =
     (if n = 0 \<or> length xs < n then [] else take n xs # chunks_exact n (drop n xs))"
  by pat_completeness auto
termination by (relation "measure (\<lambda>(n, xs). length xs)") auto

declare chunks_exact.simps [simp del]

definition decode_sig :: "bytes \<Rightarrow> (sig_error, spend_auth_signature) outcome" where
  "decode_sig rec =
     obind (decode_signature_pool (unat (rec ! 0))) (\<lambda>pool.
       Ok \<lparr>value_pool = pool, action_index = from_le_bytes (take 4 (drop 1 rec)),
           signature = drop 5 rec\<rparr>)"

definition decode_compact_action_sigs :: "bytes \<Rightarrow> (sig_error, spend_auth_signature list) outcome" where
  "decode_compact_action_sigs bs =
     (if length bs < 4 then Err BlobTooShort
      else let sig_count = from_le_bytes (take 4 bs); body = drop 4 bs in
        obind (ok_or (checked_mul u64_max sig_count COMPACT_ACTION_SIG_LEN) BlobLengthOverflow) (\<lambda>expected.
        if length body \<noteq> expected then Err (BlobBodyLength (length body) expected sig_count)
        else mapM decode_sig (chunks_exact COMPACT_ACTION_SIG_LEN body)))"

section \<open>Round trips\<close>

lemma pool_roundtrip: "decode_signature_pool (unat (encode_signature_pool p)) = Ok p"
  by (cases p) (simp_all add: decode_signature_pool_def)

lemma pool_decode: "decode_signature_pool (unat c) = Ok p \<Longrightarrow> encode_signature_pool p = c"
  by (rule unsigned_word_eqI [where ?'a = nat])
    (auto simp: decode_signature_pool_def split: if_splits)

lemma encode_sig_Ok:
  assumes "encode_sig sig = Ok rec" and "length (signature sig) = ZCASH_SIG_LEN"
  shows "length rec = COMPACT_ACTION_SIG_LEN \<and> decode_sig rec = Ok sig"
proof -
  from assms(1) have rec: "rec = encode_signature_pool (value_pool sig) # le_bytes (action_index sig) @ signature sig"
    and index: "action_index sig \<le> u32_max"
    by (auto simp: encode_sig_def outcome_simps try_u32_def split: if_splits)
  have "drop 5 rec = signature sig"
    by (simp add: rec drop_Cons')
  then show ?thesis using assms(2) index
    by (simp add: rec decode_sig_def pool_roundtrip le_bytes_roundtrip sig_constants)
qed

lemma chunks_exact_concat:
  "0 < n \<Longrightarrow> \<forall>r \<in> set recs. length r = n \<Longrightarrow> chunks_exact n (concat recs) = recs"
proof (induction recs)
  case Nil
  then show ?case by (subst chunks_exact.simps) simp
next
  case (Cons r recs)
  then show ?case by (subst chunks_exact.simps) auto
qed

lemma concat_chunks_exact:
  "0 < n \<Longrightarrow> length xs = k * n \<Longrightarrow> concat (chunks_exact n xs) = xs
     \<and> length (chunks_exact n xs) = k \<and> (\<forall>r \<in> set (chunks_exact n xs). length r = n)"
proof (induction k arbitrary: xs)
  case 0
  then show ?case by (subst (1 2 3) chunks_exact.simps) simp
next
  case (Suc k)
  then have "chunks_exact n xs = take n xs # chunks_exact n (drop n xs)"
    by (subst chunks_exact.simps) simp
  with Suc.IH [of "drop n xs"] Suc.prems show ?case by simp
qed

lemma compact_sigs_decode:
  assumes "encode_compact_action_sigs sigs = Ok blob"
    and "\<forall>sig \<in> set sigs. length (signature sig) = ZCASH_SIG_LEN"
  shows "decode_compact_action_sigs blob = Ok sigs"
proof -
  from assms(1) obtain records where blob: "blob = le_bytes (length sigs) @ concat records" and
    recs: "mapM encode_sig sigs = Ok records" and len: "length sigs \<le> u32_max"
    by (auto simp: encode_compact_action_sigs_def outcome_simps try_u32_def split: if_splits)
  have each: "\<forall>r \<in> set records. length r = COMPACT_ACTION_SIG_LEN"
    and decode: "mapM decode_sig records = Ok sigs"
    using recs assms(2) encode_sig_Ok
    by (auto simp: mapM_eq_Ok list_all2_conv_all_nth in_set_conv_nth) (metis nth_mem)+
  have "length records = length sigs" using recs by (auto simp: mapM_eq_Ok dest: list_all2_lengthD)
  moreover have "length (concat records) = length records * COMPACT_ACTION_SIG_LEN"
    using each by (induction records) auto
  ultimately have "length (concat records) = length sigs * COMPACT_ACTION_SIG_LEN" by simp
  moreover have "length sigs * COMPACT_ACTION_SIG_LEN \<le> u64_max"
    using len by (simp add: sig_constants u32_max_def u64_max_def)
  moreover have "chunks_exact COMPACT_ACTION_SIG_LEN (concat records) = records"
    using each by (intro chunks_exact_concat) (simp_all add: sig_constants)
  ultimately show ?thesis
    using decode len by (simp add: decode_compact_action_sigs_def blob le_bytes_roundtrip checked_mul_def
        ok_or_def)
qed

text \<open>
  C40: What the encoder writes the decoder reads back: signatures of the right length survive
  the round trip through the database column.
\<close>

theorem compact_sigs_roundtrip:
  assumes "encode_compact_action_sigs sigs = Ok blob"
    and "\<forall>sig \<in> set sigs. length (signature sig) = ZCASH_SIG_LEN"
  shows "decode_compact_action_sigs blob = Ok sigs"
  using assms by (rule compact_sigs_decode)

theorem compact_sigs_roundtrip_witness:
  "decode_compact_action_sigs
     (le_bytes 1 @ (1 # le_bytes 258 @ replicate 64 7)) =
   Ok [\<lparr>value_pool = PoolIronwood, action_index = 258, signature = replicate 64 7\<rparr>]"
proof (rule compact_sigs_roundtrip)
  show "encode_compact_action_sigs
      [\<lparr>value_pool = PoolIronwood, action_index = 258, signature = replicate 64 7\<rparr>]
    = Ok (le_bytes 1 @ (1 # le_bytes 258 @ replicate 64 7))"
    by (simp add: encode_compact_action_sigs_def encode_sig_def try_u32_def ok_or_def u32_max_def u64_max_def
        checked_mul_def checked_add_def sig_constants)
qed (simp add: sig_constants)

text \<open>
  The format is canonical: a byte string the decoder accepts is the one the encoder writes
  for the signatures it returns.
\<close>

theorem compact_sigs_canonical:
  assumes "decode_compact_action_sigs blob = Ok sigs"
  shows "encode_compact_action_sigs sigs = Ok blob"
proof -
  let ?n = COMPACT_ACTION_SIG_LEN and ?body = "drop 4 blob"
  from assms(1) have len: "4 \<le> length blob" and
    body: "length ?body = from_le_bytes (take 4 blob) * ?n" and
    fits: "from_le_bytes (take 4 blob) * ?n \<le> u64_max" and
    decode: "mapM decode_sig (chunks_exact ?n ?body) = Ok sigs"
    by (auto simp: decode_compact_action_sigs_def Let_def outcome_simps split: if_splits)
  have head: "le_bytes (from_le_bytes (take 4 blob)) = take 4 blob" "from_le_bytes (take 4 blob) \<le> u32_max"
    using from_le_bytes_roundtrip [of "take 4 blob"] len by auto
  note chunks = concat_chunks_exact [OF _ body]
  have pos: "0 < ?n" by (simp add: sig_constants)
  have count: "length sigs = from_le_bytes (take 4 blob)"
    using decode chunks [OF pos] by (auto simp: mapM_eq_Ok dest: list_all2_lengthD)
  have each: "encode_sig sig = Ok rec" if "decode_sig rec = Ok sig" "length rec = ?n" for rec sig
  proof -
    from that(1) obtain p where p: "decode_signature_pool (unat (rec ! 0)) = Ok p"
      "sig = \<lparr>value_pool = p, action_index = from_le_bytes (take 4 (drop 1 rec)), signature = drop 5 rec\<rparr>"
      by (auto simp: decode_sig_def outcome_simps)
    have idx: "length (take 4 (drop 1 rec)) = 4" using that(2) by (simp add: sig_constants)
    have "rec = rec ! 0 # take 4 (drop 1 rec) @ drop 4 (drop 1 rec)"
      using that(2) by (cases rec) (simp_all add: sig_constants)
    then show ?thesis
      using from_le_bytes_roundtrip [OF idx] pool_decode [OF p(1)]
      by (simp add: encode_sig_def p(2) try_u32_def ok_or_def)
  qed
  have "list_all2 (\<lambda>sig rec. encode_sig sig = Ok rec) sigs (chunks_exact ?n ?body)"
  proof (rule list_all2_all_nthI)
    show len': "length sigs = length (chunks_exact ?n ?body)"
      using decode by (auto simp: mapM_eq_Ok dest: list_all2_lengthD)
    fix i assume i: "i < length sigs"
    let ?r = "chunks_exact ?n ?body ! i"
    have "?r \<in> set (chunks_exact ?n ?body)" using i len' by simp
    moreover have "decode_sig ?r = Ok (sigs ! i)"
      using decode i by (simp add: mapM_eq_Ok list_all2_conv_all_nth)
    ultimately show "encode_sig (sigs ! i) = Ok ?r" using each chunks [OF pos] by blast
  qed
  then have "mapM encode_sig sigs = Ok (chunks_exact ?n ?body)" by (simp add: mapM_eq_Ok)
  then show ?thesis
    using count head chunks [OF pos] fits
    by (simp add: encode_compact_action_sigs_def try_u32_def ok_or_def checked_mul_def checked_add_def
        u32_max_def u64_max_def sig_constants)
qed

theorem compact_sigs_canonical_witness:
  "encode_compact_action_sigs [] = Ok [0, 0, 0, 0]"
  by (rule compact_sigs_canonical)
    (simp_all add: decode_compact_action_sigs_def from_le_bytes_def checked_mul_def ok_or_def
      sig_constants chunks_exact.simps)

end
