(* ===== verification/SecretPayload.thy ===== *)
theory SecretPayload
  imports Bytes
begin

text \<open>
  Encrypted columns (\<open>rust/src/wallet/secret_payload.rs\<close>): a payload is sealed with
  AES-256-GCM under a PBKDF2 key, cut into ciphertext and tag, and stored as a JSON envelope of
  base64 texts. The cryptographic crates, the base64 engine, \<open>serde_json\<close> and the operating
  system's random generator are third-party code: the record \<open>crypto_env\<close> holds what the
  functions use of them, \<open>crypto_ok\<close> what those crates document.
\<close>

definition KDF_ITERATIONS :: u32 where "KDF_ITERATIONS = 100000"
definition KEY_LEN :: usize where "KEY_LEN = 32"
definition NONCE_LEN :: usize where "NONCE_LEN = 12"
definition MAC_LEN :: usize where "MAC_LEN = 16"

lemmas payload_constants = KDF_ITERATIONS_def KEY_LEN_def NONCE_LEN_def MAC_LEN_def

record encrypted_payload =
  payload_version :: u8
  payload_nonce :: string
  payload_cipher_text :: string
  payload_mac :: string

datatype payload_error =
    DecodeBase64Failed string
  | CipherInitFailed
  | EncryptFailed
  | ShorterThanTag
  | SerializeFailed
  | ParseFailed
  | UnsupportedPayloadVersion u8
  | InvalidNonceLength usize
  | InvalidMacLength usize
  | DecryptFailed

text \<open>The random generator is a sequence of nonces; a call names the position it draws.\<close>

record crypto_env =
  pbkdf2 :: "bytes \<Rightarrow> bytes \<Rightarrow> u32 \<Rightarrow> usize \<Rightarrow> bytes"
  os_nonce :: "nat \<Rightarrow> bytes"
  aead_seal :: "bytes \<Rightarrow> bytes \<Rightarrow> bytes \<Rightarrow> bytes option"
  aead_open :: "bytes \<Rightarrow> bytes \<Rightarrow> bytes \<Rightarrow> bytes option"
  b64_encode :: "bytes \<Rightarrow> string"
  b64_decode :: "string \<Rightarrow> bytes option"
  payload_to_json :: "encrypted_payload \<Rightarrow> string option"
  payload_from_json :: "string \<Rightarrow> encrypted_payload option"

definition decode_base64 :: "crypto_env \<Rightarrow> string \<Rightarrow> string \<Rightarrow> (payload_error, bytes) outcome" where
  "decode_base64 env input label = ok_or (b64_decode env input) (DecodeBase64Failed label)"

definition derive_key :: "crypto_env \<Rightarrow> bytes \<Rightarrow> bytes \<Rightarrow> bytes" where
  "derive_key env password salt = pbkdf2 env password salt KDF_ITERATIONS KEY_LEN"

text \<open>A \<open>PayloadKey\<close> is the derived key.\<close>

type_synonym payload_key = bytes

definition payload_key_new :: "crypto_env \<Rightarrow> bytes \<Rightarrow> bytes \<Rightarrow> payload_key" where
  "payload_key_new env password salt = derive_key env password salt"

definition cipher :: "payload_key \<Rightarrow> (payload_error, bytes) outcome" where
  "cipher key = (if length key = KEY_LEN then Ok key else Err CipherInitFailed)"

definition encrypt_with_cipher ::
  "crypto_env \<Rightarrow> nat \<Rightarrow> bytes \<Rightarrow> bytes \<Rightarrow> (payload_error, string) outcome" where
  "encrypt_with_cipher env draw key clear_text =
     (let nonce = os_nonce env draw in
      obind (ok_or (aead_seal env key nonce clear_text) EncryptFailed) (\<lambda>cipher_text_and_tag.
      if length cipher_text_and_tag < MAC_LEN then Err ShorterThanTag
      else let split_at = length cipher_text_and_tag - MAC_LEN in
        ok_or (payload_to_json env
          \<lparr>payload_version = 1,
           payload_nonce = b64_encode env nonce,
           payload_cipher_text = b64_encode env (take split_at cipher_text_and_tag),
           payload_mac = b64_encode env (drop split_at cipher_text_and_tag)\<rparr>) SerializeFailed))"

definition decrypt_with_cipher ::
  "crypto_env \<Rightarrow> bytes \<Rightarrow> string \<Rightarrow> (payload_error, bytes) outcome" where
  "decrypt_with_cipher env key raw_payload =
     obind (ok_or (payload_from_json env raw_payload) ParseFailed) (\<lambda>payload.
     if payload_version payload \<noteq> 1 then Err (UnsupportedPayloadVersion (payload_version payload))
     else obind (decode_base64 env (payload_nonce payload) ''encrypted payload nonce'') (\<lambda>nonce.
       if length nonce \<noteq> NONCE_LEN then Err (InvalidNonceLength (length nonce))
       else obind (decode_base64 env (payload_cipher_text payload) ''encrypted payload cipher text'') (\<lambda>cipher_text.
         obind (decode_base64 env (payload_mac payload) ''encrypted payload mac'') (\<lambda>mac.
         if length mac \<noteq> MAC_LEN then Err (InvalidMacLength (length mac))
         else ok_or (aead_open env key nonce (cipher_text @ mac)) DecryptFailed))))"

definition payload_key_encrypt ::
  "crypto_env \<Rightarrow> nat \<Rightarrow> payload_key \<Rightarrow> bytes \<Rightarrow> (payload_error, string) outcome" where
  "payload_key_encrypt env draw key clear_text =
     obind (cipher key) (\<lambda>c. encrypt_with_cipher env draw c clear_text)"

definition payload_key_decrypt ::
  "crypto_env \<Rightarrow> payload_key \<Rightarrow> string \<Rightarrow> (payload_error, bytes) outcome" where
  "payload_key_decrypt env key raw_payload =
     obind (cipher key) (\<lambda>c. decrypt_with_cipher env c raw_payload)"

definition encrypt_payload ::
  "crypto_env \<Rightarrow> nat \<Rightarrow> bytes \<Rightarrow> bytes \<Rightarrow> bytes \<Rightarrow> (payload_error, string) outcome" where
  "encrypt_payload env draw clear_text password salt =
     payload_key_encrypt env draw (payload_key_new env password salt) clear_text"

definition decrypt_payload ::
  "crypto_env \<Rightarrow> string \<Rightarrow> bytes \<Rightarrow> bytes \<Rightarrow> (payload_error, bytes) outcome" where
  "decrypt_payload env raw_payload password salt =
     payload_key_decrypt env (payload_key_new env password salt) raw_payload"

definition encrypt_payload_with_base64_salt ::
  "crypto_env \<Rightarrow> nat \<Rightarrow> bytes \<Rightarrow> bytes \<Rightarrow> string \<Rightarrow> (payload_error, string) outcome" where
  "encrypt_payload_with_base64_salt env draw clear_text password salt_base64 =
     obind (decode_base64 env salt_base64 ''secure storage salt'') (\<lambda>salt.
       encrypt_payload env draw clear_text password salt)"

definition decrypt_payload_with_base64_salt ::
  "crypto_env \<Rightarrow> string \<Rightarrow> bytes \<Rightarrow> string \<Rightarrow> (payload_error, bytes) outcome" where
  "decrypt_payload_with_base64_salt env raw_payload password salt_base64 =
     obind (decode_base64 env salt_base64 ''secure storage salt'') (\<lambda>salt.
       decrypt_payload env raw_payload password salt)"

definition derive_password_verifier_base64 ::
  "crypto_env \<Rightarrow> bytes \<Rightarrow> string \<Rightarrow> (payload_error, string) outcome" where
  "derive_password_verifier_base64 env password salt_base64 =
     obind (decode_base64 env salt_base64 ''password verifier salt'') (\<lambda>salt.
       Ok (b64_encode env (derive_key env password salt)))"

section \<open>What the crates document\<close>

definition crypto_ok :: "crypto_env \<Rightarrow> bool" where
  "crypto_ok env \<longleftrightarrow>
     (\<forall>p s n k. length (pbkdf2 env p s n k) = k) \<and>
     (\<forall>i. length (os_nonce env i) = 12) \<and>
     (\<forall>k n m c. aead_seal env k n m = Some c \<longrightarrow>
        length c = length m + 16 \<and> aead_open env k n c = Some m) \<and>
     (\<forall>b. b64_decode env (b64_encode env b) = Some b) \<and>
     (\<forall>p s. payload_to_json env p = Some s \<longrightarrow> payload_from_json env s = Some p)"

text \<open>
  The interface the migration store relies on: a sealed text opens to what was sealed, under
  the same password and salt.
\<close>

locale payload_cipher =
  fixes seal :: "nat \<Rightarrow> bytes \<Rightarrow> bytes \<Rightarrow> bytes \<Rightarrow> (payload_error, string) outcome"
    and unseal :: "string \<Rightarrow> bytes \<Rightarrow> bytes \<Rightarrow> (payload_error, bytes) outcome"
  assumes opens: "seal draw clear password salt = Ok raw \<Longrightarrow> unseal raw password salt = Ok clear"
begin

lemma sealed_determines:
  "seal i clear password salt = Ok raw \<Longrightarrow> seal j clear' password salt = Ok raw \<Longrightarrow> clear = clear'"
  using opens [of i clear password salt raw] opens [of j clear' password salt raw] by simp

lemma unseal_no_panic: "seal i clear password salt = Ok raw \<Longrightarrow> unseal raw password salt \<noteq> Panic"
  by (simp add: opens)

end

lemma encrypt_payload_opens:
  assumes env: "crypto_ok env" and enc: "encrypt_payload env draw clear password salt = Ok raw"
  shows "decrypt_payload env raw password salt = Ok clear"
proof -
  let ?key = "payload_key_new env password salt" and ?nonce = "os_nonce env draw"
  from enc obtain sealed where key: "length ?key = KEY_LEN" and
    sealed: "aead_seal env ?key ?nonce clear = Some sealed" and
    json: "payload_to_json env
       \<lparr>payload_version = 1, payload_nonce = b64_encode env ?nonce,
        payload_cipher_text = b64_encode env (take (length sealed - MAC_LEN) sealed),
        payload_mac = b64_encode env (drop (length sealed - MAC_LEN) sealed)\<rparr> = Some raw"
    by (auto simp: encrypt_payload_def payload_key_encrypt_def cipher_def encrypt_with_cipher_def Let_def
        outcome_simps split: if_splits)
  have parse: "payload_from_json env raw =
      Some \<lparr>payload_version = 1, payload_nonce = b64_encode env ?nonce,
        payload_cipher_text = b64_encode env (take (length sealed - MAC_LEN) sealed),
        payload_mac = b64_encode env (drop (length sealed - MAC_LEN) sealed)\<rparr>"
    using env json unfolding crypto_ok_def by blast
  have opened: "length sealed = length clear + 16" "aead_open env ?key ?nonce sealed = Some clear"
    using env sealed unfolding crypto_ok_def by blast+
  have laws: "length ?nonce = 12" "\<And>b. b64_decode env (b64_encode env b) = Some b"
    using env unfolding crypto_ok_def by blast+
  show ?thesis
    using key opened laws parse
    by (simp add: decrypt_payload_def payload_key_decrypt_def cipher_def decrypt_with_cipher_def
        decode_base64_def ok_or_def payload_constants)
qed

lemma payload_cipher_of_crypto:
  "crypto_ok env \<Longrightarrow> payload_cipher (encrypt_payload env) (decrypt_payload env)"
  by unfold_locales (rule encrypt_payload_opens)

section \<open>An instance of the third-party code\<close>

text \<open>
  A transparent environment, to show that \<open>crypto_ok\<close> can hold and to evaluate examples: the
  seal appends sixteen zero bytes, base64 is the byte-to-character map, and the JSON text is
  the three fields, the first two of them length-prefixed.
\<close>

definition clear_b64 :: "bytes \<Rightarrow> string" where
  "clear_b64 bs = map (\<lambda>b. char_of (unat b)) bs"

definition clear_unb64 :: "string \<Rightarrow> bytes option" where
  "clear_unb64 s = Some (map (\<lambda>c. word_of_nat (of_char c)) s)"

definition prefixed :: "string \<Rightarrow> string" where
  "prefixed s = replicate (length s) CHR ''+'' @ CHR ''.'' # s"

definition unprefixed :: "string \<Rightarrow> string \<times> string" where
  "unprefixed t =
     (let k = length (takeWhile (\<lambda>c. c = CHR ''+'') t); rest = drop (k + 1) t in
      (take k rest, drop k rest))"

definition clear_json :: "encrypted_payload \<Rightarrow> string option" where
  "clear_json p =
     (if payload_version p = 1 then
        Some (prefixed (payload_nonce p) @ prefixed (payload_cipher_text p) @ payload_mac p)
      else None)"

definition clear_unjson :: "string \<Rightarrow> encrypted_payload option" where
  "clear_unjson t =
     (case unprefixed t of (nonce, rest) \<Rightarrow> case unprefixed rest of (text, mac) \<Rightarrow>
        Some \<lparr>payload_version = 1, payload_nonce = nonce, payload_cipher_text = text, payload_mac = mac\<rparr>)"

definition clear_crypto :: crypto_env where
  "clear_crypto =
     \<lparr>pbkdf2 = (\<lambda>p s n k. replicate k 0),
      os_nonce = (\<lambda>i. word_of_nat i # replicate 11 0),
      aead_seal = (\<lambda>k n m. Some (m @ replicate 16 0)),
      aead_open = (\<lambda>k n c. Some (take (length c - 16) c)),
      b64_encode = clear_b64, b64_decode = clear_unb64,
      payload_to_json = clear_json, payload_from_json = clear_unjson\<rparr>"

lemma unprefixed_prefixed: "unprefixed (prefixed s @ t) = (s, t)"
proof -
  have "takeWhile (\<lambda>c. c = CHR ''+'') (prefixed s @ t) = replicate (length s) CHR ''+''"
    by (simp add: prefixed_def takeWhile_append)
  then show ?thesis by (simp add: unprefixed_def prefixed_def)
qed

lemma clear_b64_inverse: "clear_unb64 (clear_b64 bs) = Some bs"
  by (simp add: clear_unb64_def clear_b64_def comp_def of_char_of unat_byte_less map_idI)

lemma clear_crypto_ok: "crypto_ok clear_crypto"
  by (auto simp: crypto_ok_def clear_crypto_def clear_b64_inverse clear_json_def clear_unjson_def
      unprefixed_prefixed split: if_splits)

interpretation clear_payload: payload_cipher "encrypt_payload clear_crypto" "decrypt_payload clear_crypto"
  by (rule payload_cipher_of_crypto [OF clear_crypto_ok])

section \<open>Properties\<close>

text \<open>
  A payload the wallet seals opens again, under the same password and base64 salt, to the
  bytes that were sealed, through the base64 entry points.
\<close>

theorem payload_roundtrip:
  assumes "crypto_ok env"
    and "encrypt_payload_with_base64_salt env draw clear password salt_base64 = Ok raw"
  shows "decrypt_payload_with_base64_salt env raw password salt_base64 = Ok clear"
  using assms encrypt_payload_opens
  by (auto simp: encrypt_payload_with_base64_salt_def decrypt_payload_with_base64_salt_def outcome_simps)

theorem payload_roundtrip_witness:
  "decrypt_payload_with_base64_salt clear_crypto
     (prefixed (clear_b64 (7 # replicate 11 0)) @ prefixed (clear_b64 [1, 2]) @ clear_b64 (replicate 16 0))
     [3] ''salt'' = Ok [1, 2]"
proof (rule payload_roundtrip [OF clear_crypto_ok])
  show "encrypt_payload_with_base64_salt clear_crypto 7 [1, 2] [3] ''salt'' =
    Ok (prefixed (clear_b64 (7 # replicate 11 0)) @ prefixed (clear_b64 [1, 2]) @ clear_b64 (replicate 16 0))"
    by (simp add: encrypt_payload_with_base64_salt_def encrypt_payload_def payload_key_encrypt_def
        payload_key_new_def derive_key_def cipher_def encrypt_with_cipher_def decode_base64_def clear_crypto_def
        clear_unb64_def clear_json_def payload_constants ok_or_def Let_def)
qed

end
