(* ===== verification/StageTypes.thy ===== *)
theory StageTypes
  imports CompactSigs SecretPayload
begin

text \<open>
  The data of the denomination stages (\<open>rust/src/wallet/sync/migration/stages.rs\<close>): the
  signed preparation transactions as the code hands them over (\<open>stage_insert\<close>, \<open>stage\<close>),
  and the rows of the three tables. A column keeps its SQL form: the status and the kind are
  text, encrypted columns are payload strings, a nullable column is an option. Integer columns
  are natural numbers (every writer stores an unsigned value); reading one as \<open>u32\<close> fails
  when it does not fit, as \<open>row.get\<close> does.
\<close>

section \<open>Status and output kind\<close>

datatype stage_status = AwaitingInputs | Pending | Broadcasted | Confirmed

fun status_as_str :: "stage_status \<Rightarrow> string" where
  "status_as_str AwaitingInputs = ''awaiting_inputs''"
| "status_as_str Pending = ''pending''"
| "status_as_str Broadcasted = ''broadcasted''"
| "status_as_str Confirmed = ''confirmed''"

datatype stage_output_role = RoleMigration | RoleChange | RoleContinuation

fun role_as_str :: "stage_output_role \<Rightarrow> string" where
  "role_as_str RoleMigration = ''migration''"
| "role_as_str RoleChange = ''change''"
| "role_as_str RoleContinuation = ''continuation''"

datatype stage_error =
    PayloadFailed payload_error
  | SigsFailed sig_error
  | UnknownStageStatus string
  | UnknownOutputKind string
  | RunIdEmpty
  | DuplicateStageIndex u32
  | InvalidHex string
  | DuplicateExpectedTxid string
  | EmptyBasePczt u32
  | NoRealInputs u32
  | NoRealOutputs u32
  | AwaitingHasRaw u32
  | EmptyRawTx u32
  | PendingWithoutRaw u32
  | CannotInsertAs u32 stage_status
  | InputAssignedTwice string u32
  | PartIndexOnOther u32 stage_output_role
  | RepeatedOutputIndex u32 u32
  | SqlFailed string
  | ReadFailed string
  | OrderExceedsU32 string
  | CountOverflow
  | RawTxEmpty
  | NotPromotable u32
  | StageNotFound string
  | CannotMove stage_status stage_status
  | MovedInclusion string
  | UnsupportedTarget stage_status
  | MalformedInclusion string
  | CannotRecordInclusion string
  | NoLongerPending string

definition parse_status :: "string \<Rightarrow> (stage_error, stage_status) outcome" where
  "parse_status s =
     (if s = ''awaiting_inputs'' then Ok AwaitingInputs
      else if s = ''pending'' then Ok Pending
      else if s = ''broadcasted'' then Ok Broadcasted
      else if s = ''confirmed'' then Ok Confirmed
      else Err (UnknownStageStatus s))"

definition parse_role :: "string \<Rightarrow> (stage_error, stage_output_role) outcome" where
  "parse_role s =
     (if s = ''migration'' then Ok RoleMigration
      else if s = ''change'' then Ok RoleChange
      else if s = ''continuation'' then Ok RoleContinuation
      else Err (UnknownOutputKind s))"

lemma parse_status_as_str: "parse_status (status_as_str x) = Ok x"
  by (cases x) (simp_all add: parse_status_def)

lemma parse_role_as_str: "parse_role (role_as_str x) = Ok x"
  by (cases x) (simp_all add: parse_role_def)

interpretation status: text_codec status_as_str parse_status
  by (unfold_locales, rule parse_status_as_str) (auto simp: parse_status_def split: if_splits)

interpretation role: text_codec role_as_str parse_role
  by (unfold_locales, rule parse_role_as_str) (auto simp: parse_role_def split: if_splits)

lemmas status_names = status_as_str.simps [symmetric]

section \<open>Stages as values\<close>

record stage_input_ref =
  in_txid_hex :: string
  in_output_index :: u32
  in_value_zatoshi :: u64
  in_note_version :: u8
  in_nullifier_hex :: "string option"

record stage_output_ref =
  out_output_index :: u32
  out_value_zatoshi :: u64
  out_note_version :: u8
  out_kind :: stage_output_role
  out_part_index :: "u32 option"

record stage_insert =
  ins_stage_index :: u32
  ins_base_pczt :: bytes
  ins_sigs :: "spend_auth_signature list"
  ins_raw_tx :: "bytes option"
  ins_expected_txid_hex :: string
  ins_target_height :: u32
  ins_scheduled_height :: u32
  ins_expiry_height :: u32
  ins_fee_zatoshi :: u64
  ins_status :: stage_status
  ins_inputs :: "stage_input_ref list"
  ins_outputs :: "stage_output_ref list"

record stage =
  stg_stage_index :: u32
  stg_base_pczt :: bytes
  stg_sigs :: "spend_auth_signature list"
  stg_raw_tx :: "bytes option"
  stg_expected_txid_hex :: string
  stg_target_height :: u32
  stg_scheduled_height :: u32
  stg_broadcast_not_before_height :: "u32 option"
  stg_expiry_height :: u32
  stg_fee_zatoshi :: u64
  stg_status :: stage_status
  stg_confirmed_mined_height :: "u32 option"
  stg_confirmed_block_hash :: "bytes option"
  stg_inputs :: "stage_input_ref list"
  stg_outputs :: "stage_output_ref list"

record pending_raw_stage =
  raw_stage_index :: u32
  raw_expected_txid_hex :: string
  raw_raw_tx :: bytes
  raw_target_height :: u32
  raw_scheduled_height :: u32
  raw_broadcast_not_before_height :: "u32 option"
  raw_expiry_height :: u32
  raw_fee_zatoshi :: u64

definition effective_broadcast_height :: "pending_raw_stage \<Rightarrow> u32" where
  "effective_broadcast_height s =
     max (case raw_broadcast_not_before_height s of None \<Rightarrow> 0 | Some h \<Rightarrow> h) (raw_scheduled_height s)"

record status_counts =
  awaiting_count :: u32
  pending_count :: u32
  broadcasted_count :: u32
  confirmed_count :: u32
  total_count :: u32

record chain_record =
  chain_stage_index :: u32
  chain_expected_txid_hex :: string
  chain_status :: stage_status
  chain_mined_height :: "u32 option"
  chain_block_hash :: "bytes option"
  chain_parent_txids :: "string list"
  chain_outputs :: "stage_output_ref list"

section \<open>Rows\<close>

record stage_row =
  row_run_id :: string
  row_stage_index :: nat
  row_base :: string
  row_sigs :: string
  row_raw :: "string option"
  row_txid :: string
  row_target :: nat
  row_scheduled :: nat
  row_not_before :: "nat option"
  row_attempted :: nat
  row_expiry :: nat
  row_fee :: nat
  row_mined :: "nat option"
  row_hash :: "bytes option"
  row_status :: string

record input_row =
  irow_run_id :: string
  irow_stage_index :: nat
  irow_order :: nat
  irow_txid :: string
  irow_output_index :: nat
  irow_value :: nat
  irow_version :: nat
  irow_nullifier :: "string option"

record output_row =
  orow_run_id :: string
  orow_stage_index :: nat
  orow_order :: nat
  orow_output_index :: nat
  orow_value :: nat
  orow_version :: nat
  orow_kind :: string
  orow_part_index :: "nat option"

record stage_db =
  tables_exist :: bool
  stage_rows :: "stage_row list"
  input_rows :: "input_row list"
  output_rows :: "output_row list"

definition empty_db :: stage_db where
  "empty_db = \<lparr>tables_exist = False, stage_rows = [], input_rows = [], output_rows = []\<rparr>"

section \<open>The schema\<close>

text \<open>
  \<open>ensure_schema\<close> creates the missing tables; on tables of the current form it changes
  nothing.
\<close>

definition ensure_schema :: "stage_db \<Rightarrow> stage_db" where
  "ensure_schema db = db\<lparr>tables_exist := True\<rparr>"

lemma ensure_schema_simps [simp]:
  "tables_exist (ensure_schema db)" "stage_rows (ensure_schema db) = stage_rows db"
  "input_rows (ensure_schema db) = input_rows db" "output_rows (ensure_schema db) = output_rows db"
  "ensure_schema (ensure_schema db) = ensure_schema db"
  by (simp_all add: ensure_schema_def)

text \<open>The three \<open>CHECK\<close> constraints of the stage table and the one of the output table.\<close>

definition stage_check :: "stage_row \<Rightarrow> bool" where
  "stage_check r \<longleftrightarrow>
     (row_status r \<in> {''awaiting_inputs'', ''pending'', ''broadcasted'', ''confirmed''}) \<and>
     (row_status r = ''awaiting_inputs'' \<and> row_raw r = None
      \<or> (row_status r = ''pending'' \<or> row_status r = ''broadcasted'') \<and> row_raw r \<noteq> None
      \<or> row_status r = ''confirmed'') \<and>
     (row_status r \<noteq> ''confirmed'' \<and> row_mined r = None \<and> row_hash r = None
      \<or> row_status r = ''confirmed'' \<and> row_mined r \<noteq> None
        \<and> (case row_hash r of None \<Rightarrow> False | Some h \<Rightarrow> length h = 32))"

definition output_check :: "output_row \<Rightarrow> bool" where
  "output_check r \<longleftrightarrow> orow_kind r \<in> {''migration'', ''change'', ''continuation''}"

text \<open>The \<open>PRIMARY KEY\<close> and \<open>UNIQUE\<close> columns of each table.\<close>

definition stage_key :: "stage_row \<Rightarrow> string \<times> nat" where
  "stage_key r = (row_run_id r, row_stage_index r)"

definition stage_txid_key :: "stage_row \<Rightarrow> string \<times> string" where
  "stage_txid_key r = (row_run_id r, row_txid r)"

definition input_key :: "input_row \<Rightarrow> string \<times> nat \<times> nat" where
  "input_key r = (irow_run_id r, irow_stage_index r, irow_order r)"

definition outpoint_key :: "input_row \<Rightarrow> string \<times> string \<times> nat" where
  "outpoint_key r = (irow_run_id r, irow_txid r, irow_output_index r)"

definition output_key :: "output_row \<Rightarrow> string \<times> nat \<times> nat" where
  "output_key r = (orow_run_id r, orow_stage_index r, orow_order r)"

definition output_index_key :: "output_row \<Rightarrow> string \<times> nat \<times> nat" where
  "output_index_key r = (orow_run_id r, orow_stage_index r, orow_output_index r)"

lemmas row_keys = stage_key_def stage_txid_key_def input_key_def outpoint_key_def output_key_def
  output_index_key_def

section \<open>Statements\<close>

text \<open>
  \<open>INSERT\<close> fails on a violated constraint, on a missing table, and where a bound \<open>u64\<close>
  exceeds the 64-bit signed integer of SQLite. \<open>UPDATE\<close> fails as a whole when a row it
  produces violates a \<open>CHECK\<close>; it returns the number of rows it changed.
\<close>

definition i64_max :: nat where "i64_max = 9223372036854775807"

definition insert_stage_row :: "stage_row \<Rightarrow> stage_db \<Rightarrow> stage_db option" where
  "insert_stage_row r db =
     (if tables_exist db \<and> stage_key r \<notin> stage_key ` set (stage_rows db)
        \<and> stage_txid_key r \<notin> stage_txid_key ` set (stage_rows db)
        \<and> stage_check r \<and> row_fee r \<le> i64_max
      then Some (db\<lparr>stage_rows := stage_rows db @ [r]\<rparr>) else None)"

definition insert_input_row :: "input_row \<Rightarrow> stage_db \<Rightarrow> stage_db option" where
  "insert_input_row r db =
     (if tables_exist db \<and> input_key r \<notin> input_key ` set (input_rows db)
        \<and> outpoint_key r \<notin> outpoint_key ` set (input_rows db) \<and> irow_value r \<le> i64_max
      then Some (db\<lparr>input_rows := input_rows db @ [r]\<rparr>) else None)"

definition insert_output_row :: "output_row \<Rightarrow> stage_db \<Rightarrow> stage_db option" where
  "insert_output_row r db =
     (if tables_exist db \<and> output_key r \<notin> output_key ` set (output_rows db)
        \<and> output_index_key r \<notin> output_index_key ` set (output_rows db)
        \<and> output_check r \<and> orow_value r \<le> i64_max
      then Some (db\<lparr>output_rows := output_rows db @ [r]\<rparr>) else None)"

definition update_stage_rows ::
  "(stage_row \<Rightarrow> bool) \<Rightarrow> (stage_row \<Rightarrow> stage_row) \<Rightarrow> stage_db \<Rightarrow> (nat \<times> stage_db) option" where
  "update_stage_rows P f db =
     (if \<forall>r \<in> set (stage_rows db). P r \<longrightarrow> stage_check (f r)
      then Some (length (filter P (stage_rows db)),
                 db\<lparr>stage_rows := map (\<lambda>r. if P r then f r else r) (stage_rows db)\<rparr>)
      else None)"

end
