(* ===== verification/StageStore.thy ===== *)
theory StageStore
  imports StageTypes
begin

text \<open>
  The operations of \<open>rust/src/wallet/sync/migration/stages.rs\<close> on the three tables. A writer
  takes the database and returns its result with the new database, also when it fails; a reader
  returns its result. \<open>draw\<close> is the position of the random generator that the payload
  encryption uses.
\<close>

section \<open>Validation\<close>

definition validate_hex_32 :: "string \<Rightarrow> string \<Rightarrow> (stage_error, unit) outcome" where
  "validate_hex_32 v label =
     (if length v \<noteq> 64 \<or> \<not> list_all is_ascii_hexdigit v then Err (InvalidHex label) else Ok ())"

definition validate_txid_hex :: "string \<Rightarrow> string \<Rightarrow> (stage_error, unit) outcome" where
  "validate_txid_hex v label = validate_hex_32 v label"

definition count_to_u32 :: "nat \<Rightarrow> (stage_error, u32) outcome" where
  "count_to_u32 n = (if n \<le> u32_max then Ok n else Err CountOverflow)"

definition validate_raw :: "stage_insert \<Rightarrow> (stage_error, unit) outcome" where
  "validate_raw s =
     (case (ins_status s, ins_raw_tx s) of
        (AwaitingInputs, None) \<Rightarrow> Ok ()
      | (AwaitingInputs, Some raw) \<Rightarrow> Err (AwaitingHasRaw (ins_stage_index s))
      | (Pending, Some raw) \<Rightarrow> if raw \<noteq> [] then Ok () else Err (EmptyRawTx (ins_stage_index s))
      | (Pending, None) \<Rightarrow> Err (PendingWithoutRaw (ins_stage_index s))
      | (other, raw) \<Rightarrow> Err (CannotInsertAs (ins_stage_index s) other))"

definition validate_input ::
  "(string \<times> u32) set \<Rightarrow> stage_input_ref \<Rightarrow> (stage_error, (string \<times> u32) set) outcome" where
  "validate_input input_outpoints i =
     obind (validate_txid_hex (in_txid_hex i) ''input transaction ID'') (\<lambda>_.
     obind (case in_nullifier_hex i of None \<Rightarrow> Ok ()
            | Some nullifier_hex \<Rightarrow> validate_hex_32 nullifier_hex ''input nullifier'') (\<lambda>_.
     let outpoint = (to_ascii_lowercase (in_txid_hex i), in_output_index i) in
     if outpoint \<in> input_outpoints then Err (InputAssignedTwice (in_txid_hex i) (in_output_index i))
     else Ok (insert outpoint input_outpoints)))"

definition validate_output ::
  "u32 \<Rightarrow> u32 set \<Rightarrow> stage_output_ref \<Rightarrow> (stage_error, u32 set) outcome" where
  "validate_output stage_index output_indices out =
     (if out_kind out \<noteq> RoleMigration \<and> out_part_index out \<noteq> None
      then Err (PartIndexOnOther stage_index (out_kind out))
      else if out_output_index out \<in> output_indices
      then Err (RepeatedOutputIndex stage_index (out_output_index out))
      else Ok (insert (out_output_index out) output_indices))"

type_synonym batch_seen = "u32 set \<times> string set \<times> (string \<times> u32) set"

definition validate_stage :: "batch_seen \<Rightarrow> stage_insert \<Rightarrow> (stage_error, batch_seen) outcome" where
  "validate_stage = (\<lambda>(stage_indices, expected_txids, input_outpoints) s.
     if ins_stage_index s \<in> stage_indices then Err (DuplicateStageIndex (ins_stage_index s))
     else obind (validate_txid_hex (ins_expected_txid_hex s) ''expected transaction ID'') (\<lambda>_.
       let txid = to_ascii_lowercase (ins_expected_txid_hex s) in
       if txid \<in> expected_txids then Err (DuplicateExpectedTxid (ins_expected_txid_hex s))
       else if ins_base_pczt s = [] then Err (EmptyBasePczt (ins_stage_index s))
       else if ins_inputs s = [] then Err (NoRealInputs (ins_stage_index s))
       else if ins_outputs s = [] then Err (NoRealOutputs (ins_stage_index s))
       else obind (validate_raw s) (\<lambda>_.
         obind (foldM validate_input input_outpoints (ins_inputs s)) (\<lambda>input_outpoints'.
         obind (foldM (validate_output (ins_stage_index s)) {} (ins_outputs s)) (\<lambda>_.
           Ok (insert (ins_stage_index s) stage_indices, insert txid expected_txids, input_outpoints'))))))"

definition validate_stage_batch :: "string \<Rightarrow> stage_insert list \<Rightarrow> (stage_error, unit) outcome" where
  "validate_stage_batch run_id stages =
     (if run_id = [] then Err RunIdEmpty
      else obind (foldM validate_stage ({}, {}, {}) stages) (\<lambda>_. Ok ()))"

section \<open>Insertion\<close>

definition encrypt_raw ::
  "crypto_env \<Rightarrow> nat \<Rightarrow> bytes option \<Rightarrow> bytes \<Rightarrow> bytes \<Rightarrow> (stage_error, nat \<times> string option) outcome" where
  "encrypt_raw env draw raw_tx password salt =
     (case raw_tx of
        None \<Rightarrow> Ok (draw, None)
      | Some raw \<Rightarrow> obind (map_err PayloadFailed (encrypt_payload env draw raw password salt))
                     (\<lambda>sealed. Ok (Suc draw, Some sealed)))"

definition input_row_of :: "string \<Rightarrow> u32 \<Rightarrow> nat \<times> stage_input_ref \<Rightarrow> input_row" where
  "input_row_of run_id stage_index = (\<lambda>(input_order, i).
     \<lparr>irow_run_id = run_id, irow_stage_index = stage_index, irow_order = input_order,
      irow_txid = to_ascii_lowercase (in_txid_hex i), irow_output_index = in_output_index i,
      irow_value = in_value_zatoshi i, irow_version = in_note_version i,
      irow_nullifier = map_option to_ascii_lowercase (in_nullifier_hex i)\<rparr>)"

definition output_row_of :: "string \<Rightarrow> u32 \<Rightarrow> nat \<times> stage_output_ref \<Rightarrow> output_row" where
  "output_row_of run_id stage_index = (\<lambda>(output_order, out).
     \<lparr>orow_run_id = run_id, orow_stage_index = stage_index, orow_order = output_order,
      orow_output_index = out_output_index out, orow_value = out_value_zatoshi out,
      orow_version = out_note_version out, orow_kind = role_as_str (out_kind out),
      orow_part_index = out_part_index out\<rparr>)"

definition insert_stage_input ::
  "string \<Rightarrow> u32 \<Rightarrow> stage_db \<Rightarrow> nat \<times> stage_input_ref \<Rightarrow> (stage_error, stage_db) outcome" where
  "insert_stage_input run_id stage_index db p =
     (if u32_max < fst p then Err (OrderExceedsU32 ''input'')
      else ok_or (insert_input_row (input_row_of run_id stage_index p) db)
             (SqlFailed ''Insert migration denomination stage input''))"

definition insert_stage_output ::
  "string \<Rightarrow> u32 \<Rightarrow> stage_db \<Rightarrow> nat \<times> stage_output_ref \<Rightarrow> (stage_error, stage_db) outcome" where
  "insert_stage_output run_id stage_index db p =
     (if u32_max < fst p then Err (OrderExceedsU32 ''output'')
      else ok_or (insert_output_row (output_row_of run_id stage_index p) db)
             (SqlFailed ''Insert migration denomination stage output''))"

definition stage_row_of ::
  "string \<Rightarrow> stage_insert \<Rightarrow> string \<Rightarrow> string \<Rightarrow> string option \<Rightarrow> stage_row" where
  "stage_row_of run_id s base sigs raw =
     \<lparr>row_run_id = run_id, row_stage_index = ins_stage_index s, row_base = base, row_sigs = sigs,
      row_raw = raw, row_txid = to_ascii_lowercase (ins_expected_txid_hex s),
      row_target = ins_target_height s, row_scheduled = ins_scheduled_height s,
      row_not_before = None, row_attempted = 0, row_expiry = ins_expiry_height s,
      row_fee = ins_fee_zatoshi s, row_mined = None, row_hash = None,
      row_status = status_as_str (ins_status s)\<rparr>"

definition insert_stage ::
  "crypto_env \<Rightarrow> string \<Rightarrow> bytes \<Rightarrow> bytes \<Rightarrow> nat \<times> stage_db \<Rightarrow> stage_insert \<Rightarrow>
    (stage_error, nat \<times> stage_db) outcome" where
  "insert_stage env run_id password salt = (\<lambda>(draw, db) s.
     obind (map_err PayloadFailed (encrypt_payload env draw (ins_base_pczt s) password salt)) (\<lambda>base.
     obind (map_err SigsFailed (encode_compact_action_sigs (ins_sigs s))) (\<lambda>sigs_blob.
     obind (map_err PayloadFailed (encrypt_payload env (draw + 1) sigs_blob password salt)) (\<lambda>sigs.
     obind (encrypt_raw env (draw + 2) (ins_raw_tx s) password salt) (\<lambda>(draw', raw).
     obind (ok_or (insert_stage_row (stage_row_of run_id s base sigs raw) db)
              (SqlFailed ''Insert migration denomination stage'')) (\<lambda>db1.
     obind (foldM (insert_stage_input run_id (ins_stage_index s)) db1
              (List.enumerate 0 (ins_inputs s))) (\<lambda>db2.
     obind (foldM (insert_stage_output run_id (ins_stage_index s)) db2
              (List.enumerate 0 (ins_outputs s))) (\<lambda>db3.
       Ok (draw', db3)))))))))"

text \<open>
  The savepoint: an error of any stage restores the database from before the batch. A panic
  unwinds out of the caller's transaction, which rolls back too.
\<close>

definition insert_denomination_stages_with_tx ::
  "crypto_env \<Rightarrow> nat \<Rightarrow> string \<Rightarrow> stage_insert list \<Rightarrow> bytes \<Rightarrow> string \<Rightarrow> stage_db \<Rightarrow>
    (stage_error, unit) outcome \<times> stage_db" where
  "insert_denomination_stages_with_tx env draw run_id stages password salt_base64 db =
     (case obind (validate_stage_batch run_id stages) (\<lambda>_.
             map_err PayloadFailed (decode_base64 env salt_base64 ''migration denomination stage salt'')) of
        Ok salt \<Rightarrow>
          (case foldM (insert_stage env run_id password salt) (draw, db) stages of
             Ok (draw', db') \<Rightarrow> (Ok (), db')
           | Err e \<Rightarrow> (Err e, db)
           | Panic \<Rightarrow> (Panic, db))
      | Err e \<Rightarrow> (Err e, db)
      | Panic \<Rightarrow> (Panic, db))"

section \<open>Reading\<close>

definition u32_columns :: "string \<Rightarrow> nat list \<Rightarrow> (stage_error, unit) outcome" where
  "u32_columns label columns = ensure (\<forall>n \<in> set columns. n \<le> u32_max) (ReadFailed label)"

definition rows_of_run :: "string \<Rightarrow> stage_db \<Rightarrow> stage_row list" where
  "rows_of_run run_id db =
     sort_key row_stage_index (filter (\<lambda>r. row_run_id r = run_id) (stage_rows db))"

definition read_input :: "input_row \<Rightarrow> (stage_error, stage_input_ref) outcome" where
  "read_input r =
     (if irow_output_index r \<le> u32_max \<and> irow_version r \<le> 255 then
        Ok \<lparr>in_txid_hex = irow_txid r, in_output_index = irow_output_index r,
            in_value_zatoshi = irow_value r, in_note_version = irow_version r,
            in_nullifier_hex = irow_nullifier r\<rparr>
      else Err (ReadFailed ''Read migration denomination stage inputs''))"

definition stage_inputs_of :: "stage_db \<Rightarrow> string \<Rightarrow> u32 \<Rightarrow> (stage_error, stage_input_ref list) outcome" where
  "stage_inputs_of db run_id stage_index =
     mapM read_input (sort_key irow_order
       (filter (\<lambda>r. irow_run_id r = run_id \<and> irow_stage_index r = stage_index) (input_rows db)))"

definition read_output :: "output_row \<Rightarrow> (stage_error, stage_output_ref) outcome" where
  "read_output r =
     (if orow_output_index r \<le> u32_max \<and> orow_version r \<le> 255
        \<and> (case orow_part_index r of None \<Rightarrow> True | Some p \<Rightarrow> p \<le> u32_max) then
        obind (parse_role (orow_kind r)) (\<lambda>kind.
          Ok \<lparr>out_output_index = orow_output_index r, out_value_zatoshi = orow_value r,
              out_note_version = orow_version r, out_kind = kind, out_part_index = orow_part_index r\<rparr>)
      else Err (ReadFailed ''Read migration denomination stage output''))"

definition stage_outputs_of :: "stage_db \<Rightarrow> string \<Rightarrow> u32 \<Rightarrow> (stage_error, stage_output_ref list) outcome" where
  "stage_outputs_of db run_id stage_index =
     mapM read_output (sort_key orow_order
       (filter (\<lambda>r. orow_run_id r = run_id \<and> orow_stage_index r = stage_index) (output_rows db)))"

definition optional_column :: "nat option \<Rightarrow> nat list" where
  "optional_column c = (case c of None \<Rightarrow> [] | Some n \<Rightarrow> [n])"

definition decrypt_raw ::
  "crypto_env \<Rightarrow> payload_key \<Rightarrow> string option \<Rightarrow> (stage_error, bytes option) outcome" where
  "decrypt_raw env key raw =
     (case raw of
        None \<Rightarrow> Ok None
      | Some encrypted \<Rightarrow> obind (map_err PayloadFailed (payload_key_decrypt env key encrypted))
                          (\<lambda>bs. Ok (Some bs)))"

definition read_stage ::
  "crypto_env \<Rightarrow> payload_key \<Rightarrow> stage_db \<Rightarrow> string \<Rightarrow> stage_row \<Rightarrow> (stage_error, stage) outcome" where
  "read_stage env key db run_id r =
     obind (u32_columns ''Read migration denomination stage''
              ([row_stage_index r, row_target r, row_scheduled r, row_expiry r]
                 @ optional_column (row_not_before r) @ optional_column (row_mined r))) (\<lambda>_.
     obind (map_err PayloadFailed (payload_key_decrypt env key (row_base r))) (\<lambda>base.
     obind (map_err PayloadFailed (payload_key_decrypt env key (row_sigs r))) (\<lambda>sigs_blob.
     obind (decrypt_raw env key (row_raw r)) (\<lambda>raw.
     obind (map_err SigsFailed (decode_compact_action_sigs sigs_blob)) (\<lambda>sigs.
     obind (parse_status (row_status r)) (\<lambda>stat.
     obind (stage_inputs_of db run_id (row_stage_index r)) (\<lambda>inputs.
     obind (stage_outputs_of db run_id (row_stage_index r)) (\<lambda>outputs.
       Ok \<lparr>stg_stage_index = row_stage_index r, stg_base_pczt = base, stg_sigs = sigs,
           stg_raw_tx = raw, stg_expected_txid_hex = row_txid r, stg_target_height = row_target r,
           stg_scheduled_height = row_scheduled r,
           stg_broadcast_not_before_height = row_not_before r, stg_expiry_height = row_expiry r,
           stg_fee_zatoshi = row_fee r, stg_status = stat,
           stg_confirmed_mined_height = row_mined r, stg_confirmed_block_hash = row_hash r,
           stg_inputs = inputs, stg_outputs = outputs\<rparr>))))))))"

definition denomination_stages_for_run ::
  "crypto_env \<Rightarrow> stage_db \<Rightarrow> string \<Rightarrow> bytes \<Rightarrow> string \<Rightarrow> (stage_error, stage list) outcome" where
  "denomination_stages_for_run env db run_id password salt_base64 =
     obind (map_err PayloadFailed (decode_base64 env salt_base64 ''migration denomination stage salt'')) (\<lambda>salt.
     let key = payload_key_new env password salt in
       mapM (read_stage env key db run_id) (rows_of_run run_id db))"

definition expired_unbroadcast_denomination_stage_count ::
  "stage_db \<Rightarrow> string \<Rightarrow> u32 \<Rightarrow> (stage_error, u32) outcome" where
  "expired_unbroadcast_denomination_stage_count db run_id observed_height =
     count_to_u32 (length (filter (\<lambda>r. row_run_id r = run_id
       \<and> (row_status r = ''awaiting_inputs'' \<or> row_status r = ''pending'')
       \<and> row_expiry r > 0 \<and> row_expiry r \<le> observed_height) (stage_rows db)))"

definition expired_broadcasted_denomination_stage_count ::
  "stage_db \<Rightarrow> string \<Rightarrow> u32 \<Rightarrow> (stage_error, u32) outcome" where
  "expired_broadcasted_denomination_stage_count db run_id observed_height =
     count_to_u32 (length (filter (\<lambda>r. row_run_id r = run_id \<and> row_status r = ''broadcasted''
       \<and> row_expiry r > 0 \<and> row_expiry r \<le> observed_height) (stage_rows db)))"

text \<open>\<open>MAX(scheduled_height, COALESCE(broadcast_not_before_height, 0))\<close>.\<close>

definition effective_height :: "stage_row \<Rightarrow> nat" where
  "effective_height r = max (row_scheduled r) (case row_not_before r of None \<Rightarrow> 0 | Some h \<Rightarrow> h)"

definition read_pending :: "crypto_env \<Rightarrow> payload_key \<Rightarrow> stage_row \<Rightarrow> (stage_error, pending_raw_stage) outcome" where
  "read_pending env key r =
     obind (u32_columns ''Read pending migration denomination stage''
              ([row_stage_index r, row_target r, row_scheduled r, row_expiry r]
                 @ optional_column (row_not_before r))) (\<lambda>_.
     obind (ok_or (row_raw r) (ReadFailed ''Read pending migration denomination stage'')) (\<lambda>encrypted.
     obind (map_err PayloadFailed (payload_key_decrypt env key encrypted)) (\<lambda>raw.
       Ok \<lparr>raw_stage_index = row_stage_index r, raw_expected_txid_hex = row_txid r, raw_raw_tx = raw,
           raw_target_height = row_target r, raw_scheduled_height = row_scheduled r,
           raw_broadcast_not_before_height = row_not_before r, raw_expiry_height = row_expiry r,
           raw_fee_zatoshi = row_fee r\<rparr>)))"

definition pending_raw_denomination_stages ::
  "crypto_env \<Rightarrow> stage_db \<Rightarrow> string \<Rightarrow> bytes \<Rightarrow> string \<Rightarrow> (stage_error, pending_raw_stage list) outcome" where
  "pending_raw_denomination_stages env db run_id password salt_base64 =
     obind (map_err PayloadFailed (decode_base64 env salt_base64 ''migration denomination stage salt'')) (\<lambda>salt.
     let key = payload_key_new env password salt in
       mapM (read_pending env key)
         (sort_key effective_height (sort_key row_stage_index
           (filter (\<lambda>r. row_run_id r = run_id \<and> row_status r = ''pending'' \<and> row_raw r \<noteq> None)
             (stage_rows db)))))"

definition denomination_stage_expected_txids :: "stage_db \<Rightarrow> string \<Rightarrow> string list" where
  "denomination_stage_expected_txids db run_id = map row_txid (rows_of_run run_id db)"

definition read_chain_record :: "stage_db \<Rightarrow> string \<Rightarrow> stage_row \<Rightarrow> (stage_error, chain_record) outcome" where
  "read_chain_record db run_id r =
     obind (u32_columns ''Read migration denomination chain state''
              (row_stage_index r # optional_column (row_mined r))) (\<lambda>_.
     obind (case (row_mined r, row_hash r) of
              (None, None) \<Rightarrow> Ok ()
            | (Some height, Some hash) \<Rightarrow>
                if length hash = 32 then Ok () else Err (MalformedInclusion (row_txid r))
            | other \<Rightarrow> Err (MalformedInclusion (row_txid r))) (\<lambda>_.
     obind (parse_status (row_status r)) (\<lambda>stat.
     obind (stage_outputs_of db run_id (row_stage_index r)) (\<lambda>outputs.
       Ok \<lparr>chain_stage_index = row_stage_index r, chain_expected_txid_hex = row_txid r,
           chain_status = stat, chain_mined_height = row_mined r, chain_block_hash = row_hash r,
           chain_parent_txids = map (\<lambda>i. to_ascii_lowercase (irow_txid i)) (sort_key irow_order
             (filter (\<lambda>i. irow_run_id i = run_id \<and> irow_stage_index i = row_stage_index r) (input_rows db))),
           chain_outputs = outputs\<rparr>))))"

definition denomination_stage_chain_records ::
  "stage_db \<Rightarrow> string \<Rightarrow> (stage_error, chain_record list) outcome" where
  "denomination_stage_chain_records db run_id =
     mapM (read_chain_record db run_id) (rows_of_run run_id db)"

definition status_total :: "stage_db \<Rightarrow> string \<Rightarrow> string \<Rightarrow> nat" where
  "status_total db run_id name =
     length (filter (\<lambda>r. row_run_id r = run_id \<and> row_status r = name) (stage_rows db))"

definition denomination_stage_status_counts :: "stage_db \<Rightarrow> string \<Rightarrow> (stage_error, status_counts) outcome" where
  "denomination_stage_status_counts db run_id =
     obind (count_to_u32 (status_total db run_id ''awaiting_inputs'')) (\<lambda>awaiting.
     obind (count_to_u32 (status_total db run_id ''pending'')) (\<lambda>pending.
     obind (count_to_u32 (status_total db run_id ''broadcasted'')) (\<lambda>broadcasted.
     obind (count_to_u32 (status_total db run_id ''confirmed'')) (\<lambda>confirmed.
     obind (count_to_u32 (length (filter (\<lambda>r. row_run_id r = run_id) (stage_rows db)))) (\<lambda>all_stages.
       Ok \<lparr>awaiting_count = awaiting, pending_count = pending, broadcasted_count = broadcasted,
           confirmed_count = confirmed, total_count = all_stages\<rparr>)))))"

text \<open>The join keeps the inputs of stages that are not confirmed; the result is a \<open>BTreeSet\<close>.\<close>

definition input_is_locked :: "stage_db \<Rightarrow> input_row \<Rightarrow> bool" where
  "input_is_locked db i \<longleftrightarrow>
     list_ex (\<lambda>s. row_run_id s = irow_run_id i \<and> row_stage_index s = irow_stage_index i
       \<and> row_status s \<noteq> ''confirmed'') (stage_rows db)"

definition locked_denomination_stage_input_outpoints ::
  "stage_db \<Rightarrow> string \<Rightarrow> (stage_error, (string \<times> u32) set) outcome" where
  "locked_denomination_stage_input_outpoints db run_id =
     (if \<not> tables_exist db then Ok {}
      else let locked = filter (\<lambda>i. irow_run_id i = run_id \<and> input_is_locked db i) (input_rows db) in
        obind (u32_columns ''Read migration denomination input locks'' (map irow_output_index locked)) (\<lambda>_.
          Ok (set (map (\<lambda>i. (to_ascii_lowercase (irow_txid i), irow_output_index i)) locked))))"

end
