(* ===== verification/StageTransitions.thy ===== *)
theory StageTransitions
  imports StageStore PrepTiming
begin

text \<open>
  The state changes of a stage after its insertion: promotion, broadcast, confirmation, reorg
  reset (\<open>rust/src/wallet/sync/migration/stages.rs\<close>), the broadcast-attempt flags and the
  cleanup of a stopped run (\<open>migration.rs\<close>), and the new random broadcast heights after a
  missed one (\<open>preparation_policy.rs\<close>).
\<close>

text \<open>The computation before a statement; its error leaves the database as it is.\<close>

fun prepared ::
  "('e, 'p) outcome \<Rightarrow> ('p \<Rightarrow> ('e, 'a) outcome \<times> stage_db) \<Rightarrow> stage_db \<Rightarrow> ('e, 'a) outcome \<times> stage_db" where
  "prepared (Ok x) k db = k x"
| "prepared (Err e) k db = (Err e, db)"
| "prepared Panic k db = (Panic, db)"

text \<open>A guarded \<open>UPDATE\<close>: the statement fails, or the continuation sees the row count.\<close>

definition guarded_update ::
  "string \<Rightarrow> (stage_row \<Rightarrow> bool) \<Rightarrow> (stage_row \<Rightarrow> stage_row) \<Rightarrow> stage_db \<Rightarrow>
    (nat \<Rightarrow> (stage_error, 'a) outcome) \<Rightarrow> (stage_error, 'a) outcome \<times> stage_db" where
  "guarded_update label P f db k =
     (case update_stage_rows P f db of
        None \<Rightarrow> (Err (SqlFailed label), db)
      | Some (updated, db') \<Rightarrow> (k updated, db'))"

definition is_stage_txid :: "string \<Rightarrow> string \<Rightarrow> stage_row \<Rightarrow> bool" where
  "is_stage_txid run_id txid r \<longleftrightarrow> row_run_id r = run_id \<and> row_txid r = txid"

definition find_stage :: "stage_db \<Rightarrow> string \<Rightarrow> string \<Rightarrow> stage_row option" where
  "find_stage db run_id txid = List.find (is_stage_txid run_id txid) (stage_rows db)"

section \<open>Promotion\<close>

definition promote_row :: "string \<Rightarrow> stage_row \<Rightarrow> stage_row" where
  "promote_row sealed r = r\<lparr>row_raw := Some sealed, row_status := ''pending''\<rparr>"

definition promote_awaiting_denomination_stage ::
  "crypto_env \<Rightarrow> nat \<Rightarrow> string \<Rightarrow> u32 \<Rightarrow> string \<Rightarrow> bytes \<Rightarrow> bytes \<Rightarrow> string \<Rightarrow> stage_db \<Rightarrow>
    (stage_error, unit) outcome \<times> stage_db" where
  "promote_awaiting_denomination_stage env draw run_id stage_index expected_txid_hex raw_tx password
       salt_base64 db =
     prepared
       (obind (validate_txid_hex expected_txid_hex ''expected transaction ID'') (\<lambda>_.
        if raw_tx = [] then Err RawTxEmpty
        else obind (map_err PayloadFailed
                      (decode_base64 env salt_base64 ''migration denomination stage salt'')) (\<lambda>salt.
          map_err PayloadFailed (encrypt_payload env draw raw_tx password salt))))
       (\<lambda>sealed. guarded_update ''Promote awaiting migration denomination stage''
          (\<lambda>r. is_stage_txid run_id (to_ascii_lowercase expected_txid_hex) r
             \<and> row_stage_index r = stage_index \<and> row_status r = ''awaiting_inputs'' \<and> row_raw r = None)
          (promote_row sealed) (ensure_schema db)
          (\<lambda>updated. if updated = 1 then Ok () else Err (NotPromotable stage_index)))
       (ensure_schema db)"

section \<open>Broadcast\<close>

definition broadcast_row :: "stage_status \<Rightarrow> stage_row \<Rightarrow> stage_row" where
  "broadcast_row target r = r\<lparr>row_status := status_as_str target\<rparr>"

definition already_reached :: "stage_status \<Rightarrow> stage_status \<Rightarrow> bool" where
  "already_reached target current \<longleftrightarrow>
     current = target \<or> target = Broadcasted \<and> current = Confirmed"

definition transition_stage ::
  "string \<Rightarrow> string \<Rightarrow> stage_status \<Rightarrow> stage_db \<Rightarrow> (stage_error, unit) outcome \<times> stage_db" where
  "transition_stage run_id expected_txid_hex target db =
     prepared (obind (validate_txid_hex expected_txid_hex ''expected transaction ID'') (\<lambda>_.
                if target = Broadcasted then Ok (to_ascii_lowercase expected_txid_hex)
                else Err (UnsupportedTarget target)))
       (\<lambda>txid. case update_stage_rows (\<lambda>r. is_stage_txid run_id txid r \<and> row_status r = ''pending'')
                      (broadcast_row target) (ensure_schema db) of
          None \<Rightarrow> (Err (SqlFailed ''Update migration denomination stage status''), ensure_schema db)
        | Some (updated, db') \<Rightarrow>
            (if updated = 1 then Ok ()
             else obind (ok_or (find_stage db' run_id txid) (StageNotFound txid)) (\<lambda>r.
               obind (parse_status (row_status r)) (\<lambda>current.
                 if already_reached target current then Ok () else Err (CannotMove current target))),
             db'))
       (ensure_schema db)"

definition mark_denomination_stage_broadcasted ::
  "string \<Rightarrow> string \<Rightarrow> stage_db \<Rightarrow> (stage_error, unit) outcome \<times> stage_db" where
  "mark_denomination_stage_broadcasted run_id expected_txid_hex db =
     transition_stage run_id expected_txid_hex Broadcasted db"

section \<open>Confirmation and reorg\<close>

definition confirm_row :: "u32 \<Rightarrow> bytes \<Rightarrow> stage_row \<Rightarrow> stage_row" where
  "confirm_row mined_height block_hash r =
     r\<lparr>row_status := ''confirmed'', row_mined := Some mined_height, row_hash := Some block_hash\<rparr>"

definition mark_denomination_stage_confirmed_at ::
  "string \<Rightarrow> string \<Rightarrow> u32 \<Rightarrow> bytes \<Rightarrow> stage_db \<Rightarrow> (stage_error, unit) outcome \<times> stage_db" where
  "mark_denomination_stage_confirmed_at run_id expected_txid_hex mined_height block_hash db =
     prepared (obind (validate_txid_hex expected_txid_hex ''expected transaction ID'') (\<lambda>_.
                Ok (to_ascii_lowercase expected_txid_hex)))
       (\<lambda>txid. case update_stage_rows
                      (\<lambda>r. is_stage_txid run_id txid r
                         \<and> (row_status r = ''pending'' \<or> row_status r = ''broadcasted''))
                      (confirm_row mined_height block_hash) (ensure_schema db) of
          None \<Rightarrow> (Err (SqlFailed ''Confirm migration denomination stage''), ensure_schema db)
        | Some (updated, db') \<Rightarrow>
            (if updated = 1 then Ok ()
             else obind (ok_or (find_stage db' run_id txid) (StageNotFound txid)) (\<lambda>r.
               obind (u32_columns ''Read migration denomination stage confirmation''
                        (optional_column (row_mined r))) (\<lambda>_.
               obind (parse_status (row_status r)) (\<lambda>current.
                 if current \<noteq> Confirmed then Err (CannotMove current Confirmed)
                 else (case (row_mined r, row_hash r) of
                     (Some stored_height, Some stored_hash) \<Rightarrow>
                       if stored_height = mined_height \<and> stored_hash = block_hash then Ok ()
                       else Err (MovedInclusion txid)
                   | other \<Rightarrow> Err (MovedInclusion txid))))),
             db'))
       (ensure_schema db)"

definition replace_denomination_stage_confirmation_identity ::
  "string \<Rightarrow> string \<Rightarrow> u32 \<Rightarrow> bytes \<Rightarrow> stage_db \<Rightarrow> (stage_error, unit) outcome \<times> stage_db" where
  "replace_denomination_stage_confirmation_identity run_id expected_txid_hex mined_height block_hash db =
     prepared (validate_txid_hex expected_txid_hex ''expected transaction ID'')
       (\<lambda>_. guarded_update ''Replace migration denomination chain inclusion''
          (\<lambda>r. is_stage_txid run_id (to_ascii_lowercase expected_txid_hex) r
             \<and> row_status r \<in> {''awaiting_inputs'', ''pending'', ''broadcasted'', ''confirmed''})
          (confirm_row mined_height block_hash) (ensure_schema db)
          (\<lambda>updated. if updated = 1 then Ok () else Err (CannotRecordInclusion expected_txid_hex)))
       (ensure_schema db)"

definition reset_row :: "stage_row \<Rightarrow> stage_row" where
  "reset_row r =
     r\<lparr>row_raw := None, row_status := ''awaiting_inputs'', row_mined := None, row_hash := None\<rparr>"

definition reset_denomination_stage_exact ::
  "string \<Rightarrow> string \<Rightarrow> stage_db \<Rightarrow> (stage_error, unit) outcome \<times> stage_db" where
  "reset_denomination_stage_exact run_id expected_txid_hex db =
     prepared (validate_txid_hex expected_txid_hex ''expected transaction ID'')
       (\<lambda>_. guarded_update ''Reset migration denomination stage after reorg''
          (is_stage_txid run_id (to_ascii_lowercase expected_txid_hex)) reset_row (ensure_schema db)
          (\<lambda>updated. if updated = 1 then Ok () else Err (StageNotFound expected_txid_hex)))
       (ensure_schema db)"

section \<open>Broadcast attempts\<close>

definition attempt_row :: "nat \<Rightarrow> stage_row \<Rightarrow> stage_row" where
  "attempt_row flag r = r\<lparr>row_attempted := flag\<rparr>"

text \<open>These two match the transaction id as it is given, without lowering its case.\<close>

definition mark_denomination_broadcast_attempted ::
  "string \<Rightarrow> string \<Rightarrow> stage_db \<Rightarrow> (stage_error, unit) outcome \<times> stage_db" where
  "mark_denomination_broadcast_attempted run_id txid_hex db =
     guarded_update ''Record denomination broadcast attempt''
       (\<lambda>r. is_stage_txid run_id txid_hex r \<and> row_status r = ''pending'')
       (attempt_row 1) (ensure_schema db)
       (\<lambda>updated. if updated = 1 then Ok () else Err (NoLongerPending txid_hex))"

definition clear_denomination_broadcast_attempted ::
  "string \<Rightarrow> string \<Rightarrow> stage_db \<Rightarrow> (stage_error, unit) outcome \<times> stage_db" where
  "clear_denomination_broadcast_attempted run_id txid_hex db =
     guarded_update ''Clear rejected denomination broadcast attempt''
       (\<lambda>r. is_stage_txid run_id txid_hex r \<and> row_status r = ''pending'')
       (attempt_row 0) (ensure_schema db) (\<lambda>updated. Ok ())"

section \<open>Cleanup of a stopped run\<close>

definition unsubmitted :: "string \<Rightarrow> stage_row \<Rightarrow> bool" where
  "unsubmitted run_id r \<longleftrightarrow>
     row_run_id r = run_id \<and> (row_status r = ''awaiting_inputs'' \<or> row_status r = ''pending'')"

definition unsubmitted_indices :: "stage_db \<Rightarrow> string \<Rightarrow> nat list" where
  "unsubmitted_indices db run_id = map row_stage_index (filter (unsubmitted run_id) (stage_rows db))"

definition discard_unsubmitted_preparation_stages :: "string \<Rightarrow> stage_db \<Rightarrow> stage_db" where
  "discard_unsubmitted_preparation_stages run_id db0 =
     (let db = ensure_schema db0;
          db1 = db\<lparr>input_rows := filter (\<lambda>i. \<not> (irow_run_id i = run_id
                     \<and> irow_stage_index i \<in> set (unsubmitted_indices db run_id))) (input_rows db)\<rparr>;
          db2 = db1\<lparr>output_rows := filter (\<lambda>i. \<not> (orow_run_id i = run_id
                     \<and> orow_stage_index i \<in> set (unsubmitted_indices db1 run_id))) (output_rows db1)\<rparr>
      in db2\<lparr>stage_rows := filter (\<lambda>r. \<not> unsubmitted run_id r) (stage_rows db2)\<rparr>)"

section \<open>New broadcast heights\<close>

text \<open>
  \<open>rerandomize_remaining_preparation_broadcast_heights\<close>: the two policy columns of the run are
  its arguments (\<open>None\<close> when the run has no row). A broadcast height beyond the range of
  \<open>u32\<close> is an error; a draw that never accepts is \<open>None\<close>.
\<close>

datatype rerandomize_error =
    ReadPreparationPolicyFailed
  | ReadTimingPolicyFailed
  | PreparationPolicyFailed preparation_error
  | TimingPolicyFailed policy_error
  | MigrationCountOverflow
  | RerandomizeStage stage_error

definition not_before_row :: "u32 \<Rightarrow> stage_row \<Rightarrow> stage_row" where
  "not_before_row height r = r\<lparr>row_not_before := Some height\<rparr>"

fun rerandomize_loop ::
  "('r \<Rightarrow> (u32 \<times> 'r) option) \<Rightarrow> string \<Rightarrow> u32 \<Rightarrow> 'r \<Rightarrow> stage_row list \<Rightarrow> stage_db \<Rightarrow>
    (rerandomize_error, stage_db) outcome option" where
  "rerandomize_loop draw run_id preceding_height rng [] db = Some (Ok db)"
| "rerandomize_loop draw run_id preceding_height rng (r # remaining) db =
     Option.bind (draw rng) (\<lambda>(delay, rng').
       case checked_add u32_max preceding_height delay of
         None \<Rightarrow> Some (Err (PreparationPolicyFailed PreparationCatchUpHeightOverflow))
       | Some randomized_height \<Rightarrow>
           let effective = max (max randomized_height (row_scheduled r))
                             (case row_not_before r of None \<Rightarrow> 0 | Some h \<Rightarrow> h) in
           (case update_stage_rows
                   (\<lambda>s. row_run_id s = run_id \<and> row_stage_index s = row_stage_index r
                      \<and> (row_status s = ''awaiting_inputs'' \<or> row_status s = ''pending''))
                   (not_before_row effective) db of
              None \<Rightarrow> Some (Err (RerandomizeStage
                        (SqlFailed ''Reschedule migration denomination catch-up stage'')))
            | Some (updated, db') \<Rightarrow> rerandomize_loop draw run_id effective rng' remaining db'))"

definition remaining_stages :: "stage_db \<Rightarrow> string \<Rightarrow> stage_row list" where
  "remaining_stages db run_id =
     sort_key effective_height (sort_key row_stage_index (filter (unsubmitted run_id) (stage_rows db)))"

definition count_for_run :: "stage_db \<Rightarrow> string \<Rightarrow> (rerandomize_error, u32) outcome" where
  "count_for_run db run_id =
     (if \<not> tables_exist db then Ok 0
      else let n = length (filter (\<lambda>r. row_run_id r = run_id) (stage_rows db)) in
        if n \<le> u32_max then Ok n else Err MigrationCountOverflow)"

definition rerandomize_remaining_preparation_broadcast_heights ::
  "'r rng_env \<Rightarrow> string option \<Rightarrow> string option \<Rightarrow> string \<Rightarrow> wallet_network \<Rightarrow> u32 \<Rightarrow> 'r \<Rightarrow> stage_db \<Rightarrow>
    (rerandomize_error, u32 \<times> stage_db) outcome option" where
  "rerandomize_remaining_preparation_broadcast_heights G preparation_column timing_column run_id
       network chain_tip_height rng db =
     dbind (Some (obind (ok_or preparation_column ReadPreparationPolicyFailed) (\<lambda>name.
                    map_err PreparationPolicyFailed (preparation_policy_from_str name))))
       (\<lambda>preparation_policy.
        if preparation_policy = Immediate then Some (Ok (0, db))
        else dbind (Some (obind (ok_or timing_column ReadTimingPolicyFailed) (\<lambda>name.
                           map_err TimingPolicyFailed (timing_policy_from_str name))))
          (\<lambda>policy. dbind (Some (count_for_run db run_id)) (\<lambda>n.
             let remaining = remaining_stages db run_id in
             dbind (Some (if \<not> tables_exist db
                    then Err (RerandomizeStage (SqlFailed ''Prepare remaining denomination catch-up query''))
                    else map_err RerandomizeStage
                      (u32_columns ''Read remaining denomination catch-up stage''
                        (concat (map (\<lambda>r. row_stage_index r # row_scheduled r
                           # optional_column (row_not_before r)) remaining)))))
               (\<lambda>_. dbind (rerandomize_loop (preparation_delay_with_rng G network policy n) run_id
                             chain_tip_height rng remaining db)
                  (\<lambda>db'. Some (if length remaining \<le> u32_max then Ok (length remaining, db')
                                else Err (PreparationPolicyFailed PreparationCatchUpCountOverflow)))))))"

end
