(* ===== verification/StageInvariant.thy ===== *)
theory StageInvariant
  imports StageTransitions
begin

text \<open>
  The invariant of the three stage tables and its preservation by every operation of the
  model: the constraints of the schema, the link from an input or output row to its stage, and
  the canonical form of a stored transaction id. The reachable databases are those of an
  inductive step relation with one rule per operation.
\<close>

section \<open>The invariant\<close>

definition hex32 :: "string \<Rightarrow> bool" where
  "hex32 v \<longleftrightarrow> length v = 64 \<and> list_all is_ascii_hexdigit v"

definition stored_txid :: "string \<Rightarrow> bool" where
  "stored_txid t \<longleftrightarrow> hex32 t \<and> to_ascii_lowercase t = t"

text \<open>The integer columns hold what the typed arguments of the writers can hold.\<close>

definition stage_columns_ok :: "stage_row \<Rightarrow> bool" where
  "stage_columns_ok r \<longleftrightarrow>
     (\<forall>n \<in> set ([row_stage_index r, row_target r, row_scheduled r, row_expiry r]
        @ optional_column (row_not_before r) @ optional_column (row_mined r)). n \<le> u32_max)"

definition input_columns_ok :: "input_row \<Rightarrow> bool" where
  "input_columns_ok r \<longleftrightarrow> irow_output_index r \<le> u32_max \<and> irow_version r \<le> 255"

definition output_columns_ok :: "output_row \<Rightarrow> bool" where
  "output_columns_ok r \<longleftrightarrow> orow_output_index r \<le> u32_max \<and> orow_version r \<le> 255
     \<and> (\<forall>p \<in> set_option (orow_part_index r). p \<le> u32_max)"

lemma set_optional_column [simp]: "set (optional_column c) = set_option c"
  by (cases c) (simp_all add: optional_column_def)

definition stage_table_ok :: "stage_row list \<Rightarrow> bool" where
  "stage_table_ok rows \<longleftrightarrow> distinct (map stage_key rows) \<and> distinct (map stage_txid_key rows)
     \<and> (\<forall>r \<in> set rows. stage_check r \<and> stored_txid (row_txid r) \<and> stage_columns_ok r)"

definition input_table_ok :: "input_row list \<Rightarrow> bool" where
  "input_table_ok rows \<longleftrightarrow> distinct (map input_key rows) \<and> distinct (map outpoint_key rows)
     \<and> (\<forall>r \<in> set rows. stored_txid (irow_txid r) \<and> input_columns_ok r)"

definition output_table_ok :: "output_row list \<Rightarrow> bool" where
  "output_table_ok rows \<longleftrightarrow> distinct (map output_key rows) \<and> distinct (map output_index_key rows)
     \<and> (\<forall>r \<in> set rows. output_check r \<and> output_columns_ok r)"

definition input_stage :: "input_row \<Rightarrow> string \<times> nat" where
  "input_stage i = (irow_run_id i, irow_stage_index i)"

definition output_stage :: "output_row \<Rightarrow> string \<times> nat" where
  "output_stage i = (orow_run_id i, orow_stage_index i)"

text \<open>Every stage has an input and an output, and every input and output row has its stage.\<close>

definition links_ok :: "stage_db \<Rightarrow> bool" where
  "links_ok db \<longleftrightarrow> input_stage ` set (input_rows db) = stage_key ` set (stage_rows db)
     \<and> output_stage ` set (output_rows db) = stage_key ` set (stage_rows db)"

definition db_ok :: "stage_db \<Rightarrow> bool" where
  "db_ok db \<longleftrightarrow> stage_table_ok (stage_rows db) \<and> input_table_ok (input_rows db)
     \<and> output_table_ok (output_rows db) \<and> links_ok db
     \<and> (\<not> tables_exist db \<longrightarrow> stage_rows db = [])"

lemma db_ok_empty: "db_ok empty_db"
  by (simp add: db_ok_def empty_db_def stage_table_ok_def input_table_ok_def output_table_ok_def links_ok_def)

lemma db_ok_ensure_schema [simp]: "db_ok db \<Longrightarrow> db_ok (ensure_schema db)"
  by (simp add: db_ok_def links_ok_def)

lemma db_ok_check: "db_ok db \<Longrightarrow> r \<in> set (stage_rows db) \<Longrightarrow> stage_check r"
  by (simp add: db_ok_def stage_table_ok_def)

lemma db_ok_columns: "db_ok db \<Longrightarrow> r \<in> set (stage_rows db) \<Longrightarrow> stage_columns_ok r"
  by (simp add: db_ok_def stage_table_ok_def)

lemma db_ok_stage_eq:
  assumes "db_ok db" "r \<in> set (stage_rows db)" "s \<in> set (stage_rows db)"
    and "row_run_id r = row_run_id s" and "row_stage_index r = row_stage_index s \<or> row_txid r = row_txid s"
  shows "r = s"
proof -
  from assms(1) have "inj_on stage_key (set (stage_rows db))" "inj_on stage_txid_key (set (stage_rows db))"
    by (auto simp: db_ok_def stage_table_ok_def distinct_map)
  with assms(2-5) show ?thesis by (auto simp: inj_on_def stage_key_def stage_txid_key_def)
qed

section \<open>The life of a stage\<close>

text \<open>
  The status graph: what a step may do to the status of a stage. A stage becomes \<open>Pending\<close>
  only from \<open>AwaitingInputs\<close>, \<open>Broadcasted\<close> only from \<open>Pending\<close>; a confirmation can be
  recorded from every status, and only a reset leads back.
\<close>

inductive status_edge :: "stage_status \<Rightarrow> stage_status \<Rightarrow> bool" where
  stay: "status_edge x x"
| promoted: "status_edge AwaitingInputs Pending"
| sent: "status_edge Pending Broadcasted"
| mined: "status_edge x Confirmed"
| reorged: "status_edge x AwaitingInputs"

inductive_simps to_pending: "status_edge x Pending"
inductive_simps to_broadcasted: "status_edge x Broadcasted"
inductive_simps from_confirmed: "status_edge Confirmed x"

code_pred status_edge .

text \<open>The columns no operation rewrites: identity, signed material, planned heights, fee.\<close>

definition same_material :: "stage_row \<Rightarrow> stage_row \<Rightarrow> bool" where
  "same_material r r' \<longleftrightarrow> row_run_id r' = row_run_id r \<and> row_stage_index r' = row_stage_index r
     \<and> row_txid r' = row_txid r \<and> row_base r' = row_base r \<and> row_sigs r' = row_sigs r
     \<and> row_target r' = row_target r \<and> row_scheduled r' = row_scheduled r
     \<and> row_expiry r' = row_expiry r \<and> row_fee r' = row_fee r"

text \<open>The finished transaction is written once, by the promotion of a stage that has none, and cleared only by a reset.\<close>

definition same_raw :: "stage_row \<Rightarrow> stage_row \<Rightarrow> bool" where
  "same_raw r r' \<longleftrightarrow> row_raw r' = row_raw r
     \<or> row_raw r = None \<and> row_status r = ''awaiting_inputs'' \<and> row_status r' = ''pending''
     \<or> row_raw r' = None \<and> row_status r' = ''awaiting_inputs''"

definition row_edge :: "stage_row \<Rightarrow> stage_row \<Rightarrow> bool" where
  "row_edge r r' \<longleftrightarrow> same_material r r' \<and> same_raw r r' \<and>
     (\<exists>a b. row_status r = status_as_str a \<and> row_status r' = status_as_str b \<and> status_edge a b)"

lemma check_status: "stage_check r \<Longrightarrow> \<exists>a. row_status r = status_as_str a"
  unfolding stage_check_def by (metis empty_iff insertE status_as_str.simps)

lemma row_edge_refl: "stage_check r \<Longrightarrow> row_edge r r"
  using check_status status_edge.stay by (fastforce simp: row_edge_def same_material_def same_raw_def)

lemma row_edgeI:
  "same_material r r' \<Longrightarrow> same_raw r r' \<Longrightarrow> row_status r = status_as_str a \<Longrightarrow> row_status r' = status_as_str b \<Longrightarrow>
     status_edge a b \<Longrightarrow> row_edge r r'"
  by (auto simp: row_edge_def)

text \<open>
  A state that differs from an earlier one only in steps of its stages' lives.
\<close>

definition evolves :: "stage_db \<Rightarrow> stage_db \<Rightarrow> bool" where
  "evolves db db' \<longleftrightarrow> db_ok db' \<and> list_all2 row_edge (stage_rows db) (stage_rows db')
     \<and> input_rows db' = input_rows db \<and> output_rows db' = output_rows db"

lemma evolves_ensure_schema: "db_ok db \<Longrightarrow> evolves db (ensure_schema db)"
  by (auto simp: evolves_def list_all2_same intro: row_edge_refl db_ok_check)

lemma evolves_refl: "db_ok db \<Longrightarrow> evolves db db"
  by (auto simp: evolves_def list_all2_same intro: row_edge_refl db_ok_check)

section \<open>Updates of stage rows\<close>

text \<open>
  The contract of a guarded \<open>UPDATE\<close> of the stage table: the rows it selects satisfy the
  \<open>CHECK\<close> constraints and the column ranges after the assignment if they did before, and the
  assignment is a step in the life of the stage. Under the contract the statement never fails,
  keeps the invariant, and leaves the other rows as they are.
\<close>

locale stage_update =
  fixes P :: "stage_row \<Rightarrow> bool" and f :: "stage_row \<Rightarrow> stage_row"
  assumes keeps_check: "P r \<Longrightarrow> stage_check r \<Longrightarrow> stage_check (f r)"
    and keeps_columns: "P r \<Longrightarrow> stage_columns_ok r \<Longrightarrow> stage_columns_ok (f r)"
    and is_edge: "P r \<Longrightarrow> stage_check r \<Longrightarrow> row_edge r (f r)"
begin

lemma keeps_keys:
  "P r \<Longrightarrow> stage_check r \<Longrightarrow> stage_key (f r) = stage_key r \<and> stage_txid_key (f r) = stage_txid_key r
     \<and> row_txid (f r) = row_txid r"
  using is_edge [of r] by (simp add: row_edge_def same_material_def stage_key_def stage_txid_key_def)

lemma map_keys:
  assumes "\<forall>r \<in> set rows. stage_check r"
  shows "map stage_key (map (\<lambda>r. if P r then f r else r) rows) = map stage_key rows"
    and "map stage_txid_key (map (\<lambda>r. if P r then f r else r) rows) = map stage_txid_key rows"
  using assms keeps_keys by auto

lemma update_succeeds:
  "db_ok db \<Longrightarrow> update_stage_rows P f db =
     Some (length (filter P (stage_rows db)),
           db\<lparr>stage_rows := map (\<lambda>r. if P r then f r else r) (stage_rows db)\<rparr>)"
  using keeps_check db_ok_check by (auto simp: update_stage_rows_def)

lemma update_keeps:
  assumes ok: "db_ok db"
  shows "db_ok (db\<lparr>stage_rows := map (\<lambda>r. if P r then f r else r) (stage_rows db)\<rparr>)"
proof -
  let ?rows = "map (\<lambda>r. if P r then f r else r) (stage_rows db)"
  have checks: "\<forall>r \<in> set (stage_rows db). stage_check r" using ok db_ok_check by blast
  have "\<forall>r \<in> set ?rows. stage_check r \<and> stored_txid (row_txid r) \<and> stage_columns_ok r"
    using ok checks keeps_check keeps_columns keeps_keys
    by (auto simp: db_ok_def stage_table_ok_def)
  then have "stage_table_ok ?rows"
    using ok unfolding stage_table_ok_def map_keys [OF checks] by (simp add: db_ok_def stage_table_ok_def)
  moreover have "stage_key ` set ?rows = stage_key ` set (stage_rows db)"
    using map_keys(1) [OF checks] by (metis list.set_map)
  ultimately show ?thesis using ok by (simp add: db_ok_def links_ok_def)
qed

lemma update_edges:
  "db_ok db \<Longrightarrow>
     list_all2 row_edge (stage_rows db) (map (\<lambda>r. if P r then f r else r) (stage_rows db))"
  using db_ok_check is_edge row_edge_refl by (auto simp: list_all2_conv_all_nth)

lemma update_evolves:
  "db_ok db \<Longrightarrow>
     evolves db ((ensure_schema db)\<lparr>stage_rows := map (\<lambda>r. if P r then f r else r) (stage_rows db)\<rparr>)"
  using update_keeps [of "ensure_schema db"] update_edges by (simp add: evolves_def)

lemma update_Some_evolves:
  "db_ok db \<Longrightarrow> update_stage_rows P f db = Some (n, db') \<Longrightarrow> evolves db db'"
  using update_keeps [of db] update_edges [of db] by (auto simp: update_succeeds evolves_def)

lemma schema_succeeds:
  "db_ok db \<Longrightarrow> update_stage_rows P f (ensure_schema db) =
     Some (length (filter P (stage_rows db)),
           (ensure_schema db)\<lparr>stage_rows := map (\<lambda>r. if P r then f r else r) (stage_rows db)\<rparr>)"
  using update_succeeds [of "ensure_schema db"] by simp

lemma guarded_schema_run:
  "db_ok db \<Longrightarrow> guarded_update label P f (ensure_schema db) k =
     (k (length (filter P (stage_rows db))),
      (ensure_schema db)\<lparr>stage_rows := map (\<lambda>r. if P r then f r else r) (stage_rows db)\<rparr>)"
  by (simp add: guarded_update_def schema_succeeds)

lemma guarded_run:
  "db_ok db \<Longrightarrow> guarded_update label P f db k =
     (k (length (filter P (stage_rows db))),
      db\<lparr>stage_rows := map (\<lambda>r. if P r then f r else r) (stage_rows db)\<rparr>)"
  by (simp add: guarded_update_def update_succeeds)

end

lemmas row_ops = promote_row_def broadcast_row_def reset_row_def attempt_row_def not_before_row_def
  confirm_row_def

interpretation promote: stage_update
  "\<lambda>r. is_stage_txid run txid r \<and> row_stage_index r = k \<and> row_status r = ''awaiting_inputs'' \<and> row_raw r = None"
  "promote_row sealed" for run txid k sealed
  by unfold_locales
    (auto simp: row_ops stage_check_def stage_columns_ok_def same_material_def same_raw_def
      intro!: row_edgeI [where a = AwaitingInputs and b = Pending] status_edge.intros)

interpretation broadcast: stage_update
  "\<lambda>r. is_stage_txid run txid r \<and> row_status r = ''pending''" "broadcast_row Broadcasted" for run txid
  by unfold_locales
    (auto simp: row_ops stage_check_def stage_columns_ok_def same_material_def same_raw_def
      intro!: row_edgeI [where a = Pending and b = Broadcasted] status_edge.intros)

interpretation attempt: stage_update
  "\<lambda>r. is_stage_txid run txid r \<and> row_status r = ''pending''" "attempt_row flag" for run txid flag
  by unfold_locales
    (auto simp: row_ops stage_check_def stage_columns_ok_def same_material_def same_raw_def
      intro!: row_edgeI [where a = Pending and b = Pending] status_edge.intros)

lemma status_edge_to:
  assumes "stage_check r" "same_material r r'" "same_raw r r'" "row_status r' = status_as_str b" "\<And>a. status_edge a b"
  shows "row_edge r r'"
  using check_status [OF assms(1)] assms(2-5) by (auto simp: row_edge_def)

interpretation reset: stage_update "is_stage_txid run txid" reset_row for run txid
proof unfold_locales
  fix r assume "stage_check r"
  then show "row_edge r (reset_row r)"
    by (rule status_edge_to [where b = AwaitingInputs])
      (auto simp: row_ops same_material_def same_raw_def intro: status_edge.intros)
qed (auto simp: row_ops stage_check_def stage_columns_ok_def)

text \<open>
  A confirmation needs a block hash of 32 bytes, which is the type of the argument; heights are
  \<open>u32\<close>.
\<close>

lemma stage_update_confirm:
  "length block_hash = 32 \<Longrightarrow> height \<le> u32_max \<Longrightarrow> stage_update P (confirm_row height block_hash)"
proof unfold_locales
  fix r assume "stage_check r"
  then show "row_edge r (confirm_row height block_hash r)"
    by (rule status_edge_to [where b = Confirmed])
      (auto simp: row_ops same_material_def same_raw_def intro: status_edge.intros)
qed (auto simp: row_ops stage_check_def stage_columns_ok_def)

lemma stage_update_not_before:
  "height \<le> u32_max \<Longrightarrow> stage_update P (not_before_row height)"
proof unfold_locales
  fix r assume "stage_check r"
  then obtain a where "row_status r = status_as_str a" using check_status by blast
  then show "row_edge r (not_before_row height r)"
    by (intro row_edgeI [where a = a and b = a]) (auto simp: row_ops same_material_def same_raw_def intro: status_edge.intros)
qed (auto simp: row_ops stage_check_def stage_columns_ok_def)

lemmas confirm_run = stage_update.guarded_schema_run [OF stage_update_confirm]
  and confirm_succeeds = stage_update.schema_succeeds [OF stage_update_confirm]
  and confirm_evolves = stage_update.update_evolves [OF stage_update_confirm]

text \<open>What the updates return and leave, on a database that satisfies the invariant.\<close>

lemmas upkeep_of_runs = promote.guarded_schema_run broadcast.schema_succeeds reset.guarded_schema_run
  attempt.guarded_schema_run confirm_run confirm_succeeds
  and update_evolves = promote.update_evolves broadcast.update_evolves reset.update_evolves
  attempt.update_evolves confirm_evolves

end
