(* ===== verification/StageBatch.thy ===== *)
theory StageBatch
  imports StageInvariant
begin

text \<open>
  What the batch validation accepts, as a predicate on the batch, and what the insertion of an
  accepted batch does to the tables.
\<close>

section \<open>Validation, declaratively\<close>

lemma validate_hex_32_Ok: "(validate_hex_32 v label = Ok u) = hex32 v"
  by (simp add: validate_hex_32_def hex32_def)

lemma validate_txid_hex_Ok: "(validate_txid_hex v label = Ok u) = hex32 v"
  by (simp add: validate_txid_hex_def validate_hex_32_Ok)

lemma hex32_stored: "hex32 v \<Longrightarrow> stored_txid (to_ascii_lowercase v)"
  by (auto simp: hex32_def stored_txid_def to_ascii_lowercase_def list_all_iff is_ascii_hexdigit_lower)

definition outpoint_of :: "stage_input_ref \<Rightarrow> string \<times> u32" where
  "outpoint_of i = (to_ascii_lowercase (in_txid_hex i), in_output_index i)"

definition input_valid :: "stage_input_ref \<Rightarrow> bool" where
  "input_valid i \<longleftrightarrow> hex32 (in_txid_hex i) \<and> (\<forall>n \<in> set_option (in_nullifier_hex i). hex32 n)"

definition output_valid :: "stage_output_ref \<Rightarrow> bool" where
  "output_valid out \<longleftrightarrow> out_part_index out \<noteq> None \<longrightarrow> out_kind out = RoleMigration"

definition raw_valid :: "stage_insert \<Rightarrow> bool" where
  "raw_valid s \<longleftrightarrow> ins_status s = AwaitingInputs \<and> ins_raw_tx s = None
     \<or> ins_status s = Pending \<and> (\<exists>raw. ins_raw_tx s = Some raw \<and> raw \<noteq> [])"

definition stage_valid :: "stage_insert \<Rightarrow> bool" where
  "stage_valid s \<longleftrightarrow> hex32 (ins_expected_txid_hex s) \<and> ins_base_pczt s \<noteq> [] \<and> ins_inputs s \<noteq> []
     \<and> ins_outputs s \<noteq> [] \<and> raw_valid s \<and> (\<forall>i \<in> set (ins_inputs s). input_valid i)
     \<and> (\<forall>out \<in> set (ins_outputs s). output_valid out) \<and> distinct (map out_output_index (ins_outputs s))"

text \<open>The ranges of the argument types.\<close>

definition typed_insert :: "stage_insert \<Rightarrow> bool" where
  "typed_insert s \<longleftrightarrow> ins_stage_index s \<le> u32_max \<and> ins_target_height s \<le> u32_max
     \<and> ins_scheduled_height s \<le> u32_max \<and> ins_expiry_height s \<le> u32_max
     \<and> (\<forall>i \<in> set (ins_inputs s). in_output_index i \<le> u32_max \<and> in_note_version i \<le> 255)
     \<and> (\<forall>out \<in> set (ins_outputs s). out_output_index out \<le> u32_max \<and> out_note_version out \<le> 255
          \<and> (\<forall>p \<in> set_option (out_part_index out). p \<le> u32_max))"

definition stored_id :: "stage_insert \<Rightarrow> string" where
  "stored_id s = to_ascii_lowercase (ins_expected_txid_hex s)"

definition batch_outpoints :: "stage_insert list \<Rightarrow> (string \<times> u32) list" where
  "batch_outpoints stages = concat (map (\<lambda>s. map outpoint_of (ins_inputs s)) stages)"

lemma batch_outpoints_Cons [simp]:
  "batch_outpoints (s # stages) = map outpoint_of (ins_inputs s) @ batch_outpoints stages"
  "batch_outpoints [] = []"
  by (simp_all add: batch_outpoints_def)

definition batch_valid :: "string \<Rightarrow> stage_insert list \<Rightarrow> bool" where
  "batch_valid run_id stages \<longleftrightarrow> run_id \<noteq> [] \<and> (\<forall>s \<in> set stages. stage_valid s)
     \<and> distinct (map ins_stage_index stages) \<and> distinct (map stored_id stages)
     \<and> distinct (batch_outpoints stages)"

lemma validate_raw_Ok: "(validate_raw s = Ok u) = raw_valid s"
  by (cases "ins_status s"; cases "ins_raw_tx s") (auto simp: validate_raw_def raw_valid_def)

lemma validate_input_Ok:
  "(validate_input seen i = Ok seen') =
     (input_valid i \<and> outpoint_of i \<notin> seen \<and> seen' = insert (outpoint_of i) seen)"
  by (cases "in_nullifier_hex i")
    (auto simp: validate_input_def input_valid_def outpoint_of_def outcome_simps validate_txid_hex_Ok
      validate_hex_32_Ok Let_def)

lemma validate_inputs_Ok:
  "(foldM validate_input seen is = Ok seen') =
     ((\<forall>i \<in> set is. input_valid i) \<and> distinct (map outpoint_of is)
       \<and> outpoint_of ` set is \<inter> seen = {} \<and> seen' = outpoint_of ` set is \<union> seen)"
  by (induction "is" arbitrary: seen) (auto simp: outcome_simps validate_input_Ok)

lemma validate_output_Ok:
  "(validate_output k seen out = Ok seen') =
     (output_valid out \<and> out_output_index out \<notin> seen \<and> seen' = insert (out_output_index out) seen)"
  by (auto simp: validate_output_def output_valid_def)

lemma validate_outputs_Ok:
  "(foldM (validate_output k) seen outs = Ok seen') =
     ((\<forall>out \<in> set outs. output_valid out) \<and> distinct (map out_output_index outs)
       \<and> out_output_index ` set outs \<inter> seen = {} \<and> seen' = out_output_index ` set outs \<union> seen)"
  by (induction outs arbitrary: seen) (auto simp: outcome_simps validate_output_Ok)

lemma validate_stage_Ok:
  "(validate_stage (ks, ts, ps) s = Ok seen') =
     (stage_valid s \<and> ins_stage_index s \<notin> ks \<and> stored_id s \<notin> ts
       \<and> distinct (map outpoint_of (ins_inputs s)) \<and> outpoint_of ` set (ins_inputs s) \<inter> ps = {}
       \<and> seen' = (insert (ins_stage_index s) ks, insert (stored_id s) ts,
                  outpoint_of ` set (ins_inputs s) \<union> ps))"
  by (auto simp: validate_stage_def stage_valid_def stored_id_def outcome_simps validate_txid_hex_Ok
      validate_raw_Ok validate_inputs_Ok validate_outputs_Ok Let_def)

lemma disjoint_steps:
  "(A \<inter> insert x B = {}) = (x \<notin> A \<and> A \<inter> B = {})"
  "(insert x A \<inter> B = {}) = (x \<notin> B \<and> A \<inter> B = {})"
  "(C \<inter> (A \<union> B) = {}) = (A \<inter> C = {} \<and> C \<inter> B = {})"
  "((A \<union> C) \<inter> B = {}) = (A \<inter> B = {} \<and> C \<inter> B = {})"
  by auto

lemma validate_stages_Ok:
  "(\<exists>seen'. foldM validate_stage (ks, ts, ps) stages = Ok seen') =
     ((\<forall>s \<in> set stages. stage_valid s)
       \<and> distinct (map ins_stage_index stages) \<and> ins_stage_index ` set stages \<inter> ks = {}
       \<and> distinct (map stored_id stages) \<and> stored_id ` set stages \<inter> ts = {}
       \<and> distinct (batch_outpoints stages) \<and> set (batch_outpoints stages) \<inter> ps = {})"
proof (induction stages arbitrary: ks ts ps)
  case (Cons s stages)
  let ?next = "(insert (ins_stage_index s) ks, insert (stored_id s) ts, outpoint_of ` set (ins_inputs s) \<union> ps)"
  define A where "A = outpoint_of ` set (ins_inputs s)"
  define B where "B = set (batch_outpoints stages)"
  define I where "I = ins_stage_index ` set stages"
  define T where "T = stored_id ` set stages"
  have "(\<exists>seen'. foldM validate_stage (ks, ts, ps) (s # stages) = Ok seen') \<longleftrightarrow>
      stage_valid s \<and> ins_stage_index s \<notin> ks \<and> stored_id s \<notin> ts
       \<and> distinct (map outpoint_of (ins_inputs s)) \<and> A \<inter> ps = {}
       \<and> (\<exists>seen'. foldM validate_stage ?next stages = Ok seen')"
    by (auto simp: outcome_simps validate_stage_Ok A_def)
  then show ?case
    unfolding Cons.IH by (simp add: disjoint_steps flip: A_def B_def I_def T_def) blast
qed simp

lemma validate_stage_batch_Ok: "(validate_stage_batch run_id stages = Ok ()) = batch_valid run_id stages"
proof -
  have "(validate_stage_batch run_id stages = Ok ()) =
      (run_id \<noteq> [] \<and> (\<exists>seen'. foldM validate_stage ({}, {}, {}) stages = Ok seen'))"
    by (auto simp: validate_stage_batch_def outcome_simps)
  then show ?thesis unfolding validate_stages_Ok by (auto simp: batch_valid_def)
qed

section \<open>Effect of the insertion\<close>

lemma insert_stage_input_Ok:
  "(insert_stage_input run k db p = Ok db') =
     (fst p \<le> u32_max \<and> insert_input_row (input_row_of run k p) db = Some db')"
  by (auto simp: insert_stage_input_def outcome_simps)

lemma insert_stage_output_Ok:
  "(insert_stage_output run k db p = Ok db') =
     (fst p \<le> u32_max \<and> insert_output_row (output_row_of run k p) db = Some db')"
  by (auto simp: insert_stage_output_def outcome_simps)

lemma snd_enumerate: "p \<in> set (List.enumerate n xs) \<Longrightarrow> snd p \<in> set xs"
  by (metis list.set_map imageI map_snd_enumerate)

lemma insert_inputs_Ok:
  assumes "foldM (insert_stage_input run k) db ps = Ok db'"
    and "\<forall>p \<in> set ps. hex32 (in_txid_hex (snd p)) \<and> in_output_index (snd p) \<le> u32_max
           \<and> in_note_version (snd p) \<le> 255" and "input_table_ok (input_rows db)"
  shows "db' = db\<lparr>input_rows := input_rows db @ map (input_row_of run k) ps\<rparr>
    \<and> input_table_ok (input_rows db @ map (input_row_of run k) ps)"
  using assms
proof (induction ps arbitrary: db)
  case (Cons p ps)
  let ?r = "input_row_of run k p" and ?db = "db\<lparr>input_rows := input_rows db @ [input_row_of run k p]\<rparr>"
  from Cons.prems(1) have new: "input_key ?r \<notin> input_key ` set (input_rows db)"
    "outpoint_key ?r \<notin> outpoint_key ` set (input_rows db)"
    and rest: "foldM (insert_stage_input run k) ?db ps = Ok db'"
    by (auto simp: insert_stage_input_Ok insert_input_row_def outcome_simps split: if_splits)
  have "stored_txid (irow_txid ?r) \<and> input_columns_ok ?r"
    using Cons.prems(2) hex32_stored by (cases p) (simp add: input_row_of_def input_columns_ok_def)
  then have "input_table_ok (input_rows ?db)" using new Cons.prems(3) by (auto simp: input_table_ok_def)
  from Cons.IH [OF rest _ this] Cons.prems(2) show ?case by simp
qed simp

lemma insert_outputs_Ok:
  assumes "foldM (insert_stage_output run k) db ps = Ok db'"
    and "\<forall>p \<in> set ps. out_output_index (snd p) \<le> u32_max \<and> out_note_version (snd p) \<le> 255
           \<and> (\<forall>q \<in> set_option (out_part_index (snd p)). q \<le> u32_max)"
    and "output_table_ok (output_rows db)"
  shows "db' = db\<lparr>output_rows := output_rows db @ map (output_row_of run k) ps\<rparr>
    \<and> output_table_ok (output_rows db @ map (output_row_of run k) ps)"
  using assms
proof (induction ps arbitrary: db)
  case (Cons p ps)
  let ?r = "output_row_of run k p" and ?db = "db\<lparr>output_rows := output_rows db @ [output_row_of run k p]\<rparr>"
  from Cons.prems(1) have new: "output_key ?r \<notin> output_key ` set (output_rows db)"
    "output_index_key ?r \<notin> output_index_key ` set (output_rows db)" "output_check ?r"
    and rest: "foldM (insert_stage_output run k) ?db ps = Ok db'"
    by (auto simp: insert_stage_output_Ok insert_output_row_def outcome_simps split: if_splits)
  have "output_columns_ok ?r"
    using Cons.prems(2) by (cases p) (simp add: output_row_of_def output_columns_ok_def)
  then have "output_table_ok (output_rows ?db)" using new Cons.prems(3) by (auto simp: output_table_ok_def)
  from Cons.IH [OF rest _ this] Cons.prems(2) show ?case by simp
qed simp

definition stage_inputs_rows :: "string \<Rightarrow> stage_insert \<Rightarrow> input_row list" where
  "stage_inputs_rows run s = map (input_row_of run (ins_stage_index s)) (List.enumerate 0 (ins_inputs s))"

definition stage_outputs_rows :: "string \<Rightarrow> stage_insert \<Rightarrow> output_row list" where
  "stage_outputs_rows run s = map (output_row_of run (ins_stage_index s)) (List.enumerate 0 (ins_outputs s))"

text \<open>The row of a stage whose columns are sealed with the given key.\<close>

definition sealed_row :: "crypto_env \<Rightarrow> string \<Rightarrow> bytes \<Rightarrow> bytes \<Rightarrow> stage_insert \<Rightarrow> stage_row \<Rightarrow> bool" where
  "sealed_row env run password salt s r \<longleftrightarrow>
     (\<exists>i j k base blob sigs raw. r = stage_row_of run s base sigs raw
       \<and> encrypt_payload env i (ins_base_pczt s) password salt = Ok base
       \<and> encode_compact_action_sigs (ins_sigs s) = Ok blob
       \<and> encrypt_payload env j blob password salt = Ok sigs
       \<and> (case ins_raw_tx s of None \<Rightarrow> raw = None
          | Some tx \<Rightarrow> \<exists>c. raw = Some c \<and> encrypt_payload env k tx password salt = Ok c))"

lemma input_stage_rows:
  "ins_inputs s \<noteq> [] \<Longrightarrow> input_stage ` set (stage_inputs_rows run s) = {(run, ins_stage_index s)}"
  by (cases "ins_inputs s") (auto simp: stage_inputs_rows_def input_row_of_def input_stage_def)

lemma output_stage_rows:
  "ins_outputs s \<noteq> [] \<Longrightarrow> output_stage ` set (stage_outputs_rows run s) = {(run, ins_stage_index s)}"
  by (cases "ins_outputs s") (auto simp: stage_outputs_rows_def output_row_of_def output_stage_def)

lemma insert_stage_Ok:
  assumes run: "insert_stage env run password salt (draw, db) s = Ok (draw', db')"
    and valid: "stage_valid s" "typed_insert s" and ok: "db_ok db"
  shows "\<exists>r. sealed_row env run password salt s r \<and>
    db' = db\<lparr>stage_rows := stage_rows db @ [r], input_rows := input_rows db @ stage_inputs_rows run s,
             output_rows := output_rows db @ stage_outputs_rows run s\<rparr> \<and> db_ok db'"
proof -
  from run obtain base blob sigs raw db1 db2 where
    seals: "encrypt_payload env draw (ins_base_pczt s) password salt = Ok base"
      "encode_compact_action_sigs (ins_sigs s) = Ok blob"
      "encrypt_payload env (draw + 1) blob password salt = Ok sigs"
      "encrypt_raw env (draw + 2) (ins_raw_tx s) password salt = Ok (draw', raw)" and
    r: "insert_stage_row (stage_row_of run s base sigs raw) db = Some db1" and
    ins: "foldM (insert_stage_input run (ins_stage_index s)) db1 (List.enumerate 0 (ins_inputs s)) = Ok db2" and
    outs: "foldM (insert_stage_output run (ins_stage_index s)) db2 (List.enumerate 0 (ins_outputs s)) = Ok db'"
    by (auto simp: insert_stage_def outcome_simps)
  let ?r = "stage_row_of run s base sigs raw"
  have sealed: "sealed_row env run password salt s ?r"
    using seals unfolding sealed_row_def
    by (cases "ins_raw_tx s") (fastforce simp: encrypt_raw_def outcome_simps)+
  from r have db1: "db1 = db\<lparr>stage_rows := stage_rows db @ [?r]\<rparr>" and table: "stage_table_ok (stage_rows db @ [?r])"
    and exist: "tables_exist db"
    using ok valid hex32_stored
    by (auto simp: insert_stage_row_def db_ok_def stage_table_ok_def stage_valid_def stage_row_of_def
        typed_insert_def stage_columns_ok_def split: if_splits)
  have "\<forall>p \<in> set (List.enumerate 0 (ins_inputs s)). hex32 (in_txid_hex (snd p))
      \<and> in_output_index (snd p) \<le> u32_max \<and> in_note_version (snd p) \<le> 255"
    using valid by (auto simp: stage_valid_def input_valid_def typed_insert_def dest!: snd_enumerate)
  from insert_inputs_Ok [OF ins this] ok
  have db2: "db2 = db1\<lparr>input_rows := input_rows db @ stage_inputs_rows run s\<rparr>" "input_table_ok (input_rows db2)"
    by (auto simp: db1 db_ok_def stage_inputs_rows_def)
  have "\<forall>p \<in> set (List.enumerate 0 (ins_outputs s)). out_output_index (snd p) \<le> u32_max
      \<and> out_note_version (snd p) \<le> 255 \<and> (\<forall>q \<in> set_option (out_part_index (snd p)). q \<le> u32_max)"
    using valid by (auto simp: typed_insert_def dest!: snd_enumerate)
  from insert_outputs_Ok [OF outs this] ok
  have db': "db' = db2\<lparr>output_rows := output_rows db @ stage_outputs_rows run s\<rparr>" "output_table_ok (output_rows db')"
    by (auto simp: db1 db2(1) db_ok_def stage_outputs_rows_def)
  have "links_ok db'"
    using ok valid input_stage_rows [of s run] output_stage_rows [of s run]
    by (simp add: db'(1) db2(1) db1 db_ok_def links_ok_def stage_valid_def stage_row_of_def stage_key_def image_Un)
  then have "db_ok db'"
    using table db2 db'(2) exist by (simp add: db_ok_def db'(1) db1)
  with sealed show ?thesis by (intro exI [of _ ?r]) (simp add: db'(1) db2(1) db1)
qed

lemma insert_stages_Ok:
  assumes "foldM (insert_stage env run password salt) (draw, db) stages = Ok (draw', db')"
    and "\<forall>s \<in> set stages. stage_valid s \<and> typed_insert s" and "db_ok db"
  shows "\<exists>rs. list_all2 (sealed_row env run password salt) stages rs \<and>
    db' = db\<lparr>stage_rows := stage_rows db @ rs,
             input_rows := input_rows db @ concat (map (stage_inputs_rows run) stages),
             output_rows := output_rows db @ concat (map (stage_outputs_rows run) stages)\<rparr> \<and> db_ok db'"
  using assms
proof (induction stages arbitrary: draw db)
  case Nil
  then show ?case by (intro exI [of _ "[]"]) auto
next
  case (Cons s stages)
  from Cons.prems(1) obtain d1 db1 where
    one: "insert_stage env run password salt (draw, db) s = Ok (d1, db1)" and
    rest: "foldM (insert_stage env run password salt) (d1, db1) stages = Ok (draw', db')"
    by (auto simp: outcome_simps)
  from insert_stage_Ok [OF one] Cons.prems(2,3) obtain r where
    r: "sealed_row env run password salt s r" and
    db1: "db1 = db\<lparr>stage_rows := stage_rows db @ [r], input_rows := input_rows db @ stage_inputs_rows run s,
             output_rows := output_rows db @ stage_outputs_rows run s\<rparr>" and ok1: "db_ok db1"
    by auto
  from Cons.IH [OF rest _ ok1] Cons.prems(2) obtain rs where
    "list_all2 (sealed_row env run password salt) stages rs"
    "db' = db1\<lparr>stage_rows := stage_rows db1 @ rs,
             input_rows := input_rows db1 @ concat (map (stage_inputs_rows run) stages),
             output_rows := output_rows db1 @ concat (map (stage_outputs_rows run) stages)\<rparr>" "db_ok db'"
    by auto
  with r show ?case by (intro exI [of _ "r # rs"]) (simp add: db1)
qed

lemma insert_batch_Ok:
  assumes "insert_denomination_stages_with_tx env draw run stages password salt64 db = (Ok u, db')"
  shows "batch_valid run stages \<and> (\<exists>salt draw'. b64_decode env salt64 = Some salt
     \<and> foldM (insert_stage env run password salt) (draw, db) stages = Ok (draw', db'))"
proof -
  from assms obtain salt where "validate_stage_batch run stages = Ok ()"
    "decode_base64 env salt64 ''migration denomination stage salt'' = Ok salt"
    "\<exists>d. foldM (insert_stage env run password salt) (draw, db) stages = Ok (d, db')"
    by (auto simp: insert_denomination_stages_with_tx_def outcome_simps split: outcome.splits)
  then show ?thesis by (auto simp: validate_stage_batch_Ok decode_base64_def outcome_simps)
qed

lemma insert_batch_keeps:
  assumes "db_ok db" and typed: "\<forall>s \<in> set stages. typed_insert s"
  shows "db_ok (snd (insert_denomination_stages_with_tx env draw run stages password salt64 db))"
proof (cases "fst (insert_denomination_stages_with_tx env draw run stages password salt64 db)")
  case (Ok u)
  then obtain db' where run: "insert_denomination_stages_with_tx env draw run stages password salt64 db = (Ok u, db')"
    by (metis prod.collapse)
  from insert_batch_Ok [OF run] obtain salt draw' where
    valid: "\<forall>s \<in> set stages. stage_valid s \<and> typed_insert s" and
    fold: "foldM (insert_stage env run password salt) (draw, db) stages = Ok (draw', db')"
    using typed by (auto simp: batch_valid_def)
  from insert_stages_Ok [OF fold valid assms(1)] show ?thesis unfolding run by auto
qed (use assms in \<open>auto simp: insert_denomination_stages_with_tx_def split: outcome.splits\<close>)

end
