(* ===== verification/StageMachine.thy ===== *)
theory StageMachine
  imports StageBatch
begin

text \<open>
  The stage store as a state machine: one step per operation, with the arguments of its caller,
  from the empty database. The first properties say what every reachable database satisfies and
  what a step can do to a stage.
\<close>

section \<open>Operations keep the invariant\<close>

lemma prepared_evolves:
  "(\<And>x. m = Ok x \<Longrightarrow> evolves db (snd (k x))) \<Longrightarrow> db_ok db \<Longrightarrow>
     evolves db (snd (prepared m k (ensure_schema db)))"
  by (cases m) (auto intro: evolves_ensure_schema)

lemma promote_op_evolves:
  "db_ok db \<Longrightarrow> evolves db (snd (promote_awaiting_denomination_stage env draw run k txid raw pw salt db))"
  unfolding promote_awaiting_denomination_stage_def
  by (intro prepared_evolves) (simp_all add: upkeep_of_runs update_evolves)

lemma broadcast_op_evolves:
  "db_ok db \<Longrightarrow> evolves db (snd (mark_denomination_stage_broadcasted run txid db))"
  unfolding mark_denomination_stage_broadcasted_def transition_stage_def
  by (intro prepared_evolves) (simp_all add: upkeep_of_runs update_evolves)

lemma confirm_op_evolves:
  "db_ok db \<Longrightarrow> length block_hash = 32 \<Longrightarrow> height \<le> u32_max \<Longrightarrow>
     evolves db (snd (mark_denomination_stage_confirmed_at run txid height block_hash db))"
  unfolding mark_denomination_stage_confirmed_at_def
  by (intro prepared_evolves) (simp_all add: upkeep_of_runs update_evolves)

lemma replace_op_evolves:
  "db_ok db \<Longrightarrow> length block_hash = 32 \<Longrightarrow> height \<le> u32_max \<Longrightarrow>
     evolves db (snd (replace_denomination_stage_confirmation_identity run txid height block_hash db))"
  unfolding replace_denomination_stage_confirmation_identity_def
  by (intro prepared_evolves) (simp_all add: confirm_run confirm_evolves del: insert_iff)

lemma reset_op_evolves: "db_ok db \<Longrightarrow> evolves db (snd (reset_denomination_stage_exact run txid db))"
  unfolding reset_denomination_stage_exact_def
  by (intro prepared_evolves) (simp_all add: upkeep_of_runs update_evolves)

lemma attempt_op_evolves:
  "db_ok db \<Longrightarrow> evolves db (snd (mark_denomination_broadcast_attempted run txid db))"
  "db_ok db \<Longrightarrow> evolves db (snd (clear_denomination_broadcast_attempted run txid db))"
  by (simp_all add: mark_denomination_broadcast_attempted_def clear_denomination_broadcast_attempted_def
      upkeep_of_runs update_evolves)

text \<open>The cleanup of a stopped run.\<close>

lemma discard_simp:
  "discard_unsubmitted_preparation_stages run db =
     (ensure_schema db)\<lparr>stage_rows := filter (\<lambda>r. \<not> unsubmitted run r) (stage_rows db),
        input_rows := filter (\<lambda>i. \<not> (irow_run_id i = run \<and> irow_stage_index i \<in> set (unsubmitted_indices db run))) (input_rows db),
        output_rows := filter (\<lambda>i. \<not> (orow_run_id i = run \<and> orow_stage_index i \<in> set (unsubmitted_indices db run))) (output_rows db)\<rparr>"
  by (simp add: discard_unsubmitted_preparation_stages_def unsubmitted_indices_def Let_def)

lemma unsubmitted_key:
  assumes "db_ok db" "r \<in> set (stage_rows db)"
  shows "(row_run_id r = run \<and> row_stage_index r \<in> set (unsubmitted_indices db run)) = unsubmitted run r"
  using assms db_ok_stage_eq [OF assms(1)] by (force simp: unsubmitted_indices_def unsubmitted_def)

lemma distinct_map_filter: "distinct (map f xs) \<Longrightarrow> distinct (map f (filter P xs))"
  by (induction xs) auto

lemma discard_keeps:
  assumes ok: "db_ok db"
  shows "db_ok (discard_unsubmitted_preparation_stages run db)"
proof -
  let ?gone = "{(run, k) | k. k \<in> set (unsubmitted_indices db run)}"
  have stages: "stage_key ` {r \<in> set (stage_rows db). \<not> unsubmitted run r} = stage_key ` set (stage_rows db) - ?gone"
    using unsubmitted_key [OF ok] by (force simp: stage_key_def)
  have "input_stage ` {i \<in> set (input_rows db). \<not> (irow_run_id i = run \<and> irow_stage_index i \<in> set (unsubmitted_indices db run))}
      = input_stage ` set (input_rows db) - ?gone"
    by (force simp: input_stage_def)
  moreover have "output_stage ` {i \<in> set (output_rows db). \<not> (orow_run_id i = run \<and> orow_stage_index i \<in> set (unsubmitted_indices db run))}
      = output_stage ` set (output_rows db) - ?gone"
    by (force simp: output_stage_def)
  ultimately have "links_ok (discard_unsubmitted_preparation_stages run db)"
    using ok stages by (simp add: discard_simp db_ok_def links_ok_def)
  then show ?thesis
    using ok by (auto simp: db_ok_def discard_simp stage_table_ok_def input_table_ok_def output_table_ok_def
        intro!: distinct_map_filter)
qed

text \<open>The new broadcast heights: only the column \<open>broadcast_not_before_height\<close> changes.\<close>

definition rescheduled :: "stage_row \<Rightarrow> stage_row \<Rightarrow> bool" where
  "rescheduled r r' \<longleftrightarrow> (\<exists>h. r' = r\<lparr>row_not_before := h\<rparr>)"

lemma rescheduled_refl: "rescheduled r r"
  unfolding rescheduled_def by (rule exI [of _ "row_not_before r"]) simp

lemma rescheduled_trans: "rescheduled a b \<Longrightarrow> rescheduled b c \<Longrightarrow> rescheduled a c"
  by (auto simp: rescheduled_def)

lemma rescheduled_edge: "stage_check r \<Longrightarrow> rescheduled r r' \<Longrightarrow> row_edge r r'"
  using row_edge_refl [of r] by (auto simp: rescheduled_def row_edge_def same_material_def same_raw_def)

lemma rerandomize_loop_keeps:
  "rerandomize_loop draw run h rng rs db = Some (Ok db') \<Longrightarrow> db_ok db \<Longrightarrow>
     \<forall>r \<in> set rs. stage_columns_ok r \<Longrightarrow>
     db_ok db' \<and> list_all2 rescheduled (stage_rows db) (stage_rows db')
     \<and> input_rows db' = input_rows db \<and> output_rows db' = output_rows db"
proof (induction rs arbitrary: h rng db)
  case Nil
  then show ?case by (auto simp: list_all2_same rescheduled_refl)
next
  case (Cons r rs)
  let ?P = "\<lambda>s. row_run_id s = run \<and> row_stage_index s = row_stage_index r
    \<and> (row_status s = ''awaiting_inputs'' \<or> row_status s = ''pending'')"
  from Cons.prems(1) obtain delay rng' where
    delay: "draw rng = Some (delay, rng')" "h + delay \<le> u32_max" and
    loop: "(let effective = max (max (h + delay) (row_scheduled r))
                             (case row_not_before r of None \<Rightarrow> 0 | Some h \<Rightarrow> h) in
           (case update_stage_rows ?P (not_before_row effective) db of
              None \<Rightarrow> Some (Err (RerandomizeStage
                        (SqlFailed ''Reschedule migration denomination catch-up stage'')))
            | Some (updated, db') \<Rightarrow> rerandomize_loop draw run effective rng' rs db')) = Some (Ok db')"
    by (auto simp: bind_eq_Some_conv checked_add_def split: if_splits)
  define h' where "h' = max (max (h + delay) (row_scheduled r)) (case row_not_before r of None \<Rightarrow> 0 | Some h \<Rightarrow> h)"
  have h'_ok: "h' \<le> u32_max"
    using Cons.prems(3) delay(2) by (auto simp: h'_def stage_columns_ok_def split: option.splits)
  note nb = stage_update_not_before [OF h'_ok, of ?P]
  let ?db1 = "db\<lparr>stage_rows := map (\<lambda>s. if ?P s then not_before_row h' s else s) (stage_rows db)\<rparr>"
  have rest: "rerandomize_loop draw run h' rng' rs ?db1 = Some (Ok db')"
    using loop by (simp add: stage_update.update_succeeds [OF nb Cons.prems(2)] flip: h'_def)
  have ok1: "db_ok ?db1" by (rule stage_update.update_keeps [OF nb Cons.prems(2)])
  have step: "list_all2 rescheduled (stage_rows db) (stage_rows ?db1)"
    by (auto simp: list_all2_conv_all_nth rescheduled_refl not_before_row_def) (auto simp: rescheduled_def)
  from Cons.IH [OF rest ok1] Cons.prems(3) have IH:
    "db_ok db'" "list_all2 rescheduled (stage_rows ?db1) (stage_rows db')"
    "input_rows db' = input_rows db" "output_rows db' = output_rows db" by auto
  then show ?case using list_all2_trans [OF rescheduled_trans step IH(2)] by simp
qed

lemma rerandomize_keeps:
  assumes "rerandomize_remaining_preparation_broadcast_heights G prep_col time_col run network tip rng db
      = Some (Ok (n, db'))" and ok: "db_ok db"
  shows "db_ok db' \<and> list_all2 rescheduled (stage_rows db) (stage_rows db')
     \<and> input_rows db' = input_rows db \<and> output_rows db' = output_rows db"
proof (cases "db' = db")
  case True
  then show ?thesis using ok by (auto simp: list_all2_same rescheduled_refl)
next
  case False
  then obtain policy m where
    loop: "rerandomize_loop (preparation_delay_with_rng G network policy m) run tip rng (remaining_stages db run) db
      = Some (Ok db')"
    using assms(1)
    by (auto simp: rerandomize_remaining_preparation_broadcast_heights_def outcome_simps Let_def split: if_splits)
  have "\<forall>r \<in> set (remaining_stages db run). stage_columns_ok r"
    using ok by (auto simp: remaining_stages_def intro: db_ok_columns)
  from rerandomize_loop_keeps [OF loop ok this] show ?thesis .
qed

lemma rerandomize_op_evolves:
  assumes "rerandomize_remaining_preparation_broadcast_heights G prep_col time_col run network tip rng db
      = Some (Ok (n, db'))" and ok: "db_ok db"
  shows "evolves db db'"
  using rerandomize_keeps [OF assms] rescheduled_edge db_ok_check [OF ok]
  by (auto simp: evolves_def list_all2_conv_all_nth)

section \<open>Steps and reachable databases\<close>

text \<open>
  One rule per operation of the store; the premises are the ranges of the argument types. A
  failing operation is a step too: the database it leaves is the second component.
\<close>

inductive db_step :: "crypto_env \<Rightarrow> 'r rng_env \<Rightarrow> stage_db \<Rightarrow> stage_db \<Rightarrow> bool" for env G where
  schema: "db_step env G db (ensure_schema db)"
| insert_batch: "\<forall>s \<in> set stages. typed_insert s \<Longrightarrow>
    db_step env G db (snd (insert_denomination_stages_with_tx env draw run stages pw salt db))"
| promote_stage:
    "db_step env G db (snd (promote_awaiting_denomination_stage env draw run k txid raw pw salt db))"
| broadcast_stage: "db_step env G db (snd (mark_denomination_stage_broadcasted run txid db))"
| confirm_stage: "length block_hash = 32 \<Longrightarrow> height \<le> u32_max \<Longrightarrow>
    db_step env G db (snd (mark_denomination_stage_confirmed_at run txid height block_hash db))"
| record_inclusion: "length block_hash = 32 \<Longrightarrow> height \<le> u32_max \<Longrightarrow>
    db_step env G db (snd (replace_denomination_stage_confirmation_identity run txid height block_hash db))"
| reset_stage: "db_step env G db (snd (reset_denomination_stage_exact run txid db))"
| attempted: "db_step env G db (snd (mark_denomination_broadcast_attempted run txid db))"
| attempt_cleared: "db_step env G db (snd (clear_denomination_broadcast_attempted run txid db))"
| discard: "db_step env G db (discard_unsubmitted_preparation_stages run db)"
| rerandomize: "rerandomize_remaining_preparation_broadcast_heights G prep_col time_col run network tip rng db
      = Some (Ok (n, db')) \<Longrightarrow> db_step env G db db'"

inductive reachable_db :: "crypto_env \<Rightarrow> 'r rng_env \<Rightarrow> stage_db \<Rightarrow> bool" for env G where
  start: "reachable_db env G empty_db"
| step: "reachable_db env G db \<Longrightarrow> db_step env G db db' \<Longrightarrow> reachable_db env G db'"

text \<open>A batch that fails leaves the database; one that succeeds appends rows of new stages.\<close>

definition extends :: "stage_db \<Rightarrow> stage_db \<Rightarrow> bool" where
  "extends db db' \<longleftrightarrow> db_ok db' \<and> (\<exists>rs ins outs. stage_rows db' = stage_rows db @ rs
     \<and> input_rows db' = input_rows db @ ins \<and> output_rows db' = output_rows db @ outs
     \<and> (\<forall>r \<in> set rs. row_status r = ''awaiting_inputs'' \<or> row_status r = ''pending''))"

lemma insert_extends:
  assumes ok: "db_ok db" and typed: "\<forall>s \<in> set stages. typed_insert s"
  shows "extends db (snd (insert_denomination_stages_with_tx env draw run stages pw salt64 db))"
proof (cases "fst (insert_denomination_stages_with_tx env draw run stages pw salt64 db)")
  case (Ok u)
  then obtain db' where run: "insert_denomination_stages_with_tx env draw run stages pw salt64 db = (Ok u, db')"
    by (metis prod.collapse)
  from insert_batch_Ok [OF run] obtain salt draw' where
    valid: "\<forall>s \<in> set stages. stage_valid s \<and> typed_insert s" and
    fold: "foldM (insert_stage env run pw salt) (draw, db) stages = Ok (draw', db')"
    using typed by (auto simp: batch_valid_def)
  from insert_stages_Ok [OF fold valid ok] obtain rs where rs:
    "list_all2 (sealed_row env run pw salt) stages rs" "stage_rows db' = stage_rows db @ rs" and rest:
    "db' = db\<lparr>stage_rows := stage_rows db @ rs,
             input_rows := input_rows db @ concat (map (stage_inputs_rows run) stages),
             output_rows := output_rows db @ concat (map (stage_outputs_rows run) stages)\<rparr>" "db_ok db'"
    by auto
  have "row_status r = ''awaiting_inputs'' \<or> row_status r = ''pending''" if "r \<in> set rs" for r
  proof -
    from that rs(1) obtain s where "s \<in> set stages" "sealed_row env run pw salt s r"
      by (metis in_set_conv_nth list_all2_conv_all_nth)
    then show ?thesis using valid
      by (auto simp: sealed_row_def stage_row_of_def stage_valid_def raw_valid_def)
  qed
  with rest show ?thesis unfolding run by (auto simp: extends_def)
next
  case (Err e)
  then have "snd (insert_denomination_stages_with_tx env draw run stages pw salt64 db) = db"
    by (auto simp: insert_denomination_stages_with_tx_def split: outcome.splits)
  then show ?thesis using ok by (auto simp: extends_def)
next
  case Panic
  then have "snd (insert_denomination_stages_with_tx env draw run stages pw salt64 db) = db"
    by (auto simp: insert_denomination_stages_with_tx_def split: outcome.splits)
  then show ?thesis using ok by (auto simp: extends_def)
qed

lemma db_step_cases:
  assumes "db_step env G db db'" and ok: "db_ok db"
  shows "evolves db db'
    \<or> (\<exists>draw run stages pw salt. db' = snd (insert_denomination_stages_with_tx env draw run stages pw salt db) \<and> extends db db')
    \<or> (\<exists>run. db' = discard_unsubmitted_preparation_stages run db \<and> db_ok db')"
  using assms(1)
proof cases
  case schema
  then show ?thesis using evolves_ensure_schema [OF ok] by simp
next
  case (insert_batch stages draw run pw salt)
  then show ?thesis using insert_extends [OF ok] by blast
next
  case discard
  then show ?thesis using discard_keeps [OF ok] by blast
next
  case rerandomize
  then have "evolves db db'" by (rule rerandomize_op_evolves [OF _ ok])
  then show ?thesis ..
qed (simp_all add: ok promote_op_evolves broadcast_op_evolves confirm_op_evolves replace_op_evolves
      reset_op_evolves attempt_op_evolves)

lemma db_step_keeps: "db_step env G db db' \<Longrightarrow> db_ok db \<Longrightarrow> db_ok db'"
  using db_step_cases [of env G db db'] by (auto simp: evolves_def extends_def)

lemma reachable_ok: "reachable_db env G db \<Longrightarrow> db_ok db"
  by (induction rule: reachable_db.induct) (auto intro: db_ok_empty db_step_keeps)

end
