(* ===== verification/StageProps.thy ===== *)
theory StageProps
  imports StageMachine
begin

text \<open>
  Properties of the stage store: what each writer returns and leaves on every branch, what the
  readers return, and what a step can do to a stage.
\<close>

section \<open>Looking a stage up\<close>

lemma find_filter:
  "distinct (map g xs) \<Longrightarrow> (\<And>x. A x = (g x = c)) \<Longrightarrow>
     filter A xs = (case List.find A xs of None \<Rightarrow> [] | Some x \<Rightarrow> [x])"
proof (induction xs)
  case (Cons x xs)
  show ?case
  proof (cases "A x")
    case True
    then have "g y \<noteq> c" if "y \<in> set xs" for y using Cons.prems that by force
    then have "filter A xs = []" using Cons.prems(2) by (simp add: filter_empty_conv)
    with True show ?thesis by simp
  next
    case False
    then show ?thesis using Cons by simp
  qed
qed simp

lemma stage_filter:
  assumes "db_ok db"
  shows "filter (is_stage_txid run t) (stage_rows db) =
    (case find_stage db run t of None \<Rightarrow> [] | Some r \<Rightarrow> [r])"
  unfolding find_stage_def
  by (rule find_filter [where g = stage_txid_key and c = "(run, t)"])
    (use assms in \<open>auto simp: db_ok_def stage_table_ok_def is_stage_txid_def stage_txid_key_def\<close>)

lemma stage_count:
  "db_ok db \<Longrightarrow> length (filter (\<lambda>r. is_stage_txid run t r \<and> Q r) (stage_rows db)) =
     (case find_stage db run t of None \<Rightarrow> 0 | Some r \<Rightarrow> if Q r then 1 else 0)"
  using stage_filter [of db run t] by (simp flip: filter_filter split: option.splits)

lemma find_stage_Some:
  "find_stage db run t = Some r \<Longrightarrow> r \<in> set (stage_rows db) \<and> is_stage_txid run t r"
  by (auto simp: find_stage_def find_Some_iff)

lemma find_stage_ensure [simp]: "find_stage (ensure_schema db) run t = find_stage db run t"
  by (simp add: find_stage_def)

lemma map_if_unused: "filter P xs = [] \<Longrightarrow> map (\<lambda>r. if P r then f r else r) xs = xs"
  by (induction xs) (auto split: if_splits)

lemma unchanged_update:
  assumes "db_ok db" and "case find_stage db run t of None \<Rightarrow> True | Some r \<Rightarrow> \<not> Q r"
  shows "(ensure_schema db)\<lparr>stage_rows :=
      map (\<lambda>r. if is_stage_txid run t r \<and> Q r then f r else r) (stage_rows db)\<rparr> = ensure_schema db"
proof -
  have "length (filter (\<lambda>r. is_stage_txid run t r \<and> Q r) (stage_rows db)) = 0"
    using stage_count [OF assms(1), of run t Q] assms(2) by (auto split: option.splits)
  then have "filter (\<lambda>r. is_stage_txid run t r \<and> Q r) (stage_rows db) = []"
    by (simp only: length_0_conv)
  from map_if_unused [OF this] show ?thesis by (simp add: ensure_schema_def)
qed

text \<open>The database in which the stage with a transaction id has been changed by \<open>f\<close>.\<close>

definition with_stage :: "string \<Rightarrow> string \<Rightarrow> (stage_row \<Rightarrow> stage_row) \<Rightarrow> stage_db \<Rightarrow> stage_db" where
  "with_stage run t f db = (ensure_schema db)\<lparr>stage_rows :=
     map (\<lambda>r. if is_stage_txid run t r then f r else r) (stage_rows db)\<rparr>"

lemma update_with_stage:
  assumes "db_ok db" "find_stage db run t = Some s" "Q s"
  shows "(ensure_schema db)\<lparr>stage_rows :=
      map (\<lambda>r. if is_stage_txid run t r \<and> Q r then f r else r) (stage_rows db)\<rparr> = with_stage run t f db"
proof -
  have "Q r" if "r \<in> set (stage_rows db)" "is_stage_txid run t r" for r
  proof -
    from that have "r \<in> set (filter (is_stage_txid run t) (stage_rows db))" by simp
    with assms show ?thesis by (simp add: stage_filter)
  qed
  then show ?thesis by (simp add: with_stage_def ensure_schema_def cong: map_cong)
qed

section \<open>Broadcast and confirmation\<close>

lemma broadcast_result:
  assumes ok: "db_ok db" and hex: "hex32 txid" and t: "t = to_ascii_lowercase txid"
  shows "mark_denomination_stage_broadcasted run txid db =
    (case find_stage db run t of
       None \<Rightarrow> (Err (StageNotFound t), ensure_schema db)
     | Some r \<Rightarrow>
         if row_status r = ''pending'' then (Ok (), with_stage run t (broadcast_row Broadcasted) db)
         else if row_status r = ''awaiting_inputs'' then (Err (CannotMove AwaitingInputs Broadcasted), ensure_schema db)
         else (Ok (), ensure_schema db))"
proof (cases "find_stage db run t")
  case None
  then show ?thesis using ok hex
    by (simp add: mark_denomination_stage_broadcasted_def transition_stage_def validate_txid_hex_def
        validate_hex_32_def hex32_def broadcast.schema_succeeds stage_count unchanged_update ok_or_def flip: t)
next
  case (Some r)
  note found = find_stage_Some [OF Some]
  from check_status [of r] found ok obtain a where a: "row_status r = status_as_str a"
    using db_ok_check by blast
  show ?thesis
  proof (cases "a = Pending")
    case True
    then show ?thesis using ok hex Some a
      by (simp add: mark_denomination_stage_broadcasted_def transition_stage_def validate_txid_hex_def
          validate_hex_32_def hex32_def broadcast.schema_succeeds stage_count update_with_stage flip: t)
  next
    case False
    then have "row_status r \<noteq> ''pending''" using a by (cases a) auto
    then show ?thesis using ok hex Some a False
      by (cases a) (simp_all add: mark_denomination_stage_broadcasted_def transition_stage_def validate_txid_hex_def
          validate_hex_32_def hex32_def broadcast.schema_succeeds stage_count unchanged_update ok_or_def
          already_reached_def parse_status_def flip: t)
  qed
qed

lemma confirm_result:
  assumes ok: "db_ok db" and hex: "hex32 txid" and t: "t = to_ascii_lowercase txid"
    and args: "length block_hash = 32" "height \<le> u32_max"
  shows "mark_denomination_stage_confirmed_at run txid height block_hash db =
    (case find_stage db run t of
       None \<Rightarrow> (Err (StageNotFound t), ensure_schema db)
     | Some r \<Rightarrow>
         if row_status r = ''pending'' \<or> row_status r = ''broadcasted''
         then (Ok (), with_stage run t (confirm_row height block_hash) db)
         else if row_status r = ''awaiting_inputs'' then (Err (CannotMove AwaitingInputs Confirmed), ensure_schema db)
         else if row_mined r = Some height \<and> row_hash r = Some block_hash then (Ok (), ensure_schema db)
         else (Err (MovedInclusion t), ensure_schema db))"
proof (cases "find_stage db run t")
  case None
  then show ?thesis using ok hex args
    by (simp add: mark_denomination_stage_confirmed_at_def validate_txid_hex_def
        validate_hex_32_def hex32_def confirm_succeeds stage_count unchanged_update ok_or_def flip: t)
next
  case (Some r)
  note found = find_stage_Some [OF Some]
  have check: "stage_check r" and cols: "stage_columns_ok r" using found ok db_ok_check db_ok_columns by blast+
  from check_status [OF check] obtain a where a: "row_status r = status_as_str a" by blast
  show ?thesis
  proof (cases "row_status r = ''pending'' \<or> row_status r = ''broadcasted''")
    case True
    then show ?thesis using ok hex args Some
      by (simp add: mark_denomination_stage_confirmed_at_def validate_txid_hex_def
          validate_hex_32_def hex32_def confirm_succeeds stage_count update_with_stage flip: t)
  next
    case False
    show ?thesis using False ok hex args Some a check cols
      by (cases a; cases "row_mined r"; cases "row_hash r")
        (simp_all add: mark_denomination_stage_confirmed_at_def validate_txid_hex_def validate_hex_32_def
          hex32_def confirm_succeeds stage_count unchanged_update ok_or_def parse_status_def
          stage_check_def stage_columns_ok_def u32_columns_def ensure_def optional_column_def flip: t)
  qed
qed

end
