(* ===== verification/StageReads.thy ===== *)
theory StageReads
  imports StageProps
begin

text \<open>
  The readers of the stage store on databases that satisfy its invariant: totality, the order
  of their results, and what the locked outpoints and the counts say.
\<close>

section \<open>Counts\<close>

lemma check_status_iff:
  "stage_check r \<Longrightarrow> row_status r \<noteq> ''awaiting_inputs'' \<Longrightarrow> row_status r \<noteq> ''pending'' \<Longrightarrow>
     row_status r \<noteq> ''broadcasted'' \<Longrightarrow> row_status r = ''confirmed''"
  by (auto simp: stage_check_def)

lemma length_filter_partition:
  assumes "\<forall>x \<in> set xs. P x \<longrightarrow> g x \<in> {a, b, c, d}" and "distinct [a, b, c, d]"
  shows "length (filter (\<lambda>x. P x \<and> g x = a) xs) + length (filter (\<lambda>x. P x \<and> g x = b) xs)
    + length (filter (\<lambda>x. P x \<and> g x = c) xs) + length (filter (\<lambda>x. P x \<and> g x = d) xs)
    = length (filter P xs)"
  using assms by (induction xs) auto

lemma counts_sum:
  assumes "db_ok db"
  shows "status_total db run ''awaiting_inputs'' + status_total db run ''pending''
    + status_total db run ''broadcasted'' + status_total db run ''confirmed''
    = length (filter (\<lambda>r. row_run_id r = run) (stage_rows db))"
  unfolding status_total_def
  by (rule length_filter_partition)
    (use db_ok_check [OF assms] in \<open>auto simp: stage_check_def\<close>)

section \<open>Chain records\<close>

lemma read_output_total:
  "output_check r \<Longrightarrow> output_columns_ok r \<Longrightarrow> \<exists>out. read_output r = Ok out"
  by (auto simp: read_output_def output_check_def output_columns_ok_def parse_role_def split: option.splits)

lemma stage_outputs_total: "db_ok db \<Longrightarrow> \<exists>outs. stage_outputs_of db run k = Ok outs"
  unfolding stage_outputs_of_def
  by (rule mapM_total) (auto simp: db_ok_def output_table_ok_def intro!: read_output_total)

lemma read_chain_record_total:
  assumes ok: "db_ok db" and r: "r \<in> set (stage_rows db)"
  shows "\<exists>rec. read_chain_record db run r = Ok rec \<and> chain_stage_index rec = row_stage_index r
    \<and> chain_expected_txid_hex rec = row_txid r \<and> status_as_str (chain_status rec) = row_status r
    \<and> (chain_status rec = Confirmed \<longleftrightarrow> chain_mined_height rec \<noteq> None)
    \<and> chain_mined_height rec = row_mined r \<and> chain_block_hash rec = row_hash r"
proof -
  have check: "stage_check r" and cols: "stage_columns_ok r" using ok r db_ok_check db_ok_columns by blast+
  obtain a where a: "row_status r = status_as_str a" using check_status [OF check] by blast
  obtain outs where outs: "stage_outputs_of db run (row_stage_index r) = Ok outs"
    using stage_outputs_total [OF ok] by blast
  have columns: "u32_columns l (row_stage_index r # optional_column (row_mined r)) = Ok ()" for l
    using cols by (simp add: u32_columns_def ensure_def stage_columns_ok_def)
  have inclusion: "(a = Confirmed \<longleftrightarrow> row_mined r \<noteq> None) \<and> (row_mined r = None \<longleftrightarrow> row_hash r = None)
      \<and> (\<forall>h. row_hash r = Some h \<longrightarrow> length h = 32)"
    using check a by (cases a) (auto simp: stage_check_def split: option.splits)
  then have "(case (row_mined r, row_hash r) of
              (None, None) \<Rightarrow> Ok ()
            | (Some height, Some hash) \<Rightarrow>
                if length hash = 32 then Ok () else Err (MalformedInclusion (row_txid r))
            | other \<Rightarrow> Err (MalformedInclusion (row_txid r))) = Ok ()"
    by (cases "row_mined r"; cases "row_hash r") simp_all
  then show ?thesis using inclusion
    by (simp add: read_chain_record_def columns a parse_status_as_str outs)
qed

lemma chain_records_total:
  assumes ok: "db_ok db"
  shows "\<exists>recs. denomination_stage_chain_records db run = Ok recs
    \<and> map chain_expected_txid_hex recs = denomination_stage_expected_txids db run
    \<and> (\<forall>rec \<in> set recs. (chain_status rec = Confirmed) = (chain_mined_height rec \<noteq> None)
         \<and> (chain_status rec = Confirmed) = (chain_block_hash rec \<noteq> None))"
proof -
  have rows: "set (rows_of_run run db) \<subseteq> set (stage_rows db)" by (auto simp: rows_of_run_def)
  then have "\<exists>recs. mapM (read_chain_record db run) (rows_of_run run db) = Ok recs"
    by (intro mapM_total) (use read_chain_record_total [OF ok] in blast)
  then obtain recs where recs: "mapM (read_chain_record db run) (rows_of_run run db) = Ok recs" by blast
  have txids: "map chain_expected_txid_hex recs = map row_txid (rows_of_run run db)"
    by (rule mapM_Ok_map_eq [OF recs])
      (use rows read_chain_record_total [OF ok, of _ run] in \<open>fastforce\<close>)
  have "(chain_status rec = Confirmed) = (chain_mined_height rec \<noteq> None)
         \<and> (chain_status rec = Confirmed) = (chain_block_hash rec \<noteq> None)" if mem: "rec \<in> set recs" for rec
  proof -
    obtain r where r: "r \<in> set (rows_of_run run db)" "read_chain_record db run r = Ok rec"
      using mapM_Ok_member [OF recs mem] by blast
    with rows have in_db: "r \<in> set (stage_rows db)" by blast
    from read_chain_record_total [OF ok in_db, of run] r(2) db_ok_check [OF ok in_db] show ?thesis
      by (auto simp: stage_check_def split: option.splits)
  qed
  with recs txids show ?thesis
    by (auto simp: denomination_stage_chain_records_def denomination_stage_expected_txids_def)
qed

section \<open>Locked outpoints\<close>

lemma locked_result:
  assumes ok: "db_ok db"
  shows "locked_denomination_stage_input_outpoints db run =
    Ok {(irow_txid i, irow_output_index i) | i. i \<in> set (input_rows db) \<and> irow_run_id i = run
        \<and> (\<exists>s \<in> set (stage_rows db). stage_key s = input_stage i \<and> row_status s \<noteq> ''confirmed'')}"
proof (cases "tables_exist db")
  case False
  then have "stage_rows db = []" "input_rows db = []"
    using ok by (auto simp: db_ok_def links_ok_def)
  then show ?thesis using False by (simp add: locked_denomination_stage_input_outpoints_def)
next
  case True
  have "irow_output_index i \<le> u32_max \<and> to_ascii_lowercase (irow_txid i) = irow_txid i"
    if "i \<in> set (input_rows db)" for i
    using ok that by (auto simp: db_ok_def input_table_ok_def input_columns_ok_def stored_txid_def)
  then show ?thesis using True
    by (auto simp: locked_denomination_stage_input_outpoints_def Let_def u32_columns_def ensure_def
        input_is_locked_def list_ex_iff stage_key_def input_stage_def)
qed

definition stage_outpoints :: "stage_db \<Rightarrow> string \<Rightarrow> nat \<Rightarrow> (string \<times> u32) set" where
  "stage_outpoints db run k =
     {(irow_txid i, irow_output_index i) | i. i \<in> set (input_rows db) \<and> input_stage i = (run, k)}"

lemma locked_after_confirm:
  assumes ok: "db_ok db" and s: "find_stage db run t = Some s"
    and args: "length block_hash = 32" "height \<le> u32_max"
    and before: "locked_denomination_stage_input_outpoints db run = Ok L"
  shows "locked_denomination_stage_input_outpoints (with_stage run t (confirm_row height block_hash) db) run
    = Ok (L - stage_outpoints db run (row_stage_index s))"
proof -
  let ?db = "with_stage run t (confirm_row height block_hash) db"
  have s_in: "s \<in> set (stage_rows db)" "row_run_id s = run" "row_txid s = t"
    using find_stage_Some [OF s] by (auto simp: is_stage_txid_def)
  have "db_ok ?db"
    using confirm_evolves [OF args ok, of "is_stage_txid run t"] by (simp add: with_stage_def evolves_def)
  note after = locked_result [OF this, of run]
  have L: "L = {(irow_txid i, irow_output_index i) | i. i \<in> set (input_rows db) \<and> irow_run_id i = run
        \<and> (\<exists>s \<in> set (stage_rows db). stage_key s = input_stage i \<and> row_status s \<noteq> ''confirmed'')}"
    using before locked_result [OF ok, of run] by simp
  have keep: "(\<exists>r \<in> set (stage_rows ?db). stage_key r = input_stage i \<and> row_status r \<noteq> ''confirmed'') =
      ((\<exists>r \<in> set (stage_rows db). stage_key r = input_stage i \<and> row_status r \<noteq> ''confirmed'')
        \<and> input_stage i \<noteq> (run, row_stage_index s))" for i
  proof -
    have "is_stage_txid run t r \<longleftrightarrow> stage_key r = (run, row_stage_index s)" if "r \<in> set (stage_rows db)" for r
      using that db_ok_stage_eq [OF ok that s_in(1)] s_in by (auto simp: is_stage_txid_def stage_key_def)
    moreover have "stage_key (confirm_row height block_hash r) = stage_key r"
      "row_status (confirm_row height block_hash r) = ''confirmed''" for r
      by (simp_all add: confirm_row_def stage_key_def)
    ultimately show ?thesis by (auto simp: with_stage_def)
  qed
  let ?f = "\<lambda>i. (irow_txid i, irow_output_index i)"
  let ?rows = "{i \<in> set (input_rows db). irow_run_id i = run}"
  let ?open = "{i \<in> ?rows. \<exists>r \<in> set (stage_rows db). stage_key r = input_stage i \<and> row_status r \<noteq> ''confirmed''}"
  let ?own = "{i \<in> ?rows. input_stage i = (run, row_stage_index s)}"
  have "inj_on outpoint_key (set (input_rows db))"
    using ok by (simp add: db_ok_def input_table_ok_def distinct_map)
  then have "inj_on ?f ?rows" by (simp add: inj_on_def outpoint_key_def)
  then have "?f ` (?open - ?own) = ?f ` ?open - ?f ` ?own"
    by (rule inj_on_image_set_diff) auto
  moreover have "L = ?f ` ?open" unfolding L by auto
  moreover have "stage_outpoints db run (row_stage_index s) = ?f ` ?own"
    by (auto simp: stage_outpoints_def input_stage_def)
  moreover have "{?f i | i. i \<in> set (input_rows db) \<and> irow_run_id i = run
        \<and> ((\<exists>r \<in> set (stage_rows db). stage_key r = input_stage i \<and> row_status r \<noteq> ''confirmed'')
          \<and> input_stage i \<noteq> (run, row_stage_index s))} = ?f ` (?open - ?own)"
    by auto
  moreover have rows: "input_rows ?db = input_rows db" by (simp add: with_stage_def)
  ultimately show ?thesis unfolding after rows keep by simp
qed

end
