(* ===== verification/StageStorage.thy ===== *)
theory StageStorage
  imports StageReads
begin

text \<open>
  What the store keeps of a batch: reading a fresh run back, and the completeness of the batch
  validation (an accepted batch never trips a constraint of the schema).
\<close>

section \<open>Sorting keyed lists\<close>

lemma list_all2_insort:
  "list_all2 R xs ys \<Longrightarrow> R x y \<Longrightarrow> (\<And>a b. R a b \<Longrightarrow> f a = g b) \<Longrightarrow>
     list_all2 R (insort_key f x xs) (insort_key g y ys)"
  by (induction rule: list_all2_induct) auto

lemma list_all2_sort_key:
  "list_all2 R xs ys \<Longrightarrow> (\<And>a b. R a b \<Longrightarrow> f a = g b) \<Longrightarrow> list_all2 R (sort_key f xs) (sort_key g ys)"
  by (induction rule: list_all2_induct) (auto simp: list_all2_insort)

lemma sort_key_sorted: "sorted (map f xs) \<Longrightarrow> sort_key f xs = xs"
  by (induction xs) (auto simp: insort_is_Cons)

lemma filter_concat_key:
  "distinct (map key xs) \<Longrightarrow> x \<in> set xs \<Longrightarrow> (\<And>y r. y \<in> set xs \<Longrightarrow> r \<in> set (g y) \<Longrightarrow> h r = key y) \<Longrightarrow>
     filter (\<lambda>r. h r = key x) (concat (map g xs)) = g x"
proof (induction xs)
  case (Cons y ys)
  have own: "filter (\<lambda>r. h r = key z) (g z') = (if key z = key z' then g z' else [])" if "z' \<in> set (y # ys)" for z z'
    using Cons.prems(3) [OF that] by (auto simp: filter_empty_conv)
  show ?case
  proof (cases "x = y")
    case True
    have "h r \<noteq> key x" if "z \<in> set ys" "r \<in> set (g z)" for z r
      using Cons.prems(1) Cons.prems(3) [of z r] that True by auto (metis imageI)
    then have "filter (\<lambda>r. h r = key x) (concat (map g ys)) = []"
      by (auto simp: filter_empty_conv)
    with True show ?thesis by (simp add: own)
  next
    case False
    with Cons.prems(2) have "x \<in> set ys" by simp
    moreover from this have "key x \<noteq> key y" using Cons.prems(1) by (metis distinct.simps(2) image_eqI list.simps(9) list.set_map)
    ultimately have "x \<in> set ys" "key x \<noteq> key y" by simp_all
    with Cons show ?thesis by (simp add: own)
  qed
qed simp

section \<open>Reading a batch back\<close>

definition stored_input :: "stage_input_ref \<Rightarrow> stage_input_ref" where
  "stored_input i = i\<lparr>in_txid_hex := to_ascii_lowercase (in_txid_hex i),
     in_nullifier_hex := map_option to_ascii_lowercase (in_nullifier_hex i)\<rparr>"

definition stored_stage :: "stage_insert \<Rightarrow> stage" where
  "stored_stage s =
     \<lparr>stg_stage_index = ins_stage_index s, stg_base_pczt = ins_base_pczt s, stg_sigs = ins_sigs s,
      stg_raw_tx = ins_raw_tx s, stg_expected_txid_hex = stored_id s,
      stg_target_height = ins_target_height s, stg_scheduled_height = ins_scheduled_height s,
      stg_broadcast_not_before_height = None, stg_expiry_height = ins_expiry_height s,
      stg_fee_zatoshi = ins_fee_zatoshi s, stg_status = ins_status s,
      stg_confirmed_mined_height = None, stg_confirmed_block_hash = None,
      stg_inputs = map stored_input (ins_inputs s), stg_outputs = ins_outputs s\<rparr>"

definition fresh_run :: "stage_db \<Rightarrow> string \<Rightarrow> bool" where
  "fresh_run db run \<longleftrightarrow> (\<forall>r \<in> set (stage_rows db). row_run_id r \<noteq> run)"

lemma fresh_run_rows:
  assumes "db_ok db" "fresh_run db run"
  shows "\<forall>i \<in> set (input_rows db). irow_run_id i \<noteq> run" "\<forall>i \<in> set (output_rows db). orow_run_id i \<noteq> run"
proof -
  have "input_stage ` set (input_rows db) = stage_key ` set (stage_rows db)"
    "output_stage ` set (output_rows db) = stage_key ` set (stage_rows db)"
    using assms(1) by (auto simp: db_ok_def links_ok_def)
  moreover have "(run, k) \<notin> stage_key ` set (stage_rows db)" for k
    using assms(2) by (auto simp: fresh_run_def stage_key_def)
  ultimately have "(run, k) \<notin> input_stage ` set (input_rows db)" "(run, k) \<notin> output_stage ` set (output_rows db)" for k
    by simp_all
  then show "\<forall>i \<in> set (input_rows db). irow_run_id i \<noteq> run" "\<forall>i \<in> set (output_rows db). orow_run_id i \<noteq> run"
    by (auto simp: input_stage_def output_stage_def image_iff)
qed

lemma map_fst_enumerate_upt: "map fst (List.enumerate n xs) = [n..<n + length xs]"
  by (simp add: enumerate_eq_zip)

lemma orders_enumerate:
  "map irow_order (stage_inputs_rows run s) = [0..<length (ins_inputs s)]"
  "map orow_order (stage_outputs_rows run s) = [0..<length (ins_outputs s)]"
  by (simp_all add: stage_inputs_rows_def stage_outputs_rows_def input_row_of_def output_row_of_def
      case_prod_beta comp_def map_fst_enumerate_upt)

lemma rows_belong:
  "r \<in> set (stage_inputs_rows run s) \<Longrightarrow> irow_run_id r = run \<and> irow_stage_index r = ins_stage_index s"
  "q \<in> set (stage_outputs_rows run s) \<Longrightarrow> orow_run_id q = run \<and> orow_stage_index q = ins_stage_index s"
  by (auto simp: stage_inputs_rows_def stage_outputs_rows_def input_row_of_def output_row_of_def)

lemma read_input_rows:
  assumes "typed_insert s"
  shows "mapM read_input (stage_inputs_rows run s) = Ok (map stored_input (ins_inputs s))"
proof -
  have "mapM read_input (map (input_row_of run k) ps) = Ok (map (stored_input \<circ> snd) ps)"
    if "\<forall>p \<in> set ps. in_output_index (snd p) \<le> u32_max \<and> in_note_version (snd p) \<le> 255" for k ps
    using that by (induction ps) (auto simp: read_input_def input_row_of_def stored_input_def)
  moreover have "\<forall>p \<in> set (List.enumerate 0 (ins_inputs s)).
      in_output_index (snd p) \<le> u32_max \<and> in_note_version (snd p) \<le> 255"
    using assms by (auto simp: typed_insert_def dest!: snd_enumerate)
  ultimately show ?thesis by (simp add: stage_inputs_rows_def flip: map_map)
qed

lemma read_output_rows:
  assumes "typed_insert s"
  shows "mapM read_output (stage_outputs_rows run s) = Ok (ins_outputs s)"
proof -
  have "mapM read_output (map (output_row_of run k) ps) = Ok (map snd ps)"
    if "\<forall>p \<in> set ps. out_output_index (snd p) \<le> u32_max \<and> out_note_version (snd p) \<le> 255
      \<and> (\<forall>q \<in> set_option (out_part_index (snd p)). q \<le> u32_max)" for k ps
    using that
    by (induction ps) (auto simp: read_output_def output_row_of_def parse_role_as_str split: option.splits)
  moreover have "\<forall>p \<in> set (List.enumerate 0 (ins_outputs s)).
      out_output_index (snd p) \<le> u32_max \<and> out_note_version (snd p) \<le> 255
      \<and> (\<forall>q \<in> set_option (out_part_index (snd p)). q \<le> u32_max)"
    using assms by (auto simp: typed_insert_def dest!: snd_enumerate)
  ultimately show ?thesis by (simp add: stage_outputs_rows_def)
qed

lemma read_sealed_row:
  assumes env: "crypto_ok env" and sealed: "sealed_row env run pw salt s r"
    and typed: "typed_insert s" and sigs: "\<forall>sig \<in> set (ins_sigs s). length (signature sig) = ZCASH_SIG_LEN"
    and inputs: "stage_inputs_of db run (ins_stage_index s) = Ok (map stored_input (ins_inputs s))"
    and outputs: "stage_outputs_of db run (ins_stage_index s) = Ok (ins_outputs s)"
  shows "read_stage env (payload_key_new env pw salt) db run r = Ok (stored_stage s)"
proof -
  from sealed obtain i j k base blob sg raw where r: "r = stage_row_of run s base sg raw" and
    enc: "encrypt_payload env i (ins_base_pczt s) pw salt = Ok base"
      "encode_compact_action_sigs (ins_sigs s) = Ok blob" "encrypt_payload env j blob pw salt = Ok sg" and
    raw: "case ins_raw_tx s of None \<Rightarrow> raw = None
          | Some tx \<Rightarrow> \<exists>c. raw = Some c \<and> encrypt_payload env k tx pw salt = Ok c"
    unfolding sealed_row_def by blast
  have dec: "payload_key_decrypt env (payload_key_new env pw salt) c = Ok m"
    if "encrypt_payload env d m pw salt = Ok c" for c d m
    using encrypt_payload_opens [OF env that] by (simp add: decrypt_payload_def)
  have "decrypt_raw env (payload_key_new env pw salt) raw = Ok (ins_raw_tx s)"
    using raw by (cases "ins_raw_tx s") (auto simp: decrypt_raw_def dec)
  moreover have "u32_columns l [ins_stage_index s, ins_target_height s, ins_scheduled_height s, ins_expiry_height s] = Ok ()" for l
    using typed by (simp add: u32_columns_def ensure_def typed_insert_def)
  ultimately show ?thesis
    using inputs outputs compact_sigs_decode [OF enc(2) sigs]
    by (simp add: read_stage_def r stage_row_of_def optional_column_def dec [OF enc(1)] dec [OF enc(3)]
        parse_status_as_str stored_stage_def stored_id_def)
qed

lemma read_batch_back:
  assumes env: "crypto_ok env" and ok: "db_ok db" and fresh: "fresh_run db run"
    and typed: "\<forall>s \<in> set stages. typed_insert s"
    and sigs: "\<forall>s \<in> set stages. \<forall>sig \<in> set (ins_sigs s). length (signature sig) = ZCASH_SIG_LEN"
    and run: "insert_denomination_stages_with_tx env draw run stages pw salt64 db = (Ok (), db')"
  shows "denomination_stages_for_run env db' run pw salt64
    = Ok (map stored_stage (sort_key ins_stage_index stages))"
proof -
  from insert_batch_Ok [OF run] obtain salt draw' where
    batch: "batch_valid run stages" and salt: "b64_decode env salt64 = Some salt" and
    fold: "foldM (insert_stage env run pw salt) (draw, db) stages = Ok (draw', db')" by auto
  have valid: "\<forall>s \<in> set stages. stage_valid s \<and> typed_insert s"
    using batch typed by (auto simp: batch_valid_def)
  from insert_stages_Ok [OF fold valid ok] obtain rs where
    rs: "list_all2 (sealed_row env run pw salt) stages rs" and
    db': "db' = db\<lparr>stage_rows := stage_rows db @ rs,
             input_rows := input_rows db @ concat (map (stage_inputs_rows run) stages),
             output_rows := output_rows db @ concat (map (stage_outputs_rows run) stages)\<rparr>" by auto
  have keys: "row_run_id r = run \<and> row_stage_index r = ins_stage_index s" if "sealed_row env run pw salt s r" for s r
    using that by (auto simp: sealed_row_def stage_row_of_def)
  then have "\<forall>r \<in> set rs. row_run_id r = run"
    using rs by (metis in_set_conv_nth list_all2_conv_all_nth)
  then have rows: "rows_of_run run db' = sort_key row_stage_index rs"
    using fresh by (simp add: rows_of_run_def db' fresh_run_def)
  have sorted_rs: "list_all2 (sealed_row env run pw salt) (sort_key ins_stage_index stages) (sort_key row_stage_index rs)"
    using rs by (rule list_all2_sort_key) (simp add: keys)
  have distinct: "distinct (map ins_stage_index stages)" using batch by (simp add: batch_valid_def)
  have inputs: "stage_inputs_of db' run (ins_stage_index s) = Ok (map stored_input (ins_inputs s))"
    if "s \<in> set stages" for s
  proof -
    have "filter (\<lambda>r. irow_run_id r = run \<and> irow_stage_index r = ins_stage_index s) (input_rows db') =
        filter (\<lambda>r. irow_stage_index r = ins_stage_index s) (concat (map (stage_inputs_rows run) stages))"
      using fresh_run_rows(1) [OF ok fresh] rows_belong(1) by (auto simp: db' intro!: filter_cong)
    also have "\<dots> = stage_inputs_rows run s"
      by (rule filter_concat_key [OF distinct that]) (use rows_belong(1) in blast)
    finally show ?thesis using typed that
      by (simp add: stage_inputs_of_def sort_key_sorted orders_enumerate read_input_rows)
  qed
  have outputs: "stage_outputs_of db' run (ins_stage_index s) = Ok (ins_outputs s)" if "s \<in> set stages" for s
  proof -
    have "filter (\<lambda>r. orow_run_id r = run \<and> orow_stage_index r = ins_stage_index s) (output_rows db') =
        filter (\<lambda>r. orow_stage_index r = ins_stage_index s) (concat (map (stage_outputs_rows run) stages))"
      using fresh_run_rows(2) [OF ok fresh] rows_belong(2) by (auto simp: db' intro!: filter_cong)
    also have "\<dots> = stage_outputs_rows run s"
      by (rule filter_concat_key [OF distinct that]) (use rows_belong(2) in blast)
    finally show ?thesis using typed that
      by (simp add: stage_outputs_of_def sort_key_sorted orders_enumerate read_output_rows)
  qed
  have "list_all2 (\<lambda>r st. read_stage env (payload_key_new env pw salt) db' run r = Ok st)
      (sort_key row_stage_index rs) (map stored_stage (sort_key ins_stage_index stages))"
    unfolding list_all2_map2
  proof (rule list_all2_all_nthI)
    show len: "length (sort_key row_stage_index rs) = length (sort_key ins_stage_index stages)"
      using rs by (simp add: list_all2_lengthD)
    fix i assume i: "i < length (sort_key row_stage_index rs)"
    let ?s = "sort_key ins_stage_index stages ! i"
    have "?s \<in> set stages" using i len by (metis nth_mem set_sort)
    moreover have "sealed_row env run pw salt ?s (sort_key row_stage_index rs ! i)"
      using sorted_rs i len by (simp add: list_all2_conv_all_nth)
    ultimately show "read_stage env (payload_key_new env pw salt) db' run (sort_key row_stage_index rs ! i)
        = Ok (stored_stage ?s)"
      using read_sealed_row [OF env] typed sigs inputs outputs by blast
  qed
  then show ?thesis
    by (simp add: denomination_stages_for_run_def decode_base64_def ok_or_def salt Let_def rows mapM_eq_Ok)
qed

end
