(* ===== verification/StageAccept.thy ===== *)
theory StageAccept
  imports StageStorage
begin

text \<open>
  The batch validation is complete: on a fresh run, a batch it accepts is stored without a
  violated constraint.
\<close>

section \<open>Room for the rows\<close>

lemma insert_inputs_succeed:
  assumes "tables_exist db" and "\<forall>p \<in> set ps. fst p \<le> u32_max \<and> in_value_zatoshi (snd p) \<le> i64_max"
    and "distinct (map fst ps)" and "distinct (map (outpoint_of \<circ> snd) ps)"
    and "\<forall>r \<in> set (input_rows db). irow_run_id r = run \<and> irow_stage_index r = k \<longrightarrow> irow_order r \<notin> fst ` set ps"
    and "\<forall>r \<in> set (input_rows db). irow_run_id r = run \<longrightarrow>
           (irow_txid r, irow_output_index r) \<notin> (outpoint_of \<circ> snd) ` set ps"
  shows "\<exists>db'. foldM (insert_stage_input run k) db ps = Ok db'"
  using assms
proof (induction ps arbitrary: db)
  case (Cons p ps)
  let ?r = "input_row_of run k p" and ?db = "db\<lparr>input_rows := input_rows db @ [input_row_of run k p]\<rparr>"
  have row: "input_key ?r = (run, k, fst p)" "outpoint_key ?r = (run, outpoint_of (snd p))"
    "irow_value ?r = in_value_zatoshi (snd p)" "irow_run_id ?r = run" "irow_order ?r = fst p" "irow_stage_index ?r = k"
    "(irow_txid ?r, irow_output_index ?r) = outpoint_of (snd p)"
    by (cases p; simp add: input_row_of_def input_key_def outpoint_key_def outpoint_of_def)+
  have "input_key ?r \<notin> input_key ` set (input_rows db)"
    using Cons.prems(5) by (auto simp: row input_key_def)
  moreover have "outpoint_key ?r \<notin> outpoint_key ` set (input_rows db)"
    using Cons.prems(6) by (auto simp: row outpoint_key_def)
  ultimately have "insert_stage_input run k db p = Ok ?db"
    using Cons.prems(1,2) by (simp add: insert_stage_input_Ok insert_input_row_def row)
  moreover have "\<exists>db'. foldM (insert_stage_input run k) ?db ps = Ok db'"
    by (rule Cons.IH) (use Cons.prems row in auto)
  ultimately show ?case by simp
qed simp

lemma insert_outputs_succeed:
  assumes "tables_exist db" and "\<forall>p \<in> set ps. fst p \<le> u32_max \<and> out_value_zatoshi (snd p) \<le> i64_max"
    and "distinct (map fst ps)" and "distinct (map (out_output_index \<circ> snd) ps)"
    and "\<forall>r \<in> set (output_rows db). orow_run_id r = run \<longrightarrow> orow_stage_index r = k \<longrightarrow>
           orow_order r \<notin> fst ` set ps \<and> orow_output_index r \<notin> (out_output_index \<circ> snd) ` set ps"
  shows "\<exists>db'. foldM (insert_stage_output run k) db ps = Ok db'"
  using assms
proof (induction ps arbitrary: db)
  case (Cons p ps)
  let ?r = "output_row_of run k p" and ?db = "db\<lparr>output_rows := output_rows db @ [output_row_of run k p]\<rparr>"
  have row: "output_key ?r = (run, k, fst p)" "output_index_key ?r = (run, k, out_output_index (snd p))"
    "orow_value ?r = out_value_zatoshi (snd p)" "orow_run_id ?r = run" "orow_order ?r = fst p"
    "orow_output_index ?r = out_output_index (snd p)" "orow_stage_index ?r = k"
    by (cases p; simp add: output_row_of_def output_key_def output_index_key_def)+
  have check: "output_check ?r"
    by (cases p; cases "out_kind (snd p)") (simp_all add: output_row_of_def output_check_def)
  have "output_key ?r \<notin> output_key ` set (output_rows db)" "output_index_key ?r \<notin> output_index_key ` set (output_rows db)"
    using Cons.prems(5) by (auto simp: row output_key_def output_index_key_def)
  then have "insert_stage_output run k db p = Ok ?db"
    using Cons.prems(1,2) check by (simp add: insert_stage_output_Ok insert_output_row_def row)
  moreover have "\<exists>db'. foldM (insert_stage_output run k) ?db ps = Ok db'"
    by (rule Cons.IH) (use Cons.prems row in auto)
  ultimately show ?case by simp
qed simp

text \<open>What a caller supplies beside a valid batch: sizes within SQLite's and \<open>u32\<close>'s ranges.\<close>

definition storable :: "stage_insert \<Rightarrow> bool" where
  "storable s \<longleftrightarrow> ins_fee_zatoshi s \<le> i64_max \<and> length (ins_inputs s) \<le> u32_max \<and> length (ins_outputs s) \<le> u32_max
     \<and> (\<forall>i \<in> set (ins_inputs s). in_value_zatoshi i \<le> i64_max)
     \<and> (\<forall>out \<in> set (ins_outputs s). out_value_zatoshi out \<le> i64_max)
     \<and> is_ok (encode_compact_action_sigs (ins_sigs s))"

definition seals :: "crypto_env \<Rightarrow> bytes \<Rightarrow> bytes \<Rightarrow> bool" where
  "seals env pw salt \<longleftrightarrow> (\<forall>draw clear. is_ok (encrypt_payload env draw clear pw salt))"

lemma is_ok_iff: "is_ok m = (\<exists>x. m = Ok x)"
  by (cases m) auto

definition room :: "stage_db \<Rightarrow> string \<Rightarrow> stage_insert list \<Rightarrow> bool" where
  "room db run stages \<longleftrightarrow> tables_exist db
     \<and> (\<forall>s \<in> set stages. (run, ins_stage_index s) \<notin> stage_key ` set (stage_rows db)
          \<and> (run, stored_id s) \<notin> stage_txid_key ` set (stage_rows db))
     \<and> (\<forall>r \<in> set (input_rows db). irow_run_id r = run \<longrightarrow>
          (irow_txid r, irow_output_index r) \<notin> set (batch_outpoints stages))"

lemma enumerate_members:
  "p \<in> set (List.enumerate 0 xs) \<Longrightarrow> fst p < length xs \<and> snd p \<in> set xs"
  using snd_enumerate [of p 0 xs] by (cases p) (simp add: in_set_enumerate_eq)

lemma foldM_inputs_frame:
  "foldM (insert_stage_input run k) db ps = Ok db' \<Longrightarrow>
     tables_exist db' = tables_exist db \<and> output_rows db' = output_rows db"
proof (induction ps arbitrary: db)
  case (Cons p ps)
  from Cons.prems obtain db1 where
    "insert_stage_input run k db p = Ok db1" "foldM (insert_stage_input run k) db1 ps = Ok db'"
    by (auto simp: outcome_simps)
  with Cons.IH [of db1] show ?case
    by (auto simp: insert_stage_input_Ok insert_input_row_def split: if_splits)
qed simp

lemma insert_stage_succeeds:
  assumes ok: "db_ok db" and valid: "stage_valid s" and store: "storable s" and env: "seals env pw salt"
    and room: "room db run (s # stages)" and outpoints: "distinct (batch_outpoints (s # stages))"
  shows "\<exists>res. insert_stage env run pw salt (draw, db) s = Ok res"
proof -
  obtain blob where blob: "encode_compact_action_sigs (ins_sigs s) = Ok blob"
    using store by (auto simp: storable_def is_ok_iff)
  have enc: "\<exists>c. encrypt_payload env d m pw salt = Ok c" for d m
    using env by (simp add: seals_def is_ok_iff)
  obtain base where base: "encrypt_payload env draw (ins_base_pczt s) pw salt = Ok base" using enc by blast
  obtain sigs where sigs: "encrypt_payload env (draw + 1) blob pw salt = Ok sigs" using enc by blast
  have "\<exists>res. encrypt_raw env (draw + 2) (ins_raw_tx s) pw salt = Ok res"
    using enc by (cases "ins_raw_tx s") (auto simp: encrypt_raw_def outcome_simps)
  then obtain draw' raw where raw: "encrypt_raw env (draw + 2) (ins_raw_tx s) pw salt = Ok (draw', raw)" by auto
  let ?r = "stage_row_of run s base sigs raw"
  let ?db1 = "db\<lparr>stage_rows := stage_rows db @ [?r]\<rparr>"
  have "raw = None \<longleftrightarrow> ins_raw_tx s = None"
    using raw by (cases "ins_raw_tx s") (auto simp: encrypt_raw_def outcome_simps)
  then have "stage_check ?r" using valid by (auto simp: stage_valid_def raw_valid_def stage_check_def stage_row_of_def)
  then have one: "insert_stage_row ?r db = Some ?db1"
    using room store
    by (simp add: insert_stage_row_def room_def storable_def stage_key_def stage_txid_key_def stage_row_of_def
        stored_id_def)
  have links: "input_stage ` set (input_rows db) = stage_key ` set (stage_rows db)"
    "output_stage ` set (output_rows db) = stage_key ` set (stage_rows db)"
    using ok by (simp_all add: db_ok_def links_ok_def)
  have new: "(run, ins_stage_index s) \<notin> stage_key ` set (stage_rows db)" using room by (simp add: room_def)
  have no_inputs: "\<not> (irow_run_id r = run \<and> irow_stage_index r = ins_stage_index s)" if "r \<in> set (input_rows db)" for r
    using new that imageI [OF that, of input_stage] unfolding links [symmetric] by (auto simp: input_stage_def)
  have no_outputs: "\<not> (orow_run_id r = run \<and> orow_stage_index r = ins_stage_index s)" if "r \<in> set (output_rows db)" for r
    using new that imageI [OF that, of output_stage] unfolding links(2) [symmetric] by (auto simp: output_stage_def)
  have "\<exists>db2. foldM (insert_stage_input run (ins_stage_index s)) ?db1 (List.enumerate 0 (ins_inputs s)) = Ok db2"
  proof (rule insert_inputs_succeed)
    show "distinct (map (outpoint_of \<circ> snd) (List.enumerate 0 (ins_inputs s)))"
      using outpoints by (simp flip: map_map)
    show "\<forall>r \<in> set (input_rows ?db1). irow_run_id r = run \<longrightarrow>
        (irow_txid r, irow_output_index r) \<notin> (outpoint_of \<circ> snd) ` set (List.enumerate 0 (ins_inputs s))"
      using room by (auto simp: room_def dest!: enumerate_members)
  qed (use room store no_inputs in \<open>auto simp: room_def storable_def map_fst_enumerate_upt dest!: enumerate_members\<close>)
  then obtain db2 where ins: "foldM (insert_stage_input run (ins_stage_index s)) ?db1 (List.enumerate 0 (ins_inputs s)) = Ok db2"
    by blast
  have db2: "tables_exist db2 \<and> output_rows db2 = output_rows db"
    using foldM_inputs_frame [OF ins] room by (simp add: room_def)
  have "\<exists>db3. foldM (insert_stage_output run (ins_stage_index s)) db2 (List.enumerate 0 (ins_outputs s)) = Ok db3"
  proof (rule insert_outputs_succeed)
    show "distinct (map (out_output_index \<circ> snd) (List.enumerate 0 (ins_outputs s)))"
      using valid by (simp add: stage_valid_def flip: map_map)
  qed (use db2 store no_outputs in \<open>auto simp: storable_def map_fst_enumerate_upt dest!: enumerate_members\<close>)
  then show ?thesis
    using one ins by (auto simp: insert_stage_def base blob sigs [simplified] raw [simplified] ok_or_def)
qed

lemma insert_stages_succeed:
  assumes "db_ok db" and "\<forall>s \<in> set stages. stage_valid s \<and> typed_insert s \<and> storable s" and "seals env pw salt"
    and "room db run stages" and "distinct (map ins_stage_index stages)" and "distinct (map stored_id stages)"
    and "distinct (batch_outpoints stages)"
  shows "\<exists>res. foldM (insert_stage env run pw salt) (draw, db) stages = Ok res"
  using assms
proof (induction stages arbitrary: draw db)
  case (Cons s stages)
  have "\<exists>res. insert_stage env run pw salt (draw, db) s = Ok res"
    by (rule insert_stage_succeeds [where stages = stages]) (use Cons.prems in auto)
  then obtain d1 db1 where one: "insert_stage env run pw salt (draw, db) s = Ok (d1, db1)" by auto
  from insert_stage_Ok [OF one] Cons.prems(1,2) obtain r where
    r: "sealed_row env run pw salt s r" and
    db1: "db1 = db\<lparr>stage_rows := stage_rows db @ [r], input_rows := input_rows db @ stage_inputs_rows run s,
             output_rows := output_rows db @ stage_outputs_rows run s\<rparr>" and ok1: "db_ok db1"
    by auto
  have keys: "stage_key r = (run, ins_stage_index s)" "stage_txid_key r = (run, stored_id s)"
    using r by (auto simp: sealed_row_def stage_row_of_def stage_key_def stage_txid_key_def stored_id_def)
  have points: "(irow_txid q, irow_output_index q) \<in> outpoint_of ` set (ins_inputs s)"
    if "q \<in> set (stage_inputs_rows run s)" for q
    using that by (auto simp: stage_inputs_rows_def input_row_of_def outpoint_of_def dest!: snd_enumerate)
  have "room db1 run stages"
    unfolding room_def
  proof (intro conjI ballI impI)
    show "tables_exist db1" using Cons.prems(4) by (simp add: room_def db1)
  next
    fix s' assume s': "s' \<in> set stages"
    with Cons.prems(5,6) have "ins_stage_index s' \<noteq> ins_stage_index s" "stored_id s' \<noteq> stored_id s"
      by (auto) (metis imageI)+
    with Cons.prems(4) s' show "(run, ins_stage_index s') \<notin> stage_key ` set (stage_rows db1)"
      "(run, stored_id s') \<notin> stage_txid_key ` set (stage_rows db1)"
      by (simp_all add: room_def db1 keys)
  next
    fix q assume q: "q \<in> set (input_rows db1)" "irow_run_id q = run"
    show "(irow_txid q, irow_output_index q) \<notin> set (batch_outpoints stages)"
    proof (cases "q \<in> set (input_rows db)")
      case True
      then show ?thesis using Cons.prems(4) q(2) by (auto simp: room_def)
    next
      case False
      with q(1) have "q \<in> set (stage_inputs_rows run s)" by (auto simp: db1)
      from points [OF this] Cons.prems(7) show ?thesis by auto
    qed
  qed
  from Cons.IH [OF ok1 _ Cons.prems(3) this, of d1] Cons.prems(2,5-7) one show ?case by auto
qed simp

lemma insert_accepts:
  assumes ok: "db_ok db" and exist: "tables_exist db" and fresh: "fresh_run db run"
    and stages: "\<forall>s \<in> set stages. typed_insert s \<and> storable s"
    and salt: "b64_decode env salt64 = Some salt" and env: "seals env pw salt"
  shows "(fst (insert_denomination_stages_with_tx env draw run stages pw salt64 db) = Ok ()) = batch_valid run stages"
proof
  assume "fst (insert_denomination_stages_with_tx env draw run stages pw salt64 db) = Ok ()"
  then show "batch_valid run stages" using insert_batch_Ok by (metis prod.collapse)
next
  assume batch: "batch_valid run stages"
  have "room db run stages"
    using exist fresh fresh_run_rows(1) [OF ok fresh]
    by (auto simp: room_def fresh_run_def stage_key_def stage_txid_key_def)
  then have "\<exists>res. foldM (insert_stage env run pw salt) (draw, db) stages = Ok res"
    using batch stages by (intro insert_stages_succeed [OF ok]) (auto simp: batch_valid_def env)
  then show "fst (insert_denomination_stages_with_tx env draw run stages pw salt64 db) = Ok ()"
    using batch salt
    by (auto simp: insert_denomination_stages_with_tx_def decode_base64_def ok_or_def validate_stage_batch_Ok
        simp flip: validate_stage_batch_Ok)
qed

end
