(* ===== verification/StageHeights.thy ===== *)
theory StageHeights
  imports StageReads
begin

text \<open>
  Broadcast heights of the stages: the order in which the pending stages are handed to the
  broadcaster, and what drawing the remaining heights again does to them.
\<close>

section \<open>The pending stages\<close>

lemma read_pending_fields:
  "read_pending env key r = Ok p \<Longrightarrow> raw_expected_txid_hex p = row_txid r
     \<and> effective_broadcast_height p = effective_height r"
  by (auto simp: read_pending_def outcome_simps effective_broadcast_height_def effective_height_def max.commute)

lemma pending_sorted:
  assumes ok: "db_ok db" and read: "pending_raw_denomination_stages env db run pw salt64 = Ok ps"
  shows "sorted (map effective_broadcast_height ps)
    \<and> mset (map raw_expected_txid_hex ps) =
        mset (map row_txid (filter (\<lambda>r. row_run_id r = run \<and> row_status r = ''pending'') (stage_rows db)))"
proof -
  let ?due = "filter (\<lambda>r. row_run_id r = run \<and> row_status r = ''pending'' \<and> row_raw r \<noteq> None) (stage_rows db)"
  let ?sorted = "sort_key effective_height (sort_key row_stage_index ?due)"
  have "row_raw r \<noteq> None" if "r \<in> set (stage_rows db)" "row_status r = ''pending''" for r
    using db_ok_check [OF ok that(1)] that(2) by (auto simp: stage_check_def)
  then have due: "?due = filter (\<lambda>r. row_run_id r = run \<and> row_status r = ''pending'') (stage_rows db)"
    by (auto intro!: filter_cong)
  from read obtain key where "mapM (read_pending env key) ?sorted = Ok ps"
    by (auto simp: pending_raw_denomination_stages_def obind_eq_Ok Let_def)
  then have "map effective_broadcast_height ps = map effective_height ?sorted"
    "map raw_expected_txid_hex ps = map row_txid ?sorted"
    by (rule mapM_Ok_map_eq, use read_pending_fields in blast)+
  moreover have "mset (map row_txid ?sorted) = mset (map row_txid ?due)"
    by simp
  ultimately show ?thesis unfolding due [symmetric] by (simp only: sorted_sort_key)
qed

section \<open>Drawing the heights again\<close>

definition moved_to :: "string \<Rightarrow> (nat \<times> u32) list \<Rightarrow> stage_row \<Rightarrow> stage_row" where
  "moved_to run heights s =
     (case map_of heights (row_stage_index s) of
        Some h \<Rightarrow> if unsubmitted run s then not_before_row h s else s
      | None \<Rightarrow> s)"

lemma unsubmitted_not_before [simp]:
  "unsubmitted run (not_before_row h s) = unsubmitted run s"
  "row_stage_index (not_before_row h s) = row_stage_index s"
  by (simp_all add: unsubmitted_def not_before_row_def)

lemma moved_to_step:
  assumes "map_of heights k = None"
  shows "moved_to run heights (if unsubmitted run s \<and> row_stage_index s = k then not_before_row h s else s)
    = moved_to run ((k, h) # heights) s"
  using assms by (auto simp: moved_to_def split: option.splits)

lemma rerandomize_loop_heights:
  "rerandomize_loop draw run h rng rs db = Some (Ok db') \<Longrightarrow> db_ok db \<Longrightarrow>
     \<forall>r \<in> set rs. stage_columns_ok r \<Longrightarrow> distinct (map row_stage_index rs) \<Longrightarrow>
     \<exists>es. length es = length rs \<and> sorted (h # es) \<and> list_all2 (\<lambda>r e. effective_height r \<le> e) rs es
       \<and> stage_rows db' = map (moved_to run (zip (map row_stage_index rs) es)) (stage_rows db)"
proof (induction rs arbitrary: h rng db)
  case Nil
  have "map (moved_to run []) rows = rows" for rows
    by (simp add: moved_to_def cong: map_cong)
  with Nil show ?case by auto
next
  case (Cons r rs)
  let ?P = "\<lambda>s. row_run_id s = run \<and> row_stage_index s = row_stage_index r
    \<and> (row_status s = ''awaiting_inputs'' \<or> row_status s = ''pending'')"
  from Cons.prems(1) obtain delay rng' where
    delay: "draw rng = Some (delay, rng')" "h + delay \<le> u32_max" and
    loop: "(let effective = max (max (h + delay) (row_scheduled r))
                             (case row_not_before r of None \<Rightarrow> 0 | Some h \<Rightarrow> h) in
           (case update_stage_rows ?P (not_before_row effective) db of
              None \<Rightarrow> Some (Err (RerandomizeStage
                        (SqlFailed ''Reschedule migration denomination catch-up stage'')))
            | Some (updated, db') \<Rightarrow> rerandomize_loop draw run effective rng' rs db')) = Some (Ok db')"
    by (auto simp: bind_eq_Some_conv checked_add_def split: if_splits)
  define e where "e = max (max (h + delay) (row_scheduled r)) (case row_not_before r of None \<Rightarrow> 0 | Some h \<Rightarrow> h)"
  have e_ok: "e \<le> u32_max"
    using Cons.prems(3) delay(2) by (auto simp: e_def stage_columns_ok_def split: option.splits)
  have e_ge: "h \<le> e" "effective_height r \<le> e" by (auto simp: e_def effective_height_def)
  note nb = stage_update_not_before [OF e_ok, of ?P]
  let ?db1 = "db\<lparr>stage_rows := map (\<lambda>s. if ?P s then not_before_row e s else s) (stage_rows db)\<rparr>"
  have rest: "rerandomize_loop draw run e rng' rs ?db1 = Some (Ok db')"
    using loop by (simp add: stage_update.update_succeeds [OF nb Cons.prems(2)] flip: e_def)
  have ok1: "db_ok ?db1" by (rule stage_update.update_keeps [OF nb Cons.prems(2)])
  from Cons.IH [OF rest ok1] Cons.prems(3,4) obtain es where
    es: "length es = length rs" "sorted (e # es)" "list_all2 (\<lambda>r e. effective_height r \<le> e) rs es" and
    rows: "stage_rows db' = map (moved_to run (zip (map row_stage_index rs) es)) (stage_rows ?db1)" by auto
  have rows1: "stage_rows ?db1 = map (\<lambda>s. if unsubmitted run s \<and> row_stage_index s = row_stage_index r
      then not_before_row e s else s) (stage_rows db)"
    by (auto simp: unsubmitted_def)
  have fresh: "map_of (zip (map row_stage_index rs) es) (row_stage_index r) = None"
    using Cons.prems(4) es(1) by (simp add: map_of_zip_is_None)
  have "stage_rows db' = map (moved_to run (zip (map row_stage_index (r # rs)) (e # es))) (stage_rows db)"
    unfolding rows rows1 by (simp add: comp_def moved_to_step [OF fresh])
  then show ?case using es e_ge by (intro exI [of _ "e # es"]) auto
qed

lemma remaining_distinct:
  assumes ok: "db_ok db"
  shows "distinct (map row_stage_index (remaining_stages db run))"
proof -
  have "inj_on row_stage_index (set (filter (unsubmitted run) (stage_rows db)))"
    using db_ok_stage_eq [OF ok] by (auto simp: inj_on_def unsubmitted_def)
  moreover have "distinct (stage_rows db)"
    using ok by (auto simp: db_ok_def stage_table_ok_def distinct_map)
  ultimately have "distinct (map row_stage_index (filter (unsubmitted run) (stage_rows db)))"
    by (simp add: distinct_map)
  then show ?thesis unfolding remaining_stages_def
    by (metis mset_eq_imp_distinct_iff mset_map mset_sort)
qed

lemma rerandomize_heights:
  assumes run: "rerandomize_remaining_preparation_broadcast_heights G (Some name) time_col run network tip rng db
      = Some (Ok (n, db'))" and ok: "db_ok db"
    and policy: "preparation_policy_from_str name = Ok policy" "policy \<noteq> Immediate"
  shows "n = length (remaining_stages db run) \<and> (\<exists>es. length es = n \<and> sorted (tip # es)
    \<and> list_all2 (\<lambda>r e. effective_height r \<le> e) (remaining_stages db run) es
    \<and> stage_rows db' = map (moved_to run (zip (map row_stage_index (remaining_stages db run)) es)) (stage_rows db))"
proof -
  from run policy obtain time_policy m where n: "n = length (remaining_stages db run)" and
    loop: "rerandomize_loop (preparation_delay_with_rng G network time_policy m) run tip rng (remaining_stages db run) db
      = Some (Ok db')"
    by (auto simp: rerandomize_remaining_preparation_broadcast_heights_def outcome_simps Let_def split: if_splits)
  have "\<forall>r \<in> set (remaining_stages db run). stage_columns_ok r"
    using ok by (auto simp: remaining_stages_def intro: db_ok_columns)
  from rerandomize_loop_heights [OF loop ok this remaining_distinct [OF ok]] n show ?thesis by auto
qed

end
