(* ===== verification/StageProperties.thy ===== *)
theory StageProperties
  imports StageAccept StageHeights
begin

text \<open>
  The properties of the stage store with their witnesses: the invariant of the reachable
  databases, the life of a stage, the results of the writers and the readers, and the
  insertion of a batch. The witnesses use one small batch of a single stage.
\<close>

section \<open>A batch\<close>

definition tiny_insert :: stage_insert where
  "tiny_insert = \<lparr>ins_stage_index = 0, ins_base_pczt = [1], ins_sigs = [], ins_raw_tx = Some [2],
     ins_expected_txid_hex = replicate 64 CHR ''A'', ins_target_height = 90, ins_scheduled_height = 95,
     ins_expiry_height = 140, ins_fee_zatoshi = 10000, ins_status = Pending,
     ins_inputs = [\<lparr>in_txid_hex = replicate 64 CHR ''b'', in_output_index = 0, in_value_zatoshi = 7000000,
        in_note_version = 3, in_nullifier_hex = None\<rparr>],
     ins_outputs = [\<lparr>out_output_index = 0, out_value_zatoshi = 6990000, out_note_version = 3,
        out_kind = RoleMigration, out_part_index = Some 0\<rparr>]\<rparr>"

definition tiny_id :: string where
  "tiny_id = replicate 64 CHR ''a''"

abbreviation tiny_store :: "(stage_error, unit) outcome \<times> stage_db" where
  "tiny_store \<equiv> insert_denomination_stages_with_tx clear_crypto 0 ''r'' [tiny_insert] [] [] (ensure_schema empty_db)"

definition plain_draws :: "unit rng_env" where
  "plain_draws = \<lparr>next_u64 = (\<lambda>u. (0, u)), delay_of = (\<lambda>n mean. 0), shuffle_perm = (\<lambda>u n. ([0..<n], u))\<rparr>"

lemma tiny_hex: "hex32 (replicate 64 CHR ''A'')" "hex32 (replicate 64 CHR ''b'')" "hex32 tiny_id"
  by (simp_all add: hex32_def list_all_iff is_ascii_hexdigit_def tiny_id_def)

lemma tiny_char: "ascii_lower_char CHR ''A'' = CHR ''a''" "ascii_lower_char CHR ''a'' = CHR ''a''"
  by code_simp+

lemma tiny_lower: "to_ascii_lowercase (replicate 64 CHR ''A'') = tiny_id" "to_ascii_lowercase tiny_id = tiny_id"
  by (simp_all add: to_ascii_lowercase_def map_replicate_const tiny_id_def tiny_char)

lemma tiny_typed: "typed_insert tiny_insert"
  by (simp add: typed_insert_def tiny_insert_def u32_max_def)

lemma tiny_storable: "storable tiny_insert"
  by (simp add: storable_def tiny_insert_def i64_max_def u32_max_def encode_compact_action_sigs_def
      try_u32_def checked_mul_def checked_add_def COMPACT_ACTION_SIG_LEN_def u64_max_def ok_or_def Let_def)

lemma tiny_batch: "batch_valid ''r'' [tiny_insert]"
  by (simp add: batch_valid_def stage_valid_def raw_valid_def input_valid_def output_valid_def tiny_insert_def
      tiny_hex)

lemma tiny_seals: "seals clear_crypto [] []"
  by (simp add: seals_def clear_crypto_def encrypt_payload_def payload_key_encrypt_def encrypt_with_cipher_def
      clear_json_def ok_or_def Let_def payload_constants payload_key_new_def derive_key_def cipher_def)

lemma tiny_env: "b64_decode clear_crypto [] = Some []"
  by (simp add: clear_crypto_def clear_unb64_def)

lemma tiny_start: "db_ok (ensure_schema empty_db)" "tables_exist (ensure_schema empty_db)" "fresh_run (ensure_schema empty_db) run"
  by (simp_all add: db_ok_empty) (simp add: fresh_run_def empty_db_def)

lemma tiny_stored: "\<exists>db. tiny_store = (Ok (), db)"
proof -
  have "(fst tiny_store = Ok ()) = batch_valid ''r'' [tiny_insert]"
    by (rule insert_accepts [OF tiny_start _ tiny_env tiny_seals]) (simp add: tiny_typed tiny_storable)
  then show ?thesis using tiny_batch by (metis prod.collapse)
qed

lemma tiny_db:
  assumes "tiny_store = (Ok (), db)"
  shows "db_ok db \<and> (\<exists>r. stage_rows db = [r] \<and> find_stage db ''r'' tiny_id = Some r \<and> row_status r = ''pending''
    \<and> row_run_id r = ''r'' \<and> row_stage_index r = 0 \<and> row_scheduled r = 95 \<and> row_not_before r = None
    \<and> row_txid r = tiny_id
    \<and> (\<exists>c. row_raw r = Some c \<and> payload_key_decrypt clear_crypto (payload_key_new clear_crypto [] []) c = Ok [2]))"
proof -
  from insert_batch_Ok [OF assms] obtain salt draw' where
    batch: "batch_valid ''r'' [tiny_insert]" and salt: "b64_decode clear_crypto [] = Some salt" and
    fold: "foldM (insert_stage clear_crypto ''r'' [] salt) (0, ensure_schema empty_db) [tiny_insert] = Ok (draw', db)" by auto
  have valid: "\<forall>s \<in> set [tiny_insert]. stage_valid s \<and> typed_insert s"
    using batch tiny_typed by (simp add: batch_valid_def)
  from insert_stages_Ok [OF fold valid tiny_start(1)] obtain rs where
    rs: "list_all2 (sealed_row clear_crypto ''r'' [] salt) [tiny_insert] rs" "stage_rows db = rs" "db_ok db"
    by (auto simp: empty_db_def)
  then obtain r where r: "rs = [r]" "sealed_row clear_crypto ''r'' [] salt tiny_insert r"
    by (auto simp: list_all2_Cons1)
  then have fields: "row_status r = ''pending''" "row_run_id r = ''r''" "row_txid r = tiny_id" "row_stage_index r = 0"
    "row_scheduled r = 95" "row_not_before r = None"
    by (auto simp: sealed_row_def stage_row_of_def tiny_insert_def tiny_lower)
  from r(2) obtain c d where c: "row_raw r = Some c" "encrypt_payload clear_crypto d [2] [] salt = Ok c"
    by (auto simp: sealed_row_def stage_row_of_def tiny_insert_def)
  have "payload_key_decrypt clear_crypto (payload_key_new clear_crypto [] salt) c = Ok [2]"
    using encrypt_payload_opens [OF clear_crypto_ok c(2)] by (simp add: decrypt_payload_def)
  moreover have "salt = []" using salt tiny_env by simp
  ultimately show ?thesis using rs r(1) fields c(1) by (simp add: find_stage_def is_stage_txid_def)
qed

lemma tiny_reachable:
  assumes "tiny_store = (Ok (), db)"
  shows "reachable_db clear_crypto plain_draws db"
proof -
  have "reachable_db clear_crypto plain_draws (ensure_schema empty_db)"
    by (rule reachable_db.step [OF reachable_db.start db_step.schema])
  then have "reachable_db clear_crypto plain_draws (snd tiny_store)"
    by (rule reachable_db.step) (rule db_step.insert_batch, simp add: tiny_typed)
  with assms show ?thesis by simp
qed

section \<open>The invariant and the life of a stage\<close>

text \<open>
  C9: Every database the operations can reach, failing operations included, satisfies the
  invariant of the store: keys are unique, every row satisfies its \<open>CHECK\<close> constraints and
  column ranges, transaction ids are stored as lower-case hex, and every stage has an input and
  an output and they have their stage.
\<close>

theorem reachable_db_ok:
  assumes "reachable_db env G db"
  shows "db_ok db"
  by (rule reachable_ok [OF assms])

theorem reachable_db_ok_witness:
  "\<exists>db. tiny_store = (Ok (), db) \<and> db_ok db \<and> stage_rows db \<noteq> []"
proof -
  from tiny_stored obtain db where db: "tiny_store = (Ok (), db)" ..
  with tiny_db [OF db] reachable_db_ok [OF tiny_reachable [OF db]] show ?thesis by auto
qed





section \<open>Broadcast and confirmation\<close>

text \<open>
  Recording a broadcast, on every branch: an unknown transaction is an error, a pending
  stage becomes broadcasted and nothing else changes, a stage that already is broadcasted or
  confirmed is left alone and the call succeeds, and one that awaits its inputs is an error.
\<close>

theorem broadcast_branches:
  assumes "db_ok db" and "hex32 txid" and "t = to_ascii_lowercase txid"
  shows "mark_denomination_stage_broadcasted run txid db =
    (case find_stage db run t of
       None \<Rightarrow> (Err (StageNotFound t), ensure_schema db)
     | Some r \<Rightarrow>
         if row_status r = ''pending'' then (Ok (), with_stage run t (broadcast_row Broadcasted) db)
         else if row_status r = ''awaiting_inputs'' then (Err (CannotMove AwaitingInputs Broadcasted), ensure_schema db)
         else (Ok (), ensure_schema db))"
  by (rule broadcast_result [OF assms])

theorem broadcast_branches_witness:
  "\<exists>db. tiny_store = (Ok (), db) \<and> mark_denomination_stage_broadcasted ''r'' (replicate 64 CHR ''A'') db =
     (Ok (), with_stage ''r'' tiny_id (broadcast_row Broadcasted) db)"
proof -
  from tiny_stored obtain db where db: "tiny_store = (Ok (), db)" ..
  with tiny_db [OF db] broadcast_branches [OF _ tiny_hex(1), of db tiny_id "''r''"] show ?thesis
    by (auto simp: tiny_lower)
qed

text \<open>
  Recording a confirmation, on every branch: it is stored for a pending or broadcasted
  stage, repeating the same inclusion succeeds without a change, and another inclusion of a
  confirmed stage is reported as a move instead of overwriting the first.
\<close>

theorem confirm_branches:
  assumes "db_ok db" and "hex32 txid" and "t = to_ascii_lowercase txid"
    and "length block_hash = 32" "height \<le> u32_max"
  shows "mark_denomination_stage_confirmed_at run txid height block_hash db =
    (case find_stage db run t of
       None \<Rightarrow> (Err (StageNotFound t), ensure_schema db)
     | Some r \<Rightarrow>
         if row_status r = ''pending'' \<or> row_status r = ''broadcasted''
         then (Ok (), with_stage run t (confirm_row height block_hash) db)
         else if row_status r = ''awaiting_inputs'' then (Err (CannotMove AwaitingInputs Confirmed), ensure_schema db)
         else if row_mined r = Some height \<and> row_hash r = Some block_hash then (Ok (), ensure_schema db)
         else (Err (MovedInclusion t), ensure_schema db))"
  by (rule confirm_result [OF assms])

theorem confirm_branches_witness:
  "\<exists>db. tiny_store = (Ok (), db) \<and> mark_denomination_stage_confirmed_at ''r'' tiny_id 100 (replicate 32 7) db =
     (Ok (), with_stage ''r'' tiny_id (confirm_row 100 (replicate 32 7)) db)"
proof -
  from tiny_stored obtain db where db: "tiny_store = (Ok (), db)" ..
  have "length (replicate 32 (7 :: byte)) = 32" "(100 :: nat) \<le> u32_max" by (simp_all add: u32_max_def)
  with db tiny_db [OF db] confirm_branches [OF _ tiny_hex(3), of db tiny_id "replicate 32 7" 100 "''r''"] show ?thesis
    by (auto simp: tiny_lower)
qed

section \<open>Locked outpoints\<close>

text \<open>
  Confirming a stage releases exactly its own inputs: the outpoints locked by the run
  afterwards are those locked before without the ones this stage spends.
\<close>

theorem confirm_releases_inputs:
  assumes "db_ok db" and "find_stage db run t = Some s"
    and "length block_hash = 32" "height \<le> u32_max"
    and "locked_denomination_stage_input_outpoints db run = Ok L"
  shows "locked_denomination_stage_input_outpoints (with_stage run t (confirm_row height block_hash) db) run
    = Ok (L - stage_outpoints db run (row_stage_index s))"
  by (rule locked_after_confirm [OF assms])

theorem confirm_releases_inputs_witness:
  "\<exists>db L. tiny_store = (Ok (), db) \<and> locked_denomination_stage_input_outpoints db ''r'' = Ok L
     \<and> locked_denomination_stage_input_outpoints (with_stage ''r'' tiny_id (confirm_row 100 (replicate 32 7)) db) ''r''
         = Ok (L - stage_outpoints db ''r'' 0)"
proof -
  from tiny_stored obtain db where db: "tiny_store = (Ok (), db)" ..
  from tiny_db [OF db] obtain r where r: "db_ok db" "find_stage db ''r'' tiny_id = Some r" "row_stage_index r = 0" by blast
  have args: "length (replicate 32 (7 :: byte)) = 32" "(100 :: nat) \<le> u32_max" by (simp_all add: u32_max_def)
  obtain L where L: "locked_denomination_stage_input_outpoints db ''r'' = Ok L" using locked_result [OF r(1)] by blast
  from confirm_releases_inputs [OF r(1,2) args L] r(3) db L show ?thesis by (intro exI conjI) simp_all
qed

section \<open>Reading\<close>

text \<open>
  The per-status counts of a run partition its stages: they add up to the total, which is
  the number of its rows.
\<close>

theorem status_counts_partition:
  assumes "db_ok db" and "denomination_stage_status_counts db run = Ok c"
  shows "awaiting_count c + pending_count c + broadcasted_count c + confirmed_count c = total_count c
    \<and> total_count c = length (filter (\<lambda>r. row_run_id r = run) (stage_rows db))"
  using assms counts_sum [OF assms(1), of run]
  by (auto simp: denomination_stage_status_counts_def outcome_simps count_to_u32_def split: if_splits)

theorem status_counts_partition_witness:
  "\<exists>db c. tiny_store = (Ok (), db) \<and> denomination_stage_status_counts db ''r'' = Ok c \<and> total_count c = 1"
proof -
  from tiny_stored obtain db where db: "tiny_store = (Ok (), db)" ..
  from tiny_db [OF db] obtain r where r: "db_ok db" "stage_rows db = [r]" "row_run_id r = ''r''" "row_status r = ''pending''"
    by blast
  then obtain c where c: "denomination_stage_status_counts db ''r'' = Ok c"
    by (simp add: denomination_stage_status_counts_def status_total_def count_to_u32_def u32_max_def)
  from status_counts_partition [OF r(1) c] r db c show ?thesis by auto
qed

text \<open>
  The pending stages are handed to the broadcaster in the order of their effective
  broadcast heights, and every pending stage of the run is among them exactly once.
\<close>

theorem pending_stages_in_order:
  assumes "db_ok db" and "pending_raw_denomination_stages env db run pw salt64 = Ok ps"
  shows "sorted (map effective_broadcast_height ps)
    \<and> mset (map raw_expected_txid_hex ps) =
        mset (map row_txid (filter (\<lambda>r. row_run_id r = run \<and> row_status r = ''pending'') (stage_rows db)))"
  by (rule pending_sorted [OF assms])

theorem pending_stages_in_order_witness:
  "\<exists>db ps. tiny_store = (Ok (), db) \<and> pending_raw_denomination_stages clear_crypto db ''r'' [] [] = Ok ps
     \<and> map raw_expected_txid_hex ps = [tiny_id]"
proof -
  from tiny_stored obtain db where db: "tiny_store = (Ok (), db)" ..
  from tiny_db [OF db] obtain r c where r: "db_ok db" "stage_rows db = [r]" "row_run_id r = ''r''" "row_status r = ''pending''"
    "row_raw r = Some c" "row_txid r = tiny_id"
    "payload_key_decrypt clear_crypto (payload_key_new clear_crypto [] []) c = Ok [2]" by blast
  have cols: "stage_columns_ok r" using db_ok_columns [OF r(1)] r(2) by simp
  obtain ps where ps: "pending_raw_denomination_stages clear_crypto db ''r'' [] [] = Ok ps"
    using r cols
    by (simp add: pending_raw_denomination_stages_def decode_base64_def tiny_env ok_or_def read_pending_def
        u32_columns_def ensure_def stage_columns_ok_def)
  have "mset (map raw_expected_txid_hex ps) = {#tiny_id#}"
    using pending_stages_in_order [OF r(1) ps] r by simp
  then have "map raw_expected_txid_hex ps = [tiny_id]" by (metis mset_single_iff_right)
  with db ps show ?thesis by metis
qed

section \<open>Batches\<close>

text \<open>
  The validation accepts exactly the well-formed batches: a run id, stage indices,
  transaction ids and outpoints without repetition, and stages whose hashes, inputs, outputs and
  raw transaction fit their status.
\<close>

theorem validate_batch_iff:
  "(validate_stage_batch run stages = Ok ()) = batch_valid run stages"
  by (rule validate_stage_batch_Ok)

text \<open>
  C19: Into a fresh run a batch is stored exactly when the validation accepts it: no constraint
  of the schema is violated afterwards, so the checks of the code are complete.
\<close>

theorem insert_succeeds_iff_valid:
  assumes "db_ok db" and "tables_exist db" and "fresh_run db run"
    and "\<forall>s \<in> set stages. typed_insert s \<and> storable s"
    and "b64_decode env salt64 = Some salt" and "seals env pw salt"
  shows "(fst (insert_denomination_stages_with_tx env draw run stages pw salt64 db) = Ok ()) = batch_valid run stages"
  by (rule insert_accepts [OF assms])

theorem insert_succeeds_iff_valid_witness:
  "fst tiny_store = Ok ()"
  using insert_succeeds_iff_valid [OF tiny_start _ tiny_env tiny_seals, where stages = "[tiny_insert]" and run = "''r''" and draw = 0]
  by (simp add: tiny_typed tiny_storable tiny_batch)

text \<open>
  C34: What is stored is read back: a batch inserted into a fresh run is returned by
  \<open>denomination_stages_for_run\<close> under the same password and salt, sorted by stage index, with
  transaction ids and nullifiers in lower case and nothing else changed.
\<close>

theorem stored_batch_reads_back:
  assumes "crypto_ok env" and "db_ok db" and "fresh_run db run"
    and "\<forall>s \<in> set stages. typed_insert s"
    and "\<forall>s \<in> set stages. \<forall>sig \<in> set (ins_sigs s). length (signature sig) = ZCASH_SIG_LEN"
    and "insert_denomination_stages_with_tx env draw run stages pw salt64 db = (Ok (), db')"
  shows "denomination_stages_for_run env db' run pw salt64
    = Ok (map stored_stage (sort_key ins_stage_index stages))"
  by (rule read_batch_back [OF assms])

theorem stored_batch_reads_back_witness:
  "\<exists>db. tiny_store = (Ok (), db) \<and> denomination_stages_for_run clear_crypto db ''r'' [] [] = Ok [stored_stage tiny_insert]"
proof -
  from tiny_stored obtain db where db: "tiny_store = (Ok (), db)" ..
  have "\<forall>s \<in> set [tiny_insert]. typed_insert s"
    "\<forall>s \<in> set [tiny_insert]. \<forall>sig \<in> set (ins_sigs s). length (signature sig) = ZCASH_SIG_LEN"
    using tiny_typed by (simp_all add: tiny_insert_def)
  from stored_batch_reads_back [OF clear_crypto_ok tiny_start(1,3) this db] db show ?thesis by simp
qed

section \<open>Drawing heights again\<close>

text \<open>
  When the remaining stages are spread again after a missed broadcast, no stage moves
  forward in time: along the order of their effective heights the new heights start at the chain
  tip, never decrease, and none is below the height the stage had; every other stage is
  untouched.
\<close>

theorem rerandomize_postpones:
  assumes "rerandomize_remaining_preparation_broadcast_heights G (Some name) time_col run network tip rng db
      = Some (Ok (n, db'))" and "db_ok db"
    and "preparation_policy_from_str name = Ok policy" "policy \<noteq> Immediate"
  shows "n = length (remaining_stages db run) \<and> (\<exists>es. length es = n \<and> sorted (tip # es)
    \<and> list_all2 (\<lambda>r e. effective_height r \<le> e) (remaining_stages db run) es
    \<and> stage_rows db' = map (moved_to run (zip (map row_stage_index (remaining_stages db run)) es)) (stage_rows db))"
  by (rule rerandomize_heights [OF assms])

lemma plain_delay: "preparation_delay_with_rng plain_draws network policy n () = Some (0, ())"
proof -
  have "draw_delay plain_draws mean m () = Some (0, ())" for mean m
    by (subst draw_delay.simps) (simp add: draw_delay_once_def plain_draws_def)
  then show ?thesis by (simp add: preparation_delay_with_rng_def split: prod.splits)
qed

lemma tiny_rerandomized:
  assumes "db_ok db" "stage_rows db = [r]" "row_run_id r = ''r''" "row_status r = ''pending''"
  shows "\<exists>n db'. rerandomize_remaining_preparation_broadcast_heights plain_draws (Some ''zip318_spaced'')
    (Some ''standard'') ''r'' Main 120 () db = Some (Ok (n, db'))"
proof -
  have cols: "stage_columns_ok r" using db_ok_columns [OF assms(1)] assms(2) by simp
  define e where "e = max (max 120 (row_scheduled r)) (case row_not_before r of None \<Rightarrow> 0 | Some h \<Rightarrow> h)"
  have "e \<le> u32_max"
    using cols by (auto simp: e_def stage_columns_ok_def u32_max_def split: option.splits)
  note nb = stage_update.update_succeeds [OF stage_update_not_before [OF this] assms(1)]
  have remaining: "remaining_stages db ''r'' = [r]"
    using assms by (simp add: remaining_stages_def unsubmitted_def)
  have "\<exists>db'. rerandomize_loop (preparation_delay_with_rng plain_draws Main Standard k) ''r'' 120 () [r] db = Some (Ok db')" for k
    by (simp add: plain_delay checked_add_def u32_max_def Let_def nb flip: e_def)
  moreover obtain m where count: "count_for_run db ''r'' = Ok m"
    using assms(2,3) by (cases "tables_exist db") (auto simp: count_for_run_def u32_max_def Let_def)
  ultimately obtain db' where
    loop: "rerandomize_loop (preparation_delay_with_rng plain_draws Main Standard m) ''r'' 120 () [r] db = Some (Ok db')"
    by blast
  have columns: "u32_columns l (concat (map (\<lambda>r. row_stage_index r # row_scheduled r # optional_column (row_not_before r)) [r])) = Ok ()" for l
    using cols by (simp add: u32_columns_def ensure_def stage_columns_ok_def)
  have tables: "tables_exist db" using assms(1,2) by (auto simp: db_ok_def)
  have "rerandomize_remaining_preparation_broadcast_heights plain_draws (Some ''zip318_spaced'')
    (Some ''standard'') ''r'' Main 120 () db = Some (Ok (1, db'))"
    unfolding rerandomize_remaining_preparation_broadcast_heights_def Let_def remaining columns count
    by (simp add: tables ok_or_def preparation_policy_from_str_def timing_policy_from_str_def dbind_def loop u32_max_def
        del: rerandomize_loop.simps)
  then show ?thesis by blast
qed

theorem rerandomize_postpones_witness:
  "\<exists>db n db' es. tiny_store = (Ok (), db)
     \<and> rerandomize_remaining_preparation_broadcast_heights plain_draws (Some ''zip318_spaced'') (Some ''standard'')
         ''r'' Main 120 () db = Some (Ok (n, db'))
     \<and> length es = n \<and> sorted ((120 :: nat) # es)"
proof -
  from tiny_stored obtain db where db: "tiny_store = (Ok (), db)" ..
  from tiny_db [OF db] obtain r where r: "db_ok db" "stage_rows db = [r]" "row_run_id r = ''r''" "row_status r = ''pending''"
    by blast
  from tiny_rerandomized [OF r] obtain n db' where
    run: "rerandomize_remaining_preparation_broadcast_heights plain_draws (Some ''zip318_spaced'') (Some ''standard'')
         ''r'' Main 120 () db = Some (Ok (n, db'))" by blast
  have "preparation_policy_from_str ''zip318_spaced'' = Ok Zip318Spaced" "Zip318Spaced \<noteq> Immediate"
    by (simp_all add: preparation_policy_from_str_def)
  from rerandomize_postpones [OF run r(1) this] run db show ?thesis by metis
qed

end
