(* ===== verification/MigrationDb.thy ===== *)
theory MigrationDb
  imports StageTransitions "HOL-Library.List_Lexorder" "HOL-Library.Char_ord"
begin

text \<open>
  The migration database beyond the stage tables (\<open>rust/src/wallet/sync/migration.rs\<close> and the
  tables of \<open>migration/schema.rs\<close>): the runs with their phase, the pending migration
  transactions, the prepared notes; and the wallet's own chain tables, which
  \<open>local_denomination_chain_identity\<close> reads. Only the columns are kept that the modelled
  operations read or write. \<open>BTreeSet\<close> and \<open>BTreeMap\<close> iterate in the order of their keys,
  the byte order of the text.
\<close>

section \<open>Phases\<close>

definition PHASE_WAITING_DENOM_CONFIRMATIONS :: string where
  "PHASE_WAITING_DENOM_CONFIRMATIONS = ''waiting_denom_confirmations''"
definition PHASE_COMPLETE :: string where "PHASE_COMPLETE = ''complete''"
definition PHASE_FAILED_TERMINAL :: string where "PHASE_FAILED_TERMINAL = ''failed_terminal''"
definition PHASE_ABANDONED :: string where "PHASE_ABANDONED = ''abandoned''"

lemmas phase_names = PHASE_WAITING_DENOM_CONFIRMATIONS_def PHASE_COMPLETE_def PHASE_FAILED_TERMINAL_def
  PHASE_ABANDONED_def

definition migration_phase_releases_wallet_locks :: "string \<Rightarrow> bool" where
  "migration_phase_releases_wallet_locks phase \<longleftrightarrow>
     phase = PHASE_COMPLETE \<or> phase = PHASE_FAILED_TERMINAL \<or> phase = PHASE_ABANDONED"

section \<open>Rows\<close>

text \<open>
  A table is the list of its rows, a row the record of its columns. A column that every writer
  fills from a \<open>u32\<close> or a \<open>u64\<close> is read back without a range check; \<open>db_fingerprint\<close>,
  which no operation reads, is left out. JSON and encrypted columns hold their text.
\<close>

record run_row =
  run_key :: string
  run_account :: string
  run_network :: string
  run_phase :: string
  run_created_at_ms :: nat
  run_updated_at_ms :: nat
  run_targets :: string
  run_schedule :: string
  run_timing_policy :: string
  run_preparation_policy :: string
  run_proof_retry_height :: "nat option"
  run_signed_origin :: "nat option"
  run_rebased_origin :: "nat option"
  run_recovery_origin :: "nat option"
  run_recovery_max_offset :: "nat option"
  run_last_error :: "string option"

record pending_row =
  pend_run_id :: string
  pend_txid :: string
  pend_part_index :: "nat option"
  pend_raw :: string
  pend_target_height :: nat
  pend_anchor_height :: "nat option"
  pend_expiry_height :: nat
  pend_value :: nat
  pend_fee :: nat
  pend_note_txid :: string
  pend_note_index :: nat
  pend_note_value :: nat
  pend_scheduled_at_ms :: nat
  pend_start_height :: "nat option"
  pend_scheduled_height :: nat
  pend_original_height :: "nat option"
  pend_rebuild_offset :: "nat option"
  pend_attempted :: nat
  pend_status :: string
  pend_metadata :: string

record note_row =
  note_run_id :: string
  note_txid :: string
  note_output_index :: nat
  note_value :: nat
  note_version :: nat
  note_nullifier :: "string option"
  note_lock_state :: string

record signed_row =
  sign_run_id :: string
  sign_message_id :: string
  sign_child_index :: nat
  sign_base :: string
  sign_sigs :: string
  sign_target_height :: nat
  sign_anchor_height :: "nat option"
  sign_expiry_height :: nat
  sign_scheduled_height :: "nat option"
  sign_value :: nat
  sign_fee :: nat
  sign_note :: string
  sign_metadata :: string

record migration_db =
  stages_db :: stage_db
  run_rows :: "run_row list"
  pending_rows :: "pending_row list"
  note_rows :: "note_row list"
  signed_rows :: "signed_row list"

definition find_run :: "migration_db \<Rightarrow> string \<Rightarrow> run_row option" where
  "find_run db run_id = List.find (\<lambda>r. run_key r = run_id) (run_rows db)"

section \<open>The wallet's chain tables\<close>

text \<open>
  \<open>transactions(txid, block, raw)\<close>, \<open>blocks(height, hash)\<close> and the scanned ranges of
  \<open>scan_queue\<close>, written by the third-party wallet library: \<open>tx_block\<close> is the non-null block
  of a transaction blob, \<open>tx_raw\<close> its non-null bytes, \<open>block_hash_at\<close> the hash of a scanned
  block, \<open>scanned_ranges\<close> the half-open ranges with the priority of scanned blocks. The flags say which tables
  and columns exist.
\<close>

record wallet_chain =
  has_transactions :: bool
  has_block_identity :: bool
  has_raw_column :: bool
  has_scan_queue :: bool
  tx_block :: "bytes \<Rightarrow> nat option"
  tx_raw :: "bytes \<Rightarrow> bytes option"
  block_hash_at :: "nat \<Rightarrow> bytes option"
  scanned_ranges :: "(nat \<times> nat) list"

record chain_identity =
  mined_height :: u32
  in_block_hash :: bytes

datatype reconcile_error =
    BadTxidHex
  | TxidLength
  | BlockHashLength
  | ReadInclusionFailed
  | NoBlockIdentities
  | StageFailure stage_error
  | ReadPhaseFailed
  | PreparationTiming preparation_error
  | ReadNetworkFailed
  | UnsupportedNetwork string
  | ChainTipFailed
  | Rerandomize rerandomize_error
  | ReadStageStateFailed

text \<open>\<open>hex::decode\<close>.\<close>

definition hex_digit :: "char \<Rightarrow> nat option" where
  "hex_digit c =
     (let n = (of_char c :: nat) in
      if 48 \<le> n \<and> n \<le> 57 then Some (n - 48)
      else if 97 \<le> n \<and> n \<le> 102 then Some (n - 87)
      else if 65 \<le> n \<and> n \<le> 70 then Some (n - 55)
      else None)"

fun hex_decode :: "string \<Rightarrow> bytes option" where
  "hex_decode [] = Some []"
| "hex_decode [c] = None"
| "hex_decode (c # d # rest) =
     Option.bind (hex_digit c) (\<lambda>h. Option.bind (hex_digit d) (\<lambda>l.
       map_option ((#) (word_of_nat (16 * h + l))) (hex_decode rest)))"

definition txid_blob_variants :: "string \<Rightarrow> (reconcile_error, bytes list) outcome" where
  "txid_blob_variants txid_hex =
     obind (ok_or (hex_decode txid_hex) BadTxidHex) (\<lambda>bs.
     if length bs \<noteq> 32 then Err TxidLength
     else if rev bs \<noteq> bs then Ok [bs, rev bs] else Ok [bs])"

fun first_inclusion :: "wallet_chain \<Rightarrow> bytes list \<Rightarrow> (reconcile_error, chain_identity option) outcome" where
  "first_inclusion W [] = Ok None"
| "first_inclusion W (blob # blobs) =
     (case Option.bind (tx_block W blob) (\<lambda>h. map_option (Pair h) (block_hash_at W h)) of
        Some (height, hash) \<Rightarrow>
          if u32_max < height then Err ReadInclusionFailed
          else if length hash = 32 then Ok (Some \<lparr>mined_height = height, in_block_hash = hash\<rparr>)
          else Err BlockHashLength
      | None \<Rightarrow> first_inclusion W blobs)"

definition local_denomination_chain_identity ::
  "wallet_chain \<Rightarrow> string \<Rightarrow> (reconcile_error, chain_identity option) outcome" where
  "local_denomination_chain_identity W txid_hex =
     (if \<not> has_transactions W then Ok None
      else if has_block_identity W then obind (txid_blob_variants txid_hex) (first_inclusion W)
      else Err NoBlockIdentities)"

section \<open>Children of a reorged denomination\<close>

text \<open>
  One pending child of an affected denomination: kept when it is itself on the chain, removed
  otherwise. The loop state is the pending table, the outputs whose child is on the chain, and
  whether anything was reset.
\<close>

definition reset_child ::
  "(string \<Rightarrow> (reconcile_error, chain_identity option) outcome) \<Rightarrow> string \<Rightarrow>
    pending_row list \<times> u32 set \<times> bool \<Rightarrow> string \<times> u32 \<Rightarrow>
    (reconcile_error, pending_row list \<times> u32 set \<times> bool) outcome" where
  "reset_child identity_of run_id = (\<lambda>(pending, included, reset_any) (child_txid, output_index).
     obind (identity_of child_txid) (\<lambda>found.
       case found of
         Some ident \<Rightarrow> Ok (pending, insert output_index included, reset_any)
       | None \<Rightarrow> Ok (filter (\<lambda>p. \<not> (pend_run_id p = run_id \<and> pend_txid p = child_txid)) pending,
                     included, True)))"

definition reset_note :: "note_row \<Rightarrow> note_row" where
  "reset_note n = n\<lparr>note_nullifier := None, note_lock_state := ''locked''\<rparr>"

definition reset_children_of ::
  "(string \<Rightarrow> (reconcile_error, chain_identity option) outcome) \<Rightarrow> string \<Rightarrow>
    migration_db \<times> bool \<Rightarrow> string \<Rightarrow> (reconcile_error, migration_db \<times> bool) outcome" where
  "reset_children_of identity_of run_id = (\<lambda>(db, reset_any) txid.
     let txid = to_ascii_lowercase txid;
         children = map (\<lambda>p. (pend_txid p, pend_note_index p))
           (filter (\<lambda>p. pend_run_id p = run_id \<and> to_ascii_lowercase (pend_note_txid p) = txid) (pending_rows db))
     in obind (foldM (reset_child identity_of run_id) (pending_rows db, {}, reset_any) children)
       (\<lambda>(pending, included, reset_any').
         let is_reset = (\<lambda>n. note_run_id n = run_id \<and> to_ascii_lowercase (note_txid n) = txid
                           \<and> note_output_index n \<notin> included)
         in Ok (db\<lparr>pending_rows := pending,
                   note_rows := map (\<lambda>n. if is_reset n then reset_note n else n) (note_rows db)\<rparr>,
                reset_any' \<or> list_ex is_reset (note_rows db))))"

definition wait_for_confirmations :: "nat \<Rightarrow> run_row \<Rightarrow> run_row" where
  "wait_for_confirmations now r =
     r\<lparr>run_phase := PHASE_WAITING_DENOM_CONFIRMATIONS, run_updated_at_ms := now, run_last_error := None\<rparr>"

definition live_run :: "string \<Rightarrow> run_row \<Rightarrow> bool" where
  "live_run run_id r \<longleftrightarrow> run_key r = run_id \<and> \<not> migration_phase_releases_wallet_locks (run_phase r)"

text \<open>
  \<open>reset_migration_children_for_reorged_denominations\<close>: one transaction, so an error leaves the
  database as it was.
\<close>

definition reset_migration_children_for_reorged_denominations ::
  "(string \<Rightarrow> (reconcile_error, chain_identity option) outcome) \<Rightarrow> nat \<Rightarrow> string \<Rightarrow> string list \<Rightarrow>
    migration_db \<Rightarrow> (reconcile_error, bool) outcome \<times> migration_db" where
  "reset_migration_children_for_reorged_denominations identity_of now run_id txids db0 =
     (if txids = [] then (Ok False, db0)
      else let db = db0\<lparr>stages_db := ensure_schema (stages_db db0)\<rparr> in
        (case find_run db run_id of
           None \<Rightarrow> (Err ReadPhaseFailed, db)
         | Some r \<Rightarrow>
             if migration_phase_releases_wallet_locks (run_phase r) then (Ok False, db)
             else (case foldM (reset_children_of identity_of run_id) (db, False) txids of
                 Ok (db', reset_any) \<Rightarrow>
                   (Ok reset_any,
                    if reset_any then db'\<lparr>run_rows :=
                       map (\<lambda>r. if live_run run_id r
                                then (wait_for_confirmations now r)\<lparr>run_proof_retry_height := None\<rparr> else r)
                         (run_rows db')\<rparr>
                    else db')
               | Err e \<Rightarrow> (Err e, db)
               | Panic \<Rightarrow> (Panic, db))))"

end
