(* ===== verification/Reconcile.thy ===== *)
theory Reconcile
  imports MigrationDb "HOL-Library.AList"
begin

text \<open>
  The reconciliation of the denomination stages with the wallet's scanned chain
  (\<open>reconcile_denomination_stage_chain_state\<close> of \<open>rust/src/wallet/sync/migration.rs\<close>): which
  stages left the chain, which moved to another block, which descendants have to be proved
  again, and the two transactions that record it. The function reads and writes with three
  connections; the model runs them in sequence, without another process in between.
\<close>

section \<open>Classification of the records\<close>

record reorg_plan =
  affected :: "string list"
  invalid_stages :: "string list"
  identities_to_record :: "(string \<times> chain_identity) list"
  recovered_pending :: "string list"

definition record_txid :: "chain_record \<Rightarrow> string" where
  "record_txid r = to_ascii_lowercase (chain_expected_txid_hex r)"

definition stored_matches :: "chain_record \<Rightarrow> chain_identity \<Rightarrow> bool" where
  "stored_matches r identity \<longleftrightarrow>
     chain_mined_height r = Some (mined_height identity) \<and> chain_block_hash r = Some (in_block_hash identity)"

text \<open>\<open>current\<close> maps the lower-case transaction ids to their present identity.\<close>

type_synonym chain_view = "string \<Rightarrow> chain_identity option"

definition classify :: "chain_view \<Rightarrow> reorg_plan \<Rightarrow> chain_record \<Rightarrow> reorg_plan" where
  "classify current p r =
     (let txid = record_txid r in
      case (chain_status r, current txid) of
        (AwaitingInputs, Some identity) \<Rightarrow>
          p\<lparr>identities_to_record := AList.update txid identity (identities_to_record p)\<rparr>
      | (Pending, Some identity) \<Rightarrow>
          p\<lparr>recovered_pending := List.insert txid (recovered_pending p),
            identities_to_record := AList.update txid identity (identities_to_record p)\<rparr>
      | (Broadcasted, Some identity) \<Rightarrow>
          p\<lparr>identities_to_record := AList.update txid identity (identities_to_record p)\<rparr>
      | (Confirmed, None) \<Rightarrow>
          p\<lparr>affected := List.insert txid (affected p), invalid_stages := List.insert txid (invalid_stages p)\<rparr>
      | (Confirmed, Some identity) \<Rightarrow>
          (if \<not> stored_matches r identity then
             p\<lparr>affected := List.insert txid (affected p),
               identities_to_record := AList.update txid identity (identities_to_record p)\<rparr>
           else p)
      | other \<Rightarrow> p)"

definition no_reorg :: reorg_plan where
  "no_reorg = \<lparr>affected = [], invalid_stages = [], identities_to_record = [], recovered_pending = []\<rparr>"

definition classify_records :: "chain_view \<Rightarrow> chain_record list \<Rightarrow> reorg_plan" where
  "classify_records current records = foldl (classify current) no_reorg records"

section \<open>Propagation to the descendants\<close>

definition propagate_one :: "chain_view \<Rightarrow> string list \<times> string list \<Rightarrow> chain_record \<Rightarrow> string list \<times> string list" where
  "propagate_one current = (\<lambda>(affected, invalid) r.
     if list_ex (\<lambda>parent. parent \<in> set affected) (chain_parent_txids r) then
       (List.insert (record_txid r) affected,
        if current (record_txid r) = None then List.insert (record_txid r) invalid else invalid)
     else (affected, invalid))"

definition propagate_pass :: "chain_view \<Rightarrow> chain_record list \<Rightarrow> string list \<times> string list \<Rightarrow> string list \<times> string list" where
  "propagate_pass current records state = foldl (propagate_one current) state records"

lemma propagate_pass_simps [simp]:
  "propagate_pass current [] state = state"
  "propagate_pass current (r # records) state = propagate_pass current records (propagate_one current state r)"
  by (simp_all add: propagate_pass_def)

lemma propagate_one_affected:
  "set (fst state) \<subseteq> set (fst (propagate_one current state r))"
  "set (fst (propagate_one current state r)) \<subseteq> insert (record_txid r) (set (fst state))"
  "set (fst (propagate_one current state r)) \<subseteq> set (fst state) \<Longrightarrow>
     fst (propagate_one current state r) = fst state"
  by (cases state; auto simp: propagate_one_def)+

lemma propagate_pass_grows: "set (fst state) \<subseteq> set (fst (propagate_pass current records state))"
proof (induction records arbitrary: state)
  case (Cons r records)
  show ?case unfolding propagate_pass_simps
    by (rule subset_trans [OF propagate_one_affected(1) Cons.IH])
qed simp

lemma propagate_pass_bound:
  "set (fst (propagate_pass current records state)) \<subseteq> set (fst state) \<union> record_txid ` set records"
proof (induction records arbitrary: state)
  case (Cons r records)
  have "set (fst (propagate_one current state r)) \<union> record_txid ` set records
      \<subseteq> set (fst state) \<union> record_txid ` set (r # records)"
    using propagate_one_affected(2) [of current state r] by auto
  then show ?case unfolding propagate_pass_simps by (rule subset_trans [OF Cons.IH])
qed simp

lemma propagate_pass_stable:
  "set (fst (propagate_pass current records state)) \<subseteq> set (fst state) \<Longrightarrow>
     fst (propagate_pass current records state) = fst state"
proof (induction records arbitrary: state)
  case (Cons r records)
  let ?one = "propagate_one current state r"
  have out: "set (fst (propagate_pass current records ?one)) \<subseteq> set (fst state)"
    using Cons.prems by simp
  have "set (fst ?one) \<subseteq> set (fst state)"
    by (rule subset_trans [OF propagate_pass_grows out])
  then have same: "fst ?one = fst state" by (rule propagate_one_affected(3))
  from Cons.IH [of ?one] out same show ?case by simp
qed simp

text \<open>The loop ends: each repetition adds a record's transaction id to the affected set.\<close>

function propagate_loop :: "chain_view \<Rightarrow> chain_record list \<Rightarrow> string list \<times> string list \<Rightarrow> string list \<times> string list" where
  "propagate_loop current records state =
     (let before = length (fst state); state' = propagate_pass current records state in
      if length (fst state') = before then state' else propagate_loop current records state')"
  by pat_completeness auto

termination
proof (relation "measure (\<lambda>(current, records, state). card (record_txid ` set records - set (fst state)))")
  fix current records n and state state' :: "string list \<times> string list"
  assume "n = length (fst state)" "state' = propagate_pass current records state" "length (fst state') \<noteq> n"
  then have "fst state' \<noteq> fst state" and s': "state' = propagate_pass current records state" by auto
  then have "\<not> set (fst state') \<subseteq> set (fst state)"
    using propagate_pass_stable [of current records state] by blast
  moreover have "set (fst state) \<subseteq> set (fst state')" "set (fst state') \<subseteq> set (fst state) \<union> record_txid ` set records"
    unfolding s' by (rule propagate_pass_grows, rule propagate_pass_bound)
  ultimately have "record_txid ` set records - set (fst state') \<subset> record_txid ` set records - set (fst state)" by blast
  then show "((current, records, state'), current, records, state) \<in>
      measure (\<lambda>(current, records, state). card (record_txid ` set records - set (fst state)))"
    by (simp add: psubset_card_mono)
qed simp

declare propagate_loop.simps [simp del]

definition reorg_plan_of :: "chain_view \<Rightarrow> chain_record list \<Rightarrow> reorg_plan" where
  "reorg_plan_of current records =
     (let p = classify_records current records;
          (aff, inv) = propagate_loop current records (affected p, invalid_stages p)
      in p\<lparr>affected := aff, invalid_stages := inv\<rparr>)"

section \<open>The two transactions\<close>

text \<open>Resets and recorded inclusions, in the order of the \<open>BTreeSet\<close> and the \<open>BTreeMap\<close>.\<close>

fun run_each :: "('a \<Rightarrow> stage_db \<Rightarrow> (stage_error, unit) outcome \<times> stage_db) \<Rightarrow> 'a list \<Rightarrow> stage_db \<Rightarrow>
    (stage_error, stage_db) outcome" where
  "run_each f [] db = Ok db"
| "run_each f (x # xs) db =
     (case f x db of (Ok u, db') \<Rightarrow> run_each f xs db' | (Err e, db') \<Rightarrow> Err e | (Panic, db') \<Rightarrow> Panic)"

definition apply_plan :: "string \<Rightarrow> reorg_plan \<Rightarrow> stage_db \<Rightarrow> (stage_error, stage_db) outcome" where
  "apply_plan run_id p db =
     obind (run_each (reset_denomination_stage_exact run_id) (sort (invalid_stages p)) db) (\<lambda>db'.
       run_each (\<lambda>(txid, identity). replace_denomination_stage_confirmation_identity run_id txid
                   (mined_height identity) (in_block_hash identity))
         (filter (\<lambda>(txid, identity). txid \<notin> set (invalid_stages p))
            (sort_key fst (identities_to_record p))) db')"

text \<open>Whether a recovered stage is still pending inside the second transaction.\<close>

definition still_pending :: "stage_db \<Rightarrow> string \<Rightarrow> string \<Rightarrow> (reconcile_error, bool) outcome" where
  "still_pending db run_id txid =
     obind (ok_or (find_stage db run_id txid) ReadStageStateFailed) (\<lambda>r. Ok (row_status r = ''pending''))"

text \<open>
  \<open>recovery_network\<close> and \<open>recovery_context\<close>: the network whose delays are drawn again, with the
  chain tip. \<open>tip\<close> is the tip the caller passes, \<open>sync_tip\<close> what \<open>get_sync_progress\<close> returns
  as a \<open>u64\<close>.
\<close>

definition recovery_context ::
  "migration_db \<Rightarrow> string \<Rightarrow> reorg_plan \<Rightarrow> u32 option \<Rightarrow> (wallet_network \<Rightarrow> nat option) \<Rightarrow>
    (reconcile_error, (wallet_network \<times> u32) option) outcome" where
  "recovery_context db run_id p tip sync_tip =
     (if recovered_pending p = [] then Ok None
      else obind (ok_or (find_run db run_id) (Rerandomize ReadPreparationPolicyFailed)) (\<lambda>run.
        obind (map_err PreparationTiming (preparation_policy_from_str (run_preparation_policy run))) (\<lambda>policy.
        if policy = Immediate then Ok None
        else obind (ok_or (network_from_str (run_network run)) (UnsupportedNetwork (run_network run))) (\<lambda>network.
          (case tip of
             Some height \<Rightarrow> Ok (Some (network, height))
           | None \<Rightarrow> obind (ok_or (sync_tip network) ChainTipFailed) (\<lambda>height.
               if height \<le> u32_max then Ok (Some (network, height)) else Err ChainTipFailed))))))"

text \<open>The second transaction; an error discards it.\<close>

definition record_chain_state ::
  "'r rng_env \<Rightarrow> string \<Rightarrow> reorg_plan \<Rightarrow> (wallet_network \<times> u32) option \<Rightarrow> 'r \<Rightarrow> migration_db \<Rightarrow>
    (reconcile_error, migration_db option) outcome option" where
  "record_chain_state G run_id p context rng db =
     dbind (Some (ok_or (find_run db run_id) ReadPhaseFailed)) (\<lambda>run.
     if migration_phase_releases_wallet_locks (run_phase run) then Some (Ok None)
     else dbind (Some (mapM (still_pending (stages_db db) run_id) (sort (recovered_pending p)))) (\<lambda>pending.
       dbind (Some (map_err StageFailure (apply_plan run_id p (stages_db db)))) (\<lambda>stages.
         (case (list_ex id pending, context) of
            (True, Some (network, chain_tip_height)) \<Rightarrow>
              dbind (map_option (map_err Rerandomize)
                 (rerandomize_remaining_preparation_broadcast_heights G (Some (run_preparation_policy run))
                    (Some (run_timing_policy run)) run_id network chain_tip_height rng stages))
                (\<lambda>(n, stages'). Some (Ok (Some (db\<lparr>stages_db := stages'\<rparr>))))
          | other \<Rightarrow> Some (Ok (Some (db\<lparr>stages_db := stages\<rparr>)))))))"

definition mark_waiting :: "nat \<Rightarrow> string \<Rightarrow> migration_db \<Rightarrow> migration_db" where
  "mark_waiting now run_id db =
     db\<lparr>run_rows := map (\<lambda>r. if live_run run_id r then wait_for_confirmations now r else r) (run_rows db)\<rparr>"

definition current_identities ::
  "(string \<Rightarrow> (reconcile_error, chain_identity option) outcome) \<Rightarrow> chain_record list \<Rightarrow>
    (reconcile_error, chain_view) outcome" where
  "current_identities identity_of records =
     foldM (\<lambda>current r. obind (identity_of (chain_expected_txid_hex r)) (\<lambda>identity.
              Ok (current(record_txid r := identity)))) (\<lambda>txid. None) records"

text \<open>The read phase: what to do, and the context of a recovery.\<close>

definition plan_reconciliation ::
  "wallet_chain \<Rightarrow> string \<Rightarrow> u32 option \<Rightarrow> (wallet_network \<Rightarrow> nat option) \<Rightarrow> migration_db \<Rightarrow>
    (reconcile_error, reorg_plan \<times> (wallet_network \<times> u32) option) outcome" where
  "plan_reconciliation W run_id tip sync_tip db =
     obind (map_err StageFailure (denomination_stage_chain_records (stages_db db) run_id)) (\<lambda>records.
     obind (current_identities (local_denomination_chain_identity W) records) (\<lambda>current.
     let p = reorg_plan_of current records in
     obind (recovery_context db run_id p tip sync_tip) (\<lambda>context. Ok (p, context))))"

text \<open>
  The write phase: the children of affected stages first, then the stages, then the phase of the
  run. Each transaction that fails leaves what the earlier ones committed.
\<close>

definition reset_affected_children ::
  "wallet_chain \<Rightarrow> nat \<Rightarrow> string \<Rightarrow> reorg_plan \<Rightarrow> migration_db \<Rightarrow> (reconcile_error, bool) outcome \<times> migration_db" where
  "reset_affected_children W now run_id p db =
     (if affected p = [] then (Ok False, db)
      else reset_migration_children_for_reorged_denominations (local_denomination_chain_identity W) now run_id
             (sort (affected p)) db)"

definition commit_reconciliation ::
  "'r rng_env \<Rightarrow> wallet_chain \<Rightarrow> nat \<Rightarrow> string \<Rightarrow> reorg_plan \<Rightarrow> (wallet_network \<times> u32) option \<Rightarrow> 'r \<Rightarrow>
    migration_db \<Rightarrow> ((reconcile_error, unit) outcome \<times> migration_db) option" where
  "commit_reconciliation G W now run_id p context rng db =
     (case reset_affected_children W now run_id p db of
        (Err e, db1) \<Rightarrow> Some (Err e, db1)
      | (Panic, db1) \<Rightarrow> Some (Panic, db1)
      | (Ok reset_any, db1) \<Rightarrow>
          if invalid_stages p = [] \<and> identities_to_record p = []
          then Some (Ok (), if affected p = [] then db1 else mark_waiting now run_id db1)
          else Option.bind (record_chain_state G run_id p context rng db1) (\<lambda>written.
            case written of
              Err e \<Rightarrow> Some (Err e, db1)
            | Panic \<Rightarrow> Some (Panic, db1)
            | Ok None \<Rightarrow> Some (Ok (), db1)
            | Ok (Some db2) \<Rightarrow> Some (Ok (), if affected p = [] then db2 else mark_waiting now run_id db2)))"

definition reconcile_denomination_stage_chain_state ::
  "'r rng_env \<Rightarrow> wallet_chain \<Rightarrow> nat \<Rightarrow> string \<Rightarrow> u32 option \<Rightarrow> (wallet_network \<Rightarrow> nat option) \<Rightarrow> 'r \<Rightarrow>
    migration_db \<Rightarrow> ((reconcile_error, unit) outcome \<times> migration_db) option" where
  "reconcile_denomination_stage_chain_state G W now run_id tip sync_tip rng db0 =
     (let db = db0\<lparr>stages_db := ensure_schema (stages_db db0)\<rparr> in
      case plan_reconciliation W run_id tip sync_tip db of
        Err e \<Rightarrow> Some (Err e, db)
      | Panic \<Rightarrow> Some (Panic, db)
      | Ok (p, context) \<Rightarrow> commit_reconciliation G W now run_id p context rng db)"

end
