(* ===== verification/ReconcileProps.thy ===== *)
theory ReconcileProps
  imports Reconcile StageProps
begin

text \<open>
  Correctness of the reconciliation: the affected set is the closure of the changed stages under
  the spending relation, and the two passes of updates leave every stage in the state a
  per-stage specification gives.
\<close>

section \<open>Classification\<close>

definition changed :: "chain_view \<Rightarrow> chain_record \<Rightarrow> bool" where
  "changed current r \<longleftrightarrow> chain_status r = Confirmed
     \<and> (\<forall>identity. current (record_txid r) = Some identity \<longrightarrow> \<not> stored_matches r identity)"

definition to_record :: "chain_view \<Rightarrow> chain_record \<Rightarrow> bool" where
  "to_record current r \<longleftrightarrow> (\<exists>identity. current (record_txid r) = Some identity
     \<and> (chain_status r = Confirmed \<longrightarrow> \<not> stored_matches r identity))"

lemma classify_records_snoc:
  "classify_records current (records @ [r]) = classify current (classify_records current records) r"
  "classify_records current [] = no_reorg"
  by (simp_all add: classify_records_def)

lemma classify_one:
  "set (affected (classify current p r)) = set (affected p) \<union> (if changed current r then {record_txid r} else {})"
  "set (invalid_stages (classify current p r)) = set (invalid_stages p)
     \<union> (if changed current r \<and> current (record_txid r) = None then {record_txid r} else {})"
  "map_of (identities_to_record (classify current p r)) =
     (if to_record current r then (map_of (identities_to_record p))(record_txid r := current (record_txid r))
      else map_of (identities_to_record p))"
  "distinct (map fst (identities_to_record p)) \<Longrightarrow> distinct (map fst (identities_to_record (classify current p r)))"
  by (cases "chain_status r"; cases "current (record_txid r)";
      simp add: classify_def changed_def to_record_def Let_def update_conv' distinct_update)+

lemma classify_records_sets:
  "set (affected (classify_records current records)) = record_txid ` {r \<in> set records. changed current r}
    \<and> set (invalid_stages (classify_records current records)) =
        {t \<in> record_txid ` {r \<in> set records. changed current r}. current t = None}
    \<and> (\<forall>t. map_of (identities_to_record (classify_records current records)) t =
        (if \<exists>r \<in> set records. record_txid r = t \<and> to_record current r then current t else None))
    \<and> distinct (map fst (identities_to_record (classify_records current records)))"
proof (induction records rule: rev_induct)
  case Nil
  then show ?case by (simp add: classify_records_snoc no_reorg_def)
next
  case (snoc r records)
  then show ?case by (auto simp: classify_records_snoc classify_one)
qed

section \<open>The closure\<close>

definition spends :: "chain_record list \<Rightarrow> (string \<times> string) set" where
  "spends records = {(p, record_txid r) | p r. r \<in> set records \<and> p \<in> set (chain_parent_txids r)}"

lemma propagate_one_sets:
  "set (fst (propagate_one current state r)) =
     set (fst state) \<union> (if \<exists>p \<in> set (chain_parent_txids r). p \<in> set (fst state) then {record_txid r} else {})"
  by (cases state) (auto simp: propagate_one_def list_ex_iff)

lemma propagate_one_invalid:
  "set (snd state) = {t \<in> set (fst state). current t = None} \<Longrightarrow>
     set (snd (propagate_one current state r)) = {t \<in> set (fst (propagate_one current state r)). current t = None}"
  by (cases state) (auto simp: propagate_one_def)

lemma propagate_pass_invalid:
  "set (snd state) = {t \<in> set (fst state). current t = None} \<Longrightarrow>
     set (snd (propagate_pass current records state)) = {t \<in> set (fst (propagate_pass current records state)). current t = None}"
  by (induction records arbitrary: state) (simp_all add: propagate_one_invalid)

lemma propagate_pass_sound:
  "set rs \<subseteq> set records \<Longrightarrow> set (fst state) \<subseteq> (spends records)\<^sup>* `` X \<Longrightarrow>
     set (fst (propagate_pass current rs state)) \<subseteq> (spends records)\<^sup>* `` X"
proof (induction rs arbitrary: state)
  case (Cons r rs)
  have "record_txid r \<in> (spends records)\<^sup>* `` X"
    if p: "p \<in> set (chain_parent_txids r)" "p \<in> set (fst state)" for p
  proof -
    have "(p, record_txid r) \<in> spends records" using p(1) Cons.prems(1) by (auto simp: spends_def)
    moreover obtain x where "x \<in> X" "(x, p) \<in> (spends records)\<^sup>*" using Cons.prems(2) p(2) by blast
    ultimately show ?thesis by (meson Image_iff rtrancl.rtrancl_into_rtrancl)
  qed
  then have "set (fst (propagate_one current state r)) \<subseteq> (spends records)\<^sup>* `` X"
    using Cons.prems(2) by (auto simp: propagate_one_sets)
  with Cons show ?case by simp
qed simp

lemma propagate_pass_closed:
  "fst (propagate_pass current rs state) = fst state \<Longrightarrow> r \<in> set rs \<Longrightarrow> p \<in> set (chain_parent_txids r) \<Longrightarrow>
     p \<in> set (fst state) \<Longrightarrow> record_txid r \<in> set (fst state)"
proof (induction rs arbitrary: state)
  case (Cons r' rs)
  have "set (fst (propagate_one current state r')) \<subseteq> set (fst state)"
    using propagate_pass_grows [of "propagate_one current state r'" current rs] Cons.prems(1) by simp
  then have same: "fst (propagate_one current state r') = fst state" by (rule propagate_one_affected(3))
  show ?case
  proof (cases "r = r'")
    case True
    then have "\<exists>p \<in> set (chain_parent_txids r'). p \<in> set (fst state)" using Cons.prems(3,4) by blast
    then have "record_txid r' \<in> set (fst (propagate_one current state r'))" by (simp add: propagate_one_sets)
    then show ?thesis using True same by simp
  next
    case False
    then show ?thesis using Cons.IH [of "propagate_one current state r'"] Cons.prems same by auto
  qed
qed simp

lemma propagate_pass_prefix: "\<exists>zs. fst (propagate_pass current rs state) = zs @ fst state"
proof (induction rs arbitrary: state)
  case (Cons r rs)
  have "\<exists>ys. fst (propagate_one current state r) = ys @ fst state"
    by (cases state) (auto simp: propagate_one_def List.insert_def)
  with Cons.IH [of "propagate_one current state r"] show ?case by auto
qed simp

lemma propagate_loop_closure:
  "X \<subseteq> set (fst state) \<Longrightarrow> set (fst state) \<subseteq> (spends records)\<^sup>* `` X \<Longrightarrow>
     set (snd state) = {t \<in> set (fst state). current t = None} \<Longrightarrow>
     set (fst (propagate_loop current records state)) = (spends records)\<^sup>* `` X
     \<and> set (snd (propagate_loop current records state)) =
         {t \<in> (spends records)\<^sup>* `` X. current t = None}"
proof (induction current records state rule: propagate_loop.induct)
  case (1 current records state)
  define next_state where "next_state = propagate_pass current records state"
  have grow: "set (fst state) \<subseteq> set (fst next_state)"
    unfolding next_state_def by (rule propagate_pass_grows)
  have sound: "set (fst next_state) \<subseteq> (spends records)\<^sup>* `` X"
    unfolding next_state_def by (rule propagate_pass_sound [OF _ "1.prems"(2)]) simp
  have invalid: "set (snd next_state) = {t \<in> set (fst next_state). current t = None}"
    unfolding next_state_def by (rule propagate_pass_invalid [OF "1.prems"(3)])
  show ?case
  proof (cases "length (fst next_state) = length (fst state)")
    case True
    have same: "fst next_state = fst state"
      using propagate_pass_prefix [of current records state] True by (auto simp: next_state_def)
    have "spends records `` set (fst next_state) \<subseteq> set (fst next_state)"
      using propagate_pass_closed [OF same [unfolded next_state_def]] unfolding same
      by (auto simp: spends_def)
    then have "(spends records)\<^sup>* `` set (fst next_state) = set (fst next_state)"
      by (rule Image_closed_trancl)
    then have "set (fst next_state) = (spends records)\<^sup>* `` X"
      using sound grow "1.prems"(1) by blast
    moreover have "propagate_loop current records state = next_state"
      using True by (subst propagate_loop.simps) (simp add: Let_def next_state_def)
    ultimately show ?thesis using invalid by simp
  next
    case False
    then have "propagate_loop current records state = propagate_loop current records next_state"
      by (subst propagate_loop.simps) (simp add: Let_def next_state_def)
    moreover note "1.IH" [OF refl next_state_def False]
    ultimately show ?thesis using grow "1.prems"(1) sound invalid by simp
  qed
qed

definition roots :: "chain_view \<Rightarrow> chain_record list \<Rightarrow> string set" where
  "roots current records = record_txid ` {r \<in> set records. changed current r}"

lemma reorg_plan_sets:
  "set (affected (reorg_plan_of current records)) = (spends records)\<^sup>* `` roots current records"
  "set (invalid_stages (reorg_plan_of current records)) =
     {t \<in> (spends records)\<^sup>* `` roots current records. current t = None}"
  "identities_to_record (reorg_plan_of current records) = identities_to_record (classify_records current records)"
  "recovered_pending (reorg_plan_of current records) = recovered_pending (classify_records current records)"
proof -
  let ?p = "classify_records current records"
  have "roots current records \<subseteq> (spends records)\<^sup>* `` roots current records" by auto
  then have "set (fst (propagate_loop current records (affected ?p, invalid_stages ?p))) = (spends records)\<^sup>* `` roots current records
      \<and> set (snd (propagate_loop current records (affected ?p, invalid_stages ?p))) =
          {t \<in> (spends records)\<^sup>* `` roots current records. current t = None}"
    using classify_records_sets [of current records]
    by (intro propagate_loop_closure) (simp_all add: roots_def)
  then show "set (affected (reorg_plan_of current records)) = (spends records)\<^sup>* `` roots current records"
    "set (invalid_stages (reorg_plan_of current records)) =
       {t \<in> (spends records)\<^sup>* `` roots current records. current t = None}"
    "identities_to_record (reorg_plan_of current records) = identities_to_record ?p"
    "recovered_pending (reorg_plan_of current records) = recovered_pending ?p"
    by (simp_all add: reorg_plan_of_def Let_def split_def)
qed

section \<open>The updates\<close>

definition same_other :: "stage_db \<Rightarrow> stage_db \<Rightarrow> bool" where
  "same_other db db' \<longleftrightarrow> db_ok db' \<and> input_rows db' = input_rows db \<and> output_rows db' = output_rows db"

lemma row_ops_keys [simp]:
  "row_run_id (reset_row r) = row_run_id r" "row_txid (reset_row r) = row_txid r"
  "row_run_id (confirm_row h b r) = row_run_id r" "row_txid (confirm_row h b r) = row_txid r"
  "reset_row (reset_row r) = reset_row r"
  by (simp_all add: row_ops)

lemma find_stage_exists:
  "find_stage db run t \<noteq> None \<longleftrightarrow> (\<exists>r \<in> set (stage_rows db). is_stage_txid run t r)"
  by (auto simp: find_stage_def find_None_iff)

lemma with_stage_ok:
  "stage_update (is_stage_txid run t) f \<Longrightarrow> db_ok db \<Longrightarrow> same_other db (with_stage run t f db)"
  using stage_update.update_evolves [of "is_stage_txid run t" f db]
  by (simp add: same_other_def with_stage_def evolves_def)

lemma reset_result:
  assumes "db_ok db" "hex32 t" "to_ascii_lowercase t = t" "find_stage db run t \<noteq> None"
  shows "reset_denomination_stage_exact run t db = (Ok (), with_stage run t reset_row db)"
  using assms stage_count [of db run t "\<lambda>_. True"]
  by (auto simp: reset_denomination_stage_exact_def validate_txid_hex_def validate_hex_32_def hex32_def
      reset.guarded_schema_run with_stage_def split: option.splits)

lemma replace_result:
  assumes "db_ok db" "hex32 t" "to_ascii_lowercase t = t" "find_stage db run t \<noteq> None"
    and "length hash = 32" "height \<le> u32_max"
  shows "replace_denomination_stage_confirmation_identity run t height hash db =
    (Ok (), with_stage run t (confirm_row height hash) db)"
proof -
  let ?Q = "\<lambda>r. row_status r \<in> {''awaiting_inputs'', ''pending'', ''broadcasted'', ''confirmed''}"
  from assms(4) obtain s where s: "find_stage db run t = Some s" by blast
  have "?Q s" using find_stage_Some [OF s] db_ok_check [OF assms(1)] by (auto simp: stage_check_def)
  then show ?thesis
    using assms stage_count [OF assms(1), of run t ?Q] update_with_stage [OF assms(1) s, of ?Q] s
    by (simp add: replace_denomination_stage_confirmation_identity_def validate_txid_hex_def
        validate_hex_32_def hex32_def confirm_run del: insert_iff)
qed

text \<open>A pass of updates over stages that exist, each with its own row operation.\<close>

lemma run_each_rows:
  assumes "\<And>x db. x \<in> set xs \<Longrightarrow> db_ok db \<Longrightarrow> find_stage db run (key x) \<noteq> None \<Longrightarrow>
      f x db = (Ok (), with_stage run (key x) (g x) db)"
    and "\<And>x. x \<in> set xs \<Longrightarrow> stage_update (is_stage_txid run (key x)) (g x)"
    and "\<And>x r. row_run_id (g x r) = row_run_id r \<and> row_txid (g x r) = row_txid r"
    and "distinct (map key xs)" and "db_ok db" and "\<forall>x \<in> set xs. find_stage db run (key x) \<noteq> None"
  shows "\<exists>db'. run_each f xs db = Ok db' \<and> same_other db db' \<and>
    stage_rows db' = map (\<lambda>r. case map_of (map (\<lambda>x. (key x, g x)) xs) (row_txid r) of
        Some h \<Rightarrow> if row_run_id r = run then h r else r | None \<Rightarrow> r) (stage_rows db)"
  using assms
proof (induction xs arbitrary: db)
  case Nil
  then show ?case by (simp add: same_other_def)
next
  case (Cons x xs)
  let ?db = "with_stage run (key x) (g x) db"
  have step: "f x db = (Ok (), ?db)" using Cons.prems(1,5,6) by simp
  have ok: "same_other db ?db" using with_stage_ok Cons.prems(2,5) by simp
  have rows: "stage_rows ?db = map (\<lambda>r. if is_stage_txid run (key x) r then g x r else r) (stage_rows db)"
    by (simp add: with_stage_def)
  have found: "\<forall>y \<in> set xs. find_stage ?db run (key y) \<noteq> None"
  proof
    fix y assume "y \<in> set xs"
    then obtain r where r: "r \<in> set (stage_rows db)" "is_stage_txid run (key y) r"
      using Cons.prems(6) unfolding find_stage_exists by auto
    let ?r = "if is_stage_txid run (key x) r then g x r else r"
    have "?r \<in> set (stage_rows ?db)" unfolding rows using r(1) by auto
    moreover have "is_stage_txid run (key y) ?r" using r(2) Cons.prems(3) by (simp add: is_stage_txid_def)
    ultimately show "find_stage ?db run (key y) \<noteq> None" unfolding find_stage_exists by blast
  qed
  from Cons.IH [of ?db] Cons.prems(1-4) ok found obtain db' where
    run: "run_each f xs ?db = Ok db'" "same_other ?db db'" and
    rows': "stage_rows db' = map (\<lambda>r. case map_of (map (\<lambda>x. (key x, g x)) xs) (row_txid r) of
        Some h \<Rightarrow> if row_run_id r = run then h r else r | None \<Rightarrow> r) (stage_rows ?db)"
    by (auto simp: same_other_def)
  have new: "map_of (map (\<lambda>x. (key x, g x)) xs) (key x) = None"
    using Cons.prems(4) by (auto simp: map_of_eq_None_iff image_image)
  have "stage_rows db' = map (\<lambda>r. case map_of (map (\<lambda>x. (key x, g x)) (x # xs)) (row_txid r) of
        Some h \<Rightarrow> if row_run_id r = run then h r else r | None \<Rightarrow> r) (stage_rows db)"
    unfolding rows' rows
    using Cons.prems(3) new by (auto simp: is_stage_txid_def split: option.splits)
  then show ?case using step run ok by (auto simp: same_other_def)
qed

text \<open>What the reconciliation makes of a row.\<close>

definition reconciled_row :: "chain_view \<Rightarrow> string set \<Rightarrow> stage_row \<Rightarrow> stage_row" where
  "reconciled_row current aff r =
     (case current (row_txid r) of
        Some identity \<Rightarrow> confirm_row (mined_height identity) (in_block_hash identity) r
      | None \<Rightarrow> if row_txid r \<in> aff then reset_row r else r)"


text \<open>
  The chain view a database and its records are judged by: every record's transaction id is the
  stored one, and an identity has the ranges of its type.
\<close>

definition view_ok :: "chain_view \<Rightarrow> bool" where
  "view_ok current \<longleftrightarrow> (\<forall>t identity. current t = Some identity \<longrightarrow>
     length (in_block_hash identity) = 32 \<and> mined_height identity \<le> u32_max)"

lemma stored_row_txid:
  "db_ok db \<Longrightarrow> r \<in> set (stage_rows db) \<Longrightarrow> hex32 (row_txid r) \<and> to_ascii_lowercase (row_txid r) = row_txid r"
  by (auto simp: db_ok_def stage_table_ok_def stored_txid_def)

lemma stage_update_reset: "stage_update (is_stage_txid run t) reset_row"
  by (rule reset.stage_update_axioms)

definition run_txids :: "stage_db \<Rightarrow> string \<Rightarrow> string set" where
  "run_txids db run = row_txid ` {r \<in> set (stage_rows db). row_run_id r = run}"

lemma run_txids_found:
  "db_ok db \<Longrightarrow> t \<in> run_txids db run \<Longrightarrow> find_stage db run t \<noteq> None \<and> hex32 t \<and> to_ascii_lowercase t = t"
  unfolding find_stage_exists using stored_row_txid by (fastforce simp: run_txids_def is_stage_txid_def)

lemma map_of_const: "map_of (map (\<lambda>x. (x, c)) xs) t = (if t \<in> set xs then Some c else None)"
  by (induction xs) auto

lemma map_of_image_snd: "map_of (map (\<lambda>x. (fst x, h (snd x))) xs) t = map_option h (map_of xs t)"
  by (induction xs) auto

lemma resets_rows:
  assumes ok: "db_ok db" and "distinct ts" and known: "set ts \<subseteq> run_txids db run"
  shows "\<exists>d. run_each (reset_denomination_stage_exact run) (sort ts) db = Ok d \<and> same_other db d \<and>
    stage_rows d = map (\<lambda>r. if row_run_id r = run \<and> row_txid r \<in> set ts then reset_row r else r) (stage_rows db)"
proof -
  have "\<exists>d. run_each (reset_denomination_stage_exact run) (sort ts) db = Ok d \<and> same_other db d \<and>
    stage_rows d = map (\<lambda>r. case map_of (map (\<lambda>t. (t, reset_row)) (sort ts)) (row_txid r) of
        Some h \<Rightarrow> if row_run_id r = run then h r else r | None \<Rightarrow> r) (stage_rows db)"
  proof (rule run_each_rows)
    fix t d assume "t \<in> set (sort ts)" "db_ok d" "find_stage d run t \<noteq> None"
    then show "reset_denomination_stage_exact run t d = (Ok (), with_stage run t reset_row d)"
      using run_txids_found [OF ok, of t run] known by (intro reset_result) auto
  qed (use assms run_txids_found [OF ok] in \<open>auto intro: stage_update_reset\<close>)
  then show ?thesis
    by (elim exE conjE) (intro exI conjI, assumption+, simp add: map_of_const cong: map_cong if_cong)
qed

lemma replaces_rows:
  fixes ps :: "(string \<times> chain_identity) list"
  assumes ok: "db_ok db" and "distinct (map fst ps)" and known: "fst ` set ps \<subseteq> run_txids db run"
    and typed: "\<And>t i. (t, i) \<in> set ps \<Longrightarrow> length (in_block_hash i) = 32 \<and> mined_height i \<le> u32_max"
  shows "\<exists>d. run_each (\<lambda>(txid, identity). replace_denomination_stage_confirmation_identity run txid
                   (mined_height identity) (in_block_hash identity)) ps db = Ok d \<and> same_other db d \<and>
    stage_rows d = map (\<lambda>r. case map_of ps (row_txid r) of
        Some i \<Rightarrow> if row_run_id r = run then confirm_row (mined_height i) (in_block_hash i) r else r
      | None \<Rightarrow> r) (stage_rows db)"
proof -
  let ?g = "\<lambda>x :: string \<times> chain_identity. confirm_row (mined_height (snd x)) (in_block_hash (snd x))"
  have "\<exists>d. run_each (\<lambda>(txid, identity). replace_denomination_stage_confirmation_identity run txid
                   (mined_height identity) (in_block_hash identity)) ps db = Ok d \<and> same_other db d \<and>
    stage_rows d = map (\<lambda>r. case map_of (map (\<lambda>x. (fst x, ?g x)) ps) (row_txid r) of
        Some h \<Rightarrow> if row_run_id r = run then h r else r | None \<Rightarrow> r) (stage_rows db)"
  proof (rule run_each_rows)
    fix x d assume x: "x \<in> set ps" "db_ok d" "find_stage d run (fst x) \<noteq> None"
    obtain t i where pair: "x = (t, i)" by (cases x)
    have "t \<in> run_txids db run" using known x(1) unfolding pair by force
    then have t: "hex32 t \<and> to_ascii_lowercase t = t" using run_txids_found [OF ok] by blast
    have i: "length (in_block_hash i) = 32 \<and> mined_height i \<le> u32_max" using typed x(1) pair by blast
    show "(case x of (txid, identity) \<Rightarrow> replace_denomination_stage_confirmation_identity run txid
                   (mined_height identity) (in_block_hash identity)) d = (Ok (), with_stage run (fst x) (?g x) d)"
      using x(2,3) t i unfolding pair by (simp add: replace_result)
  next
    fix x assume x: "x \<in> set ps"
    then have "length (in_block_hash (snd x)) = 32 \<and> mined_height (snd x) \<le> u32_max"
      using typed [of "fst x" "snd x"] by simp
    then show "stage_update (is_stage_txid run (fst x)) (?g x)" by (simp add: stage_update_confirm)
  next
    show "\<forall>x \<in> set ps. find_stage db run (fst x) \<noteq> None"
      using run_txids_found [OF ok] known by fastforce
  qed (use assms in simp_all)
  then obtain d where d: "run_each (\<lambda>(txid, identity). replace_denomination_stage_confirmation_identity run txid
                   (mined_height identity) (in_block_hash identity)) ps db = Ok d" "same_other db d" and
    rows: "stage_rows d = map (\<lambda>r. case map_of (map (\<lambda>x. (fst x, ?g x)) ps) (row_txid r) of
        Some h \<Rightarrow> if row_run_id r = run then h r else r | None \<Rightarrow> r) (stage_rows db)" by blast
  have confirms: "map_of (map (\<lambda>x. (fst x, ?g x)) ps) t =
      map_option (\<lambda>i. confirm_row (mined_height i) (in_block_hash i)) (map_of ps t)" for t
    by (rule map_of_image_snd)
  have "stage_rows d = map (\<lambda>r. case map_of ps (row_txid r) of
        Some i \<Rightarrow> if row_run_id r = run then confirm_row (mined_height i) (in_block_hash i) r else r
      | None \<Rightarrow> r) (stage_rows db)"
    unfolding rows confirms by (auto split: option.splits)
  with d show ?thesis by blast
qed

lemma option_eqI: "(\<And>i. x = Some i \<longleftrightarrow> y = Some i) \<Longrightarrow> x = y"
  by (cases x; cases y) auto

lemma run_txids_map:
  assumes "\<And>r. row_run_id (f r) = row_run_id r \<and> row_txid (f r) = row_txid r"
  shows "row_txid ` {r \<in> set (map f rows). row_run_id r = run} = row_txid ` {r \<in> set rows. row_run_id r = run}"
proof -
  have "{r \<in> set (map f rows). row_run_id r = run} = f ` {r \<in> set rows. row_run_id r = run}"
    using assms by auto
  then show ?thesis using assms by (simp add: image_image)
qed

lemma map_of_filter_sort:
  assumes "distinct (map fst ps)"
  shows "map_of (filter (\<lambda>(t, i). t \<notin> S) (sort_key fst ps)) t = (if t \<in> S then None else map_of ps t)"
proof -
  let ?qs = "filter (\<lambda>(t, i). t \<notin> S) (sort_key fst ps)"
  have "distinct (map fst (sort_key fst ps))"
    using assms by (metis mset_map mset_sort mset_eq_imp_distinct_iff)
  then have d: "distinct (map fst ?qs)" by (rule distinct_map_filter)
  show ?thesis
  proof (rule option_eqI)
    fix i
    have "map_of ?qs t = Some i \<longleftrightarrow> t \<notin> S \<and> map_of ps t = Some i"
      unfolding map_of_eq_Some_iff [OF d] map_of_eq_Some_iff [OF assms] by auto
    then show "map_of ?qs t = Some i \<longleftrightarrow> (if t \<in> S then None else map_of ps t) = Some i" by simp
  qed
qed

lemma apply_plan_rows:
  assumes ok: "db_ok db" and view: "view_ok current"
    and inv: "set (invalid_stages p) = {t \<in> aff. current t = None}" "distinct (invalid_stages p)"
    and ids: "distinct (map fst (identities_to_record p))"
      "\<And>t i. map_of (identities_to_record p) t = Some i \<Longrightarrow> current t = Some i"
    and known: "set (invalid_stages p) \<subseteq> run_txids db run" "fst ` set (identities_to_record p) \<subseteq> run_txids db run"
    and fixed: "\<And>r i. r \<in> set (stage_rows db) \<Longrightarrow> row_run_id r = run \<Longrightarrow> current (row_txid r) = Some i \<Longrightarrow>
      map_of (identities_to_record p) (row_txid r) = None \<Longrightarrow>
      confirm_row (mined_height i) (in_block_hash i) r = r"
  shows "\<exists>db'. apply_plan run p db = Ok db' \<and> same_other db db' \<and>
    stage_rows db' = map (\<lambda>r. if row_run_id r = run then reconciled_row current aff r else r) (stage_rows db)"
proof -
  let ?ids = "identities_to_record p"
  let ?ps = "filter (\<lambda>(t, i). t \<notin> set (invalid_stages p)) (sort_key fst ?ids)"
  from resets_rows [OF ok inv(2) known(1)] obtain d where
    d: "run_each (reset_denomination_stage_exact run) (sort (invalid_stages p)) db = Ok d" "same_other db d" and
    d_rows: "stage_rows d = map (\<lambda>r. if row_run_id r = run \<and> row_txid r \<in> set (invalid_stages p)
        then reset_row r else r) (stage_rows db)" by blast
  have txids: "run_txids d run = run_txids db run"
    unfolding run_txids_def d_rows by (rule run_txids_map) simp
  have distinct_ps: "distinct (map fst ?ps)"
    using ids(1) by (intro distinct_map_filter) (metis mset_map mset_sort mset_eq_imp_distinct_iff)
  have "\<exists>d'. run_each (\<lambda>(txid, identity). replace_denomination_stage_confirmation_identity run txid
                   (mined_height identity) (in_block_hash identity)) ?ps d = Ok d' \<and> same_other d d' \<and>
    stage_rows d' = map (\<lambda>r. case map_of ?ps (row_txid r) of
        Some i \<Rightarrow> if row_run_id r = run then confirm_row (mined_height i) (in_block_hash i) r else r
      | None \<Rightarrow> r) (stage_rows d)"
  proof (rule replaces_rows [OF _ distinct_ps])
    show "db_ok d" using d(2) by (simp add: same_other_def)
    show "fst ` set ?ps \<subseteq> run_txids d run" using known(2) unfolding txids by auto
    fix t i assume "(t, i) \<in> set ?ps"
    then have "map_of ?ids t = Some i" using ids(1) by simp
    then show "length (in_block_hash i) = 32 \<and> mined_height i \<le> u32_max"
      using ids(2) view unfolding view_ok_def by blast
  qed
  then obtain d' where d': "run_each (\<lambda>(txid, identity). replace_denomination_stage_confirmation_identity run txid
                   (mined_height identity) (in_block_hash identity)) ?ps d = Ok d'" "same_other d d'" and
    rows: "stage_rows d' = map (\<lambda>r. case map_of ?ps (row_txid r) of
        Some i \<Rightarrow> if row_run_id r = run then confirm_row (mined_height i) (in_block_hash i) r else r
      | None \<Rightarrow> r) (stage_rows d)" by blast
  have lookup: "map_of ?ps t = (if t \<in> set (invalid_stages p) then None else map_of ?ids t)" for t
    by (rule map_of_filter_sort [OF ids(1)])
  have "stage_rows d' = map (\<lambda>r. if row_run_id r = run then reconciled_row current aff r else r) (stage_rows db)"
    unfolding rows d_rows map_map
  proof (rule map_cong [OF refl])
    fix r assume r: "r \<in> set (stage_rows db)"
    show "((\<lambda>r. case map_of ?ps (row_txid r) of
        Some i \<Rightarrow> if row_run_id r = run then confirm_row (mined_height i) (in_block_hash i) r else r | None \<Rightarrow> r) \<circ>
      (\<lambda>r. if row_run_id r = run \<and> row_txid r \<in> set (invalid_stages p) then reset_row r else r)) r =
      (if row_run_id r = run then reconciled_row current aff r else r)"
    proof (cases "row_run_id r = run")
      case True
      show ?thesis
      proof (cases "current (row_txid r)")
        case None
        then have "map_of ?ids (row_txid r) = None" using ids(2) by (cases "map_of ?ids (row_txid r)") auto
        then have "map_of ?ps (row_txid r) = None" by (simp only: lookup if_cancel)
        moreover have "row_txid r \<in> set (invalid_stages p) \<longleftrightarrow> row_txid r \<in> aff" using None by (simp only: inv(1) mem_Collect_eq simp_thms)
        ultimately show ?thesis using True None by (simp add: reconciled_row_def)
      next
        case (Some i)
        then have valid: "row_txid r \<notin> set (invalid_stages p)" by (simp add: inv(1))
        show ?thesis
        proof (cases "map_of ?ids (row_txid r)")
          case None
          then show ?thesis using fixed [OF r True Some None] valid Some True
            by (simp add: reconciled_row_def lookup)
        next
          case (Some j)
          then have "j = i" using ids(2) \<open>current (row_txid r) = Some i\<close> by fastforce
          then show ?thesis using valid True Some \<open>current (row_txid r) = Some i\<close>
            by (simp add: reconciled_row_def lookup)
        qed
      qed
    next
      case False
      then show ?thesis by (simp split: option.splits)
    qed
  qed
  with d d' show ?thesis by (auto simp: apply_plan_def same_other_def)
qed

end
