(* ===== verification/ReconcileCorrect.thy ===== *)
theory ReconcileCorrect
  imports ReconcileProps StageReads
begin

text \<open>
  Correctness of the reconciliation over the database: the records are the rows of the run, so
  the classification and the closure can be stated over rows; with them the effect of
  \<open>reconcile_denomination_stage_chain_state\<close> on every stage, its idempotence, and the effect
  of the child reset on the pending transactions.
\<close>

section \<open>Records and rows\<close>

definition has_record :: "stage_db \<Rightarrow> stage_row \<Rightarrow> chain_record \<Rightarrow> bool" where
  "has_record db r rec \<longleftrightarrow> chain_expected_txid_hex rec = row_txid r \<and> record_txid rec = row_txid r
     \<and> status_as_str (chain_status rec) = row_status r
     \<and> chain_mined_height rec = row_mined r \<and> chain_block_hash rec = row_hash r
     \<and> set (chain_parent_txids rec) = irow_txid ` {i \<in> set (input_rows db). input_stage i = stage_key r}"

lemma read_has_record:
  assumes ok: "db_ok db" and r: "r \<in> set (stage_rows db)" "row_run_id r = run"
    and read: "read_chain_record db run r = Ok rec"
  shows "has_record db r rec"
proof -
  have "chain_parent_txids rec = map (\<lambda>i. to_ascii_lowercase (irow_txid i)) (sort_key irow_order
      (filter (\<lambda>i. irow_run_id i = run \<and> irow_stage_index i = row_stage_index r) (input_rows db)))"
    using read by (auto simp: read_chain_record_def outcome_simps)
  then have "set (chain_parent_txids rec) = (\<lambda>i. to_ascii_lowercase (irow_txid i)) `
      {i \<in> set (input_rows db). input_stage i = stage_key r}"
    using r(2) by (auto simp: input_stage_def stage_key_def)
  moreover have "to_ascii_lowercase (irow_txid i) = irow_txid i" if "i \<in> set (input_rows db)" for i
    using ok that by (auto simp: db_ok_def input_table_ok_def stored_txid_def)
  ultimately have "set (chain_parent_txids rec) = irow_txid ` {i \<in> set (input_rows db). input_stage i = stage_key r}"
    by (metis (mono_tags, lifting) image_cong mem_Collect_eq)
  moreover from read_chain_record_total [OF ok r(1), of run] read
  have "chain_expected_txid_hex rec = row_txid r \<and> status_as_str (chain_status rec) = row_status r
     \<and> chain_mined_height rec = row_mined r \<and> chain_block_hash rec = row_hash r" by auto
  ultimately show ?thesis
    using stored_row_txid [OF ok r(1)] by (simp add: has_record_def record_txid_def)
qed

lemma records_of_run:
  assumes ok: "db_ok db"
  shows "\<exists>recs. denomination_stage_chain_records db run = Ok recs
     \<and> list_all2 (has_record db) (rows_of_run run db) recs"
proof -
  obtain recs where recs: "denomination_stage_chain_records db run = Ok recs"
    using chain_records_total [OF ok] by blast
  then have "list_all2 (\<lambda>r rec. read_chain_record db run r = Ok rec) (rows_of_run run db) recs"
    by (simp add: denomination_stage_chain_records_def mapM_eq_Ok)
  then have "list_all2 (has_record db) (rows_of_run run db) recs"
    by (rule list.rel_mono_strong) (auto simp: rows_of_run_def intro: read_has_record [OF ok])
  with recs show ?thesis by blast
qed

lemma set_rows_of_run: "set (rows_of_run run db) = {r \<in> set (stage_rows db). row_run_id r = run}"
  by (simp add: rows_of_run_def)

lemma list_all2_left: "list_all2 P xs ys \<Longrightarrow> x \<in> set xs \<Longrightarrow> \<exists>y \<in> set ys. P x y"
  by (induction rule: list_all2_induct) auto

lemma list_all2_right: "list_all2 P xs ys \<Longrightarrow> y \<in> set ys \<Longrightarrow> \<exists>x \<in> set xs. P x y"
  by (induction rule: list_all2_induct) auto

lemma list_all2_image:
  "list_all2 P xs ys \<Longrightarrow> (\<And>x y. P x y \<Longrightarrow> f x = g y) \<Longrightarrow> f ` set xs = g ` set ys"
  by (induction rule: list_all2_induct) auto

section \<open>The chain as the stages see it\<close>

definition stage_view :: "wallet_chain \<Rightarrow> stage_db \<Rightarrow> string \<Rightarrow> chain_view" where
  "stage_view W db run t =
     (if t \<in> run_txids db run then
        (case local_denomination_chain_identity W t of Ok found \<Rightarrow> found | _ \<Rightarrow> None)
      else None)"

lemma first_inclusion_typed:
  "first_inclusion W blobs = Ok (Some i) \<Longrightarrow> length (in_block_hash i) = 32 \<and> mined_height i \<le> u32_max"
  by (induction blobs) (auto split: option.splits if_splits)

lemma stage_view_ok: "view_ok (stage_view W db run)"
  by (auto simp: view_ok_def stage_view_def local_denomination_chain_identity_def outcome_simps
      dest: first_inclusion_typed split: if_splits outcome.splits)

definition found_at :: "(string \<Rightarrow> (reconcile_error, chain_identity option) outcome) \<Rightarrow> string \<Rightarrow> chain_identity option" where
  "found_at identity_of t = (case identity_of t of Ok found \<Rightarrow> found | _ \<Rightarrow> None)"

lemma identities_fold:
  "foldM (\<lambda>current t. obind (identity_of t) (\<lambda>identity. Ok (current(t := identity)))) start ts = Ok current \<longleftrightarrow>
    (\<forall>t \<in> set ts. is_ok (identity_of t)) \<and>
    current = (\<lambda>t. if t \<in> set ts then found_at identity_of t else start t)"
proof (induction ts arbitrary: start)
  case (Cons t ts)
  show ?case
  proof (cases "identity_of t")
    case (Ok found)
    then have "(\<lambda>u. if u \<in> set ts then found_at identity_of u else (start(t := found)) u)
        = (\<lambda>u. if u \<in> set (t # ts) then found_at identity_of u else start u)"
      by (auto simp: found_at_def)
    then show ?thesis using Ok Cons.IH [of "start(t := found)"] by simp
  qed simp_all
qed auto

lemma foldM_map: "foldM f s (map g xs) = foldM (\<lambda>s x. f s (g x)) s xs"
  by (induction xs arbitrary: s) (auto intro: obind_cong)

lemma current_identities_view:
  assumes ok: "db_ok db" and recs: "list_all2 (has_record db) (rows_of_run run db) recs"
  shows "current_identities (local_denomination_chain_identity W) recs = Ok current \<longleftrightarrow>
    (\<forall>t \<in> run_txids db run. is_ok (local_denomination_chain_identity W t)) \<and> current = stage_view W db run"
proof -
  have same: "chain_expected_txid_hex rec = record_txid rec" if "rec \<in> set recs" for rec
    using list_all2_right [OF recs that] by (auto simp: has_record_def)
  have "current_identities (local_denomination_chain_identity W) recs =
      foldM (\<lambda>current t. obind (local_denomination_chain_identity W t) (\<lambda>identity. Ok (current(t := identity))))
        (\<lambda>txid. None) (map record_txid recs)"
    unfolding current_identities_def foldM_map by (rule foldM_cong) (simp_all add: same)
  moreover have "set (map record_txid recs) = run_txids db run"
    using list_all2_image [OF recs, of row_txid record_txid]
    by (simp add: has_record_def run_txids_def set_rows_of_run)
  moreover have "stage_view W db run =
      (\<lambda>t. if t \<in> run_txids db run then found_at (local_denomination_chain_identity W) t else None)"
    by (auto simp: stage_view_def found_at_def)
  ultimately show ?thesis by (simp only: identities_fold)
qed

section \<open>Changed stages and their descendants\<close>

text \<open>A confirmed stage whose recorded inclusion is not the present one.\<close>

definition row_changed :: "chain_view \<Rightarrow> stage_row \<Rightarrow> bool" where
  "row_changed current r \<longleftrightarrow> row_status r = ''confirmed''
     \<and> (\<forall>i. current (row_txid r) = Some i \<longrightarrow>
          \<not> (row_mined r = Some (mined_height i) \<and> row_hash r = Some (in_block_hash i)))"

definition changed_stages :: "stage_db \<Rightarrow> string \<Rightarrow> chain_view \<Rightarrow> string set" where
  "changed_stages db run current =
     row_txid ` {r \<in> set (stage_rows db). row_run_id r = run \<and> row_changed current r}"

definition spending :: "stage_db \<Rightarrow> string \<Rightarrow> (string \<times> string) set" where
  "spending db run = {(irow_txid i, row_txid r) | i r. r \<in> set (stage_rows db) \<and> row_run_id r = run
     \<and> i \<in> set (input_rows db) \<and> input_stage i = stage_key r}"

definition affected_stages :: "stage_db \<Rightarrow> string \<Rightarrow> chain_view \<Rightarrow> string set" where
  "affected_stages db run current = (spending db run)\<^sup>* `` changed_stages db run current"

lemma status_is_confirmed: "status_as_str s = ''confirmed'' \<longleftrightarrow> s = Confirmed"
  by (cases s) simp_all

lemma has_record_changed: "has_record db r rec \<Longrightarrow> changed current rec = row_changed current r"
  unfolding has_record_def changed_def row_changed_def stored_matches_def
  by (metis status_is_confirmed)

lemma roots_rows:
  assumes recs: "list_all2 (has_record db) (rows_of_run run db) recs"
  shows "roots current recs = changed_stages db run current"
proof (intro set_eqI iffI)
  fix t assume "t \<in> roots current recs"
  then obtain rec where rec: "rec \<in> set recs" "changed current rec" "t = record_txid rec"
    by (auto simp: roots_def)
  from list_all2_right [OF recs rec(1)] obtain r where r: "r \<in> set (rows_of_run run db)" "has_record db r rec" ..
  then have "row_changed current r" "t = row_txid r"
    using rec by (simp_all add: has_record_changed has_record_def)
  with r(1) show "t \<in> changed_stages db run current" by (auto simp: changed_stages_def set_rows_of_run)
next
  fix t assume "t \<in> changed_stages db run current"
  then obtain r where r: "r \<in> set (rows_of_run run db)" "row_changed current r" "t = row_txid r"
    by (auto simp: changed_stages_def set_rows_of_run)
  from list_all2_left [OF recs r(1)] obtain rec where rec: "rec \<in> set recs" "has_record db r rec" ..
  then have "changed current rec" "t = record_txid rec"
    using r by (simp_all add: has_record_changed has_record_def)
  with rec(1) show "t \<in> roots current recs" by (auto simp: roots_def)
qed

lemma spends_rows:
  assumes recs: "list_all2 (has_record db) (rows_of_run run db) recs"
  shows "spends recs = spending db run"
proof -
  have parents: "(p, t) \<in> spending db run \<longleftrightarrow> (\<exists>r \<in> set (rows_of_run run db). t = row_txid r
      \<and> p \<in> irow_txid ` {i \<in> set (input_rows db). input_stage i = stage_key r})" for p t
    unfolding spending_def set_rows_of_run by blast
  have "(p, t) \<in> spends recs \<longleftrightarrow> (\<exists>rec \<in> set recs. t = record_txid rec \<and> p \<in> set (chain_parent_txids rec))" for p t
    unfolding spends_def by blast
  moreover have "(\<exists>rec \<in> set recs. t = record_txid rec \<and> p \<in> set (chain_parent_txids rec)) \<longleftrightarrow>
      (p, t) \<in> spending db run" for p t
    unfolding parents
  proof (intro iffI)
    assume "\<exists>rec \<in> set recs. t = record_txid rec \<and> p \<in> set (chain_parent_txids rec)"
    then obtain rec where rec: "rec \<in> set recs" "t = record_txid rec" "p \<in> set (chain_parent_txids rec)" by blast
    from list_all2_right [OF recs rec(1)] obtain r where "r \<in> set (rows_of_run run db)" "has_record db r rec" ..
    with rec show "\<exists>r \<in> set (rows_of_run run db). t = row_txid r
        \<and> p \<in> irow_txid ` {i \<in> set (input_rows db). input_stage i = stage_key r}"
      by (auto simp: has_record_def)
  next
    assume "\<exists>r \<in> set (rows_of_run run db). t = row_txid r
        \<and> p \<in> irow_txid ` {i \<in> set (input_rows db). input_stage i = stage_key r}"
    then obtain r where r: "r \<in> set (rows_of_run run db)" "t = row_txid r"
      "p \<in> irow_txid ` {i \<in> set (input_rows db). input_stage i = stage_key r}" by blast
    from list_all2_left [OF recs r(1)] obtain rec where "rec \<in> set recs" "has_record db r rec" ..
    moreover from this r have "t = record_txid rec" "p \<in> set (chain_parent_txids rec)"
      by (simp_all add: has_record_def)
    ultimately show "\<exists>rec \<in> set recs. t = record_txid rec \<and> p \<in> set (chain_parent_txids rec)" by blast
  qed
  ultimately show ?thesis by auto
qed

section \<open>The plan of a database\<close>

lemma classify_distinct:
  "distinct (invalid_stages (classify_records current recs))"
proof (induction recs rule: rev_induct)
  case (snoc r recs)
  have "distinct (invalid_stages p) \<Longrightarrow> distinct (invalid_stages (classify current p r))" for p
    by (cases "chain_status r"; cases "current (record_txid r)") (simp_all add: classify_def Let_def)
  with snoc show ?case by (simp add: classify_records_snoc)
qed (simp add: classify_records_snoc no_reorg_def)

lemma pass_distinct:
  "distinct (snd state) \<Longrightarrow> distinct (snd (propagate_pass current recs state))"
proof (induction recs arbitrary: state)
  case (Cons r recs)
  have "distinct (snd (propagate_one current state r))"
    using Cons.prems by (cases state) (simp add: propagate_one_def)
  from Cons.IH [OF this] show ?case by simp
qed simp

lemma loop_distinct: "distinct (snd state) \<Longrightarrow> distinct (snd (propagate_loop current recs state))"
proof (induction current recs state rule: propagate_loop.induct)
  case (1 current recs state)
  have next_ok: "distinct (snd (propagate_pass current recs state))" by (rule pass_distinct [OF "1.prems"])
  show ?case
    by (subst propagate_loop.simps) (simp add: Let_def next_ok "1.IH" [OF refl refl _ next_ok])
qed

lemma plan_distinct: "distinct (invalid_stages (reorg_plan_of current recs))"
  using loop_distinct [of "(affected (classify_records current recs), invalid_stages (classify_records current recs))"]
  by (simp add: reorg_plan_of_def split_def Let_def classify_distinct)

lemma affected_known: "affected_stages db run current \<subseteq> run_txids db run"
proof
  fix t assume "t \<in> affected_stages db run current"
  then obtain s where s: "s \<in> changed_stages db run current" "(s, t) \<in> (spending db run)\<^sup>*"
    by (auto simp: affected_stages_def)
  from s(2) s(1) show "t \<in> run_txids db run"
    by (induction rule: rtrancl_induct) (auto simp: changed_stages_def run_txids_def spending_def)
qed

lemma plan_of_rows:
  assumes recs: "list_all2 (has_record db) (rows_of_run run db) recs"
  shows "set (affected (reorg_plan_of current recs)) = affected_stages db run current"
    and "set (invalid_stages (reorg_plan_of current recs)) = {t \<in> affected_stages db run current. current t = None}"
  unfolding reorg_plan_sets roots_rows [OF recs] spends_rows [OF recs] by (simp_all add: affected_stages_def)

text \<open>A stage whose present inclusion has to be written.\<close>

definition row_to_record :: "chain_view \<Rightarrow> stage_row \<Rightarrow> bool" where
  "row_to_record current r \<longleftrightarrow> (\<exists>i. current (row_txid r) = Some i
     \<and> confirm_row (mined_height i) (in_block_hash i) r \<noteq> r)"

lemma record_matches:
  assumes rec: "has_record db r rec" and view: "current (row_txid r) = Some i" and "\<not> to_record current rec"
  shows "confirm_row (mined_height i) (in_block_hash i) r = r"
proof -
  have "chain_status rec = Confirmed" "stored_matches rec i"
    using assms by (auto simp: to_record_def has_record_def)
  then have "row_status r = ''confirmed''" "row_mined r = Some (mined_height i)" "row_hash r = Some (in_block_hash i)"
    using rec by (auto simp: has_record_def stored_matches_def status_is_confirmed [symmetric])
  then show ?thesis by (simp add: confirm_row_def)
qed

lemma plan_identities:
  assumes recs: "list_all2 (has_record db) (rows_of_run run db) recs"
  shows "map_of (identities_to_record (reorg_plan_of current recs)) t = Some i \<Longrightarrow> current t = Some i"
    and "distinct (map fst (identities_to_record (reorg_plan_of current recs)))"
    and "fst ` set (identities_to_record (reorg_plan_of current recs)) \<subseteq> run_txids db run"
    and "r \<in> set (stage_rows db) \<Longrightarrow> row_run_id r = run \<Longrightarrow> current (row_txid r) = Some i \<Longrightarrow>
      map_of (identities_to_record (reorg_plan_of current recs)) (row_txid r) = None \<Longrightarrow>
      confirm_row (mined_height i) (in_block_hash i) r = r"
proof -
  have known: "record_txid rec \<in> run_txids db run" if "rec \<in> set recs" for rec
    using list_all2_right [OF recs that] by (auto simp: has_record_def run_txids_def set_rows_of_run)
  have ids: "map_of (identities_to_record (reorg_plan_of current recs)) t =
      (if \<exists>rec \<in> set recs. record_txid rec = t \<and> to_record current rec then current t else None)" for t
    using classify_records_sets [of current recs] unfolding reorg_plan_sets by blast
  show "map_of (identities_to_record (reorg_plan_of current recs)) t = Some i \<Longrightarrow> current t = Some i"
    unfolding ids by (simp split: if_splits)
  show "distinct (map fst (identities_to_record (reorg_plan_of current recs)))"
    using classify_records_sets [of current recs] unfolding reorg_plan_sets by blast
  show "fst ` set (identities_to_record (reorg_plan_of current recs)) \<subseteq> run_txids db run"
    unfolding dom_map_of_conv_image_fst [symmetric] using known by (auto simp: dom_def ids split: if_splits)
  assume r: "r \<in> set (stage_rows db)" "row_run_id r = run" "current (row_txid r) = Some i"
    "map_of (identities_to_record (reorg_plan_of current recs)) (row_txid r) = None"
  then obtain rec where rec: "rec \<in> set recs" "has_record db r rec"
    using list_all2_left [OF recs, of r] by (auto simp: set_rows_of_run)
  then have "\<not> to_record current rec" using r(3,4) unfolding ids by (auto simp: has_record_def split: if_splits)
  then show "confirm_row (mined_height i) (in_block_hash i) r = r" by (rule record_matches [of db r rec current i, OF rec(2) r(3)])
qed

lemma apply_plan_of_rows:
  assumes ok: "db_ok db" and recs: "list_all2 (has_record db) (rows_of_run run db) recs"
    and view: "view_ok current"
  shows "\<exists>db'. apply_plan run (reorg_plan_of current recs) db = Ok db' \<and> same_other db db' \<and>
    stage_rows db' = map (\<lambda>r. if row_run_id r = run
      then reconciled_row current (affected_stages db run current) r else r) (stage_rows db)"
proof (rule apply_plan_rows [OF ok view plan_of_rows(2) [OF recs] plan_distinct])
  show "set (invalid_stages (reorg_plan_of current recs)) \<subseteq> run_txids db run"
    using affected_known unfolding plan_of_rows(2) [OF recs] by blast
qed (use plan_identities [OF recs] in blast)+

section \<open>The child reset\<close>

definition off_chain :: "(string \<Rightarrow> (reconcile_error, chain_identity option) outcome) \<Rightarrow> string \<Rightarrow> bool" where
  "off_chain identity_of t \<longleftrightarrow> identity_of t = Ok None"

definition child_of :: "string \<Rightarrow> string \<Rightarrow> pending_row \<Rightarrow> bool" where
  "child_of run t p \<longleftrightarrow> pend_run_id p = run \<and> to_ascii_lowercase (pend_note_txid p) = t"

lemma reset_child_fold:
  "foldM (reset_child f run) (pending, included, b) children = Ok (pending', included', b') \<longleftrightarrow>
     (\<forall>c \<in> set children. is_ok (f (fst c)))
     \<and> pending' = filter (\<lambda>p. \<not> (pend_run_id p = run \<and> (\<exists>c \<in> set children. fst c = pend_txid p \<and> off_chain f (fst c)))) pending
     \<and> included' = included \<union> snd ` {c \<in> set children. \<not> off_chain f (fst c)}
     \<and> b' = (b \<or> (\<exists>c \<in> set children. off_chain f (fst c)))"
proof (induction children arbitrary: pending included b)
  case (Cons c children)
  obtain t k where c: "c = (t, k)" by (cases c)
  show ?case
  proof (cases "f t")
    case (Ok found)
    show ?thesis
    proof (cases found)
      case None
      have step: "reset_child f run (pending, included, b) c =
          Ok (filter (\<lambda>p. \<not> (pend_run_id p = run \<and> pend_txid p = t)) pending, included, True)"
        by (simp add: reset_child_def c Ok None)
      have off: "off_chain f t" by (simp add: off_chain_def Ok None)
      have filters: "filter (\<lambda>p. \<not> (pend_run_id p = run \<and> (\<exists>c \<in> set children. fst c = pend_txid p \<and> off_chain f (fst c))))
          (filter (\<lambda>p. \<not> (pend_run_id p = run \<and> pend_txid p = t)) pending)
        = filter (\<lambda>p. \<not> (pend_run_id p = run \<and> (\<exists>c \<in> set (c # children). fst c = pend_txid p \<and> off_chain f (fst c)))) pending"
        using off by (auto simp: c intro!: filter_cong)
      have inc: "{c' \<in> set (c # children). \<not> off_chain f (fst c')} = {c' \<in> set children. \<not> off_chain f (fst c')}"
        using off by (auto simp: c)
      show ?thesis unfolding foldM.simps step obind.simps Cons.IH filters inc
        using off Ok by (simp add: c)
    next
      case (Some i)
      have step: "reset_child f run (pending, included, b) c = Ok (pending, insert k included, b)"
        by (simp add: reset_child_def c Ok Some)
      have on: "\<not> off_chain f t" by (simp add: off_chain_def Ok Some)
      have inc: "{c' \<in> set (c # children). \<not> off_chain f (fst c')} = insert c {c' \<in> set children. \<not> off_chain f (fst c')}"
        using on by (auto simp: c)
      show ?thesis unfolding foldM.simps step obind.simps Cons.IH inc
        using on Ok by (auto simp: c)
    qed
  qed (simp_all add: reset_child_def c)
qed auto

definition note_included :: "(string \<Rightarrow> (reconcile_error, chain_identity option) outcome) \<Rightarrow> string \<Rightarrow>
    pending_row list \<Rightarrow> note_row \<Rightarrow> bool" where
  "note_included f run pending n \<longleftrightarrow> (\<exists>p \<in> set pending. child_of run (to_ascii_lowercase (note_txid n)) p
     \<and> pend_note_index p = note_output_index n \<and> \<not> off_chain f (pend_txid p))"

definition lost_child :: "(string \<Rightarrow> (reconcile_error, chain_identity option) outcome) \<Rightarrow> string \<Rightarrow>
    string set \<Rightarrow> pending_row \<Rightarrow> bool" where
  "lost_child f run ts p \<longleftrightarrow> (\<exists>t \<in> ts. child_of run t p) \<and> off_chain f (pend_txid p)"

definition lost_note :: "(string \<Rightarrow> (reconcile_error, chain_identity option) outcome) \<Rightarrow> string \<Rightarrow>
    string set \<Rightarrow> pending_row list \<Rightarrow> note_row \<Rightarrow> bool" where
  "lost_note f run ts pending n \<longleftrightarrow> note_run_id n = run \<and> to_ascii_lowercase (note_txid n) \<in> ts
     \<and> \<not> note_included f run pending n"

lemma ex_results: "(\<exists>x y z. (A \<and> x = a \<and> y = b \<and> z = c) \<and> P x y \<and> Q y z) = (A \<and> P a b \<and> Q b c)"
  by blast

lemma reset_one:
  assumes keys: "distinct (map pend_txid (pending_rows db))" and lower: "to_ascii_lowercase t = t"
  shows "reset_children_of f run (db, b) t = Ok (db', b') \<longleftrightarrow>
    (\<forall>p \<in> set (pending_rows db). child_of run t p \<longrightarrow> is_ok (f (pend_txid p)))
    \<and> db' = db\<lparr>pending_rows := filter (\<lambda>p. \<not> lost_child f run {t} p) (pending_rows db),
              note_rows := map (\<lambda>n. if lost_note f run {t} (pending_rows db) n then reset_note n else n) (note_rows db)\<rparr>
    \<and> b' = (b \<or> (\<exists>p \<in> set (pending_rows db). lost_child f run {t} p)
              \<or> (\<exists>n \<in> set (note_rows db). lost_note f run {t} (pending_rows db) n))"
proof -
  let ?children = "map (\<lambda>p. (pend_txid p, pend_note_index p)) (filter (child_of run t) (pending_rows db))"
  have members: "c \<in> set ?children \<longleftrightarrow> (\<exists>p \<in> set (pending_rows db). child_of run t p
      \<and> c = (pend_txid p, pend_note_index p))" for c by auto
  have same: "q = p" if "p \<in> set (pending_rows db)" "q \<in> set (pending_rows db)" "pend_txid q = pend_txid p" for p q
    using keys that by (auto simp: distinct_map dest: inj_onD)
  have gone: "filter (\<lambda>p. \<not> (pend_run_id p = run \<and> (\<exists>c \<in> set ?children. fst c = pend_txid p \<and> off_chain f (fst c)))) (pending_rows db)
      = filter (\<lambda>p. \<not> lost_child f run {t} p) (pending_rows db)"
  proof (rule filter_cong [OF refl])
    fix p assume p: "p \<in> set (pending_rows db)"
    have "(\<exists>c \<in> set ?children. fst c = pend_txid p \<and> off_chain f (fst c)) \<longleftrightarrow> child_of run t p \<and> off_chain f (pend_txid p)"
    proof
      assume "\<exists>c \<in> set ?children. fst c = pend_txid p \<and> off_chain f (fst c)"
      then obtain q where q: "q \<in> set (pending_rows db)" "child_of run t q" "pend_txid q = pend_txid p"
        "off_chain f (pend_txid q)" by auto
      from same [OF p q(1,3)] q show "child_of run t p \<and> off_chain f (pend_txid p)" by simp
    next
      assume "child_of run t p \<and> off_chain f (pend_txid p)"
      with p show "\<exists>c \<in> set ?children. fst c = pend_txid p \<and> off_chain f (fst c)" by auto
    qed
    then show "(\<not> (pend_run_id p = run \<and> (\<exists>c \<in> set ?children. fst c = pend_txid p \<and> off_chain f (fst c)))) =
        (\<not> lost_child f run {t} p)"
      by (auto simp: lost_child_def child_of_def)
  qed
  have included: "snd ` {c \<in> set ?children. \<not> off_chain f (fst c)} =
      {pend_note_index p | p. p \<in> set (pending_rows db) \<and> child_of run t p \<and> \<not> off_chain f (pend_txid p)}"
    by force
  have reset: "note_run_id n = run \<and> to_ascii_lowercase (note_txid n) = t
      \<and> note_output_index n \<notin> snd ` {c \<in> set ?children. \<not> off_chain f (fst c)} \<longleftrightarrow>
      lost_note f run {t} (pending_rows db) n" for n
    unfolding included by (auto simp: lost_note_def note_included_def)
  have children: "(\<exists>c \<in> set ?children. off_chain f (fst c)) \<longleftrightarrow> (\<exists>p \<in> set (pending_rows db). lost_child f run {t} p)"
    "(\<forall>c \<in> set ?children. is_ok (f (fst c))) \<longleftrightarrow>
       (\<forall>p \<in> set (pending_rows db). child_of run t p \<longrightarrow> is_ok (f (pend_txid p)))"
    by (auto simp: lost_child_def)
  have "reset_children_of f run (db, b) t =
      obind (foldM (reset_child f run) (pending_rows db, {}, b) ?children)
       (\<lambda>(pending, included, reset_any').
         let is_reset = (\<lambda>n. note_run_id n = run \<and> to_ascii_lowercase (note_txid n) = t
                           \<and> note_output_index n \<notin> included)
         in Ok (db\<lparr>pending_rows := pending,
                   note_rows := map (\<lambda>n. if is_reset n then reset_note n else n) (note_rows db)\<rparr>,
                reset_any' \<or> list_ex is_reset (note_rows db)))"
    by (simp add: reset_children_of_def Let_def lower child_of_def [abs_def])
  then have "reset_children_of f run (db, b) t = Ok (db', b') \<longleftrightarrow>
      (\<exists>pending included c. foldM (reset_child f run) (pending_rows db, {}, b) ?children = Ok (pending, included, c)
        \<and> db' = db\<lparr>pending_rows := pending,
             note_rows := map (\<lambda>n. if note_run_id n = run \<and> to_ascii_lowercase (note_txid n) = t
                 \<and> note_output_index n \<notin> included then reset_note n else n) (note_rows db)\<rparr>
        \<and> b' = (c \<or> (\<exists>n \<in> set (note_rows db). note_run_id n = run \<and> to_ascii_lowercase (note_txid n) = t
                 \<and> note_output_index n \<notin> included)))"
    by (auto simp: obind_eq_Ok Let_def list_ex_iff)
  also have "\<dots> \<longleftrightarrow> (\<forall>c \<in> set ?children. is_ok (f (fst c)))
    \<and> db' = db\<lparr>pending_rows := filter (\<lambda>p. \<not> lost_child f run {t} p) (pending_rows db),
             note_rows := map (\<lambda>n. if note_run_id n = run \<and> to_ascii_lowercase (note_txid n) = t
                 \<and> note_output_index n \<notin> snd ` {c \<in> set ?children. \<not> off_chain f (fst c)} then reset_note n else n) (note_rows db)\<rparr>
    \<and> b' = ((b \<or> (\<exists>c \<in> set ?children. off_chain f (fst c)))
          \<or> (\<exists>n \<in> set (note_rows db). note_run_id n = run \<and> to_ascii_lowercase (note_txid n) = t
                 \<and> note_output_index n \<notin> snd ` {c \<in> set ?children. \<not> off_chain f (fst c)}))"
    unfolding reset_child_fold gone Un_empty_left by (rule ex_results)
  finally show ?thesis unfolding children reset by (simp only: disj_assoc)
qed

lemma lost_child_union: "lost_child f run (insert t ts) p \<longleftrightarrow> lost_child f run {t} p \<or> lost_child f run ts p"
  by (auto simp: lost_child_def)

lemma included_filter:
  "note_included f run (filter (\<lambda>p. \<not> lost_child f run ts p) pending) n = note_included f run pending n"
  by (auto simp: note_included_def lost_child_def)

lemma lost_note_filter:
  "lost_note f run ts (filter (\<lambda>p. \<not> lost_child f run ts' p) pending) n = lost_note f run ts pending n"
  by (simp add: lost_note_def included_filter)

lemma lost_note_union:
  "lost_note f run (insert t ts) pending n \<longleftrightarrow> lost_note f run {t} pending n \<or> lost_note f run ts pending n"
  by (auto simp: lost_note_def)

lemma lost_note_reset [simp]: "lost_note f run ts pending (reset_note n) = lost_note f run ts pending n"
  by (simp add: lost_note_def note_included_def reset_note_def)

lemma reset_note_twice [simp]: "reset_note (reset_note n) = reset_note n"
  by (simp add: reset_note_def)

lemma reset_fold:
  assumes "distinct (map pend_txid (pending_rows db))" and "\<forall>t \<in> set ts. to_ascii_lowercase t = t"
  shows "foldM (reset_children_of f run) (db, b) ts = Ok (db', b') \<longleftrightarrow>
    (\<forall>p \<in> set (pending_rows db). (\<exists>t \<in> set ts. child_of run t p) \<longrightarrow> is_ok (f (pend_txid p)))
    \<and> db' = db\<lparr>pending_rows := filter (\<lambda>p. \<not> lost_child f run (set ts) p) (pending_rows db),
              note_rows := map (\<lambda>n. if lost_note f run (set ts) (pending_rows db) n then reset_note n else n) (note_rows db)\<rparr>
    \<and> b' = (b \<or> (\<exists>p \<in> set (pending_rows db). lost_child f run (set ts) p)
              \<or> (\<exists>n \<in> set (note_rows db). lost_note f run (set ts) (pending_rows db) n))"
  using assms
proof (induction ts arbitrary: db b)
  case Nil
  have none: "lost_child f run {} p = False" "lost_note f run {} pending n = False" for p pending n
    by (auto simp: lost_child_def lost_note_def)
  show ?case by (auto simp: none)
next
  case (Cons t ts)
  let ?db = "db\<lparr>pending_rows := filter (\<lambda>p. \<not> lost_child f run {t} p) (pending_rows db),
              note_rows := map (\<lambda>n. if lost_note f run {t} (pending_rows db) n then reset_note n else n) (note_rows db)\<rparr>"
  let ?b = "b \<or> (\<exists>p \<in> set (pending_rows db). lost_child f run {t} p)
              \<or> (\<exists>n \<in> set (note_rows db). lost_note f run {t} (pending_rows db) n)"
  have lower: "to_ascii_lowercase t = t" "\<forall>t \<in> set ts. to_ascii_lowercase t = t" using Cons.prems(2) by simp_all
  have keys: "distinct (map pend_txid (pending_rows ?db))" using Cons.prems(1) by (simp add: distinct_map_filter)
  have unfold: "foldM (reset_children_of f run) (db, b) (t # ts) = Ok (db', b') \<longleftrightarrow>
      (\<forall>p \<in> set (pending_rows db). child_of run t p \<longrightarrow> is_ok (f (pend_txid p)))
      \<and> foldM (reset_children_of f run) (?db, ?b) ts = Ok (db', b')"
  proof (cases "reset_children_of f run (db, b) t")
    case (Ok st)
    obtain d c where st: "st = (d, c)" by (cases st)
    show ?thesis using reset_one [OF Cons.prems(1) lower(1), of f run b d c] Ok st by auto
  next
    case (Err e)
    show ?thesis using reset_one [OF Cons.prems(1) lower(1), of f run b ?db ?b] Err by auto
  next
    case Panic
    show ?thesis using reset_one [OF Cons.prems(1) lower(1), of f run b ?db ?b] Panic by auto
  qed
  have reads: "(\<forall>p \<in> set (pending_rows ?db). (\<exists>t \<in> set ts. child_of run t p) \<longrightarrow> is_ok (f (pend_txid p))) \<longleftrightarrow>
      (\<forall>p \<in> set (pending_rows db). (\<exists>t \<in> set ts. child_of run t p) \<longrightarrow> is_ok (f (pend_txid p)))"
    by (auto simp: lost_child_def off_chain_def)
  have pending_tables: "filter (\<lambda>p. \<not> lost_child f run (set ts) p) (pending_rows ?db) =
      filter (\<lambda>p. \<not> lost_child f run (set (t # ts)) p) (pending_rows db)"
    by (auto simp: lost_child_union [of f run t "set ts"] intro!: filter_cong)
  have note_tables: "map (\<lambda>n. if lost_note f run (set ts) (pending_rows ?db) n then reset_note n else n) (note_rows ?db) =
      map (\<lambda>n. if lost_note f run (set (t # ts)) (pending_rows db) n then reset_note n else n) (note_rows db)"
    by (simp add: lost_note_filter lost_note_union [of f run t "set ts"])
  have flag: "(?b \<or> (\<exists>p \<in> set (pending_rows ?db). lost_child f run (set ts) p)
              \<or> (\<exists>n \<in> set (note_rows ?db). lost_note f run (set ts) (pending_rows ?db) n)) \<longleftrightarrow>
      (b \<or> (\<exists>p \<in> set (pending_rows db). lost_child f run (set (t # ts)) p)
              \<or> (\<exists>n \<in> set (note_rows db). lost_note f run (set (t # ts)) (pending_rows db) n))"
    unfolding lost_child_union [of f run t "set ts", folded list.simps(15)] lost_note_union [of f run t "set ts", folded list.simps(15)]
    by (auto simp: lost_note_filter)
  show ?case
    unfolding unfold Cons.IH [OF keys lower(2)] reads pending_tables note_tables flag by auto
qed

end
