(* ===== verification/ReconcileTheorems.thy ===== *)
theory ReconcileTheorems
  imports ReconcileCorrect
begin

text \<open>
  What \<open>reconcile_denomination_stage_chain_state\<close> does to the database: every stage of a live
  run ends in the state its own specification (\<open>reconciled_row\<close>) gives, a repeated call changes
  nothing, and the children of affected denominations that are not on the chain are removed.
\<close>

section \<open>The frame of the child reset\<close>

lemma reset_children_frame:
  "reset_children_of f run (db, b) t = Ok (db', b') \<Longrightarrow> stages_db db' = stages_db db \<and> run_rows db' = run_rows db"
  by (auto simp: reset_children_of_def outcome_simps Let_def)

lemma reset_fold_frame:
  "foldM (reset_children_of f run) (db, b) ts = Ok (db', b') \<Longrightarrow>
     stages_db db' = stages_db db \<and> run_rows db' = run_rows db"
proof (induction ts arbitrary: db b)
  case (Cons t ts)
  then obtain d c where "reset_children_of f run (db, b) t = Ok (d, c)"
    "foldM (reset_children_of f run) (d, c) ts = Ok (db', b')" by (auto simp: obind_eq_Ok)
  with Cons.IH [of d c] reset_children_frame [of f run db b t d c] show ?case by simp
qed simp

text \<open>The run rows after the reset: the run keeps its key, its policies and stays live.\<close>

definition same_run :: "run_row \<Rightarrow> run_row \<Rightarrow> bool" where
  "same_run r r' \<longleftrightarrow> run_key r' = run_key r \<and> run_network r' = run_network r
     \<and> run_timing_policy r' = run_timing_policy r \<and> run_preparation_policy r' = run_preparation_policy r
     \<and> (migration_phase_releases_wallet_locks (run_phase r') = migration_phase_releases_wallet_locks (run_phase r))"

lemma same_run_refl: "same_run r r"
  by (simp add: same_run_def)

lemma waiting_live: "\<not> migration_phase_releases_wallet_locks PHASE_WAITING_DENOM_CONFIRMATIONS"
  by (simp add: migration_phase_releases_wallet_locks_def phase_names)

lemma find_map_key:
  "(\<And>x. key (g x) = key x) \<Longrightarrow> List.find (\<lambda>x. key x = k) (map g xs) = map_option g (List.find (\<lambda>x. key x = k) xs)"
  by (induction xs) auto

lemma reset_run_kept:
  assumes "tables_exist (stages_db db)" and "find_run db run = Some r"
    and "reset_migration_children_for_reorged_denominations f now run ts db = (res, db1)"
  shows "stages_db db1 = stages_db db \<and> (\<exists>r'. find_run db1 run = Some r' \<and> same_run r r')"
proof -
  have schema: "db\<lparr>stages_db := ensure_schema (stages_db db)\<rparr> = db"
    using assms(1) by (simp add: ensure_schema_def)
  consider "db1 = db" | d b where "foldM (reset_children_of f run) (db, False) ts = Ok (d, b)" "db1 = d \<or> db1 = d\<lparr>run_rows :=
      map (\<lambda>r. if live_run run r then (wait_for_confirmations now r)\<lparr>run_proof_retry_height := None\<rparr> else r) (run_rows d)\<rparr>"
    using assms(2,3) unfolding reset_migration_children_for_reorged_denominations_def schema
    by (auto simp: find_run_def schema split: if_splits outcome.splits option.splits)
  then show ?thesis
  proof cases
    case 1
    then show ?thesis using assms(2) same_run_refl by auto
  next
    case 2
    let ?g = "\<lambda>r. if live_run run r then (wait_for_confirmations now r)\<lparr>run_proof_retry_height := None\<rparr> else r"
    from reset_fold_frame [OF 2(1)] have frame: "stages_db d = stages_db db" "run_rows d = run_rows db" by simp_all
    have "List.find (\<lambda>r. run_key r = run) (map ?g (run_rows db)) = map_option ?g (List.find (\<lambda>r. run_key r = run) (run_rows db))"
      by (rule find_map_key) (simp add: wait_for_confirmations_def)
    then have "find_run (d\<lparr>run_rows := map ?g (run_rows d)\<rparr>) run = Some (?g r)"
      using assms(2) by (simp add: find_run_def frame)
    moreover have "same_run r (?g r)"
      using waiting_live by (simp add: same_run_def live_run_def wait_for_confirmations_def)
    moreover have "find_run d run = Some r" using assms(2) by (simp add: find_run_def frame)
    ultimately show ?thesis using 2(2) frame same_run_refl by auto
  qed
qed

section \<open>The second transaction\<close>

lemma recovered_known:
  "set (recovered_pending (classify_records current recs)) \<subseteq> record_txid ` set recs"
proof (induction recs rule: rev_induct)
  case (snoc r recs)
  have "set (recovered_pending (classify current p r)) \<subseteq> insert (record_txid r) (set (recovered_pending p))" for p
    by (cases "chain_status r"; cases "current (record_txid r)") (auto simp: classify_def Let_def)
  with snoc show ?case by (fastforce simp: classify_records_snoc)
qed (simp add: classify_records_snoc no_reorg_def)

lemma still_pending_total:
  assumes "set ts \<subseteq> run_txids db run" and "db_ok db"
  shows "\<exists>bs. mapM (still_pending db run) ts = Ok bs"
  by (rule mapM_total)
    (use assms run_txids_found [OF assms(2)] in \<open>fastforce simp: still_pending_def ok_or_def split: option.splits\<close>)

text \<open>The stage table a reconciliation leaves, up to the broadcast heights that are drawn again.\<close>

definition reconciled_rows :: "string \<Rightarrow> chain_view \<Rightarrow> stage_db \<Rightarrow> stage_row list" where
  "reconciled_rows run current db = map (\<lambda>r. if row_run_id r = run
     then reconciled_row current (affected_stages db run current) r else r) (stage_rows db)"

lemma record_chain_state_rows:
  assumes ok: "db_ok (stages_db db)" and recs: "list_all2 (has_record (stages_db db)) (rows_of_run run (stages_db db)) recs"
    and view: "view_ok current"
    and run: "record_chain_state G run (reorg_plan_of current recs) context rng db = Some (Ok (Some db'))"
  shows "db_ok (stages_db db') \<and> list_all2 rescheduled (reconciled_rows run current (stages_db db)) (stage_rows (stages_db db'))
    \<and> input_rows (stages_db db') = input_rows (stages_db db) \<and> output_rows (stages_db db') = output_rows (stages_db db)"
proof -
  from apply_plan_of_rows [OF ok recs view] obtain d where
    d: "apply_plan run (reorg_plan_of current recs) (stages_db db) = Ok d" "same_other (stages_db db) d"
    "stage_rows d = reconciled_rows run current (stages_db db)" by (auto simp: reconciled_rows_def)
  consider "stages_db db' = d"
    | n prep_col time_col network tip where
      "rerandomize_remaining_preparation_broadcast_heights G prep_col time_col run network tip rng d = Some (Ok (n, stages_db db'))"
    using run by (auto simp: record_chain_state_def outcome_simps d(1) split: if_splits option.splits bool.splits)
  then show ?thesis
  proof cases
    case 1
    then show ?thesis using d by (simp add: same_other_def list_all2_same rescheduled_refl)
  next
    case 2
    have "db_ok d" using d(2) by (simp add: same_other_def)
    from rerandomize_keeps [OF 2 this] d show ?thesis by (simp add: same_other_def)
  qed
qed

lemma record_chain_state_total:
  assumes ok: "db_ok (stages_db db)" and recs: "list_all2 (has_record (stages_db db)) (rows_of_run run (stages_db db)) recs"
    and view: "view_ok current"
    and live: "find_run db run = Some r" "\<not> migration_phase_releases_wallet_locks (run_phase r)"
  shows "\<exists>d. record_chain_state G run (reorg_plan_of current recs) None rng db = Some (Ok (Some (db\<lparr>stages_db := d\<rparr>)))
    \<and> stage_rows d = reconciled_rows run current (stages_db db)"
proof -
  have "record_txid ` set recs = run_txids (stages_db db) run"
    using list_all2_image [OF recs, of row_txid record_txid]
    by (simp add: has_record_def run_txids_def set_rows_of_run)
  then have "set (sort (recovered_pending (reorg_plan_of current recs))) \<subseteq> run_txids (stages_db db) run"
    using recovered_known [of current recs] by (simp add: reorg_plan_sets)
  from still_pending_total [OF this ok] obtain bs where
    bs: "mapM (still_pending (stages_db db) run) (sort (recovered_pending (reorg_plan_of current recs))) = Ok bs" ..
  from apply_plan_of_rows [OF ok recs view] obtain d where
    "apply_plan run (reorg_plan_of current recs) (stages_db db) = Ok d"
    "stage_rows d = reconciled_rows run current (stages_db db)" by (auto simp: reconciled_rows_def)
  with bs live show ?thesis
    by (intro exI [of _ d]) (simp add: record_chain_state_def dbind_def ok_or_def split: bool.splits)
qed

section \<open>The reconciliation\<close>

lemma view_ensure [simp]:
  "run_txids (ensure_schema db) run = run_txids db run"
  "stage_view W (ensure_schema db) run = stage_view W db run"
  "changed_stages (ensure_schema db) run current = changed_stages db run current"
  "spending (ensure_schema db) run = spending db run"
  "affected_stages (ensure_schema db) run current = affected_stages db run current"
  "reconciled_rows run current (ensure_schema db) = reconciled_rows run current db"
  by (simp_all add: run_txids_def stage_view_def changed_stages_def spending_def affected_stages_def reconciled_rows_def fun_eq_iff)

lemma mark_waiting_stages [simp]: "stages_db (mark_waiting now run db) = stages_db db"
  by (simp add: mark_waiting_def)

lemma nothing_to_write:
  assumes ok: "db_ok db" and recs: "list_all2 (has_record db) (rows_of_run run db) recs" and view: "view_ok current"
    and none: "invalid_stages (reorg_plan_of current recs) = []" "identities_to_record (reorg_plan_of current recs) = []"
  shows "reconciled_rows run current db = stage_rows db"
  using apply_plan_of_rows [OF ok recs view] none by (auto simp: apply_plan_def reconciled_rows_def)

lemma plan_Ok:
  assumes ok: "db_ok (stages_db db)" and plan: "plan_reconciliation W run tip sync_tip db = Ok (p, ctx)"
  shows "\<exists>recs. list_all2 (has_record (stages_db db)) (rows_of_run run (stages_db db)) recs
    \<and> p = reorg_plan_of (stage_view W (stages_db db) run) recs"
proof -
  from records_of_run [OF ok] obtain recs where
    recs: "denomination_stage_chain_records (stages_db db) run = Ok recs"
    "list_all2 (has_record (stages_db db)) (rows_of_run run (stages_db db)) recs" by blast
  from plan obtain current where
    "current_identities (local_denomination_chain_identity W) recs = Ok current" "p = reorg_plan_of current recs"
    by (auto simp: plan_reconciliation_def recs(1) obind_eq_Ok Let_def)
  with recs(2) current_identities_view [OF ok recs(2), of W current] show ?thesis by blast
qed

lemma reset_affected_kept:
  assumes "tables_exist (stages_db db)" and "find_run db run = Some r"
    and "reset_affected_children W now run p db = (res, db1)"
  shows "stages_db db1 = stages_db db \<and> (\<exists>r'. find_run db1 run = Some r' \<and> same_run r r')"
proof (cases "affected p = []")
  case True
  then show ?thesis using assms(2,3) same_run_refl by (auto simp: reset_affected_children_def)
next
  case False
  with assms(3) show ?thesis
    by (intro reset_run_kept [OF assms(1,2)]) (simp add: reset_affected_children_def)
qed

lemma commit_stages:
  assumes ok: "db_ok (stages_db db)" and exist: "tables_exist (stages_db db)"
    and live: "find_run db run = Some r" "\<not> migration_phase_releases_wallet_locks (run_phase r)"
    and recs: "list_all2 (has_record (stages_db db)) (rows_of_run run (stages_db db)) recs" and view: "view_ok current"
    and run: "commit_reconciliation G W now run (reorg_plan_of current recs) ctx rng db = Some (Ok (), db')"
  shows "db_ok (stages_db db') \<and> list_all2 rescheduled (reconciled_rows run current (stages_db db)) (stage_rows (stages_db db'))
    \<and> input_rows (stages_db db') = input_rows (stages_db db) \<and> output_rows (stages_db db') = output_rows (stages_db db)"
proof -
  let ?p = "reorg_plan_of current recs"
  obtain res db1 where reset: "reset_affected_children W now run ?p db = (res, db1)" by fastforce
  from reset_affected_kept [OF exist live(1) reset] obtain r' where
    db1: "stages_db db1 = stages_db db" "find_run db1 run = Some r'" "same_run r r'" by blast
  have ok1: "db_ok (stages_db db1)" and recs1: "list_all2 (has_record (stages_db db1)) (rows_of_run run (stages_db db1)) recs"
    using ok recs by (simp_all add: db1)
  show ?thesis
  proof (cases "invalid_stages ?p = [] \<and> identities_to_record ?p = []")
    case True
    then have "stages_db db' = stages_db db1"
      using run by (auto simp: commit_reconciliation_def reset split: outcome.splits if_splits)
    then show ?thesis
      using nothing_to_write [OF ok1 recs1 view] True ok1 by (simp add: list_all2_same rescheduled_refl db1)
  next
    case False
    have "record_chain_state G run ?p ctx rng db1 \<noteq> Some (Ok None)"
      using db1(2,3) live(2)
      by (auto simp: record_chain_state_def same_run_def outcome_simps split: option.splits bool.splits)
    then obtain db2 where db2: "record_chain_state G run ?p ctx rng db1 = Some (Ok (Some db2))"
      "stages_db db' = stages_db db2"
      using run False
      by (cases "record_chain_state G run ?p ctx rng db1")
        (auto simp: commit_reconciliation_def reset split: outcome.splits option.splits if_splits)
    from record_chain_state_rows [OF ok1 recs1 view db2(1)] show ?thesis
      unfolding db2(2) db1(1) .
  qed
qed

lemma reconcile_stages:
  assumes ok: "db_ok (stages_db db)"
    and live: "find_run db run = Some r" "\<not> migration_phase_releases_wallet_locks (run_phase r)"
    and run: "reconcile_denomination_stage_chain_state G W now run tip sync_tip rng db = Some (Ok (), db')"
  shows "db_ok (stages_db db')
    \<and> list_all2 rescheduled (reconciled_rows run (stage_view W (stages_db db) run) (stages_db db)) (stage_rows (stages_db db'))
    \<and> input_rows (stages_db db') = input_rows (stages_db db) \<and> output_rows (stages_db db') = output_rows (stages_db db)"
proof -
  let ?db = "db\<lparr>stages_db := ensure_schema (stages_db db)\<rparr>"
  from run obtain p ctx where plan: "plan_reconciliation W run tip sync_tip ?db = Ok (p, ctx)"
    and commit: "commit_reconciliation G W now run p ctx rng ?db = Some (Ok (), db')"
    by (auto simp: reconcile_denomination_stage_chain_state_def Let_def split: outcome.splits)
  from plan_Ok [OF _ plan] ok obtain recs where
    recs: "list_all2 (has_record (stages_db ?db)) (rows_of_run run (stages_db ?db)) recs"
    and p: "p = reorg_plan_of (stage_view W (stages_db ?db) run) recs" by auto
  have "find_run ?db run = Some r" using live(1) by (simp add: find_run_def)
  from commit_stages [OF _ _ this live(2) recs stage_view_ok commit [unfolded p]] ok show ?thesis by simp
qed

section \<open>When the reconciliation returns\<close>

definition children_readable :: "(string \<Rightarrow> (reconcile_error, chain_identity option) outcome) \<Rightarrow> migration_db \<Rightarrow> string \<Rightarrow> bool" where
  "children_readable f db run \<longleftrightarrow> distinct (map pend_txid (pending_rows db))
     \<and> (\<forall>p \<in> set (pending_rows db). pend_run_id p = run \<longrightarrow> is_ok (f (pend_txid p)))"

lemma lost_child_none: "lost_child f run {} p = False" "lost_note f run {} pending n = False"
  by (auto simp: lost_child_def lost_note_def)

lemma reset_children_rows:
  assumes read: "children_readable f db run" and lower: "\<forall>t \<in> set ts. to_ascii_lowercase t = t"
    and live: "find_run db run = Some r" "\<not> migration_phase_releases_wallet_locks (run_phase r)"
  shows "\<exists>b db'. reset_migration_children_for_reorged_denominations f now run ts db = (Ok b, db')
    \<and> pending_rows db' = filter (\<lambda>p. \<not> lost_child f run (set ts) p) (pending_rows db)
    \<and> note_rows db' = map (\<lambda>n. if lost_note f run (set ts) (pending_rows db) n then reset_note n else n) (note_rows db)
    \<and> (b \<longleftrightarrow> (\<exists>p \<in> set (pending_rows db). lost_child f run (set ts) p)
         \<or> (\<exists>n \<in> set (note_rows db). lost_note f run (set ts) (pending_rows db) n))
    \<and> (b \<longrightarrow> map_option run_phase (find_run db' run) = Some PHASE_WAITING_DENOM_CONFIRMATIONS)"
proof (cases "ts = []")
  case True
  then show ?thesis
    by (intro exI [of _ False] exI [of _ db])
      (simp add: reset_migration_children_for_reorged_denominations_def lost_child_none)
next
  case False
  let ?db = "db\<lparr>stages_db := ensure_schema (stages_db db)\<rparr>"
  let ?d = "?db\<lparr>pending_rows := filter (\<lambda>p. \<not> lost_child f run (set ts) p) (pending_rows db),
              note_rows := map (\<lambda>n. if lost_note f run (set ts) (pending_rows db) n then reset_note n else n) (note_rows db)\<rparr>"
  let ?b = "(\<exists>p \<in> set (pending_rows db). lost_child f run (set ts) p)
              \<or> (\<exists>n \<in> set (note_rows db). lost_note f run (set ts) (pending_rows db) n)"
  have "foldM (reset_children_of f run) (?db, False) ts = Ok (?d, ?b)"
    using read by (subst reset_fold [OF _ lower]) (auto simp: children_readable_def child_of_def)
  moreover have found: "find_run ?db run = Some r" using live(1) by (simp add: find_run_def)
  ultimately have result: "reset_migration_children_for_reorged_denominations f now run ts db =
      (Ok ?b, if ?b then ?d\<lparr>run_rows :=
         map (\<lambda>r. if live_run run r then (wait_for_confirmations now r)\<lparr>run_proof_retry_height := None\<rparr> else r) (run_rows db)\<rparr> else ?d)"
    using False live(2) by (simp add: reset_migration_children_for_reorged_denominations_def)
  have "run_key r = run" using live(1) by (auto simp: find_run_def find_Some_iff)
  then have "map_option run_phase (map_option (\<lambda>r. if live_run run r
      then (wait_for_confirmations now r)\<lparr>run_proof_retry_height := None\<rparr> else r) (find_run db run))
      = Some PHASE_WAITING_DENOM_CONFIRMATIONS"
    using live by (simp add: live_run_def wait_for_confirmations_def)
  moreover have "List.find (\<lambda>r. run_key r = run) (map (\<lambda>r. if live_run run r
      then (wait_for_confirmations now r)\<lparr>run_proof_retry_height := None\<rparr> else r) (run_rows db))
      = map_option (\<lambda>r. if live_run run r then (wait_for_confirmations now r)\<lparr>run_proof_retry_height := None\<rparr> else r)
          (find_run db run)"
    unfolding find_run_def by (rule find_map_key) (simp add: wait_for_confirmations_def)
  ultimately show ?thesis unfolding result
    by - (rule exI [of _ ?b], rule exI, rule conjI, rule refl, simp add: find_run_def)
qed

lemma no_recovery:
  assumes "find_run db run = Some r" "preparation_policy_from_str (run_preparation_policy r) = Ok Immediate"
  shows "recovery_context db run p tip sync_tip = Ok None"
  using assms by (simp add: recovery_context_def ok_or_def)

lemma reconcile_total:
  assumes ok: "db_ok (stages_db db)"
    and live: "find_run db run = Some r" "\<not> migration_phase_releases_wallet_locks (run_phase r)"
    and policy: "preparation_policy_from_str (run_preparation_policy r) = Ok Immediate"
    and stages: "\<forall>t \<in> run_txids (stages_db db) run. is_ok (local_denomination_chain_identity W t)"
    and children: "children_readable (local_denomination_chain_identity W) db run"
  shows "\<exists>db'. reconcile_denomination_stage_chain_state G W now run tip sync_tip rng db = Some (Ok (), db')
    \<and> stage_rows (stages_db db') = reconciled_rows run (stage_view W (stages_db db) run) (stages_db db)"
proof -
  let ?db = "db\<lparr>stages_db := ensure_schema (stages_db db)\<rparr>" and ?view = "stage_view W (stages_db db) run"
  have ok': "db_ok (stages_db ?db)" using ok by simp
  have found: "find_run ?db run = Some r" using live(1) by (simp add: find_run_def)
  from records_of_run [OF ok'] obtain recs where
    recs: "denomination_stage_chain_records (stages_db ?db) run = Ok recs"
    "list_all2 (has_record (stages_db ?db)) (rows_of_run run (stages_db ?db)) recs" by blast
  let ?p = "reorg_plan_of ?view recs"
  have "current_identities (local_denomination_chain_identity W) recs = Ok ?view"
    using current_identities_view [OF ok' recs(2), of W ?view] stages by simp
  then have plan: "plan_reconciliation W run tip sync_tip ?db = Ok (?p, None)"
    using no_recovery [OF found policy] by (simp add: plan_reconciliation_def recs(1) [simplified])
  have lower: "\<forall>t \<in> set (sort (affected ?p)). to_ascii_lowercase t = t"
    using affected_known [of "stages_db ?db" run ?view] run_txids_found [OF ok']
    by (auto simp: plan_of_rows(1) [OF recs(2)])
  have "children_readable (local_denomination_chain_identity W) ?db run"
    using children by (simp add: children_readable_def)
  from reset_children_rows [OF this lower found live(2), of now] obtain b db1 where
    reset: "reset_affected_children W now run ?p ?db = (Ok b, db1)"
    by (cases "affected ?p = []") (auto simp: reset_affected_children_def)
  from reset_affected_kept [OF _ found reset] obtain r' where
    db1: "stages_db db1 = stages_db ?db" "find_run db1 run = Some r'" "same_run r r'" by auto
  have ok1: "db_ok (stages_db db1)" and recs1: "list_all2 (has_record (stages_db db1)) (rows_of_run run (stages_db db1)) recs"
    using ok' recs(2) by (simp_all add: db1)
  have live1: "\<not> migration_phase_releases_wallet_locks (run_phase r')" using db1(3) live(2) by (simp add: same_run_def)
  from record_chain_state_total [OF ok1 recs1 stage_view_ok [of W "stages_db db" run] db1(2) live1, where G = G and rng = rng] obtain d where
    d: "record_chain_state G run ?p None rng db1 = Some (Ok (Some (db1\<lparr>stages_db := d\<rparr>)))"
    "stage_rows d = reconciled_rows run ?view (stages_db db)" by (auto simp: db1)
  have commit: "\<exists>db'. commit_reconciliation G W now run ?p None rng ?db = Some (Ok (), db')
      \<and> stage_rows (stages_db db') = reconciled_rows run ?view (stages_db db)"
  proof (cases "invalid_stages ?p = [] \<and> identities_to_record ?p = []")
    case True
    then have "reconciled_rows run ?view (stages_db db) = stage_rows (stages_db db1)"
      using nothing_to_write [OF ok1 recs1 stage_view_ok] by (simp add: db1)
    with True show ?thesis by (simp add: commit_reconciliation_def reset)
  next
    case False
    then show ?thesis using d by (auto simp: commit_reconciliation_def reset)
  qed
  then show ?thesis by (simp add: reconcile_denomination_stage_chain_state_def Let_def plan)
qed

section \<open>Settled runs\<close>

text \<open>A run is settled when its stages are confirmed exactly at their present inclusions.\<close>

definition settled_row :: "chain_view \<Rightarrow> stage_row \<Rightarrow> bool" where
  "settled_row current r \<longleftrightarrow> (case current (row_txid r) of
     None \<Rightarrow> row_status r \<noteq> ''confirmed''
   | Some i \<Rightarrow> row_status r = ''confirmed'' \<and> row_mined r = Some (mined_height i) \<and> row_hash r = Some (in_block_hash i))"

lemma reconciled_settled:
  assumes "r \<in> set (stage_rows db)" "row_run_id r = run"
  shows "settled_row current (reconciled_row current (affected_stages db run current) r)"
proof (cases "current (row_txid r)")
  case None
  have "row_txid r \<in> affected_stages db run current" if "row_status r = ''confirmed''"
    using that assms None by (auto simp: affected_stages_def changed_stages_def row_changed_def)
  then show ?thesis using None by (auto simp: settled_row_def reconciled_row_def reset_row_def)
next
  case (Some i)
  then show ?thesis by (simp add: settled_row_def reconciled_row_def confirm_row_def)
qed

lemma rescheduled_settled: "rescheduled r r' \<Longrightarrow> settled_row current r' = settled_row current r"
  by (auto simp: rescheduled_def settled_row_def split: option.splits)

lemma settled_after:
  assumes rows: "list_all2 rescheduled (reconciled_rows run current db) (stage_rows db')"
    and r': "r' \<in> set (stage_rows db')" "row_run_id r' = run"
  shows "settled_row current r'"
proof -
  from list_all2_right [OF rows r'(1)] obtain q where q: "q \<in> set (reconciled_rows run current db)" "rescheduled q r'" ..
  from q(1) obtain r where r: "r \<in> set (stage_rows db)" "q = (if row_run_id r = run
      then reconciled_row current (affected_stages db run current) r else r)"
    by (auto simp: reconciled_rows_def)
  have "row_run_id q = run" using q(2) r'(2) by (auto simp: rescheduled_def)
  then have "row_run_id r = run" using r(2) by (auto simp: reconciled_row_def split: if_splits option.splits)
  with reconciled_settled [OF r(1), of run current] q(2) r(2) show ?thesis by (simp add: rescheduled_settled)
qed

lemma run_txids_after:
  assumes rows: "list_all2 rescheduled (reconciled_rows run current db) (stage_rows db')"
  shows "run_txids db' run = run_txids db run"
proof -
  have txids: "row_txid ` {r \<in> set rs. row_run_id r = run} = {t. (run, t) \<in> set (map (\<lambda>r. (row_run_id r, row_txid r)) rs)}" for rs
    by auto
  have "map (\<lambda>r. (row_run_id r, row_txid r)) (stage_rows db') = map (\<lambda>r. (row_run_id r, row_txid r)) (reconciled_rows run current db)"
    using rows by (auto simp: list_all2_conv_all_nth rescheduled_def intro!: nth_equalityI)
  then have "run_txids db' run = row_txid ` {r \<in> set (reconciled_rows run current db). row_run_id r = run}"
    unfolding run_txids_def txids by simp
  also have "\<dots> = run_txids db run"
    unfolding run_txids_def reconciled_rows_def
    by (rule run_txids_map) (simp add: reconciled_row_def split: option.splits)
  finally show ?thesis .
qed

lemma settled_plan:
  assumes recs: "list_all2 (has_record db) (rows_of_run run db) recs"
    and settled: "\<forall>r \<in> set (stage_rows db). row_run_id r = run \<longrightarrow> settled_row current r"
  shows "reorg_plan_of current recs = no_reorg"
proof -
  have same: "classify current p rec = p" if "rec \<in> set recs" for p rec
  proof -
    from list_all2_right [OF recs that] obtain r where r: "r \<in> set (rows_of_run run db)" "has_record db r rec" ..
    then have "settled_row current r" using settled by (simp add: set_rows_of_run)
    with r(2) show ?thesis
      by (cases "chain_status rec"; cases "current (record_txid rec)")
        (auto simp: settled_row_def has_record_def classify_def Let_def stored_matches_def)
  qed
  have "foldl (classify current) p rs = p" if "set rs \<subseteq> set recs" for rs p
    using that by (induction rs arbitrary: p) (simp_all add: same)
  then have records: "classify_records current recs = no_reorg" by (simp add: classify_records_def)
  have "propagate_pass current rs ([], []) = ([], [])" for rs
    by (induction rs) (simp_all add: propagate_one_def list_ex_iff)
  then have "propagate_loop current recs ([], []) = ([], [])"
    by (subst propagate_loop.simps) simp
  then show ?thesis by (simp add: reorg_plan_of_def Let_def records no_reorg_def)
qed

lemma reconcile_again:
  assumes ok: "db_ok (stages_db db)"
    and live: "find_run db run = Some r" "\<not> migration_phase_releases_wallet_locks (run_phase r)"
    and run: "reconcile_denomination_stage_chain_state G W now run tip sync_tip rng db = Some (Ok (), db')"
  shows "reconcile_denomination_stage_chain_state G' W now' run tip' sync_tip' rng' db' =
    Some (Ok (), db'\<lparr>stages_db := ensure_schema (stages_db db')\<rparr>)"
proof -
  let ?view = "stage_view W (stages_db db) run" and ?db = "db'\<lparr>stages_db := ensure_schema (stages_db db')\<rparr>"
  from reconcile_stages [OF ok live run] have ok1: "db_ok (stages_db ?db)" and
    rows: "list_all2 rescheduled (reconciled_rows run ?view (stages_db db)) (stage_rows (stages_db ?db))" by simp_all
  note txids = run_txids_after [OF rows]
  have view: "stage_view W (stages_db ?db) run = ?view" by (simp add: fun_eq_iff stage_view_def txids [simplified])
  from run obtain p ctx where "plan_reconciliation W run tip sync_tip (db\<lparr>stages_db := ensure_schema (stages_db db)\<rparr>) = Ok (p, ctx)"
    by (auto simp: reconcile_denomination_stage_chain_state_def Let_def split: outcome.splits)
  then obtain recs0 current0 where
    recs0: "denomination_stage_chain_records (ensure_schema (stages_db db)) run = Ok recs0"
    "current_identities (local_denomination_chain_identity W) recs0 = Ok current0"
    by (auto simp: plan_reconciliation_def obind_eq_Ok map_err_eq)
  have ok0: "db_ok (ensure_schema (stages_db db))" using ok by simp
  from records_of_run [OF ok0, of run] recs0(1)
  have "list_all2 (has_record (ensure_schema (stages_db db))) (rows_of_run run (ensure_schema (stages_db db))) recs0" by auto
  from current_identities_view [OF ok0 this, of W current0] recs0(2)
  have readable: "\<forall>t \<in> run_txids (stages_db db) run. is_ok (local_denomination_chain_identity W t)" by simp
  from records_of_run [OF ok1] obtain recs where
    recs: "denomination_stage_chain_records (stages_db ?db) run = Ok recs"
    "list_all2 (has_record (stages_db ?db)) (rows_of_run run (stages_db ?db)) recs" by blast
  have "current_identities (local_denomination_chain_identity W) recs = Ok ?view"
    using current_identities_view [OF ok1 recs(2), of W ?view] readable view txids by simp
  moreover have "reorg_plan_of ?view recs = no_reorg"
    by (rule settled_plan [OF recs(2)]) (use settled_after [OF rows] in blast)
  ultimately have "plan_reconciliation W run tip' sync_tip' ?db = Ok (no_reorg, None)"
    by (simp add: plan_reconciliation_def recs(1) [simplified] recovery_context_def no_reorg_def)
  then show ?thesis
    by (simp add: reconcile_denomination_stage_chain_state_def Let_def commit_reconciliation_def
        reset_affected_children_def no_reorg_def)
qed

end
