(* ===== verification/ReconcileProperties.thy ===== *)
theory ReconcileProperties
  imports ReconcileTheorems
begin

text \<open>
  The properties of the reconciliation, each with a run of a small database as its witness: one
  preparation stage recorded as confirmed whose transaction the chain no longer knows, with a
  child that spends its output.
\<close>

definition demo_txid :: "char \<Rightarrow> string" where
  "demo_txid c = replicate 64 c"

definition demo_row :: stage_row where
  "demo_row = \<lparr>row_run_id = ''r'', row_stage_index = 0, row_base = [], row_sigs = [], row_raw = None,
     row_txid = demo_txid CHR ''a'', row_target = 90, row_scheduled = 95, row_not_before = None,
     row_attempted = 0, row_expiry = 140, row_fee = 10000, row_mined = Some 100,
     row_hash = Some (replicate 32 0), row_status = ''confirmed''\<rparr>"

definition demo_stages :: stage_db where
  "demo_stages =
     \<lparr>tables_exist = True, stage_rows = [demo_row],
      input_rows = [\<lparr>irow_run_id = ''r'', irow_stage_index = 0, irow_order = 0, irow_txid = demo_txid CHR ''b'',
         irow_output_index = 0, irow_value = 7000000, irow_version = 3, irow_nullifier = None\<rparr>],
      output_rows = [\<lparr>orow_run_id = ''r'', orow_stage_index = 0, orow_order = 0, orow_output_index = 0,
         orow_value = 6990000, orow_version = 3, orow_kind = ''change'', orow_part_index = None\<rparr>]\<rparr>"

definition demo_run :: run_row where
  "demo_run = \<lparr>run_key = ''r'', run_account = ''a'', run_network = ''main'', run_phase = ''migrating'',
     run_created_at_ms = 0, run_updated_at_ms = 0, run_targets = [], run_schedule = [],
     run_timing_policy = ''standard'', run_preparation_policy = ''immediate'',
     run_proof_retry_height = None, run_signed_origin = None, run_rebased_origin = None,
     run_recovery_origin = None, run_recovery_max_offset = None, run_last_error = None\<rparr>"

definition demo_child :: pending_row where
  "demo_child = \<lparr>pend_run_id = ''r'', pend_txid = demo_txid CHR ''c'', pend_part_index = Some 0,
     pend_raw = [], pend_target_height = 100, pend_anchor_height = None, pend_expiry_height = 200,
     pend_value = 6980000, pend_fee = 10000, pend_note_txid = demo_txid CHR ''A'', pend_note_index = 0,
     pend_note_value = 6990000, pend_scheduled_at_ms = 0, pend_start_height = Some 100,
     pend_scheduled_height = 110, pend_original_height = Some 110, pend_rebuild_offset = None,
     pend_attempted = 0, pend_status = ''scheduled'', pend_metadata = []\<rparr>"

definition demo_db :: migration_db where
  "demo_db = \<lparr>stages_db = demo_stages, run_rows = [demo_run], pending_rows = [demo_child], note_rows = [],
     signed_rows = []\<rparr>"

text \<open>A chain whose tables exist and hold no transaction of the wallet.\<close>

definition bare_chain :: wallet_chain where
  "bare_chain = \<lparr>has_transactions = True, has_block_identity = True, has_raw_column = True,
     has_scan_queue = True, tx_block = (\<lambda>blob. None), tx_raw = (\<lambda>blob. None),
     block_hash_at = (\<lambda>h. None), scanned_ranges = []\<rparr>"

definition no_draws :: "unit rng_env" where
  "no_draws = \<lparr>next_u64 = (\<lambda>u. (0, u)), delay_of = (\<lambda>n mean. 0), shuffle_perm = (\<lambda>u n. ([0..<n], u))\<rparr>"

lemma demo_hex: "stored_txid (demo_txid CHR ''a'')" "stored_txid (demo_txid CHR ''b'')"
  by code_simp+

lemma demo_ok: "db_ok demo_stages"
  by (simp add: demo_stages_def demo_row_def db_ok_def stage_table_ok_def input_table_ok_def output_table_ok_def links_ok_def
      demo_hex stage_check_def output_check_def stage_columns_ok_def input_columns_ok_def output_columns_ok_def
      input_stage_def output_stage_def stage_key_def u32_max_def)

lemma demo_found: "find_run demo_db ''r'' = Some demo_run" "\<not> migration_phase_releases_wallet_locks (run_phase demo_run)"
  "preparation_policy_from_str (run_preparation_policy demo_run) = Ok Immediate"
  "db_ok (stages_db demo_db)"
  by (simp_all add: find_run_def demo_db_def demo_run_def demo_ok migration_phase_releases_wallet_locks_def
      phase_names preparation_policy_from_str_def)

lemma demo_ids:
  "local_denomination_chain_identity bare_chain (demo_txid CHR ''a'') = Ok None"
  "local_denomination_chain_identity bare_chain (demo_txid CHR ''c'') = Ok None"
  by code_simp+

lemma demo_readable:
  "\<forall>t \<in> run_txids (stages_db demo_db) ''r''. is_ok (local_denomination_chain_identity bare_chain t)"
  "children_readable (local_denomination_chain_identity bare_chain) demo_db ''r''"
  by (simp_all add: run_txids_def demo_db_def demo_stages_def demo_row_def demo_child_def children_readable_def demo_ids)

lemma demo_view: "stage_view bare_chain (stages_db demo_db) ''r'' = (\<lambda>t. None)"
  by (auto simp: fun_eq_iff stage_view_def run_txids_def demo_db_def demo_stages_def demo_row_def demo_ids)

lemma demo_lower: "to_ascii_lowercase (demo_txid CHR ''A'') = demo_txid CHR ''a''"
  "to_ascii_lowercase (demo_txid CHR ''a'') = demo_txid CHR ''a''"
  by code_simp+

section \<open>The affected stages\<close>

text \<open>
  C17: The loop of the reconciliation computes the transitive closure: the affected stages are
  those reachable from a changed confirmed stage by spending outputs, and the stages to reset
  are the affected ones that are not on the chain.
\<close>

theorem reorg_affected_is_closure:
  "set (affected (reorg_plan_of current records)) = (spends records)\<^sup>* `` roots current records
   \<and> set (invalid_stages (reorg_plan_of current records)) =
       {t \<in> (spends records)\<^sup>* `` roots current records. current t = None}"
  using reorg_plan_sets by blast

section \<open>The children\<close>

text \<open>
  C18: Resetting the children of affected denominations removes exactly the pending transactions
  that spend one of their outputs and are not on the chain, unlocks exactly the prepared notes
  whose child is not on the chain, reports whether anything changed, and if so sends the run
  back to waiting for confirmations.
\<close>

theorem reset_children_exact:
  assumes "children_readable f db run" and "\<forall>t \<in> set ts. to_ascii_lowercase t = t"
    and "find_run db run = Some r" "\<not> migration_phase_releases_wallet_locks (run_phase r)"
  shows "\<exists>b db'. reset_migration_children_for_reorged_denominations f now run ts db = (Ok b, db')
    \<and> pending_rows db' = filter (\<lambda>p. \<not> lost_child f run (set ts) p) (pending_rows db)
    \<and> note_rows db' = map (\<lambda>n. if lost_note f run (set ts) (pending_rows db) n then reset_note n else n) (note_rows db)
    \<and> (b \<longleftrightarrow> (\<exists>p \<in> set (pending_rows db). lost_child f run (set ts) p)
         \<or> (\<exists>n \<in> set (note_rows db). lost_note f run (set ts) (pending_rows db) n))
    \<and> (b \<longrightarrow> map_option run_phase (find_run db' run) = Some PHASE_WAITING_DENOM_CONFIRMATIONS)"
  by (rule reset_children_rows [OF assms])

theorem reset_children_exact_witness:
  "\<exists>b db'. reset_migration_children_for_reorged_denominations (local_denomination_chain_identity bare_chain)
      7 ''r'' [demo_txid CHR ''a''] demo_db = (Ok b, db') \<and> pending_rows db' = []"
proof -
  have "lost_child (local_denomination_chain_identity bare_chain) ''r'' {demo_txid CHR ''a''} demo_child"
    by (simp add: lost_child_def child_of_def off_chain_def demo_child_def demo_lower demo_ids)
  then have "filter (\<lambda>p. \<not> lost_child (local_denomination_chain_identity bare_chain) ''r''
      (set [demo_txid CHR ''a'']) p) (pending_rows demo_db) = []" by (simp add: demo_db_def)
  with reset_children_exact [OF demo_readable(2), of "[demo_txid CHR ''a'']" demo_run 7] demo_found demo_lower
  show ?thesis by auto
qed

section \<open>The stages\<close>

text \<open>
  C11: Refinement of a per-stage specification: a reconciliation of a live run that returns
  leaves every stage of the run as \<open>reconciled_row\<close> says (confirmed at its present inclusion,
  reset if it is affected and off the chain, untouched otherwise), every stage of other runs
  and all inputs and outputs as they were, and keeps the invariant; only broadcast heights may
  have been drawn again.
\<close>

theorem reconcile_refines_rows:
  assumes "db_ok (stages_db db)"
    and "find_run db run = Some r" "\<not> migration_phase_releases_wallet_locks (run_phase r)"
    and "reconcile_denomination_stage_chain_state G W now run tip sync_tip rng db = Some (Ok (), db')"
  shows "db_ok (stages_db db')
    \<and> list_all2 rescheduled (reconciled_rows run (stage_view W (stages_db db) run) (stages_db db)) (stage_rows (stages_db db'))
    \<and> input_rows (stages_db db') = input_rows (stages_db db) \<and> output_rows (stages_db db') = output_rows (stages_db db)"
  by (rule reconcile_stages [OF assms])

lemma demo_reconciles:
  "\<exists>db'. reconcile_denomination_stage_chain_state no_draws bare_chain 7 ''r'' None (\<lambda>n. None) () demo_db = Some (Ok (), db')"
  using reconcile_total [OF demo_found(4,1,2,3) demo_readable, where G = no_draws and now = 7 and tip = None
      and sync_tip = "\<lambda>n. None" and rng = "()"] by metis

theorem reconcile_refines_rows_witness:
  "\<exists>db'. reconcile_denomination_stage_chain_state no_draws bare_chain 7 ''r'' None (\<lambda>n. None) () demo_db = Some (Ok (), db')
     \<and> db_ok (stages_db db')"
proof -
  from demo_reconciles obtain db' where run: "reconcile_denomination_stage_chain_state no_draws bare_chain 7 ''r'' None
      (\<lambda>n. None) () demo_db = Some (Ok (), db')" ..
  with reconcile_refines_rows [OF demo_found(4,1,2) run] show ?thesis by metis
qed

text \<open>
  C16: The reconciliation returns: on a database that satisfies the invariant, with a run that
  is live and spends no random draws, and with readable inclusions, it ends without an error
  and writes exactly the specified stage rows.
\<close>

theorem reconcile_returns:
  assumes "db_ok (stages_db db)"
    and "find_run db run = Some r" "\<not> migration_phase_releases_wallet_locks (run_phase r)"
    and "preparation_policy_from_str (run_preparation_policy r) = Ok Immediate"
    and "\<forall>t \<in> run_txids (stages_db db) run. is_ok (local_denomination_chain_identity W t)"
    and "children_readable (local_denomination_chain_identity W) db run"
  shows "\<exists>db'. reconcile_denomination_stage_chain_state G W now run tip sync_tip rng db = Some (Ok (), db')
    \<and> stage_rows (stages_db db') = reconciled_rows run (stage_view W (stages_db db) run) (stages_db db)"
  by (rule reconcile_total [OF assms])

theorem reconcile_returns_witness:
  "\<exists>db'. reconcile_denomination_stage_chain_state no_draws bare_chain 7 ''r'' None (\<lambda>n. None) () demo_db = Some (Ok (), db')
     \<and> map row_status (stage_rows (stages_db db')) = [''awaiting_inputs'']"
proof -
  have row: "row_run_id demo_row = ''r''" "row_status demo_row = ''confirmed''" "row_txid demo_row = demo_txid CHR ''a''"
    by (simp_all add: demo_row_def)
  have "row_changed (\<lambda>t. None) demo_row" by (simp add: row_changed_def row)
  then have "demo_txid CHR ''a'' \<in> changed_stages demo_stages ''r'' (\<lambda>t. None)"
    by (simp add: changed_stages_def demo_stages_def row image_iff)
  then have "demo_txid CHR ''a'' \<in> affected_stages demo_stages ''r'' (\<lambda>t. None)"
    by (auto simp: affected_stages_def)
  then have "map row_status (reconciled_rows ''r'' (\<lambda>t. None) demo_stages) = [''awaiting_inputs'']"
    by (simp add: reconciled_rows_def demo_stages_def row reconciled_row_def reset_row_def)
  with reconcile_returns [OF demo_found(4,1,2,3) demo_readable, of no_draws 7 None "\<lambda>n. None" "()"]
  show ?thesis unfolding demo_view by (auto simp: demo_db_def)
qed

text \<open>
  C14: After a reconciliation the database agrees with the chain: a stage of the run is
  confirmed exactly when the wallet's scanned chain holds its transaction, and then at the
  height and in the block where it is.
\<close>

theorem reconcile_agrees_with_chain:
  assumes "db_ok (stages_db db)"
    and "find_run db run = Some r" "\<not> migration_phase_releases_wallet_locks (run_phase r)"
    and "reconcile_denomination_stage_chain_state G W now run tip sync_tip rng db = Some (Ok (), db')"
    and "s \<in> set (stage_rows (stages_db db'))" "row_run_id s = run"
  shows "case stage_view W (stages_db db) run (row_txid s) of
      None \<Rightarrow> row_status s \<noteq> ''confirmed''
    | Some i \<Rightarrow> row_status s = ''confirmed'' \<and> row_mined s = Some (mined_height i) \<and> row_hash s = Some (in_block_hash i)"
  using settled_after [of run _ "stages_db db" "stages_db db'" s] reconcile_stages [OF assms(1-4)] assms(5,6)
  by (simp add: settled_row_def)

theorem reconcile_agrees_with_chain_witness:
  "\<exists>db'. reconcile_denomination_stage_chain_state no_draws bare_chain 7 ''r'' None (\<lambda>n. None) () demo_db = Some (Ok (), db')
     \<and> (\<forall>s \<in> set (stage_rows (stages_db db')). row_run_id s = ''r'' \<longrightarrow> row_status s \<noteq> ''confirmed'')"
proof -
  from demo_reconciles obtain db' where run: "reconcile_denomination_stage_chain_state no_draws bare_chain 7 ''r'' None
      (\<lambda>n. None) () demo_db = Some (Ok (), db')" ..
  with reconcile_agrees_with_chain [OF demo_found(4,1,2) run] show ?thesis by (simp add: demo_view)
qed

text \<open>
  C15: Reconciliation is idempotent: a second call against the same chain, at any later time and
  with any tip, succeeds and changes nothing.
\<close>

theorem reconcile_idempotent:
  assumes "db_ok (stages_db db)"
    and "find_run db run = Some r" "\<not> migration_phase_releases_wallet_locks (run_phase r)"
    and "reconcile_denomination_stage_chain_state G W now run tip sync_tip rng db = Some (Ok (), db')"
  shows "reconcile_denomination_stage_chain_state G' W now' run tip' sync_tip' rng' db' =
    Some (Ok (), db'\<lparr>stages_db := ensure_schema (stages_db db')\<rparr>)"
  by (rule reconcile_again [OF assms])

theorem reconcile_idempotent_witness:
  "\<exists>db'. reconcile_denomination_stage_chain_state no_draws bare_chain 7 ''r'' None (\<lambda>n. None) () demo_db = Some (Ok (), db')
     \<and> reconcile_denomination_stage_chain_state no_draws bare_chain 9 ''r'' (Some 120) (\<lambda>n. None) () db' =
         Some (Ok (), db'\<lparr>stages_db := ensure_schema (stages_db db')\<rparr>)"
proof -
  from demo_reconciles obtain db' where run: "reconcile_denomination_stage_chain_state no_draws bare_chain 7 ''r'' None
      (\<lambda>n. None) () demo_db = Some (Ok (), db')" ..
  with reconcile_idempotent [OF demo_found(4,1,2) run, of no_draws 9 "Some 120" "\<lambda>n. None" "()"] show ?thesis by metis
qed

end
