(* ===== verification/Action.thy ===== *)
theory Action
  imports Prelude
begin

text \<open>
  Operations on a state that return an \<open>outcome\<close>: a database handle with its statements. An
  action keeps the state it has reached also when it fails, which is what statements outside a
  transaction do; \<open>atomically\<close> is the transaction, which restores the state on an error and on
  an unwinding panic.
\<close>

type_synonym ('s, 'e, 'a) action = "'s \<Rightarrow> ('e, 'a) outcome \<times> 's"

definition lift_outcome :: "('e, 'a) outcome \<Rightarrow> ('s, 'e, 'a) action" where
  "lift_outcome m s = (m, s)"

definition yield :: "'a \<Rightarrow> ('s, 'e, 'a) action" where
  "yield x s = (Ok x, s)"

definition with_state :: "('s \<Rightarrow> ('s, 'e, 'a) action) \<Rightarrow> ('s, 'e, 'a) action" where
  "with_state k s = k s s"

definition modify :: "('s \<Rightarrow> 's) \<Rightarrow> ('s, 'e, unit) action" where
  "modify f s = (Ok (), f s)"

definition andthen :: "('s, 'e, 'a) action \<Rightarrow> ('a \<Rightarrow> ('s, 'e, 'b) action) \<Rightarrow> ('s, 'e, 'b) action" where
  "andthen m k s =
     (case m s of (Ok x, t) \<Rightarrow> k x t | (Err e, t) \<Rightarrow> (Err e, t) | (Panic, t) \<Rightarrow> (Panic, t))"

definition atomically :: "('s, 'e, 'a) action \<Rightarrow> ('s, 'e, 'a) action" where
  "atomically m s =
     (case m s of (Ok x, t) \<Rightarrow> (Ok x, t) | (Err e, t) \<Rightarrow> (Err e, s) | (Panic, t) \<Rightarrow> (Panic, s))"

fun for_each :: "('a \<Rightarrow> ('s, 'e, unit) action) \<Rightarrow> 'a list \<Rightarrow> ('s, 'e, unit) action" where
  "for_each f [] s = (Ok (), s)"
| "for_each f (x # xs) s = andthen (f x) (\<lambda>_. for_each f xs) s"

fun accumulate :: "('b \<Rightarrow> 'a \<Rightarrow> ('s, 'e, 'b) action) \<Rightarrow> 'b \<Rightarrow> 'a list \<Rightarrow> ('s, 'e, 'b) action" where
  "accumulate f acc [] s = (Ok acc, s)"
| "accumulate f acc (x # xs) s = andthen (f acc x) (\<lambda>acc'. accumulate f acc' xs) s"

section \<open>Running\<close>

named_theorems action_simps \<open>running an action on a state\<close>

lemma run_basic [action_simps]:
  "lift_outcome m s = (m, s)" "yield x s = (Ok x, s)" "with_state k s = k s s"
  "modify f s = (Ok (), f s)"
  by (simp_all add: lift_outcome_def yield_def with_state_def modify_def)

lemma andthen_run:
  "m s = (Ok x, t) \<Longrightarrow> andthen m k s = k x t"
  "m s = (Err e, t) \<Longrightarrow> andthen m k s = (Err e, t)"
  "m s = (Panic, t) \<Longrightarrow> andthen m k s = (Panic, t)"
  by (simp_all add: andthen_def)

lemma andthen_lift [action_simps]:
  "andthen (lift_outcome (Ok x)) k s = k x s"
  "andthen (lift_outcome (Err e)) k s = (Err e, s)"
  "andthen (lift_outcome Panic) k s = (Panic, s)"
  "andthen (yield x) k s = k x s"
  "andthen (modify f) k' s = k' () (f s)"
  by (simp_all add: andthen_def run_basic)

lemma andthen_Ok:
  "(andthen m k s = (Ok y, u)) = (\<exists>x t. m s = (Ok x, t) \<and> k x t = (Ok y, u))"
  by (auto simp: andthen_def split: prod.splits outcome.splits)

lemma lift_Ok: "(lift_outcome m s = (Ok y, u)) = (m = Ok y \<and> u = s)"
  by (auto simp: lift_outcome_def)

lemma andthen_lift_Ok:
  "(andthen (lift_outcome m) k s = (Ok y, u)) = (\<exists>x. m = Ok x \<and> k x s = (Ok y, u))"
  by (cases m) (auto simp: andthen_lift)

lemma atomically_Ok: "(atomically m s = (Ok x, t)) = (m s = (Ok x, t))"
  by (auto simp: atomically_def split: prod.splits outcome.splits)

lemma atomically_fails:
  "atomically m s = (r, t) \<Longrightarrow> (\<forall>x. r \<noteq> Ok x) \<Longrightarrow> t = s"
  by (auto simp: atomically_def split: prod.splits outcome.splits)

lemma for_each_Ok_Cons:
  "(for_each f (x # xs) s = (Ok y, u)) = (\<exists>z t. f x s = (Ok z, t) \<and> for_each f xs t = (Ok y, u))"
  by (simp add: andthen_Ok)

lemma for_each_append: "for_each f (xs @ ys) s = andthen (for_each f xs) (\<lambda>_. for_each f ys) s"
proof (induction xs arbitrary: s)
  case Nil
  show ?case by (simp add: andthen_def)
next
  case (Cons x xs)
  then show ?case by (auto simp: andthen_def split: prod.splits outcome.splits)
qed

section \<open>What an action leaves\<close>

text \<open>
  \<open>within R m\<close>: whatever the action returns, the state it leaves is related by \<open>R\<close> to the one
  it started from. For a reflexive and transitive relation the property goes through every way
  of composing actions, so an operation needs an argument for its statements only.
\<close>

definition within :: "('s \<Rightarrow> 's \<Rightarrow> bool) \<Rightarrow> ('s, 'e, 'a) action \<Rightarrow> bool" where
  "within R m \<longleftrightarrow> (\<forall>s. R s (snd (m s)))"

lemma withinD: "within R m \<Longrightarrow> m s = (r, t) \<Longrightarrow> R s t"
  by (auto simp: within_def dest: spec [of _ s])

locale state_relation =
  fixes R :: "'s \<Rightarrow> 's \<Rightarrow> bool"
  assumes refl: "R s s" and trans: "R s t \<Longrightarrow> R t u \<Longrightarrow> R s u"
begin

lemma within_lift: "within R (lift_outcome m)"
  by (simp add: within_def lift_outcome_def refl)

lemma within_yield: "within R (yield x)"
  by (simp add: within_def yield_def refl)

lemma within_modify: "(\<And>s. R s (f s)) \<Longrightarrow> within R (modify f)"
  by (simp add: within_def modify_def)

lemma within_with_state: "(\<And>s0. within R (k s0)) \<Longrightarrow> within R (with_state k)"
  by (simp add: within_def with_state_def)

lemma within_andthen:
  assumes "within R m" "\<And>x. within R (k x)"
  shows "within R (andthen m k)"
  unfolding within_def
proof
  fix s
  obtain r t where m: "m s = (r, t)" by (cases "m s")
  have "R s t" using assms(1) m by (rule withinD)
  moreover have "\<And>x. R t (snd (k x t))" using assms(2) by (simp add: within_def)
  ultimately show "R s (snd (andthen m k s))"
    using m by (cases r) (auto simp: andthen_def intro: trans)
qed

lemma within_atomically: "within R m \<Longrightarrow> within R (atomically m)"
  unfolding within_def
  by (auto simp: atomically_def refl split: prod.splits outcome.splits) (metis snd_conv)

lemma within_for_each: "(\<And>x. within R (f x)) \<Longrightarrow> within R (for_each f xs)"
proof (induction xs)
  case Nil
  show ?case by (simp add: within_def refl)
next
  case (Cons x xs)
  have "within R (andthen (f x) (\<lambda>_. for_each f xs))"
    using Cons by (intro within_andthen) auto
  then show ?case by (simp add: within_def)
qed

lemma within_accumulate: "(\<And>acc x. within R (f acc x)) \<Longrightarrow> within R (accumulate f acc xs)"
proof (induction xs arbitrary: acc)
  case Nil
  show ?case by (simp add: within_def refl)
next
  case (Cons x xs)
  have "within R (andthen (f acc x) (\<lambda>acc'. accumulate f acc' xs))"
    using Cons by (intro within_andthen) auto
  then show ?case by (simp add: within_def)
qed

lemma within_if: "(b \<Longrightarrow> within R m) \<Longrightarrow> (\<not> b \<Longrightarrow> within R m') \<Longrightarrow> within R (if b then m else m')"
  by simp

lemma within_option:
  "within R m \<Longrightarrow> (\<And>x. within R (k x)) \<Longrightarrow> within R (case v of None \<Rightarrow> m | Some x \<Rightarrow> k x)"
  by (cases v) simp_all

lemmas within_intros = within_lift within_yield within_with_state within_andthen within_atomically
  within_for_each within_accumulate within_if within_option

end

text \<open>An invariant that every action keeps is such a relation.\<close>

definition keeps :: "('s \<Rightarrow> bool) \<Rightarrow> 's \<Rightarrow> 's \<Rightarrow> bool" where
  "keeps I s t \<longleftrightarrow> (I s \<longrightarrow> I t)"

interpretation keeping: state_relation "keeps I" for I
  by unfold_locales (auto simp: keeps_def)

end
