(* ===== verification/PartTypes.thy ===== *)
theory PartTypes
  imports MigrationDb Schedule Denominations Action
begin

text \<open>
  The data of the migration parts (\<open>rust/src/wallet/sync/migration.rs\<close>): the signed child
  transactions that move the prepared notes, as the code hands them over, and the lookups and
  counts the operations on their table share.

  The JSON columns are read and written by \<open>serde_json\<close>, third-party code: \<open>json_env\<close> holds the
  functions, which turn plain structures of numbers and text into text and cannot fail, and back.
  The system clock is an argument of the operations that stamp a row, \<open>draw\<close> the position
  in the sequence of nonces of the payload encryption.
\<close>

section \<open>Phases of a run\<close>

definition PHASE_NO_ORCHARD_FUNDS :: string where "PHASE_NO_ORCHARD_FUNDS = ''no_orchard_funds''"
definition PHASE_AWAITING_PREPARATION :: string where
  "PHASE_AWAITING_PREPARATION = ''awaiting_preparation''"
definition PHASE_AWAITING_DENOMINATION_SIGNATURE :: string where
  "PHASE_AWAITING_DENOMINATION_SIGNATURE = ''awaiting_denomination_signature''"
definition PHASE_READY_TO_MIGRATE :: string where "PHASE_READY_TO_MIGRATE = ''ready_to_migrate''"
definition PHASE_BROADCAST_SCHEDULED :: string where
  "PHASE_BROADCAST_SCHEDULED = ''broadcast_scheduled''"
definition PHASE_WAITING_MIGRATION_CONFIRMATIONS :: string where
  "PHASE_WAITING_MIGRATION_CONFIRMATIONS = ''waiting_migration_confirmations''"

lemmas part_phases = PHASE_NO_ORCHARD_FUNDS_def PHASE_AWAITING_PREPARATION_def
  PHASE_AWAITING_DENOMINATION_SIGNATURE_def PHASE_READY_TO_MIGRATE_def PHASE_BROADCAST_SCHEDULED_def
  PHASE_WAITING_MIGRATION_CONFIRMATIONS_def phase_names

section \<open>Structures\<close>

record prepared_note_ref =
  ref_txid_hex :: string
  ref_output_index :: u32
  ref_value_zatoshi :: u64
  ref_note_version :: u8
  ref_nullifier_hex :: "string option"

record tx_metadata =
  meta_tx_kind :: string
  meta_funding_account_uuid :: string
  meta_selected_note :: prepared_note_ref

record pending_insert =
  pin_part_index :: u32
  pin_txid_hex :: string
  pin_raw_tx :: bytes
  pin_target_height :: u32
  pin_anchor_boundary_height :: "u32 option"
  pin_expiry_height :: u32
  pin_scheduled_height :: u32
  pin_value_zatoshi :: u64
  pin_fee_zatoshi :: u64
  pin_selected_note :: prepared_note_ref
  pin_metadata :: tx_metadata

record part_recovery =
  rec_part_index :: u32
  rec_old_txid_hex :: string
  rec_value_zatoshi :: u64
  rec_fee_zatoshi :: u64
  rec_selected_note :: prepared_note_ref

record due_tx =
  due_txid_hex :: string
  due_raw_tx :: bytes

record outbox_update =
  upd_item_id :: string
  upd_scheduled_height :: u32
  upd_schedule_start_height :: u32

record outbox_tx_state =
  obx_run_phase :: string
  obx_status :: string
  obx_expiry_height :: u32

record pending_totals =
  tot_txids :: "string list"
  tot_value_zatoshi :: u64
  tot_fee_zatoshi :: u64
  tot_total_count :: u32
  tot_broadcasted_count :: u32

record active_run_info =
  act_run_id :: string
  act_phase :: string
  act_target_values :: "u64 list"
  act_last_error :: "string option"

record json_env =
  targets_of_json :: "string \<Rightarrow> u64 list option"
  json_of_targets :: "u64 list \<Rightarrow> string"
  schedule_of_json :: "string \<Rightarrow> schedule_entry list option"
  json_of_schedule :: "schedule_entry list \<Rightarrow> string"
  note_of_json :: "string \<Rightarrow> prepared_note_ref option"
  json_of_note :: "prepared_note_ref \<Rightarrow> string"
  metadata_of_json :: "string \<Rightarrow> tx_metadata option"
  json_of_metadata :: "tx_metadata \<Rightarrow> string"

text \<open>What \<open>serde_json\<close> documents of the structures that derive both directions.\<close>

definition json_ok :: "json_env \<Rightarrow> bool" where
  "json_ok J \<longleftrightarrow>
     (\<forall>v. targets_of_json J (json_of_targets J v) = Some v) \<and>
     (\<forall>s. schedule_of_json J (json_of_schedule J s) = Some s) \<and>
     (\<forall>n. note_of_json J (json_of_note J n) = Some n) \<and>
     (\<forall>m. metadata_of_json J (json_of_metadata J m) = Some m)"

section \<open>Errors\<close>

datatype part_error =
    ChainFailed reconcile_error
  | PartPolicyFailed policy_error
  | PartScheduleFailed schedule_error
  | PartPayloadFailed payload_error
  | RunNotFound string
  | DecodeJson string
  | PartCountOverflow
  | PartsUnsupportedNetwork string
  | PartIndexDuplicated
  | ScheduleNoLongerMatches
  | LegacyHeightOverflow
  | SignedScheduleBelowZero
  | OriginImmutable
  | OriginsDiffer
  | ExpiryNotCanonical string u32
  | InsertPartFailed
  | TimeOverflow
  | NoLongerScheduled string
  | DueExpiryNotCanonical string u32
  | MissingScanSchema
  | RecoveryCountOverflow
  | PartIndexMissing
  | ReplacementMismatch
  | PartDisappeared
  | DenominationChanged
  | FundingNoteChanged
  | ReplacementExpiryNotCanonical
  | RecoveryScheduleOverflow
  | ReplacementOffsetMismatch
  | RecoveryMetadataIncomplete
  | RecoveryMaximumBelowOffset
  | RebuildOffsetOverflow
  | RecoveryPartChanged
  | RecoveryRunChanged
  | RescheduleOverflow
  | ReceiptWrongRun
  | ReceiptTxNotFound
  | ReceiptBadStatus string
  | ReceiptSelfReschedule
  | ReceiptDuplicateUpdate string
  | ReceiptWrongStart string
  | ReceiptMovesBackward string
  | ReceiptOutsideWindow string
  | ReceiptWrongItems
  | ReceiptItemNotFound string
  | ReceiptItemNotScheduled string
  | RunOfOtherAccount
  | RunTerminal string
  | PhaseChangedWhileStopping
  | WalletLockFailed
  | NoActiveRun
  | RunChanged string string
  | NothingToRecover
  | SigningBatchesIncomplete
  | SignedHeightUnreadable
  | RebaseFailed
  | ReplacementTimeOverflow
  | NoSignedChildren
  | RunNotReadyForSignatures
  | RecoveryOriginMissing
  | SignedChildMissing
  | SignaturesFailed
  | ValueOverflow
  | FeeOverflow

section \<open>Lookups\<close>

definition ensure_tables :: "migration_db \<Rightarrow> migration_db" where
  "ensure_tables db = db\<lparr>stages_db := ensure_schema (stages_db db)\<rparr>"

lemma ensure_tables_simps [simp]:
  "run_rows (ensure_tables db) = run_rows db" "pending_rows (ensure_tables db) = pending_rows db"
  "note_rows (ensure_tables db) = note_rows db" "signed_rows (ensure_tables db) = signed_rows db"
  "find_run (ensure_tables db) run = find_run db run"
  "stages_db (ensure_tables db) = ensure_schema (stages_db db)"
  "ensure_tables (ensure_tables db) = ensure_tables db"
  by (simp_all add: ensure_tables_def find_run_def)

definition opened :: "(migration_db, 'e, 'a) action \<Rightarrow> (migration_db, 'e, 'a) action" where
  "opened m = andthen (modify ensure_tables) (\<lambda>_. m)"

definition parts_of :: "migration_db \<Rightarrow> string \<Rightarrow> pending_row list" where
  "parts_of db run_id = filter (\<lambda>p. pend_run_id p = run_id) (pending_rows db)"

definition is_part :: "string \<Rightarrow> string \<Rightarrow> pending_row \<Rightarrow> bool" where
  "is_part run_id txid p \<longleftrightarrow> pend_run_id p = run_id \<and> pend_txid p = txid"

definition update_parts ::
  "(pending_row \<Rightarrow> bool) \<Rightarrow> (pending_row \<Rightarrow> pending_row) \<Rightarrow> migration_db \<Rightarrow> migration_db" where
  "update_parts P f db = db\<lparr>pending_rows := map (\<lambda>p. if P p then f p else p) (pending_rows db)\<rparr>"

definition update_runs ::
  "(run_row \<Rightarrow> bool) \<Rightarrow> (run_row \<Rightarrow> run_row) \<Rightarrow> migration_db \<Rightarrow> migration_db" where
  "update_runs P f db = db\<lparr>run_rows := map (\<lambda>r. if P r then f r else r) (run_rows db)\<rparr>"

definition update_notes ::
  "(note_row \<Rightarrow> bool) \<Rightarrow> (note_row \<Rightarrow> note_row) \<Rightarrow> migration_db \<Rightarrow> migration_db" where
  "update_notes P f db = db\<lparr>note_rows := map (\<lambda>n. if P n then f n else n) (note_rows db)\<rparr>"

lemma update_simps [simp]:
  "run_rows (update_parts P f db) = run_rows db" "note_rows (update_parts P f db) = note_rows db"
  "signed_rows (update_parts P f db) = signed_rows db" "stages_db (update_parts P f db) = stages_db db"
  "pending_rows (update_parts P f db) = map (\<lambda>p. if P p then f p else p) (pending_rows db)"
  "pending_rows (update_runs Q g db) = pending_rows db" "note_rows (update_runs Q g db) = note_rows db"
  "signed_rows (update_runs Q g db) = signed_rows db" "stages_db (update_runs Q g db) = stages_db db"
  "run_rows (update_runs Q g db) = map (\<lambda>r. if Q r then g r else r) (run_rows db)"
  "run_rows (update_notes N h db) = run_rows db" "pending_rows (update_notes N h db) = pending_rows db"
  "signed_rows (update_notes N h db) = signed_rows db" "stages_db (update_notes N h db) = stages_db db"
  "note_rows (update_notes N h db) = map (\<lambda>n. if N n then h n else n) (note_rows db)"
  by (simp_all add: update_parts_def update_runs_def update_notes_def)

definition set_phase :: "string \<Rightarrow> nat \<Rightarrow> string option \<Rightarrow> run_row \<Rightarrow> run_row" where
  "set_phase phase now message r =
     r\<lparr>run_phase := phase, run_updated_at_ms := now, run_last_error := message\<rparr>"

definition set_status :: "string \<Rightarrow> pending_row \<Rightarrow> pending_row" where
  "set_status name p = p\<lparr>pend_status := name\<rparr>"

definition part_count :: "nat \<Rightarrow> (part_error, u32) outcome" where
  "part_count n = (if n \<le> u32_max then Ok n else Err PartCountOverflow)"

definition count_parts_for_run :: "migration_db \<Rightarrow> string \<Rightarrow> (part_error, u32) outcome" where
  "count_parts_for_run db run_id = part_count (length (parts_of db run_id))"

definition count_pending_with_status :: "migration_db \<Rightarrow> string \<Rightarrow> string \<Rightarrow> (part_error, u32) outcome" where
  "count_pending_with_status db run_id name =
     part_count (length (filter (\<lambda>p. pend_status p = name) (parts_of db run_id)))"

definition scheduled_pending_count :: "migration_db \<Rightarrow> string \<Rightarrow> (part_error, u32) outcome" where
  "scheduled_pending_count db run_id = count_pending_with_status db run_id ''scheduled''"

definition read_run :: "migration_db \<Rightarrow> string \<Rightarrow> (part_error, run_row) outcome" where
  "read_run db run_id = ok_or (find_run db run_id) (RunNotFound run_id)"

definition planned_part_count_with_conn ::
  "json_env \<Rightarrow> migration_db \<Rightarrow> string \<Rightarrow> (part_error, u32) outcome" where
  "planned_part_count_with_conn J db run_id =
     obind (read_run db run_id) (\<lambda>r.
     obind (ok_or (targets_of_json J (run_targets r)) (DecodeJson ''migration planned part count'')) (\<lambda>targets.
       part_count (length targets)))"

definition pending_migration_note_outpoints_with_conn :: "migration_db \<Rightarrow> string \<Rightarrow> (string \<times> u32) set" where
  "pending_migration_note_outpoints_with_conn db run_id =
     set (map (\<lambda>p. (to_ascii_lowercase (pend_note_txid p), pend_note_index p)) (parts_of db run_id))"

definition signed_of :: "migration_db \<Rightarrow> string \<Rightarrow> signed_row list" where
  "signed_of db run_id = filter (\<lambda>c. sign_run_id c = run_id) (signed_rows db)"

definition unpromoted_signed_child_note_outpoints_with_conn ::
  "json_env \<Rightarrow> migration_db \<Rightarrow> string \<Rightarrow> (part_error, (string \<times> u32) list) outcome" where
  "unpromoted_signed_child_note_outpoints_with_conn J db run_id =
     obind (mapM (\<lambda>c. ok_or (note_of_json J (sign_note c)) (DecodeJson ''unpromoted signed migration PCZT note''))
              (signed_of db run_id)) (\<lambda>notes.
       Ok (filter (\<lambda>outpoint. outpoint \<notin> pending_migration_note_outpoints_with_conn db run_id)
             (map (\<lambda>n. (to_ascii_lowercase (ref_txid_hex n), ref_output_index n)) notes)))"

definition unpromoted_signed_child_pczt_count_with_conn ::
  "json_env \<Rightarrow> migration_db \<Rightarrow> string \<Rightarrow> (part_error, u32) outcome" where
  "unpromoted_signed_child_pczt_count_with_conn J db run_id =
     obind (unpromoted_signed_child_note_outpoints_with_conn J db run_id) (\<lambda>outpoints.
       part_count (length outpoints))"

definition migration_part_assignment_complete_with_conn ::
  "json_env \<Rightarrow> migration_db \<Rightarrow> string \<Rightarrow> (part_error, bool) outcome" where
  "migration_part_assignment_complete_with_conn J db run_id =
     obind (planned_part_count_with_conn J db run_id) (\<lambda>planned.
     obind (count_parts_for_run db run_id) (\<lambda>pending.
     obind (unpromoted_signed_child_pczt_count_with_conn J db run_id) (\<lambda>signed.
     obind (ok_or (checked_add u32_max pending signed) PartCountOverflow) (\<lambda>assigned.
       Ok (planned > 0 \<and> assigned = planned)))))"

definition timing_policy_for_run_with_conn ::
  "migration_db \<Rightarrow> string \<Rightarrow> (part_error, timing_policy) outcome" where
  "timing_policy_for_run_with_conn db run_id =
     obind (read_run db run_id) (\<lambda>r.
       map_err PartPolicyFailed (timing_policy_from_str (run_timing_policy r)))"

definition canonical_expiry :: "u32 \<Rightarrow> (part_error, u32) outcome" where
  "canonical_expiry height = map_err PartPolicyFailed (zip318_canonical_migration_expiry_height height)"

definition chain_identity_of :: "wallet_chain \<Rightarrow> string \<Rightarrow> (part_error, chain_identity option) outcome" where
  "chain_identity_of W txid_hex = map_err ChainFailed (local_denomination_chain_identity W txid_hex)"

text \<open>\<open>local_transaction_raw\<close>: the first variant of the id with stored bytes.\<close>

definition local_transaction_raw :: "wallet_chain \<Rightarrow> string \<Rightarrow> (part_error, bytes option) outcome" where
  "local_transaction_raw W txid_hex =
     (if \<not> has_transactions W \<or> \<not> has_raw_column W then Ok None
      else obind (map_err ChainFailed (txid_blob_variants txid_hex)) (\<lambda>blobs.
        Ok (case List.find (\<lambda>blob. tx_raw W blob \<noteq> None) blobs of
              None \<Rightarrow> None
            | Some blob \<Rightarrow> tx_raw W blob)))"

text \<open>
  \<open>synced_orchard_confirmation_count\<close>: the depth of a height inside the scanned range that
  contains it, at most the number of confirmations asked for.
\<close>

definition synced_orchard_confirmation_count ::
  "wallet_chain \<Rightarrow> u32 \<Rightarrow> u32 \<Rightarrow> (part_error, u32) outcome" where
  "synced_orchard_confirmation_count W required height =
     (if \<not> has_scan_queue W then Err MissingScanSchema
      else case map snd (filter (\<lambda>(first, last). first \<le> height \<and> height < last) (scanned_ranges W)) of
          [] \<Rightarrow> Ok 0
        | ends \<Rightarrow>
            let through = Max (set ends) - 1 in
            if block_hash_at W through = None then Ok 0
            else Ok (min (saturating_add u32_max (through - height) 1) required))"

end
