(* ===== verification/PartConfirm.thy ===== *)
theory PartConfirm
  imports PartTypes
begin

text \<open>
  \<open>reconcile_run_confirmations\<close> of \<open>rust/src/wallet/sync/migration.rs\<close>: a part whose
  transaction is on the scanned chain becomes confirmed, a confirmed part that left the chain can
  be broadcast again, and a run whose planned parts are all confirmed deeply enough is complete.
  The statements are not one transaction here; some callers put one around them. \<open>clock i\<close> is
  what the system clock gives at the \<open>i\<close>-th place of an operation that reads it.
\<close>

definition modify_live :: "string \<Rightarrow> (migration_db \<Rightarrow> migration_db) \<Rightarrow> migration_db \<Rightarrow> migration_db" where
  "modify_live run_id f db = (if list_ex (live_run run_id) (run_rows db) then f db else db)"

definition unconfirm_row :: "nat \<Rightarrow> pending_row \<Rightarrow> pending_row" where
  "unconfirm_row now p =
     p\<lparr>pend_status := ''scheduled'', pend_scheduled_at_ms := now,
       pend_start_height := Some (pend_target_height p), pend_scheduled_height := pend_target_height p\<rparr>"

text \<open>One part; the accumulator says whether a part was put back on the schedule.\<close>

definition confirm_step ::
  "wallet_chain \<Rightarrow> nat \<Rightarrow> string \<Rightarrow> bool \<Rightarrow> string \<times> string \<Rightarrow> (migration_db, part_error, bool) action" where
  "confirm_step W now run_id rescheduled = (\<lambda>(txid, state).
     andthen (lift_outcome (chain_identity_of W txid)) (\<lambda>identity.
       if identity \<noteq> None \<and> state \<noteq> ''confirmed''
       then andthen (modify (modify_live run_id (update_parts (is_part run_id txid) (set_status ''confirmed''))))
              (\<lambda>_. yield rescheduled)
       else if identity = None \<and> state = ''confirmed''
       then andthen (modify (modify_live run_id (update_parts (is_part run_id txid) (unconfirm_row now))))
              (\<lambda>_. yield True)
       else yield rescheduled))"

definition watched_parts :: "migration_db \<Rightarrow> string \<Rightarrow> pending_row list" where
  "watched_parts db run_id =
     filter (\<lambda>p. pend_status p \<in> {''scheduled'', ''broadcasted'', ''confirmed''}) (parts_of db run_id)"

definition resume_materializing :: "nat \<Rightarrow> string \<Rightarrow> migration_db \<Rightarrow> migration_db" where
  "resume_materializing now run_id =
     update_runs (\<lambda>r. run_key r = run_id \<and> run_phase r = PHASE_WAITING_MIGRATION_CONFIRMATIONS)
       (set_phase PHASE_BROADCAST_SCHEDULED now None)"

fun all_trusted :: "wallet_chain \<Rightarrow> u32 \<Rightarrow> string list \<Rightarrow> (part_error, bool) outcome" where
  "all_trusted W required [] = Ok True"
| "all_trusted W required (txid # txids) =
     obind (chain_identity_of W txid) (\<lambda>identity.
       case identity of
         None \<Rightarrow> Ok False
       | Some i \<Rightarrow>
           obind (synced_orchard_confirmation_count W required (mined_height i)) (\<lambda>depth.
             if depth < required then Ok False else all_trusted W required txids))"

text \<open>The completion of a run releases its notes and forgets its signatures.\<close>

definition unlock_notes :: "string \<Rightarrow> migration_db \<Rightarrow> migration_db" where
  "unlock_notes run_id =
     update_notes (\<lambda>n. note_run_id n = run_id) (\<lambda>n. n\<lparr>note_lock_state := ''unlocked''\<rparr>)"

definition delete_signed :: "string \<Rightarrow> migration_db \<Rightarrow> migration_db" where
  "delete_signed run_id db = db\<lparr>signed_rows := filter (\<lambda>c. sign_run_id c \<noteq> run_id) (signed_rows db)\<rparr>"

lemma delete_signed_simps [simp]:
  "run_rows (delete_signed run db) = run_rows db" "pending_rows (delete_signed run db) = pending_rows db"
  "note_rows (delete_signed run db) = note_rows db" "stages_db (delete_signed run db) = stages_db db"
  "signed_rows (delete_signed run db) = filter (\<lambda>c. sign_run_id c \<noteq> run) (signed_rows db)"
  by (simp_all add: delete_signed_def)

definition complete_run :: "nat \<Rightarrow> string \<Rightarrow> migration_db \<Rightarrow> migration_db" where
  "complete_run now run_id db =
     (let db' = update_runs (live_run run_id) (set_phase PHASE_COMPLETE now None) db in
      if length (filter (live_run run_id) (run_rows db)) \<noteq> 1 then db'
      else delete_signed run_id (unlock_notes run_id db'))"

definition finish_confirmations ::
  "json_env \<Rightarrow> wallet_chain \<Rightarrow> u32 \<Rightarrow> (nat \<Rightarrow> nat) \<Rightarrow> string \<Rightarrow> string \<Rightarrow> u32 \<Rightarrow> (migration_db, part_error, unit) action"
where
  "finish_confirmations J W required clock run_id current_phase unpromoted_count =
     with_state (\<lambda>db.
     andthen (lift_outcome (count_parts_for_run db run_id)) (\<lambda>total_parts.
     andthen (lift_outcome (count_pending_with_status db run_id ''confirmed'')) (\<lambda>confirmed_count.
       if total_parts > 0 \<and> confirmed_count \<ge> total_parts then
         andthen (lift_outcome (planned_part_count_with_conn J db run_id)) (\<lambda>planned_count.
           if planned_count = 0 \<or> total_parts \<noteq> planned_count \<or> unpromoted_count > 0
           then if current_phase = PHASE_WAITING_MIGRATION_CONFIRMATIONS
                then modify (resume_materializing (clock 0) run_id) else yield ()
           else andthen (lift_outcome (all_trusted W required
                    (sort (map pend_txid (parts_of db run_id))))) (\<lambda>trusted.
             if trusted then modify (complete_run (clock 1) run_id) else yield ()))
       else yield ())))"

definition reconcile_run_confirmations ::
  "json_env \<Rightarrow> wallet_chain \<Rightarrow> u32 \<Rightarrow> (nat \<Rightarrow> nat) \<Rightarrow> string \<Rightarrow> (migration_db, part_error, unit) action" where
  "reconcile_run_confirmations J W required clock run_id =
     (if \<not> has_transactions W then yield ()
      else with_state (\<lambda>db0.
        andthen (accumulate (confirm_step W (clock 0) run_id) False
                   (map (\<lambda>p. (pend_txid p, pend_status p)) (watched_parts db0 run_id))) (\<lambda>rescheduled.
        andthen (if rescheduled
                 then modify (update_runs (live_run run_id) (set_phase PHASE_BROADCAST_SCHEDULED (clock 0) None))
                 else yield ()) (\<lambda>_.
        with_state (\<lambda>db.
        andthen (lift_outcome (read_run db run_id)) (\<lambda>r.
        andthen (lift_outcome (unpromoted_signed_child_pczt_count_with_conn J db run_id)) (\<lambda>unpromoted_count.
        andthen (if run_phase r = PHASE_WAITING_MIGRATION_CONFIRMATIONS \<and> unpromoted_count > 0
                 then modify (resume_materializing (clock 0) run_id) else yield ()) (\<lambda>_.
          finish_confirmations J W required clock run_id (run_phase r) unpromoted_count))))))))"

definition reconcile_run_pending_confirmations ::
  "json_env \<Rightarrow> wallet_chain \<Rightarrow> u32 \<Rightarrow> (nat \<Rightarrow> nat) \<Rightarrow> string \<Rightarrow> (migration_db, part_error, unit) action" where
  "reconcile_run_pending_confirmations J W required clock run_id =
     opened (reconcile_run_confirmations J W required clock run_id)"

end
