(* ===== verification/PartConfirmProps.thy ===== *)
theory PartConfirmProps
  imports PartConfirm
begin

text \<open>
  Proofs about \<open>reconcile_run_confirmations\<close>: the statements of the loop over the parts are one
  map over the pending table, and the run is completed only when every part is confirmed and deep
  enough.
\<close>

lemma run_if: "(if b then m else m') s = (if b then m s else m' s)"
  by simp

lemma andthen_first: "m s = (Ok x, t) \<Longrightarrow> andthen m k s = k x t"
  by (rule andthen_run)

section \<open>One part\<close>

text \<open>What the chain says of a part, row by row.\<close>

definition settled_part :: "wallet_chain \<Rightarrow> nat \<Rightarrow> pending_row \<Rightarrow> pending_row" where
  "settled_part W now p =
     (case chain_identity_of W (pend_txid p) of
        Ok (Some i) \<Rightarrow> set_status ''confirmed'' p
      | Ok None \<Rightarrow> if pend_status p = ''confirmed'' then unconfirm_row now p else p
      | other \<Rightarrow> p)"

definition watched :: "string \<Rightarrow> pending_row \<Rightarrow> bool" where
  "watched run_id p \<longleftrightarrow>
     pend_run_id p = run_id \<and> pend_status p \<in> {''scheduled'', ''broadcasted'', ''confirmed''}"

definition unique_txids :: "migration_db \<Rightarrow> bool" where
  "unique_txids db \<longleftrightarrow> distinct (map pend_txid (pending_rows db))"

definition is_live :: "migration_db \<Rightarrow> string \<Rightarrow> bool" where
  "is_live db run_id \<longleftrightarrow> list_ex (live_run run_id) (run_rows db)"

lemma set_status_simps [simp]:
  "pend_status (set_status s p) = s" "pend_txid (set_status s p) = pend_txid p"
  "pend_run_id (set_status s p) = pend_run_id p"
  "pend_expiry_height (set_status s p) = pend_expiry_height p"
  "pend_scheduled_height (set_status s p) = pend_scheduled_height p"
  "pend_start_height (set_status s p) = pend_start_height p"
  "pend_raw (set_status s p) = pend_raw p" "pend_part_index (set_status s p) = pend_part_index p"
  by (simp_all add: set_status_def)

lemma set_status_same: "pend_status p = s \<Longrightarrow> set_status s p = p"
  by (simp add: set_status_def)

lemma settled_part_simps [simp]:
  "pend_txid (settled_part W now p) = pend_txid p" "pend_run_id (settled_part W now p) = pend_run_id p"
  "pend_expiry_height (settled_part W now p) = pend_expiry_height p"
  "pend_part_index (settled_part W now p) = pend_part_index p"
  "pend_raw (settled_part W now p) = pend_raw p"
  by (simp_all add: settled_part_def unconfirm_row_def split: outcome.split option.split)

lemma watched_parts_alt: "watched_parts db run = filter (watched run) (pending_rows db)"
  unfolding watched_parts_def parts_of_def watched_def filter_filter by (rule refl)

lemma same_part:
  "unique_txids db \<Longrightarrow> p \<in> set (pending_rows db) \<Longrightarrow> q \<in> set (pending_rows db) \<Longrightarrow>
    pend_txid p = pend_txid q \<Longrightarrow> p = q"
  by (auto simp: unique_txids_def distinct_map inj_on_def)

lemma update_parts_cong:
  "(\<And>q. q \<in> set (pending_rows db) \<Longrightarrow> (if P q then f q else q) = (if Q q then g q else q)) \<Longrightarrow>
    update_parts P f db = update_parts Q g db"
  by (auto simp: update_parts_def intro!: arg_cong [where f = "\<lambda>x. db\<lparr>pending_rows := x\<rparr>"] map_cong)

lemma update_parts_none [simp]: "update_parts (\<lambda>q. False) f db = db"
  by (simp add: update_parts_def)

lemma confirm_step_Ok:
  assumes "confirm_step W now run b (pend_txid p, pend_status p) db = (Ok b', db')"
    "unique_txids db" "p \<in> set (parts_of db run)"
  shows "\<exists>i. chain_identity_of W (pend_txid p) = Ok i \<and> b' = (b \<or> i = None \<and> pend_status p = ''confirmed'') \<and>
    db' = (if is_live db run then update_parts (\<lambda>q. q = p) (settled_part W now) db else db)"
proof -
  obtain i where i: "chain_identity_of W (pend_txid p) = Ok i"
    using assms(1) by (auto simp: confirm_step_def andthen_lift_Ok)
  have p: "p \<in> set (pending_rows db)" "pend_run_id p = run" using assms(3) by (auto simp: parts_of_def)
  have the_part: "is_part run (pend_txid p) q \<longleftrightarrow> q = p" if "q \<in> set (pending_rows db)" for q
    using p same_part [OF assms(2) that p(1)] by (auto simp: is_part_def)
  have one: "update_parts (is_part run (pend_txid p)) f db = update_parts (\<lambda>q. q = p) (settled_part W now) db"
    if "f p = settled_part W now p" for f
    using that the_part by (intro update_parts_cong) simp
  have none: "update_parts (\<lambda>q. q = p) (settled_part W now) db = db" if "settled_part W now p = p"
    using that update_parts_cong [of db "\<lambda>q. q = p" "settled_part W now" "\<lambda>q. False" id] by auto
  let ?done = "\<lambda>P f c. b' = c \<and> db' = modify_live run (update_parts P f) db"
  have step: "if i \<noteq> None \<and> pend_status p \<noteq> ''confirmed''
      then ?done (is_part run (pend_txid p)) (set_status ''confirmed'') b
      else if i = None \<and> pend_status p = ''confirmed''
      then ?done (is_part run (pend_txid p)) (unconfirm_row now) True
      else b' = b \<and> db' = db"
    using assms(1) unfolding confirm_step_def prod.case i andthen_lift(1) run_if andthen_lift run_basic
    by (auto split: if_splits)
  have live: "modify_live run f db = (if is_live db run then f db else db)" for f
    by (simp add: modify_live_def is_live_def)
  consider (mined) j where "i = Some j" "pend_status p \<noteq> ''confirmed''"
    | (lost) "i = None" "pend_status p = ''confirmed''"
    | (same) "i \<noteq> None \<longleftrightarrow> pend_status p = ''confirmed''"
    by (cases i) auto
  then show ?thesis
  proof cases
    case mined
    then have "settled_part W now p = set_status ''confirmed'' p" using i by (simp add: settled_part_def)
    with step mined one [of "set_status ''confirmed''"] live i show ?thesis by simp
  next
    case lost
    then have "settled_part W now p = unconfirm_row now p" using i by (simp add: settled_part_def)
    with step lost one [of "unconfirm_row now"] live i show ?thesis by simp
  next
    case same
    then have "settled_part W now p = p"
      using i by (auto simp: settled_part_def set_status_same split: option.split)
    with step same none i show ?thesis by (cases i) simp_all
  qed
qed

section \<open>All parts\<close>

lemma unique_update:
  assumes "\<And>p. pend_txid (f p) = pend_txid p"
  shows "unique_txids (update_parts P f db) = unique_txids db"
proof -
  have "pend_txid (if P p then f p else p) = pend_txid p" for p using assms by simp
  then show ?thesis by (simp add: unique_txids_def comp_def)
qed

lemma is_live_update [simp]: "is_live (update_parts P f db) run = is_live db run"
  by (simp add: is_live_def)

lemma confirm_parts_Ok:
  assumes "accumulate (confirm_step W now run) b (map (\<lambda>p. (pend_txid p, pend_status p)) ps) db = (Ok b', db')"
    "unique_txids db" "set ps \<subseteq> set (parts_of db run)" "distinct ps"
  shows "(\<forall>p \<in> set ps. \<exists>i. chain_identity_of W (pend_txid p) = Ok i) \<and>
    db' = (if is_live db run then update_parts (\<lambda>q. q \<in> set ps) (settled_part W now) db else db)"
  using assms
proof (induction ps arbitrary: b db)
  case Nil
  then show ?case by simp
next
  case (Cons p ps)
  from Cons.prems(1) obtain b1 db1 where
    step: "confirm_step W now run b (pend_txid p, pend_status p) db = (Ok b1, db1)" and
    rest: "accumulate (confirm_step W now run) b1 (map (\<lambda>p. (pend_txid p, pend_status p)) ps) db1 = (Ok b', db')"
    by (auto simp: andthen_Ok)
  have p: "p \<in> set (parts_of db run)" using Cons.prems(3) by simp
  from confirm_step_Ok [OF step Cons.prems(2) p] obtain i where
    i: "chain_identity_of W (pend_txid p) = Ok i" and
    db1: "db1 = (if is_live db run then update_parts (\<lambda>q. q = p) (settled_part W now) db else db)"
    by blast
  have uniq: "unique_txids db1" unfolding db1 using Cons.prems(2) by (simp add: unique_update)
  have sub: "set ps \<subseteq> set (parts_of db1 run)"
    using Cons.prems(3,4) unfolding db1 by (force simp: parts_of_def)
  have live: "is_live db1 run = is_live db run" unfolding db1 by simp
  have new: "settled_part W now p \<notin> set ps"
  proof
    assume in_ps: "settled_part W now p \<in> set ps"
    then have "settled_part W now p \<in> set (pending_rows db)" "p \<in> set (pending_rows db)"
      using Cons.prems(3) by (auto simp: parts_of_def)
    then have "settled_part W now p = p" using same_part [OF Cons.prems(2)] by simp
    then show False using in_ps Cons.prems(4) by simp
  qed
  have IH: "(\<forall>p \<in> set ps. \<exists>i. chain_identity_of W (pend_txid p) = Ok i) \<and>
      db' = (if is_live db1 run then update_parts (\<lambda>q. q \<in> set ps) (settled_part W now) db1 else db1)"
    using Cons.IH [OF rest uniq sub] Cons.prems(4) by simp
  have "update_parts (\<lambda>q. q \<in> set ps) (settled_part W now) (update_parts (\<lambda>q. q = p) (settled_part W now) db) =
      update_parts (\<lambda>q. q \<in> set (p # ps)) (settled_part W now) db"
    using new by (simp add: update_parts_def)
  then show ?case using IH i live unfolding db1 by simp
qed

section \<open>The whole run\<close>

text \<open>What \<open>finish_confirmations\<close> has checked when it completes the run.\<close>

definition deep_enough :: "wallet_chain \<Rightarrow> u32 \<Rightarrow> string \<Rightarrow> bool" where
  "deep_enough W required txid \<longleftrightarrow>
     (\<exists>i d. chain_identity_of W txid = Ok (Some i) \<and>
        synced_orchard_confirmation_count W required (mined_height i) = Ok d \<and> required \<le> d)"

definition fully_confirmed :: "json_env \<Rightarrow> wallet_chain \<Rightarrow> u32 \<Rightarrow> migration_db \<Rightarrow> string \<Rightarrow> bool" where
  "fully_confirmed J W required db run \<longleftrightarrow>
     parts_of db run \<noteq> [] \<and> planned_part_count_with_conn J db run = Ok (length (parts_of db run)) \<and>
     (\<forall>p \<in> set (parts_of db run). pend_status p = ''confirmed'' \<and> deep_enough W required (pend_txid p))"

lemma all_trusted_True: "all_trusted W required txids = Ok True \<Longrightarrow> \<forall>t \<in> set txids. deep_enough W required t"
proof (induction txids)
  case (Cons t ts)
  then obtain i d where "chain_identity_of W t = Ok (Some i)" and
    "synced_orchard_confirmation_count W required (mined_height i) = Ok d" "required \<le> d"
    "all_trusted W required ts = Ok True"
    by (auto simp: outcome_simps split: option.splits if_splits)
  then show ?case using Cons.IH by (auto simp: deep_enough_def)
qed simp

lemma part_count_Ok [simp]: "(part_count n = Ok m) = (n \<le> u32_max \<and> m = n)"
  by (auto simp: part_count_def)

lemma all_of_filter: "length xs \<le> length (filter P xs) \<Longrightarrow> \<forall>x \<in> set xs. P x"
  by (metis filter_id_conv filter_True length_filter_less linorder_not_less)

lemma finish_Ok:
  assumes "finish_confirmations J W required clock run phase unpromoted db = (Ok (), db')"
  shows "db' = db \<or> db' = resume_materializing (clock 0) run db \<or>
    db' = complete_run (clock 1) run db \<and> fully_confirmed J W required db run \<and> unpromoted = 0"
proof -
  let ?parts = "parts_of db run" and ?confirmed = "\<lambda>p. pend_status p = ''confirmed''"
  from assms have
    tail: "(if 0 < length ?parts \<and> length ?parts \<le> length (filter ?confirmed ?parts) then
         andthen (lift_outcome (planned_part_count_with_conn J db run)) (\<lambda>planned.
           if planned = 0 \<or> length ?parts \<noteq> planned \<or> unpromoted > 0
           then if phase = PHASE_WAITING_MIGRATION_CONFIRMATIONS
                then modify (resume_materializing (clock 0) run) else yield ()
           else andthen (lift_outcome (all_trusted W required (sort (map pend_txid ?parts)))) (\<lambda>trusted.
             if trusted then modify (complete_run (clock 1) run) else yield ()))
       else yield ()) db = (Ok (), db')"
    by (simp add: finish_confirmations_def run_basic andthen_lift_Ok count_parts_for_run_def
        count_pending_with_status_def)
  show ?thesis
  proof (cases "0 < length ?parts \<and> length ?parts \<le> length (filter ?confirmed ?parts)")
    case False
    with tail show ?thesis by (simp only: if_False run_basic) simp
  next
    case True
    with tail obtain planned where planned: "planned_part_count_with_conn J db run = Ok planned" and
      rest: "(if planned = 0 \<or> length ?parts \<noteq> planned \<or> unpromoted > 0
           then if phase = PHASE_WAITING_MIGRATION_CONFIRMATIONS
                then modify (resume_materializing (clock 0) run) else yield ()
           else andthen (lift_outcome (all_trusted W required (sort (map pend_txid ?parts)))) (\<lambda>trusted.
             if trusted then modify (complete_run (clock 1) run) else yield ())) db = (Ok (), db')"
      unfolding run_if if_P [OF True] andthen_lift_Ok by blast
    show ?thesis
    proof (cases "planned = 0 \<or> length ?parts \<noteq> planned \<or> unpromoted > 0")
      case True
      with rest show ?thesis by (simp add: run_basic split: if_splits)
    next
      case False
      have "\<exists>trusted. all_trusted W required (sort (map pend_txid ?parts)) = Ok trusted \<and>
        (if trusted then modify (complete_run (clock 1) run) else yield ()) db = (Ok () :: (part_error, unit) outcome, db')"
        using rest by (simp only: if_not_P [OF False] andthen_lift_Ok)
      then obtain trusted where
        trusted: "all_trusted W required (sort (map pend_txid ?parts)) = Ok trusted"
        "(if trusted then modify (complete_run (clock 1) run) else yield ()) db = (Ok () :: (part_error, unit) outcome, db')"
        by (elim exE conjE) (rule that)
      show ?thesis
      proof (cases trusted)
        case True
        have "\<forall>p \<in> set ?parts. ?confirmed p" using \<open>0 < length ?parts \<and> _\<close> all_of_filter by blast
        moreover have "\<forall>t \<in> set (map pend_txid ?parts). deep_enough W required t"
          using all_trusted_True trusted(1) True by fastforce
        ultimately have "fully_confirmed J W required db run"
          using planned False by (auto simp: fully_confirmed_def)
        then show ?thesis using trusted(2) True False by (simp add: run_basic)
      qed (use trusted(2) in \<open>simp add: run_basic\<close>)
    qed
  qed
qed

lemma complete_run_pending [simp]:
  "pending_rows (complete_run now run db) = pending_rows db" "stages_db (complete_run now run db) = stages_db db"
  by (auto simp: complete_run_def Let_def unlock_notes_def)

lemma resume_pending [simp]:
  "pending_rows (resume_materializing now run db) = pending_rows db"
  "note_rows (resume_materializing now run db) = note_rows db"
  "signed_rows (resume_materializing now run db) = signed_rows db"
  "stages_db (resume_materializing now run db) = stages_db db"
  by (auto simp: resume_materializing_def)

text \<open>The steps of the reconciliation, in one statement.\<close>

lemma reconcile_run_Ok:
  assumes "reconcile_run_confirmations J W required clock run db = (Ok (), db')" "has_transactions W"
    "unique_txids db"
  obtains db1 db2 db3 and r :: run_row and n where
    "db1 = (if is_live db run then update_parts (watched run) (settled_part W (clock 0)) db else db)"
    "\<forall>p \<in> set (watched_parts db run). \<exists>i. chain_identity_of W (pend_txid p) = Ok i"
    "db2 = db1 \<or> db2 = update_runs (live_run run) (set_phase PHASE_BROADCAST_SCHEDULED (clock 0) None) db1"
    "db3 = db2 \<or> db3 = resume_materializing (clock 0) run db2"
    "finish_confirmations J W required clock run (run_phase r) n db3 = (Ok (), db')"
proof -
  let ?again = "\<lambda>b. if b then modify (update_runs (live_run run) (set_phase PHASE_BROADCAST_SCHEDULED (clock 0) None))
                 else yield () :: (migration_db, part_error, unit) action"
  let ?resume = "\<lambda>r n. if run_phase r = PHASE_WAITING_MIGRATION_CONFIRMATIONS \<and> n > 0
                 then modify (resume_materializing (clock 0) run) else yield () :: (migration_db, part_error, unit) action"
  let ?finish = "\<lambda>r n. andthen (?resume r n) (\<lambda>_. finish_confirmations J W required clock run (run_phase r) n)"
  let ?tail = "with_state (\<lambda>db. andthen (lift_outcome (read_run db run)) (\<lambda>r.
        andthen (lift_outcome (unpromoted_signed_child_pczt_count_with_conn J db run)) (?finish r)))"
  let ?items = "map (\<lambda>p. (pend_txid p, pend_status p)) (watched_parts db run)"
  have whole: "reconcile_run_confirmations J W required clock run db =
      andthen (accumulate (confirm_step W (clock 0) run) False ?items) (\<lambda>b. andthen (?again b) (\<lambda>_. ?tail)) db"
    using assms(2) by (simp add: reconcile_run_confirmations_def run_basic)
  obtain b db1 where
    acc: "accumulate (confirm_step W (clock 0) run) False ?items db = (Ok b, db1)" and
    rest: "andthen (?again b) (\<lambda>_. ?tail) db1 = (Ok (), db')"
    using assms(1) unfolding whole andthen_Ok by blast
  have sub: "set (watched_parts db run) \<subseteq> set (parts_of db run)" by (auto simp: watched_parts_def)
  have dist: "distinct (watched_parts db run)"
    using assms(3) by (auto simp: watched_parts_def parts_of_def unique_txids_def distinct_map)
  note parts = confirm_parts_Ok [OF acc assms(3) sub dist]
  have same: "update_parts (\<lambda>q. q \<in> set (watched_parts db run)) (settled_part W (clock 0)) db =
      update_parts (watched run) (settled_part W (clock 0)) db"
    by (rule update_parts_cong) (auto simp: watched_parts_alt)
  define db2 where "db2 = (if b then update_runs (live_run run) (set_phase PHASE_BROADCAST_SCHEDULED (clock 0) None) db1 else db1)"
  then have first: "?again b db1 = (Ok (), db2)"
    by (simp add: run_basic)
  have after_first: "andthen (?again b) (\<lambda>_. ?tail) db1 = ?tail db2"
    by (rule andthen_first) (rule first)
  have "?tail db2 = (Ok (), db')" using rest unfolding after_first .
  then have "\<exists>r. read_run db2 run = Ok r \<and>
      (\<exists>n. unpromoted_signed_child_pczt_count_with_conn J db2 run = Ok n \<and> ?finish r n db2 = (Ok (), db'))"
    by (simp only: run_basic(3) andthen_lift_Ok)
  then obtain r n where r: "read_run db2 run = Ok r" and tail: "?finish r n db2 = (Ok (), db')"
    by (elim exE conjE) (rule that)
  define db3 where "db3 = (if run_phase r = PHASE_WAITING_MIGRATION_CONFIRMATIONS \<and> n > 0
                 then resume_materializing (clock 0) run db2 else db2)"
  then have second: "?resume r n db2 = (Ok (), db3)" by (simp add: run_basic)
  have after_second: "?finish r n db2 = finish_confirmations J W required clock run (run_phase r) n db3"
    by (rule andthen_first) (rule second)
  have fin: "finish_confirmations J W required clock run (run_phase r) n db3 = (Ok (), db')"
    using tail unfolding after_second .
  have db3: "db3 = db2 \<or> db3 = resume_materializing (clock 0) run db2" by (simp add: db3_def)
  have db1: "db1 = (if is_live db run then update_parts (watched run) (settled_part W (clock 0)) db else db)"
    using parts same by simp
  have "db2 = db1 \<or> db2 = update_runs (live_run run) (set_phase PHASE_BROADCAST_SCHEDULED (clock 0) None) db1"
    by (simp add: db2_def)
  from that [OF db1 conjunct1 [OF parts] this db3 fin] show thesis .
qed

section \<open>The effect on the tables\<close>

definition unique_runs :: "migration_db \<Rightarrow> bool" where
  "unique_runs db \<longleftrightarrow> distinct (map run_key (run_rows db))"

lemma set_phase_simps [simp]:
  "run_key (set_phase ph now m r) = run_key r" "run_phase (set_phase ph now m r) = ph"
  "run_targets (set_phase ph now m r) = run_targets r" "run_schedule (set_phase ph now m r) = run_schedule r"
  "run_account (set_phase ph now m r) = run_account r" "run_network (set_phase ph now m r) = run_network r"
  "run_timing_policy (set_phase ph now m r) = run_timing_policy r"
  "run_created_at_ms (set_phase ph now m r) = run_created_at_ms r"
  by (simp_all add: set_phase_def)

lemma parts_of_update_runs [simp]: "parts_of (update_runs Q g db) run = parts_of db run"
  by (simp add: parts_of_def)

lemma unique_runs_update:
  assumes "\<And>r. run_key (g r) = run_key r"
  shows "unique_runs (update_runs Q g db) = unique_runs db"
proof -
  have "run_key (if Q r then g r else r) = run_key r" for r using assms by simp
  then show ?thesis by (simp add: unique_runs_def comp_def)
qed

lemma unique_same_runs: "run_rows db' = run_rows db \<Longrightarrow> unique_runs db' = unique_runs db"
  by (simp add: unique_runs_def)

lemma find_keyed_map:
  "(\<And>r. run_key (g r) = run_key r) \<Longrightarrow>
    List.find (\<lambda>r. run_key r = run) (map g rs) = map_option g (List.find (\<lambda>r. run_key r = run) rs)"
  by (induction rs) auto

lemma filter_single:
  assumes "distinct xs" "x \<in> set xs" "\<And>y. y \<in> set xs \<Longrightarrow> P y = (y = x)"
  shows "filter P xs = [x]"
proof -
  have "filter P xs = filter (\<lambda>y. y = x) xs" using assms(3) by (rule filter_cong [OF HOL.refl])
  also have "\<dots> = [x]" using assms(1,2) by (induction xs) (auto simp: filter_empty_conv)
  finally show ?thesis .
qed

lemma find_run_update_runs:
  assumes "\<And>r. run_key (g r) = run_key r"
  shows "find_run (update_runs Q g db) run = map_option (\<lambda>r. if Q r then g r else r) (find_run db run)"
  unfolding find_run_def update_simps by (rule find_keyed_map) (simp add: assms)

lemma planned_update_runs:
  assumes "\<And>r. run_key (g r) = run_key r" "\<And>r. run_targets (g r) = run_targets r"
  shows "planned_part_count_with_conn J (update_runs Q g db) run = planned_part_count_with_conn J db run"
proof -
  show ?thesis
    unfolding planned_part_count_with_conn_def read_run_def find_run_update_runs [OF assms(1)]
    by (cases "find_run db run") (simp_all add: assms(2) ok_or_def)
qed

lemma planned_same_runs: "run_rows db' = run_rows db \<Longrightarrow>
    planned_part_count_with_conn J db' run = planned_part_count_with_conn J db run"
  by (simp add: planned_part_count_with_conn_def read_run_def find_run_def)

lemma complete_run_cases:
  assumes "unique_runs db"
  shows "complete_run now run db =
    (if is_live db run then delete_signed run (unlock_notes run (update_runs (live_run run) (set_phase PHASE_COMPLETE now None) db))
     else db)"
proof (cases "is_live db run")
  case True
  then obtain r where r: "r \<in> set (run_rows db)" "live_run run r" by (auto simp: is_live_def list_ex_iff)
  have "filter (live_run run) (run_rows db) = [r]"
  proof -
    have "x = r" if "x \<in> set (run_rows db)" "live_run run x" for x
      using that r assms by (auto simp: unique_runs_def distinct_map live_run_def inj_on_def)
    moreover have "distinct (run_rows db)" using assms by (auto simp: unique_runs_def distinct_map)
    ultimately show ?thesis using r by (intro filter_single) blast+
  qed
  then show ?thesis using True by (simp add: complete_run_def)
next
  case False
  then have "filter (live_run run) (run_rows db) = []"
    by (auto simp: is_live_def list_ex_iff filter_empty_conv)
  moreover have "update_runs (live_run run) g db = db" for g
  proof -
    have "map (\<lambda>r. if live_run run r then g r else r) (run_rows db) = run_rows db"
      using False by (intro map_idI) (auto simp: is_live_def list_ex_iff)
    then show ?thesis by (simp add: update_runs_def)
  qed
  ultimately show ?thesis using False by (simp add: complete_run_def)
qed

lemma reconcile_rows:
  assumes "reconcile_run_confirmations J W required clock run db = (Ok (), db')" "has_transactions W"
    "unique_txids db"
  shows "pending_rows db' =
      (if is_live db run then map (\<lambda>p. if watched run p then settled_part W (clock 0) p else p) (pending_rows db)
       else pending_rows db)"
    and "\<forall>p \<in> set (pending_rows db). watched run p \<longrightarrow> (\<exists>i. chain_identity_of W (pend_txid p) = Ok i)"
proof -
  from assms obtain db1 db2 db3 n and r :: run_row where
    db1: "db1 = (if is_live db run then update_parts (watched run) (settled_part W (clock 0)) db else db)" and
    ok: "\<forall>p \<in> set (watched_parts db run). \<exists>i. chain_identity_of W (pend_txid p) = Ok i" and
    db2: "db2 = db1 \<or> db2 = update_runs (live_run run) (set_phase PHASE_BROADCAST_SCHEDULED (clock 0) None) db1" and
    db3: "db3 = db2 \<or> db3 = resume_materializing (clock 0) run db2" and
    fin: "finish_confirmations J W required clock run (run_phase r) n db3 = (Ok (), db')"
    by (rule reconcile_run_Ok) blast
  have "pending_rows db' = pending_rows db1" using db2 db3 finish_Ok [OF fin] by auto
  then show "pending_rows db' =
      (if is_live db run then map (\<lambda>p. if watched run p then settled_part W (clock 0) p else p) (pending_rows db)
       else pending_rows db)" using db1 by simp
  show "\<forall>p \<in> set (pending_rows db). watched run p \<longrightarrow> (\<exists>i. chain_identity_of W (pend_txid p) = Ok i)"
    using ok by (simp add: watched_parts_alt)
qed

lemma notes_unlocked:
  "n \<in> set (note_rows (unlock_notes run db)) \<Longrightarrow> note_run_id n = run \<Longrightarrow> note_lock_state n = ''unlocked''"
  unfolding unlock_notes_def update_simps set_map by (elim imageE) (simp split: if_splits)

text \<open>After a reconciliation of a live run the status of every watched part agrees with the chain.\<close>

lemma reconcile_agrees:
  assumes "reconcile_run_confirmations J W required clock run db = (Ok (), db')" "has_transactions W"
    "unique_txids db" "is_live db run" "q \<in> set (pending_rows db')" "watched run q"
  shows "pend_status q = ''confirmed'' \<longleftrightarrow> (\<exists>i. chain_identity_of W (pend_txid q) = Ok (Some i))"
proof -
  from reconcile_rows(1) [OF assms(1-3)] assms(4,5) obtain p where
    p: "p \<in> set (pending_rows db)" "q = (if watched run p then settled_part W (clock 0) p else p)"
    by auto
  then have w: "watched run p" using assms(6) by (auto split: if_splits)
  with p reconcile_rows(2) [OF assms(1-3)] obtain i where "chain_identity_of W (pend_txid p) = Ok i" by blast
  with p w show ?thesis by (cases i) (auto simp: settled_part_def unconfirm_row_def)
qed

lemma completed_run:
  assumes "reconcile_run_confirmations J W required clock run db = (Ok (), db')" "has_transactions W"
    "unique_txids db" "unique_runs db"
    "\<forall>r \<in> set (run_rows db). run_key r = run \<longrightarrow> run_phase r \<noteq> PHASE_COMPLETE"
    "r' \<in> set (run_rows db')" "run_key r' = run" "run_phase r' = PHASE_COMPLETE"
  shows "fully_confirmed J W required db' run \<and>
    (\<forall>n \<in> set (note_rows db'). note_run_id n = run \<longrightarrow> note_lock_state n = ''unlocked'') \<and>
    signed_of db' run = []"
proof -
  from assms(1-3) obtain db1 db2 db3 n and r :: run_row where
    db1: "db1 = (if is_live db run then update_parts (watched run) (settled_part W (clock 0)) db else db)" and
    db2: "db2 = db1 \<or> db2 = update_runs (live_run run) (set_phase PHASE_BROADCAST_SCHEDULED (clock 0) None) db1" and
    db3: "db3 = db2 \<or> db3 = resume_materializing (clock 0) run db2" and
    fin: "finish_confirmations J W required clock run (run_phase r) n db3 = (Ok (), db')"
    by (rule reconcile_run_Ok) blast
  have open_set: "\<forall>r \<in> set (run_rows (update_runs Q (set_phase PHASE_BROADCAST_SCHEDULED t None) D)).
      run_key r = run \<longrightarrow> run_phase r \<noteq> PHASE_COMPLETE"
    if "\<forall>r \<in> set (run_rows D). run_key r = run \<longrightarrow> run_phase r \<noteq> PHASE_COMPLETE" for Q t D
    using that by (auto simp: part_phases)
  have open1: "\<forall>r \<in> set (run_rows db1). run_key r = run \<longrightarrow> run_phase r \<noteq> PHASE_COMPLETE"
    using assms(5) db1 by simp
  have open3: "\<forall>r \<in> set (run_rows db3). run_key r = run \<longrightarrow> run_phase r \<noteq> PHASE_COMPLETE"
  proof -
    have "\<forall>r \<in> set (run_rows db2). run_key r = run \<longrightarrow> run_phase r \<noteq> PHASE_COMPLETE"
      using db2 open1 open_set [OF open1] by (elim disjE) (simp_all only:)
    then show ?thesis using db3 open_set unfolding resume_materializing_def by (elim disjE) (simp_all only:)
  qed
  have uniq: "unique_runs db3"
  proof -
    have "unique_runs db1" using assms(4) db1 by (simp add: unique_runs_def)
    then have "unique_runs db2" using db2 by (auto simp: unique_runs_update)
    then show ?thesis using db3 by (auto simp: unique_runs_update resume_materializing_def)
  qed
  have changed: "db' \<noteq> db3" "db' \<noteq> resume_materializing (clock 0) run db3"
    using assms(6-8) open3 open_set [OF open3] unfolding resume_materializing_def by blast+
  then have done': "db' = complete_run (clock 1) run db3" "fully_confirmed J W required db3 run"
    using finish_Ok [OF fin] by auto
  then have live: "is_live db3 run" using changed(1) complete_run_cases [OF uniq] by metis
  have db': "db' = delete_signed run (unlock_notes run (update_runs (live_run run) (set_phase PHASE_COMPLETE (clock 1) None) db3))"
    using done'(1) live complete_run_cases [OF uniq] by simp
  have "planned_part_count_with_conn J db' run =
      planned_part_count_with_conn J (update_runs (live_run run) (set_phase PHASE_COMPLETE (clock 1) None) db3) run"
    unfolding db' by (rule planned_same_runs) (simp add: unlock_notes_def)
  also have "\<dots> = planned_part_count_with_conn J db3 run" by (rule planned_update_runs) simp_all
  finally have "planned_part_count_with_conn J db' run = planned_part_count_with_conn J db3 run" .
  moreover have "parts_of db' run = parts_of db3 run" by (simp add: done'(1) parts_of_def)
  ultimately have "fully_confirmed J W required db' run" using done'(2) by (simp add: fully_confirmed_def)
  moreover have "signed_of db' run = []" by (simp add: db' signed_of_def unlock_notes_def)
  moreover have "\<forall>n \<in> set (note_rows db'). note_run_id n = run \<longrightarrow> note_lock_state n = ''unlocked''"
    unfolding db' by (simp add: notes_unlocked)
  ultimately show ?thesis by blast
qed

end
