(* ===== verification/PartBroadcast.thy ===== *)
theory PartBroadcast
  imports PartConfirm
begin

text \<open>
  The broadcast side of the migration parts (\<open>rust/src/wallet/sync/migration.rs\<close>): choosing
  the part that is due, recording an attempt and a broadcast, marking parts whose expiry no
  longer fits for a new signature, and drawing new heights for overdue parts.
\<close>

text \<open>An \<open>UPDATE\<close> of the pending table with the number of rows it matched.\<close>

definition execute_parts ::
  "(pending_row \<Rightarrow> bool) \<Rightarrow> (pending_row \<Rightarrow> pending_row) \<Rightarrow> (migration_db, part_error, nat) action" where
  "execute_parts P f db = (Ok (length (filter P (pending_rows db))), update_parts P f db)"

section \<open>Attempts and the due part\<close>

definition mark_pending_broadcast_attempted ::
  "string \<Rightarrow> string \<Rightarrow> (migration_db, part_error, unit) action" where
  "mark_pending_broadcast_attempted run_id txid_hex =
     opened (andthen (execute_parts (\<lambda>p. is_part run_id txid_hex p \<and> pend_status p = ''scheduled'')
                        (\<lambda>p. p\<lparr>pend_attempted := 1\<rparr>))
       (\<lambda>updated. lift_outcome (if updated = 1 then Ok () else Err (NoLongerScheduled txid_hex))))"

definition due_rows :: "migration_db \<Rightarrow> string \<Rightarrow> u32 \<Rightarrow> pending_row list" where
  "due_rows db run_id tip =
     sort_key pend_scheduled_height (sort_key pend_txid
       (filter (\<lambda>p. pend_status p = ''scheduled'' \<and> pend_scheduled_height p \<le> tip) (parts_of db run_id)))"

fun first_due ::
  "crypto_env \<Rightarrow> wallet_chain \<Rightarrow> bytes \<Rightarrow> bytes \<Rightarrow> pending_row list \<Rightarrow> (part_error, due_tx list) outcome" where
  "first_due env W password salt [] = Ok []"
| "first_due env W password salt (p # ps) =
     obind (chain_identity_of W (pend_txid p)) (\<lambda>identity.
       if identity \<noteq> None then first_due env W password salt ps
       else obind (canonical_expiry (pend_scheduled_height p)) (\<lambda>expiry.
         if pend_expiry_height p \<noteq> expiry
         then Err (DueExpiryNotCanonical (pend_txid p) (pend_scheduled_height p))
         else obind (map_err PartPayloadFailed (decrypt_payload env (pend_raw p) password salt)) (\<lambda>raw.
           Ok [\<lparr>due_txid_hex = pend_txid p, due_raw_tx = raw\<rparr>])))"

definition pending_salt :: "crypto_env \<Rightarrow> string \<Rightarrow> (part_error, bytes) outcome" where
  "pending_salt env salt_base64 =
     map_err PartPayloadFailed (decode_base64 env salt_base64 ''migration pending salt'')"

definition due_pending_txs ::
  "crypto_env \<Rightarrow> json_env \<Rightarrow> wallet_chain \<Rightarrow> u32 \<Rightarrow> (nat \<Rightarrow> nat) \<Rightarrow> string \<Rightarrow> u32 \<Rightarrow> bytes \<Rightarrow> string \<Rightarrow>
    (migration_db, part_error, due_tx list) action" where
  "due_pending_txs env J W required clock run_id chain_tip_height password salt_base64 =
     andthen (lift_outcome (pending_salt env salt_base64)) (\<lambda>salt.
     andthen (reconcile_run_pending_confirmations J W required clock run_id) (\<lambda>_.
     opened (with_state (\<lambda>db.
       lift_outcome (first_due env W password salt (due_rows db run_id chain_tip_height))))))"

definition due_scheduled_pending_count ::
  "json_env \<Rightarrow> wallet_chain \<Rightarrow> u32 \<Rightarrow> (nat \<Rightarrow> nat) \<Rightarrow> string \<Rightarrow> u32 \<Rightarrow> (migration_db, part_error, u32) action" where
  "due_scheduled_pending_count J W required clock run_id chain_tip_height =
     andthen (reconcile_run_pending_confirmations J W required clock run_id) (\<lambda>_.
     opened (with_state (\<lambda>db.
       lift_outcome (part_count (length (due_rows db run_id chain_tip_height))))))"

text \<open>\<open>SELECT MIN(scheduled_height)\<close>.\<close>

definition next_scheduled_height :: "migration_db \<Rightarrow> string \<Rightarrow> u32 option" where
  "next_scheduled_height db run_id =
     (case map pend_scheduled_height (filter (\<lambda>p. pend_status p = ''scheduled'') (parts_of db run_id)) of
        [] \<Rightarrow> None
      | heights \<Rightarrow> Some (Min (set heights)))"

text \<open>Parts the network accepted whose bytes the wallet has not stored.\<close>

fun missing_local ::
  "crypto_env \<Rightarrow> wallet_chain \<Rightarrow> payload_key \<Rightarrow> pending_row list \<Rightarrow> (part_error, due_tx list) outcome" where
  "missing_local env W key [] = Ok []"
| "missing_local env W key (p # ps) =
     obind (local_transaction_raw W (pend_txid p)) (\<lambda>stored.
       if stored \<noteq> None then missing_local env W key ps
       else obind (map_err PartPayloadFailed (payload_key_decrypt env key (pend_raw p))) (\<lambda>raw.
         obind (missing_local env W key ps) (\<lambda>rest.
           Ok (\<lparr>due_txid_hex = pend_txid p, due_raw_tx = raw\<rparr> # rest))))"

definition broadcasted_pending_txs_missing_local_identity ::
  "crypto_env \<Rightarrow> wallet_chain \<Rightarrow> migration_db \<Rightarrow> string \<Rightarrow> bytes \<Rightarrow> string \<Rightarrow> (part_error, due_tx list) outcome" where
  "broadcasted_pending_txs_missing_local_identity env W db run_id password salt_base64 =
     obind (pending_salt env salt_base64) (\<lambda>salt.
       missing_local env W (payload_key_new env password salt)
         (sort_key pend_scheduled_height (sort_key pend_txid
            (filter (\<lambda>p. pend_status p = ''broadcasted'') (parts_of db run_id)))))"

section \<open>Parts that need a new signature\<close>

definition boundary_message :: string where
  "boundary_message = ''Migration broadcast height crossed a ZIP 318 expiry boundary''"
definition expired_message :: string where
  "expired_message = ''Expired migration parts must be re-signed with fresh anchors and expiry heights.''"
definition schedule_message :: string where
  "schedule_message = ''Migration schedule crossed a ZIP 318 expiry boundary''"

definition ready_for_resign :: "nat \<Rightarrow> string \<Rightarrow> string \<Rightarrow> migration_db \<Rightarrow> migration_db" where
  "ready_for_resign now run_id message =
     update_runs (\<lambda>r. run_key r = run_id) (set_phase PHASE_READY_TO_MIGRATE now (Some message))"

definition mark_due_parts_with_noncanonical_broadcast_height_for_resign ::
  "json_env \<Rightarrow> wallet_chain \<Rightarrow> u32 \<Rightarrow> (nat \<Rightarrow> nat) \<Rightarrow> string \<Rightarrow> u32 \<Rightarrow> (migration_db, part_error, u32) action" where
  "mark_due_parts_with_noncanonical_broadcast_height_for_resign J W required clock run_id chain_tip_height =
     opened (andthen (lift_outcome (canonical_expiry chain_tip_height)) (\<lambda>expiry.
     andthen (atomically
       (andthen (reconcile_run_confirmations J W required clock run_id) (\<lambda>_.
        andthen (execute_parts (\<lambda>p. pend_run_id p = run_id \<and> pend_status p = ''scheduled''
                     \<and> pend_scheduled_height p \<le> chain_tip_height \<and> pend_expiry_height p \<noteq> expiry)
                   (set_status ''needs_resign'')) (\<lambda>affected.
        andthen (if affected > 0 then modify (ready_for_resign (clock 2) run_id boundary_message) else yield ())
          (\<lambda>_. yield affected)))))
       (\<lambda>affected. lift_outcome (if affected \<le> u32_max then Ok affected else Err RecoveryCountOverflow))))"

definition pending_row_is_expired_for_resign ::
  "wallet_chain \<Rightarrow> string \<Rightarrow> u32 \<Rightarrow> u32 \<Rightarrow> string \<Rightarrow> (part_error, bool) outcome" where
  "pending_row_is_expired_for_resign W state expiry_height chain_tip_height txid_hex =
     (if expiry_height = 0 \<or> expiry_height > chain_tip_height then Ok False
      else if state = ''scheduled'' then Ok True
      else if state = ''broadcasted''
      then obind (local_transaction_raw W txid_hex) (\<lambda>raw. Ok (raw \<noteq> None))
      else Ok False)"

fun expired_among :: "wallet_chain \<Rightarrow> u32 \<Rightarrow> pending_row list \<Rightarrow> (part_error, string list) outcome" where
  "expired_among W tip [] = Ok []"
| "expired_among W tip (p # ps) =
     obind (pending_row_is_expired_for_resign W (pend_status p) (pend_expiry_height p) tip (pend_txid p)) (\<lambda>expired.
     obind (expired_among W tip ps) (\<lambda>rest. Ok (if expired then pend_txid p # rest else rest)))"

definition expired_unconfirmed_pending_txids ::
  "wallet_chain \<Rightarrow> migration_db \<Rightarrow> string \<Rightarrow> u32 \<Rightarrow> (part_error, string list) outcome" where
  "expired_unconfirmed_pending_txids W db run_id chain_tip_height =
     expired_among W chain_tip_height
       (filter (\<lambda>p. pend_status p \<in> {''scheduled'', ''broadcasted''} \<and> pend_expiry_height p > 0
                 \<and> pend_expiry_height p \<le> chain_tip_height) (parts_of db run_id))"

definition expired_unconfirmed_pending_count ::
  "json_env \<Rightarrow> wallet_chain \<Rightarrow> u32 \<Rightarrow> (nat \<Rightarrow> nat) \<Rightarrow> string \<Rightarrow> u32 \<Rightarrow> (migration_db, part_error, u32) action" where
  "expired_unconfirmed_pending_count J W required clock run_id chain_tip_height =
     andthen (reconcile_run_pending_confirmations J W required clock run_id) (\<lambda>_.
     opened (with_state (\<lambda>db.
       lift_outcome (obind (expired_unconfirmed_pending_txids W db run_id chain_tip_height) (\<lambda>expired.
         if length expired \<le> u32_max then Ok (length expired) else Err RecoveryCountOverflow)))))"

definition mark_for_resign :: "string \<Rightarrow> nat \<Rightarrow> string \<Rightarrow> (migration_db, part_error, nat) action" where
  "mark_for_resign run_id updated txid_hex =
     andthen (execute_parts (\<lambda>p. is_part run_id txid_hex p \<and> pend_status p \<in> {''scheduled'', ''broadcasted''})
                (set_status ''needs_resign'')) (\<lambda>n. yield (updated + n))"

definition mark_expired_pending_parts_for_resign ::
  "json_env \<Rightarrow> wallet_chain \<Rightarrow> u32 \<Rightarrow> (nat \<Rightarrow> nat) \<Rightarrow> string \<Rightarrow> u32 \<Rightarrow> (migration_db, part_error, u32) action" where
  "mark_expired_pending_parts_for_resign J W required clock run_id chain_tip_height =
     opened (andthen (atomically
       (andthen (reconcile_run_confirmations J W required clock run_id) (\<lambda>_.
        with_state (\<lambda>db.
        andthen (lift_outcome (expired_unconfirmed_pending_txids W db run_id chain_tip_height)) (\<lambda>expired.
        andthen (accumulate (mark_for_resign run_id) 0 expired) (\<lambda>updated.
        andthen (if updated > 0 then modify (ready_for_resign (clock 2) run_id expired_message) else yield ())
          (\<lambda>_. yield updated)))))))
       (\<lambda>updated. lift_outcome (if updated \<le> u32_max then Ok updated else Err RecoveryCountOverflow)))"

definition read_recovery :: "json_env \<Rightarrow> pending_row \<Rightarrow> (part_error, part_recovery) outcome" where
  "read_recovery J p =
     obind (ok_or (pend_part_index p) PartIndexMissing) (\<lambda>part.
     obind (ok_or (metadata_of_json J (pend_metadata p)) (DecodeJson ''migration recovery metadata'')) (\<lambda>metadata.
       Ok \<lparr>rec_part_index = part, rec_old_txid_hex = pend_txid p, rec_value_zatoshi = pend_value p,
           rec_fee_zatoshi = pend_fee p, rec_selected_note = meta_selected_note metadata\<rparr>))"

definition resign_rows :: "migration_db \<Rightarrow> string \<Rightarrow> pending_row list" where
  "resign_rows db run_id =
     sort_key pend_scheduled_height (sort_key pend_txid
       (filter (\<lambda>p. pend_status p = ''needs_resign'') (parts_of db run_id)))"

definition pending_parts_needing_resign ::
  "json_env \<Rightarrow> migration_db \<Rightarrow> string \<Rightarrow> (part_error, part_recovery list) outcome" where
  "pending_parts_needing_resign J db run_id = mapM (read_recovery J) (resign_rows db run_id)"

definition noncanonical_unconfirmed_fee_count :: "migration_db \<Rightarrow> string \<Rightarrow> u64 \<Rightarrow> (part_error, u32) outcome" where
  "noncanonical_unconfirmed_fee_count db run_id canonical_fee_zatoshi =
     part_count (length (filter (\<lambda>p. pend_status p \<in> {''scheduled'', ''broadcasted'', ''needs_resign''}
       \<and> pend_fee p \<noteq> canonical_fee_zatoshi) (parts_of db run_id)))"

section \<open>Recording a broadcast\<close>

definition update_run_after_pending_broadcast ::
  "json_env \<Rightarrow> nat \<Rightarrow> string \<Rightarrow> (migration_db, part_error, unit) action" where
  "update_run_after_pending_broadcast J now run_id = with_state (\<lambda>db.
     andthen (lift_outcome (count_pending_with_status db run_id ''needs_resign'')) (\<lambda>needs_resign_remaining.
     andthen (lift_outcome (count_pending_with_status db run_id ''scheduled'')) (\<lambda>scheduled_remaining.
     andthen (lift_outcome (count_parts_for_run db run_id)) (\<lambda>pending_parts.
     andthen (lift_outcome (planned_part_count_with_conn J db run_id)) (\<lambda>planned_count.
     andthen (lift_outcome (unpromoted_signed_child_pczt_count_with_conn J db run_id)) (\<lambda>unpromoted_count.
       let fully_materialized = planned_count > 0 \<and> pending_parts = planned_count \<and> unpromoted_count = 0 in
       modify (update_runs (\<lambda>r. run_key r = run_id)
         (if needs_resign_remaining > 0
          then (\<lambda>r. r\<lparr>run_phase := PHASE_READY_TO_MIGRATE, run_updated_at_ms := now\<rparr>)
          else if scheduled_remaining > 0 \<or> \<not> fully_materialized
          then set_phase PHASE_BROADCAST_SCHEDULED now None
          else set_phase PHASE_WAITING_MIGRATION_CONFIRMATIONS now None))))))))"

definition mark_pending_broadcasted ::
  "json_env \<Rightarrow> nat \<Rightarrow> string \<Rightarrow> string \<Rightarrow> (migration_db, part_error, unit) action" where
  "mark_pending_broadcasted J now run_id txid_hex =
     opened (atomically
       (andthen (modify (update_parts (is_part run_id txid_hex) (set_status ''broadcasted''))) (\<lambda>_.
         update_run_after_pending_broadcast J now run_id)))"

definition pending_totals_for_run :: "migration_db \<Rightarrow> string \<Rightarrow> (part_error, pending_totals) outcome" where
  "pending_totals_for_run db run_id =
     (let rows = sort_key pend_scheduled_at_ms (sort_key pend_txid (parts_of db run_id)) in
      obind (foldM (\<lambda>(txids, v, fee, n) p.
          obind (ok_or (checked_add u64_max v (pend_value p)) ValueOverflow) (\<lambda>v'.
          obind (ok_or (checked_add u64_max fee (pend_fee p)) FeeOverflow) (\<lambda>fee'.
          obind (if pend_status p = ''broadcasted'' \<or> pend_status p = ''confirmed''
                 then ok_or (checked_add u32_max n 1) PartCountOverflow else Ok n) (\<lambda>n'.
            Ok (txids @ [pend_txid p], v', fee', n'))))) ([], 0, 0, 0) rows) (\<lambda>(txids, v, fee, n).
        Ok \<lparr>tot_txids = txids, tot_value_zatoshi = v, tot_fee_zatoshi = fee,
            tot_total_count = length txids mod 2 ^ 32, tot_broadcasted_count = n\<rparr>))"

end
