(* ===== verification/PartBroadcastProps.thy ===== *)
theory PartBroadcastProps
  imports PartConfirmProps PartBroadcast
begin

text \<open>
  Proofs about the due part and about the parts that need a new signature: the part handed out is
  the earliest one the chain does not have, and the marking statements are one map over the table
  that the reconciliation leaves.
\<close>

section \<open>The order of two stable sorts\<close>

lemma two_sorts_head:
  fixes f :: "'a \<Rightarrow> 'b :: linorder" and g :: "'a \<Rightarrow> 'c :: linorder"
  assumes "sort_key f (sort_key g xs) = pre @ x # post" "y \<in> set (x # post)"
  shows "f x < f y \<or> f x = f y \<and> g x \<le> g y"
proof -
  have "sorted (map f (pre @ x # post))" using assms(1) by (metis sorted_sort_key)
  then have le: "f x \<le> f y" using assms(2) by (auto simp: sorted_append)
  moreover have "g x \<le> g y" if "f x = f y"
  proof -
    let ?same = "filter (\<lambda>z. f z = f x)"
    have "?same (pre @ x # post) = ?same (sort_key g xs)"
      using assms(1) by (metis sort_key_stable)
    moreover have "sorted (map g (?same (sort_key g xs)))" by (simp add: sorted_filter)
    ultimately have "sorted (map g (?same (pre @ x # post)))" by simp
    then show ?thesis using assms(2) that by (auto simp: sorted_append)
  qed
  ultimately show ?thesis by auto
qed

section \<open>The due part\<close>

definition mined :: "wallet_chain \<Rightarrow> string \<Rightarrow> bool" where
  "mined W txid \<longleftrightarrow> (\<exists>i. chain_identity_of W txid = Ok (Some i))"

definition is_due :: "string \<Rightarrow> u32 \<Rightarrow> pending_row \<Rightarrow> bool" where
  "is_due run tip p \<longleftrightarrow> pend_run_id p = run \<and> pend_status p = ''scheduled'' \<and> pend_scheduled_height p \<le> tip"

lemma set_due_rows [simp]: "set (due_rows db run tip) = {p \<in> set (pending_rows db). is_due run tip p}"
  by (auto simp: due_rows_def parts_of_def is_due_def)

lemma first_due_Ok:
  assumes "first_due env W password salt ps = Ok txs"
  shows "txs = [] \<and> (\<forall>p \<in> set ps. mined W (pend_txid p)) \<or>
    (\<exists>pre p post raw. ps = pre @ p # post \<and> (\<forall>q \<in> set pre. mined W (pend_txid q)) \<and>
      chain_identity_of W (pend_txid p) = Ok None \<and>
      canonical_expiry (pend_scheduled_height p) = Ok (pend_expiry_height p) \<and>
      decrypt_payload env (pend_raw p) password salt = Ok raw \<and>
      txs = [\<lparr>due_txid_hex = pend_txid p, due_raw_tx = raw\<rparr>])"
  using assms
proof (induction ps)
  case Nil
  then show ?case by simp
next
  case (Cons p ps)
  from Cons.prems obtain i where i: "chain_identity_of W (pend_txid p) = Ok i"
    by (auto simp: outcome_simps)
  show ?case
  proof (cases i)
    case None
    then obtain raw where "canonical_expiry (pend_scheduled_height p) = Ok (pend_expiry_height p)"
        "decrypt_payload env (pend_raw p) password salt = Ok raw"
        "txs = [\<lparr>due_txid_hex = pend_txid p, due_raw_tx = raw\<rparr>]"
      using Cons.prems i by (auto simp: outcome_simps split: if_splits)
    then show ?thesis using None i
      by - (rule disjI2, rule exI [of _ "[]"], rule exI [of _ p], rule exI [of _ ps], rule exI [of _ raw], simp)
  next
    case (Some j)
    then have "first_due env W password salt ps = Ok txs" using Cons.prems i by simp
    from Cons.IH [OF this] show ?thesis
    proof (elim disjE exE conjE)
      assume "txs = []" "\<forall>p \<in> set ps. mined W (pend_txid p)"
      then show ?thesis using i Some by (auto simp: mined_def)
    next
      fix pre q post raw
      assume "ps = pre @ q # post" "\<forall>q \<in> set pre. mined W (pend_txid q)"
        "chain_identity_of W (pend_txid q) = Ok None"
        "canonical_expiry (pend_scheduled_height q) = Ok (pend_expiry_height q)"
        "decrypt_payload env (pend_raw q) password salt = Ok raw"
        "txs = [\<lparr>due_txid_hex = pend_txid q, due_raw_tx = raw\<rparr>]"
      then show ?thesis using i Some
        by - (rule disjI2, rule exI [of _ "p # pre"], rule exI [of _ q], rule exI [of _ post],
          rule exI [of _ raw], simp add: mined_def)
    qed
  qed
qed

lemma ensure_tables_live [simp]:
  "is_live (ensure_tables db) run = is_live db run" "unique_txids (ensure_tables db) = unique_txids db"
  "unique_runs (ensure_tables db) = unique_runs db" "parts_of (ensure_tables db) run = parts_of db run"
  by (simp_all add: is_live_def unique_txids_def unique_runs_def parts_of_def)

lemma opened_run: "opened m db = m (ensure_tables db)"
  by (simp add: opened_def andthen_lift)

lemma due_pending_txs_Ok:
  assumes "due_pending_txs env J W required clock run tip password salt64 db = (Ok txs, db')"
  obtains salt db1 where "pending_salt env salt64 = Ok salt"
    "reconcile_run_confirmations J W required clock run (ensure_tables db) = (Ok (), db1)"
    "db' = ensure_tables db1" "first_due env W password salt (due_rows db' run tip) = Ok txs"
proof -
  from assms obtain salt where salt: "pending_salt env salt64 = Ok salt" and
    rest: "andthen (reconcile_run_pending_confirmations J W required clock run) (\<lambda>_.
       opened (with_state (\<lambda>db. lift_outcome (first_due env W password salt (due_rows db run tip))))) db
       = (Ok txs, db')"
    unfolding due_pending_txs_def andthen_lift_Ok by blast
  from rest obtain db1 where one: "reconcile_run_pending_confirmations J W required clock run db = (Ok (), db1)" and
    two: "opened (with_state (\<lambda>db. lift_outcome (first_due env W password salt (due_rows db run tip)))) db1
      = (Ok txs, db')"
    unfolding andthen_Ok by auto
  show thesis
    by (rule that [OF salt]) (use one two in \<open>auto simp: reconcile_run_pending_confirmations_def opened_run run_basic\<close>)
qed

lemma due_part:
  assumes "due_pending_txs env J W required clock run tip password salt64 db = (Ok txs, db')"
    "has_transactions W" "unique_txids db" "is_live db run"
  shows "txs = [] \<and> (\<forall>q \<in> set (pending_rows db'). \<not> is_due run tip q) \<or>
    (\<exists>p \<in> set (pending_rows db'). \<exists>salt raw. txs = [\<lparr>due_txid_hex = pend_txid p, due_raw_tx = raw\<rparr>] \<and>
      is_due run tip p \<and> \<not> mined W (pend_txid p) \<and>
      canonical_expiry (pend_scheduled_height p) = Ok (pend_expiry_height p) \<and>
      pending_salt env salt64 = Ok salt \<and> decrypt_payload env (pend_raw p) password salt = Ok raw \<and>
      (\<forall>q \<in> set (pending_rows db'). is_due run tip q \<longrightarrow>
         pend_scheduled_height p < pend_scheduled_height q \<or>
         pend_scheduled_height p = pend_scheduled_height q \<and> pend_txid p \<le> pend_txid q))"
proof -
  from assms(1) obtain salt db1 where salt: "pending_salt env salt64 = Ok salt" and
    rec: "reconcile_run_confirmations J W required clock run (ensure_tables db) = (Ok (), db1)" and
    db': "db' = ensure_tables db1" and first: "first_due env W password salt (due_rows db' run tip) = Ok txs"
    by (rule due_pending_txs_Ok) blast
  have agree: "\<not> mined W (pend_txid q)" if "q \<in> set (pending_rows db')" "is_due run tip q" for q
  proof -
    have "watched run q" using that(2) by (simp add: is_due_def watched_def)
    moreover have "pend_status q \<noteq> ''confirmed''" using that(2) by (simp add: is_due_def)
    ultimately show ?thesis
      using reconcile_agrees [OF rec assms(2), of q] assms(3,4) that(1) by (simp add: db' mined_def)
  qed
  from first_due_Ok [OF first] show ?thesis
  proof (elim disjE exE conjE)
    assume "txs = []" "\<forall>p \<in> set (due_rows db' run tip). mined W (pend_txid p)"
    then show ?thesis using agree by auto
  next
    fix pre p post raw
    assume rows: "due_rows db' run tip = pre @ p # post" and pre: "\<forall>q \<in> set pre. mined W (pend_txid q)" and
      p: "chain_identity_of W (pend_txid p) = Ok None"
      "canonical_expiry (pend_scheduled_height p) = Ok (pend_expiry_height p)"
      "decrypt_payload env (pend_raw p) password salt = Ok raw"
      "txs = [\<lparr>due_txid_hex = pend_txid p, due_raw_tx = raw\<rparr>]"
    have mem: "set (pre @ p # post) = {q \<in> set (pending_rows db'). is_due run tip q}"
      using rows set_due_rows by metis
    then have "pre = []" using pre agree by (cases pre) auto
    have "\<forall>q \<in> set (pending_rows db'). is_due run tip q \<longrightarrow>
        pend_scheduled_height p < pend_scheduled_height q \<or>
        pend_scheduled_height p = pend_scheduled_height q \<and> pend_txid p \<le> pend_txid q"
      using two_sorts_head [OF rows [unfolded due_rows_def]] mem \<open>pre = []\<close> by auto
    moreover have "p \<in> set (pending_rows db')" "is_due run tip p" using mem by auto
    moreover have "\<not> mined W (pend_txid p)" using p(1) by (simp add: mined_def)
    ultimately show ?thesis using p salt by (intro disjI2 bexI [of _ p] exI [of _ salt] exI [of _ raw]) auto
  qed
qed

section \<open>Marking for a new signature\<close>

lemma ready_for_resign_simps [simp]:
  "pending_rows (ready_for_resign now run m db) = pending_rows db"
  "note_rows (ready_for_resign now run m db) = note_rows db"
  "signed_rows (ready_for_resign now run m db) = signed_rows db"
  "stages_db (ready_for_resign now run m db) = stages_db db"
  "parts_of (ready_for_resign now run m db) r = parts_of db r"
  by (simp_all add: ready_for_resign_def)

lemma ready_for_resign_phase:
  "r \<in> set (run_rows (ready_for_resign now run m db)) \<Longrightarrow> run_key r = run \<Longrightarrow> run_phase r = PHASE_READY_TO_MIGRATE"
  unfolding ready_for_resign_def update_simps set_map by (elim imageE) (simp split: if_splits)

definition marked :: "(pending_row \<Rightarrow> bool) \<Rightarrow> pending_row \<Rightarrow> pending_row" where
  "marked P p = (if P p then set_status ''needs_resign'' p else p)"

text \<open>Both marking operations end in this form: the table is marked, and the run waits for signatures
  when a part was marked.\<close>

definition marks :: "string \<Rightarrow> (pending_row \<Rightarrow> bool) \<Rightarrow> migration_db \<Rightarrow> nat \<Rightarrow> migration_db \<Rightarrow> bool" where
  "marks run P db n db' \<longleftrightarrow>
     pending_rows db' = map (marked P) (pending_rows db) \<and> n = length (filter P (pending_rows db)) \<and>
     (n > 0 \<longrightarrow> (\<forall>r \<in> set (run_rows db'). run_key r = run \<longrightarrow> run_phase r = PHASE_READY_TO_MIGRATE)) \<and>
     (n = 0 \<longrightarrow> run_rows db' = run_rows db)"

lemma mark_due_Ok:
  assumes "mark_due_parts_with_noncanonical_broadcast_height_for_resign J W required clock run tip db = (Ok n, db')"
  obtains expiry db1 where "canonical_expiry tip = Ok expiry"
    "reconcile_run_confirmations J W required clock run (ensure_tables db) = (Ok (), db1)"
    "marks run (\<lambda>p. is_due run tip p \<and> pend_expiry_height p \<noteq> expiry) db1 n db'"
proof -
  let ?P = "\<lambda>expiry p. pend_run_id p = run \<and> pend_status p = ''scheduled''
                     \<and> pend_scheduled_height p \<le> tip \<and> pend_expiry_height p \<noteq> expiry"
  let ?ready = "\<lambda>affected. if affected > (0::nat) then modify (ready_for_resign (clock 2) run boundary_message)
      else yield () :: (migration_db, part_error, unit) action"
  let ?tx = "\<lambda>expiry. andthen (reconcile_run_confirmations J W required clock run) (\<lambda>_.
        andthen (execute_parts (?P expiry) (set_status ''needs_resign'')) (\<lambda>affected.
        andthen (?ready affected) (\<lambda>_. yield affected)))"
  from assms have "andthen (lift_outcome (canonical_expiry tip)) (\<lambda>expiry. andthen (atomically (?tx expiry))
       (\<lambda>affected. lift_outcome (if affected \<le> u32_max then Ok affected else Err RecoveryCountOverflow)))
       (ensure_tables db) = (Ok n, db')"
    unfolding mark_due_parts_with_noncanonical_broadcast_height_for_resign_def opened_run .
  then obtain expiry where expiry: "canonical_expiry tip = Ok expiry" and
    rest: "andthen (atomically (?tx expiry))
       (\<lambda>affected. lift_outcome (if affected \<le> u32_max then Ok affected else Err RecoveryCountOverflow))
       (ensure_tables db) = (Ok n, db')"
    unfolding andthen_lift_Ok by blast
  from rest have tx: "?tx expiry (ensure_tables db) = (Ok n, db')"
    unfolding andthen_Ok [of "atomically _"] atomically_Ok lift_Ok by (auto split: if_splits)
  then obtain db1 where rec: "reconcile_run_confirmations J W required clock run (ensure_tables db) = (Ok (), db1)"
    and rest: "andthen (execute_parts (?P expiry) (set_status ''needs_resign'')) (\<lambda>affected.
        andthen (?ready affected) (\<lambda>_. yield affected)) db1 = (Ok n, db')"
    unfolding andthen_Ok [of "reconcile_run_confirmations _ _ _ _ _"] by auto
  define db2 where "db2 = update_parts (?P expiry) (set_status ''needs_resign'') db1"
  define k where "k = length (filter (?P expiry) (pending_rows db1))"
  have "andthen (?ready k) (\<lambda>_. yield k) db2 = (Ok n, db')"
    using rest unfolding db2_def k_def by (simp add: andthen_def execute_parts_def split: prod.splits outcome.splits)
  then have "n = k" "db' = (if k > 0 then ready_for_resign (clock 2) run boundary_message db2 else db2)"
    by (auto simp: andthen_def run_basic split: if_splits)
  moreover have "is_due run tip p \<and> pend_expiry_height p \<noteq> expiry \<longleftrightarrow> ?P expiry p" for p
    by (auto simp: is_due_def)
  ultimately have "marks run (\<lambda>p. is_due run tip p \<and> pend_expiry_height p \<noteq> expiry) db1 n db'"
    using ready_for_resign_phase
    by (auto simp: marks_def marked_def [abs_def] db2_def k_def)
  with expiry rec show thesis by (rule that)
qed

text \<open>The expired parts: scheduled ones, and broadcast ones the wallet holds a copy of.\<close>

definition part_expired :: "wallet_chain \<Rightarrow> string \<Rightarrow> u32 \<Rightarrow> pending_row \<Rightarrow> bool" where
  "part_expired W run tip p \<longleftrightarrow>
     pend_run_id p = run \<and> 0 < pend_expiry_height p \<and> pend_expiry_height p \<le> tip \<and>
     (pend_status p = ''scheduled'' \<or>
      pend_status p = ''broadcasted'' \<and> (\<exists>raw. local_transaction_raw W (pend_txid p) = Ok (Some raw)))"

lemma expired_among_Ok:
  assumes "expired_among W tip ps = Ok es"
  shows "es = map pend_txid (filter (\<lambda>p. pending_row_is_expired_for_resign W (pend_status p)
      (pend_expiry_height p) tip (pend_txid p) = Ok True) ps)"
  using assms by (induction ps arbitrary: es) (auto simp: outcome_simps split: if_splits)

lemma row_expired_iff:
  "pending_row_is_expired_for_resign W (pend_status p) (pend_expiry_height p) tip (pend_txid p) = Ok True \<and>
     pend_run_id p = run \<longleftrightarrow> part_expired W run tip p"
  by (auto simp: pending_row_is_expired_for_resign_def part_expired_def outcome_simps)

lemma expired_txids:
  assumes "expired_unconfirmed_pending_txids W db run tip = Ok es" "unique_txids db"
    "p \<in> set (pending_rows db)"
  shows "pend_run_id p = run \<and> pend_txid p \<in> set es \<and> pend_status p \<in> {''scheduled'', ''broadcasted''}
    \<longleftrightarrow> part_expired W run tip p"
proof -
  let ?E = "\<lambda>p. pending_row_is_expired_for_resign W (pend_status p) (pend_expiry_height p) tip (pend_txid p) = Ok True"
  have es: "set es = pend_txid ` {q \<in> set (parts_of db run). pend_status q \<in> {''scheduled'', ''broadcasted''}
      \<and> pend_expiry_height q > 0 \<and> pend_expiry_height q \<le> tip \<and> ?E q}"
    using expired_among_Ok [OF assms(1) [unfolded expired_unconfirmed_pending_txids_def]] by auto
  have "part_expired W run tip p" if "pend_txid p \<in> set es"
  proof -
    from that es obtain q where q: "q \<in> set (parts_of db run)" "pend_txid p = pend_txid q" "?E q" by auto
    then have "p = q" using same_part [OF assms(2,3)] by (auto simp: parts_of_def)
    then show ?thesis using q row_expired_iff [of W p tip run] by (auto simp: parts_of_def)
  qed
  moreover have "pend_txid p \<in> set es \<and> pend_run_id p = run \<and> pend_status p \<in> {''scheduled'', ''broadcasted''}"
    if e: "part_expired W run tip p"
  proof -
    have "?E p" using e row_expired_iff [of W p tip run] by blast
    moreover have "p \<in> set (parts_of db run)" using e assms(3) by (auto simp: part_expired_def parts_of_def)
    moreover have "pend_status p \<in> {''scheduled'', ''broadcasted''}" "0 < pend_expiry_height p"
      "pend_expiry_height p \<le> tip" using e by (auto simp: part_expired_def)
    ultimately show ?thesis using es e by (auto simp: part_expired_def)
  qed
  ultimately show ?thesis by blast
qed

lemma count_disjoint:
  "(\<And>p. B p \<longleftrightarrow> A p \<or> C p) \<Longrightarrow> (\<And>p. \<not> (A p \<and> C p)) \<Longrightarrow>
    length (filter A ps) + length (filter C ps) = length (filter B ps)"
  by (induction ps) auto

lemma mark_all_Ok:
  assumes "accumulate (mark_for_resign run) n ts db = (Ok m, db')"
  shows "db' = db\<lparr>pending_rows := map (marked (\<lambda>p. pend_run_id p = run \<and> pend_txid p \<in> set ts \<and>
      pend_status p \<in> {''scheduled'', ''broadcasted''})) (pending_rows db)\<rparr> \<and>
    m = n + length (filter (\<lambda>p. pend_run_id p = run \<and> pend_txid p \<in> set ts \<and>
      pend_status p \<in> {''scheduled'', ''broadcasted''}) (pending_rows db))"
  using assms
proof (induction ts arbitrary: n db)
  case Nil
  then show ?case by (simp add: marked_def [abs_def])
next
  case (Cons t ts)
  let ?one = "\<lambda>p. is_part run t p \<and> pend_status p \<in> {''scheduled'', ''broadcasted''}"
  let ?all = "\<lambda>ts p. pend_run_id p = run \<and> pend_txid p \<in> set ts \<and> pend_status p \<in> {''scheduled'', ''broadcasted''}"
  let ?db1 = "update_parts ?one (set_status ''needs_resign'') db"
  have step: "mark_for_resign run n t db = (Ok (n + length (filter ?one (pending_rows db))), ?db1)"
    by (simp add: mark_for_resign_def andthen_def execute_parts_def run_basic)
  have rest: "accumulate (mark_for_resign run) (n + length (filter ?one (pending_rows db))) ts ?db1 = (Ok m, db')"
    using Cons.prems by (simp add: andthen_def step)
  have after_one: "?all ts (marked ?one p) \<longleftrightarrow> ?all ts p \<and> \<not> ?one p" for p by (auto simp: marked_def)
  have both: "?all (t # ts) p \<longleftrightarrow> ?one p \<or> ?all ts p \<and> \<not> ?one p" for p by (auto simp: is_part_def)
  have marks: "marked (?all ts) (marked ?one p) = marked (?all (t # ts)) p" for p
    using after_one [of p] both [of p] by (simp only: marked_def split: if_split) auto
  have count: "length (filter ?one ps) + length (filter (\<lambda>p. ?all ts (marked ?one p)) ps)
      = length (filter (?all (t # ts)) ps)" for ps
    by (rule count_disjoint) (use after_one both in blast)+
  have rows1: "pending_rows ?db1 = map (marked ?one) (pending_rows db)" by (simp add: marked_def [abs_def])
  have rows: "map (marked (?all ts)) (pending_rows ?db1) = map (marked (?all (t # ts))) (pending_rows db)"
    by (simp only: rows1 map_map comp_def marks)
  have size: "length (filter (?all ts) (pending_rows ?db1)) =
      length (filter (\<lambda>p. ?all ts (marked ?one p)) (pending_rows db))"
    by (simp only: rows1 filter_map length_map comp_def)
  have frame: "?db1\<lparr>pending_rows := xs\<rparr> = db\<lparr>pending_rows := xs\<rparr>" for xs
    by (simp add: update_parts_def)
  have "db' = db\<lparr>pending_rows := map (marked (?all (t # ts))) (pending_rows db)\<rparr>"
    using Cons.IH [OF rest] unfolding rows frame by blast
  moreover have "m = n + length (filter (?all (t # ts)) (pending_rows db))"
    using Cons.IH [OF rest] count [of "pending_rows db"] unfolding size by linarith
  ultimately show ?case by blast
qed

lemma marks_cong:
  assumes "\<And>p. p \<in> set (pending_rows db) \<Longrightarrow> P p = Q p"
  shows "marks run P db n db' = marks run Q db n db'"
proof -
  have "map (marked P) (pending_rows db) = map (marked Q) (pending_rows db)"
    using assms by (intro map_cong) (auto simp: marked_def)
  moreover have "filter P (pending_rows db) = filter Q (pending_rows db)" using assms by (rule filter_cong [OF HOL.refl])
  ultimately show ?thesis unfolding marks_def by (simp only:)
qed

lemma mark_expired_Ok:
  assumes "mark_expired_pending_parts_for_resign J W required clock run tip db = (Ok n, db')"
    "\<And>db1. reconcile_run_confirmations J W required clock run (ensure_tables db) = (Ok (), db1) \<Longrightarrow> unique_txids db1"
  obtains db1 where "reconcile_run_confirmations J W required clock run (ensure_tables db) = (Ok (), db1)"
    "marks run (part_expired W run tip) db1 n db'"
proof -
  let ?ready = "\<lambda>updated. if updated > (0::nat) then modify (ready_for_resign (clock 2) run expired_message)
      else yield () :: (migration_db, part_error, unit) action"
  let ?mark = "\<lambda>es. andthen (accumulate (mark_for_resign run) 0 es) (\<lambda>updated.
        andthen (?ready updated) (\<lambda>_. yield updated))"
  let ?tx = "andthen (reconcile_run_confirmations J W required clock run) (\<lambda>_. with_state (\<lambda>db.
        andthen (lift_outcome (expired_unconfirmed_pending_txids W db run tip)) ?mark))"
  have "andthen (atomically ?tx)
       (\<lambda>updated. lift_outcome (if updated \<le> u32_max then Ok updated else Err RecoveryCountOverflow))
       (ensure_tables db) = (Ok n, db')"
    using assms(1) unfolding mark_expired_pending_parts_for_resign_def opened_run .
  then have tx: "?tx (ensure_tables db) = (Ok n, db')"
    unfolding andthen_Ok [of "atomically _"] atomically_Ok lift_Ok by (auto split: if_splits)
  then obtain db1 where rec: "reconcile_run_confirmations J W required clock run (ensure_tables db) = (Ok (), db1)"
    and rest: "andthen (lift_outcome (expired_unconfirmed_pending_txids W db1 run tip)) ?mark db1 = (Ok n, db')"
    unfolding andthen_Ok [of "reconcile_run_confirmations _ _ _ _ _"] run_basic by auto
  from rest obtain es where es: "expired_unconfirmed_pending_txids W db1 run tip = Ok es" and
    mark: "?mark es db1 = (Ok n, db')"
    unfolding andthen_lift_Ok by blast
  from mark obtain k db2 where acc: "accumulate (mark_for_resign run) 0 es db1 = (Ok k, db2)" and
    last: "andthen (?ready k) (\<lambda>_. yield k) db2 = (Ok n, db')"
    unfolding andthen_Ok [of "accumulate _ _ _"] by blast
  let ?P = "\<lambda>p. pend_run_id p = run \<and> pend_txid p \<in> set es \<and> pend_status p \<in> {''scheduled'', ''broadcasted''}"
  have "n = k" "db' = (if k > 0 then ready_for_resign (clock 2) run expired_message db2 else db2)"
    using last by (auto simp: andthen_def run_basic split: if_splits)
  moreover have "pending_rows db2 = map (marked ?P) (pending_rows db1)" "run_rows db2 = run_rows db1"
    "k = length (filter ?P (pending_rows db1))"
    using mark_all_Ok [OF acc] by simp_all
  ultimately have "marks run ?P db1 n db'"
    using ready_for_resign_phase unfolding marks_def by (cases "k > 0") (simp_all only: if_True if_False ready_for_resign_simps, blast+)
  moreover have "marks run ?P db1 n db' = marks run (part_expired W run tip) db1 n db'"
    by (rule marks_cong) (rule expired_txids [OF es assms(2) [OF rec]])
  ultimately have "marks run (part_expired W run tip) db1 n db'" by (simp only:)
  with rec show thesis by (rule that)
qed

lemma reconcile_keeps_unique:
  assumes "reconcile_run_confirmations J W required clock run db = (Ok (), db')" "has_transactions W"
    "unique_txids db"
  shows "unique_txids db'"
proof -
  have "map pend_txid (pending_rows db') = map pend_txid (pending_rows db)"
    unfolding reconcile_rows(1) [OF assms] by auto
  then show ?thesis using assms(3) by (simp add: unique_txids_def)
qed

end
