(* ===== verification/PartReschedule.thy ===== *)
theory PartReschedule
  imports PartBroadcast
begin

text \<open>
  New broadcast heights for scheduled parts (\<open>rust/src/wallet/sync/migration.rs\<close>): the random
  redraw of the overdue parts of a run or of the whole wallet, and the receipt with which the
  background broadcaster reports an accepted part and the heights it has drawn for the others.
\<close>

section \<open>Redrawing overdue parts\<close>

definition is_scheduled_part :: "string \<Rightarrow> string \<Rightarrow> pending_row \<Rightarrow> bool" where
  "is_scheduled_part run_id txid p \<longleftrightarrow> is_part run_id txid p \<and> pend_status p = ''scheduled''"

definition redraw_row :: "u32 \<Rightarrow> u32 \<Rightarrow> nat \<Rightarrow> pending_row \<Rightarrow> pending_row" where
  "redraw_row height start at p =
     p\<lparr>pend_scheduled_height := height, pend_start_height := Some start, pend_scheduled_at_ms := at\<rparr>"

definition reschedule_step ::
  "nat \<Rightarrow> string \<Rightarrow> u32 \<Rightarrow> u32 \<Rightarrow> bool \<Rightarrow> (string \<times> u32) \<times> u32 \<Rightarrow> (migration_db, part_error, bool) action" where
  "reschedule_step now run_id tip minimum_delay needs_resign = (\<lambda>((txid, expiry_height), offset).
     let effective_offset = max offset minimum_delay in
     andthen (lift_outcome (ok_or (checked_add u32_max tip effective_offset) RescheduleOverflow)) (\<lambda>height.
     andthen (lift_outcome (canonical_expiry height)) (\<lambda>expiry.
       if expiry \<noteq> expiry_height
       then andthen (modify (update_parts (is_scheduled_part run_id txid) (set_status ''needs_resign'')))
              (\<lambda>_. yield True)
       else andthen (lift_outcome (ok_or (checked_add i64_max now (effective_offset * 1000)) TimeOverflow)) (\<lambda>at.
            andthen (modify (update_parts (is_scheduled_part run_id txid) (redraw_row height tip at)))
              (\<lambda>_. yield needs_resign)))))"

definition overdue_parts :: "migration_db \<Rightarrow> string \<Rightarrow> u32 \<Rightarrow> string option \<Rightarrow> (string \<times> u32) list" where
  "overdue_parts db run_id tip excluded =
     filter (\<lambda>(txid, expiry). Some txid \<noteq> excluded)
       (map (\<lambda>p. (pend_txid p, pend_expiry_height p))
          (filter (\<lambda>p. pend_status p = ''scheduled'' \<and> pend_scheduled_height p \<le> tip) (parts_of db run_id)))"

definition reschedule_tx ::
  "(nat \<Rightarrow> nat) \<Rightarrow> string \<Rightarrow> u32 \<Rightarrow> u32 \<Rightarrow> ((string \<times> u32) \<times> u32) list \<Rightarrow> (migration_db, part_error, unit) action" where
  "reschedule_tx clock run_id tip minimum_delay moves = atomically
     (andthen (accumulate (reschedule_step (clock 0) run_id tip minimum_delay) False moves) (\<lambda>needs_resign.
        if needs_resign then modify (ready_for_resign (clock 1) run_id schedule_message) else yield ()))"

text \<open>\<open>None\<close> is a draw that never comes into range.\<close>

definition reschedule_overdue_pending_txs_with_options ::
  "'r rng_env \<Rightarrow> json_env \<Rightarrow> (nat \<Rightarrow> nat) \<Rightarrow> string \<Rightarrow> wallet_network \<Rightarrow> u32 \<Rightarrow> u32 \<Rightarrow> string option \<Rightarrow> 'r \<Rightarrow>
    migration_db \<Rightarrow> ((part_error, unit) outcome \<times> migration_db) option" where
  "reschedule_overdue_pending_txs_with_options G J clock run_id network tip minimum_delay excluded rng db0 =
     (let db = ensure_tables db0; overdue = overdue_parts db run_id tip excluded in
      if overdue = [] then Some (Ok (), db)
      else let (perm, rng') = shuffle_perm G rng (length overdue); txids = map ((!) overdue) perm in
        case obind (timing_policy_for_run_with_conn db run_id) (\<lambda>policy.
             obind (planned_part_count_with_conn J db run_id) (\<lambda>planned.
               Ok (schedule_parameters_with_policy_for_part_count network policy planned))) of
          Err e \<Rightarrow> Some (Err e, db)
        | Panic \<Rightarrow> Some (Panic, db)
        | Ok (mean, max_delay) \<Rightarrow>
            map_option (\<lambda>drawn. case drawn of
                Err e \<Rightarrow> (Err (PartScheduleFailed e), db)
              | Panic \<Rightarrow> (Panic, db)
              | Ok (offsets, rng'') \<Rightarrow> reschedule_tx clock run_id tip minimum_delay (zip txids offsets) db)
              (random_schedule_block_offsets_with_rng G (length txids) mean max_delay rng'))"

definition reschedule_overdue_pending_txs ::
  "'r rng_env \<Rightarrow> json_env \<Rightarrow> (nat \<Rightarrow> nat) \<Rightarrow> string \<Rightarrow> wallet_network \<Rightarrow> u32 \<Rightarrow> 'r \<Rightarrow>
    migration_db \<Rightarrow> ((part_error, unit) outcome \<times> migration_db) option" where
  "reschedule_overdue_pending_txs G J clock run_id network tip rng =
     reschedule_overdue_pending_txs_with_options G J clock run_id network tip 0 None rng"

text \<open>The runs of the network with an overdue part, in the order of their ids.\<close>

definition overdue_runs :: "migration_db \<Rightarrow> wallet_network \<Rightarrow> u32 \<Rightarrow> string list" where
  "overdue_runs db network tip =
     sort (remdups (map pend_run_id (filter (\<lambda>p. pend_status p = ''scheduled'' \<and> pend_scheduled_height p \<le> tip
       \<and> list_ex (\<lambda>r. run_key r = pend_run_id p \<and> run_network r = network_name network) (run_rows db))
       (pending_rows db))))"

text \<open>\<open>rngs i\<close> and \<open>clocks i\<close> are the generator and the clock at the \<open>i\<close>-th run.\<close>

fun reschedule_runs ::
  "(nat \<Rightarrow> string \<Rightarrow> migration_db \<Rightarrow> ((part_error, unit) outcome \<times> migration_db) option) \<Rightarrow> nat \<Rightarrow> string list \<Rightarrow>
    migration_db \<Rightarrow> ((part_error, unit) outcome \<times> migration_db) option" where
  "reschedule_runs f i [] db = Some (Ok (), db)"
| "reschedule_runs f i (run_id # run_ids) db =
     Option.bind (f i run_id db) (\<lambda>(result, db').
       case result of Ok u \<Rightarrow> reschedule_runs f (Suc i) run_ids db' | other \<Rightarrow> Some (other, db'))"

definition reschedule_wallet_overdue_pending_txs_with_exclusion ::
  "'r rng_env \<Rightarrow> json_env \<Rightarrow> (nat \<Rightarrow> nat \<Rightarrow> nat) \<Rightarrow> wallet_network \<Rightarrow> u32 \<Rightarrow> (string \<times> string) option \<Rightarrow>
    (nat \<Rightarrow> 'r) \<Rightarrow> migration_db \<Rightarrow> ((part_error, unit) outcome \<times> migration_db) option" where
  "reschedule_wallet_overdue_pending_txs_with_exclusion G J clocks network tip excluded rngs db0 =
     (let db = ensure_tables db0 in
      reschedule_runs (\<lambda>i run_id.
          reschedule_overdue_pending_txs_with_options G J (clocks i) run_id network tip 1
            (case excluded of
               Some (excluded_run_id, excluded_txid) \<Rightarrow> if run_id = excluded_run_id then Some excluded_txid else None
             | None \<Rightarrow> None) (rngs i))
        0 (overdue_runs db network tip) db)"

definition reschedule_wallet_overdue_pending_txs ::
  "'r rng_env \<Rightarrow> json_env \<Rightarrow> (nat \<Rightarrow> nat \<Rightarrow> nat) \<Rightarrow> wallet_network \<Rightarrow> u32 \<Rightarrow> (nat \<Rightarrow> 'r) \<Rightarrow>
    migration_db \<Rightarrow> ((part_error, unit) outcome \<times> migration_db) option" where
  "reschedule_wallet_overdue_pending_txs G J clocks network tip rngs =
     reschedule_wallet_overdue_pending_txs_with_exclusion G J clocks network tip None rngs"

definition reschedule_wallet_overdue_pending_txs_after_accepted ::
  "'r rng_env \<Rightarrow> json_env \<Rightarrow> (nat \<Rightarrow> nat \<Rightarrow> nat) \<Rightarrow> wallet_network \<Rightarrow> u32 \<Rightarrow> string \<Rightarrow> string \<Rightarrow> (nat \<Rightarrow> 'r) \<Rightarrow>
    migration_db \<Rightarrow> ((part_error, unit) outcome \<times> migration_db) option" where
  "reschedule_wallet_overdue_pending_txs_after_accepted G J clocks network tip accepted_run_id accepted_txid rngs =
     reschedule_wallet_overdue_pending_txs_with_exclusion G J clocks network tip
       (Some (accepted_run_id, accepted_txid)) rngs"

section \<open>The receipt of an accepted part\<close>

definition migration_outbox_run_phase_with_conn ::
  "migration_db \<Rightarrow> string \<Rightarrow> wallet_network \<Rightarrow> string \<Rightarrow> (part_error, string) outcome" where
  "migration_outbox_run_phase_with_conn db account_uuid network run_id =
     obind (ok_or (List.find (\<lambda>r. run_key r = run_id \<and> run_account r = account_uuid
                     \<and> run_network r = network_name network) (run_rows db)) ReceiptWrongRun)
       (\<lambda>r. Ok (run_phase r))"

definition find_lower_part :: "migration_db \<Rightarrow> string \<Rightarrow> string \<Rightarrow> pending_row option" where
  "find_lower_part db run_id lower_txid =
     List.find (\<lambda>p. pend_run_id p = run_id \<and> to_ascii_lowercase (pend_txid p) = lower_txid) (pending_rows db)"

definition migration_outbox_tx_state ::
  "migration_db \<Rightarrow> string \<Rightarrow> wallet_network \<Rightarrow> string \<Rightarrow> string \<Rightarrow> (part_error, outbox_tx_state) outcome" where
  "migration_outbox_tx_state db account_uuid network run_id txid_hex =
     obind (migration_outbox_run_phase_with_conn db account_uuid network run_id) (\<lambda>phase.
     obind (ok_or (find_lower_part db run_id (to_ascii_lowercase txid_hex)) ReceiptTxNotFound) (\<lambda>p.
       Ok \<lparr>obx_run_phase = phase, obx_status = pend_status p, obx_expiry_height = pend_expiry_height p\<rparr>))"

text \<open>One schedule update: \<open>supplied\<close> are the updates so far, by lower-case item id.\<close>

definition check_update ::
  "string \<Rightarrow> u32 \<Rightarrow> u32 \<Rightarrow> (string \<times> outbox_update) list \<times> u32 \<Rightarrow> outbox_update \<Rightarrow>
    (part_error, (string \<times> outbox_update) list \<times> u32) outcome" where
  "check_update accepted_txid remote_height timing_max = (\<lambda>(supplied, previous) u.
     let item_id = to_ascii_lowercase (upd_item_id u) in
     if item_id = accepted_txid then Err ReceiptSelfReschedule
     else if item_id \<in> fst ` set supplied then Err (ReceiptDuplicateUpdate item_id)
     else if upd_schedule_start_height u \<noteq> remote_height then Err (ReceiptWrongStart item_id)
     else obind (ok_or (checked_sub (upd_scheduled_height u) previous) (ReceiptMovesBackward item_id)) (\<lambda>delay.
       if delay = 0 \<or> delay > timing_max then Err (ReceiptOutsideWindow item_id)
       else Ok (supplied @ [(item_id, u)], upd_scheduled_height u)))"

definition overdue_peers :: "migration_db \<Rightarrow> string \<Rightarrow> u32 \<Rightarrow> string \<Rightarrow> string set" where
  "overdue_peers db run_id remote_height txid_hex =
     set (map (\<lambda>p. to_ascii_lowercase (pend_txid p))
       (filter (\<lambda>p. pend_status p = ''scheduled'' \<and> pend_scheduled_height p \<le> remote_height
          \<and> pend_expiry_height p > remote_height
          \<and> to_ascii_lowercase (pend_txid p) \<noteq> to_ascii_lowercase txid_hex) (parts_of db run_id)))"

definition is_lower_scheduled :: "string \<Rightarrow> string \<Rightarrow> pending_row \<Rightarrow> bool" where
  "is_lower_scheduled run_id item_id p \<longleftrightarrow> pend_run_id p = run_id
     \<and> to_ascii_lowercase (pend_txid p) = item_id \<and> pend_status p = ''scheduled''"

definition apply_update :: "string \<Rightarrow> bool \<Rightarrow> string \<times> outbox_update \<Rightarrow> (migration_db, part_error, bool) action" where
  "apply_update run_id crossed = (\<lambda>(item_id, u).
     with_state (\<lambda>db.
     andthen (lift_outcome (ok_or (find_lower_part db run_id item_id) (ReceiptItemNotFound item_id))) (\<lambda>p.
     andthen (lift_outcome (canonical_expiry (upd_scheduled_height u))) (\<lambda>expiry.
       if pend_status p = ''scheduled'' then
         if expiry \<noteq> pend_expiry_height p
         then andthen (modify (update_parts (is_lower_scheduled run_id item_id) (set_status ''needs_resign'')))
                (\<lambda>_. yield True)
         else andthen (modify (update_parts (is_lower_scheduled run_id item_id)
                (\<lambda>p. p\<lparr>pend_scheduled_height := upd_scheduled_height u,
                        pend_start_height := Some (upd_schedule_start_height u)\<rparr>)))
                (\<lambda>_. yield crossed)
       else if pend_scheduled_height p \<noteq> upd_scheduled_height u
               \<or> pend_start_height p \<noteq> Some (upd_schedule_start_height u)
       then lift_outcome (Err (ReceiptItemNotScheduled item_id))
       else yield crossed))))"

text \<open>What the receipt is checked against before anything is written.\<close>

definition check_receipt ::
  "migration_db \<Rightarrow> string \<Rightarrow> wallet_network \<Rightarrow> string \<Rightarrow> string \<Rightarrow> u32 \<Rightarrow> outbox_update list \<Rightarrow>
    (part_error, string \<times> (string \<times> outbox_update) list) outcome" where
  "check_receipt db account_uuid network run_id txid_hex remote_height schedule_updates =
     obind (migration_outbox_run_phase_with_conn db account_uuid network run_id) (\<lambda>_.
     obind (ok_or (find_lower_part db run_id (to_ascii_lowercase txid_hex)) ReceiptTxNotFound) (\<lambda>accepted.
     if pend_status accepted \<notin> {''scheduled'', ''broadcasted'', ''confirmed'', ''needs_resign''}
     then Err (ReceiptBadStatus (pend_status accepted))
     else obind (timing_policy_for_run_with_conn db run_id) (\<lambda>policy.
       obind (foldM (check_update (to_ascii_lowercase txid_hex) remote_height
                (snd (schedule_parameters_with_policy network policy))) ([], remote_height) schedule_updates)
         (\<lambda>(supplied, previous).
           if pend_status accepted = ''scheduled''
              \<and> fst ` set supplied \<noteq> overdue_peers db run_id remote_height txid_hex
           then Err ReceiptWrongItems
           else Ok (pend_status accepted, sort_key fst supplied)))))"

definition apply_accepted_migration_outbox_receipt ::
  "json_env \<Rightarrow> (nat \<Rightarrow> nat) \<Rightarrow> string \<Rightarrow> wallet_network \<Rightarrow> string \<Rightarrow> string \<Rightarrow> u32 \<Rightarrow> outbox_update list \<Rightarrow>
    (migration_db, part_error, unit) action" where
  "apply_accepted_migration_outbox_receipt J clock account_uuid network run_id txid_hex remote_height
       schedule_updates =
     opened (atomically (with_state (\<lambda>db.
       andthen (lift_outcome (check_receipt db account_uuid network run_id txid_hex remote_height schedule_updates))
         (\<lambda>(accepted_status, supplied).
       andthen (accumulate (apply_update run_id) False supplied) (\<lambda>crossed.
       andthen (if crossed then modify (ready_for_resign (clock 0) run_id schedule_message) else yield ()) (\<lambda>_.
         if accepted_status = ''scheduled'' \<or> accepted_status = ''needs_resign''
         then andthen (modify (update_parts (\<lambda>p. pend_run_id p = run_id
                  \<and> to_ascii_lowercase (pend_txid p) = to_ascii_lowercase txid_hex
                  \<and> pend_status p \<in> {''scheduled'', ''needs_resign''}) (set_status ''broadcasted''))) (\<lambda>_.
              update_run_after_pending_broadcast J (clock 1) run_id)
         else yield ()))))))"

end
