(* ===== verification/PartInvariant.thy ===== *)
theory PartInvariant
  imports PartBroadcastProps PartReschedule ScheduleProps
begin

text \<open>
  What the operations on the parts keep: no statement but the insertion writes a signed column, and
  in every state a scheduled part has the canonical expiry of its broadcast height unless a reorg put
  it back on the schedule.
\<close>

section \<open>Actions with checks\<close>

context state_relation begin

lemma within_checked:
  "(\<And>x. m = Ok x \<Longrightarrow> within R (k x)) \<Longrightarrow> within R (andthen (lift_outcome m) k)"
  by (cases m) (auto simp: within_def andthen_lift refl)

lemma within_accumulate_set:
  "(\<And>acc x. x \<in> set xs \<Longrightarrow> within R (f acc x)) \<Longrightarrow> within R (accumulate f acc xs)"
proof (induction xs arbitrary: acc)
  case Nil
  show ?case by (simp add: within_def refl)
next
  case (Cons x xs)
  have "within R (andthen (f acc x) (\<lambda>acc'. accumulate f acc' xs))"
    using Cons by (intro within_andthen) auto
  then show ?case by (simp add: within_def)
qed

lemma within_modify_andthen:
  "(\<And>s. R s (f s)) \<Longrightarrow> within R (k ()) \<Longrightarrow> within R (andthen (modify f) k)"
  by (rule within_andthen [OF within_modify]) simp_all

end

section \<open>The signed columns\<close>

definition signed_part ::
  "pending_row \<Rightarrow> (string \<times> string \<times> nat option \<times> string \<times> string) \<times> (nat \<times> nat option \<times> nat \<times> nat \<times> nat)
    \<times> (string \<times> nat \<times> nat \<times> nat option)" where
  "signed_part p =
     ((pend_run_id p, pend_txid p, pend_part_index p, pend_raw p, pend_metadata p),
      (pend_target_height p, pend_anchor_height p, pend_expiry_height p, pend_value p, pend_fee p),
      (pend_note_txid p, pend_note_index p, pend_note_value p, pend_original_height p))"

definition keeps_signed :: "migration_db \<Rightarrow> migration_db \<Rightarrow> bool" where
  "keeps_signed db db' \<longleftrightarrow> map signed_part (pending_rows db') = map signed_part (pending_rows db)"

interpretation signed_kept: state_relation keeps_signed
  by unfold_locales (auto simp: keeps_signed_def)

lemma signed_rows_same: "pending_rows db' = pending_rows db \<Longrightarrow> keeps_signed db db'"
  by (simp add: keeps_signed_def)

lemma signed_update: "(\<And>p. signed_part (f p) = signed_part p) \<Longrightarrow> keeps_signed db (update_parts P f db)"
  by (simp add: keeps_signed_def)

lemma signed_updates [simp]:
  "signed_part (set_status s p) = signed_part p" "signed_part (unconfirm_row now p) = signed_part p"
  "signed_part (redraw_row h start at p) = signed_part p" "signed_part (p\<lparr>pend_attempted := n\<rparr>) = signed_part p"
  "signed_part (p\<lparr>pend_scheduled_height := h, pend_start_height := Some start\<rparr>) = signed_part p"
  by (simp_all add: signed_part_def set_status_def unconfirm_row_def redraw_row_def)

lemma signed_live: "(\<And>p. signed_part (f p) = signed_part p) \<Longrightarrow> keeps_signed db (modify_live run (update_parts P f) db)"
  by (simp add: modify_live_def signed_update signed_kept.refl)

lemma signed_opened: "within keeps_signed m \<Longrightarrow> within keeps_signed (opened m)"
  unfolding opened_def by (intro signed_kept.within_modify_andthen signed_rows_same) simp_all

lemma signed_execute:
  "(\<And>p. signed_part (f p) = signed_part p) \<Longrightarrow> within keeps_signed (execute_parts P f)"
  by (simp add: within_def execute_parts_def signed_update)

lemmas signed_intros = signed_kept.within_intros signed_kept.within_modify signed_opened signed_execute
  signed_live signed_update signed_rows_same

lemma signed_confirm_step: "within keeps_signed (confirm_step W now run b x)"
proof -
  obtain txid state where "x = (txid, state)" by (metis surj_pair)
  then show ?thesis unfolding confirm_step_def by simp (intro signed_intros; simp)
qed

lemma signed_finish: "within keeps_signed (finish_confirmations J W required clock run ph n)"
  unfolding finish_confirmations_def by (intro signed_intros) simp_all

lemma signed_reconcile: "within keeps_signed (reconcile_run_confirmations J W required clock run)"
  unfolding reconcile_run_confirmations_def
  by (intro signed_intros signed_confirm_step signed_finish) simp_all

lemma signed_pending_reconcile: "within keeps_signed (reconcile_run_pending_confirmations J W required clock run)"
  unfolding reconcile_run_pending_confirmations_def by (intro signed_opened signed_reconcile)

lemma signed_attempt: "within keeps_signed (mark_pending_broadcast_attempted run txid)"
  unfolding mark_pending_broadcast_attempted_def by (intro signed_intros) simp_all

lemma signed_due: "within keeps_signed (due_pending_txs env J W required clock run tip password salt64)"
  unfolding due_pending_txs_def by (intro signed_intros signed_pending_reconcile)

lemma signed_mark_due:
  "within keeps_signed
     (mark_due_parts_with_noncanonical_broadcast_height_for_resign J W required clock run tip)"
  unfolding mark_due_parts_with_noncanonical_broadcast_height_for_resign_def
  by (intro signed_intros signed_reconcile) (simp_all add: ready_for_resign_def)

lemma signed_mark_expired:
  "within keeps_signed (mark_expired_pending_parts_for_resign J W required clock run tip)"
  unfolding mark_expired_pending_parts_for_resign_def mark_for_resign_def
  by (intro signed_intros signed_reconcile) (simp_all add: ready_for_resign_def)

lemma signed_update_run: "within keeps_signed (update_run_after_pending_broadcast J now run)"
  unfolding update_run_after_pending_broadcast_def Let_def by (intro signed_intros) simp_all

lemma signed_mark_broadcasted: "within keeps_signed (mark_pending_broadcasted J now run txid)"
  unfolding mark_pending_broadcasted_def by (intro signed_intros signed_update_run) simp_all

lemma signed_reschedule_step: "within keeps_signed (reschedule_step now run tip delay b x)"
proof -
  obtain txid e offset where "x = ((txid, e), offset)" by (metis surj_pair)
  then show ?thesis unfolding reschedule_step_def Let_def prod.case
    by simp (intro signed_intros; simp)
qed

lemma signed_reschedule_tx: "within keeps_signed (reschedule_tx clock run tip delay moves)"
  unfolding reschedule_tx_def by (intro signed_intros signed_reschedule_step) (simp_all add: ready_for_resign_def)

lemma signed_apply_update: "within keeps_signed (apply_update run b x)"
proof -
  obtain item u where "x = (item, u)" by (metis surj_pair)
  then show ?thesis unfolding apply_update_def prod.case
    by simp (intro signed_intros; simp)
qed

lemma signed_receipt:
  "within keeps_signed (apply_accepted_migration_outbox_receipt J clock account network run txid height updates)"
  unfolding apply_accepted_migration_outbox_receipt_def case_prod_beta
  by (intro signed_intros signed_apply_update signed_update_run) (simp_all add: ready_for_resign_def)

text \<open>The redraw of a run: nothing to do, an error before anything is written, or one transaction.\<close>

lemma redraw_cases:
  assumes "reschedule_overdue_pending_txs_with_options G J clock run network tip delay excluded rng db = Some (res, db')"
    "rng_contract G"
  obtains "overdue_parts db run tip excluded = []" "res = Ok ()" "db' = ensure_tables db"
  | "\<forall>u. res \<noteq> Ok u" "db' = ensure_tables db"
  | moves where "reschedule_tx clock run tip delay moves (ensure_tables db) = (res, db')"
      "mset (map fst moves) = mset (overdue_parts db run tip excluded)"
proof -
  let ?db = "ensure_tables db"
  let ?od = "overdue_parts db run tip excluded"
  have od: "overdue_parts ?db run tip excluded = ?od" by (simp add: overdue_parts_def parts_of_def)
  obtain perm rng' where perm: "shuffle_perm G rng (length ?od) = (perm, rng')" by (metis surj_pair)
  let ?ids = "map ((!) ?od) perm"
  have ids: "mset ?ids = mset ?od" using rng_contract.shuffle_mset [OF assms(2)] perm by (metis fst_conv)
  let ?params = "obind (timing_policy_for_run_with_conn ?db run) (\<lambda>policy.
             obind (planned_part_count_with_conn J ?db run) (\<lambda>planned.
               Ok (schedule_parameters_with_policy_for_part_count network policy planned)))"
  have whole: "(if ?od = [] then Some (Ok (), ?db)
      else case ?params of Err e \<Rightarrow> Some (Err e, ?db) | Panic \<Rightarrow> Some (Panic, ?db)
        | Ok (mean, max_delay) \<Rightarrow>
            map_option (\<lambda>drawn. case drawn of
                Err e \<Rightarrow> (Err (PartScheduleFailed e), ?db)
              | Panic \<Rightarrow> (Panic, ?db)
              | Ok (offsets, rng'') \<Rightarrow> reschedule_tx clock run tip delay (zip ?ids offsets) ?db)
              (random_schedule_block_offsets_with_rng G (length ?ids) mean max_delay rng')) = Some (res, db')"
    using assms(1) unfolding reschedule_overdue_pending_txs_with_options_def Let_def od perm prod.case .
  show thesis
  proof (cases "?od = []")
    case True
    with whole that(1) show thesis by simp
  next
    case False
    show thesis
    proof (cases ?params)
      case (Ok params)
      obtain mean max_delay where params: "params = (mean, max_delay)" by (cases params)
      from whole False Ok params obtain drawn where
        draw: "random_schedule_block_offsets_with_rng G (length ?ids) mean max_delay rng' = Some drawn" and
        fin: "(case drawn of Err e \<Rightarrow> (Err (PartScheduleFailed e), ?db) | Panic \<Rightarrow> (Panic, ?db)
           | Ok (offsets, rng'') \<Rightarrow> reschedule_tx clock run tip delay (zip ?ids offsets) ?db) = (res, db')"
        by auto
      show thesis
      proof (cases drawn)
        case (Ok pair)
        obtain offsets rng'' where pair: "pair = (offsets, rng'')" by (cases pair)
        have "length offsets = length ?ids" using draw Ok pair by (auto dest: random_offsets_ok)
        then have "map fst (zip ?ids offsets) = ?ids" by simp
        then have "mset (map fst (zip ?ids offsets)) = mset ?od" using ids by (simp only:)
        with fin Ok pair show thesis by (intro that(3)) auto
      qed (use fin that(2) in auto)
    qed (use whole False that(2) in auto)
  qed
qed

section \<open>The invariant of the pending table\<close>

definition part_statuses :: "string set" where
  "part_statuses = {''scheduled'', ''broadcasted'', ''confirmed'', ''needs_resign''}"

text \<open>
  \<open>seen\<close> are the transactions the wallet has found on its chain so far, \<open>lost\<close> those of them that a later
  look has missed. A confirmed part was seen. A scheduled part has the expiry of its broadcast height; only a
  part whose transaction was lost in a reorg may be back at its target height, whatever window that is in.
\<close>

definition part_ok :: "string set \<Rightarrow> string set \<Rightarrow> pending_row \<Rightarrow> bool" where
  "part_ok seen lost p \<longleftrightarrow> pend_status p \<in> part_statuses \<and> to_ascii_lowercase (pend_txid p) = pend_txid p \<and>
     (pend_status p = ''confirmed'' \<longrightarrow> pend_txid p \<in> seen) \<and>
     (pend_status p = ''scheduled'' \<longrightarrow>
        canonical_expiry (pend_scheduled_height p) = Ok (pend_expiry_height p) \<or>
        pend_txid p \<in> lost \<and> pend_scheduled_height p = pend_target_height p)"

definition index_key :: "pending_row \<Rightarrow> string \<times> nat option" where
  "index_key p = (pend_run_id p, pend_part_index p)"

definition unique_indexes :: "pending_row list \<Rightarrow> bool" where
  "unique_indexes ps \<longleftrightarrow> distinct (map index_key (filter (\<lambda>p. pend_part_index p \<noteq> None) ps))"

definition parts_ok :: "string set \<Rightarrow> string set \<Rightarrow> migration_db \<Rightarrow> bool" where
  "parts_ok seen lost db \<longleftrightarrow> unique_txids db \<and> unique_indexes (pending_rows db) \<and> (\<forall>p \<in> set (pending_rows db). part_ok seen lost p)"

lemma parts_ok_same: "pending_rows db' = pending_rows db \<Longrightarrow> keeps (parts_ok seen lost) db db'"
  by (simp add: keeps_def parts_ok_def unique_txids_def)

lemma unique_indexes_map:
  assumes "\<And>p. p \<in> set ps \<Longrightarrow> index_key (f p) = index_key p"
  shows "unique_indexes (map f ps) = unique_indexes ps"
proof -
  have "map index_key (filter (\<lambda>p. pend_part_index p \<noteq> None) (map f ps)) =
      map index_key (filter (\<lambda>p. pend_part_index p \<noteq> None) ps)"
    using assms by (induction ps) (auto simp: index_key_def)
  then show ?thesis by (simp add: unique_indexes_def)
qed

lemma parts_ok_map:
  assumes "parts_ok seen lost db" "pending_rows db' = map f (pending_rows db)"
    "\<And>p. p \<in> set (pending_rows db) \<Longrightarrow> pend_txid (f p) = pend_txid p \<and> index_key (f p) = index_key p"
    "\<And>p. p \<in> set (pending_rows db) \<Longrightarrow> part_ok seen lost p \<Longrightarrow> part_ok seen lost (f p)"
  shows "parts_ok seen lost db'"
proof -
  have "map pend_txid (pending_rows db') = map pend_txid (pending_rows db)" using assms(2,3) by auto
  then have "unique_txids db'" using assms(1) by (simp add: parts_ok_def unique_txids_def)
  then show ?thesis
    using assms unique_indexes_map [of "pending_rows db" f] by (auto simp: parts_ok_def)
qed

lemma parts_ok_filter:
  assumes "parts_ok seen lost db" "pending_rows db' = filter P (pending_rows db)"
  shows "parts_ok seen lost db'"
proof -
  have "unique_indexes (filter P ps)" if "unique_indexes ps" for ps
    using that by (induction ps) (auto simp: unique_indexes_def)
  then show ?thesis using assms by (auto simp: parts_ok_def unique_txids_def distinct_map_filter)
qed

lemma parts_ok_update:
  assumes "parts_ok seen lost db" "\<And>p. P p \<Longrightarrow> signed_part (f p) = signed_part p"
    "\<And>p. p \<in> set (pending_rows db) \<Longrightarrow> P p \<Longrightarrow> part_ok seen lost p \<Longrightarrow> part_ok seen lost (f p)"
  shows "parts_ok seen lost (update_parts P f db)"
proof -
  have "pend_txid (f p) = pend_txid p \<and> index_key (f p) = index_key p" if "P p" for p
    using assms(2) [OF that] by (simp add: signed_part_def index_key_def)
  then show ?thesis
    by (intro parts_ok_map [OF assms(1), of _ "\<lambda>p. if P p then f p else p"]) (use assms(3) in auto)
qed

lemma keeps_update:
  "(\<And>p. P p \<Longrightarrow> signed_part (f p) = signed_part p) \<Longrightarrow> (\<And>p. P p \<Longrightarrow> part_ok seen lost p \<Longrightarrow> part_ok seen lost (f p)) \<Longrightarrow>
    keeps (parts_ok seen lost) db (update_parts P f db)"
  by (simp add: keeps_def parts_ok_update)

lemma keeps_live:
  "(\<And>p. P p \<Longrightarrow> signed_part (f p) = signed_part p) \<Longrightarrow> (\<And>p. P p \<Longrightarrow> part_ok seen lost p \<Longrightarrow> part_ok seen lost (f p)) \<Longrightarrow>
    keeps (parts_ok seen lost) db (modify_live run (update_parts P f) db)"
  by (simp add: modify_live_def keeps_update) (simp add: keeps_def)

lemma part_ok_updates [simp]:
  "part_ok seen lost p \<Longrightarrow> part_ok seen lost (set_status ''needs_resign'' p)"
  "part_ok seen lost p \<Longrightarrow> part_ok seen lost (set_status ''broadcasted'' p)"
  "part_ok seen lost p \<Longrightarrow> pend_txid p \<in> seen \<Longrightarrow> part_ok seen lost (set_status ''confirmed'' p)"
  "part_ok seen lost p \<Longrightarrow> pend_txid p \<in> lost \<Longrightarrow> part_ok seen lost (unconfirm_row now p)"
  "part_ok seen lost p \<Longrightarrow> part_ok seen lost (p\<lparr>pend_attempted := n\<rparr>)"
  "part_ok seen lost p \<Longrightarrow> part_ok seen lost (p\<lparr>pend_rebuild_offset := o1\<rparr>)"
  by (simp_all add: part_ok_def part_statuses_def set_status_def unconfirm_row_def)

lemma keeps_opened: "within (keeps (parts_ok seen lost)) m \<Longrightarrow> within (keeps (parts_ok seen lost)) (opened m)"
  unfolding opened_def by (intro keeping.within_modify_andthen parts_ok_same) simp_all

lemma keeps_execute:
  "(\<And>p. P p \<Longrightarrow> signed_part (f p) = signed_part p) \<Longrightarrow> (\<And>p. P p \<Longrightarrow> part_ok seen lost p \<Longrightarrow> part_ok seen lost (f p)) \<Longrightarrow>
    within (keeps (parts_ok seen lost)) (execute_parts P f)"
  by (simp add: within_def execute_parts_def keeps_update)

lemmas keeps_intros = keeping.within_checked keeping.within_accumulate_set keeping.within_intros keeping.within_modify keeps_opened keeps_execute
  keeps_live keeps_update parts_ok_same

text \<open>A look at the chain: what it finds is seen, and what was seen and is missing now is lost.\<close>

definition found_on :: "wallet_chain \<Rightarrow> string set" where
  "found_on W = {t. \<exists>i. chain_identity_of W t = Ok (Some i)}"

definition missing_on :: "wallet_chain \<Rightarrow> string set" where
  "missing_on W = {t. chain_identity_of W t = Ok None}"

definition looked_at :: "wallet_chain \<Rightarrow> string set \<Rightarrow> string set \<Rightarrow> bool" where
  "looked_at W seen lost \<longleftrightarrow> found_on W \<subseteq> seen \<and> seen \<inter> missing_on W \<subseteq> lost"

lemma keeps_confirm_step:
  assumes "looked_at W seen lost" "snd x = ''confirmed'' \<Longrightarrow> fst x \<in> seen"
  shows "within (keeps (parts_ok seen lost)) (confirm_step W now run b x)"
proof -
  obtain txid state where x: "x = (txid, state)" by (metis surj_pair)
  have mined: "txid \<in> seen" if "chain_identity_of W txid = Ok identity" "identity \<noteq> None" for identity
    using that assms(1) by (auto simp: looked_at_def found_on_def)
  have gone: "txid \<in> lost" if "chain_identity_of W txid = Ok None" "state = ''confirmed''"
    using that assms by (auto simp: looked_at_def missing_on_def x)
  have "pend_txid p = txid" if "is_part run txid p" for p using that by (simp add: is_part_def)
  then show ?thesis
    unfolding confirm_step_def x prod.case
    by (intro keeps_intros) (use mined gone in simp_all)
qed

lemma within_state_keeps:
  "(\<And>s. I s \<Longrightarrow> within (keeps I) (k s)) \<Longrightarrow> within (keeps I) (with_state k)"
  by (auto simp: within_def keeps_def with_state_def)

lemma keeps_finish: "within (keeps (parts_ok seen lost)) (finish_confirmations J W required clock run ph n)"
  unfolding finish_confirmations_def by (intro keeps_intros) simp_all

lemma keeps_reconcile:
  assumes "looked_at W seen lost"
  shows "within (keeps (parts_ok seen lost)) (reconcile_run_confirmations J W required clock run)"
  unfolding reconcile_run_confirmations_def
proof (intro keeping.within_if keeping.within_yield within_state_keeps)
  fix db0 assume ok: "parts_ok seen lost db0"
  have "fst x \<in> seen" if "x \<in> set (map (\<lambda>p. (pend_txid p, pend_status p)) (watched_parts db0 run))" "snd x = ''confirmed''" for x
    using that ok by (auto simp: watched_parts_def parts_of_def parts_ok_def part_ok_def)
  then show "within (keeps (parts_ok seen lost)) (andthen (accumulate (confirm_step W (clock 0) run) False
                   (map (\<lambda>p. (pend_txid p, pend_status p)) (watched_parts db0 run))) (\<lambda>rescheduled.
        andthen (if rescheduled
                 then modify (update_runs (live_run run) (set_phase PHASE_BROADCAST_SCHEDULED (clock 0) None))
                 else yield ()) (\<lambda>_.
        with_state (\<lambda>db.
        andthen (lift_outcome (read_run db run)) (\<lambda>r.
        andthen (lift_outcome (unpromoted_signed_child_pczt_count_with_conn J db run)) (\<lambda>unpromoted_count.
        andthen (if run_phase r = PHASE_WAITING_MIGRATION_CONFIRMATIONS \<and> unpromoted_count > 0
                 then modify (resume_materializing (clock 0) run) else yield ()) (\<lambda>_.
          finish_confirmations J W required clock run (run_phase r) unpromoted_count)))))))"
    by (intro keeps_intros keeps_confirm_step [OF assms] keeps_finish) simp_all
qed

lemma keeps_pending_reconcile:
  "looked_at W seen lost \<Longrightarrow> within (keeps (parts_ok seen lost)) (reconcile_run_pending_confirmations J W required clock run)"
  unfolding reconcile_run_pending_confirmations_def by (intro keeps_opened keeps_reconcile)

lemma keeps_attempt: "within (keeps (parts_ok seen lost)) (mark_pending_broadcast_attempted run txid)"
  unfolding mark_pending_broadcast_attempted_def by (intro keeps_intros) simp_all

lemma keeps_due: "looked_at W seen lost \<Longrightarrow> within (keeps (parts_ok seen lost)) (due_pending_txs env J W required clock run tip password salt64)"
  unfolding due_pending_txs_def by (intro keeps_intros keeps_pending_reconcile)

lemma keeps_mark_due:
  "looked_at W seen lost \<Longrightarrow> within (keeps (parts_ok seen lost))
     (mark_due_parts_with_noncanonical_broadcast_height_for_resign J W required clock run tip)"
  unfolding mark_due_parts_with_noncanonical_broadcast_height_for_resign_def
  by (intro keeps_intros keeps_reconcile) (simp_all add: ready_for_resign_def)

lemma keeps_mark_expired:
  "looked_at W seen lost \<Longrightarrow> within (keeps (parts_ok seen lost)) (mark_expired_pending_parts_for_resign J W required clock run tip)"
  unfolding mark_expired_pending_parts_for_resign_def mark_for_resign_def
  by (intro keeps_intros keeps_reconcile) (simp_all add: ready_for_resign_def)

lemma keeps_update_run: "within (keeps (parts_ok seen lost)) (update_run_after_pending_broadcast J now run)"
  unfolding update_run_after_pending_broadcast_def Let_def by (intro keeps_intros) simp_all

lemma keeps_mark_broadcasted: "within (keeps (parts_ok seen lost)) (mark_pending_broadcasted J now run txid)"
  unfolding mark_pending_broadcasted_def by (intro keeps_intros keeps_update_run) simp_all

section \<open>Upkeep\<close>

text \<open>
  The operations that work on the stored parts, whatever they return and in whatever order they
  are called: reconciliation, attempt, selection, marking, broadcast, redraw, receipt.
\<close>

inductive upkeep :: "crypto_env \<Rightarrow> 'r rng_env \<Rightarrow> json_env \<Rightarrow> migration_db \<Rightarrow> migration_db \<Rightarrow> bool" for env G J where
  "reconcile_run_pending_confirmations J W required clock run db = (r, db') \<Longrightarrow> upkeep env G J db db'"
| "mark_pending_broadcast_attempted run txid db = (r, db') \<Longrightarrow> upkeep env G J db db'"
| "due_pending_txs env J W required clock run tip password salt64 db = (txs, db') \<Longrightarrow> upkeep env G J db db'"
| "mark_due_parts_with_noncanonical_broadcast_height_for_resign J W required clock run tip db = (n, db') \<Longrightarrow>
    upkeep env G J db db'"
| "mark_expired_pending_parts_for_resign J W required clock run tip db = (n, db') \<Longrightarrow> upkeep env G J db db'"
| "mark_pending_broadcasted J now run txid db = (r, db') \<Longrightarrow> upkeep env G J db db'"
| "apply_accepted_migration_outbox_receipt J clock account network run txid height updates db = (r, db') \<Longrightarrow>
    upkeep env G J db db'"
| "reschedule_overdue_pending_txs_with_options G J clock run network tip delay excluded rng db = Some (r, db') \<Longrightarrow>
    upkeep env G J db db'"
| "reschedule_wallet_overdue_pending_txs_with_exclusion G J clocks network tip excluded2 rngs db = Some (r, db') \<Longrightarrow>
    upkeep env G J db db'"

lemma signed_redraw:
  assumes "reschedule_overdue_pending_txs_with_options G J clock run network tip delay excluded rng db = Some (res, db')"
    "rng_contract G"
  shows "keeps_signed db db'"
  using assms
proof (cases rule: redraw_cases)
  case (3 moves)
  then have "keeps_signed (ensure_tables db) db'" using withinD [OF signed_reschedule_tx] by blast
  then show ?thesis by (simp add: keeps_signed_def)
qed (simp_all add: keeps_signed_def)

lemma signed_runs:
  "reschedule_runs f i runs db = Some (res, db') \<Longrightarrow>
    (\<And>i run db res db'. f i run db = Some (res, db') \<Longrightarrow> keeps_signed db db') \<Longrightarrow> keeps_signed db db'"
proof (induction runs arbitrary: i db)
  case Nil
  then show ?case by (simp add: signed_kept.refl)
next
  case (Cons run runs)
  from Cons.prems(1) obtain r db1 where one: "f i run db = Some (r, db1)" and
    rest: "(case r of Ok u \<Rightarrow> reschedule_runs f (Suc i) runs db1 | other \<Rightarrow> Some (other, db1)) = Some (res, db')"
    by (auto simp: bind_eq_Some_conv)
  have "keeps_signed db db1" using Cons.prems(2) [OF one] .
  moreover have "keeps_signed db1 db'"
    using rest Cons.IH Cons.prems(2) by (cases r) (auto simp: signed_kept.refl)
  ultimately show ?case by (rule signed_kept.trans)
qed

lemma signed_wallet_redraw:
  assumes "reschedule_wallet_overdue_pending_txs_with_exclusion G J clocks network tip excluded rngs db = Some (res, db')"
    "rng_contract G"
  shows "keeps_signed db db'"
proof -
  have "keeps_signed (ensure_tables db) db'"
    using assms(1) [unfolded reschedule_wallet_overdue_pending_txs_with_exclusion_def Let_def]
    by (rule signed_runs) (rule signed_redraw [OF _ assms(2)])
  then show ?thesis by (simp add: keeps_signed_def)
qed

lemma upkeep_signed: "upkeep env G J db db' \<Longrightarrow> rng_contract G \<Longrightarrow> keeps_signed db db'"
  by (induction rule: upkeep.induct)
    (erule withinD [OF signed_pending_reconcile] withinD [OF signed_attempt] withinD [OF signed_due]
      withinD [OF signed_mark_due] withinD [OF signed_mark_expired] withinD [OF signed_mark_broadcasted]
      withinD [OF signed_receipt] signed_redraw signed_wallet_redraw | assumption)+

lemma upkeep_runs_signed: "(upkeep env G J)\<^sup>*\<^sup>* db db' \<Longrightarrow> rng_contract G \<Longrightarrow> keeps_signed db db'"
  by (induction rule: rtranclp_induct) (auto simp: signed_kept.refl intro: signed_kept.trans upkeep_signed)

end
