(* ===== verification/PartInsert.thy ===== *)
theory PartInsert
  imports PartBroadcast
begin

text \<open>
  Storing the migration parts (\<open>rust/src/wallet/sync/migration.rs\<close>): the signed children that
  wait for their proof, and the broadcastable transactions they become. Everything here runs inside
  a transaction of its caller.
\<close>

section \<open>Statements\<close>

text \<open>
  \<open>INSERT\<close> into the pending table: the transaction id is the primary key, the part index
  unique within a run, and a bound \<open>u64\<close> has to fit the signed 64-bit integer.
\<close>

definition insert_part_row :: "pending_row \<Rightarrow> migration_db \<Rightarrow> migration_db option" where
  "insert_part_row p db =
     (if pend_txid p \<notin> pend_txid ` set (pending_rows db)
        \<and> (pend_part_index p = None
           \<or> (pend_run_id p, pend_part_index p) \<notin> (\<lambda>q. (pend_run_id q, pend_part_index q)) ` set (pending_rows db))
        \<and> pend_value p \<le> i64_max \<and> pend_fee p \<le> i64_max \<and> pend_note_value p \<le> i64_max
      then Some (db\<lparr>pending_rows := pending_rows db @ [p]\<rparr>) else None)"

text \<open>\<open>INSERT OR REPLACE\<close>, keyed by run and message.\<close>

definition replace_signed_row :: "signed_row \<Rightarrow> migration_db \<Rightarrow> migration_db option" where
  "replace_signed_row c db =
     (if sign_value c \<le> i64_max \<and> sign_fee c \<le> i64_max
      then Some (db\<lparr>signed_rows := filter (\<lambda>d. \<not> (sign_run_id d = sign_run_id c
                      \<and> sign_message_id d = sign_message_id c)) (signed_rows db) @ [c]\<rparr>)
      else None)"

definition statement :: "part_error \<Rightarrow> (migration_db \<Rightarrow> migration_db option) \<Rightarrow> (migration_db, part_error, unit) action" where
  "statement e f db = (case f db of Some db' \<Rightarrow> (Ok (), db') | None \<Rightarrow> (Err e, db))"

section \<open>Signed children\<close>

record signed_insert =
  sin_message_id :: string
  sin_child_index :: u32
  sin_base_pczt :: bytes
  sin_sigs :: "spend_auth_signature list"
  sin_target_height :: u32
  sin_anchor_boundary_height :: "u32 option"
  sin_expiry_height :: u32
  sin_scheduled_height :: u32
  sin_value_zatoshi :: u64
  sin_fee_zatoshi :: u64
  sin_selected_note :: prepared_note_ref
  sin_metadata :: tx_metadata

datatype signed_child_insert_mode = InitialInsert | ReplacementInsert

text \<open>What the loop checks of a child before it is stored; the result is the shared origin.\<close>

definition check_signed_child ::
  "signed_child_insert_mode \<Rightarrow> schedule_entry list \<Rightarrow> u64 list \<Rightarrow> u32 option \<Rightarrow> u32 option \<Rightarrow> signed_insert \<Rightarrow>
    (part_error, u32 option) outcome" where
  "check_signed_child mode schedule targets recovery_origin origin child =
     obind (canonical_expiry (sin_scheduled_height child)) (\<lambda>expiry.
     if sin_expiry_height child \<noteq> expiry
     then Err (ExpiryNotCanonical (sin_message_id child) (sin_scheduled_height child))
     else obind
       (if schedule = [] then Ok origin
        else obind (ok_or (schedule_block_offset_for_part schedule targets (sin_child_index child)
                      (sin_value_zatoshi child)) SignedChildMissing) (\<lambda>offset.
          if mode = InitialInsert
          then obind (ok_or (checked_sub (sin_scheduled_height child) offset) SignedScheduleBelowZero) (\<lambda>child_origin.
            case origin of
              Some o1 \<Rightarrow> if o1 \<noteq> child_origin then Err OriginsDiffer else Ok (Some o1)
            | None \<Rightarrow> Ok (Some child_origin))
          else Ok origin)) (\<lambda>origin'.
       if mode = ReplacementInsert
       then obind (ok_or recovery_origin RecoveryOriginMissing) (\<lambda>recovery.
            obind (ok_or (checked_sub (sin_scheduled_height child) recovery) SignedScheduleBelowZero) (\<lambda>_. Ok origin'))
       else Ok origin'))"

definition signed_row_of :: "json_env \<Rightarrow> string \<Rightarrow> signed_insert \<Rightarrow> string \<Rightarrow> string \<Rightarrow> signed_row" where
  "signed_row_of J run_id child base sigs =
     \<lparr>sign_run_id = run_id, sign_message_id = sin_message_id child, sign_child_index = sin_child_index child,
      sign_base = base, sign_sigs = sigs, sign_target_height = sin_target_height child,
      sign_anchor_height = sin_anchor_boundary_height child, sign_expiry_height = sin_expiry_height child,
      sign_scheduled_height = Some (sin_scheduled_height child), sign_value = sin_value_zatoshi child,
      sign_fee = sin_fee_zatoshi child, sign_note = json_of_note J (sin_selected_note child),
      sign_metadata = json_of_metadata J (sin_metadata child)\<rparr>"

definition insert_signed_child ::
  "crypto_env \<Rightarrow> json_env \<Rightarrow> string \<Rightarrow> payload_key \<Rightarrow> signed_child_insert_mode \<Rightarrow> schedule_entry list \<Rightarrow> u64 list \<Rightarrow>
    u32 option \<Rightarrow> nat \<times> u32 option \<Rightarrow> signed_insert \<Rightarrow> (migration_db, part_error, nat \<times> u32 option) action" where
  "insert_signed_child env J run_id key mode schedule targets recovery_origin = (\<lambda>(draw, origin) child.
     andthen (lift_outcome (check_signed_child mode schedule targets recovery_origin origin child)) (\<lambda>origin'.
     andthen (lift_outcome (map_err PartPayloadFailed (payload_key_encrypt env draw key (sin_base_pczt child)))) (\<lambda>base.
     andthen (lift_outcome (map_err (\<lambda>_. SignaturesFailed) (encode_compact_action_sigs (sin_sigs child)))) (\<lambda>blob.
     andthen (lift_outcome (map_err PartPayloadFailed (payload_key_encrypt env (draw + 1) key blob))) (\<lambda>sigs.
     andthen (statement InsertPartFailed (replace_signed_row (signed_row_of J run_id child base sigs))) (\<lambda>_.
       yield (draw + 2, origin')))))))"

definition save_signed_origin :: "string \<Rightarrow> u32 \<Rightarrow> migration_db \<Rightarrow> migration_db" where
  "save_signed_origin run_id origin =
     update_runs (\<lambda>r. run_key r = run_id \<and> run_signed_origin r = None) (\<lambda>r. r\<lparr>run_signed_origin := Some origin\<rparr>)"

definition insert_signed_child_pczts_with_tx ::
  "crypto_env \<Rightarrow> json_env \<Rightarrow> nat \<Rightarrow> string \<Rightarrow> signed_insert list \<Rightarrow> bytes \<Rightarrow> string \<Rightarrow> signed_child_insert_mode \<Rightarrow>
    (migration_db, part_error, unit) action" where
  "insert_signed_child_pczts_with_tx env J draw run_id signed_children password salt_base64 mode =
     (if signed_children = [] then yield ()
      else with_state (\<lambda>db.
        andthen (lift_outcome (read_run db run_id)) (\<lambda>r.
        andthen (lift_outcome (ok_or (schedule_of_json J (run_schedule r)) (DecodeJson ''signed migration schedule''))) (\<lambda>schedule.
        andthen (lift_outcome (ok_or (targets_of_json J (run_targets r)) (DecodeJson ''signed migration target values''))) (\<lambda>targets.
        andthen (lift_outcome (map_err PartPayloadFailed (decode_base64 env salt_base64 ''migration PCZT salt''))) (\<lambda>salt.
        andthen (accumulate (insert_signed_child env J run_id (payload_key_new env password salt) mode schedule targets
                    (run_recovery_origin r))
                  (draw, if mode = InitialInsert then run_signed_origin r else None) signed_children) (\<lambda>(draw', origin).
          if mode = InitialInsert \<and> run_signed_origin r = None
          then (case origin of Some o1 \<Rightarrow> modify (save_signed_origin run_id o1) | None \<Rightarrow> yield ())
          else yield ())))))))"

definition persist_signed_child_pczts_for_run ::
  "crypto_env \<Rightarrow> json_env \<Rightarrow> nat \<Rightarrow> nat \<Rightarrow> string \<Rightarrow> signed_insert list \<Rightarrow> bytes \<Rightarrow> string \<Rightarrow>
    (migration_db, part_error, unit) action" where
  "persist_signed_child_pczts_for_run env J draw now run_id signed_children password salt_base64 =
     (if signed_children = [] then lift_outcome (Err NoSignedChildren)
      else opened (atomically
        (andthen (insert_signed_child_pczts_with_tx env J draw run_id signed_children password salt_base64 InitialInsert) (\<lambda>_.
         with_state (\<lambda>db.
           let waiting = (\<lambda>r. run_key r = run_id \<and> run_phase r = PHASE_READY_TO_MIGRATE) in
           andthen (modify (update_runs waiting (\<lambda>r. r\<lparr>run_updated_at_ms := now, run_last_error := None\<rparr>))) (\<lambda>_.
             lift_outcome (if length (filter waiting (run_rows db)) = 1 then Ok () else Err RunNotReadyForSignatures)))))))"

section \<open>Broadcastable parts\<close>

definition schedule_entry_for_pending ::
  "schedule_entry list \<Rightarrow> u64 list \<Rightarrow> pending_insert \<Rightarrow> schedule_entry option" where
  "schedule_entry_for_pending schedule target_values p =
     (if list_all (\<lambda>e. part_index e \<noteq> None) schedule
      then List.find (\<lambda>e. part_index e = Some (pin_part_index p) \<and> value_zatoshi e = pin_value_zatoshi p) schedule
      else if \<not> (pin_part_index p < length target_values \<and> target_values ! pin_part_index p = pin_value_zatoshi p)
      then None
      else let rank = length (filter (\<lambda>v. v = pin_value_zatoshi p) (take (pin_part_index p) target_values));
               same = filter (\<lambda>e. value_zatoshi e = pin_value_zatoshi p) schedule
           in if rank < length same then Some (same ! rank) else None)"

text \<open>
  The height of a row written before the absolute schedule was stored is recovered from its
  offset, when that keeps the expiry it was signed with.
\<close>

definition recover_legacy_height :: "schedule_entry \<Rightarrow> pending_insert \<Rightarrow> (part_error, u32) outcome" where
  "recover_legacy_height entry p =
     (if pin_scheduled_height p = pin_target_height p
      then obind (canonical_expiry (pin_target_height p)) (\<lambda>expiry.
        if pin_expiry_height p = expiry
        then obind (ok_or (checked_add u32_max (saturating_sub (pin_target_height p) 1) (block_offset entry))
                      LegacyHeightOverflow) (\<lambda>legacy.
             obind (canonical_expiry legacy) (\<lambda>legacy_expiry.
               Ok (if pin_expiry_height p = legacy_expiry then legacy else pin_scheduled_height p)))
        else Ok (pin_scheduled_height p))
      else Ok (pin_scheduled_height p))"

definition retained_replacement :: "migration_db \<Rightarrow> string \<Rightarrow> pending_insert \<Rightarrow> bool" where
  "retained_replacement db run_id p \<longleftrightarrow>
     list_ex (\<lambda>c. sign_child_index c = pin_part_index p \<and> sign_scheduled_height c = Some (pin_scheduled_height p)
       \<and> sign_expiry_height c = pin_expiry_height p \<and> sign_value c = pin_value_zatoshi p) (signed_of db run_id)"

definition check_origin ::
  "migration_db \<Rightarrow> string \<Rightarrow> u32 option \<Rightarrow> u32 option \<Rightarrow> pending_insert \<Rightarrow> u32 \<Rightarrow> (part_error, u32 option) outcome" where
  "check_origin db run_id persisted incoming p origin =
     (case persisted of
        Some persisted_origin \<Rightarrow>
          if origin \<noteq> persisted_origin \<and> \<not> retained_replacement db run_id p then Err OriginImmutable
          else Ok incoming
      | None \<Rightarrow> (case incoming of
            Some incoming_origin \<Rightarrow> if origin \<noteq> incoming_origin then Err OriginsDiffer else Ok incoming
          | None \<Rightarrow> Ok (Some origin)))"

type_synonym placed_part = "pending_insert \<times> u32 \<times> u32"

text \<open>
  One incoming part with its offset and the origin of its schedule; the loop state is the part
  indices seen, the shared origin of an initial schedule and the parts placed.
\<close>

definition place_part ::
  "migration_db \<Rightarrow> string \<Rightarrow> schedule_entry list \<Rightarrow> u64 list \<Rightarrow> u32 option \<Rightarrow>
    u32 set \<times> u32 option \<times> placed_part list \<Rightarrow> pending_insert \<Rightarrow>
    (part_error, u32 set \<times> u32 option \<times> placed_part list) outcome" where
  "place_part db run_id schedule targets persisted = (\<lambda>(seen, incoming, placed) p0.
     if pin_part_index p0 \<in> seen then Err PartIndexDuplicated
     else obind (ok_or (schedule_entry_for_pending schedule targets p0) ScheduleNoLongerMatches) (\<lambda>entry.
       obind (recover_legacy_height entry p0) (\<lambda>height.
       let p = p0\<lparr>pin_scheduled_height := height\<rparr> in
       obind (ok_or (checked_sub height (block_offset entry)) SignedScheduleBelowZero) (\<lambda>origin.
       obind (check_origin db run_id persisted incoming p origin) (\<lambda>incoming'.
       obind (canonical_expiry height) (\<lambda>expiry.
         if pin_expiry_height p \<noteq> expiry then Err (ExpiryNotCanonical (pin_txid_hex p) height)
         else Ok (insert (pin_part_index p0) seen, incoming', placed @ [(p, block_offset entry, origin)])))))))"

definition pending_row_of ::
  "json_env \<Rightarrow> string \<Rightarrow> string \<Rightarrow> nat \<Rightarrow> pending_insert \<Rightarrow> u32 \<Rightarrow> pending_row" where
  "pending_row_of J run_id raw at p origin =
     \<lparr>pend_run_id = run_id, pend_txid = pin_txid_hex p, pend_part_index = Some (pin_part_index p), pend_raw = raw,
      pend_target_height = pin_target_height p, pend_anchor_height = pin_anchor_boundary_height p,
      pend_expiry_height = pin_expiry_height p, pend_value = pin_value_zatoshi p, pend_fee = pin_fee_zatoshi p,
      pend_note_txid = ref_txid_hex (pin_selected_note p), pend_note_index = ref_output_index (pin_selected_note p),
      pend_note_value = ref_value_zatoshi (pin_selected_note p), pend_scheduled_at_ms = at,
      pend_start_height = Some origin, pend_scheduled_height = pin_scheduled_height p,
      pend_original_height = Some (pin_scheduled_height p), pend_rebuild_offset = None, pend_attempted = 0,
      pend_status = ''scheduled'', pend_metadata = json_of_metadata J (pin_metadata p)\<rparr>"

definition store_part ::
  "crypto_env \<Rightarrow> json_env \<Rightarrow> string \<Rightarrow> payload_key \<Rightarrow> nat \<Rightarrow> nat \<Rightarrow> placed_part \<Rightarrow> (migration_db, part_error, nat) action" where
  "store_part env J run_id key start_ms draw = (\<lambda>(p, offset, origin).
     andthen (lift_outcome (map_err PartPayloadFailed (payload_key_encrypt env draw key (pin_raw_tx p)))) (\<lambda>raw.
     andthen (lift_outcome (ok_or (checked_add i64_max start_ms (offset * 1000)) TimeOverflow)) (\<lambda>at.
     andthen (statement InsertPartFailed (insert_part_row (pending_row_of J run_id raw at p origin))) (\<lambda>_.
       yield (draw + 1)))))"

text \<open>
  The approved schedule, or one drawn now and saved when the run has none yet; \<open>drawn\<close> is the result
  of that draw.
\<close>

definition approved_schedule ::
  "json_env \<Rightarrow> (schedule_error, schedule_entry list) outcome \<Rightarrow> string \<Rightarrow> run_row \<Rightarrow>
    (migration_db, part_error, schedule_entry list) action" where
  "approved_schedule J drawn run_id r =
     andthen (lift_outcome (ok_or (schedule_of_json J (run_schedule r)) (DecodeJson ''approved migration schedule'')))
       (\<lambda>schedule.
        if schedule \<noteq> [] then yield schedule
        else andthen (lift_outcome (map_err PartScheduleFailed drawn)) (\<lambda>generated.
          andthen (modify (update_runs (\<lambda>r. run_key r = run_id)
                     (\<lambda>r. r\<lparr>run_schedule := json_of_schedule J generated\<rparr>))) (\<lambda>_. yield generated)))"

definition run_policy ::
  "json_env \<Rightarrow> run_row \<Rightarrow> (part_error, wallet_network \<times> timing_policy \<times> u64 list) outcome" where
  "run_policy J r =
     obind (ok_or (network_from_str (run_network r)) (PartsUnsupportedNetwork (run_network r))) (\<lambda>network.
     obind (map_err PartPolicyFailed (timing_policy_from_str (run_timing_policy r))) (\<lambda>policy.
     obind (ok_or (targets_of_json J (run_targets r)) (DecodeJson ''migration run target values'')) (\<lambda>targets.
       Ok (network, policy, targets))))"

definition insert_parts_body ::
  "crypto_env \<Rightarrow> json_env \<Rightarrow> (nat \<Rightarrow> nat) \<Rightarrow> nat \<Rightarrow> (schedule_error, schedule_entry list) outcome \<Rightarrow> string \<Rightarrow>
    pending_insert list \<Rightarrow> bytes \<Rightarrow> string \<Rightarrow> (migration_db, part_error, unit) action" where
  "insert_parts_body env J clock draw drawn run_id pending_txs password salt_base64 = with_state (\<lambda>db0.
     andthen (lift_outcome (read_run db0 run_id)) (\<lambda>r.
     andthen (lift_outcome (run_policy J r)) (\<lambda>(network, policy, targets).
     andthen (approved_schedule J drawn run_id r) (\<lambda>schedule.
     andthen (lift_outcome (map_err PartScheduleFailed
                (validate_schedule_with_policy schedule targets network policy))) (\<lambda>_.
     with_state (\<lambda>db.
     andthen (lift_outcome (foldM (place_part db run_id schedule targets (run_signed_origin r)) ({}, None, []) pending_txs))
       (\<lambda>(seen, incoming, placed).
     andthen (case (run_signed_origin r, incoming) of
                (None, Some origin) \<Rightarrow> modify (save_signed_origin run_id origin)
              | other \<Rightarrow> yield ()) (\<lambda>_.
     andthen (lift_outcome (pending_salt env salt_base64)) (\<lambda>salt.
     andthen (accumulate (store_part env J run_id (payload_key_new env password salt) (clock 0)) draw placed) (\<lambda>_.
       modify (update_runs (\<lambda>r. run_key r = run_id) (set_phase PHASE_BROADCAST_SCHEDULED (clock 1) None))))))))))))"

text \<open>\<open>None\<close> is a schedule whose draw never comes into range.\<close>

definition drawn_schedule ::
  "'r rng_env \<Rightarrow> json_env \<Rightarrow> string \<Rightarrow> 'r \<Rightarrow> migration_db \<Rightarrow> (schedule_error, schedule_entry list) outcome option" where
  "drawn_schedule G J run_id rng db =
     (case obind (read_run db run_id) (run_policy J) of
        Ok (network, policy, targets) \<Rightarrow>
          if obind (read_run db run_id) (\<lambda>r. ok_or (schedule_of_json J (run_schedule r)) PartCountOverflow) = Ok []
          then planned_transfer_schedule_with_policy G targets network policy rng else Some (Ok [])
      | other \<Rightarrow> Some (Ok []))"

definition insert_pending_txs_with_tx ::
  "crypto_env \<Rightarrow> 'r rng_env \<Rightarrow> json_env \<Rightarrow> (nat \<Rightarrow> nat) \<Rightarrow> nat \<Rightarrow> 'r \<Rightarrow> string \<Rightarrow> pending_insert list \<Rightarrow> bytes \<Rightarrow> string \<Rightarrow>
    migration_db \<Rightarrow> ((part_error, unit) outcome \<times> migration_db) option" where
  "insert_pending_txs_with_tx env G J clock draw rng run_id pending_txs password salt_base64 db =
     map_option (\<lambda>drawn. insert_parts_body env J clock draw drawn run_id pending_txs password salt_base64 db)
       (drawn_schedule G J run_id rng db)"

definition insert_pending_txs ::
  "crypto_env \<Rightarrow> 'r rng_env \<Rightarrow> json_env \<Rightarrow> (nat \<Rightarrow> nat) \<Rightarrow> nat \<Rightarrow> 'r \<Rightarrow> string \<Rightarrow> pending_insert list \<Rightarrow> bytes \<Rightarrow> string \<Rightarrow>
    migration_db \<Rightarrow> ((part_error, unit) outcome \<times> migration_db) option" where
  "insert_pending_txs env G J clock draw rng run_id pending_txs password salt_base64 db =
     (if pending_txs = [] then Some (Ok (), db)
      else map_option (\<lambda>drawn. opened (atomically
               (insert_parts_body env J clock draw drawn run_id pending_txs password salt_base64)) db)
             (drawn_schedule G J run_id rng (ensure_tables db)))"

end
