(* ===== verification/PartRecovery.thy ===== *)
theory PartRecovery
  imports PartInsert
begin

text \<open>
  Moving a schedule (\<open>rust/src/wallet/sync/migration.rs\<close>): the one-time rebase of the signed
  schedule when the proofs can finally be made, with the promotion of the proved children; and
  the recovery schedule of parts that have to be signed again, with their replacement.
\<close>

section \<open>The rebase of the signed schedule\<close>

definition freeze_rebase :: "nat \<Rightarrow> string \<Rightarrow> u32 \<Rightarrow> migration_db \<Rightarrow> migration_db" where
  "freeze_rebase now run_id old_origin =
     update_runs (\<lambda>r. run_key r = run_id \<and> run_rebased_origin r = None)
       (\<lambda>r. r\<lparr>run_rebased_origin := Some old_origin, run_updated_at_ms := now\<rparr>)"

text \<open>What the loop over the children decides: leave everything, freeze the marker, or shift.\<close>

datatype rebase_plan = LeaveSchedule | FreezeMarker | ShiftChildren "(string \<times> u32) list"

fun plan_rebase ::
  "schedule_entry list \<Rightarrow> u64 list \<Rightarrow> u32 \<Rightarrow> u32 \<Rightarrow> (signed_row \<times> u32) list \<Rightarrow> (string \<times> u32) list \<Rightarrow>
    (part_error, rebase_plan) outcome" where
  "plan_rebase schedule targets old_origin new_origin [] updates = Ok (ShiftChildren updates)"
| "plan_rebase schedule targets old_origin new_origin ((c, height) # children) updates =
     (case schedule_block_offset_for_part schedule targets (sign_child_index c) (sign_value c) of
        None \<Rightarrow> Ok FreezeMarker
      | Some offset \<Rightarrow>
          if checked_sub height offset \<noteq> Some old_origin then Ok FreezeMarker
          else (case checked_add u32_max new_origin offset of
              None \<Rightarrow> Ok FreezeMarker
            | Some new_height \<Rightarrow>
                obind (canonical_expiry new_height) (\<lambda>expiry.
                  if expiry \<noteq> sign_expiry_height c then Ok LeaveSchedule
                  else plan_rebase schedule targets old_origin new_origin children
                         (updates @ [(sign_message_id c, new_height)]))))"

definition shift_child :: "string \<Rightarrow> string \<times> u32 \<Rightarrow> (migration_db, part_error, unit) action" where
  "shift_child run_id = (\<lambda>(message_id, height). with_state (\<lambda>db.
     let P = (\<lambda>c. sign_run_id c = run_id \<and> sign_message_id c = message_id) in
     andthen (modify (\<lambda>db. db\<lparr>signed_rows :=
                map (\<lambda>c. if P c then c\<lparr>sign_scheduled_height := Some height\<rparr> else c) (signed_rows db)\<rparr>)) (\<lambda>_.
       lift_outcome (if length (filter P (signed_rows db)) = 1 then Ok () else Err RebaseFailed))))"

definition signed_in_order :: "migration_db \<Rightarrow> string \<Rightarrow> signed_row list" where
  "signed_in_order db run_id = sort_key sign_child_index (sort_key sign_message_id (signed_of db run_id))"

definition rebase_to ::
  "nat \<Rightarrow> string \<Rightarrow> u32 \<Rightarrow> u32 \<Rightarrow> schedule_entry list \<Rightarrow> u64 list \<Rightarrow> (signed_row \<times> u32) list \<Rightarrow>
    (migration_db, part_error, bool) action" where
  "rebase_to now run_id old_origin new_origin schedule targets children =
     (if new_origin = old_origin then andthen (modify (freeze_rebase now run_id old_origin)) (\<lambda>_. yield False)
      else andthen (lift_outcome (plan_rebase schedule targets old_origin new_origin children [])) (\<lambda>plan.
        case plan of
          LeaveSchedule \<Rightarrow> yield False
        | FreezeMarker \<Rightarrow> andthen (modify (freeze_rebase now run_id old_origin)) (\<lambda>_. yield False)
        | ShiftChildren updates \<Rightarrow>
            andthen (for_each (shift_child run_id) updates) (\<lambda>_.
            andthen (modify (update_runs (\<lambda>r. run_key r = run_id \<and> run_rebased_origin r = None)
                (\<lambda>r. r\<lparr>run_signed_origin := Some new_origin, run_rebased_origin := Some new_origin,
                        run_updated_at_ms := now\<rparr>))) (\<lambda>_. yield True))))"

definition rebase_initial_signed_schedule_for_anchor_readiness_with_tx ::
  "json_env \<Rightarrow> nat \<Rightarrow> string \<Rightarrow> u32 \<Rightarrow> (migration_db, part_error, bool) action" where
  "rebase_initial_signed_schedule_for_anchor_readiness_with_tx J now run_id current_scanned_height =
     with_state (\<lambda>db.
     andthen (lift_outcome (read_run db run_id)) (\<lambda>r.
       case (run_rebased_origin r, run_proof_retry_height r, run_signed_origin r) of
         (None, Some proof_retry_height, Some old_origin) \<Rightarrow>
           if current_scanned_height < proof_retry_height then yield False
           else andthen (lift_outcome (count_parts_for_run db run_id)) (\<lambda>pending.
             if pending > 0 then yield False
             else andthen (lift_outcome (ok_or (schedule_of_json J (run_schedule r)) (DecodeJson ''migration schedule for initial rebase''))) (\<lambda>schedule.
               if schedule = [] then yield False
               else andthen (lift_outcome (ok_or (targets_of_json J (run_targets r)) (DecodeJson ''migration targets for initial rebase''))) (\<lambda>targets.
                 andthen (lift_outcome (mapM (\<lambda>c. obind (ok_or (sign_scheduled_height c) SignedHeightUnreadable) (\<lambda>h. Ok (c, h)))
                            (signed_in_order db run_id))) (\<lambda>children.
                   if children = [] then yield False
                   else andthen (lift_outcome (part_count (length targets))) (\<lambda>planned.
                     if (sign_child_index \<circ> fst) ` set children \<noteq> {0..<planned} then yield False
                     else rebase_to now run_id old_origin (max old_origin current_scanned_height) schedule targets children)))))
       | other \<Rightarrow> yield False))"

section \<open>Promotion of proved children\<close>

definition refresh_height :: "migration_db \<Rightarrow> string \<Rightarrow> pending_insert \<Rightarrow> (part_error, pending_insert) outcome" where
  "refresh_height db run_id p =
     obind (ok_or (List.find (\<lambda>c. sign_child_index c = pin_part_index p) (signed_of db run_id)) SignedHeightUnreadable) (\<lambda>c.
     obind (ok_or (sign_scheduled_height c) SignedHeightUnreadable) (\<lambda>h.
       Ok (p\<lparr>pin_scheduled_height := h\<rparr>)))"

definition unpromoted_child :: "migration_db \<Rightarrow> string \<Rightarrow> bool" where
  "unpromoted_child db run_id \<longleftrightarrow>
     list_ex (\<lambda>c. \<not> list_ex (\<lambda>p. pend_part_index p = Some (sign_child_index c)) (parts_of db run_id))
       (signed_of db run_id)"

definition promote_body ::
  "crypto_env \<Rightarrow> json_env \<Rightarrow> (nat \<Rightarrow> nat) \<Rightarrow> nat \<Rightarrow> (schedule_error, schedule_entry list) outcome \<Rightarrow> string \<Rightarrow>
    pending_insert list \<Rightarrow> u32 \<Rightarrow> u32 \<Rightarrow> bytes \<Rightarrow> string \<Rightarrow> (migration_db, part_error, unit) action" where
  "promote_body env J clock draw drawn run_id pending_txs current_scanned_height remaining_child_retry_height
       password salt_base64 = with_state (\<lambda>db0.
     andthen (lift_outcome (migration_part_assignment_complete_with_conn J db0 run_id)) (\<lambda>complete.
       if \<not> complete then lift_outcome (Err SigningBatchesIncomplete)
       else andthen (rebase_initial_signed_schedule_for_anchor_readiness_with_tx J (clock 0) run_id
                       current_scanned_height) (\<lambda>_.
         with_state (\<lambda>db.
         andthen (lift_outcome (mapM (refresh_height db run_id) pending_txs)) (\<lambda>pendings.
         andthen (insert_parts_body env J (clock \<circ> Suc) draw drawn run_id pendings password salt_base64) (\<lambda>_.
         with_state (\<lambda>db'.
           modify (update_runs (\<lambda>r. run_key r = run_id)
             (\<lambda>r. r\<lparr>run_proof_retry_height :=
                      (if unpromoted_child db' run_id then Some remaining_child_retry_height else None),
                    run_updated_at_ms := clock 3\<rparr>)))))))))"

definition promote_signed_child_pczts_to_pending_txs ::
  "crypto_env \<Rightarrow> 'r rng_env \<Rightarrow> json_env \<Rightarrow> (nat \<Rightarrow> nat) \<Rightarrow> nat \<Rightarrow> 'r \<Rightarrow> string \<Rightarrow> pending_insert list \<Rightarrow> u32 \<Rightarrow> u32 \<Rightarrow>
    bytes \<Rightarrow> string \<Rightarrow> migration_db \<Rightarrow> ((part_error, unit) outcome \<times> migration_db) option" where
  "promote_signed_child_pczts_to_pending_txs env G J clock draw rng run_id pending_txs current_scanned_height
       remaining_child_retry_height password salt_base64 db =
     (if pending_txs = [] then Some (Ok (), db)
      else map_option (\<lambda>drawn. opened (atomically (promote_body env J clock draw drawn run_id pending_txs
               current_scanned_height remaining_child_retry_height password salt_base64)) db)
             (drawn_schedule G J run_id rng (ensure_tables db)))"

section \<open>The recovery schedule\<close>

record rebuild_generation =
  gen_origin_height :: u32
  gen_offsets_by_txid :: "string \<rightharpoonup> u32"

record rebuild_scan =
  scan_offsets :: "string \<rightharpoonup> u32"
  scan_to_assign :: "(string \<times> u32 \<times> u64 \<times> u32 option) list"
  scan_max :: u32
  scan_any :: bool

definition empty_scan :: rebuild_scan where
  "empty_scan = \<lparr>scan_offsets = Map.empty, scan_to_assign = [], scan_max = 0, scan_any = False\<rparr>"

text \<open>A part keeps an offset the chain has not passed; the others are drawn again.\<close>

definition scan_row :: "u32 \<Rightarrow> rebuild_scan \<Rightarrow> pending_row \<Rightarrow> (part_error, rebuild_scan) outcome" where
  "scan_row elapsed_cursor s p =
     obind (ok_or (pend_part_index p) PartIndexMissing) (\<lambda>part.
       case pend_rebuild_offset p of
         None \<Rightarrow> Ok (s\<lparr>scan_to_assign := scan_to_assign s @ [(pend_txid p, part, pend_value p, None)]\<rparr>)
       | Some offset \<Rightarrow>
           let s' = s\<lparr>scan_any := True, scan_max := max (scan_max s) offset\<rparr> in
           if offset < elapsed_cursor
           then Ok (s'\<lparr>scan_to_assign := scan_to_assign s' @ [(pend_txid p, part, pend_value p, Some offset)]\<rparr>)
           else Ok (s'\<lparr>scan_offsets := (scan_offsets s')(to_ascii_lowercase (pend_txid p) \<mapsto> offset)\<rparr>))"

definition rebuild_base :: "u32 option \<Rightarrow> u32 option \<Rightarrow> rebuild_scan \<Rightarrow> u32 \<Rightarrow> (part_error, u32) outcome" where
  "rebuild_base persisted_origin persisted_max s elapsed_cursor =
     (if persisted_origin = None \<and> (persisted_max \<noteq> None \<or> scan_any s) then Err RecoveryMetadataIncomplete
      else obind (case persisted_max of
                    Some m \<Rightarrow> if m \<ge> scan_max s then Ok m else Err RecoveryMaximumBelowOffset
                  | None \<Rightarrow> Ok (scan_max s)) (\<lambda>base. Ok (max base elapsed_cursor)))"

definition assign_offset ::
  "string \<Rightarrow> u32 \<Rightarrow> u32 \<times> (string \<rightharpoonup> u32) \<Rightarrow> (string \<times> u32 \<times> u64 \<times> u32 option) \<times> u32 \<Rightarrow>
    (migration_db, part_error, u32 \<times> (string \<rightharpoonup> u32)) action" where
  "assign_offset run_id base = (\<lambda>(highest, offsets) ((txid, part, v, previous), fresh).
     andthen (lift_outcome (ok_or (checked_add u32_max base fresh) RebuildOffsetOverflow)) (\<lambda>assigned.
     andthen (execute_parts (\<lambda>p. is_part run_id txid p \<and> pend_status p = ''needs_resign'' \<and> pend_rebuild_offset p = previous)
                (\<lambda>p. p\<lparr>pend_rebuild_offset := Some assigned\<rparr>)) (\<lambda>updated.
       if updated \<noteq> 1 then lift_outcome (Err RecoveryPartChanged)
       else yield (max highest assigned, offsets(to_ascii_lowercase txid \<mapsto> assigned)))))"

definition persist_generation :: "string \<Rightarrow> u32 \<Rightarrow> u32 \<Rightarrow> (migration_db, part_error, unit) action" where
  "persist_generation run_id origin highest = with_state (\<lambda>db.
     andthen (modify (update_runs (\<lambda>r. run_key r = run_id)
                (\<lambda>r. r\<lparr>run_recovery_origin := Some origin, run_recovery_max_offset := Some highest\<rparr>))) (\<lambda>_.
       lift_outcome (if length (filter (\<lambda>r. run_key r = run_id) (run_rows db)) = 1 then Ok ()
                     else Err RecoveryRunChanged)))"

definition assign_generation ::
  "string \<Rightarrow> u32 \<Rightarrow> u32 \<Rightarrow> rebuild_scan \<Rightarrow> u32 list \<Rightarrow> (migration_db, part_error, rebuild_generation option) action" where
  "assign_generation run_id origin base s fresh_offsets =
     andthen (accumulate (assign_offset run_id base) (base, scan_offsets s) (zip (scan_to_assign s) fresh_offsets)) (\<lambda>(highest, offsets).
     andthen (persist_generation run_id origin highest) (\<lambda>_.
       yield (Some \<lparr>gen_origin_height = origin, gen_offsets_by_txid = offsets\<rparr>)))"

text \<open>What is known before the draw: the origin, the base offset and the scan of the rows.\<close>

definition plan_generation ::
  "json_env \<Rightarrow> migration_db \<Rightarrow> string \<Rightarrow> u32 \<Rightarrow>
    (part_error, timing_policy \<times> run_row \<times> u32 \<times> u32 \<times> rebuild_scan) outcome" where
  "plan_generation J db run_id origin_candidate =
     obind (timing_policy_for_run_with_conn db run_id) (\<lambda>policy.
     obind (read_run db run_id) (\<lambda>r.
     let origin = (case run_recovery_origin r of Some o1 \<Rightarrow> o1 | None \<Rightarrow> origin_candidate);
         elapsed_cursor = saturating_sub origin_candidate origin in
     obind (foldM (scan_row elapsed_cursor) empty_scan (resign_rows db run_id)) (\<lambda>s.
     obind (rebuild_base (run_recovery_origin r) (run_recovery_max_offset r) s elapsed_cursor) (\<lambda>base.
       Ok (policy, r, origin, base, s)))))"

definition fresh_rebuild_offsets ::
  "'r rng_env \<Rightarrow> json_env \<Rightarrow> run_row \<Rightarrow> rebuild_scan \<Rightarrow> wallet_network \<Rightarrow> timing_policy \<Rightarrow> 'r \<Rightarrow>
    (part_error, u32 list) outcome option" where
  "fresh_rebuild_offsets G J r s network policy rng =
     (if scan_to_assign s = [] then Some (Ok [])
      else case schedule_of_json J (run_schedule r) of
        None \<Rightarrow> Some (Err (DecodeJson ''migration rebuild schedule''))
      | Some schedule \<Rightarrow> (case targets_of_json J (run_targets r) of
            None \<Rightarrow> Some (Err (DecodeJson ''migration rebuild target values''))
          | Some targets \<Rightarrow>
              map_option (map_err PartScheduleFailed)
                (rebuild_schedule_block_offsets G schedule targets
                   (map (\<lambda>(txid, part, v, previous). (part, v)) (scan_to_assign s)) network policy rng)))"

definition ensure_rebuild_schedule_generation ::
  "'r rng_env \<Rightarrow> json_env \<Rightarrow> string \<Rightarrow> wallet_network \<Rightarrow> u32 \<Rightarrow> 'r \<Rightarrow> migration_db \<Rightarrow>
    ((part_error, rebuild_generation option) outcome \<times> migration_db) option" where
  "ensure_rebuild_schedule_generation G J run_id network origin_candidate rng db0 =
     (let db = ensure_tables db0 in
      if resign_rows db run_id = [] then Some (Ok None, db)
      else case plan_generation J db run_id origin_candidate of
        Err e \<Rightarrow> Some (Err e, db)
      | Panic \<Rightarrow> Some (Panic, db)
      | Ok (policy, r, origin, base, s) \<Rightarrow>
          map_option (\<lambda>fresh. atomically (andthen (lift_outcome fresh) (assign_generation run_id origin base s)) db)
            (fresh_rebuild_offsets G J r s network policy rng))"

section \<open>Replacement of signed-again parts\<close>

text \<open>\<open>Vec::swap_remove\<close>.\<close>

definition swap_remove :: "nat \<Rightarrow> 'a list \<Rightarrow> 'a list" where
  "swap_remove i xs = (if Suc i = length xs then butlast xs else (butlast xs)[i := last xs])"

fun position :: "('a \<Rightarrow> bool) \<Rightarrow> 'a list \<Rightarrow> nat option" where
  "position P [] = None"
| "position P (x # xs) = (if P x then Some 0 else map_option Suc (position P xs))"

definition entry_matches :: "schedule_entry \<Rightarrow> string \<times> pending_insert \<Rightarrow> bool" where
  "entry_matches e = (\<lambda>(old_txid, p).
     (case part_index e of Some part \<Rightarrow> pin_part_index p = part | None \<Rightarrow> True) \<and> pin_value_zatoshi p = value_zatoshi e)"

text \<open>The replacements in the order of the schedule, and those without an entry.\<close>

fun order_replacements ::
  "schedule_entry list \<Rightarrow> (string \<times> pending_insert) list \<Rightarrow> (string \<times> pending_insert) list \<Rightarrow>
    (string \<times> pending_insert) list \<times> (string \<times> pending_insert) list" where
  "order_replacements [] left done = (done, left)"
| "order_replacements (e # entries) left done =
     (case position (entry_matches e) left of
        None \<Rightarrow> order_replacements entries left done
      | Some i \<Rightarrow> order_replacements entries (swap_remove i left) (done @ [left ! i]))"

definition replacement_start :: "u32 option \<Rightarrow> u32 option \<Rightarrow> pending_insert \<Rightarrow> (part_error, u32) outcome" where
  "replacement_start recovery_origin offset p =
     (case (recovery_origin, offset) of
        (Some origin, Some persisted_offset) \<Rightarrow>
          obind (ok_or (checked_add u32_max origin persisted_offset) RecoveryScheduleOverflow) (\<lambda>height.
            if pin_scheduled_height p \<noteq> height then Err ReplacementOffsetMismatch else Ok origin)
      | (None, None) \<Rightarrow> Ok (saturating_sub (pin_target_height p) 1)
      | other \<Rightarrow> Err RecoveryMetadataIncomplete)"

definition check_replacement ::
  "migration_db \<Rightarrow> string \<Rightarrow> u32 option \<Rightarrow> string \<Rightarrow> pending_insert \<Rightarrow> (part_error, pending_row \<times> u32) outcome" where
  "check_replacement db run_id recovery_origin old_txid p =
     obind (ok_or (List.find (\<lambda>q. is_part run_id old_txid q \<and> pend_status q = ''needs_resign'') (pending_rows db))
              PartDisappeared) (\<lambda>original.
     if pend_value original \<noteq> pin_value_zatoshi p then Err DenominationChanged
     else if to_ascii_lowercase (pend_note_txid original) \<noteq> to_ascii_lowercase (ref_txid_hex (pin_selected_note p))
             \<or> pend_note_index original \<noteq> ref_output_index (pin_selected_note p) then Err FundingNoteChanged
     else obind (canonical_expiry (pin_scheduled_height p)) (\<lambda>expiry.
       if pin_expiry_height p \<noteq> expiry then Err ReplacementExpiryNotCanonical
       else obind (replacement_start recovery_origin (pend_rebuild_offset original) p) (\<lambda>start.
         obind (ok_or (checked_sub (pin_scheduled_height p) start) SignedScheduleBelowZero) (\<lambda>_. Ok (original, start)))))"

definition delete_part :: "string \<Rightarrow> string \<Rightarrow> migration_db \<Rightarrow> migration_db" where
  "delete_part run_id txid db = db\<lparr>pending_rows := filter (\<lambda>p. \<not> is_part run_id txid p) (pending_rows db)\<rparr>"

definition replace_part ::
  "crypto_env \<Rightarrow> json_env \<Rightarrow> nat \<Rightarrow> string \<Rightarrow> payload_key \<Rightarrow> u32 option \<Rightarrow> u32 \<Rightarrow> nat \<Rightarrow> string \<times> pending_insert \<Rightarrow>
    (migration_db, part_error, nat) action" where
  "replace_part env J start_ms run_id key recovery_origin tip draw = (\<lambda>(old_txid, p). with_state (\<lambda>db.
     andthen (lift_outcome (check_replacement db run_id recovery_origin old_txid p)) (\<lambda>(original, start).
     andthen (lift_outcome (map_err PartPayloadFailed (payload_key_encrypt env draw key (pin_raw_tx p)))) (\<lambda>raw.
     andthen (lift_outcome (ok_or (checked_add i64_max start_ms
                (saturating_sub (pin_scheduled_height p) tip * 1000)) ReplacementTimeOverflow)) (\<lambda>at.
     andthen (modify (delete_part run_id old_txid)) (\<lambda>_.
     andthen (statement InsertPartFailed (insert_part_row
        ((pending_row_of J run_id raw at p start)\<lparr>pend_original_height := pend_original_height original\<rparr>))) (\<lambda>_.
       yield (draw + 1))))))))"

definition replace_resigned_pending_parts ::
  "crypto_env \<Rightarrow> json_env \<Rightarrow> (nat \<Rightarrow> nat) \<Rightarrow> nat \<Rightarrow> string \<Rightarrow> u32 \<Rightarrow> (string \<times> pending_insert) list \<Rightarrow>
    signed_insert list \<Rightarrow> bytes \<Rightarrow> string \<Rightarrow> (migration_db, part_error, unit) action" where
  "replace_resigned_pending_parts env J clock draw run_id chain_tip_height replacements signed_children
       password salt_base64 =
     (if replacements = [] then yield ()
      else opened (with_state (\<lambda>db.
        andthen (lift_outcome (read_run db run_id)) (\<lambda>r.
        andthen (lift_outcome (ok_or (schedule_of_json J (run_schedule r)) (DecodeJson ''replacement migration schedule''))) (\<lambda>schedule.
        andthen (lift_outcome (pending_salt env salt_base64)) (\<lambda>salt.
          atomically (
            case order_replacements schedule replacements [] of (ordered, left) \<Rightarrow>
            if left \<noteq> [] then lift_outcome (Err ReplacementMismatch)
            else andthen (accumulate (replace_part env J (clock 0) run_id (payload_key_new env password salt)
                            (run_recovery_origin r) chain_tip_height) draw ordered) (\<lambda>draw'.
              andthen (insert_signed_child_pczts_with_tx env J draw' run_id signed_children password salt_base64 ReplacementInsert) (\<lambda>_.
                modify (update_runs (\<lambda>r. run_key r = run_id) (set_phase PHASE_BROADCAST_SCHEDULED (clock 1) None)))))))))))"

end
