(* ===== verification/WalletLocks.thy ===== *)
theory WalletLocks
  imports PartTypes
begin

text \<open>
  The locks on wallet outputs that the migration takes
  (\<open>rust/src/wallet/sync/migration_wallet_ops.rs\<close> and the wallet-lock reconciliation of
  \<open>migration.rs\<close>). The lock store belongs to the third-party wallet library: its state is a type
  parameter, \<open>lock_env\<close> holds the calls the code makes and \<open>output_lock_store\<close> what
  they promise. A run's state is the pair of the migration database and that store.
\<close>

datatype pool_type = Transparent | Sapling | OrchardPool | IronwoodPool

record output_ref =
  oref_txid :: bytes
  oref_pool :: pool_type
  oref_index :: u32

type_synonym lock_owner = bytes

datatype lock_error =
    DecodeInputTxid
  | InputTxidLength
  | ReadTargetHeight
  | ResolveInput
  | LockFailed
  | UnlockFailed
  | LockPhaseUnreadable
  | PhaseChangedRepeatedly

record 'w lock_env =
  target_height_of :: "'w \<Rightarrow> (lock_error, u32 option) outcome"
  spendable_note :: "'w \<Rightarrow> bytes \<Rightarrow> u32 \<Rightarrow> u32 \<Rightarrow> (lock_error, bool) outcome"
  lock_outputs :: "output_ref list \<Rightarrow> lock_owner \<Rightarrow> u32 \<Rightarrow> ('w, lock_error, unit) action"
  unlock_output :: "output_ref \<Rightarrow> lock_owner \<Rightarrow> ('w, lock_error, unit) action"
  sha256 :: "bytes \<Rightarrow> lock_owner"

text \<open>
  \<open>holder w r\<close> is the owner of the lock on an output. Locking gives every listed output to the
  owner, unlocking takes an output from the owner that names itself, and neither touches
  another output, also when it fails.
\<close>

locale output_lock_store =
  fixes E :: "'w lock_env" and holder :: "'w \<Rightarrow> output_ref \<Rightarrow> lock_owner option"
  assumes locked: "lock_outputs E rs owner until w = (Ok (), w') \<Longrightarrow> r \<in> set rs \<Longrightarrow> holder w' r = Some owner"
    and lock_frame: "lock_outputs E rs owner until w = (res, w') \<Longrightarrow> r \<notin> set rs \<Longrightarrow> holder w' r = holder w r"
    and unlocked: "unlock_output E r owner w = (Ok (), w') \<Longrightarrow> holder w' r \<noteq> Some owner"
    and unlock_other: "unlock_output E r owner w = (res, w') \<Longrightarrow> r' \<noteq> r \<Longrightarrow> holder w' r' = holder w r'"
    and unlock_owner: "unlock_output E r owner w = (res, w') \<Longrightarrow> holder w r \<noteq> Some owner \<Longrightarrow> holder w' r = holder w r"
    and unlock_leaves: "unlock_output E r owner w = (res, w') \<Longrightarrow> holder w' r \<in> {None, holder w r}"
begin

lemma unlock_frame:
  assumes "unlock_output E r owner w = (res, w')" "holder w q \<noteq> Some owner"
  shows "holder w' q = holder w q"
  using assms unlock_other unlock_owner by (cases "q = r") metis+

lemma unlock_all_frame:
  assumes "for_each (\<lambda>r. unlock_output E r owner) rs w = (res, w')" "holder w q \<noteq> Some owner"
  shows "holder w' q = holder w q"
  using assms
proof (induction rs arbitrary: w)
  case (Cons r rs)
  obtain x v where v: "unlock_output E r owner w = (x, v)" by (cases "unlock_output E r owner w")
  have q: "holder v q = holder w q" using unlock_frame [OF v Cons.prems(2)] .
  show ?case
  proof (cases x)
    case (Ok u)
    then have "for_each (\<lambda>r. unlock_output E r owner) rs v = (res, w')"
      using Cons.prems(1) v by (simp add: andthen_def)
    then show ?thesis using Cons.IH q Cons.prems(2) by metis
  next
    case (Err e) then show ?thesis using Cons.prems(1) v q by (simp add: andthen_def)
  next
    case Panic then show ?thesis using Cons.prems(1) v q by (simp add: andthen_def)
  qed
qed simp

lemma unlock_all_none:
  assumes "for_each (\<lambda>r. unlock_output E r owner) rs w = (Ok (), w')" "q \<in> set rs"
  shows "holder w' q \<noteq> Some owner"
  using assms
proof (induction rs arbitrary: w)
  case (Cons r rs)
  from Cons.prems(1) obtain v where v: "unlock_output E r owner w = (Ok (), v)"
    and rest: "for_each (\<lambda>r. unlock_output E r owner) rs v = (Ok (), w')"
    by (auto simp: andthen_Ok)
  show ?case
  proof (cases "q \<in> set rs")
    case True then show ?thesis using Cons.IH rest by blast
  next
    case False
    then have "q = r" using Cons.prems(2) by simp
    then have "holder v q \<noteq> Some owner" using v unlocked by metis
    then show ?thesis using unlock_all_frame [OF rest] by metis
  qed
qed simp

end

section \<open>The calls of the migration\<close>

definition ascii_bytes :: "string \<Rightarrow> bytes" where "ascii_bytes s = map of_char s"

definition migration_lock_owner :: "'w lock_env \<Rightarrow> string \<Rightarrow> lock_owner" where
  "migration_lock_owner E run_id = sha256 E (ascii_bytes ''vizor-ironwood-migration-lock-v1'' @ ascii_bytes run_id)"

definition orchard_output_ref :: "string \<times> u32 \<Rightarrow> (lock_error, output_ref) outcome" where
  "orchard_output_ref = (\<lambda>(txid_hex, output_index).
     obind (ok_or (hex_decode txid_hex) DecodeInputTxid) (\<lambda>bs.
       if length bs \<noteq> 32 then Err InputTxidLength
       else Ok \<lparr>oref_txid = rev bs, oref_pool = OrchardPool, oref_index = output_index\<rparr>))"

text \<open>The outputs the wallet sees as spendable, each once.\<close>

fun resolve_outputs ::
  "'w lock_env \<Rightarrow> 'w \<Rightarrow> u32 \<Rightarrow> (bytes \<times> u32) set \<Rightarrow> output_ref list \<Rightarrow> (lock_error, output_ref list) outcome" where
  "resolve_outputs E w target seen [] = Ok []"
| "resolve_outputs E w target seen (r # rs) =
     (if (oref_txid r, oref_index r) \<in> seen then resolve_outputs E w target seen rs
      else obind (spendable_note E w (oref_txid r) (oref_index r) target) (\<lambda>found.
        obind (resolve_outputs E w target (insert (oref_txid r, oref_index r) seen) rs) (\<lambda>rest.
          Ok (if found then r # rest else rest))))"

definition ensure_orchard_migration_locks ::
  "'w lock_env \<Rightarrow> string \<Rightarrow> (string \<times> u32) list \<Rightarrow> ('w, lock_error, bool) action" where
  "ensure_orchard_migration_locks E run_id candidates =
     (if candidates = [] then yield True
      else andthen (lift_outcome (mapM orchard_output_ref candidates)) (\<lambda>refs.
        with_state (\<lambda>w.
        andthen (lift_outcome (target_height_of E w)) (\<lambda>target.
          case target of
            None \<Rightarrow> yield False
          | Some height \<Rightarrow>
              andthen (lift_outcome (resolve_outputs E w height {} refs)) (\<lambda>outputs.
                if outputs = [] then yield True
                else andthen (lock_outputs E outputs (migration_lock_owner E run_id) u32_max) (\<lambda>_. yield True))))))"

definition unlock_candidate :: "'w lock_env \<Rightarrow> lock_owner \<Rightarrow> string \<times> u32 \<Rightarrow> ('w, lock_error, unit) action" where
  "unlock_candidate E owner c =
     andthen (lift_outcome (orchard_output_ref c)) (\<lambda>r. unlock_output E r owner)"

definition unlock_orchard_migration_outputs ::
  "'w lock_env \<Rightarrow> string \<Rightarrow> (string \<times> u32) list \<Rightarrow> ('w, lock_error, unit) action" where
  "unlock_orchard_migration_outputs E run_id candidates =
     for_each (unlock_candidate E (migration_lock_owner E run_id)) candidates"

section \<open>Reconciliation with the phase of the run\<close>

text \<open>A \<open>BTreeSet\<close> of the prepared notes and the stage inputs of the run.\<close>

definition wallet_lock_candidates_with_conn :: "migration_db \<Rightarrow> string \<Rightarrow> (string \<times> u32) list" where
  "wallet_lock_candidates_with_conn db run_id =
     sort_key fst (sort_key snd (remdups
       (map (\<lambda>n. (note_txid n, note_output_index n)) (filter (\<lambda>n. note_run_id n = run_id) (note_rows db))
        @ map (\<lambda>i. (irow_txid i, irow_output_index i))
            (filter (\<lambda>i. irow_run_id i = run_id) (input_rows (stages_db db))))))"

definition wallet_lock_reconciliation_snapshot ::
  "migration_db \<Rightarrow> string \<Rightarrow> (bool \<times> (string \<times> u32) list) option" where
  "wallet_lock_reconciliation_snapshot db run_id =
     map_option (\<lambda>r. (migration_phase_releases_wallet_locks (run_phase r), wallet_lock_candidates_with_conn db run_id))
       (find_run db run_id)"

text \<open>
  One pass: lock or unlock by the phase that was read, then read it again. Another process may change the
  database in between: \<open>dbs\<close> are the databases the snapshots of the passes see, two for each pass.
  The result says whether the locks could be taken; \<open>None\<close> that the phase had changed.
\<close>

definition reconcile_pass ::
  "'w lock_env \<Rightarrow> string \<Rightarrow> migration_db \<Rightarrow> migration_db \<Rightarrow> ('w, lock_error, bool option) action" where
  "reconcile_pass E run_id before after =
     (case wallet_lock_reconciliation_snapshot before run_id of
        None \<Rightarrow> yield (Some True)
      | Some (release_locks, candidates) \<Rightarrow>
          andthen (if release_locks
                   then andthen (unlock_orchard_migration_outputs E run_id candidates) (\<lambda>_. yield True)
                   else ensure_orchard_migration_locks E run_id candidates) (\<lambda>completed.
            case wallet_lock_reconciliation_snapshot after run_id of
              None \<Rightarrow> andthen (unlock_orchard_migration_outputs E run_id candidates) (\<lambda>_. yield (Some True))
            | Some (current_release, current_candidates) \<Rightarrow>
                yield (if release_locks = current_release then Some completed else None)))"

fun reconcile_passes ::
  "'w lock_env \<Rightarrow> string \<Rightarrow> (nat \<Rightarrow> migration_db) \<Rightarrow> nat \<Rightarrow> nat \<Rightarrow> ('w, lock_error, bool) action" where
  "reconcile_passes E run_id dbs i 0 w = (Err PhaseChangedRepeatedly, w)"
| "reconcile_passes E run_id dbs i (Suc n) w =
     andthen (reconcile_pass E run_id (dbs i) (dbs (Suc i))) (\<lambda>result.
       case result of Some completed \<Rightarrow> yield completed | None \<Rightarrow> reconcile_passes E run_id dbs (i + 2) n) w"

definition reconcile_wallet_locks_for_run_with_outcome ::
  "'w lock_env \<Rightarrow> string \<Rightarrow> (nat \<Rightarrow> migration_db) \<Rightarrow> ('w, lock_error, bool) action" where
  "reconcile_wallet_locks_for_run_with_outcome E run_id dbs = reconcile_passes E run_id dbs 0 8"

end
