(* ===== verification/PartStop.thy ===== *)
theory PartStop
  imports PartInsert WalletLocks
begin

text \<open>
  The life of a run around its parts (\<open>rust/src/wallet/sync/migration.rs\<close>): the active run of an
  account, the private draft, its finalization, the phase changes, retiring and stopping a run, and the
  recovery of a broadcast that the network had in fact accepted. State is the migration database, or
  its pair with the wallet's lock store where locks are touched.
\<close>

datatype run_error =
    PartError part_error
  | LockError lock_error
  | StageError stage_error
  | ScheduleError schedule_error
  | AlreadyActive string
  | DraftPlanChanged
  | RecoveryMustComplete
  | DraftNotFound
  | DraftNotAwaiting
  | DraftTargetsChanged
  | NoFundingNotes
  | InsertRunFailed

section \<open>The active run\<close>

text \<open>
  \<open>ORDER BY created_at_ms DESC LIMIT 1\<close>. Of runs created in the same millisecond SQLite may return any; the
  model takes the first.
\<close>

definition latest_by :: "(run_row \<Rightarrow> nat) \<Rightarrow> run_row list \<Rightarrow> run_row option" where
  "latest_by f rs = (case rs of [] \<Rightarrow> None | r # _ \<Rightarrow> List.find (\<lambda>r. f r = Max (f ` set rs)) rs)"

definition account_runs :: "migration_db \<Rightarrow> string \<Rightarrow> wallet_network \<Rightarrow> run_row list" where
  "account_runs db account_uuid network =
     filter (\<lambda>r. run_account r = account_uuid \<and> run_network r = network_name network) (run_rows db)"

definition phase_is_active :: "string \<Rightarrow> bool" where
  "phase_is_active phase \<longleftrightarrow>
     phase \<notin> {PHASE_NO_ORCHARD_FUNDS, PHASE_COMPLETE, PHASE_FAILED_TERMINAL, PHASE_ABANDONED}"

definition run_info :: "json_env \<Rightarrow> run_row \<Rightarrow> active_run_info" where
  "run_info J r = \<lparr>act_run_id = run_key r, act_phase = run_phase r,
     act_target_values = (case targets_of_json J (run_targets r) of None \<Rightarrow> [] | Some v \<Rightarrow> v),
     act_last_error = run_last_error r\<rparr>"

definition active_run :: "json_env \<Rightarrow> migration_db \<Rightarrow> string \<Rightarrow> wallet_network \<Rightarrow> active_run_info option" where
  "active_run J db account_uuid network =
     map_option (run_info J) (latest_by run_created_at_ms
       (filter (\<lambda>r. phase_is_active (run_phase r)) (account_runs db account_uuid network)))"

section \<open>A broadcast the network had accepted\<close>

fun contains_text :: "string \<Rightarrow> string \<Rightarrow> bool" where
  "contains_text needle [] = (needle = [])"
| "contains_text needle (c # cs) = (take (length needle) (c # cs) = needle \<or> contains_text needle cs)"

definition accepted_messages :: "string list" where
  "accepted_messages =
     [''transaction was committed to the best chain'', ''already in mempool'', ''already have transaction'',
      ''transaction already in block chain'', ''transaction is already in state'', ''transaction already exists'',
      ''txn-already-known'', ''txn-already-in-mempool'', ''already known'']"

definition send_rejection_is_already_accepted :: "string \<Rightarrow> bool" where
  "send_rejection_is_already_accepted message =
     list_ex (\<lambda>needle. contains_text needle (to_ascii_lowercase message)) accepted_messages"

definition send_response_rejection_error :: "int \<Rightarrow> string \<Rightarrow> (string \<times> int) option" where
  "send_response_rejection_error error_code error_message =
     (if error_code = 0 \<or> send_rejection_is_already_accepted error_message then None
      else Some (error_message, error_code))"

definition latest_idempotent_broadcast_failure ::
  "migration_db \<Rightarrow> string \<Rightarrow> wallet_network \<Rightarrow> (part_error, (string \<times> string) option) outcome" where
  "latest_idempotent_broadcast_failure db account_uuid network =
     (case latest_by run_created_at_ms (account_runs db account_uuid network) of
        None \<Rightarrow> Ok None
      | Some r \<Rightarrow> (case run_last_error r of
            None \<Rightarrow> Ok None
          | Some last_error \<Rightarrow>
              if run_phase r \<noteq> PHASE_FAILED_TERMINAL \<or> \<not> send_rejection_is_already_accepted last_error then Ok None
              else obind (count_pending_with_status db (run_key r) ''scheduled'') (\<lambda>scheduled_count.
                Ok (if scheduled_count = 0 then None else Some (run_key r, last_error)))))"

definition lock_notes :: "string \<Rightarrow> migration_db \<Rightarrow> migration_db" where
  "lock_notes run_id =
     update_notes (\<lambda>n. note_run_id n = run_id) (\<lambda>n. n\<lparr>note_lock_state := ''locked''\<rparr>)"

definition recover_latest_idempotent_broadcast_failure ::
  "nat \<Rightarrow> string \<Rightarrow> wallet_network \<Rightarrow> (migration_db, part_error, unit) action" where
  "recover_latest_idempotent_broadcast_failure now account_uuid network = with_state (\<lambda>db.
     andthen (lift_outcome (latest_idempotent_broadcast_failure db account_uuid network)) (\<lambda>found.
       case found of
         None \<Rightarrow> yield ()
       | Some (run_id, last_error) \<Rightarrow>
           let failed = (\<lambda>r. run_key r = run_id \<and> run_phase r = PHASE_FAILED_TERMINAL \<and> run_last_error r = Some last_error)
           in if \<not> list_ex failed (run_rows db) then yield ()
              else andthen (modify (update_runs failed (set_phase PHASE_BROADCAST_SCHEDULED now None))) (\<lambda>_.
                     modify (lock_notes run_id))))"

definition migration_reserves_orchard_inputs_in_snapshot ::
  "json_env \<Rightarrow> migration_db \<Rightarrow> string \<Rightarrow> wallet_network \<Rightarrow> (part_error, bool) outcome" where
  "migration_reserves_orchard_inputs_in_snapshot J db account_uuid network =
     (if active_run J db account_uuid network \<noteq> None then Ok True
      else obind (latest_idempotent_broadcast_failure db account_uuid network) (\<lambda>found. Ok (found \<noteq> None)))"

section \<open>Creating a run\<close>

definition is_private_migration_draft_phase :: "string \<Rightarrow> bool" where
  "is_private_migration_draft_phase phase \<longleftrightarrow>
     phase = PHASE_AWAITING_PREPARATION \<or> phase = PHASE_AWAITING_DENOMINATION_SIGNATURE"

definition new_run_row ::
  "string \<Rightarrow> string \<Rightarrow> wallet_network \<Rightarrow> string \<Rightarrow> nat \<Rightarrow> string \<Rightarrow> string \<Rightarrow> timing_policy \<Rightarrow> preparation_timing_policy \<Rightarrow>
    run_row" where
  "new_run_row run_id account_uuid network phase now targets schedule policy preparation =
     \<lparr>run_key = run_id, run_account = account_uuid, run_network = network_name network, run_phase = phase,
      run_created_at_ms = now, run_updated_at_ms = now, run_targets = targets, run_schedule = schedule,
      run_timing_policy = timing_policy_as_str policy,
      run_preparation_policy = preparation_policy_as_str preparation, run_proof_retry_height = None,
      run_signed_origin = None, run_rebased_origin = None, run_recovery_origin = None,
      run_recovery_max_offset = None, run_last_error = None\<rparr>"

definition insert_run :: "run_row \<Rightarrow> (migration_db, run_error, unit) action" where
  "insert_run r db =
     (if run_key r \<in> run_key ` set (run_rows db) then (Err InsertRunFailed, db)
      else (Ok (), db\<lparr>run_rows := run_rows db @ [r]\<rparr>))"

text \<open>\<open>run_id\<close> is the fresh id that \<open>new_run_id\<close> makes from the account, the clock and random bytes.\<close>

definition create_or_resume_private_migration_draft ::
  "json_env \<Rightarrow> policy_state \<Rightarrow> nat \<Rightarrow> string \<Rightarrow> string \<Rightarrow> wallet_network \<Rightarrow> u64 list \<Rightarrow> schedule_entry list \<Rightarrow>
    preparation_timing_policy \<Rightarrow> (migration_db, run_error, string) action" where
  "create_or_resume_private_migration_draft J st now run_id account_uuid network targets schedule preparation =
     opened (atomically (with_state (\<lambda>db.
       case active_run J db account_uuid network of
         Some run \<Rightarrow>
           lift_outcome (if is_private_migration_draft_phase (act_phase run)
             then if act_target_values run \<noteq> targets then Err DraftPlanChanged else Ok (act_run_id run)
             else Err (AlreadyActive (act_run_id run)))
       | None \<Rightarrow>
           andthen (lift_outcome (map_err PartError (latest_idempotent_broadcast_failure db account_uuid network))) (\<lambda>failure.
             if failure \<noteq> None then lift_outcome (Err RecoveryMustComplete)
             else let policy = configured_timing_policy st network in
               andthen (lift_outcome (map_err ScheduleError (validate_schedule_with_policy schedule targets network policy))) (\<lambda>_.
               andthen (insert_run (new_run_row run_id account_uuid network PHASE_AWAITING_PREPARATION now
                          (json_of_targets J targets) (json_of_schedule J schedule) policy preparation)) (\<lambda>_.
                 yield run_id))))))"

definition note_row_of :: "string \<Rightarrow> bool \<Rightarrow> prepared_note_ref \<Rightarrow> note_row" where
  "note_row_of run_id locked n =
     \<lparr>note_run_id = run_id, note_txid = ref_txid_hex n, note_output_index = ref_output_index n,
      note_value = ref_value_zatoshi n, note_version = ref_note_version n, note_nullifier = ref_nullifier_hex n,
      note_lock_state = (if locked then ''locked'' else ''unlocked'')\<rparr>"

definition same_note :: "note_row \<Rightarrow> note_row \<Rightarrow> bool" where
  "same_note m n \<longleftrightarrow> note_run_id m = note_run_id n \<and> note_txid m = note_txid n
     \<and> note_output_index m = note_output_index n"

definition replace_note :: "note_row \<Rightarrow> migration_db \<Rightarrow> migration_db option" where
  "replace_note n db =
     (if note_value n \<le> i64_max
      then Some (db\<lparr>note_rows := filter (\<lambda>m. \<not> same_note m n) (note_rows db) @ [n]\<rparr>) else None)"

definition insert_prepared_notes_with_tx ::
  "string \<Rightarrow> prepared_note_ref list \<Rightarrow> bool \<Rightarrow> (migration_db, part_error, unit) action" where
  "insert_prepared_notes_with_tx run_id notes locked =
     for_each (\<lambda>n. statement InsertPartFailed (replace_note (note_row_of run_id locked n))) notes"

text \<open>Actions of the components below, with their errors and their part of the state.\<close>

definition as_run_error :: "('e \<Rightarrow> run_error) \<Rightarrow> ('s, 'e, 'a) action \<Rightarrow> ('s, run_error, 'a) action" where
  "as_run_error f m s = (case m s of (r, t) \<Rightarrow> (map_err f r, t))"

definition on_stages ::
  "(stage_db \<Rightarrow> (stage_error, 'a) outcome \<times> stage_db) \<Rightarrow> (migration_db, run_error, 'a) action" where
  "on_stages m db = (case m (stages_db db) of (r, t) \<Rightarrow> (map_err StageError r, db\<lparr>stages_db := t\<rparr>))"

text \<open>The rows of a prepared run: its notes, its stages and its signed children, with their draws.\<close>

definition insert_preparation ::
  "crypto_env \<Rightarrow> json_env \<Rightarrow> nat \<Rightarrow> nat \<Rightarrow> string \<Rightarrow> prepared_note_ref list \<Rightarrow> stage_insert list \<Rightarrow> signed_insert list \<Rightarrow>
    bytes \<Rightarrow> string \<Rightarrow> (migration_db, run_error, unit) action" where
  "insert_preparation env J draw draw' run_id prepared_notes stages signed_children password salt_base64 =
     andthen (as_run_error PartError (insert_prepared_notes_with_tx run_id prepared_notes True)) (\<lambda>_.
     andthen (on_stages (insert_denomination_stages_with_tx env draw run_id stages password salt_base64)) (\<lambda>_.
       as_run_error PartError
         (insert_signed_child_pczts_with_tx env J draw' run_id signed_children password salt_base64 InitialInsert)))"

definition initial_phase :: "stage_insert list \<Rightarrow> string" where
  "initial_phase stages = (if stages = [] then PHASE_READY_TO_MIGRATE else PHASE_WAITING_DENOM_CONFIRMATIONS)"

section \<open>Locks beside the database\<close>

definition on_db :: "(migration_db, 'e, 'a) action \<Rightarrow> (migration_db \<times> 'w, 'e, 'a) action" where
  "on_db m = (\<lambda>(db, w). case m db of (r, db') \<Rightarrow> (r, (db', w)))"

definition reconcile_wallet_locks_for_run :: "'w lock_env \<Rightarrow> string \<Rightarrow> (migration_db \<times> 'w, run_error, unit) action" where
  "reconcile_wallet_locks_for_run E run_id = (\<lambda>(db, w).
     case reconcile_wallet_locks_for_run_with_outcome E run_id (\<lambda>_. db) w of
       (r, w') \<Rightarrow> (obind (map_err LockError r) (\<lambda>_. Ok ()), (db, w')))"

text \<open>\<open>draw\<close> and \<open>draw'\<close> are the nonces of the stages and of the signed children.\<close>

definition finalize_private_migration_draft ::
  "crypto_env \<Rightarrow> json_env \<Rightarrow> 'w lock_env \<Rightarrow> nat \<Rightarrow> nat \<Rightarrow> nat \<Rightarrow> string \<Rightarrow> string \<Rightarrow> wallet_network \<Rightarrow> u64 list \<Rightarrow>
    prepared_note_ref list \<Rightarrow> signed_insert list \<Rightarrow> stage_insert list \<Rightarrow> bytes \<Rightarrow> string \<Rightarrow>
    (migration_db \<times> 'w, run_error, unit) action" where
  "finalize_private_migration_draft env J E now draw draw' run_id account_uuid network planned_outputs
       prepared_notes signed_children stages password salt_base64 =
     (if stages = [] \<and> prepared_notes = [] then lift_outcome (Err NoFundingNotes)
      else andthen (on_db (opened (with_state (\<lambda>db.
        andthen (lift_outcome (ok_or (active_run J db account_uuid network) DraftNotFound)) (\<lambda>run.
          if act_run_id run \<noteq> run_id \<or> \<not> is_private_migration_draft_phase (act_phase run)
          then lift_outcome (Err DraftNotAwaiting)
          else if act_target_values run \<noteq> planned_outputs then lift_outcome (Err DraftTargetsChanged)
          else atomically
            (andthen (insert_preparation env J draw draw' run_id prepared_notes stages signed_children password salt_base64) (\<lambda>_.
              modify (update_runs (\<lambda>r. run_key r = run_id \<and> is_private_migration_draft_phase (run_phase r))
                (set_phase (initial_phase stages) now None)))))))))
        (\<lambda>_. reconcile_wallet_locks_for_run E run_id))"

definition initial_lock_candidates :: "prepared_note_ref list \<Rightarrow> stage_insert list \<Rightarrow> (string \<times> u32) list" where
  "initial_lock_candidates prepared_notes stages =
     sort_key fst (sort_key snd (remdups
       (map (\<lambda>n. (ref_txid_hex n, ref_output_index n)) prepared_notes
        @ map (\<lambda>i. (in_txid_hex i, in_output_index i)) (concat (map ins_inputs stages)))))"

text \<open>
  \<open>cleanup_failed_created_run\<close>: the run is deleted only when its locks could be released; the
  error is that of the reconciliation in either case.
\<close>

definition cleanup_failed_created_run ::
  "'w lock_env \<Rightarrow> string \<Rightarrow> (string \<times> u32) list \<Rightarrow> migration_db \<times> 'w \<Rightarrow> migration_db \<times> 'w" where
  "cleanup_failed_created_run E run_id candidates = (\<lambda>(db, w).
     case unlock_orchard_migration_outputs E run_id candidates w of
       (Ok u, w') \<Rightarrow> (db\<lparr>run_rows := filter (\<lambda>r. run_key r \<noteq> run_id) (run_rows db)\<rparr>, w')
     | (other, w') \<Rightarrow> (db, w'))"

definition create_run_with_staged_denominations_and_signed_children ::
  "crypto_env \<Rightarrow> json_env \<Rightarrow> 'w lock_env \<Rightarrow> policy_state \<Rightarrow> nat \<Rightarrow> nat \<Rightarrow> nat \<Rightarrow> string \<Rightarrow> string \<Rightarrow> wallet_network \<Rightarrow>
    u64 list \<Rightarrow> prepared_note_ref list \<Rightarrow> signed_insert list \<Rightarrow> stage_insert list \<Rightarrow> schedule_entry list option \<Rightarrow>
    preparation_timing_policy \<Rightarrow> bytes \<Rightarrow> string \<Rightarrow> (migration_db \<times> 'w, run_error, string) action" where
  "create_run_with_staged_denominations_and_signed_children env J E st now draw draw' run_id account_uuid network
       planned_outputs prepared_notes signed_children stages approved preparation password salt_base64 =
     (if stages = [] \<and> prepared_notes = [] then lift_outcome (Err NoFundingNotes)
      else let policy = configured_timing_policy st network in
      andthen (on_db (opened (with_state (\<lambda>db.
        case active_run J db account_uuid network of
          Some run \<Rightarrow> lift_outcome (Err (AlreadyActive (act_run_id run)))
        | None \<Rightarrow>
            andthen (lift_outcome (case approved of
                 Some schedule \<Rightarrow> obind (map_err ScheduleError (validate_schedule_with_policy schedule planned_outputs
                                             network policy)) (\<lambda>_. Ok (json_of_schedule J schedule))
               | None \<Rightarrow> Ok ''[]'')) (\<lambda>schedule_json.
              atomically
                (andthen (insert_run (new_run_row run_id account_uuid network (initial_phase stages) now
                            (json_of_targets J planned_outputs) schedule_json policy preparation)) (\<lambda>_.
                  insert_preparation env J draw draw' run_id prepared_notes stages signed_children password salt_base64)))))))
        (\<lambda>_ s. case reconcile_wallet_locks_for_run E run_id s of
           (Ok u, t) \<Rightarrow> (Ok run_id, t)
         | (Err e, t) \<Rightarrow> (Err e, cleanup_failed_created_run E run_id (initial_lock_candidates prepared_notes stages) t)
         | (Panic, t) \<Rightarrow> (Panic, t)))"

section \<open>Ending a run\<close>

definition mark_run_phase :: "nat \<Rightarrow> string \<Rightarrow> string \<Rightarrow> string option \<Rightarrow> (migration_db, part_error, unit) action" where
  "mark_run_phase now run_id phase message =
     opened (modify (update_runs (\<lambda>r. run_key r = run_id) (set_phase phase now message)))"

definition run_phase_of :: "migration_db \<Rightarrow> string \<Rightarrow> (part_error, string) outcome" where
  "run_phase_of db run_id = obind (read_run db run_id) (\<lambda>r. Ok (run_phase r))"

definition retire_run_for_rebuild ::
  "'w lock_env \<Rightarrow> nat \<Rightarrow> string \<Rightarrow> string \<Rightarrow> (migration_db \<times> 'w, run_error, unit) action" where
  "retire_run_for_rebuild E now run_id message =
     andthen (on_db (opened (atomically
       (andthen (modify (update_runs (\<lambda>r. run_key r = run_id) (set_phase PHASE_FAILED_TERMINAL now (Some message)))) (\<lambda>_.
          modify (unlock_notes run_id))))))
       (\<lambda>_. reconcile_wallet_locks_for_run E run_id)"

definition stopped_message :: string where "stopped_message = ''Migration stopped by the user.''"

definition discard_parts :: "string \<Rightarrow> migration_db \<Rightarrow> migration_db" where
  "discard_parts run_id db =
     db\<lparr>pending_rows := filter (\<lambda>p. \<not> (pend_run_id p = run_id
          \<and> pend_status p \<in> {''scheduled'', ''needs_resign''})) (pending_rows db)\<rparr>"

text \<open>The transaction that stops a run found in \<open>phase\<close>.\<close>

definition stop_transition :: "nat \<Rightarrow> string \<Rightarrow> string \<Rightarrow> (migration_db, run_error, unit) action" where
  "stop_transition now run_id phase = atomically (with_state (\<lambda>db.
     let found = (\<lambda>r. run_key r = run_id \<and> run_phase r = phase) in
     andthen (modify (update_runs found (set_phase PHASE_ABANDONED now (Some stopped_message)))) (\<lambda>_.
       if length (filter found (run_rows db)) \<noteq> 1 then lift_outcome (Err (PartError PhaseChangedWhileStopping))
       else andthen (modify (delete_signed run_id)) (\<lambda>_.
            andthen (modify (discard_parts run_id)) (\<lambda>_.
            andthen (modify (unlock_notes run_id)) (\<lambda>_.
              modify (update_runs (\<lambda>r. run_key r = run_id)
                (\<lambda>r. r\<lparr>run_recovery_origin := None, run_recovery_max_offset := None\<rparr>))))))))"

text \<open>The stage rows go last: they are the only durable list of the outputs to unlock.\<close>

definition discard_stages :: "string \<Rightarrow> (migration_db \<times> 'w, run_error, unit) action" where
  "discard_stages run_id =
     on_db (modify (\<lambda>db. db\<lparr>stages_db := discard_unsubmitted_preparation_stages run_id (stages_db db)\<rparr>))"

definition abandon_run ::
  "'w lock_env \<Rightarrow> nat \<Rightarrow> string \<Rightarrow> wallet_network \<Rightarrow> string \<Rightarrow> (migration_db \<times> 'w, run_error, unit) action" where
  "abandon_run E now account_uuid network expected_run_id =
     andthen (on_db (modify ensure_tables)) (\<lambda>_. with_state (\<lambda>(db, w).
     andthen (lift_outcome (map_err PartError (read_run db expected_run_id))) (\<lambda>r.
       if run_account r \<noteq> account_uuid \<or> run_network r \<noteq> network_name network
       then lift_outcome (Err (PartError RunOfOtherAccount))
       else andthen
         (if run_phase r = PHASE_ABANDONED then yield ()
          else if run_phase r = PHASE_COMPLETE \<or> run_phase r = PHASE_FAILED_TERMINAL
          then lift_outcome (Err (PartError (RunTerminal (run_phase r))))
          else on_db (stop_transition now expected_run_id (run_phase r))) (\<lambda>_.
         andthen (reconcile_wallet_locks_for_run E expected_run_id) (\<lambda>_. discard_stages expected_run_id)))))"

section \<open>Deleting an account\<close>

text \<open>
  \<open>delete_account_migration_rows_with_tx\<close>: the rows of the runs of the account, table by table, and the
  runs last; a database without the tables of the migration is left alone.
\<close>

definition delete_account_migration_rows_with_tx :: "string \<Rightarrow> migration_db \<Rightarrow> migration_db" where
  "delete_account_migration_rows_with_tx account_uuid db =
     (if \<not> tables_exist (stages_db db) then db
      else let gone = run_key ` {r \<in> set (run_rows db). run_account r = account_uuid};
               stages = stages_db db
        in db\<lparr>stages_db := stages\<lparr>input_rows := filter (\<lambda>i. irow_run_id i \<notin> gone) (input_rows stages),
                 output_rows := filter (\<lambda>i. orow_run_id i \<notin> gone) (output_rows stages),
                 stage_rows := filter (\<lambda>r. row_run_id r \<notin> gone) (stage_rows stages)\<rparr>,
               note_rows := filter (\<lambda>n. note_run_id n \<notin> gone) (note_rows db),
               pending_rows := filter (\<lambda>p. pend_run_id p \<notin> gone) (pending_rows db),
               signed_rows := filter (\<lambda>c. sign_run_id c \<notin> gone) (signed_rows db),
               run_rows := filter (\<lambda>r. run_account r \<noteq> account_uuid) (run_rows db)\<rparr>)"

lemma delete_account_pending:
  "pending_rows (delete_account_migration_rows_with_tx account db) =
     filter (\<lambda>p. \<not> tables_exist (stages_db db) \<or>
       pend_run_id p \<notin> run_key ` {r \<in> set (run_rows db). run_account r = account}) (pending_rows db)"
  by (simp add: delete_account_migration_rows_with_tx_def Let_def)

end
