(* ===== verification/PartReach.thy ===== *)
theory PartReach
  imports PartInvariant PartRecovery PartStop
begin

text \<open>
  The remaining operations keep the invariant of the pending table: the redraws and the receipt, the
  insertion and the replacement of parts, and the operations of the run's life. The step relation
  \<open>part_step\<close> collects every operation that writes the table, \<open>part_reachable\<close> is what
  they reach from a database without parts.
\<close>

section \<open>Redraws and receipts\<close>

definition agreed :: "string set \<Rightarrow> string set \<Rightarrow> string \<Rightarrow> ((string \<times> u32) \<times> u32) list \<Rightarrow> migration_db \<Rightarrow> bool" where
  "agreed seen lost run moves db \<longleftrightarrow> parts_ok seen lost db \<and>
     (\<forall>m \<in> set moves. \<forall>p \<in> set (pending_rows db). is_part run (fst (fst m)) p \<longrightarrow> pend_expiry_height p = snd (fst m))"

lemma agreed_update:
  assumes "agreed seen lost run moves db" "\<And>p. signed_part (f p) = signed_part p"
    "\<And>p. p \<in> set (pending_rows db) \<Longrightarrow> P p \<Longrightarrow> part_ok seen lost p \<Longrightarrow> part_ok seen lost (f p)"
  shows "agreed seen lost run moves (update_parts P f db)"
proof -
  have "is_part run t (f p) = is_part run t p \<and> pend_expiry_height (f p) = pend_expiry_height p" for p t
    using assms(2) [of p] by (simp add: signed_part_def is_part_def)
  then show ?thesis
    using assms parts_ok_update [of seen lost db P f] by (auto simp: agreed_def)
qed

lemma redraw_part_ok:
  "part_ok seen lost p \<Longrightarrow> canonical_expiry height = Ok (pend_expiry_height p) \<Longrightarrow> part_ok seen lost (redraw_row height start at p)"
  by (simp add: part_ok_def redraw_row_def)

lemma agreed_reschedule_step:
  assumes "m \<in> set moves"
  shows "within (keeps (agreed seen lost run moves)) (reschedule_step now run tip delay b m)"
proof -
  obtain txid e offset where m: "m = ((txid, e), offset)" by (metis surj_pair)
  have marking: "keeps (agreed seen lost run moves) s (update_parts (is_scheduled_part run txid) (set_status ''needs_resign'') s)" for s
    by (simp add: keeps_def agreed_update)
  have redraw: "keeps (agreed seen lost run moves) s (update_parts (is_scheduled_part run txid) (redraw_row height tip at) s)"
    if "canonical_expiry height = Ok e" for s height at
    unfolding keeps_def
  proof
    assume s: "agreed seen lost run moves s"
    have "pend_expiry_height p = e" if "p \<in> set (pending_rows s)" "is_scheduled_part run txid p" for p
      using s that assms m by (auto simp: agreed_def is_scheduled_part_def)
    then show "agreed seen lost run moves (update_parts (is_scheduled_part run txid) (redraw_row height tip at) s)"
      using \<open>canonical_expiry height = Ok e\<close> by (intro agreed_update [OF s]) (auto intro!: redraw_part_ok)
  qed
  show ?thesis
    unfolding m reschedule_step_def Let_def prod.case
    by (intro keeping.within_checked keeping.within_intros keeping.within_modify marking redraw) simp
qed

lemma keeps_reschedule_tx:
  assumes "parts_ok seen lost db" "reschedule_tx clock run tip delay moves db = (res, db')"
    "\<forall>m \<in> set moves. fst m \<in> (\<lambda>p. (pend_txid p, pend_expiry_height p)) ` set (parts_of db run)"
  shows "parts_ok seen lost db'"
proof -
  have "pend_expiry_height p = snd (fst m)"
    if "m \<in> set moves" "p \<in> set (pending_rows db)" "is_part run (fst (fst m)) p" for m p
  proof -
    obtain q where q: "q \<in> set (parts_of db run)" "fst m = (pend_txid q, pend_expiry_height q)"
      using assms(3) \<open>m \<in> set moves\<close> by blast
    then have "p = q"
      using that(2,3) assms(1) same_part [of db p q] by (auto simp: parts_ok_def parts_of_def is_part_def)
    then show ?thesis using q by simp
  qed
  then have "agreed seen lost run moves db" using assms(1) by (simp add: agreed_def)
  moreover have "within (keeps (agreed seen lost run moves)) (reschedule_tx clock run tip delay moves)"
    unfolding reschedule_tx_def
  proof (intro keeping.within_atomically keeping.within_andthen keeping.within_accumulate_set agreed_reschedule_step
      keeping.within_if keeping.within_modify keeping.within_yield)
    show "keeps (agreed seen lost run moves) s (ready_for_resign (clock 1) run schedule_message s)" for s
      by (simp add: keeps_def agreed_def parts_ok_def unique_txids_def)
  qed
  ultimately show ?thesis using assms(2) withinD by (fastforce simp: keeps_def agreed_def)
qed

lemma overdue_from_parts:
  "m \<in> set (overdue_parts db run tip excluded) \<Longrightarrow> m \<in> (\<lambda>p. (pend_txid p, pend_expiry_height p)) ` set (parts_of db run)"
  by (auto simp: overdue_parts_def)

lemma keeps_redraw:
  assumes "reschedule_overdue_pending_txs_with_options G J clock run network tip delay excluded rng db = Some (res, db')"
    "rng_contract G" "parts_ok seen lost db"
  shows "parts_ok seen lost db'"
proof -
  have ens: "parts_ok seen lost (ensure_tables db)"
    using assms(3) by (simp add: parts_ok_def)
  from assms(1,2) show ?thesis
  proof (cases rule: redraw_cases)
    case (3 moves)
    have "\<forall>m \<in> set moves. fst m \<in> (\<lambda>p. (pend_txid p, pend_expiry_height p)) ` set (parts_of (ensure_tables db) run)"
    proof
      fix m assume "m \<in> set moves"
      then have "fst m \<in> set (map fst moves)" by simp
      then have "fst m \<in> set (overdue_parts db run tip excluded)" using 3(2) by (metis set_mset_mset)
      then show "fst m \<in> (\<lambda>p. (pend_txid p, pend_expiry_height p)) ` set (parts_of (ensure_tables db) run)"
        using overdue_from_parts by simp
    qed
    then show ?thesis using keeps_reschedule_tx [OF ens 3(1)] by blast
  qed (use ens in auto)
qed

lemma keeps_reschedule_runs:
  "reschedule_runs f i runs db = Some (res, db') \<Longrightarrow> parts_ok seen lost db \<Longrightarrow>
    (\<And>i run db res db'. f i run db = Some (res, db') \<Longrightarrow> parts_ok seen lost db \<Longrightarrow> parts_ok seen lost db') \<Longrightarrow> parts_ok seen lost db'"
proof (induction runs arbitrary: i db)
  case (Cons run runs)
  from Cons.prems(1) obtain r db1 where one: "f i run db = Some (r, db1)" and
    rest: "(case r of Ok u \<Rightarrow> reschedule_runs f (Suc i) runs db1 | other \<Rightarrow> Some (other, db1)) = Some (res, db')"
    by (auto simp: bind_eq_Some_conv)
  have "parts_ok seen lost db1" using Cons.prems(3) [OF one Cons.prems(2)] .
  then show ?case using rest Cons.IH Cons.prems(3) by (cases r) auto
qed simp

lemma keeps_wallet_redraw:
  assumes "reschedule_wallet_overdue_pending_txs_with_exclusion G J clocks network tip excluded rngs db = Some (res, db')"
    "rng_contract G" "parts_ok seen lost db"
  shows "parts_ok seen lost db'"
proof -
  have "parts_ok seen lost (ensure_tables db)" using assms(3) by (simp add: parts_ok_def)
  with assms(1) [unfolded reschedule_wallet_overdue_pending_txs_with_exclusion_def Let_def] show ?thesis
    by (rule keeps_reschedule_runs) (rule keeps_redraw [OF _ assms(2)])
qed

text \<open>The receipt: the item is found by its lower-case id, which is the id itself.\<close>

lemma lower_part:
  assumes "parts_ok seen lost db" "find_lower_part db run item = Some p"
  shows "p \<in> set (pending_rows db)" "pend_run_id p = run" "pend_txid p = item"
    "q \<in> set (pending_rows db) \<Longrightarrow> is_lower_scheduled run item q \<Longrightarrow> q = p"
proof -
  have p: "p \<in> set (pending_rows db)" "pend_run_id p = run" "to_ascii_lowercase (pend_txid p) = item"
    using assms(2) by (auto simp: find_lower_part_def find_Some_iff in_set_conv_nth)
  moreover have "to_ascii_lowercase (pend_txid q) = pend_txid q" if "q \<in> set (pending_rows db)" for q
    using assms(1) that by (auto simp: parts_ok_def part_ok_def)
  ultimately show "p \<in> set (pending_rows db)" "pend_run_id p = run" "pend_txid p = item"
    "q \<in> set (pending_rows db) \<Longrightarrow> is_lower_scheduled run item q \<Longrightarrow> q = p"
    using assms(1) same_part by (auto simp: is_lower_scheduled_def parts_ok_def)
qed

lemma keeps_apply_update: "within (keeps (parts_ok seen lost)) (apply_update run b x)"
  unfolding within_def keeps_def
proof (intro allI impI)
  fix db assume ok: "parts_ok seen lost db"
  obtain item u where x: "x = (item, u)" by (metis surj_pair)
  show "parts_ok seen lost (snd (apply_update run b x db))"
  proof (cases "find_lower_part db run item")
    case None
    then show ?thesis using ok by (simp add: x apply_update_def run_basic andthen_lift ok_or_def)
  next
    case (Some p)
    note lower = lower_part [OF ok Some]
    show ?thesis
    proof (cases "canonical_expiry (upd_scheduled_height u)")
      case (Ok expiry)
      have marking: "parts_ok seen lost (update_parts (is_lower_scheduled run item) (set_status ''needs_resign'') db)"
        using ok by (intro parts_ok_update) simp_all
      have moved: "parts_ok seen lost (update_parts (is_lower_scheduled run item)
          (\<lambda>p. p\<lparr>pend_scheduled_height := upd_scheduled_height u, pend_start_height := Some (upd_schedule_start_height u)\<rparr>) db)"
        if "expiry = pend_expiry_height p"
        using ok lower(4) Ok that by (intro parts_ok_update) (auto simp: part_ok_def)
      show ?thesis
        using ok marking moved Some Ok by (simp add: x apply_update_def run_basic andthen_lift ok_or_def)
    qed (use ok Some in \<open>simp_all add: x apply_update_def run_basic andthen_lift ok_or_def\<close>)
  qed
qed

lemma keeps_receipt:
  "within (keeps (parts_ok seen lost)) (apply_accepted_migration_outbox_receipt J clock account network run txid height updates)"
  unfolding apply_accepted_migration_outbox_receipt_def case_prod_beta
  by (intro keeps_intros keeps_apply_update keeps_update_run) (simp_all add: ready_for_resign_def)

section \<open>Insertion\<close>

lemma parts_ok_insert:
  assumes "parts_ok seen lost db" "insert_part_row p db = Some db'" "part_ok seen lost p"
  shows "parts_ok seen lost db'"
proof -
  have new: "pend_txid p \<notin> pend_txid ` set (pending_rows db)"
    "pend_part_index p \<noteq> None \<Longrightarrow> index_key p \<notin> index_key ` set (pending_rows db)"
    "pending_rows db' = pending_rows db @ [p]"
    using assms(2) by (auto simp: insert_part_row_def index_key_def split: if_splits)
  then show ?thesis
    using assms(1,3) by (auto simp: parts_ok_def unique_txids_def unique_indexes_def)
qed

lemma keeps_statement_insert: "part_ok seen lost p \<Longrightarrow> within (keeps (parts_ok seen lost)) (statement e (insert_part_row p))"
  by (auto simp: within_def keeps_def statement_def split: option.split intro: parts_ok_insert)

lemma keeps_statement_same:
  "(\<And>db db'. f db = Some db' \<Longrightarrow> pending_rows db' = pending_rows db) \<Longrightarrow> within (keeps (parts_ok seen lost)) (statement e f)"
  by (auto simp: within_def statement_def keeping.refl split: option.split intro!: parts_ok_same)

definition insertable :: "pending_insert \<Rightarrow> bool" where
  "insertable p \<longleftrightarrow> canonical_expiry (pin_scheduled_height p) = Ok (pin_expiry_height p) \<and>
     to_ascii_lowercase (pin_txid_hex p) = pin_txid_hex p"

lemma new_part_ok: "insertable p \<Longrightarrow> part_ok seen lost (pending_row_of J run raw at p origin)"
  by (simp add: insertable_def part_ok_def part_statuses_def pending_row_of_def)

lemma place_part_insertable:
  assumes "place_part db run schedule targets persisted acc p = Ok acc'"
    "to_ascii_lowercase (pin_txid_hex p) = pin_txid_hex p" "\<forall>x \<in> set (snd (snd acc)). insertable (fst x)"
  shows "\<forall>x \<in> set (snd (snd acc')). insertable (fst x)"
proof -
  obtain seen incoming placed where acc: "acc = (seen, incoming, placed)" by (metis surj_pair)
  show ?thesis
    using assms by (auto simp: acc place_part_def insertable_def outcome_simps Let_def split: if_splits)
qed

lemma placed_insertable:
  assumes "foldM (place_part db run schedule targets persisted) acc ps = Ok acc'"
    "\<forall>p \<in> set ps. to_ascii_lowercase (pin_txid_hex p) = pin_txid_hex p"
    "\<forall>x \<in> set (snd (snd acc)). insertable (fst x)"
  shows "\<forall>x \<in> set (snd (snd acc')). insertable (fst x)"
  using assms
proof (induction ps arbitrary: acc)
  case (Cons p ps)
  then obtain acc1 where step: "place_part db run schedule targets persisted acc p = Ok acc1" and
    rest: "foldM (place_part db run schedule targets persisted) acc1 ps = Ok acc'"
    by (auto simp: outcome_simps)
  have "\<forall>x \<in> set (snd (snd acc1)). insertable (fst x)"
    using place_part_insertable [OF step] Cons.prems(2,3) by simp
  then show ?case using Cons.IH [OF rest] Cons.prems(2) by simp
qed simp

lemma keeps_store_part:
  assumes "insertable (fst x)"
  shows "within (keeps (parts_ok seen lost)) (store_part env J run key start_ms draw x)"
proof -
  obtain p offset origin where x: "x = (p, offset, origin)" by (metis surj_pair)
  show ?thesis
    using assms unfolding x store_part_def prod.case
    by (intro keeps_intros keeps_statement_insert new_part_ok) simp
qed

lemma keeps_approved_schedule: "within (keeps (parts_ok seen lost)) (approved_schedule J drawn run r)"
  unfolding approved_schedule_def by (intro keeps_intros) simp_all

lemma keeps_insert_body:
  assumes "\<forall>p \<in> set ps. to_ascii_lowercase (pin_txid_hex p) = pin_txid_hex p"
  shows "within (keeps (parts_ok seen lost)) (insert_parts_body env J clock draw drawn run ps password salt64)"
proof -
  have store: "within (keeps (parts_ok seen lost)) (store_part env J run key start acc x)"
    if "foldM (place_part db run schedule targets persisted) ({}, None, []) ps = Ok placed" "x \<in> set (snd (snd placed))"
    for db schedule targets persisted placed x key start acc
    using placed_insertable [OF that(1) assms] that(2) by (intro keeps_store_part) simp
  show ?thesis
    unfolding insert_parts_body_def case_prod_beta
    by (intro keeps_intros keeps_approved_schedule) (simp_all add: save_signed_origin_def, rule store)
qed

lemma keeps_insert:
  assumes "insert_pending_txs env G J clock draw rng run ps password salt64 db = Some (res, db')" "parts_ok seen lost db"
    "\<forall>p \<in> set ps. to_ascii_lowercase (pin_txid_hex p) = pin_txid_hex p"
  shows "parts_ok seen lost db'"
proof (cases "ps = []")
  case True
  then show ?thesis using assms(1,2) by (simp add: insert_pending_txs_def)
next
  case False
  with assms(1) obtain drawn where
    "opened (atomically (insert_parts_body env J clock draw drawn run ps password salt64)) db = (res, db')"
    by (auto simp: insert_pending_txs_def)
  moreover have "within (keeps (parts_ok seen lost)) (opened (atomically (insert_parts_body env J clock draw drawn run ps password salt64)))"
    by (intro keeps_intros keeps_insert_body assms(3))
  ultimately show ?thesis using assms(2) withinD by (fastforce simp: keeps_def)
qed

section \<open>Promotion, recovery and replacement\<close>

lemma keeps_signed_children:
  "within (keeps (parts_ok seen lost)) (insert_signed_child_pczts_with_tx env J draw run children password salt64 mode)"
proof -
  have "within (keeps (parts_ok seen lost)) (insert_signed_child env J run key mode schedule targets recovery acc child)"
    for key schedule targets recovery acc child
    unfolding insert_signed_child_def case_prod_beta
    by (intro keeps_intros keeps_statement_same) (auto simp: replace_signed_row_def split: if_splits)
  then show ?thesis
    unfolding insert_signed_child_pczts_with_tx_def case_prod_beta
    by (intro keeps_intros) (simp_all add: save_signed_origin_def)
qed

lemma keeps_rebase:
  "within (keeps (parts_ok seen lost)) (rebase_initial_signed_schedule_for_anchor_readiness_with_tx J now run height)"
proof -
  have shift: "within (keeps (parts_ok seen lost)) (shift_child run x)" for x
    unfolding shift_child_def Let_def case_prod_beta by (intro keeps_intros) simp_all
  have "within (keeps (parts_ok seen lost)) (rebase_to now run old new schedule targets children)" for old new schedule targets children
    unfolding rebase_to_def
    by (auto intro!: keeps_intros shift simp: freeze_rebase_def split: rebase_plan.split)
  then show ?thesis
    unfolding rebase_initial_signed_schedule_for_anchor_readiness_with_tx_def
    by (auto intro!: keeps_intros split: option.split)
qed

lemma refreshed_txids:
  assumes "mapM (refresh_height db run) ps = Ok qs"
    "\<forall>p \<in> set ps. to_ascii_lowercase (pin_txid_hex p) = pin_txid_hex p"
  shows "\<forall>q \<in> set qs. to_ascii_lowercase (pin_txid_hex q) = pin_txid_hex q"
proof
  fix q assume "q \<in> set qs"
  then obtain p where "p \<in> set ps" "refresh_height db run p = Ok q" using assms(1) mapM_Ok_member by metis
  then show "to_ascii_lowercase (pin_txid_hex q) = pin_txid_hex q"
    using assms(2) by (auto simp: refresh_height_def outcome_simps)
qed

lemma keeps_promote:
  assumes "promote_signed_child_pczts_to_pending_txs env G J clock draw rng run ps height retry password salt64 db
      = Some (res, db')" "parts_ok seen lost db"
    "\<forall>p \<in> set ps. to_ascii_lowercase (pin_txid_hex p) = pin_txid_hex p"
  shows "parts_ok seen lost db'"
proof (cases "ps = []")
  case True
  then show ?thesis using assms(1,2) by (simp add: promote_signed_child_pczts_to_pending_txs_def)
next
  case False
  with assms(1) obtain drawn where run:
    "opened (atomically (promote_body env J clock draw drawn run ps height retry password salt64)) db = (res, db')"
    by (auto simp: promote_signed_child_pczts_to_pending_txs_def)
  have "within (keeps (parts_ok seen lost)) (promote_body env J clock draw drawn run ps height retry password salt64)"
    unfolding promote_body_def
    by (intro keeps_intros keeps_rebase keeps_insert_body refreshed_txids [OF _ assms(3)]) simp_all
  then have "within (keeps (parts_ok seen lost)) (opened (atomically (promote_body env J clock draw drawn run ps height retry password salt64)))"
    by (intro keeps_intros)
  then show ?thesis using run assms(2) withinD by (fastforce simp: keeps_def)
qed

lemma keeps_generation:
  assumes "ensure_rebuild_schedule_generation G J run network candidate rng db = Some (res, db')" "parts_ok seen lost db"
  shows "parts_ok seen lost db'"
proof -
  have assign: "within (keeps (parts_ok seen lost)) (assign_offset run base acc x)" for base acc x
    unfolding assign_offset_def case_prod_beta by (intro keeps_intros) (simp_all add: signed_part_def)
  have "within (keeps (parts_ok seen lost)) (assign_generation run origin base s fresh)" for origin base s fresh
    unfolding assign_generation_def persist_generation_def case_prod_beta
    by (intro keeps_intros assign) simp_all
  then have tx: "within (keeps (parts_ok seen lost)) (atomically (andthen (lift_outcome fresh) (assign_generation run origin base s)))"
    for fresh origin base s
    by (intro keeps_intros)
  have ens: "parts_ok seen lost (ensure_tables db)" using assms(2) by (simp add: parts_ok_def)
  show ?thesis
    using assms(1) ens withinD [OF tx]
    by (auto simp: ensure_rebuild_schedule_generation_def Let_def keeps_def split: if_splits outcome.splits)
qed

lemma keeps_replace_part:
  assumes "to_ascii_lowercase (pin_txid_hex (snd x)) = pin_txid_hex (snd x)"
  shows "within (keeps (parts_ok seen lost)) (replace_part env J start_ms run key recovery tip draw x)"
proof -
  obtain old p where x: "x = (old, p)" by (metis surj_pair)
  have delete: "keeps (parts_ok seen lost) db (delete_part run old db)" for db
    unfolding keeps_def using parts_ok_filter [of seen lost db "delete_part run old db"] by (simp add: delete_part_def)
  have "part_ok seen lost ((pending_row_of J run raw at p start)\<lparr>pend_original_height := h\<rparr>)"
    if "check_replacement db run recovery old p = Ok r" for db r raw at start h
    using that assms x by (auto simp: check_replacement_def outcome_simps part_ok_def part_statuses_def pending_row_of_def
        split: if_splits)
  then show ?thesis
    unfolding x replace_part_def case_prod_beta
    by (simp, intro keeps_intros keeps_statement_insert delete; simp?)
qed

lemma ordered_members:
  "order_replacements schedule left done = (ordered, rest) \<Longrightarrow> set ordered \<subseteq> set done \<union> set left"
proof (induction schedule arbitrary: left "done")
  case (Cons e es)
  have found: "position P xs = Some i \<Longrightarrow> i < length xs" for P i and xs :: "(string \<times> pending_insert) list"
    by (induction xs arbitrary: i) (auto split: if_splits)
  have swap: "set (swap_remove i xs) \<subseteq> set xs" if "i < length xs" for i and xs :: "(string \<times> pending_insert) list"
  proof -
    have "last xs \<in> set xs" using that by (intro last_in_set) auto
    then show ?thesis using that set_update_subset_insert [of "butlast xs" i "last xs"]
      by (auto simp: swap_remove_def dest: in_set_butlastD)
  qed
  show ?case
  proof (cases "position (entry_matches e) left")
    case None
    then show ?thesis using Cons by simp
  next
    case (Some i)
    then have "set ordered \<subseteq> set (done @ [left ! i]) \<union> set (swap_remove i left)"
      using Cons.IH [of "swap_remove i left" "done @ [left ! i]"] Cons.prems by simp
    then show ?thesis using found [OF Some] swap [of i left] nth_mem [of i left] by auto
  qed
qed simp

lemma keeps_replace:
  assumes "\<forall>x \<in> set replacements. to_ascii_lowercase (pin_txid_hex (snd x)) = pin_txid_hex (snd x)"
  shows "within (keeps (parts_ok seen lost))
    (replace_resigned_pending_parts env J clock draw run tip replacements children password salt64)"
proof -
  have one: "within (keeps (parts_ok seen lost)) (replace_part env J start run key recovery tip acc x)"
    if "x \<in> set (fst (order_replacements schedule replacements []))" for start key recovery acc x schedule
  proof -
    have "set (fst (order_replacements schedule replacements [])) \<subseteq> set replacements"
      using ordered_members [of schedule replacements "[]"] by (metis prod.collapse list.set(1) Un_empty_left)
    then show ?thesis using that assms by (intro keeps_replace_part) blast
  qed
  show ?thesis
    unfolding replace_resigned_pending_parts_def case_prod_beta
    by (intro keeps_intros one keeps_signed_children) simp_all
qed

section \<open>The life of a run\<close>

interpretation keeping_both: state_relation "\<lambda>s t. keeps I (fst s) (fst t)" for I :: "migration_db \<Rightarrow> bool"
  by unfold_locales (auto simp: keeps_def)

lemma keeps_on_db: "within (keeps I) m \<Longrightarrow> within (\<lambda>s t. keeps I (fst s) (fst t)) (on_db m)"
  by (auto simp: within_def on_db_def split: prod.split) (metis snd_conv)

lemma keeps_locks: "within (\<lambda>s t. keeps I (fst s) (fst t)) (reconcile_wallet_locks_for_run E run)"
  by (auto simp: within_def reconcile_wallet_locks_for_run_def keeping.refl split: prod.split)

lemma keeps_discard: "keeps (parts_ok seen lost) db (discard_parts run db)"
  unfolding keeps_def using parts_ok_filter [of seen lost db "discard_parts run db"] by (simp add: discard_parts_def)

lemma unlock_notes_pending [simp]: "pending_rows (unlock_notes run db) = pending_rows db"
  by (simp add: unlock_notes_def)

lemma keeps_stop: "within (keeps (parts_ok seen lost)) (stop_transition now run phase)"
  unfolding stop_transition_def Let_def by (intro keeps_intros keeps_discard) simp_all

lemma keeps_abandon:
  "within (\<lambda>s t. keeps (parts_ok seen lost) (fst s) (fst t)) (abandon_run E now account network run)"
proof -
  have stages: "within (keeps (parts_ok seen lost)) (modify (\<lambda>db. db\<lparr>stages_db := f (stages_db db)\<rparr>))" for f
    by (intro keeps_intros) simp
  have tables: "within (keeps (parts_ok seen lost)) (modify ensure_tables)" by (intro keeps_intros) simp
  show ?thesis
    unfolding abandon_run_def discard_stages_def case_prod_beta
    by (intro keeping_both.within_checked keeping_both.within_intros keeps_on_db keeps_locks keeps_stop stages tables)
qed

lemma keeps_retire: "within (\<lambda>s t. keeps (parts_ok seen lost) (fst s) (fst t)) (retire_run_for_rebuild E now run message)"
proof -
  have "within (keeps (parts_ok seen lost)) (opened (atomically (andthen (modify (update_runs P f)) (\<lambda>_. modify (unlock_notes run)))))"
    for P f
    by (intro keeps_intros) simp_all
  then show ?thesis
    unfolding retire_run_for_rebuild_def by (intro keeping_both.within_intros keeps_on_db keeps_locks)
qed

lemma keeps_reset_child:
  assumes "reset_child identity run acc x = Ok acc'" "fst acc = filter P ps"
  shows "\<exists>Q. fst acc' = filter Q ps"
proof -
  obtain pending included b where acc: "acc = (pending, included, b)" by (metis surj_pair)
  obtain txid i where x: "x = (txid, i)" by (metis surj_pair)
  have "fst acc' = pending \<or> fst acc' = filter (\<lambda>p. \<not> (pend_run_id p = run \<and> pend_txid p = txid)) pending"
    using assms(1) by (auto simp: acc x reset_child_def outcome_simps split: option.splits)
  then show ?thesis using assms(2) by (auto simp: acc)
qed

lemma keeps_reset_children:
  assumes "foldM (reset_child identity run) acc xs = Ok acc'" "\<exists>P. fst acc = filter P ps"
  shows "\<exists>Q. fst acc' = filter Q ps"
  using assms
proof (induction xs arbitrary: acc)
  case (Cons x xs)
  then obtain acc1 where one: "reset_child identity run acc x = Ok acc1" and
    rest: "foldM (reset_child identity run) acc1 xs = Ok acc'"
    by (auto simp: outcome_simps)
  from Cons.prems(2) keeps_reset_child [OF one] have "\<exists>Q. fst acc1 = filter Q ps" by blast
  then show ?case using Cons.IH [OF rest] by blast
qed simp

lemma keeps_reset_of:
  assumes "foldM (reset_children_of identity run) acc txids = Ok acc'" "\<exists>P. pending_rows (fst acc) = filter P ps"
  shows "\<exists>Q. pending_rows (fst acc') = filter Q ps"
  using assms
proof (induction txids arbitrary: acc)
  case (Cons t ts)
  then obtain acc1 where one: "reset_children_of identity run acc t = Ok acc1" and
    rest: "foldM (reset_children_of identity run) acc1 ts = Ok acc'"
    by (auto simp: outcome_simps)
  obtain db b where acc: "acc = (db, b)" by (cases acc)
  have "\<exists>Q. pending_rows (fst acc1) = filter Q ps"
    using one Cons.prems(2) keeps_reset_children [of identity run "(pending_rows db, {}, b)" _ _ ps] unfolding acc
    by (auto simp: reset_children_of_def outcome_simps Let_def)
  then show ?case using Cons.IH [OF rest] by blast
qed simp

lemma keeps_reset:
  assumes "parts_ok seen lost db"
  shows "parts_ok seen lost (snd (reset_migration_children_for_reorged_denominations identity now run txids db))"
proof -
  let ?db = "db\<lparr>stages_db := ensure_schema (stages_db db)\<rparr>"
  have same: "parts_ok seen lost D" if "pending_rows D = pending_rows db" for D
    using assms that by (simp add: parts_ok_def unique_txids_def)
  have found: "parts_ok seen lost (fst x)" "parts_ok seen lost ((fst x)\<lparr>run_rows := rs\<rparr>)"
    if fold: "foldM (reset_children_of identity run) (?db, False) txids = Ok x" for x rs
  proof -
    have "\<exists>P. pending_rows (fst (?db, False)) = filter P (pending_rows db)" by (auto intro: exI [of _ "\<lambda>_. True"])
    then obtain Q where "pending_rows (fst x) = filter Q (pending_rows db)" using keeps_reset_of [OF fold] by blast
    then show "parts_ok seen lost (fst x)" "parts_ok seen lost ((fst x)\<lparr>run_rows := rs\<rparr>)"
      using parts_ok_filter [OF assms] by simp_all
  qed
  show ?thesis
    using same found
    by (fastforce simp: reset_migration_children_for_reorged_denominations_def Let_def assms
        split: option.split outcome.split prod.split)
qed

section \<open>Reachable tables\<close>

text \<open>
  Every operation that writes the pending table, with the chains it looks at; operations that do not write
  it are the last rule. Transaction ids come from the transaction library, which writes them in lower case.
\<close>

inductive part_step ::
  "crypto_env \<Rightarrow> 'r rng_env \<Rightarrow> json_env \<Rightarrow> 'w lock_env \<Rightarrow> wallet_chain list \<Rightarrow> migration_db \<Rightarrow> migration_db \<Rightarrow> bool"
  for env G J E where
  reconcile: "reconcile_run_pending_confirmations J W required clock run db = (r, db') \<Longrightarrow> part_step env G J E [W] db db'"
| due: "due_pending_txs env J W required clock run tip password salt64 db = (txs, db') \<Longrightarrow> part_step env G J E [W] db db'"
| mark_due: "mark_due_parts_with_noncanonical_broadcast_height_for_resign J W required clock run tip db = (n, db') \<Longrightarrow>
    part_step env G J E [W] db db'"
| mark_expired: "mark_expired_pending_parts_for_resign J W required clock run tip db = (n, db') \<Longrightarrow>
    part_step env G J E [W] db db'"
| attempted: "mark_pending_broadcast_attempted run txid db = (r, db') \<Longrightarrow> part_step env G J E [] db db'"
| broadcasted: "mark_pending_broadcasted J now run txid db = (r, db') \<Longrightarrow> part_step env G J E [] db db'"
| receipt: "apply_accepted_migration_outbox_receipt J clock account network run txid height updates db = (r, db') \<Longrightarrow>
    part_step env G J E [] db db'"
| redraw: "reschedule_overdue_pending_txs_with_options G J clock run network tip delay excluded rng db = Some (r, db') \<Longrightarrow>
    part_step env G J E [] db db'"
| wallet_redraw: "reschedule_wallet_overdue_pending_txs_with_exclusion G J clocks network tip excluded2 rngs db = Some (r, db') \<Longrightarrow>
    part_step env G J E [] db db'"
| insert: "insert_pending_txs env G J clock draw rng run ps password salt64 db = Some (r, db') \<Longrightarrow>
    \<forall>p \<in> set ps. to_ascii_lowercase (pin_txid_hex p) = pin_txid_hex p \<Longrightarrow> part_step env G J E [] db db'"
| promote: "promote_signed_child_pczts_to_pending_txs env G J clock draw rng run ps height retry password salt64 db
      = Some (r, db') \<Longrightarrow>
    \<forall>p \<in> set ps. to_ascii_lowercase (pin_txid_hex p) = pin_txid_hex p \<Longrightarrow> part_step env G J E [] db db'"
| generation: "ensure_rebuild_schedule_generation G J run network candidate rng db = Some (g, db') \<Longrightarrow>
    part_step env G J E [] db db'"
| replace: "replace_resigned_pending_parts env J clock draw run tip replacements children password salt64 db = (r, db') \<Longrightarrow>
    \<forall>x \<in> set replacements. to_ascii_lowercase (pin_txid_hex (snd x)) = pin_txid_hex (snd x) \<Longrightarrow>
    part_step env G J E [] db db'"
| retire: "retire_run_for_rebuild E now run message (db, w) = (x, (db', w')) \<Longrightarrow> part_step env G J E [] db db'"
| abandon: "abandon_run E now account network run (db, w) = (x, (db', w')) \<Longrightarrow> part_step env G J E [] db db'"
| reset: "reset_migration_children_for_reorged_denominations identity now run txids db = (b, db') \<Longrightarrow>
    part_step env G J E [] db db'"
| delete_account: "part_step env G J E [] db (delete_account_migration_rows_with_tx account db)"
| other: "pending_rows db' = pending_rows db \<Longrightarrow> part_step env G J E [] db db'"

text \<open>What the wallet has seen on its chain and lost again, over the chains it has looked at, the newest first.\<close>

fun seen_on :: "wallet_chain list \<Rightarrow> string set" where
  "seen_on [] = {}"
| "seen_on (W # Ws) = found_on W \<union> seen_on Ws"

fun lost_on :: "wallet_chain list \<Rightarrow> string set" where
  "lost_on [] = {}"
| "lost_on (W # Ws) = lost_on Ws \<union> (seen_on Ws \<inter> missing_on W)"

inductive part_reachable ::
  "crypto_env \<Rightarrow> 'r rng_env \<Rightarrow> json_env \<Rightarrow> 'w lock_env \<Rightarrow> wallet_chain list \<Rightarrow> migration_db \<Rightarrow> bool"
  for env G J E where
  start: "pending_rows db = [] \<Longrightarrow> part_reachable env G J E [] db"
| step: "part_reachable env G J E Ws db \<Longrightarrow> part_step env G J E looks db db' \<Longrightarrow> part_reachable env G J E (looks @ Ws) db'"

lemma looked_at_newest: "looked_at W (seen_on (W # Ws)) (lost_on (W # Ws))"
  by (auto simp: looked_at_def found_on_def missing_on_def)

lemma parts_ok_mono: "parts_ok seen lost db \<Longrightarrow> seen \<subseteq> seen' \<Longrightarrow> lost \<subseteq> lost' \<Longrightarrow> parts_ok seen' lost' db"
  by (auto simp: parts_ok_def part_ok_def)

lemma keeps_delete_account: "parts_ok seen lost db \<Longrightarrow> parts_ok seen lost (delete_account_migration_rows_with_tx account db)"
  by (rule parts_ok_filter) (simp_all add: delete_account_pending)

lemmas keeps_look = withinD [OF keeps_pending_reconcile] withinD [OF keeps_due] withinD [OF keeps_mark_due]
  withinD [OF keeps_mark_expired]

lemma part_step_looks: "part_step env G J E looks db db' \<Longrightarrow> looks = [] \<or> (\<exists>W. looks = [W])"
  by (cases rule: part_step.cases) auto

lemma part_step_keeps:
  assumes "part_step env G J E looks db db'" "rng_contract G" "\<forall>W \<in> set looks. looked_at W seen lost" "parts_ok seen lost db"
  shows "parts_ok seen lost db'"
proof -
  have kept: "parts_ok seen lost db'" if "keeps (parts_ok seen lost) db db'" using that assms(4) by (simp add: keeps_def)
  show ?thesis
    using assms(1)
  proof cases
    case (reconcile W required clock run r)
    then show ?thesis using assms(3) by (intro kept keeps_look(1)) simp_all
  next
    case (due W required clock run tip password salt64 txs)
    then show ?thesis using assms(3) by (intro kept keeps_look(2)) simp_all
  next
    case (mark_due W required clock run tip n)
    then show ?thesis using assms(3) by (intro kept keeps_look(3)) simp_all
  next
    case (mark_expired W required clock run tip n)
    then show ?thesis using assms(3) by (intro kept keeps_look(4)) simp_all
  next
    case attempted
    then show ?thesis by (intro kept withinD [OF keeps_attempt])
  next
    case broadcasted
    then show ?thesis by (intro kept withinD [OF keeps_mark_broadcasted])
  next
    case receipt
    then show ?thesis by (intro kept withinD [OF keeps_receipt])
  next
    case redraw
    then show ?thesis by (intro keeps_redraw [OF _ assms(2,4)])
  next
    case wallet_redraw
    then show ?thesis by (intro keeps_wallet_redraw [OF _ assms(2,4)])
  next
    case insert
    then show ?thesis by (intro keeps_insert [OF _ assms(4)])
  next
    case promote
    then show ?thesis by (intro keeps_promote [OF _ assms(4)])
  next
    case generation
    then show ?thesis by (intro keeps_generation [OF _ assms(4)])
  next
    case replace
    then show ?thesis by (intro kept withinD [OF keeps_replace])
  next
    case retire
    from withinD [OF keeps_retire this(2)] show ?thesis by (simp add: kept)
  next
    case abandon
    from withinD [OF keeps_abandon this(2)] show ?thesis by (simp add: kept)
  next
    case (reset identity now run txids b)
    then show ?thesis using keeps_reset [OF assms(4), of identity now run txids] by simp
  next
    case delete_account
    then show ?thesis using keeps_delete_account [OF assms(4)] by simp
  next
    case other
    then show ?thesis by (intro kept parts_ok_same)
  qed
qed

lemma reachable_parts_ok:
  "part_reachable env G J E Ws db \<Longrightarrow> rng_contract G \<Longrightarrow> parts_ok (seen_on Ws) (lost_on Ws) db"
proof (induction rule: part_reachable.induct)
  case (start db)
  then show ?case by (simp add: parts_ok_def unique_txids_def unique_indexes_def)
next
  case (step Ws db looks db')
  have ok: "parts_ok (seen_on Ws) (lost_on Ws) db" using step by simp
  from part_step_looks [OF step.hyps(2)] show ?case
  proof
    assume "looks = []"
    then show ?thesis using part_step_keeps [OF step.hyps(2) step.prems _ ok] by simp
  next
    assume "\<exists>W. looks = [W]"
    then obtain W where W: "looks = [W]" ..
    have "parts_ok (seen_on (W # Ws)) (lost_on (W # Ws)) db" by (rule parts_ok_mono [OF ok]) auto
    then show ?thesis using part_step_keeps [OF step.hyps(2) step.prems] looked_at_newest [of W Ws] W by simp
  qed
qed

end
