(* ===== verification/PartReceiptProps.thy ===== *)
theory PartReceiptProps
  imports PartReach
begin

text \<open>
  Proofs about the receipt of the background broadcaster: what the checks admit, what one receipt does
  to the table, and what a second delivery of the same receipt does.
\<close>

section \<open>What the checks admit\<close>

text \<open>The heights ascend from the height of the receipt, by at most the policy's delay.\<close>

fun ascending :: "u32 \<Rightarrow> u32 \<Rightarrow> u32 list \<Rightarrow> bool" where
  "ascending limit previous [] \<longleftrightarrow> True"
| "ascending limit previous (h # hs) \<longleftrightarrow> previous < h \<and> h - previous \<le> limit \<and> ascending limit h hs"

lemma ascending_above: "ascending limit previous hs \<Longrightarrow> h \<in> set hs \<Longrightarrow> previous < h"
  by (induction hs arbitrary: previous) force+

lemma check_updates_Ok:
  assumes "foldM (check_update accepted remote limit) (supplied, previous) updates = Ok (supplied', previous')"
    "distinct (map fst supplied)" "accepted \<notin> fst ` set supplied"
  shows "supplied' = supplied @ map (\<lambda>u. (to_ascii_lowercase (upd_item_id u), u)) updates \<and>
    distinct (map fst supplied') \<and> accepted \<notin> fst ` set supplied' \<and>
    ascending limit previous (map upd_scheduled_height updates) \<and>
    (\<forall>u \<in> set updates. upd_schedule_start_height u = remote)"
  using assms
proof (induction updates arbitrary: supplied previous)
  case Nil
  then show ?case by simp
next
  case (Cons u us)
  let ?item = "to_ascii_lowercase (upd_item_id u)"
  from Cons.prems(1) have u: "?item \<noteq> accepted" "?item \<notin> fst ` set supplied"
    "upd_schedule_start_height u = remote" "previous < upd_scheduled_height u"
    "upd_scheduled_height u - previous \<le> limit" and
    rest: "foldM (check_update accepted remote limit) (supplied @ [(?item, u)], upd_scheduled_height u) us
      = Ok (supplied', previous')"
    by (auto simp: check_update_def Let_def outcome_simps split: if_splits)
  have "distinct (map fst (supplied @ [(?item, u)]))" "accepted \<notin> fst ` set (supplied @ [(?item, u)])"
    using u Cons.prems(2,3) by auto
  note IH = Cons.IH [OF rest this]
  have "supplied' = supplied @ map (\<lambda>u. (to_ascii_lowercase (upd_item_id u), u)) (u # us)" using IH by simp
  moreover have "ascending limit previous (map upd_scheduled_height (u # us))" using IH u by simp
  moreover have "\<forall>v \<in> set (u # us). upd_schedule_start_height v = remote" using IH u by simp
  ultimately show ?case using IH by blast
qed

section \<open>One receipt\<close>

definition moved_row :: "outbox_update \<Rightarrow> pending_row \<Rightarrow> pending_row" where
  "moved_row u p = p\<lparr>pend_scheduled_height := upd_scheduled_height u,
      pend_start_height := Some (upd_schedule_start_height u)\<rparr>"

definition crosses :: "outbox_update \<Rightarrow> pending_row \<Rightarrow> bool" where
  "crosses u p \<longleftrightarrow> canonical_expiry (upd_scheduled_height u) \<noteq> Ok (pend_expiry_height p)"

definition receipt_row :: "string \<Rightarrow> (string \<times> outbox_update) list \<Rightarrow> pending_row \<Rightarrow> pending_row" where
  "receipt_row run supplied p =
     (if pend_run_id p = run \<and> pend_status p = ''scheduled''
      then (case map_of supplied (pend_txid p) of
              None \<Rightarrow> p
            | Some u \<Rightarrow> if crosses u p then set_status ''needs_resign'' p else moved_row u p)
      else p)"

lemma receipt_row_simps [simp]:
  "pend_txid (receipt_row run s p) = pend_txid p" "pend_run_id (receipt_row run s p) = pend_run_id p"
  "pend_expiry_height (receipt_row run s p) = pend_expiry_height p"
  by (simp_all add: receipt_row_def moved_row_def split: option.split)

lemma lower_txid: "parts_ok seen lost db \<Longrightarrow> p \<in> set (pending_rows db) \<Longrightarrow> to_ascii_lowercase (pend_txid p) = pend_txid p"
  by (auto simp: parts_ok_def part_ok_def)

lemma apply_update_Ok:
  assumes "apply_update run b (item, u) db = (Ok c, db')" "parts_ok seen lost db"
  obtains p expiry where "p \<in> set (pending_rows db)" "pend_run_id p = run" "pend_txid p = item"
    "canonical_expiry (upd_scheduled_height u) = Ok expiry"
    "pend_status p \<noteq> ''scheduled'' \<Longrightarrow>
      pend_scheduled_height p = upd_scheduled_height u \<and> pend_start_height p = Some (upd_schedule_start_height u)"
    "pending_rows db' = map (receipt_row run [(item, u)]) (pending_rows db)" "run_rows db' = run_rows db"
    "c = (b \<or> pend_status p = ''scheduled'' \<and> crosses u p)"
proof -
  from assms(1) obtain p where found: "find_lower_part db run item = Some p"
    by (auto simp: apply_update_def run_basic andthen_lift_Ok outcome_simps)
  note lower = lower_part [OF assms(2) found]
  from assms(1) found obtain expiry where expiry: "canonical_expiry (upd_scheduled_height u) = Ok expiry"
    by (auto simp: apply_update_def run_basic andthen_lift_Ok outcome_simps)
  have row: "receipt_row run [(item, u)] q = q" if "q \<in> set (pending_rows db)" "q \<noteq> p" for q
  proof -
    have "pend_txid q \<noteq> item" using same_part [of db q p] that lower(1,3) assms(2) by (auto simp: parts_ok_def)
    then show ?thesis by (simp add: receipt_row_def)
  qed
  have only: "is_lower_scheduled run item q \<longleftrightarrow> q = p \<and> pend_status p = ''scheduled''"
    if "q \<in> set (pending_rows db)" for q
  proof -
    have "to_ascii_lowercase (pend_txid p) = item"
      using lower_txid [OF assms(2) lower(1)] lower(3) by simp
    then show ?thesis using lower(2) lower(4) [OF that] by (auto simp: is_lower_scheduled_def)
  qed
  have same: "map (receipt_row run [(item, u)]) (pending_rows db) = pending_rows db"
    if "receipt_row run [(item, u)] p = p"
  proof (rule map_idI)
    fix q assume "q \<in> set (pending_rows db)"
    then show "receipt_row run [(item, u)] q = q" using row that by (cases "q = p") simp_all
  qed
  have changed: "map (\<lambda>q. if is_lower_scheduled run item q then f q else q) (pending_rows db) =
      map (receipt_row run [(item, u)]) (pending_rows db)"
    if "pend_status p = ''scheduled''" "f p = receipt_row run [(item, u)] p" for f
  proof (rule map_cong [OF HOL.refl])
    fix q assume "q \<in> set (pending_rows db)"
    then show "(if is_lower_scheduled run item q then f q else q) = receipt_row run [(item, u)] q"
      using only row that by (cases "q = p") simp_all
  qed
  have body: "(if pend_status p = ''scheduled'' then
         if expiry \<noteq> pend_expiry_height p
         then c = True \<and> db' = update_parts (is_lower_scheduled run item) (set_status ''needs_resign'') db
         else c = b \<and> db' = update_parts (is_lower_scheduled run item) (moved_row u) db
       else pend_scheduled_height p = upd_scheduled_height u \<and>
            pend_start_height p = Some (upd_schedule_start_height u) \<and> c = b \<and> db' = db)"
    using assms(1) found expiry
    by (auto simp: apply_update_def run_basic andthen_lift ok_or_def moved_row_def [abs_def] split: if_splits)
  have cross: "crosses u p \<longleftrightarrow> expiry \<noteq> pend_expiry_height p" using expiry by (simp add: crosses_def)
  show thesis
  proof (cases "pend_status p = ''scheduled''")
    case True
    then have prow: "receipt_row run [(item, u)] p = (if crosses u p then set_status ''needs_resign'' p else moved_row u p)"
      using lower(2,3) by (simp add: receipt_row_def)
    show thesis
      using that [OF lower(1-3) expiry] True body cross prow changed [of "set_status ''needs_resign''"]
        changed [of "moved_row u"] by (auto split: if_splits)
  next
    case False
    then have "receipt_row run [(item, u)] p = p" by (simp add: receipt_row_def)
    then show thesis using that [OF lower(1-3) expiry] False body same by auto
  qed
qed

lemma receipt_row_Cons:
  assumes "item \<notin> fst ` set supplied"
  shows "receipt_row run supplied (receipt_row run [(item, u)] p) = receipt_row run ((item, u) # supplied) p"
proof (cases "pend_txid p = item")
  case True
  then have "map_of supplied (pend_txid p) = None" using assms by (simp add: map_of_eq_None_iff)
  then show ?thesis using True
    by (auto simp: receipt_row_def moved_row_def split: option.split)
next
  case False
  then have same: "receipt_row run [(item, u)] p = p" by (simp add: receipt_row_def)
  show ?thesis unfolding same using False by (simp add: receipt_row_def)
qed

text \<open>A crossing item: it is scheduled and the new height has another canonical expiry.\<close>

definition crossing :: "string \<Rightarrow> (string \<times> outbox_update) list \<Rightarrow> migration_db \<Rightarrow> bool" where
  "crossing run supplied db \<longleftrightarrow> (\<exists>p \<in> set (pending_rows db). \<exists>u. map_of supplied (pend_txid p) = Some u \<and>
     pend_run_id p = run \<and> pend_status p = ''scheduled'' \<and> crosses u p)"

text \<open>What the loop has checked of an item that goes through.\<close>

definition item_fits :: "string \<Rightarrow> pending_row list \<Rightarrow> string \<times> outbox_update \<Rightarrow> bool" where
  "item_fits run ps x \<longleftrightarrow> (\<exists>p \<in> set ps. \<exists>expiry. pend_run_id p = run \<and> pend_txid p = fst x \<and>
     canonical_expiry (upd_scheduled_height (snd x)) = Ok expiry \<and>
     (pend_status p \<noteq> ''scheduled'' \<longrightarrow> pend_scheduled_height p = upd_scheduled_height (snd x) \<and>
        pend_start_height p = Some (upd_schedule_start_height (snd x))))"

lemma apply_updates_Ok:
  assumes "accumulate (apply_update run) b supplied db = (Ok c, db')" "parts_ok seen lost db" "distinct (map fst supplied)"
  shows "pending_rows db' = map (receipt_row run supplied) (pending_rows db) \<and> run_rows db' = run_rows db \<and>
    parts_ok seen lost db' \<and> c = (b \<or> crossing run supplied db) \<and> (\<forall>x \<in> set supplied. item_fits run (pending_rows db) x)"
  using assms
proof (induction supplied arbitrary: b db)
  case Nil
  have "receipt_row run [] = (\<lambda>p. p)" by (auto simp: receipt_row_def)
  then show ?case using Nil by (simp add: crossing_def)
next
  case (Cons x supplied)
  obtain item u where x: "x = (item, u)" by (cases x)
  from Cons.prems(1) obtain b1 db1 where
    one: "apply_update run b (item, u) db = (Ok b1, db1)" and
    rest: "accumulate (apply_update run) b1 supplied db1 = (Ok c, db')"
    by (auto simp: x andthen_Ok)
  have new: "item \<notin> fst ` set supplied" using Cons.prems(3) x by auto
  from one Cons.prems(2) show ?case
  proof (rule apply_update_Ok)
    fix p expiry
    assume p: "p \<in> set (pending_rows db)" "pend_run_id p = run" "pend_txid p = item"
      "canonical_expiry (upd_scheduled_height u) = Ok expiry" and
      height: "pend_status p \<noteq> ''scheduled'' \<Longrightarrow>
        pend_scheduled_height p = upd_scheduled_height u \<and> pend_start_height p = Some (upd_schedule_start_height u)" and
      rows: "pending_rows db1 = map (receipt_row run [(item, u)]) (pending_rows db)" and
      runs: "run_rows db1 = run_rows db" and
      b1: "b1 = (b \<or> pend_status p = ''scheduled'' \<and> crosses u p)"
    have ok1: "parts_ok seen lost db1" using withinD [OF keeps_apply_update one] Cons.prems(2) by (simp add: keeps_def)
    have IH: "pending_rows db' = map (receipt_row run supplied) (pending_rows db1) \<and> run_rows db' = run_rows db1 \<and>
        parts_ok seen lost db' \<and> c = (b1 \<or> crossing run supplied db1) \<and>
        (\<forall>x \<in> set supplied. item_fits run (pending_rows db1) x)"
      using Cons.IH [OF rest ok1] Cons.prems(3) by simp
    have other: "receipt_row run [(item, u)] q = q" if "pend_txid q \<noteq> item" for q
      using that by (simp add: receipt_row_def)
    have no_item: "map_of supplied item = None" using new by (simp add: map_of_eq_None_iff)
    have "crossing run supplied db1 \<longleftrightarrow> crossing run supplied db"
    proof
      assume "crossing run supplied db1"
      then obtain q v where q: "q \<in> set (pending_rows db)" "map_of supplied (pend_txid q) = Some v"
        "pend_run_id q = run" "pend_status (receipt_row run [(item, u)] q) = ''scheduled''"
        "crosses v (receipt_row run [(item, u)] q)"
        unfolding crossing_def rows by auto
      then have "receipt_row run [(item, u)] q = q" using no_item by (intro other) auto
      then show "crossing run supplied db" unfolding crossing_def using q by (intro bexI [of _ q] exI [of _ v]) simp_all
    next
      assume "crossing run supplied db"
      then obtain q v where q: "q \<in> set (pending_rows db)" "map_of supplied (pend_txid q) = Some v"
        "pend_run_id q = run" "pend_status q = ''scheduled''" "crosses v q"
        unfolding crossing_def by blast
      then have "receipt_row run [(item, u)] q = q" using no_item by (intro other) auto
      then have "q \<in> set (pending_rows db1)" unfolding rows using q(1) by (metis image_eqI set_map)
      then show "crossing run supplied db1" unfolding crossing_def using q by blast
    qed
    moreover have "crossing run (x # supplied) db \<longleftrightarrow>
        pend_status p = ''scheduled'' \<and> crosses u p \<or> crossing run supplied db"
    proof -
      have only: "q = p" if "q \<in> set (pending_rows db)" "pend_txid q = item" for q
        using same_part [of db q p] that p Cons.prems(2) by (auto simp: parts_ok_def)
      show ?thesis
      proof
        assume "crossing run (x # supplied) db"
        then obtain q v where q: "q \<in> set (pending_rows db)" "map_of ((item, u) # supplied) (pend_txid q) = Some v"
          "pend_run_id q = run" "pend_status q = ''scheduled''" "crosses v q"
          unfolding crossing_def x by blast
        show "pend_status p = ''scheduled'' \<and> crosses u p \<or> crossing run supplied db"
        proof (cases "pend_txid q = item")
          case True
          then show ?thesis using q only by simp
        next
          case False
          then have "map_of supplied (pend_txid q) = Some v" using q(2) by simp
          then show ?thesis unfolding crossing_def using q by blast
        qed
      next
        assume "pend_status p = ''scheduled'' \<and> crosses u p \<or> crossing run supplied db"
        then show "crossing run (x # supplied) db"
        proof
          assume "pend_status p = ''scheduled'' \<and> crosses u p"
          then show ?thesis unfolding crossing_def x using p by (intro bexI [of _ p] exI [of _ u]) simp_all
        next
          assume "crossing run supplied db"
          then obtain q v where q: "q \<in> set (pending_rows db)" "map_of supplied (pend_txid q) = Some v"
            "pend_run_id q = run" "pend_status q = ''scheduled''" "crosses v q"
            unfolding crossing_def by blast
          then have "pend_txid q \<noteq> item" using no_item by auto
          then show ?thesis unfolding crossing_def x using q by (intro bexI [of _ q] exI [of _ v]) simp_all
        qed
      qed
    qed
    moreover have "item_fits run (pending_rows db) (item, u)"
      unfolding item_fits_def using p height by (intro bexI [of _ p] exI [of _ expiry]) simp_all
    moreover have "item_fits run (pending_rows db) y" if "y \<in> set supplied" for y
    proof -
      have "item_fits run (pending_rows db1) y" using IH that by blast
      then obtain q e where q: "q \<in> set (pending_rows db)" "pend_run_id q = run" "pend_txid q = fst y"
        "canonical_expiry (upd_scheduled_height (snd y)) = Ok e" and
        h: "pend_status (receipt_row run [(item, u)] q) \<noteq> ''scheduled'' \<longrightarrow>
          pend_scheduled_height (receipt_row run [(item, u)] q) = upd_scheduled_height (snd y) \<and>
          pend_start_height (receipt_row run [(item, u)] q) = Some (upd_schedule_start_height (snd y))"
        unfolding item_fits_def rows by auto
      have "pend_txid q \<noteq> item" using q(3) new that by auto
      then have "receipt_row run [(item, u)] q = q" by (rule other)
      then show ?thesis unfolding item_fits_def using q h by (intro bexI [of _ q] exI [of _ e]) simp_all
    qed
    ultimately show ?thesis
      using IH b1 runs receipt_row_Cons [OF new, of run u] by (simp add: rows x comp_def disj_assoc)
  qed
qed

text \<open>The accepted part.\<close>

definition accepted_row :: "string \<Rightarrow> string \<Rightarrow> pending_row \<Rightarrow> pending_row" where
  "accepted_row run txid p =
     (if pend_run_id p = run \<and> pend_txid p = txid \<and> pend_status p \<in> {''scheduled'', ''needs_resign''}
      then set_status ''broadcasted'' p else p)"

definition supplied_of :: "outbox_update list \<Rightarrow> (string \<times> outbox_update) list" where
  "supplied_of updates = map (\<lambda>u. (to_ascii_lowercase (upd_item_id u), u)) updates"

lemma supplied_sorted:
  assumes "distinct (map fst supplied)"
  shows "map_of (sort_key fst supplied) = map_of supplied" "distinct (map fst (sort_key fst supplied))"
proof -
  have "mset (map fst (sort_key fst supplied)) = mset (map fst supplied)" by simp
  then show d: "distinct (map fst (sort_key fst supplied))" using assms by (metis mset_eq_imp_distinct_iff)
  show "map_of (sort_key fst supplied) = map_of supplied"
    using map_of_inject_set [OF d assms] by simp
qed

text \<open>Updates of a run's phase: the parts and the identity of the runs stay.\<close>

definition run_ident :: "run_row \<Rightarrow> string \<times> string \<times> string \<times> string" where
  "run_ident r = (run_key r, run_account r, run_network r, run_timing_policy r)"

definition phases_only :: "migration_db \<Rightarrow> migration_db \<Rightarrow> bool" where
  "phases_only db db' \<longleftrightarrow> pending_rows db' = pending_rows db \<and>
     map run_ident (run_rows db') = map run_ident (run_rows db)"

interpretation phase_change: state_relation phases_only
  by unfold_locales (auto simp: phases_only_def)

lemma phases_only_update:
  assumes "\<And>r. run_ident (g r) = run_ident r"
  shows "phases_only db (update_runs Q g db)"
  using assms by (simp add: phases_only_def)

lemma run_ident_updates [simp]:
  "run_ident (set_phase ph now m r) = run_ident r"
  "run_ident (r\<lparr>run_phase := ph, run_updated_at_ms := now\<rparr>) = run_ident r"
  by (simp_all add: run_ident_def)

lemma phases_update_run: "within phases_only (update_run_after_pending_broadcast J now run)"
  unfolding update_run_after_pending_broadcast_def Let_def
  by (intro phase_change.within_intros phase_change.within_modify phases_only_update) simp

lemma phases_ready: "phases_only db (ready_for_resign now run m db)"
  unfolding ready_for_resign_def by (rule phases_only_update) simp

lemma find_ident:
  "map_option run_ident (List.find (\<lambda>r. P (run_ident r)) rs) = List.find P (map run_ident rs)"
  by (induction rs) auto

lemma same_ident:
  assumes "map run_ident (run_rows db') = map run_ident (run_rows db)"
  shows "(\<exists>phase. migration_outbox_run_phase_with_conn db' account network run = Ok phase) \<longleftrightarrow>
      (\<exists>phase. migration_outbox_run_phase_with_conn db account network run = Ok phase)"
    and "timing_policy_for_run_with_conn db' run = timing_policy_for_run_with_conn db run"
proof -
  have find: "map_option run_ident (List.find (\<lambda>r. P (run_ident r)) (run_rows db')) =
      map_option run_ident (List.find (\<lambda>r. P (run_ident r)) (run_rows db))" for P
    by (simp only: find_ident assms)
  let ?P = "\<lambda>(key, account', network', policy). key = run \<and> account' = account \<and> network' = network_name network"
  have "(\<lambda>r. run_key r = run \<and> run_account r = account \<and> run_network r = network_name network) = (\<lambda>r. ?P (run_ident r))"
    by (simp add: run_ident_def)
  then show "(\<exists>phase. migration_outbox_run_phase_with_conn db' account network run = Ok phase) \<longleftrightarrow>
      (\<exists>phase. migration_outbox_run_phase_with_conn db account network run = Ok phase)"
    using find [of ?P]
    by (cases "List.find (\<lambda>r. ?P (run_ident r)) (run_rows db')"; cases "List.find (\<lambda>r. ?P (run_ident r)) (run_rows db)")
      (simp_all add: migration_outbox_run_phase_with_conn_def ok_or_def)
  let ?Q = "\<lambda>(key, account', network', policy). key = run"
  have "(\<lambda>r. run_key r = run) = (\<lambda>r. ?Q (run_ident r))" by (simp add: run_ident_def)
  then have "map_option run_ident (find_run db' run) = map_option run_ident (find_run db run)"
    using find [of ?Q] by (simp add: find_run_def)
  then show "timing_policy_for_run_with_conn db' run = timing_policy_for_run_with_conn db run"
    by (cases "find_run db' run"; cases "find_run db run")
      (simp_all add: timing_policy_for_run_with_conn_def read_run_def ok_or_def run_ident_def)
qed

section \<open>The whole receipt\<close>

lemma check_receipt_Ok:
  assumes "check_receipt db account network run txid remote updates = Ok (status, sorted_items)" "parts_ok seen lost db"
  obtains a policy phase where "a \<in> set (pending_rows db)" "pend_run_id a = run" "pend_txid a = to_ascii_lowercase txid"
    "status = pend_status a" "status \<in> part_statuses"
    "migration_outbox_run_phase_with_conn db account network run = Ok phase"
    "timing_policy_for_run_with_conn db run = Ok policy"
    "sorted_items = sort_key fst (supplied_of updates)" "distinct (map fst (supplied_of updates))"
    "to_ascii_lowercase txid \<notin> fst ` set (supplied_of updates)"
    "ascending (snd (schedule_parameters_with_policy network policy)) remote (map upd_scheduled_height updates)"
    "\<forall>u \<in> set updates. upd_schedule_start_height u = remote"
    "status = ''scheduled'' \<Longrightarrow> fst ` set (supplied_of updates) = overdue_peers db run remote txid"
proof -
  from assms(1) obtain a policy phase items previous where
    phase: "migration_outbox_run_phase_with_conn db account network run = Ok phase" and
    a: "find_lower_part db run (to_ascii_lowercase txid) = Some a" and
    status: "status = pend_status a" "status \<in> part_statuses" and
    policy: "timing_policy_for_run_with_conn db run = Ok policy" and
    items: "foldM (check_update (to_ascii_lowercase txid) remote
      (snd (schedule_parameters_with_policy network policy))) ([], remote) updates = Ok (items, previous)" and
    peers: "status = ''scheduled'' \<longrightarrow> fst ` set items = overdue_peers db run remote txid" and
    sorted: "sorted_items = sort_key fst items"
    by (auto simp: check_receipt_def outcome_simps part_statuses_def split: if_splits)
  have "items = supplied_of updates" "distinct (map fst items)" "to_ascii_lowercase txid \<notin> fst ` set items"
    "ascending (snd (schedule_parameters_with_policy network policy)) remote (map upd_scheduled_height updates)"
    "\<forall>u \<in> set updates. upd_schedule_start_height u = remote"
    using check_updates_Ok [OF items] by (auto simp: supplied_of_def)
  then show thesis
    using that [OF lower_part(1-3) [OF assms(2) a] status phase policy] sorted peers by blast
qed

lemma receipt_Ok:
  assumes "apply_accepted_migration_outbox_receipt J clock account network run txid remote updates db = (Ok (), db')"
    "parts_ok seen lost db"
  obtains a sorted_items where
    "check_receipt (ensure_tables db) account network run txid remote updates = Ok (pend_status a, sorted_items)"
    "a \<in> set (pending_rows db)" "pend_run_id a = run" "pend_txid a = to_ascii_lowercase txid"
    "pending_rows db' = map (accepted_row run (to_ascii_lowercase txid) \<circ> receipt_row run (supplied_of updates)) (pending_rows db)"
    "map run_ident (run_rows db') = map run_ident (run_rows db)"
    "\<forall>x \<in> set (supplied_of updates). item_fits run (pending_rows db) x"
proof -
  let ?db = "ensure_tables db"
  let ?lower = "to_ascii_lowercase txid"
  have ok: "parts_ok seen lost ?db" using assms(2) by (simp add: parts_ok_def)
  let ?ready = "\<lambda>crossed. if crossed then modify (ready_for_resign (clock 0) run schedule_message)
      else yield () :: (migration_db, part_error, unit) action"
  let ?last = "\<lambda>status. if status = ''scheduled'' \<or> status = ''needs_resign''
         then andthen (modify (update_parts (\<lambda>p. pend_run_id p = run
                  \<and> to_ascii_lowercase (pend_txid p) = ?lower
                  \<and> pend_status p \<in> {''scheduled'', ''needs_resign''}) (set_status ''broadcasted''))) (\<lambda>_.
              update_run_after_pending_broadcast J (clock 1) run)
         else yield () :: (migration_db, part_error, unit) action"
  have "andthen (lift_outcome (check_receipt ?db account network run txid remote updates))
         (\<lambda>(status, supplied). andthen (accumulate (apply_update run) False supplied) (\<lambda>crossed.
           andthen (?ready crossed) (\<lambda>_. ?last status))) ?db = (Ok (), db')"
    using assms(1) unfolding apply_accepted_migration_outbox_receipt_def opened_run atomically_Ok run_basic .
  then obtain status sorted_items where
    check: "check_receipt ?db account network run txid remote updates = Ok (status, sorted_items)" and
    rest: "andthen (accumulate (apply_update run) False sorted_items) (\<lambda>crossed.
           andthen (?ready crossed) (\<lambda>_. ?last status)) ?db = (Ok (), db')"
    unfolding andthen_lift_Ok by auto
  from check ok obtain a policy phase where a: "a \<in> set (pending_rows ?db)" "pend_run_id a = run" "pend_txid a = ?lower"
    "status = pend_status a" and items: "sorted_items = sort_key fst (supplied_of updates)"
    "distinct (map fst (supplied_of updates))" "?lower \<notin> fst ` set (supplied_of updates)"
    by (rule check_receipt_Ok) blast
  from rest obtain crossed db1 where acc: "accumulate (apply_update run) False sorted_items ?db = (Ok crossed, db1)" and
    tail: "andthen (?ready crossed) (\<lambda>_. ?last status) db1 = (Ok (), db')"
    unfolding andthen_Ok [of "accumulate _ _ _"] by blast
  note upd = apply_updates_Ok [OF acc ok, unfolded items(1), OF supplied_sorted(2) [OF items(2)]]
  have row: "receipt_row run (sort_key fst (supplied_of updates)) = receipt_row run (supplied_of updates)"
    unfolding receipt_row_def [abs_def] supplied_sorted(1) [OF items(2)] ..
  have rows1: "pending_rows db1 = map (receipt_row run (supplied_of updates)) (pending_rows db)"
    "run_rows db1 = run_rows db" "parts_ok seen lost db1"
    "\<forall>x \<in> set (supplied_of updates). item_fits run (pending_rows db) x"
    using upd row by auto
  define db2 where "db2 = (if crossed then ready_for_resign (clock 0) run schedule_message db1 else db1)"
  have first: "?ready crossed db1 = (Ok (), db2)" by (simp add: db2_def run_basic)
  have after: "andthen (?ready crossed) (\<lambda>_. ?last status) db1 = ?last status db2"
    by (rule andthen_first) (rule first)
  have fin: "?last status db2 = (Ok (), db')" using tail unfolding after .
  have db2: "pending_rows db2 = pending_rows db1" "map run_ident (run_rows db2) = map run_ident (run_rows db)"
    using phases_ready [of db1 "clock 0" run schedule_message] rows1(2) by (auto simp: db2_def phases_only_def)
  have lowered: "to_ascii_lowercase (pend_txid p) = pend_txid p" if "p \<in> set (pending_rows db2)" for p
    using lower_txid [OF rows1(3)] that by (simp add: db2(1))
  have result: "pending_rows db' = map (accepted_row run ?lower) (pending_rows db2) \<and>
    map run_ident (run_rows db') = map run_ident (run_rows db)"
  proof (cases "status = ''scheduled'' \<or> status = ''needs_resign''")
    case True
    let ?D = "update_parts (\<lambda>p. pend_run_id p = run \<and> to_ascii_lowercase (pend_txid p) = ?lower
                  \<and> pend_status p \<in> {''scheduled'', ''needs_resign''}) (set_status ''broadcasted'') db2"
    have "update_run_after_pending_broadcast J (clock 1) run ?D = (Ok (), db')"
      using fin True by (simp only: if_True andthen_lift)
    from withinD [OF phases_update_run this] have "pending_rows db' = pending_rows ?D"
      "map run_ident (run_rows db') = map run_ident (run_rows db2)" by (auto simp: phases_only_def)
    moreover have "pending_rows ?D = map (accepted_row run ?lower) (pending_rows db2)"
      unfolding update_simps by (rule map_cong [OF HOL.refl]) (use lowered in \<open>simp add: accepted_row_def\<close>)
    ultimately show ?thesis using db2(2) by simp
  next
    case False
    have "accepted_row run ?lower p = p" if mem: "p \<in> set (pending_rows db2)" for p
    proof (cases "pend_run_id p = run \<and> pend_txid p = ?lower")
      case True
      obtain q where q: "q \<in> set (pending_rows db)" "p = receipt_row run (supplied_of updates) q"
        using mem by (auto simp: db2(1) rows1(1))
      then have "q = a" using same_part [of ?db q a] True a ok by (simp add: parts_ok_def)
      moreover have "map_of (supplied_of updates) ?lower = None" using items(3) by (simp add: map_of_eq_None_iff)
      ultimately have "p = a" using q(2) a(3) by (simp add: receipt_row_def)
      then show ?thesis using False a(4) by (simp add: accepted_row_def)
    next
      case False
      then show ?thesis by (auto simp: accepted_row_def)
    qed
    then have "map (accepted_row run ?lower) (pending_rows db2) = pending_rows db2" by (rule map_idI)
    moreover have "db' = db2" using fin False by (simp add: run_basic)
    ultimately show ?thesis using db2 by simp
  qed
  show thesis
    by (rule that [of a sorted_items]) (use check a rows1 result db2 in \<open>simp_all add: comp_def\<close>)
qed

lemma supplied_item:
  "map_of (supplied_of updates) item = Some u \<Longrightarrow> u \<in> set updates \<and> item = to_ascii_lowercase (upd_item_id u)"
  by (induction updates) (auto simp: supplied_of_def split: if_splits)

text \<open>After a receipt for a scheduled part no unexpired part of the run is due at its height.\<close>

lemma receipt_clears_due:
  assumes "apply_accepted_migration_outbox_receipt J clock account network run txid remote updates db = (Ok (), db')"
    "parts_ok seen lost db" "a \<in> set (pending_rows db)" "pend_run_id a = run" "pend_txid a = to_ascii_lowercase txid"
    "pend_status a = ''scheduled''" "q \<in> set (pending_rows db')" "is_due run remote q"
  shows "pend_expiry_height q \<le> remote"
proof -
  have ok: "parts_ok seen lost (ensure_tables db)" using assms(2) by (simp add: parts_ok_def)
  from assms(1,2) obtain b sorted_items where
    check: "check_receipt (ensure_tables db) account network run txid remote updates = Ok (pend_status b, sorted_items)" and
    b: "b \<in> set (pending_rows db)" "pend_txid b = to_ascii_lowercase txid" and
    rows: "pending_rows db' = map (accepted_row run (to_ascii_lowercase txid) \<circ> receipt_row run (supplied_of updates)) (pending_rows db)"
    by (rule receipt_Ok) blast
  have "b = a" using same_part [of db b a] b assms(2,3,5) by (simp add: parts_ok_def)
  with check assms(6) have "check_receipt (ensure_tables db) account network run txid remote updates = Ok (''scheduled'', sorted_items)"
    by simp
  from this ok obtain policy where
    asc: "ascending (snd (schedule_parameters_with_policy network policy)) remote (map upd_scheduled_height updates)" and
    peers: "fst ` set (supplied_of updates) = overdue_peers (ensure_tables db) run remote txid"
    by (rule check_receipt_Ok) blast
  from assms(7) rows obtain p where p: "p \<in> set (pending_rows db)"
    "q = accepted_row run (to_ascii_lowercase txid) (receipt_row run (supplied_of updates) p)" by auto
  from assms(8) have q: "pend_run_id q = run" "pend_status q = ''scheduled''" "pend_scheduled_height q \<le> remote"
    by (auto simp: is_due_def)
  then have plain: "q = receipt_row run (supplied_of updates) p" "pend_txid p \<noteq> to_ascii_lowercase txid"
    using p(2) by (auto simp: accepted_row_def split: if_splits)
  show ?thesis
  proof (cases "map_of (supplied_of updates) (pend_txid p)")
    case None
    then have "q = p" using plain(1) by (simp add: receipt_row_def)
    have "pend_txid p \<notin> overdue_peers (ensure_tables db) run remote txid"
      using None unfolding peers [symmetric] by (simp add: map_of_eq_None_iff)
    then have "\<not> pend_expiry_height p > remote"
      using q p(1) plain(2) lower_txid [OF assms(2) p(1)] \<open>q = p\<close>
      by (auto simp: overdue_peers_def parts_of_def image_iff)
    then show ?thesis using \<open>q = p\<close> by simp
  next
    case (Some u)
    then have "u \<in> set updates" using supplied_item by blast
    then have "remote < upd_scheduled_height u" using ascending_above [OF asc] by simp
    then show ?thesis using plain(1) q Some by (auto simp: receipt_row_def moved_row_def split: if_splits)
  qed
qed

lemma peer_moves_up:
  assumes "apply_accepted_migration_outbox_receipt J clock account network run txid remote updates db = (Ok (), db')"
    "parts_ok seen lost db" "a \<in> set (pending_rows db)" "pend_txid a = to_ascii_lowercase txid" "pend_status a = ''scheduled''"
    "p \<in> set (pending_rows db)" "(pend_txid p, u) \<in> set (supplied_of updates)"
  shows "pend_scheduled_height p < upd_scheduled_height u"
proof -
  have ok: "parts_ok seen lost (ensure_tables db)" using assms(2) by (simp add: parts_ok_def)
  from assms(1,2) obtain b sorted_items where
    check: "check_receipt (ensure_tables db) account network run txid remote updates = Ok (pend_status b, sorted_items)" and
    b: "b \<in> set (pending_rows db)" "pend_txid b = to_ascii_lowercase txid"
    by (rule receipt_Ok) blast
  have "b = a" using same_part [of db b a] b assms(2-4) by (simp add: parts_ok_def)
  with check assms(5) have "check_receipt (ensure_tables db) account network run txid remote updates = Ok (''scheduled'', sorted_items)"
    by simp
  from this ok obtain policy where
    asc: "ascending (snd (schedule_parameters_with_policy network policy)) remote (map upd_scheduled_height updates)" and
    peers: "fst ` set (supplied_of updates) = overdue_peers (ensure_tables db) run remote txid"
    by (rule check_receipt_Ok) blast
  have "u \<in> set updates" using assms(7) by (auto simp: supplied_of_def)
  then have "remote < upd_scheduled_height u" using ascending_above [OF asc] by simp
  moreover have "pend_scheduled_height p \<le> remote"
  proof -
    have "pend_txid p \<in> overdue_peers (ensure_tables db) run remote txid"
      using assms(7) peers by (metis fst_conv image_eqI)
    then obtain q where q: "q \<in> set (pending_rows db)" "pend_txid p = to_ascii_lowercase (pend_txid q)"
      "pend_scheduled_height q \<le> remote"
      by (auto simp: overdue_peers_def parts_of_def)
    then have "p = q" using lower_txid [OF assms(2) q(1)] same_part [of db p q] assms(2,6) by (simp add: parts_ok_def)
    then show ?thesis using q(3) by simp
  qed
  ultimately show ?thesis by simp
qed

section \<open>A second delivery\<close>

lemma find_the_part:
  assumes "parts_ok seen lost db" "p \<in> set (pending_rows db)" "pend_run_id p = run" "pend_txid p = item"
  shows "find_lower_part db run item = Some p"
proof (cases "find_lower_part db run item")
  case None
  then show ?thesis using assms lower_txid [OF assms(1,2)] by (auto simp: find_lower_part_def find_None_iff)
next
  case (Some q)
  then have "q = p" using lower_part(1,3) [OF assms(1) Some] assms same_part [of db q p] by (auto simp: parts_ok_def)
  then show ?thesis using Some by simp
qed

lemma apply_update_settled:
  assumes "parts_ok seen lost db" "p \<in> set (pending_rows db)" "pend_run_id p = run" "pend_txid p = item"
    "canonical_expiry (upd_scheduled_height u) = Ok expiry"
    "pend_scheduled_height p = upd_scheduled_height u" "pend_start_height p = Some (upd_schedule_start_height u)"
    "pend_status p = ''scheduled'' \<Longrightarrow> expiry = pend_expiry_height p"
  shows "apply_update run b (item, u) db = (Ok b, db)"
proof -
  have found: "find_lower_part db run item = Some p" by (rule find_the_part) (fact assms)+
  have same: "update_parts (is_lower_scheduled run item)
      (\<lambda>p. p\<lparr>pend_scheduled_height := upd_scheduled_height u, pend_start_height := Some (upd_schedule_start_height u)\<rparr>) db
      = db"
  proof -
    have "update_parts (is_lower_scheduled run item)
      (\<lambda>p. p\<lparr>pend_scheduled_height := upd_scheduled_height u, pend_start_height := Some (upd_schedule_start_height u)\<rparr>) db
      = update_parts (\<lambda>q. False) id db"
    proof (rule update_parts_cong)
      fix q assume "q \<in> set (pending_rows db)"
      then have "is_lower_scheduled run item q \<Longrightarrow> q = p" using lower_part(4) [OF assms(1) found] by blast
      then show "(if is_lower_scheduled run item q then q\<lparr>pend_scheduled_height := upd_scheduled_height u,
          pend_start_height := Some (upd_schedule_start_height u)\<rparr> else q) = (if False then id q else q)"
        using assms(6,7) by auto
    qed
    then show ?thesis by simp
  qed
  show ?thesis
    using found same assms(5-8) by (simp add: apply_update_def run_basic andthen_lift ok_or_def)
qed

lemma apply_update_refused:
  assumes "parts_ok seen lost db" "p \<in> set (pending_rows db)" "pend_run_id p = run" "pend_txid p = item"
    "canonical_expiry (upd_scheduled_height u) = Ok expiry" "pend_status p \<noteq> ''scheduled''"
    "pend_scheduled_height p \<noteq> upd_scheduled_height u"
  shows "apply_update run b (item, u) db = (Err (ReceiptItemNotScheduled item), db)"
  using find_the_part [OF assms(1-4)] assms(5-7)
  by (simp add: apply_update_def run_basic andthen_lift ok_or_def)

lemma accumulate_settled:
  "(\<And>x. x \<in> set xs \<Longrightarrow> f b x db = (Ok b, db)) \<Longrightarrow> accumulate f b xs db = (Ok b, db)"
  by (induction xs) (auto simp: andthen_def)

lemma accumulate_refused:
  assumes "\<And>x. x \<in> set xs \<Longrightarrow> f b x db = (Ok b, db) \<or> (\<exists>i. f b x db = (Err (e i), db))"
    "x \<in> set xs" "f b x db = (Err (e i), db)"
  shows "\<exists>i. accumulate f b xs db = (Err (e i), db)"
  using assms
proof (induction xs)
  case (Cons y ys)
  from Cons.prems(1) [of y] show ?case
  proof
    assume y: "f b y db = (Ok b, db)"
    then have "x \<in> set ys" using Cons.prems(2,3) by auto
    then show ?thesis using Cons.IH Cons.prems y by (auto simp: andthen_def)
  next
    assume "\<exists>i. f b y db = (Err (e i), db)"
    then show ?thesis by (auto simp: andthen_def)
  qed simp
qed simp

lemma check_again:
  assumes "check_receipt db account network run txid remote updates = Ok (status, items)"
    "map run_ident (run_rows db') = map run_ident (run_rows db)"
    "find_lower_part db' run (to_ascii_lowercase txid) = Some a" "pend_status a \<in> {''broadcasted'', ''confirmed''}"
  shows "check_receipt db' account network run txid remote updates = Ok (pend_status a, items)"
proof -
  from assms(1) obtain policy sup previous where
    phase: "\<exists>phase. migration_outbox_run_phase_with_conn db account network run = Ok phase" and
    policy: "timing_policy_for_run_with_conn db run = Ok policy" and
    sup: "foldM (check_update (to_ascii_lowercase txid) remote
      (snd (schedule_parameters_with_policy network policy))) ([], remote) updates = Ok (sup, previous)"
      "items = sort_key fst sup"
    by (auto simp: check_receipt_def outcome_simps split: if_splits)
  from phase same_ident(1) [OF assms(2)] obtain phase' where
    "migration_outbox_run_phase_with_conn db' account network run = Ok phase'" by blast
  then show ?thesis
    using same_ident(2) [OF assms(2), of run] policy sup assms(3,4)
    by (auto simp: check_receipt_def ok_or_def)
qed

lemma atomically_basic:
  "atomically (with_state k) s = atomically (k s) s"
  "atomically (andthen (lift_outcome (Ok x)) k') s = atomically (k' x) s"
  by (simp_all add: atomically_def with_state_def andthen_lift)

lemma andthen_yield: "andthen m yield = m"
  by (rule ext) (auto simp: andthen_def yield_def split: prod.split outcome.split)

text \<open>The rows a receipt leaves, as the second delivery finds them.\<close>

lemma second_delivery:
  assumes "apply_accepted_migration_outbox_receipt J clock account network run txid remote updates db = (Ok (), db')"
    "parts_ok seen lost db"
  obtains a items where "a \<in> set (pending_rows db)" "pend_run_id a = run" "pend_txid a = to_ascii_lowercase txid"
    "apply_accepted_migration_outbox_receipt J clock' account network run txid remote updates db' =
       atomically (andthen (accumulate (apply_update run) False items) (\<lambda>crossed.
         if crossed then modify (ready_for_resign (clock' 0) run schedule_message) else yield ())) (ensure_tables db')"
    "set items = set (supplied_of updates)" "parts_ok seen lost (ensure_tables db')"
    "\<And>x. x \<in> set items \<Longrightarrow> \<exists>p \<in> set (pending_rows db). \<exists>expiry. pend_run_id p = run \<and> pend_txid p = fst x \<and>
       canonical_expiry (upd_scheduled_height (snd x)) = Ok expiry \<and> map_of (supplied_of updates) (fst x) = Some (snd x) \<and>
       (pend_status p \<noteq> ''scheduled'' \<longrightarrow> pend_scheduled_height p = upd_scheduled_height (snd x) \<and>
          pend_start_height p = Some (upd_schedule_start_height (snd x))) \<and>
       receipt_row run (supplied_of updates) p \<in> set (pending_rows db')"
proof -
  have ok: "parts_ok seen lost (ensure_tables db)" using assms(2) by (simp add: parts_ok_def)
  let ?lower = "to_ascii_lowercase txid"
  from assms obtain a items where
    check: "check_receipt (ensure_tables db) account network run txid remote updates = Ok (pend_status a, items)" and
    a: "a \<in> set (pending_rows db)" "pend_run_id a = run" "pend_txid a = ?lower" and
    rows: "pending_rows db' = map (accepted_row run ?lower \<circ> receipt_row run (supplied_of updates)) (pending_rows db)" and
    ident: "map run_ident (run_rows db') = map run_ident (run_rows db)" and
    fits: "\<forall>x \<in> set (supplied_of updates). item_fits run (pending_rows db) x"
    by (rule receipt_Ok) blast
  from check ok obtain
    items: "items = sort_key fst (supplied_of updates)" "distinct (map fst (supplied_of updates))"
      "?lower \<notin> fst ` set (supplied_of updates)" and
    status: "pend_status a \<in> part_statuses"
    by (rule check_receipt_Ok) blast
  have ok': "parts_ok seen lost (ensure_tables db')"
    using withinD [OF keeps_receipt assms(1), of seen lost] assms(2) by (simp add: keeps_def parts_ok_def)
  let ?a = "accepted_row run ?lower (receipt_row run (supplied_of updates) a)"
  have "map_of (supplied_of updates) ?lower = None" using items(3) by (simp add: map_of_eq_None_iff)
  then have a': "?a = accepted_row run ?lower a" using a by (simp add: receipt_row_def)
  have found: "find_lower_part (ensure_tables db') run ?lower = Some ?a"
  proof (rule find_the_part [OF ok'])
    show "?a \<in> set (pending_rows (ensure_tables db'))" using a(1) rows by auto
    show "pend_run_id ?a = run" "pend_txid ?a = ?lower" using a by (simp_all add: accepted_row_def)
  qed
  have astatus: "pend_status ?a \<in> {''broadcasted'', ''confirmed''}"
    using status a unfolding a' by (auto simp: accepted_row_def part_statuses_def)
  have again: "check_receipt (ensure_tables db') account network run txid remote updates = Ok (pend_status ?a, items)"
    by (rule check_again [OF check _ found astatus]) (simp add: ident)
  have "apply_accepted_migration_outbox_receipt J clock' account network run txid remote updates db' =
       atomically (andthen (accumulate (apply_update run) False items) (\<lambda>crossed.
         if crossed then modify (ready_for_resign (clock' 0) run schedule_message) else yield ())) (ensure_tables db')"
  proof -
    show ?thesis
      using astatus unfolding apply_accepted_migration_outbox_receipt_def opened_run
      by (auto simp: again atomically_basic andthen_yield)
  qed
  moreover have "\<exists>p \<in> set (pending_rows db). \<exists>expiry. pend_run_id p = run \<and> pend_txid p = fst x \<and>
       canonical_expiry (upd_scheduled_height (snd x)) = Ok expiry \<and> map_of (supplied_of updates) (fst x) = Some (snd x) \<and>
       (pend_status p \<noteq> ''scheduled'' \<longrightarrow> pend_scheduled_height p = upd_scheduled_height (snd x) \<and>
          pend_start_height p = Some (upd_schedule_start_height (snd x))) \<and>
       receipt_row run (supplied_of updates) p \<in> set (pending_rows db')"
    if x: "x \<in> set items" for x
  proof -
    have mem: "x \<in> set (supplied_of updates)" using x items(1) by simp
    then have "item_fits run (pending_rows db) x" using fits by blast
    then obtain p expiry where p: "p \<in> set (pending_rows db)" "pend_run_id p = run" "pend_txid p = fst x"
       "canonical_expiry (upd_scheduled_height (snd x)) = Ok expiry"
       "pend_status p \<noteq> ''scheduled'' \<longrightarrow> pend_scheduled_height p = upd_scheduled_height (snd x) \<and>
          pend_start_height p = Some (upd_schedule_start_height (snd x))"
      unfolding item_fits_def by blast
    have "map_of (supplied_of updates) (fst x) = Some (snd x)" using items(2) mem by simp
    moreover have "fst x \<noteq> ?lower" using items(3) mem by (metis image_eqI)
    then have "accepted_row run ?lower (receipt_row run (supplied_of updates) p) = receipt_row run (supplied_of updates) p"
      using p(3) by (simp add: accepted_row_def)
    then have "receipt_row run (supplied_of updates) p =
        (accepted_row run ?lower \<circ> receipt_row run (supplied_of updates)) p" by simp
    then have "receipt_row run (supplied_of updates) p \<in> set (pending_rows db')"
      unfolding rows set_map using p(1) by (rule image_eqI)
    ultimately show ?thesis using p by blast
  qed
  ultimately show thesis using that [OF a] items(1) ok' by simp
qed

lemma replay_same:
  assumes "apply_accepted_migration_outbox_receipt J clock account network run txid remote updates db = (Ok (), db')"
    "parts_ok seen lost db" "\<not> crossing run (supplied_of updates) db"
  shows "apply_accepted_migration_outbox_receipt J clock' account network run txid remote updates db' =
    (Ok (), ensure_tables db')"
  using assms(1,2)
proof (rule second_delivery)
  fix a items
  assume run: "apply_accepted_migration_outbox_receipt J clock' account network run txid remote updates db' =
       atomically (andthen (accumulate (apply_update run) False items) (\<lambda>crossed.
         if crossed then modify (ready_for_resign (clock' 0) run schedule_message) else yield ())) (ensure_tables db')"
    and ok': "parts_ok seen lost (ensure_tables db')"
    and item: "\<And>x. x \<in> set items \<Longrightarrow> \<exists>p \<in> set (pending_rows db). \<exists>expiry. pend_run_id p = run \<and> pend_txid p = fst x \<and>
       canonical_expiry (upd_scheduled_height (snd x)) = Ok expiry \<and> map_of (supplied_of updates) (fst x) = Some (snd x) \<and>
       (pend_status p \<noteq> ''scheduled'' \<longrightarrow> pend_scheduled_height p = upd_scheduled_height (snd x) \<and>
          pend_start_height p = Some (upd_schedule_start_height (snd x))) \<and>
       receipt_row run (supplied_of updates) p \<in> set (pending_rows db')"
  have "apply_update run False x (ensure_tables db') = (Ok False, ensure_tables db')" if x: "x \<in> set items" for x
  proof -
    from item [OF x] obtain p expiry where p: "p \<in> set (pending_rows db)" "pend_run_id p = run" "pend_txid p = fst x"
       "canonical_expiry (upd_scheduled_height (snd x)) = Ok expiry" "map_of (supplied_of updates) (fst x) = Some (snd x)"
       "pend_status p \<noteq> ''scheduled'' \<longrightarrow> pend_scheduled_height p = upd_scheduled_height (snd x) \<and>
          pend_start_height p = Some (upd_schedule_start_height (snd x))"
       "receipt_row run (supplied_of updates) p \<in> set (pending_rows db')"
      by blast
    have calm: "pend_status p = ''scheduled'' \<Longrightarrow> \<not> crosses (snd x) p"
      using assms(3) p unfolding crossing_def by auto
    have row: "receipt_row run (supplied_of updates) p = (if pend_status p = ''scheduled'' then moved_row (snd x) p else p)"
      using calm p(2,3,5) by (simp add: receipt_row_def)
    obtain item u where xu: "x = (item, u)" by (cases x)
    show ?thesis
      unfolding xu
    proof (rule apply_update_settled [OF ok', of "receipt_row run (supplied_of updates) p" run item u expiry])
      show "receipt_row run (supplied_of updates) p \<in> set (pending_rows (ensure_tables db'))" using p(7) by simp
      show "pend_run_id (receipt_row run (supplied_of updates) p) = run"
        "pend_txid (receipt_row run (supplied_of updates) p) = item" using p(2,3) xu by simp_all
      show "canonical_expiry (upd_scheduled_height u) = Ok expiry" using p(4) xu by simp
      show "pend_scheduled_height (receipt_row run (supplied_of updates) p) = upd_scheduled_height u"
        "pend_start_height (receipt_row run (supplied_of updates) p) = Some (upd_schedule_start_height u)"
        using p(6) xu by (simp_all add: row moved_row_def)
      assume "pend_status (receipt_row run (supplied_of updates) p) = ''scheduled''"
      then have "pend_status p = ''scheduled''" using row by (simp split: if_splits)
      then show "expiry = pend_expiry_height (receipt_row run (supplied_of updates) p)"
        using calm p(4) xu by (simp add: crosses_def)
    qed
  qed
  then have "accumulate (apply_update run) False items (ensure_tables db') = (Ok False, ensure_tables db')"
    by (rule accumulate_settled)
  then show ?thesis unfolding run by (simp add: atomically_def andthen_def yield_def)
qed

lemma replay_refused:
  assumes "apply_accepted_migration_outbox_receipt J clock account network run txid remote updates db = (Ok (), db')"
    "parts_ok seen lost db" "crossing run (supplied_of updates) db"
    "\<exists>a \<in> set (pending_rows db). pend_run_id a = run \<and> pend_txid a = to_ascii_lowercase txid \<and> pend_status a = ''scheduled''"
  shows "\<exists>item. apply_accepted_migration_outbox_receipt J clock' account network run txid remote updates db' =
    (Err (ReceiptItemNotScheduled item), ensure_tables db')"
  using assms(1,2)
proof (rule second_delivery)
  fix a items
  assume a: "a \<in> set (pending_rows db)" "pend_run_id a = run" "pend_txid a = to_ascii_lowercase txid"
    and run: "apply_accepted_migration_outbox_receipt J clock' account network run txid remote updates db' =
       atomically (andthen (accumulate (apply_update run) False items) (\<lambda>crossed.
         if crossed then modify (ready_for_resign (clock' 0) run schedule_message) else yield ())) (ensure_tables db')"
    and items: "set items = set (supplied_of updates)" and ok': "parts_ok seen lost (ensure_tables db')"
    and item: "\<And>x. x \<in> set items \<Longrightarrow> \<exists>p \<in> set (pending_rows db). \<exists>expiry. pend_run_id p = run \<and> pend_txid p = fst x \<and>
       canonical_expiry (upd_scheduled_height (snd x)) = Ok expiry \<and> map_of (supplied_of updates) (fst x) = Some (snd x) \<and>
       (pend_status p \<noteq> ''scheduled'' \<longrightarrow> pend_scheduled_height p = upd_scheduled_height (snd x) \<and>
          pend_start_height p = Some (upd_schedule_start_height (snd x))) \<and>
       receipt_row run (supplied_of updates) p \<in> set (pending_rows db')"
  let ?D = "ensure_tables db'"
  let ?refused = "\<lambda>x. \<exists>i. apply_update run False x ?D = (Err (ReceiptItemNotScheduled i), ?D)"
  have sched: "pend_status a = ''scheduled''"
  proof -
    from assms(4) obtain c where "c \<in> set (pending_rows db)" "pend_txid c = to_ascii_lowercase txid"
      "pend_status c = ''scheduled''" by blast
    then show ?thesis using same_part [of db c a] a(1,3) assms(2) by (simp add: parts_ok_def)
  qed
  have one: "apply_update run False x ?D = (Ok False, ?D) \<or> ?refused x"
    "(\<exists>p \<in> set (pending_rows db). pend_txid p = fst x \<and> pend_status p = ''scheduled'' \<and> crosses (snd x) p) \<Longrightarrow> ?refused x"
    if x: "x \<in> set items" for x
  proof -
    from item [OF x] obtain p expiry where p: "p \<in> set (pending_rows db)" "pend_run_id p = run" "pend_txid p = fst x"
       "canonical_expiry (upd_scheduled_height (snd x)) = Ok expiry" "map_of (supplied_of updates) (fst x) = Some (snd x)"
       "pend_status p \<noteq> ''scheduled'' \<longrightarrow> pend_scheduled_height p = upd_scheduled_height (snd x) \<and>
          pend_start_height p = Some (upd_schedule_start_height (snd x))"
       "receipt_row run (supplied_of updates) p \<in> set (pending_rows db')"
      by blast
    obtain item u where xu: "x = (item, u)" by (cases x)
    let ?p = "receipt_row run (supplied_of updates) p"
    have p': "?p \<in> set (pending_rows ?D)" "pend_run_id ?p = run" "pend_txid ?p = item"
      "canonical_expiry (upd_scheduled_height u) = Ok expiry" using p(2-4,7) xu by simp_all
    have refused: "?refused x" if "pend_status p = ''scheduled''" "crosses u p"
    proof -
      have row: "?p = set_status ''needs_resign'' p" using that p(2,3,5) xu by (simp add: receipt_row_def)
      have "(pend_txid p, u) \<in> set (supplied_of updates)" using x items p(3) xu by simp
      from peer_moves_up [OF assms(1,2) a(1,3) sched p(1) this] have "pend_scheduled_height ?p \<noteq> upd_scheduled_height u"
        by (simp add: row)
      moreover have "pend_status ?p \<noteq> ''scheduled''" by (simp add: row)
      ultimately show ?thesis unfolding xu using apply_update_refused [OF ok' p'] by blast
    qed
    have settled: "apply_update run False x ?D = (Ok False, ?D)" if calm: "\<not> (pend_status p = ''scheduled'' \<and> crosses u p)"
    proof -
      have row: "?p = (if pend_status p = ''scheduled'' then moved_row u p else p)"
        using calm p(2,3,5) xu by (simp add: receipt_row_def)
      have "pend_scheduled_height ?p = upd_scheduled_height u" "pend_start_height ?p = Some (upd_schedule_start_height u)"
        using p(6) xu by (simp_all add: row moved_row_def)
      moreover have "expiry = pend_expiry_height ?p" if "pend_status ?p = ''scheduled''"
      proof -
        have "pend_status p = ''scheduled''" using row that by (simp split: if_splits)
        then show ?thesis using calm p'(4) by (simp add: crosses_def)
      qed
      ultimately show ?thesis unfolding xu by (rule apply_update_settled [OF ok' p'])
    qed
    show "apply_update run False x ?D = (Ok False, ?D) \<or> ?refused x" using refused settled by blast
    assume "\<exists>q \<in> set (pending_rows db). pend_txid q = fst x \<and> pend_status q = ''scheduled'' \<and> crosses (snd x) q"
    then obtain q where q: "q \<in> set (pending_rows db)" "pend_txid q = fst x" "pend_status q = ''scheduled''" "crosses (snd x) q"
      by blast
    then have "q = p" using same_part [of db q p] p(1,3) assms(2) by (simp add: parts_ok_def)
    then show "?refused x" using refused q(3,4) xu by simp
  qed
  from assms(3) obtain p u where p: "p \<in> set (pending_rows db)" "map_of (supplied_of updates) (pend_txid p) = Some u"
    "pend_status p = ''scheduled''" "crosses u p" unfolding crossing_def by blast
  then have mem: "(pend_txid p, u) \<in> set items" using items map_of_SomeD by metis
  have "?refused (pend_txid p, u)"
    by (rule one(2) [OF mem]) (use p in auto)
  then obtain i where "apply_update run False (pend_txid p, u) ?D = (Err (ReceiptItemNotScheduled i), ?D)" by blast
  with one(1) mem have "\<exists>i. accumulate (apply_update run) False items ?D = (Err (ReceiptItemNotScheduled i), ?D)"
    by (intro accumulate_refused)
  then show ?thesis unfolding run by (auto simp: atomically_def andthen_def)
qed

end
