(* ===== verification/PartRedrawProps.thy ===== *)
theory PartRedrawProps
  imports PartReach
begin

text \<open>
  Proofs about the redraw of overdue parts: with a minimum delay of one block, what is still due
  at the tip afterwards was due before and was left out on purpose.
\<close>

text \<open>
  \<open>left_due run tip ts db db'\<close>: rows of other runs are old rows, and a row of the run that is
  still due is an old row whose id is not among \<open>ts\<close>.
\<close>

definition left_due :: "string \<Rightarrow> u32 \<Rightarrow> string set \<Rightarrow> migration_db \<Rightarrow> migration_db \<Rightarrow> bool" where
  "left_due run tip ts db db' \<longleftrightarrow> (\<forall>p \<in> set (pending_rows db').
     (pend_run_id p \<noteq> run \<longrightarrow> p \<in> set (pending_rows db)) \<and>
     (is_due run tip p \<longrightarrow> p \<in> set (pending_rows db) \<and> pend_txid p \<notin> ts))"

lemma left_due_refl: "left_due run tip {} db db"
  by (simp add: left_due_def)

lemma left_due_trans:
  "left_due run tip ts db db1 \<Longrightarrow> left_due run tip us db1 db2 \<Longrightarrow> left_due run tip (ts \<union> us) db db2"
  unfolding left_due_def by blast

lemma left_due_same: "pending_rows db2 = pending_rows db1 \<Longrightarrow> left_due run tip ts db db1 \<Longrightarrow> left_due run tip ts db db2"
  by (simp add: left_due_def)

lemma left_due_update:
  assumes "\<And>p. signed_part (f p) = signed_part p" "\<And>p. \<not> is_due run tip (f p)"
  shows "left_due run tip {txid} db (update_parts (is_scheduled_part run txid) f db)"
  unfolding left_due_def
proof
  fix p assume "p \<in> set (pending_rows (update_parts (is_scheduled_part run txid) f db))"
  then obtain q where q: "q \<in> set (pending_rows db)" "p = (if is_scheduled_part run txid q then f q else q)"
    by auto
  have "pend_run_id (f q) = pend_run_id q" using assms(1) [of q] by (simp add: signed_part_def)
  then show "(pend_run_id p \<noteq> run \<longrightarrow> p \<in> set (pending_rows db)) \<and>
      (is_due run tip p \<longrightarrow> p \<in> set (pending_rows db) \<and> pend_txid p \<notin> {txid})"
    using q assms(2) [of q] by (auto simp: is_scheduled_part_def is_part_def is_due_def split: if_splits)
qed

lemma step_leaves:
  assumes "reschedule_step now run tip delay b ((txid, e), offset) db = (Ok c, db')" "0 < delay"
  shows "left_due run tip {txid} db db' \<and> map run_network (run_rows db') = map run_network (run_rows db) \<and>
    map run_key (run_rows db') = map run_key (run_rows db)"
proof -
  from assms(1) obtain height expiry where
    h: "height = tip + max offset delay" "canonical_expiry height = Ok expiry" and
    body: "(if expiry \<noteq> e
       then andthen (modify (update_parts (is_scheduled_part run txid) (set_status ''needs_resign''))) (\<lambda>_. yield True)
       else andthen (lift_outcome (ok_or (checked_add i64_max now (max offset delay * 1000)) TimeOverflow)) (\<lambda>at.
            andthen (modify (update_parts (is_scheduled_part run txid) (redraw_row height tip at))) (\<lambda>_. yield b))) db = (Ok c, db')"
    unfolding reschedule_step_def Let_def prod.case andthen_lift_Ok
    by (auto simp: outcome_simps)
  have up: "tip < height" using h(1) assms(2) by simp
  have "left_due run tip {txid} db (update_parts (is_scheduled_part run txid) (set_status ''needs_resign'') db)"
    by (rule left_due_update) (simp_all add: is_due_def)
  moreover have "left_due run tip {txid} db (update_parts (is_scheduled_part run txid) (redraw_row height tip at) db)" for at
    by (rule left_due_update) (simp, use up in \<open>simp add: is_due_def redraw_row_def\<close>)
  moreover have "(\<exists>f. db' = update_parts (is_scheduled_part run txid) f db \<and>
      (f = set_status ''needs_resign'' \<or> (\<exists>at. f = redraw_row height tip at)))"
    using body by (cases "expiry \<noteq> e") (auto simp: andthen_lift andthen_lift_Ok run_basic)
  ultimately show ?thesis by auto
qed

lemma steps_leave:
  assumes "accumulate (reschedule_step now run tip delay) b moves db = (Ok c, db')" "0 < delay"
  shows "left_due run tip (fst ` fst ` set moves) db db' \<and> map run_network (run_rows db') = map run_network (run_rows db) \<and>
    map run_key (run_rows db') = map run_key (run_rows db)"
  using assms(1)
proof (induction moves arbitrary: b db)
  case Nil
  then show ?case by (simp add: left_due_refl)
next
  case (Cons m moves)
  obtain txid e offset where m: "m = ((txid, e), offset)" by (metis surj_pair)
  from Cons.prems obtain b1 db1 where one: "reschedule_step now run tip delay b ((txid, e), offset) db = (Ok b1, db1)" and
    rest: "accumulate (reschedule_step now run tip delay) b1 moves db1 = (Ok c, db')"
    by (auto simp: m andthen_Ok)
  have "left_due run tip ({txid} \<union> fst ` fst ` set moves) db db'"
    by (rule left_due_trans) (use step_leaves [OF one assms(2)] Cons.IH [OF rest] in blast)+
  then show ?case using step_leaves [OF one assms(2)] Cons.IH [OF rest] by (simp add: m)
qed

lemma tx_leaves:
  assumes "reschedule_tx clock run tip delay moves db = (Ok (), db')" "0 < delay"
  shows "left_due run tip (fst ` fst ` set moves) db db' \<and> map run_network (run_rows db') = map run_network (run_rows db) \<and>
    map run_key (run_rows db') = map run_key (run_rows db)"
proof -
  from assms(1) obtain c db1 where acc: "accumulate (reschedule_step (clock 0) run tip delay) False moves db = (Ok c, db1)" and
    last: "(if c then modify (ready_for_resign (clock 1) run schedule_message) else yield ()) db1 =
      (Ok () :: (part_error, unit) outcome, db')"
    unfolding reschedule_tx_def atomically_Ok andthen_Ok by blast
  then have fin: "db' = (if c then ready_for_resign (clock 1) run schedule_message db1 else db1)"
    by (simp add: run_basic split: if_splits)
  have "pending_rows db' = pending_rows db1 \<and> map run_network (run_rows db') = map run_network (run_rows db1) \<and>
      map run_key (run_rows db') = map run_key (run_rows db1)"
    unfolding fin ready_for_resign_def by auto
  then show ?thesis using steps_leave [OF acc assms(2)] left_due_same by metis
qed

lemma redraw_leaves:
  assumes "reschedule_overdue_pending_txs_with_options G J clock run network tip delay excluded rng db = Some (Ok (), db')"
    "rng_contract G" "0 < delay"
  shows "left_due run tip {t. Some t \<noteq> excluded} db db' \<and> map run_network (run_rows db') = map run_network (run_rows db) \<and>
    map run_key (run_rows db') = map run_key (run_rows db)"
  using assms(1,2)
proof (cases rule: redraw_cases)
  case 1
  have "\<not> is_due run tip p \<or> Some (pend_txid p) = excluded" if "p \<in> set (pending_rows db)" for p
    using 1(1) that by (force simp: overdue_parts_def parts_of_def is_due_def filter_empty_conv)
  then show ?thesis using 1(3) by (auto simp: left_due_def)
next
  case (3 moves)
  have ts: "fst ` fst ` set moves = fst ` set (overdue_parts db run tip excluded)"
    using 3(2) by (metis list.set_map set_mset_mset)
  have "left_due run tip (fst ` set (overdue_parts db run tip excluded)) db db'"
    using tx_leaves [OF 3(1) assms(3)] unfolding ts by (simp add: left_due_def)
  moreover have "pend_txid p \<in> fst ` set (overdue_parts db run tip excluded)"
    if "p \<in> set (pending_rows db)" "is_due run tip p" "Some (pend_txid p) \<noteq> excluded" for p
    using that by (force simp: overdue_parts_def parts_of_def is_due_def image_iff)
  ultimately have "left_due run tip {t. Some t \<noteq> excluded} db db'"
    unfolding left_due_def by blast
  then show ?thesis using tx_leaves [OF 3(1) assms(3)] by simp
qed simp

text \<open>The whole wallet.\<close>

lemma runs_leave:
  assumes "reschedule_runs f i runs db = Some (Ok (), db')"
    "\<And>i run db db'. f i run db = Some (Ok (), db') \<Longrightarrow> left_due run tip {t. \<not> skip run t} db db' \<and>
      map run_network (run_rows db') = map run_network (run_rows db) \<and> map run_key (run_rows db') = map run_key (run_rows db)"
    "p \<in> set (pending_rows db')" "pend_status p = ''scheduled''" "pend_scheduled_height p \<le> tip"
  shows "p \<in> set (pending_rows db) \<and> (pend_run_id p \<in> set runs \<longrightarrow> skip (pend_run_id p) (pend_txid p))"
  using assms(1,3)
proof (induction runs arbitrary: i db)
  case Nil
  then show ?case by simp
next
  case (Cons run runs)
  from Cons.prems(1) obtain r db1 where one: "f i run db = Some (r, db1)" and
    rest: "(case r of Ok u \<Rightarrow> reschedule_runs f (Suc i) runs db1 | other \<Rightarrow> Some (other, db1)) = Some (Ok (), db')"
    by (auto simp: bind_eq_Some_conv)
  then have ok: "r = Ok ()" by (cases r) auto
  then have later: "p \<in> set (pending_rows db1) \<and> (pend_run_id p \<in> set runs \<longrightarrow> skip (pend_run_id p) (pend_txid p))"
    using Cons.IH rest Cons.prems(2) by simp
  have "left_due run tip {t. \<not> skip run t} db db1" using assms(2) one ok by blast
  then show ?case using later assms(4,5) by (cases "pend_run_id p = run") (auto simp: left_due_def is_due_def)
qed

lemma wallet_redraw_leaves:
  assumes "reschedule_wallet_overdue_pending_txs_with_exclusion G J clocks network tip excluded rngs db = Some (Ok (), db')"
    "rng_contract G" "p \<in> set (pending_rows db')" "pend_status p = ''scheduled''" "pend_scheduled_height p \<le> tip"
    "r \<in> set (run_rows db)" "run_key r = pend_run_id p" "run_network r = network_name network"
  shows "excluded = Some (pend_run_id p, pend_txid p) \<and> p \<in> set (pending_rows db)"
proof -
  let ?f = "\<lambda>i run_id. reschedule_overdue_pending_txs_with_options G J (clocks i) run_id network tip 1
            (case excluded of
               Some (excluded_run_id, excluded_txid) \<Rightarrow> if run_id = excluded_run_id then Some excluded_txid else None
             | None \<Rightarrow> None) (rngs i)"
  have "left_due run tip {t. excluded \<noteq> Some (run, t)} db1 db2 \<and>
      map run_network (run_rows db2) = map run_network (run_rows db1) \<and> map run_key (run_rows db2) = map run_key (run_rows db1)"
    if "?f i run db1 = Some (Ok (), db2)" for i run db1 db2
    using redraw_leaves [OF that assms(2)] by (auto simp: left_due_def split: option.splits prod.splits if_splits)
  from runs_leave [of ?f _ _ _ _ tip "\<lambda>run t. excluded = Some (run, t)",
      OF assms(1) [unfolded reschedule_wallet_overdue_pending_txs_with_exclusion_def Let_def] this assms(3-5)]
  have p: "p \<in> set (pending_rows db)"
    "pend_run_id p \<in> set (overdue_runs (ensure_tables db) network tip) \<longrightarrow> excluded = Some (pend_run_id p, pend_txid p)"
    by simp_all
  moreover have "pend_run_id p \<in> set (overdue_runs (ensure_tables db) network tip)"
    using p(1) assms(4-8) by (auto simp: overdue_runs_def list_ex_iff)
  ultimately show ?thesis by blast
qed

end
