(* ===== verification/PartRecoveryProps.thy ===== *)
theory PartRecoveryProps
  imports PartReach
begin

text \<open>
  Proofs about recovery: the rebuild generation gives every part that waits for a signature its
  own offset, kept until the chain passes it, so that a repetition of the call finds the same
  generation; and a replacement exchanges parts without changing what the run migrates.
\<close>

section \<open>The scan of the waiting parts\<close>

definition stale :: "u32 \<Rightarrow> pending_row \<Rightarrow> bool" where
  "stale elapsed p \<longleftrightarrow> (case pend_rebuild_offset p of None \<Rightarrow> True | Some offset \<Rightarrow> offset < elapsed)"

definition lower_key :: "pending_row \<Rightarrow> string" where
  "lower_key p = to_ascii_lowercase (pend_txid p)"

definition keep_offset :: "u32 \<Rightarrow> pending_row \<Rightarrow> (string \<rightharpoonup> u32) \<Rightarrow> (string \<rightharpoonup> u32)" where
  "keep_offset elapsed p m = (if stale elapsed p then m else m(lower_key p := pend_rebuild_offset p))"

lemma scan_row_Ok:
  assumes "scan_row elapsed s p = Ok s'"
  shows "pend_part_index p \<noteq> None \<and>
    scan_to_assign s' = scan_to_assign s @
      (if stale elapsed p then [(pend_txid p, the (pend_part_index p), pend_value p, pend_rebuild_offset p)] else []) \<and>
    scan_offsets s' = keep_offset elapsed p (scan_offsets s) \<and>
    scan_max s' = (case pend_rebuild_offset p of None \<Rightarrow> scan_max s | Some o1 \<Rightarrow> max (scan_max s) o1) \<and>
    scan_any s' = (scan_any s \<or> pend_rebuild_offset p \<noteq> None)"
proof (cases "pend_rebuild_offset p")
  case None
  then show ?thesis using assms
    by (auto simp: scan_row_def outcome_simps stale_def keep_offset_def)
next
  case (Some offset)
  then show ?thesis using assms
    by (cases "offset < elapsed")
      (auto simp: scan_row_def outcome_simps stale_def keep_offset_def lower_key_def Let_def)
qed

lemma scan_row_total: "pend_part_index p \<noteq> None \<Longrightarrow> \<exists>s'. scan_row elapsed s p = Ok s'"
  by (auto simp: scan_row_def ok_or_def Let_def split: option.split)

lemma scan_rows_Ok:
  assumes "foldM (scan_row elapsed) s ps = Ok s'"
  shows "(\<forall>p \<in> set ps. pend_part_index p \<noteq> None) \<and>
    scan_to_assign s' = scan_to_assign s @ map (\<lambda>p. (pend_txid p, the (pend_part_index p), pend_value p, pend_rebuild_offset p))
      (filter (stale elapsed) ps) \<and>
    scan_offsets s' = fold (keep_offset elapsed) ps (scan_offsets s) \<and>
    scan_max s \<le> scan_max s' \<and> (\<forall>p \<in> set ps. \<forall>o1. pend_rebuild_offset p = Some o1 \<longrightarrow> o1 \<le> scan_max s') \<and>
    (scan_max s' = scan_max s \<or> (\<exists>p \<in> set ps. pend_rebuild_offset p = Some (scan_max s'))) \<and>
    scan_any s' = (scan_any s \<or> (\<exists>p \<in> set ps. pend_rebuild_offset p \<noteq> None))"
  using assms
proof (induction ps arbitrary: s)
  case Nil
  then show ?case by simp
next
  case (Cons p ps)
  from Cons.prems obtain s1 where one: "scan_row elapsed s p = Ok s1" and rest: "foldM (scan_row elapsed) s1 ps = Ok s'"
    by (auto simp: outcome_simps)
  note p = scan_row_Ok [OF one]
  note IH = Cons.IH [OF rest]
  have step: "scan_max s \<le> scan_max s1" "\<And>o1. pend_rebuild_offset p = Some o1 \<Longrightarrow> o1 \<le> scan_max s1"
    "scan_max s1 = scan_max s \<or> pend_rebuild_offset p = Some (scan_max s1)"
    using p by (auto simp: max_def split: option.splits if_splits)
  have above: "scan_max s \<le> scan_max s'" "scan_max s1 \<le> scan_max s'" using step(1) IH by auto
  have bound: "o1 \<le> scan_max s'" if "q \<in> set (p # ps)" "pend_rebuild_offset q = Some o1" for q o1
    using that step(2) above(2) IH by (cases "q = p") fastforce+
  have reached: "scan_max s' = scan_max s \<or> (\<exists>q \<in> set (p # ps). pend_rebuild_offset q = Some (scan_max s'))"
    using IH step(3) by auto
  have listed: "scan_to_assign s' = scan_to_assign s @ map (\<lambda>p. (pend_txid p, the (pend_part_index p), pend_value p, pend_rebuild_offset p))
      (filter (stale elapsed) (p # ps))"
    using IH p by simp
  have any: "scan_any s' = (scan_any s \<or> (\<exists>q \<in> set (p # ps). pend_rebuild_offset q \<noteq> None))" using IH p by auto
  have offsets: "scan_offsets s' = fold (keep_offset elapsed) (p # ps) (scan_offsets s)" using IH p by simp
  have indexed: "\<forall>q \<in> set (p # ps). pend_part_index q \<noteq> None" using IH p by auto
  show ?case
    using indexed listed offsets above(1) bound reached any by blast
qed

lemma kept_offsets:
  assumes "distinct (map lower_key ps)" "p \<in> set ps"
  shows "fold (keep_offset elapsed) ps m (lower_key p) = (if stale elapsed p then m (lower_key p) else pend_rebuild_offset p)"
proof -
  have away: "fold (keep_offset elapsed) qs m t = m t" if "t \<notin> lower_key ` set qs" for qs t and m :: "string \<rightharpoonup> u32"
    using that by (induction qs arbitrary: m) (auto simp: keep_offset_def)
  show ?thesis using assms
  proof (induction ps arbitrary: m)
    case (Cons q ps)
    show ?case
    proof (cases "p = q")
      case True
      then have "lower_key p \<notin> lower_key ` set ps" using Cons.prems(1) by simp
      from away [OF this] True have "fold (keep_offset elapsed) (q # ps) m (lower_key p) = keep_offset elapsed q m (lower_key p)"
        by simp
      also have "\<dots> = (if stale elapsed p then m (lower_key p) else pend_rebuild_offset p)"
        using True by (simp add: keep_offset_def)
      finally show ?thesis .
    next
      case False
      then have "p \<in> set ps" using Cons.prems(2) by simp
      moreover have "lower_key q \<noteq> lower_key p" using Cons.prems(1) calculation by auto
      moreover have "keep_offset elapsed q m (lower_key p) = m (lower_key p)"
        using calculation(2) by (auto simp: keep_offset_def)
      ultimately have "fold (keep_offset elapsed) ps (keep_offset elapsed q m) (lower_key p) =
          (if stale elapsed p then m (lower_key p) else pend_rebuild_offset p)"
        using Cons.IH [of "keep_offset elapsed q m"] Cons.prems(1) by simp
      then show ?thesis by simp
    qed
  qed simp
qed

lemma unkept_offsets: "t \<notin> lower_key ` set ps \<Longrightarrow> fold (keep_offset elapsed) ps m t = m t"
  by (induction ps arbitrary: m) (auto simp: keep_offset_def)

section \<open>The assignment\<close>

definition waiting :: "string \<Rightarrow> pending_row \<Rightarrow> bool" where
  "waiting run p \<longleftrightarrow> pend_run_id p = run \<and> pend_status p = ''needs_resign''"

definition with_offset :: "(string \<rightharpoonup> u32) \<Rightarrow> string \<Rightarrow> pending_row \<Rightarrow> pending_row" where
  "with_offset given run p = (if waiting run p \<and> pend_txid p \<in> dom given
     then p\<lparr>pend_rebuild_offset := given (pend_txid p)\<rparr> else p)"

lemma with_offset_simps [simp]:
  "pend_txid (with_offset g run p) = pend_txid p" "pend_run_id (with_offset g run p) = pend_run_id p"
  "pend_status (with_offset g run p) = pend_status p" "pend_part_index (with_offset g run p) = pend_part_index p"
  "pend_scheduled_height (with_offset g run p) = pend_scheduled_height p" "lower_key (with_offset g run p) = lower_key p"
  "waiting run' (with_offset g run p) = waiting run' p" "pend_value (with_offset g run p) = pend_value p"
  by (simp_all add: with_offset_def waiting_def lower_key_def)

text \<open>The items are old rows: waiting parts with the offset they had.\<close>

lemma assign_offsets_Ok:
  assumes "accumulate (assign_offset run base) acc items db = (Ok acc', db')" "unique_txids db"
    "distinct (map (fst \<circ> fst) items)"
    "\<forall>x \<in> set items. \<exists>p \<in> set (pending_rows db). waiting run p \<and> pend_txid p = fst (fst x)"
  defines "given \<equiv> map_of (map (\<lambda>x. (fst (fst x), base + snd x)) items)"
  shows "pending_rows db' = map (with_offset given run) (pending_rows db) \<and> run_rows db' = run_rows db \<and>
    stages_db db' = stages_db db \<and> note_rows db' = note_rows db \<and> signed_rows db' = signed_rows db \<and>
    snd acc' = fold (\<lambda>x m. m(to_ascii_lowercase (fst (fst x)) \<mapsto> base + snd x)) items (snd acc) \<and>
    fst acc' = fold (\<lambda>x. max (base + snd x)) items (fst acc)"
  using assms(1-4) unfolding given_def
proof (induction items arbitrary: acc db)
  case Nil
  have "with_offset Map.empty run = (\<lambda>p. p)" by (auto simp: with_offset_def)
  then show ?case using Nil by simp
next
  case (Cons x items)
  obtain txid part v previous fresh where x: "x = ((txid, part, v, previous), fresh)" by (metis surj_pair)
  obtain highest offsets where acc: "acc = (highest, offsets)" by (cases acc)
  from Cons.prems(1) obtain acc1 db1 where one: "assign_offset run base acc x db = (Ok acc1, db1)" and
    rest: "accumulate (assign_offset run base) acc1 items db1 = (Ok acc', db')"
    by (auto simp: andthen_Ok)
  let ?P = "\<lambda>p. is_part run txid p \<and> pend_status p = ''needs_resign'' \<and> pend_rebuild_offset p = previous"
  from one obtain assigned where assigned: "checked_add u32_max base fresh = Some assigned" and
    body: "andthen (execute_parts ?P (\<lambda>p. p\<lparr>pend_rebuild_offset := Some assigned\<rparr>)) (\<lambda>updated.
       if updated \<noteq> 1 then lift_outcome (Err RecoveryPartChanged)
       else yield (max highest assigned, offsets(to_ascii_lowercase txid \<mapsto> assigned))) db = (Ok acc1, db1)"
    unfolding x acc assign_offset_def prod.case andthen_lift_Ok by (auto simp: outcome_simps)
  have sum: "assigned = base + fresh" using assigned by (simp add: outcome_simps)
  have acc1: "acc1 = (max highest (base + fresh), offsets(to_ascii_lowercase txid \<mapsto> base + fresh))" and
    db1: "db1 = update_parts ?P (\<lambda>p. p\<lparr>pend_rebuild_offset := Some (base + fresh)\<rparr>) db" and
    count: "length (filter ?P (pending_rows db)) = 1"
    using body unfolding sum by (auto simp: andthen_def [of "execute_parts _ _"] execute_parts_def run_basic split: if_splits)
  from Cons.prems(4) obtain p where p: "p \<in> set (pending_rows db)" "waiting run p" "pend_txid p = txid" by (auto simp: x)
  have only: "?P q \<longleftrightarrow> q = p" if q: "q \<in> set (pending_rows db)" for q
  proof -
    from count obtain z where z: "filter ?P (pending_rows db) = [z]" by (auto simp: length_Suc_conv numeral_eq_Suc)
    then have "z \<in> set (filter ?P (pending_rows db))" by simp
    then have "z \<in> set (pending_rows db)" "?P z" unfolding set_filter by blast+
    then have "z = p" using same_part [OF Cons.prems(2), of z p] p by (auto simp: is_part_def)
    then have "?P p" using \<open>?P z\<close> by simp
    moreover have "q = p" if "?P q" using that same_part [OF Cons.prems(2) q p(1)] p by (auto simp: is_part_def)
    ultimately show ?thesis by blast
  qed
  have rows1: "pending_rows db1 = map (with_offset [txid \<mapsto> base + fresh] run) (pending_rows db)"
    unfolding db1 update_simps
  proof (rule map_cong [OF HOL.refl])
    fix q assume q: "q \<in> set (pending_rows db)"
    have "q = p \<longleftrightarrow> waiting run q \<and> pend_txid q = txid"
      using p same_part [OF Cons.prems(2) q p(1)] by auto
    then show "(if ?P q then q\<lparr>pend_rebuild_offset := Some (base + fresh)\<rparr> else q) = with_offset [txid \<mapsto> base + fresh] run q"
      using only [OF q] by (auto simp: with_offset_def)
  qed
  have uniq: "unique_txids db1" using Cons.prems(2) unfolding unique_txids_def rows1 by (simp add: comp_def)
  have new: "txid \<notin> fst ` set (map (\<lambda>x. (fst (fst x), base + snd x)) items)"
  proof -
    have "txid \<notin> (\<lambda>x. fst (fst x)) ` set items" using Cons.prems(3) by (simp add: x comp_def)
    then show ?thesis by (simp add: image_image)
  qed
  have old: "\<forall>y \<in> set items. \<exists>q \<in> set (pending_rows db1). waiting run q \<and> pend_txid q = fst (fst y)"
  proof
    fix y assume "y \<in> set items"
    then obtain q where "q \<in> set (pending_rows db)" "waiting run q" "pend_txid q = fst (fst y)" using Cons.prems(4) by auto
    then show "\<exists>q \<in> set (pending_rows db1). waiting run q \<and> pend_txid q = fst (fst y)"
      unfolding rows1 by (intro bexI [of _ "with_offset [txid \<mapsto> base + fresh] run q"]) simp_all
  qed
  note IH = Cons.IH [OF rest uniq _ old]
  have join: "with_offset (map_of (map (\<lambda>x. (fst (fst x), base + snd x)) items)) run (with_offset [txid \<mapsto> base + fresh] run q)
      = with_offset (map_of (map (\<lambda>x. (fst (fst x), base + snd x)) (x # items))) run q" for q
    using new by (auto simp: x with_offset_def waiting_def dom_map_of_conv_image_fst)
  have d: "distinct (map (fst \<circ> fst) items)" using Cons.prems(3) by (simp add: comp_def)
  have rows: "pending_rows db' = map (with_offset (map_of (map (\<lambda>x. (fst (fst x), base + snd x)) (x # items))) run) (pending_rows db)"
    using conjunct1 [OF IH [OF d]] unfolding rows1 map_map comp_def join .
  have rest_fields: "run_rows db' = run_rows db" "stages_db db' = stages_db db" "note_rows db' = note_rows db"
    "signed_rows db' = signed_rows db" using IH [OF d] by (simp_all add: db1)
  have "snd acc' = fold (\<lambda>x m. m(to_ascii_lowercase (fst (fst x)) \<mapsto> base + snd x)) items (snd acc1)"
    "fst acc' = fold (\<lambda>x. max (base + snd x)) items (fst acc1)" using IH [OF d] by blast+
  then have "snd acc' = fold (\<lambda>x m. m(to_ascii_lowercase (fst (fst x)) \<mapsto> base + snd x)) (x # items) (snd acc)"
    "fst acc' = fold (\<lambda>x. max (base + snd x)) (x # items) (fst acc)"
    by (simp_all add: acc acc1 x max.commute)
  with rows rest_fields show ?case by blast
qed

section \<open>The generation\<close>

text \<open>A generation that agrees with the table: the origin and the highest offset are saved, every waiting part
  has an offset the chain has not passed, and the generation gives the same offset.\<close>

definition generation_saved :: "string \<Rightarrow> u32 \<Rightarrow> rebuild_generation \<Rightarrow> migration_db \<Rightarrow> bool" where
  "generation_saved run candidate g db \<longleftrightarrow>
     (\<exists>r highest. find_run db run = Some r \<and> run_recovery_origin r = Some (gen_origin_height g) \<and>
        run_recovery_max_offset r = Some highest \<and> candidate - gen_origin_height g \<le> highest \<and>
        (\<forall>p \<in> set (pending_rows db). waiting run p \<longrightarrow> pend_part_index p \<noteq> None \<and> (\<exists>o1. pend_rebuild_offset p = Some o1 \<and>
           candidate - gen_origin_height g \<le> o1 \<and> o1 \<le> highest)) \<and>
        (\<forall>p \<in> set (pending_rows db). waiting run p \<longrightarrow> gen_offsets_by_txid g (lower_key p) = pend_rebuild_offset p) \<and>
        dom (gen_offsets_by_txid g) = lower_key ` {p \<in> set (pending_rows db). waiting run p})"

lemma set_resign_rows [simp]: "set (resign_rows db run) = {p \<in> set (pending_rows db). waiting run p}"
  by (auto simp: resign_rows_def parts_of_def waiting_def)

lemma distinct_resign:
  assumes "parts_ok seen lost db"
  shows "distinct (map lower_key (resign_rows db run))" "distinct (map pend_txid (resign_rows db run))"
proof -
  have "distinct (pending_rows db)" "inj_on pend_txid (set (pending_rows db))"
    using assms by (auto simp: parts_ok_def unique_txids_def distinct_map)
  then have d: "distinct (resign_rows db run)" "inj_on pend_txid (set (resign_rows db run))"
    by (auto simp: resign_rows_def parts_of_def inj_on_def)
  then show "distinct (map pend_txid (resign_rows db run))" by (simp add: distinct_map)
  moreover have "map lower_key (resign_rows db run) = map pend_txid (resign_rows db run)"
    using assms by (intro map_cong) (auto simp: parts_ok_def part_ok_def lower_key_def)
  ultimately show "distinct (map lower_key (resign_rows db run))" by (simp only:)
qed

lemma persist_generation_Ok:
  assumes "persist_generation run origin highest db = (Ok (), db')"
  shows "db' = update_runs (\<lambda>r. run_key r = run)
      (\<lambda>r. r\<lparr>run_recovery_origin := Some origin, run_recovery_max_offset := Some highest\<rparr>) db"
  using assms by (auto simp: persist_generation_def run_basic andthen_lift split: if_splits)

text \<open>With a saved generation the call draws nothing and finds it again.\<close>

lemma generation_found_again:
  assumes "generation_saved run candidate g db" "parts_ok seen lost db" "unique_runs db" "resign_rows db run \<noteq> []"
    "timing_policy_for_run_with_conn db run = Ok policy"
  shows "ensure_rebuild_schedule_generation G J run network candidate rng db = Some (Ok (Some g), ensure_tables db)"
proof -
  let ?db = "ensure_tables db"
  let ?rows = "resign_rows db run"
  let ?elapsed = "candidate - gen_origin_height g"
  from assms(1) obtain r highest where r: "find_run db run = Some r" "run_recovery_origin r = Some (gen_origin_height g)"
      "run_recovery_max_offset r = Some highest" "?elapsed \<le> highest" and
    parts: "\<And>p. p \<in> set ?rows \<Longrightarrow> pend_part_index p \<noteq> None \<and>
      (\<exists>o1. pend_rebuild_offset p = Some o1 \<and> ?elapsed \<le> o1 \<and> o1 \<le> highest)" and
    gen: "\<And>p. p \<in> set ?rows \<Longrightarrow> gen_offsets_by_txid g (lower_key p) = pend_rebuild_offset p"
      "dom (gen_offsets_by_txid g) = lower_key ` set ?rows"
    unfolding generation_saved_def by auto
  have rows: "resign_rows ?db run = ?rows" by (simp add: resign_rows_def)
  have fresh: "\<not> stale ?elapsed p" if "p \<in> set ?rows" for p
    using parts [OF that] by (auto simp: stale_def)
  have ok: "\<exists>s. foldM (scan_row ?elapsed) s0 ps = Ok s" if "set ps \<subseteq> set ?rows" for ps s0
    using that
  proof (induction ps arbitrary: s0)
    case (Cons p ps)
    then have "pend_part_index p \<noteq> None" using parts by simp
    then obtain s1 where "scan_row ?elapsed s0 p = Ok s1" using scan_row_total by blast
    then show ?case using Cons.IH [of s1] Cons.prems by simp
  qed simp
  then obtain s where s: "foldM (scan_row ?elapsed) empty_scan ?rows = Ok s" by blast
  note scanned = scan_rows_Ok [OF s]
  have none: "scan_to_assign s = []" using scanned fresh by (simp add: empty_scan_def filter_empty_conv)
  have offsets: "scan_offsets s = gen_offsets_by_txid g"
  proof
    fix t
    show "scan_offsets s t = gen_offsets_by_txid g t"
    proof (cases "t \<in> lower_key ` set ?rows")
      case True
      then obtain p where p: "p \<in> set ?rows" "t = lower_key p" by blast
      then show ?thesis
        using kept_offsets [OF distinct_resign(1) [OF assms(2)] p(1)] scanned fresh gen(1) by simp
    next
      case False
      then have "gen_offsets_by_txid g t = None" using gen(2) by blast
      moreover have "scan_offsets s t = None"
        using unkept_offsets [OF False] scanned by (simp add: empty_scan_def)
      ultimately show ?thesis by simp
    qed
  qed
  have max_le: "scan_max s \<le> highest"
  proof -
    from scanned have "scan_max s = 0 \<or> (\<exists>p \<in> set ?rows. pend_rebuild_offset p = Some (scan_max s))"
      by (simp add: empty_scan_def)
    then show ?thesis using parts by fastforce
  qed
  have base: "rebuild_base (run_recovery_origin r) (run_recovery_max_offset r) s ?elapsed = Ok highest"
    using r max_le by (simp add: rebuild_base_def)
  have plan: "plan_generation J ?db run candidate = Ok (policy, r, gen_origin_height g, highest, s)"
    using assms(5) r base s by (simp add: plan_generation_def read_run_def timing_policy_for_run_with_conn_def rows
        Let_def saturating_sub_def ok_or_def)
  have same: "update_runs (\<lambda>q. run_key q = run)
      (\<lambda>q. q\<lparr>run_recovery_origin := Some (gen_origin_height g), run_recovery_max_offset := Some highest\<rparr>) ?db = ?db"
  proof -
    have "q = r" if "q \<in> set (run_rows db)" "run_key q = run" for q
      using that r(1) assms(3) by (auto simp: find_run_def find_Some_iff unique_runs_def distinct_map inj_on_def)
    then have "map (\<lambda>q. if run_key q = run then q\<lparr>run_recovery_origin := Some (gen_origin_height g),
        run_recovery_max_offset := Some highest\<rparr> else q) (run_rows db) = run_rows db"
      using r(2,3) by (intro map_idI) auto
    then show ?thesis by (simp add: update_runs_def ensure_tables_def)
  qed
  have one: "length (filter (\<lambda>q. run_key q = run) (run_rows db)) = 1"
  proof -
    have "r \<in> set (run_rows db)" "run_key r = run" using r(1) by (auto simp: find_run_def find_Some_iff)
    then have "filter (\<lambda>q. run_key q = run) (run_rows db) = [r]"
      using assms(3) by (intro filter_single) (auto simp: unique_runs_def distinct_map inj_on_def)
    then show ?thesis by simp
  qed
  have assign: "assign_generation run (gen_origin_height g) highest s [] ?db = (Ok (Some g), ?db)"
    using same one by (simp add: assign_generation_def none offsets andthen_def persist_generation_def run_basic)
  show ?thesis
    using assms(4) plan assign
    by (simp add: ensure_rebuild_schedule_generation_def rows fresh_rebuild_offsets_def none atomically_def andthen_lift)
qed

lemma fold_upd:
  "x \<in> set xs \<Longrightarrow> distinct (map k xs) \<Longrightarrow> fold (\<lambda>x m. m(k x \<mapsto> v x)) xs m (k x) = Some (v x)"
  "t \<notin> k ` set xs \<Longrightarrow> fold (\<lambda>x m. m(k x \<mapsto> v x)) xs m t = m t"
proof -
  have away: "t \<notin> k ` set xs \<Longrightarrow> fold (\<lambda>x m. m(k x \<mapsto> v x)) xs m t = m t" for t xs and m :: "'b \<rightharpoonup> 'c"
    by (induction xs arbitrary: m) auto
  show "t \<notin> k ` set xs \<Longrightarrow> fold (\<lambda>x m. m(k x \<mapsto> v x)) xs m t = m t" by (rule away)
  show "x \<in> set xs \<Longrightarrow> distinct (map k xs) \<Longrightarrow> fold (\<lambda>x m. m(k x \<mapsto> v x)) xs m (k x) = Some (v x)"
  proof (induction xs arbitrary: m)
    case (Cons y ys)
    show ?case
    proof (cases "x = y")
      case True
      then have "k y \<notin> k ` set ys" using Cons.prems(2) by simp
      from away [OF this, of "m(k y \<mapsto> v y)"] True show ?thesis by (simp del: fun_upd_apply) simp
    next
      case False
      then show ?thesis using Cons.IH [of "m(k y \<mapsto> v y)"] Cons.prems by simp
    qed
  qed simp
qed

lemma fold_max_upper: "(b :: nat) \<le> fold (\<lambda>x. max (f x)) xs b" "x \<in> set xs \<Longrightarrow> f x \<le> fold (\<lambda>x. max (f x)) xs b"
proof -
  have low: "(b :: nat) \<le> fold (\<lambda>x. max (f x)) xs b" for b xs
    by (induction xs arbitrary: b) (auto intro: order_trans [OF max.cobounded2])
  then show "b \<le> fold (\<lambda>x. max (f x)) xs b" .
  show "x \<in> set xs \<Longrightarrow> f x \<le> fold (\<lambda>x. max (f x)) xs b"
  proof (induction xs arbitrary: b)
    case (Cons y ys)
    show ?case
    proof (cases "x = y")
      case True
      have "f y \<le> max (f y) b" by simp
      also have "\<dots> \<le> fold (\<lambda>x. max (f x)) ys (max (f y) b)" by (rule low)
      finally show ?thesis using True by simp
    next
      case False
      then show ?thesis using Cons.IH [of "max (f y) b"] Cons.prems by simp
    qed
  qed simp
qed

text \<open>What a successful call has planned and written.\<close>

lemma generation_Ok:
  assumes "ensure_rebuild_schedule_generation G J run network candidate rng db = Some (Ok (Some g), db')" "rng_contract G"
  obtains policy r base s fresh highest db2 where
    "timing_policy_for_run_with_conn db run = Ok policy" "find_run db run = Some r"
    "gen_origin_height g = (case run_recovery_origin r of Some o1 \<Rightarrow> o1 | None \<Rightarrow> candidate)"
    "foldM (scan_row (candidate - gen_origin_height g)) empty_scan (resign_rows db run) = Ok s"
    "scan_max s \<le> base" "candidate - gen_origin_height g \<le> base"
    "length fresh = length (scan_to_assign s)"
    "accumulate (assign_offset run base) (base, scan_offsets s) (zip (scan_to_assign s) fresh) (ensure_tables db)
      = (Ok (highest, gen_offsets_by_txid g), db2)"
    "db' = update_runs (\<lambda>r. run_key r = run) (\<lambda>r. r\<lparr>run_recovery_origin := Some (gen_origin_height g),
       run_recovery_max_offset := Some highest\<rparr>) db2"
proof -
  let ?db = "ensure_tables db"
  have rows: "resign_rows ?db run = resign_rows db run" by (simp add: resign_rows_def)
  from assms(1) have ne: "resign_rows db run \<noteq> []"
    by (auto simp: ensure_rebuild_schedule_generation_def Let_def rows)
  obtain plan where plan: "plan_generation J ?db run candidate = Ok plan"
    using assms(1) ne by (cases "plan_generation J ?db run candidate")
      (auto simp: ensure_rebuild_schedule_generation_def Let_def rows)
  obtain policy r origin base s where p: "plan = (policy, r, origin, base, s)" by (metis surj_pair)
  obtain fresh_result where fr: "fresh_rebuild_offsets G J r s network policy rng = Some fresh_result" and
    run: "atomically (andthen (lift_outcome fresh_result) (assign_generation run origin base s)) ?db = (Ok (Some g), db')"
    using assms(1) ne plan p by (auto simp: ensure_rebuild_schedule_generation_def Let_def rows)
  from run obtain fresh where fresh: "fresh_result = Ok fresh" and
    gen: "assign_generation run origin base s fresh ?db = (Ok (Some g), db')"
    by (auto simp: atomically_Ok andthen_lift_Ok)
  from gen obtain highest offsets db2 where
    acc: "accumulate (assign_offset run base) (base, scan_offsets s) (zip (scan_to_assign s) fresh) ?db = (Ok (highest, offsets), db2)" and
    persist: "persist_generation run origin highest db2 = (Ok (), db')" and
    g: "g = \<lparr>gen_origin_height = origin, gen_offsets_by_txid = offsets\<rparr>"
    by (auto simp: assign_generation_def andthen_Ok run_basic case_prod_beta)
  have len: "length fresh = length (scan_to_assign s)"
  proof (cases "scan_to_assign s = []")
    case True
    then show ?thesis using fr fresh by (simp add: fresh_rebuild_offsets_def)
  next
    case False
    then obtain schedule targets where
      "map_option (map_err PartScheduleFailed) (rebuild_schedule_block_offsets G schedule targets
         (map (\<lambda>(txid, part, v, previous). (part, v)) (scan_to_assign s)) network policy rng) = Some (Ok fresh)"
      using fr fresh by (auto simp: fresh_rebuild_offsets_def split: option.splits)
    then have "rebuild_schedule_block_offsets G schedule targets
         (map (\<lambda>(txid, part, v, previous). (part, v)) (scan_to_assign s)) network policy rng = Some (Ok fresh)"
      by (auto simp: outcome_simps)
    from rebuild_offsets_ladder [OF assms(2) this] show ?thesis by simp
  qed
  from plan p have policy: "timing_policy_for_run_with_conn db run = Ok policy" and r: "find_run db run = Some r" and
    origin: "origin = (case run_recovery_origin r of Some o1 \<Rightarrow> o1 | None \<Rightarrow> candidate)" and
    s: "foldM (scan_row (candidate - origin)) empty_scan (resign_rows db run) = Ok s" and
    base: "rebuild_base (run_recovery_origin r) (run_recovery_max_offset r) s (candidate - origin) = Ok base"
    by (auto simp: plan_generation_def outcome_simps Let_def rows read_run_def timing_policy_for_run_with_conn_def saturating_sub_def)
  have "scan_max s \<le> base" "candidate - origin \<le> base"
    using base by (auto simp: rebuild_base_def outcome_simps split: if_splits option.splits)
  then show thesis
    using that [of policy r s base fresh highest db2] policy r origin s len acc persist_generation_Ok [OF persist] by (simp add: g)
qed

text \<open>The assignment, part by part: a stale part gets a fresh offset above the base, the others keep theirs.\<close>

lemma offsets_assigned:
  fixes items :: "((string \<times> u32 \<times> u64 \<times> u32 option) \<times> u32) list"
  assumes s: "foldM (scan_row elapsed) empty_scan (resign_rows db run) = Ok s" and ok: "parts_ok seen lost db"
    and len: "length fresh = length (scan_to_assign s)" and p: "p \<in> set (resign_rows db run)"
    and low: "scan_max s \<le> base" "elapsed \<le> base"
  defines "items \<equiv> zip (scan_to_assign s) fresh"
  defines "given \<equiv> map_of (map (\<lambda>x. (fst (fst x), base + snd x)) items)"
  defines "offsets \<equiv> fold (\<lambda>x m. m(to_ascii_lowercase (fst (fst x)) \<mapsto> base + snd x)) items (scan_offsets s)"
  defines "highest \<equiv> fold (\<lambda>x. max (base + snd x)) items base"
  shows "\<exists>o1. pend_rebuild_offset (with_offset given run p) = Some o1 \<and> elapsed \<le> o1 \<and> o1 \<le> highest \<and>
      offsets (lower_key p) = Some o1"
    "\<not> stale elapsed p \<Longrightarrow> with_offset given run p = p"
proof -
  note scanned = scan_rows_Ok [OF s]
  let ?rows = "resign_rows db run"
  have firsts: "map (fst \<circ> fst) items = map pend_txid (filter (stale elapsed) ?rows)"
  proof -
    have "map (fst \<circ> fst) items = map fst (map fst items)" by (simp only: map_map)
    also have "\<dots> = map fst (scan_to_assign s)" by (simp only: items_def map_fst_zip [OF len [symmetric]])
    also have "\<dots> = map pend_txid (filter (stale elapsed) ?rows)" using scanned by (simp add: empty_scan_def comp_def)
    finally show ?thesis .
  qed
  have lowers: "map (\<lambda>x. to_ascii_lowercase (fst (fst x))) items = map lower_key (filter (stale elapsed) ?rows)"
    using arg_cong [OF firsts, of "map to_ascii_lowercase"] by (simp add: comp_def lower_key_def)
  have d1: "distinct (map (fst \<circ> fst) items)" unfolding firsts
    by (rule distinct_map_filter [OF distinct_resign(2) [OF ok]])
  have d2: "distinct (map (\<lambda>x. to_ascii_lowercase (fst (fst x))) items)" unfolding lowers
    by (rule distinct_map_filter [OF distinct_resign(1) [OF ok]])
  have dom: "dom given = pend_txid ` set (filter (stale elapsed) ?rows)"
    using arg_cong [OF firsts, of set] by (simp add: given_def dom_map_of_conv_image_fst image_image comp_def)
  have same: "q = p" if "q \<in> set ?rows" "pend_txid q = pend_txid p" for q
    using that p distinct_resign(2) [OF ok, of run] by (metis distinct_map inj_onD)
  have waits: "waiting run p" using p by simp
  show keeps: "with_offset given run p = p" if "\<not> stale elapsed p"
  proof -
    have "pend_txid p \<notin> dom given" unfolding dom using same that by force
    then show ?thesis by (simp add: with_offset_def)
  qed
  show "\<exists>o1. pend_rebuild_offset (with_offset given run p) = Some o1 \<and> elapsed \<le> o1 \<and> o1 \<le> highest \<and> offsets (lower_key p) = Some o1"
  proof (cases "stale elapsed p")
    case True
    then have "pend_txid p \<in> set (map pend_txid (filter (stale elapsed) ?rows))" using p by simp
    then obtain x where x: "x \<in> set items" "fst (fst x) = pend_txid p"
      unfolding firsts [symmetric] by auto
    have "given (pend_txid p) = Some (base + snd x)"
      unfolding given_def using x d1 by (intro map_of_is_SomeI) (auto simp: comp_def intro: image_eqI [of _ _ x])
    then have "pend_rebuild_offset (with_offset given run p) = Some (base + snd x)"
      using waits by (simp add: with_offset_def domIff)
    moreover have "offsets (lower_key p) = Some (base + snd x)"
      using fold_upd(1) [of x items "\<lambda>x. to_ascii_lowercase (fst (fst x))" "\<lambda>x. base + snd x" "scan_offsets s"] x d2
      by (simp add: offsets_def lower_key_def)
    moreover have "base + snd x \<le> highest"
      unfolding highest_def by (rule fold_max_upper(2) [OF x(1), of "\<lambda>x. base + snd x"])
    ultimately show ?thesis using low(2) by auto
  next
    case False
    then obtain o1 where o1: "pend_rebuild_offset p = Some o1" "elapsed \<le> o1"
      by (auto simp: stale_def split: option.splits)
    have "o1 \<le> highest"
    proof -
      have "o1 \<le> scan_max s" using scanned p o1(1) by blast
      also have "\<dots> \<le> base" by (rule low(1))
      also have "\<dots> \<le> highest" unfolding highest_def by (rule fold_max_upper(1))
      finally show ?thesis .
    qed
    moreover have "lower_key p \<notin> (\<lambda>x. to_ascii_lowercase (fst (fst x))) ` set items"
    proof
      assume "lower_key p \<in> (\<lambda>x. to_ascii_lowercase (fst (fst x))) ` set items"
      then have "lower_key p \<in> lower_key ` set (filter (stale elapsed) ?rows)"
        unfolding set_map [symmetric] lowers .
      then obtain q where "q \<in> set ?rows" "stale elapsed q" "lower_key p = lower_key q" by auto
      moreover have "q = p" using calculation p distinct_resign(1) [OF ok, of run] by (metis distinct_map inj_onD)
      ultimately show False using False by simp
    qed
    then have "offsets (lower_key p) = scan_offsets s (lower_key p)" unfolding offsets_def by (rule fold_upd(2))
    moreover have "scan_offsets s (lower_key p) = Some o1"
      using kept_offsets [OF distinct_resign(1) [OF ok] p, of elapsed Map.empty] scanned False o1 by (simp add: empty_scan_def)
    ultimately show ?thesis using keeps [OF False] o1 by auto
  qed
qed

text \<open>What is found again after a successful call.\<close>

lemma generation_is_saved:
  assumes "ensure_rebuild_schedule_generation G J run network candidate rng db = Some (Ok (Some g), db')" "rng_contract G"
    "parts_ok seen lost db" "unique_runs db"
  shows "generation_saved run candidate g db' \<and> parts_ok seen lost db' \<and> unique_runs db' \<and> resign_rows db' run \<noteq> [] \<and>
    (\<exists>policy. timing_policy_for_run_with_conn db' run = Ok policy) \<and>
    (\<forall>p \<in> set (pending_rows db). \<not> (waiting run p \<and> stale (candidate - gen_origin_height g) p) \<longrightarrow>
       p \<in> set (pending_rows db'))"
proof -
  let ?elapsed = "candidate - gen_origin_height g"
  let ?rows = "resign_rows db run"
  obtain policy r base s fresh highest db2 where
    policy: "timing_policy_for_run_with_conn db run = Ok policy" and r: "find_run db run = Some r" and
    s: "foldM (scan_row ?elapsed) empty_scan ?rows = Ok s" and
    base: "scan_max s \<le> base" "?elapsed \<le> base" and len: "length fresh = length (scan_to_assign s)" and
    acc: "accumulate (assign_offset run base) (base, scan_offsets s) (zip (scan_to_assign s) fresh) (ensure_tables db)
      = (Ok (highest, gen_offsets_by_txid g), db2)" and
    db': "db' = update_runs (\<lambda>r. run_key r = run) (\<lambda>r. r\<lparr>run_recovery_origin := Some (gen_origin_height g),
       run_recovery_max_offset := Some highest\<rparr>) db2"
    by (rule generation_Ok [OF assms(1,2)])
  have ne: "?rows \<noteq> []" using assms(1)
    by (auto simp: ensure_rebuild_schedule_generation_def Let_def resign_rows_def parts_of_def)
  note scanned = scan_rows_Ok [OF s]
  define items where "items = zip (scan_to_assign s) fresh"
  define given where "given = map_of (map (\<lambda>x. (fst (fst x), base + snd x)) items)"
  have firsts: "map fst items = scan_to_assign s" by (simp only: items_def map_fst_zip [OF len [symmetric]])
  have listed: "fst ` set items = (\<lambda>p. (pend_txid p, the (pend_part_index p), pend_value p, pend_rebuild_offset p)) `
      set (filter (stale ?elapsed) ?rows)"
    using arg_cong [OF firsts, of set] scanned by (simp add: empty_scan_def)
  have item_rows: "\<exists>p \<in> set (filter (stale ?elapsed) ?rows). pend_txid p = fst (fst x)" if "x \<in> set items" for x
  proof -
    have "fst x \<in> fst ` set items" using that by (rule imageI)
    then show ?thesis unfolding listed by (auto intro: rev_bexI)
  qed
  have stale_items: "lower_key p \<in> (\<lambda>x. to_ascii_lowercase (fst (fst x))) ` set items"
    if "p \<in> set (filter (stale ?elapsed) ?rows)" for p
  proof -
    have "(pend_txid p, the (pend_part_index p), pend_value p, pend_rebuild_offset p) \<in> fst ` set items"
      unfolding listed using that by (rule imageI)
    then obtain x where "x \<in> set items" "fst (fst x) = pend_txid p" by (metis imageE fst_conv)
    then show ?thesis by (intro image_eqI [of _ _ x]) (simp_all add: lower_key_def)
  qed
  have "map (fst \<circ> fst) items = map pend_txid (filter (stale ?elapsed) ?rows)"
  proof -
    have "map (fst \<circ> fst) items = map fst (map fst items)" by (simp only: map_map)
    then show ?thesis using firsts scanned by (simp add: empty_scan_def comp_def)
  qed
  then have d: "distinct (map (fst \<circ> fst) items)"
    using distinct_map_filter [OF distinct_resign(2) [OF assms(3), of run], of "stale ?elapsed"] by simp
  have old: "\<forall>x \<in> set items. \<exists>p \<in> set (pending_rows (ensure_tables db)). waiting run p \<and> pend_txid p = fst (fst x)"
    using item_rows by fastforce
  have uniq: "unique_txids (ensure_tables db)" using assms(3) by (simp add: parts_ok_def unique_txids_def)
  note effect = assign_offsets_Ok [OF acc [folded items_def] uniq d old, folded given_def]
  have rows': "pending_rows db' = map (with_offset given run) (pending_rows db)" using effect by (simp add: db')
  have offsets: "gen_offsets_by_txid g =
      fold (\<lambda>x m. m(to_ascii_lowercase (fst (fst x)) \<mapsto> base + snd x)) items (scan_offsets s)" and
    highest: "highest = fold (\<lambda>x. max (base + snd x)) items base" using effect by simp_all
  have part: "\<exists>o1. pend_rebuild_offset (with_offset given run p) = Some o1 \<and> ?elapsed \<le> o1 \<and> o1 \<le> highest \<and>
      gen_offsets_by_txid g (lower_key p) = Some o1" "\<not> stale ?elapsed p \<Longrightarrow> with_offset given run p = p"
    if "p \<in> set ?rows" for p
    using offsets_assigned [OF s assms(3) len that base] unfolding given_def items_def offsets highest by blast+
  have runs: "run_rows db' = map (\<lambda>q. if run_key q = run then q\<lparr>run_recovery_origin := Some (gen_origin_height g),
       run_recovery_max_offset := Some highest\<rparr> else q) (run_rows db)" using effect by (simp add: db')
  have found: "find_run db' run = Some (r\<lparr>run_recovery_origin := Some (gen_origin_height g),
       run_recovery_max_offset := Some highest\<rparr>)"
  proof -
    have "run_key r = run" using r by (auto simp: find_run_def find_Some_iff)
    moreover have "find_run db' run = map_option (\<lambda>q. if run_key q = run
        then q\<lparr>run_recovery_origin := Some (gen_origin_height g), run_recovery_max_offset := Some highest\<rparr> else q)
        (find_run db run)" unfolding find_run_def runs by (rule find_keyed_map) simp
    ultimately show ?thesis using r by simp
  qed
  have waits: "\<exists>p0 \<in> set ?rows. p = with_offset given run p0" if "p \<in> set (pending_rows db')" "waiting run p" for p
    using that unfolding rows' by auto
  have saved: "generation_saved run candidate g db'"
    unfolding generation_saved_def
  proof (intro exI conjI)
    show "find_run db' run = Some (r\<lparr>run_recovery_origin := Some (gen_origin_height g), run_recovery_max_offset := Some highest\<rparr>)"
      by (rule found)
    have "?elapsed \<le> base" by (rule base(2))
    also have "base \<le> highest" unfolding highest by (rule fold_max_upper(1))
    finally show "?elapsed \<le> highest" .
    show "\<forall>p \<in> set (pending_rows db'). waiting run p \<longrightarrow> pend_part_index p \<noteq> None \<and> (\<exists>o1. pend_rebuild_offset p = Some o1 \<and>
       ?elapsed \<le> o1 \<and> o1 \<le> highest)"
    proof (intro ballI impI)
      fix p assume "p \<in> set (pending_rows db')" "waiting run p"
      then obtain p0 where p0: "p0 \<in> set ?rows" "p = with_offset given run p0" using waits by blast
      then have "pend_part_index p0 \<noteq> None" using scanned by blast
      then show "pend_part_index p \<noteq> None \<and> (\<exists>o1. pend_rebuild_offset p = Some o1 \<and> ?elapsed \<le> o1 \<and> o1 \<le> highest)"
        using part(1) [OF p0(1)] p0(2) by auto
    qed
    show "\<forall>p \<in> set (pending_rows db'). waiting run p \<longrightarrow> gen_offsets_by_txid g (lower_key p) = pend_rebuild_offset p"
    proof (intro ballI impI)
      fix p assume "p \<in> set (pending_rows db')" "waiting run p"
      then obtain p0 where p0: "p0 \<in> set ?rows" "p = with_offset given run p0" using waits by blast
      show "gen_offsets_by_txid g (lower_key p) = pend_rebuild_offset p" using part(1) [OF p0(1)] p0(2) by auto
    qed
    have image: "lower_key ` {p \<in> set (pending_rows db'). waiting run p} = lower_key ` set ?rows"
    proof (intro equalityI subsetI)
      fix t assume "t \<in> lower_key ` {p \<in> set (pending_rows db'). waiting run p}"
      then obtain p where "p \<in> set (pending_rows db')" "waiting run p" "t = lower_key p" by blast
      then obtain p0 where p0: "p0 \<in> set ?rows" "t = lower_key (with_offset given run p0)" using waits by blast
      then show "t \<in> lower_key ` set ?rows" by (simp only: with_offset_simps imageI)
    next
      fix t assume "t \<in> lower_key ` set ?rows"
      then obtain p where "p \<in> set (pending_rows db)" "waiting run p" "t = lower_key p" by auto
      then show "t \<in> lower_key ` {p \<in> set (pending_rows db'). waiting run p}"
        unfolding rows' by (intro image_eqI [of _ _ "with_offset given run p"]) simp_all
    qed
    have outside: "gen_offsets_by_txid g t = None" if "t \<notin> lower_key ` set ?rows" for t
    proof -
      have "t \<notin> (\<lambda>x. to_ascii_lowercase (fst (fst x))) ` set items"
      proof
        assume "t \<in> (\<lambda>x. to_ascii_lowercase (fst (fst x))) ` set items"
        then obtain x where x: "x \<in> set items" "t = to_ascii_lowercase (fst (fst x))" by blast
        from item_rows [OF x(1)] obtain p where "p \<in> set ?rows" "pend_txid p = fst (fst x)" by auto
        then have "t = lower_key p" "p \<in> set ?rows" using x(2) by (simp_all add: lower_key_def)
        then show False using that by blast
      qed
      then have "gen_offsets_by_txid g t = scan_offsets s t" unfolding offsets by (rule fold_upd(2))
      then show ?thesis using unkept_offsets [OF that, of ?elapsed Map.empty] scanned by (simp add: empty_scan_def)
    qed
    have inside: "gen_offsets_by_txid g t \<noteq> None" if "t \<in> lower_key ` set ?rows" for t
    proof -
      from that obtain p where p: "p \<in> set ?rows" "t = lower_key p" by blast
      from part(1) [OF p(1)] p(2) show ?thesis by auto
    qed
    show "dom (gen_offsets_by_txid g) = lower_key ` {p \<in> set (pending_rows db'). waiting run p}"
      unfolding image
    proof (rule set_eqI)
      fix t
      show "t \<in> dom (gen_offsets_by_txid g) \<longleftrightarrow> t \<in> lower_key ` set ?rows"
        unfolding domIff using outside [of t] inside [of t] by satx
    qed
  qed simp_all
  have ok: "parts_ok seen lost db'" by (rule keeps_generation [OF assms(1,3)])
  have runs_ok: "unique_runs db'"
  proof -
    have "map run_key (run_rows db') = map run_key (run_rows db)" unfolding runs by simp
    then show ?thesis using assms(4) by (simp only: unique_runs_def)
  qed
  have ne': "resign_rows db' run \<noteq> []"
  proof -
    from ne obtain p where "p \<in> set ?rows" using list.set_sel(1) by blast
    then have "with_offset given run p \<in> set (resign_rows db' run)" unfolding set_resign_rows rows' by simp
    then show ?thesis by (auto simp del: set_resign_rows)
  qed
  have policy': "\<exists>policy. timing_policy_for_run_with_conn db' run = Ok policy"
    using policy r found by (simp add: timing_policy_for_run_with_conn_def read_run_def ok_or_def)
  have kept: "p \<in> set (pending_rows db')"
    if "p \<in> set (pending_rows db)" "\<not> (waiting run p \<and> stale ?elapsed p)" for p
  proof -
    have "with_offset given run p = p"
    proof (cases "waiting run p")
      case True
      then show ?thesis using that part(2) [of p] by simp
    next
      case False
      then show ?thesis by (simp add: with_offset_def)
    qed
    then show ?thesis using that(1) unfolding rows' by (metis image_eqI set_map)
  qed
  show ?thesis using saved ok runs_ok ne' policy' kept by blast
qed

section \<open>Replacement\<close>

text \<open>What a part migrates: its denomination and the note it spends.\<close>

definition migrates :: "pending_row \<Rightarrow> u64 \<times> string \<times> u32" where
  "migrates p = (pend_value p, to_ascii_lowercase (pend_note_txid p), pend_note_index p)"

lemma replace_part_Ok:
  assumes "replace_part env J start_ms run key origin tip draw (old, p) db = (Ok draw', db')"
  obtains original row start where "original \<in> set (pending_rows db)" "is_part run old original"
    "pend_status original = ''needs_resign''" "check_replacement db run origin old p = Ok (original, start)"
    "pending_rows db' = filter (\<lambda>q. \<not> is_part run old q) (pending_rows db) @ [row]"
    "pend_run_id row = run" "pend_txid row = pin_txid_hex p" "migrates row = migrates original"
    "pend_status row = ''scheduled''" "run_rows db' = run_rows db" "note_rows db' = note_rows db"
    "canonical_expiry (pend_scheduled_height row) = Ok (pend_expiry_height row)"
proof -
  from assms obtain x where x: "check_replacement db run origin old p = Ok x" and
    body: "(case x of (original, start) \<Rightarrow>
     andthen (lift_outcome (map_err PartPayloadFailed (payload_key_encrypt env draw key (pin_raw_tx p)))) (\<lambda>raw.
     andthen (lift_outcome (ok_or (checked_add i64_max start_ms
                (saturating_sub (pin_scheduled_height p) tip * 1000)) ReplacementTimeOverflow)) (\<lambda>at.
     andthen (modify (delete_part run old)) (\<lambda>_.
     andthen (statement InsertPartFailed (insert_part_row
        ((pending_row_of J run raw at p start)\<lparr>pend_original_height := pend_original_height original\<rparr>))) (\<lambda>_.
       yield (draw + 1)))))) db = (Ok draw', db')"
    unfolding replace_part_def prod.case run_basic(3) andthen_lift_Ok by blast
  obtain original start where pair: "x = (original, start)" by (cases x)
  note check = x [unfolded pair]
  from body obtain raw at where ins: "andthen (modify (delete_part run old)) (\<lambda>_.
      andthen (statement InsertPartFailed (insert_part_row
        ((pending_row_of J run raw at p start)\<lparr>pend_original_height := pend_original_height original\<rparr>))) (\<lambda>_.
       yield (draw + 1))) db = (Ok draw', db')"
    unfolding pair prod.case andthen_lift_Ok by blast
  let ?row = "(pending_row_of J run raw at p start)\<lparr>pend_original_height := pend_original_height original\<rparr>"
  have found: "List.find (\<lambda>q. is_part run old q \<and> pend_status q = ''needs_resign'') (pending_rows db) = Some original"
    and same: "migrates ?row = migrates original"
    and expiry: "canonical_expiry (pin_scheduled_height p) = Ok (pin_expiry_height p)"
    using check by (auto simp: check_replacement_def outcome_simps migrates_def pending_row_of_def split: if_splits)
  have db': "db' = (delete_part run old db)\<lparr>pending_rows := pending_rows (delete_part run old db) @ [?row]\<rparr>"
    using ins by (auto simp: andthen_lift andthen_def statement_def insert_part_row_def run_basic
        split: option.splits if_splits)
  have "original \<in> set (pending_rows db)" "is_part run old original" "pend_status original = ''needs_resign''"
    using found by (auto simp: find_Some_iff)
  then show thesis
    by (rule that [OF _ _ _ check, of ?row])
      (simp_all add: db' delete_part_def same, simp_all add: pending_row_of_def expiry)
qed

lemma replaced_migrates:
  assumes "accumulate (replace_part env J start_ms run key origin tip) draw items db = (Ok draw', db')"
    "parts_ok seen lost db" "\<forall>x \<in> set items. to_ascii_lowercase (pin_txid_hex (snd x)) = pin_txid_hex (snd x)"
  shows "image_mset migrates (mset (parts_of db' run)) = image_mset migrates (mset (parts_of db run)) \<and>
    (\<forall>other. other \<noteq> run \<longrightarrow> parts_of db' other = parts_of db other) \<and> run_rows db' = run_rows db \<and>
    note_rows db' = note_rows db"
  using assms
proof (induction items arbitrary: draw db)
  case (Cons x items)
  obtain old p where x: "x = (old, p)" by (cases x)
  from Cons.prems(1) obtain draw1 db1 where
    one: "replace_part env J start_ms run key origin tip draw (old, p) db = (Ok draw1, db1)" and
    rest: "accumulate (replace_part env J start_ms run key origin tip) draw1 items db1 = (Ok draw', db')"
    by (auto simp: andthen_Ok x)
  obtain original row where
    original: "original \<in> set (pending_rows db)" "is_part run old original" and
    rows: "pending_rows db1 = filter (\<lambda>q. \<not> is_part run old q) (pending_rows db) @ [row]" and
    row: "pend_run_id row = run" "migrates row = migrates original" and
    same: "run_rows db1 = run_rows db" "note_rows db1 = note_rows db"
    by (rule replace_part_Ok [OF one]) (rule that)
  have ok: "parts_ok seen lost db1"
    using withinD [OF keeps_replace_part one] Cons.prems(2,3) by (simp add: keeps_def x)
  have only: "filter (\<lambda>q. is_part run old q) (pending_rows db) = [original]"
  proof (rule filter_single)
    show "distinct (pending_rows db)" "original \<in> set (pending_rows db)"
      using Cons.prems(2) original by (auto simp: parts_ok_def unique_txids_def distinct_map)
    show "is_part run old q = (q = original)" if "q \<in> set (pending_rows db)" for q
      using same_part [of db q original] Cons.prems(2) original that by (auto simp: parts_ok_def is_part_def)
  qed
  have split: "mset (parts_of db run) = mset (filter (\<lambda>q. \<not> is_part run old q) (parts_of db run)) + {#original#}"
  proof -
    have "mset (parts_of db run) = mset (filter (\<lambda>q. \<not> is_part run old q) (parts_of db run)) +
        mset (filter (\<lambda>q. is_part run old q) (parts_of db run))"
      using multiset_partition [of "mset (parts_of db run)" "\<lambda>q. \<not> is_part run old q"] by (simp only: mset_filter not_not)
    moreover have "filter (\<lambda>q. is_part run old q) (parts_of db run) = filter (\<lambda>q. is_part run old q) (pending_rows db)"
      by (auto simp: parts_of_def is_part_def intro: filter_cong)
    ultimately show ?thesis using only by simp
  qed
  have parts: "parts_of db1 run = filter (\<lambda>q. \<not> is_part run old q) (parts_of db run) @ [row]"
    using row(1) by (simp add: parts_of_def rows conj_commute)
  have "image_mset migrates (mset (parts_of db1 run)) = image_mset migrates (mset (parts_of db run))"
    unfolding parts split using row(2) by simp
  moreover have "parts_of db1 other = parts_of db other" if "other \<noteq> run" for other
    using that row(1) by (auto simp: parts_of_def rows is_part_def intro: filter_cong)
  ultimately show ?case using Cons.IH [OF rest ok] Cons.prems(3) same by simp
qed simp

lemma signed_children_leave:
  "within (keeps (\<lambda>db. pending_rows db = ps \<and> note_rows db = ns))
     (insert_signed_child_pczts_with_tx env J draw run children password salt64 mode)"
proof -
  have stored: "within (keeps (\<lambda>db. pending_rows db = ps \<and> note_rows db = ns)) (statement e (replace_signed_row c))" for e c
    by (auto simp: within_def keeps_def statement_def replace_signed_row_def)
  have saved: "keeps (\<lambda>db. pending_rows db = ps \<and> note_rows db = ns) db (save_signed_origin run o1 db)" for db o1
    by (simp add: keeps_def save_signed_origin_def)
  have "within (keeps (\<lambda>db. pending_rows db = ps \<and> note_rows db = ns))
      (insert_signed_child env J run key mode schedule targets recovery acc child)"
    for key schedule targets recovery acc child
    unfolding insert_signed_child_def case_prod_beta by (intro keeping.within_intros stored)
  then show ?thesis
    unfolding insert_signed_child_pczts_with_tx_def case_prod_beta
    by (intro keeping.within_intros keeping.within_modify saved)
qed

text \<open>The replacements are taken in the order of the schedule, and all of them are taken.\<close>

lemma set_swap_remove: "i < length xs \<Longrightarrow> set (swap_remove i xs) \<subseteq> set xs"
proof -
  assume i: "i < length xs"
  then have "xs \<noteq> []" by auto
  then have "set (butlast xs) \<subseteq> set xs" "last xs \<in> set xs" by (auto dest: in_set_butlastD)
  then show ?thesis using set_update_subset_insert [of "butlast xs" i "last xs"] by (auto simp: swap_remove_def)
qed

lemma position_less: "position P xs = Some i \<Longrightarrow> i < length xs"
  by (induction xs arbitrary: i) (auto split: if_splits)

lemma ordered_subset:
  "order_replacements entries left done = (ordered, rest) \<Longrightarrow> set ordered \<subseteq> set left \<union> set done"
proof (induction entries left "done" rule: order_replacements.induct)
  case (2 e entries left "done")
  show ?case
  proof (cases "position (entry_matches e) left")
    case None
    then show ?thesis using 2 by simp
  next
    case (Some i)
    note i = position_less [OF Some]
    have "set ordered \<subseteq> set (swap_remove i left) \<union> set (done @ [left ! i])"
      using 2(2) [OF Some] 2(3) Some by simp
    also have "\<dots> \<subseteq> set left \<union> set done" using set_swap_remove [OF i] nth_mem [OF i] by auto
    finally show ?thesis .
  qed
qed simp

lemma replace_migrates:
  assumes "replace_resigned_pending_parts env J clock draw run tip replacements children password salt64 db = (Ok (), db')"
    "parts_ok seen lost db" "\<forall>x \<in> set replacements. to_ascii_lowercase (pin_txid_hex (snd x)) = pin_txid_hex (snd x)"
  shows "image_mset migrates (mset (parts_of db' run)) = image_mset migrates (mset (parts_of db run)) \<and>
    (\<forall>other. other \<noteq> run \<longrightarrow> parts_of db' other = parts_of db other) \<and> note_rows db' = note_rows db \<and>
    (replacements \<noteq> [] \<longrightarrow> (\<forall>r \<in> set (run_rows db'). run_key r = run \<longrightarrow> run_phase r = PHASE_BROADCAST_SCHEDULED))"
proof (cases "replacements = []")
  case True
  then show ?thesis using assms(1) by (simp add: replace_resigned_pending_parts_def run_basic)
next
  case False
  have start: "parts_ok seen lost (ensure_tables db)" using assms(2) by (simp add: parts_ok_def unique_txids_def)
  from assms(1) obtain r :: run_row and schedule salt where
    body: "(case order_replacements schedule replacements [] of (ordered, left) \<Rightarrow>
            if left \<noteq> [] then lift_outcome (Err ReplacementMismatch)
            else andthen (accumulate (replace_part env J (clock 0) run (payload_key_new env password salt)
                            (run_recovery_origin r) tip) draw ordered) (\<lambda>draw'.
              andthen (insert_signed_child_pczts_with_tx env J draw' run children password salt64 ReplacementInsert) (\<lambda>_.
                modify (update_runs (\<lambda>r. run_key r = run) (set_phase PHASE_BROADCAST_SCHEDULED (clock 1) None)))))
       (ensure_tables db) = (Ok (), db')"
    unfolding replace_resigned_pending_parts_def opened_def if_not_P [OF False] andthen_lift(5) run_basic(3)
      andthen_lift_Ok atomically_Ok by blast
  obtain ordered left where parts: "order_replacements schedule replacements [] = (ordered, left)" by (metis surj_pair)
  have none: "left = []"
    by (rule ccontr) (use body in \<open>simp add: parts run_basic\<close>)
  have body': "andthen (accumulate (replace_part env J (clock 0) run (payload_key_new env password salt)
                            (run_recovery_origin r) tip) draw ordered) (\<lambda>draw'.
              andthen (insert_signed_child_pczts_with_tx env J draw' run children password salt64 ReplacementInsert) (\<lambda>_.
                modify (update_runs (\<lambda>r. run_key r = run) (set_phase PHASE_BROADCAST_SCHEDULED (clock 1) None))))
       (ensure_tables db) = (Ok (), db')"
    using body by (simp only: parts prod.case none not_True_eq_False if_False simp_thms)
  obtain draw' db1 u db2 where
    all: "accumulate (replace_part env J (clock 0) run (payload_key_new env password salt) (run_recovery_origin r) tip)
        draw ordered (ensure_tables db) = (Ok draw', db1)" and
    signed: "insert_signed_child_pczts_with_tx env J draw' run children password salt64 ReplacementInsert db1 = (Ok u, db2)" and
    db': "db' = update_runs (\<lambda>r. run_key r = run) (set_phase PHASE_BROADCAST_SCHEDULED (clock 1) None) db2"
  proof -
    from body' [unfolded andthen_Ok] obtain draw' db1 u db2 where
      "accumulate (replace_part env J (clock 0) run (payload_key_new env password salt) (run_recovery_origin r) tip)
        draw ordered (ensure_tables db) = (Ok draw', db1)"
      "insert_signed_child_pczts_with_tx env J draw' run children password salt64 ReplacementInsert db1 = (Ok u, db2)"
      "(modify (update_runs (\<lambda>r. run_key r = run) (set_phase PHASE_BROADCAST_SCHEDULED (clock 1) None)) ::
         (migration_db, part_error, unit) action) db2 = (Ok (), db')" by blast
    then show thesis by (intro that [of draw' db1 u db2]) (simp_all add: run_basic)
  qed
  have lower: "\<forall>x \<in> set ordered. to_ascii_lowercase (pin_txid_hex (snd x)) = pin_txid_hex (snd x)"
    using ordered_subset [OF parts] assms(3) by auto
  note replaced = replaced_migrates [OF all start lower]
  have same: "pending_rows db2 = pending_rows db1 \<and> note_rows db2 = note_rows db1"
    using withinD [OF signed_children_leave signed] by (simp add: keeps_def)
  have parts_same: "parts_of db' other = parts_of db1 other" for other using same by (simp add: db' parts_of_def)
  have before: "parts_of (ensure_tables db) other = parts_of db other" for other by (simp add: parts_of_def)
  have phase: "run_phase q = PHASE_BROADCAST_SCHEDULED" if "q \<in> set (run_rows db')" "run_key q = run" for q
  proof -
    from that(1) obtain q0 where q0: "q = (if run_key q0 = run then set_phase PHASE_BROADCAST_SCHEDULED (clock 1) None q0 else q0)"
      unfolding db' update_simps set_map by blast
    show ?thesis
    proof (cases "run_key q0 = run")
      case True
      then show ?thesis by (simp add: q0 set_phase_def)
    next
      case False
      then show ?thesis using q0 that(2) by simp
    qed
  qed
  have unlocked: "note_rows db' = note_rows db" using replaced same by (simp add: db')
  show ?thesis unfolding parts_same using replaced unlocked phase unfolding before by blast
qed

end
