(* ===== verification/ProposalLocks.thy ===== *)
theory ProposalLocks
  imports WalletLocks "HOL-Library.Product_Lexorder"
begin

text \<open>
  \<open>rust/src/wallet/sync/proposal_locks.rs\<close>: the table that remembers which outputs the
  send proposals of a process have locked, and the recovery pass after a restart. The 16 random bytes
  that name a process are the argument \<open>session\<close>; the state is the table with the wallet's lock store.
\<close>

record proposal_row =
  prop_owner :: bytes
  prop_session :: bytes
  prop_txid :: bytes
  prop_pool :: int
  prop_output_index :: nat
  prop_expiry :: nat
  prop_retain :: bool

type_synonym proposal_table = "proposal_row list"

datatype proposal_error =
    UnknownPool int
  | LockRowMissing
  | OwnerLength
  | TxidBytesLength
  | InconsistentMetadata
  | ProposalReadFailed
  | ProposalLockFailed lock_error

definition pool_code :: "pool_type \<Rightarrow> int" where
  "pool_code pool = (case pool of Transparent \<Rightarrow> 0 | Sapling \<Rightarrow> 2 | OrchardPool \<Rightarrow> 3 | IronwoodPool \<Rightarrow> 4)"

definition pool_from_code :: "int \<Rightarrow> (proposal_error, pool_type) outcome" where
  "pool_from_code code =
     (if code = 0 then Ok Transparent
      else if code = 2 then Ok Sapling
      else if code = 3 then Ok OrchardPool
      else if code = 4 then Ok IronwoodPool
      else Err (UnknownPool code))"

definition row_key :: "proposal_row \<Rightarrow> bytes \<times> bytes \<times> int \<times> nat" where
  "row_key r = (prop_owner r, prop_txid r, prop_pool r, prop_output_index r)"

text \<open>\<open>INSERT OR REPLACE\<close>.\<close>

definition put_row :: "proposal_row \<Rightarrow> proposal_table \<Rightarrow> proposal_table" where
  "put_row r rows = filter (\<lambda>q. row_key q \<noteq> row_key r) rows @ [r]"

definition proposal_row_of :: "bytes \<Rightarrow> lock_owner \<Rightarrow> u32 \<Rightarrow> output_ref \<Rightarrow> proposal_row" where
  "proposal_row_of session owner expiry_height output =
     \<lparr>prop_owner = owner, prop_session = session, prop_txid = oref_txid output,
      prop_pool = pool_code (oref_pool output), prop_output_index = oref_index output,
      prop_expiry = expiry_height, prop_retain = False\<rparr>"

definition persist ::
  "bytes \<Rightarrow> lock_owner \<Rightarrow> output_ref list \<Rightarrow> u32 \<Rightarrow> (proposal_table, proposal_error, unit) action" where
  "persist session owner outputs expiry_height =
     atomically (for_each (\<lambda>output. modify (put_row (proposal_row_of session owner expiry_height output))) outputs)"

definition remove_rows :: "lock_owner \<Rightarrow> proposal_table \<Rightarrow> proposal_table" where
  "remove_rows owner rows = filter (\<lambda>r. prop_owner r \<noteq> owner) rows"

definition remove_locks :: "lock_owner \<Rightarrow> (proposal_table, proposal_error, unit) action" where
  "remove_locks owner = modify (remove_rows owner)"

definition update_owner ::
  "lock_owner \<Rightarrow> (proposal_row \<Rightarrow> proposal_row) \<Rightarrow> (proposal_table, proposal_error, unit) action" where
  "update_owner owner f rows =
     (if list_ex (\<lambda>r. prop_owner r = owner) rows then Ok () else Err LockRowMissing,
      map (\<lambda>r. if prop_owner r = owner then f r else r) rows)"

definition mark_retain_until_expiry :: "lock_owner \<Rightarrow> (proposal_table, proposal_error, unit) action" where
  "mark_retain_until_expiry owner = update_owner owner (\<lambda>r. r\<lparr>prop_retain := True\<rparr>)"

definition update_expiry :: "lock_owner \<Rightarrow> u32 \<Rightarrow> (proposal_table, proposal_error, unit) action" where
  "update_expiry owner expiry_height = update_owner owner (\<lambda>r. r\<lparr>prop_expiry := expiry_height\<rparr>)"

section \<open>Recovery after a restart\<close>

record orphan_lock =
  orphan_owner :: lock_owner
  orphan_expiry :: u32
  orphan_retain :: bool
  orphan_outputs :: "output_ref list"

text \<open>
  \<open>ORDER BY owner, txid, pool, output_index\<close>. A blob is compared by its bytes, as unsigned numbers.
\<close>

definition blob_key :: "bytes \<Rightarrow> nat list" where "blob_key bs = map unat bs"

definition orphan_rows :: "bytes \<Rightarrow> proposal_table \<Rightarrow> proposal_row list" where
  "orphan_rows session rows =
     sort_key (\<lambda>r. (blob_key (prop_owner r), blob_key (prop_txid r), prop_pool r, prop_output_index r))
       (filter (\<lambda>r. prop_session r \<noteq> session) rows)"

text \<open>One row joins the entry of its owner, which has to agree on the expiry and the retention.\<close>

fun add_output :: "lock_owner \<Rightarrow> u32 \<Rightarrow> bool \<Rightarrow> output_ref \<Rightarrow> orphan_lock list \<Rightarrow> (proposal_error, orphan_lock list) outcome"
where
  "add_output owner expiry retain output [] =
     Ok [\<lparr>orphan_owner = owner, orphan_expiry = expiry, orphan_retain = retain, orphan_outputs = [output]\<rparr>]"
| "add_output owner expiry retain output (l # ls) =
     (if orphan_owner l \<noteq> owner then obind (add_output owner expiry retain output ls) (\<lambda>ls'. Ok (l # ls'))
      else if orphan_expiry l \<noteq> expiry \<or> orphan_retain l \<noteq> retain then Err InconsistentMetadata
      else Ok (l\<lparr>orphan_outputs := orphan_outputs l @ [output]\<rparr> # ls))"

text \<open>The metadata is compared before the pool code is read, as in the source.\<close>

definition metadata_agrees :: "proposal_row \<Rightarrow> orphan_lock list \<Rightarrow> bool" where
  "metadata_agrees r locks \<longleftrightarrow> list_all (\<lambda>l. orphan_owner l = prop_owner r \<longrightarrow>
     orphan_expiry l = prop_expiry r \<and> orphan_retain l = prop_retain r) locks"

definition read_orphan :: "orphan_lock list \<Rightarrow> proposal_row \<Rightarrow> (proposal_error, orphan_lock list) outcome" where
  "read_orphan locks r =
     (if prop_output_index r > u32_max \<or> prop_expiry r > u32_max then Err ProposalReadFailed
      else if length (prop_owner r) \<noteq> 32 then Err OwnerLength
      else if length (prop_txid r) \<noteq> 32 then Err TxidBytesLength
      else if \<not> metadata_agrees r locks then Err InconsistentMetadata
      else obind (pool_from_code (prop_pool r)) (\<lambda>pool.
        add_output (prop_owner r) (prop_expiry r) (prop_retain r)
          \<lparr>oref_txid = prop_txid r, oref_pool = pool, oref_index = prop_output_index r\<rparr> locks))"

definition read_previous_session_locks :: "bytes \<Rightarrow> proposal_table \<Rightarrow> (proposal_error, orphan_lock list) outcome" where
  "read_previous_session_locks session rows = foldM read_orphan [] (orphan_rows session rows)"

definition should_release_after_restart :: "bool \<Rightarrow> u32 option \<Rightarrow> u32 \<Rightarrow> bool" where
  "should_release_after_restart retain_until_expiry target_height expiry_height \<longleftrightarrow>
     \<not> retain_until_expiry \<or> (case target_height of None \<Rightarrow> False | Some height \<Rightarrow> height \<ge> expiry_height)"

definition on_store :: "('w, lock_error, 'a) action \<Rightarrow> (proposal_table \<times> 'w, proposal_error, 'a) action" where
  "on_store m = (\<lambda>(rows, w). case m w of (r, w') \<Rightarrow> (map_err ProposalLockFailed r, (rows, w')))"

definition release_orphan :: "'w lock_env \<Rightarrow> orphan_lock \<Rightarrow> ('w, lock_error, unit) action" where
  "release_orphan E l = for_each (\<lambda>output. unlock_output E output (orphan_owner l)) (orphan_outputs l)"

text \<open>
  The wallet releases the locks one by one; only when all are released are the rows of their
  owners deleted, in one transaction. The entries come in the order of their owners.
\<close>

definition recover_previous_process ::
  "'w lock_env \<Rightarrow> bytes \<Rightarrow> (proposal_table \<times> 'w, proposal_error, unit) action" where
  "recover_previous_process E session = with_state (\<lambda>(rows, w).
     andthen (lift_outcome (read_previous_session_locks session rows)) (\<lambda>locks.
       if locks = [] then yield ()
       else andthen (lift_outcome (map_err ProposalLockFailed (target_height_of E w))) (\<lambda>target.
         let released = filter (\<lambda>l. should_release_after_restart (orphan_retain l) target (orphan_expiry l)) locks in
         andthen (on_store (for_each (release_orphan E) released)) (\<lambda>_.
           modify (\<lambda>(rows, w). (fold (\<lambda>l. remove_rows (orphan_owner l)) released rows, w))))))"

end
