(* ===== verification/LockProps.thy ===== *)
theory LockProps
  imports ProposalLocks PartStop PartConfirmProps
begin

text \<open>
  Proofs about the output locks under the contract of the wallet's lock store: unlocking for one
  owner never touches another owner's lock, the reconciliation of a run leaves the locks its phase
  asks for, and the recovery after a restart releases exactly the locks of the previous processes.
  The contract is interpreted on a store kept as a map from outputs to owners and expiries.
\<close>

section \<open>A store\<close>

type_synonym lock_map = "output_ref \<rightharpoonup> lock_owner \<times> u32"

definition map_lock :: "output_ref list \<Rightarrow> lock_owner \<Rightarrow> u32 \<Rightarrow> (lock_map, lock_error, unit) action" where
  "map_lock rs owner until w =
     (if \<exists>r \<in> set rs. \<exists>other until'. w r = Some (other, until') \<and> other \<noteq> owner then (Err LockFailed, w)
      else (Ok (), \<lambda>r. if r \<in> set rs then Some (owner, until) else w r))"

definition map_unlock :: "output_ref \<Rightarrow> lock_owner \<Rightarrow> (lock_map, lock_error, unit) action" where
  "map_unlock r owner w =
     (Ok (), case w r of Some (other, until) \<Rightarrow> if other = owner then w(r := None) else w | None \<Rightarrow> w)"

definition map_store :: "u32 option \<Rightarrow> (bytes \<Rightarrow> lock_owner) \<Rightarrow> lock_map lock_env" where
  "map_store height hash =
     \<lparr>target_height_of = (\<lambda>w. Ok height), spendable_note = (\<lambda>w txid i target. Ok True),
      lock_outputs = map_lock, unlock_output = map_unlock, sha256 = hash\<rparr>"

definition map_holder :: "lock_map \<Rightarrow> output_ref \<Rightarrow> lock_owner option" where
  "map_holder w r = map_option fst (w r)"

interpretation map_locks: output_lock_store "map_store height hash" map_holder for height hash
proof
  fix rs owner until w w' r res
  assume "lock_outputs (map_store height hash) rs owner until w = (Ok (), w')" "r \<in> set rs"
  then show "map_holder w' r = Some owner"
    by (auto simp: map_store_def map_lock_def map_holder_def split: if_splits)
next
  fix rs owner until w res w' r
  assume "lock_outputs (map_store height hash) rs owner until w = (res, w')" "r \<notin> set rs"
  then show "map_holder w' r = map_holder w r"
    by (auto simp: map_store_def map_lock_def map_holder_def split: if_splits)
next
  fix r owner w w'
  assume "unlock_output (map_store height hash) r owner w = (Ok (), w')"
  then show "map_holder w' r \<noteq> Some owner"
    by (auto simp: map_store_def map_unlock_def map_holder_def split: option.splits if_splits)
next
  fix r owner w res w' r'
  assume "unlock_output (map_store height hash) r owner w = (res, w')" "r' \<noteq> r"
  then show "map_holder w' r' = map_holder w r'"
    by (auto simp: map_store_def map_unlock_def map_holder_def split: option.splits if_splits)
next
  fix r owner w res w'
  assume "unlock_output (map_store height hash) r owner w = (res, w')" "map_holder w r \<noteq> Some owner"
  then show "map_holder w' r = map_holder w r"
    by (auto simp: map_store_def map_unlock_def map_holder_def split: option.splits if_splits)
next
  fix r owner w res w'
  assume "unlock_output (map_store height hash) r owner w = (res, w')"
  then show "map_holder w' r \<in> {None, map_holder w r}"
    by (auto simp: map_store_def map_unlock_def map_holder_def split: option.splits if_splits)
qed

lemma mapM_Ok_image: "mapM f xs = Ok ys \<Longrightarrow> x \<in> set xs \<Longrightarrow> f x = Ok y \<Longrightarrow> y \<in> set ys"
  by (induction xs arbitrary: ys) (auto simp: outcome_simps)

section \<open>Other owners\<close>

definition others_kept :: "('w \<Rightarrow> output_ref \<Rightarrow> lock_owner option) \<Rightarrow> lock_owner set \<Rightarrow> 'w \<Rightarrow> 'w \<Rightarrow> bool" where
  "others_kept holder owners w w' \<longleftrightarrow>
     (\<forall>r. holder w r \<notin> Some ` owners \<longrightarrow> holder w' r = holder w r) \<and>
     (\<forall>r. holder w' r \<in> {None, holder w r})"

interpretation others: state_relation "others_kept holder owners" for holder owners
  by unfold_locales (simp_all add: others_kept_def, metis)

context output_lock_store begin

lemma unlock_within: "owner \<in> owners \<Longrightarrow> within (others_kept holder owners) (unlock_output E r owner)"
  unfolding within_def others_kept_def
proof (intro allI conjI impI)
  fix w q
  assume owner: "owner \<in> owners"
  obtain res w' where run: "unlock_output E r owner w = (res, w')" by (metis surj_pair)
  show "holder (snd (unlock_output E r owner w)) q = holder w q" if "holder w q \<notin> Some ` owners"
    using unlock_frame [OF run, of q] that owner run by auto
  show "holder (snd (unlock_output E r owner w)) q \<in> {None, holder w q}"
    using run unlock_leaves [OF run] unlock_other [OF run, of q] by (cases "q = r") auto
qed

lemma unlock_all_within: "within (others_kept holder {migration_lock_owner E run}) (unlock_orchard_migration_outputs E run cs)"
  unfolding unlock_orchard_migration_outputs_def unlock_candidate_def
  by (intro others.within_for_each others.within_andthen others.within_lift unlock_within) simp

lemma unlocked_all:
  assumes "unlock_orchard_migration_outputs E run cs w = (Ok (), w')" "c \<in> set cs"
  shows "\<exists>r. orchard_output_ref c = Ok r \<and> holder w' r \<noteq> Some (migration_lock_owner E run)"
proof -
  let ?owner = "migration_lock_owner E run"
  have "(\<forall>c \<in> set cs. \<exists>r. orchard_output_ref c = Ok r \<and> holder w' r \<noteq> Some ?owner)"
    using assms(1) unfolding unlock_orchard_migration_outputs_def
  proof (induction cs arbitrary: w)
    case (Cons c cs)
    from Cons.prems obtain v where one: "unlock_candidate E ?owner c w = (Ok (), v)" and
      rest: "for_each (unlock_candidate E ?owner) cs v = (Ok (), w')"
      by (auto simp: andthen_Ok)
    from one obtain r where r: "orchard_output_ref c = Ok r" "unlock_output E r ?owner w = (Ok (), v)"
      by (auto simp: unlock_candidate_def andthen_lift_Ok)
    have "holder v r \<noteq> Some ?owner" using unlocked r(2) by blast
    moreover have "others_kept holder {?owner} v w'"
      using withinD [OF unlock_all_within [unfolded unlock_orchard_migration_outputs_def] rest] .
    ultimately have "holder w' r \<noteq> Some ?owner" unfolding others_kept_def by (metis empty_iff image_insert image_empty insert_iff)
    then show ?case using r(1) Cons.IH [OF rest] by auto
  qed simp
  then show ?thesis using assms(2) by blast
qed

text \<open>A run's reconciliation against a database that nobody else changes meanwhile.\<close>

lemma reconcile_released:
  assumes "reconcile_wallet_locks_for_run_with_outcome E run (\<lambda>_. db) w = (Ok b, w')"
    "find_run db run = Some r" "migration_phase_releases_wallet_locks (run_phase r)"
  shows "b \<and> (\<forall>c \<in> set (wallet_lock_candidates_with_conn db run).
      \<exists>o1. orchard_output_ref c = Ok o1 \<and> holder w' o1 \<noteq> Some (migration_lock_owner E run)) \<and>
    others_kept holder {migration_lock_owner E run} w w'"
proof -
  let ?cs = "wallet_lock_candidates_with_conn db run"
  have snap: "wallet_lock_reconciliation_snapshot db run = Some (True, ?cs)"
    using assms(2,3) by (simp add: wallet_lock_reconciliation_snapshot_def)
  obtain x v where u: "unlock_orchard_migration_outputs E run ?cs w = (x, v)" by (metis surj_pair)
  have pass: "reconcile_pass E run db db w = (map_err id (obind x (\<lambda>_. Ok (Some True))), v)"
    by (cases x) (simp_all add: reconcile_pass_def snap u andthen_def yield_def)
  have "x = Ok () \<and> v = w' \<and> b"
    using assms(1) by (cases x)
      (auto simp: reconcile_wallet_locks_for_run_with_outcome_def numeral_eq_Suc pass andthen_def yield_def)
  then show ?thesis using unlocked_all u withinD [OF unlock_all_within u] by blast
qed

lemma resolve_found:
  assumes "resolve_outputs E w target seen rs = Ok outs" "r \<in> set rs" "spendable_note E w (oref_txid r) (oref_index r) target = Ok True"
    "(oref_txid r, oref_index r) \<notin> seen" "\<forall>q \<in> set rs. oref_pool q = OrchardPool"
  shows "r \<in> set outs"
  using assms
proof (induction rs arbitrary: seen outs)
  case (Cons q rs)
  show ?case
  proof (cases "(oref_txid q, oref_index q) \<in> seen")
    case True
    then have "r \<noteq> q" using Cons.prems(4) by auto
    then show ?thesis using Cons True by auto
  next
    case False
    from Cons.prems(1) False obtain found rest where
      q: "spendable_note E w (oref_txid q) (oref_index q) target = Ok found" and
      rest: "resolve_outputs E w target (insert (oref_txid q, oref_index q) seen) rs = Ok rest" and
      outs: "outs = (if found then q # rest else rest)"
      by (auto simp: outcome_simps)
    show ?thesis
    proof (cases "r = q")
      case True
      then show ?thesis using q outs Cons.prems(3) by auto
    next
      case r: False
      then have mem: "r \<in> set rs" using Cons.prems(2) by simp
      show ?thesis
      proof (cases "(oref_txid r, oref_index r) = (oref_txid q, oref_index q)")
        case True
        then have "r = q" using Cons.prems(2,5) mem by (intro output_ref.equality) auto
        then show ?thesis using r by simp
      next
        case other: False
        then have "(oref_txid r, oref_index r) \<notin> insert (oref_txid q, oref_index q) seen"
          using Cons.prems(4) by simp
        from Cons.IH [OF rest mem Cons.prems(3) this] Cons.prems(5) show ?thesis using outs by auto
      qed
    qed
  qed
qed simp

lemma reconcile_held:
  assumes "reconcile_wallet_locks_for_run_with_outcome E run (\<lambda>_. db) w = (Ok True, w')"
    "find_run db run = Some r" "\<not> migration_phase_releases_wallet_locks (run_phase r)"
    "c \<in> set (wallet_lock_candidates_with_conn db run)" "orchard_output_ref c = Ok o1"
    "target_height_of E w = Ok (Some height)" "spendable_note E w (oref_txid o1) (oref_index o1) height = Ok True"
  shows "holder w' o1 = Some (migration_lock_owner E run)"
proof -
  let ?cs = "wallet_lock_candidates_with_conn db run"
  have snap: "wallet_lock_reconciliation_snapshot db run = Some (False, ?cs)"
    using assms(2,3) by (simp add: wallet_lock_reconciliation_snapshot_def)
  obtain x v where u: "ensure_orchard_migration_locks E run ?cs w = (x, v)" by (metis surj_pair)
  have pass: "reconcile_pass E run db db w = (map_err id (obind x (\<lambda>b. Ok (Some b))), v)"
    by (cases x) (simp_all add: reconcile_pass_def snap u andthen_def yield_def)
  have x: "x = Ok True" "v = w'"
    using assms(1) by (cases x;
      auto simp: reconcile_wallet_locks_for_run_with_outcome_def numeral_eq_Suc pass andthen_def yield_def)+
  have "?cs \<noteq> []" using assms(4) by auto
  with u x obtain refs where refs: "mapM orchard_output_ref ?cs = Ok refs" and
    rest: "with_state (\<lambda>w. andthen (lift_outcome (target_height_of E w)) (\<lambda>target.
          case target of None \<Rightarrow> yield False
          | Some height \<Rightarrow> andthen (lift_outcome (resolve_outputs E w height {} refs)) (\<lambda>outputs.
                if outputs = [] then yield True
                else andthen (lock_outputs E outputs (migration_lock_owner E run) u32_max) (\<lambda>_. yield True)))) w = (Ok True, w')"
    unfolding ensure_orchard_migration_locks_def by (auto simp: andthen_lift_Ok)
  from rest assms(6) obtain outs where outs: "resolve_outputs E w height {} refs = Ok outs" and
    fin: "(if outs = [] then yield True else andthen (lock_outputs E outs (migration_lock_owner E run) u32_max) (\<lambda>_. yield True)) w
      = (Ok True, w')"
    by (auto simp: run_basic andthen_lift andthen_lift_Ok)
  have mem: "o1 \<in> set refs" using mapM_Ok_image [OF refs assms(4,5)] .
  have pools: "\<forall>q \<in> set refs. oref_pool q = OrchardPool"
  proof
    fix q assume "q \<in> set refs"
    then obtain d where "orchard_output_ref d = Ok q" using refs mapM_Ok_member by metis
    then show "oref_pool q = OrchardPool" by (cases d) (auto simp: orchard_output_ref_def outcome_simps split: if_splits)
  qed
  have "o1 \<in> set outs" using resolve_found [OF outs mem assms(7) _ pools] by simp
  then have "outs \<noteq> []" by auto
  with fin have "lock_outputs E outs (migration_lock_owner E run) u32_max w = (Ok (), w')"
    by (auto simp: andthen_Ok run_basic)
  then show ?thesis using locked \<open>o1 \<in> set outs\<close> by blast
qed

text \<open>What taking the locks leaves, whatever the wallet can see.\<close>

lemma resolve_subset: "resolve_outputs E w target seen rs = Ok outs \<Longrightarrow> set outs \<subseteq> set rs"
  by (induction rs arbitrary: seen outs) (fastforce simp: outcome_simps split: if_splits)+

lemma ensure_locks_leaves:
  assumes "ensure_orchard_migration_locks E run cs w = (Ok b, w')"
  shows "(\<forall>q. holder w' q = holder w q \<or>
      holder w' q = Some (migration_lock_owner E run) \<and> (\<exists>c \<in> set cs. orchard_output_ref c = Ok q)) \<and>
    (\<not> b \<longrightarrow> w' = w \<and> target_height_of E w = Ok None) \<and> (b \<longrightarrow> (\<forall>c \<in> set cs. \<exists>o1. orchard_output_ref c = Ok o1))"
proof (cases "cs = []")
  case True
  then show ?thesis using assms by (simp add: ensure_orchard_migration_locks_def run_basic)
next
  case False
  with assms obtain refs where refs: "mapM orchard_output_ref cs = Ok refs" and
    rest: "with_state (\<lambda>w. andthen (lift_outcome (target_height_of E w)) (\<lambda>target.
          case target of None \<Rightarrow> yield False
          | Some height \<Rightarrow> andthen (lift_outcome (resolve_outputs E w height {} refs)) (\<lambda>outputs.
                if outputs = [] then yield True
                else andthen (lock_outputs E outputs (migration_lock_owner E run) u32_max) (\<lambda>_. yield True)))) w = (Ok b, w')"
    unfolding ensure_orchard_migration_locks_def by (auto simp: andthen_lift_Ok)
  have named: "\<exists>c \<in> set cs. orchard_output_ref c = Ok q" if "q \<in> set refs" for q
    using mapM_Ok_member [OF refs that] .
  have all: "\<forall>c \<in> set cs. \<exists>o1. orchard_output_ref c = Ok o1"
    using mapM_Ok_result [OF refs] by blast
  from rest obtain target where target: "target_height_of E w = Ok target" by (auto simp: run_basic andthen_lift_Ok)
  show ?thesis
  proof (cases target)
    case None
    then show ?thesis using rest target by (auto simp: run_basic andthen_lift)
  next
    case (Some height)
    with rest target obtain outs where outs: "resolve_outputs E w height {} refs = Ok outs" and
      fin: "(if outs = [] then yield True
        else andthen (lock_outputs E outs (migration_lock_owner E run) u32_max) (\<lambda>_. yield True)) w = (Ok b, w')"
      by (auto simp: run_basic andthen_lift andthen_lift_Ok)
    show ?thesis
    proof (cases "outs = []")
      case True
      then show ?thesis using fin all by (simp add: run_basic)
    next
      case False
      with fin have b: "b" and lock: "lock_outputs E outs (migration_lock_owner E run) u32_max w = (Ok (), w')"
        by (auto simp: andthen_Ok run_basic)
      have "holder w' q = holder w q \<or>
          holder w' q = Some (migration_lock_owner E run) \<and> (\<exists>c \<in> set cs. orchard_output_ref c = Ok q)" for q
        using locked [OF lock, of q] lock_frame [OF lock, of q] named [of q] resolve_subset [OF outs] by blast
      then show ?thesis using b all by blast
    qed
  qed
qed

lemma reconcile_ensured:
  assumes "reconcile_wallet_locks_for_run_with_outcome E run (\<lambda>_. db) w = (Ok b, w')"
    "find_run db run = Some r" "\<not> migration_phase_releases_wallet_locks (run_phase r)"
  shows "ensure_orchard_migration_locks E run (wallet_lock_candidates_with_conn db run) w = (Ok b, w')"
proof -
  let ?cs = "wallet_lock_candidates_with_conn db run"
  have snap: "wallet_lock_reconciliation_snapshot db run = Some (False, ?cs)"
    using assms(2,3) by (simp add: wallet_lock_reconciliation_snapshot_def)
  obtain x v where u: "ensure_orchard_migration_locks E run ?cs w = (x, v)" by (metis surj_pair)
  have pass: "reconcile_pass E run db db w = (map_err id (obind x (\<lambda>b. Ok (Some b))), v)"
    by (cases x) (simp_all add: reconcile_pass_def snap u andthen_def yield_def)
  have "x = Ok b" "v = w'"
    using assms(1) by (cases x;
      auto simp: reconcile_wallet_locks_for_run_with_outcome_def numeral_eq_Suc pass andthen_def yield_def)+
  then show ?thesis using u by simp
qed

end

section \<open>Stopping a run\<close>

definition discarded :: "string \<Rightarrow> pending_row \<Rightarrow> bool" where
  "discarded run p \<longleftrightarrow> pend_run_id p = run \<and> pend_status p \<in> {''scheduled'', ''needs_resign''}"

text \<open>The database after the transaction that stops a run.\<close>

lemma stop_transition_Ok:
  assumes "stop_transition now run phase db = (Ok (), db')"
  shows "pending_rows db' = filter (\<lambda>p. \<not> discarded run p) (pending_rows db)"
    "note_rows db' = map (\<lambda>n. if note_run_id n = run then n\<lparr>note_lock_state := ''unlocked''\<rparr> else n) (note_rows db)"
    "signed_rows db' = filter (\<lambda>c. sign_run_id c \<noteq> run) (signed_rows db)"
    "stages_db db' = stages_db db"
    "\<exists>f. run_rows db' = map f (run_rows db) \<and> (\<forall>r. run_key (f r) = run_key r \<and> (run_key r \<noteq> run \<longrightarrow> f r = r) \<and>
       (run_key r = run \<and> run_phase r = phase \<longrightarrow> run_phase (f r) = PHASE_ABANDONED))"
proof -
  let ?found = "\<lambda>r. run_key r = run \<and> run_phase r = phase"
  let ?stopped = "update_runs ?found (set_phase PHASE_ABANDONED now (Some stopped_message)) db"
  let ?clear = "update_runs (\<lambda>r. run_key r = run) (\<lambda>r. r\<lparr>run_recovery_origin := None, run_recovery_max_offset := None\<rparr>)"
  have db': "db' = ?clear (unlock_notes run (discard_parts run (delete_signed run ?stopped)))"
    using assms unfolding stop_transition_def atomically_Ok
    by (auto simp: run_basic andthen_lift Let_def split: if_splits)
  show "pending_rows db' = filter (\<lambda>p. \<not> discarded run p) (pending_rows db)"
    by (simp add: db' unlock_notes_def discard_parts_def discarded_def)
  show "note_rows db' = map (\<lambda>n. if note_run_id n = run then n\<lparr>note_lock_state := ''unlocked''\<rparr> else n) (note_rows db)"
    by (simp add: db' unlock_notes_def discard_parts_def)
  show "signed_rows db' = filter (\<lambda>c. sign_run_id c \<noteq> run) (signed_rows db)"
    by (simp add: db' unlock_notes_def discard_parts_def)
  show "stages_db db' = stages_db db" by (simp add: db' unlock_notes_def discard_parts_def)
  let ?f = "\<lambda>r. (\<lambda>r. if run_key r = run then r\<lparr>run_recovery_origin := None, run_recovery_max_offset := None\<rparr> else r)
      (if ?found r then set_phase PHASE_ABANDONED now (Some stopped_message) r else r)"
  have "run_rows db' = map ?f (run_rows db)"
    by (simp add: db' unlock_notes_def discard_parts_def comp_def)
  then show "\<exists>f. run_rows db' = map f (run_rows db) \<and> (\<forall>r. run_key (f r) = run_key r \<and> (run_key r \<noteq> run \<longrightarrow> f r = r) \<and>
       (run_key r = run \<and> run_phase r = phase \<longrightarrow> run_phase (f r) = PHASE_ABANDONED))"
    by (intro exI [of _ ?f]) (simp add: set_phase_def)
qed

lemma find_run_map:
  "(\<And>r. run_key (f r) = run_key r) \<Longrightarrow> run_rows db' = map f (run_rows db) \<Longrightarrow>
    find_run db' run = map_option f (find_run db run)"
  by (simp add: find_run_def find_keyed_map)

lemma find_run_key: "find_run db run = Some r \<Longrightarrow> run_key r = run \<and> r \<in> set (run_rows db)"
  by (auto simp: find_run_def find_Some_iff in_set_conv_nth)

lemma same_notes:
  "map (\<lambda>n. (note_txid n, note_output_index n)) (filter (\<lambda>n. note_run_id n = run)
      (map (\<lambda>n. if note_run_id n = run then n\<lparr>note_lock_state := state\<rparr> else n) ns)) =
    map (\<lambda>n. (note_txid n, note_output_index n)) (filter (\<lambda>n. note_run_id n = run) ns)"
  by (induction ns) auto

lemma notes_set:
  "n \<in> set (map (\<lambda>n. if note_run_id n = run then n\<lparr>note_lock_state := state\<rparr> else n) ns) \<Longrightarrow>
    note_run_id n = run \<Longrightarrow> note_lock_state n = state"
  unfolding set_map by (elim imageE) (simp split: if_splits)

context output_lock_store begin

lemma locks_of_stopped_run:
  assumes "reconcile_wallet_locks_for_run E run (db, w) = (Ok (), (db', w'))"
    "find_run db run = Some r" "run_phase r = PHASE_ABANDONED"
  shows "db' = db \<and> (\<forall>c \<in> set (wallet_lock_candidates_with_conn db run).
      \<exists>o1. orchard_output_ref c = Ok o1 \<and> holder w' o1 \<noteq> Some (migration_lock_owner E run)) \<and>
    others_kept holder {migration_lock_owner E run} w w'"
proof -
  obtain x v where x: "reconcile_wallet_locks_for_run_with_outcome E run (\<lambda>_. db) w = (x, v)" by (metis surj_pair)
  then have "\<exists>b. x = Ok b" "db' = db" "v = w'"
    using assms(1) by (auto simp: reconcile_wallet_locks_for_run_def outcome_simps)
  then obtain b where "reconcile_wallet_locks_for_run_with_outcome E run (\<lambda>_. db) w = (Ok b, w')" using x by auto
  from reconcile_released [OF this assms(2)] assms(3) \<open>db' = db\<close> show ?thesis
    by (simp add: migration_phase_releases_wallet_locks_def)
qed

lemma abandon_Ok:
  assumes "abandon_run E now account network run (db, w) = (Ok (), (db', w'))" "unique_runs db"
    "\<forall>r \<in> set (run_rows db). run_key r = run \<longrightarrow> run_phase r \<noteq> PHASE_ABANDONED"
  shows "pending_rows db' = filter (\<lambda>p. \<not> discarded run p) (pending_rows db)"
    "\<forall>r \<in> set (run_rows db'). run_key r = run \<longrightarrow> run_phase r = PHASE_ABANDONED"
    "\<forall>n \<in> set (note_rows db'). note_run_id n = run \<longrightarrow> note_lock_state n = ''unlocked''"
    "\<forall>c \<in> set (wallet_lock_candidates_with_conn db run).
      \<exists>o1. orchard_output_ref c = Ok o1 \<and> holder w' o1 \<noteq> Some (migration_lock_owner E run)"
    "others_kept holder {migration_lock_owner E run} w w'"
    "signed_rows db' = filter (\<lambda>c. sign_run_id c \<noteq> run) (signed_rows db)"
proof -
  let ?db = "ensure_tables db"
  have tables: "on_db (modify ensure_tables) (db, w) = (Ok (), (?db, w))"
    by (simp add: on_db_def run_basic)
  let ?rest = "\<lambda>r. andthen
         (if run_phase r = PHASE_ABANDONED then yield ()
          else if run_phase r = PHASE_COMPLETE \<or> run_phase r = PHASE_FAILED_TERMINAL
          then lift_outcome (Err (PartError (RunTerminal (run_phase r))))
          else on_db (stop_transition now run (run_phase r))) (\<lambda>_.
         andthen (reconcile_wallet_locks_for_run E run) (\<lambda>_. discard_stages run))"
  from assms(1) obtain r where found: "find_run ?db run = Some r" and rest: "?rest r (?db, w) = (Ok (), (db', w'))"
    unfolding abandon_run_def andthen_def [of "on_db (modify ensure_tables)"] tables
    by (auto simp: run_basic andthen_lift_Ok outcome_simps read_run_def split: if_splits)
  have r: "run_key r = run" "r \<in> set (run_rows db)" using find_run_key [OF found] by simp_all
  then have open_phase: "run_phase r \<noteq> PHASE_ABANDONED" using assms(3) by blast
  from rest open_phase have
    rest': "andthen (on_db (stop_transition now run (run_phase r))) (\<lambda>_.
         andthen (reconcile_wallet_locks_for_run E run) (\<lambda>_. discard_stages run)) (?db, w) = (Ok (), (db', w'))"
    by (cases "run_phase r = PHASE_COMPLETE \<or> run_phase r = PHASE_FAILED_TERMINAL")
      (simp_all only: if_True if_False andthen_lift, simp)
  then obtain s where s1: "on_db (stop_transition now run (run_phase r)) (?db, w) = (Ok (), s)" and
    s2: "andthen (reconcile_wallet_locks_for_run E run) (\<lambda>_. discard_stages run) s = (Ok (), (db', w'))"
    unfolding andthen_Ok [of "on_db _"] by auto
  from s1 obtain db1 where stop: "stop_transition now run (run_phase r) ?db = (Ok (), db1)" and s: "s = (db1, w)"
    by (auto simp: on_db_def split: prod.splits)
  from s2 obtain db2 w2 where locks: "reconcile_wallet_locks_for_run E run (db1, w) = (Ok (), (db2, w2))" and
    stages: "discard_stages run (db2, w2) = (Ok (), (db', w'))"
    unfolding andthen_Ok [of "reconcile_wallet_locks_for_run _ _"] s by auto
  note stopped = stop_transition_Ok [OF stop]
  from stopped(5) obtain f where f: "run_rows db1 = map f (run_rows db)"
    "\<And>q. run_key (f q) = run_key q" "\<And>q. run_key q = run \<Longrightarrow> run_phase q = run_phase r \<Longrightarrow> run_phase (f q) = PHASE_ABANDONED"
    by auto
  have "find_run db1 run = Some (f r)" using find_run_map [of f db1 ?db run] f(1,2) found by simp
  from locks_of_stopped_run [OF locks this] f(3) r(1) have
    held: "db2 = db1" "\<forall>c \<in> set (wallet_lock_candidates_with_conn db1 run).
      \<exists>o1. orchard_output_ref c = Ok o1 \<and> holder w2 o1 \<noteq> Some (migration_lock_owner E run)"
    "others_kept holder {migration_lock_owner E run} w w2" by auto
  have fin: "w' = w2" "pending_rows db' = pending_rows db1" "run_rows db' = run_rows db1" "note_rows db' = note_rows db1"
    "signed_rows db' = signed_rows db1"
    using stages held(1) by (auto simp: discard_stages_def on_db_def run_basic)
  show "pending_rows db' = filter (\<lambda>p. \<not> discarded run p) (pending_rows db)" using fin stopped(1) by simp
  show "signed_rows db' = filter (\<lambda>c. sign_run_id c \<noteq> run) (signed_rows db)" using fin stopped(3) by simp
  show "\<forall>n \<in> set (note_rows db'). note_run_id n = run \<longrightarrow> note_lock_state n = ''unlocked''"
    unfolding fin stopped(2) using notes_set by blast
  have same: "q = r" if "q \<in> set (run_rows db)" "run_key q = run" for q
    using that r assms(2) by (auto simp: unique_runs_def distinct_map inj_on_def)
  show "\<forall>r \<in> set (run_rows db'). run_key r = run \<longrightarrow> run_phase r = PHASE_ABANDONED"
  proof
    fix q assume "q \<in> set (run_rows db')"
    then obtain q0 where q: "q0 \<in> set (run_rows db)" "q = f q0" using fin(3) f(1) by auto
    show "run_key q = run \<longrightarrow> run_phase q = PHASE_ABANDONED"
    proof
      assume "run_key q = run"
      then have "q0 = r" using q same f(2) by simp
      then show "run_phase q = PHASE_ABANDONED" using q(2) f(3) [OF r(1)] by simp
    qed
  qed
  have "map (\<lambda>n. (note_txid n, note_output_index n)) (filter (\<lambda>n. note_run_id n = run) (note_rows db1)) =
      map (\<lambda>n. (note_txid n, note_output_index n)) (filter (\<lambda>n. note_run_id n = run) (note_rows db))"
    unfolding stopped(2) ensure_tables_simps by (rule same_notes)
  then have "wallet_lock_candidates_with_conn db1 run = wallet_lock_candidates_with_conn db run"
    by (simp add: wallet_lock_candidates_with_conn_def stopped(4))
  then show "\<forall>c \<in> set (wallet_lock_candidates_with_conn db run).
      \<exists>o1. orchard_output_ref c = Ok o1 \<and> holder w' o1 \<noteq> Some (migration_lock_owner E run)"
    using held(2) fin(1) by simp
  show "others_kept holder {migration_lock_owner E run} w w'" using held(3) fin(1) by simp
qed

end

section \<open>Recovery after a restart\<close>

definition row_lock :: "proposal_row \<Rightarrow> orphan_lock \<Rightarrow> bool" where
  "row_lock r l \<longleftrightarrow> orphan_owner l = prop_owner r \<and> orphan_expiry l = prop_expiry r \<and> orphan_retain l = prop_retain r"

definition row_output :: "proposal_row \<Rightarrow> (proposal_error, output_ref) outcome" where
  "row_output r = obind (pool_from_code (prop_pool r)) (\<lambda>pool.
     Ok \<lparr>oref_txid = prop_txid r, oref_pool = pool, oref_index = prop_output_index r\<rparr>)"

text \<open>The entries read so far and the rows they came from.\<close>

definition locks_of_rows :: "proposal_row list \<Rightarrow> orphan_lock list \<Rightarrow> bool" where
  "locks_of_rows rows locks \<longleftrightarrow>
     (\<forall>r \<in> set rows. \<exists>l \<in> set locks. row_lock r l \<and> (\<exists>o1. row_output r = Ok o1 \<and> o1 \<in> set (orphan_outputs l))) \<and>
     (\<forall>l \<in> set locks. \<exists>r \<in> set rows. row_lock r l)"

lemma add_output_Ok:
  assumes "add_output owner expiry retain output ls = Ok ls'"
  shows "\<exists>l \<in> set ls'. orphan_owner l = owner \<and> orphan_expiry l = expiry \<and> orphan_retain l = retain \<and> output \<in> set (orphan_outputs l)"
    and "\<forall>l \<in> set ls. \<exists>l' \<in> set ls'. orphan_owner l' = orphan_owner l \<and> orphan_expiry l' = orphan_expiry l \<and>
      orphan_retain l' = orphan_retain l \<and> set (orphan_outputs l) \<subseteq> set (orphan_outputs l')"
    and "\<forall>l' \<in> set ls'. orphan_owner l' = owner \<and> orphan_expiry l' = expiry \<and> orphan_retain l' = retain \<or> l' \<in> set ls"
  using assms
proof (induction ls arbitrary: ls')
  case Nil
  case 1 then show ?case by auto
  case 2 then show ?case by auto
  case 3 then show ?case by auto
next
  case (Cons l ls)
  {
    case 1
    then show ?case using Cons.IH(1) by (auto simp: outcome_simps split: if_splits)
  next
    case 2
    then show ?case using Cons.IH(2) by (auto simp: outcome_simps split: if_splits)
  next
    case 3
    then show ?case using Cons.IH(3) by (auto simp: outcome_simps split: if_splits)
  }
qed

lemma read_orphan_Ok:
  assumes "read_orphan locks r = Ok locks'" "locks_of_rows rows locks"
  shows "locks_of_rows (rows @ [r]) locks'"
proof -
  from assms(1) obtain pool where pool: "pool_from_code (prop_pool r) = Ok pool" and
    add: "add_output (prop_owner r) (prop_expiry r) (prop_retain r)
      \<lparr>oref_txid = prop_txid r, oref_pool = pool, oref_index = prop_output_index r\<rparr> locks = Ok locks'"
    by (auto simp: read_orphan_def outcome_simps split: if_splits)
  note added = add_output_Ok [OF add]
  have new: "\<exists>l \<in> set locks'. row_lock r l \<and> (\<exists>o1. row_output r = Ok o1 \<and> o1 \<in> set (orphan_outputs l))"
    using added(1) pool by (auto simp: row_lock_def row_output_def)
  have old: "\<exists>l \<in> set locks'. row_lock q l \<and> (\<exists>o1. row_output q = Ok o1 \<and> o1 \<in> set (orphan_outputs l))"
    if q: "q \<in> set rows" for q
  proof -
    from assms(2) q obtain l o1 where l: "l \<in> set locks" "row_lock q l" "row_output q = Ok o1" "o1 \<in> set (orphan_outputs l)"
      unfolding locks_of_rows_def by blast
    from added(2) l(1) obtain l' where "l' \<in> set locks'" "orphan_owner l' = orphan_owner l"
      "orphan_expiry l' = orphan_expiry l" "orphan_retain l' = orphan_retain l"
      "set (orphan_outputs l) \<subseteq> set (orphan_outputs l')" by blast
    then show ?thesis using l by (intro bexI [of _ l']) (auto simp: row_lock_def)
  qed
  have "\<exists>q \<in> set (rows @ [r]). row_lock q l" if "l \<in> set locks'" for l
    using added(3) that assms(2) unfolding locks_of_rows_def by (auto simp: row_lock_def)
  then show ?thesis using new old unfolding locks_of_rows_def by auto
qed

lemma read_orphans_Ok:
  "foldM read_orphan locks rs = Ok locks' \<Longrightarrow> locks_of_rows rows locks \<Longrightarrow> locks_of_rows (rows @ rs) locks'"
proof (induction rs arbitrary: locks rows)
  case (Cons r rs)
  then obtain l1 where "read_orphan locks r = Ok l1" "foldM read_orphan l1 rs = Ok locks'"
    by (auto simp: outcome_simps)
  then show ?case using Cons.IH [of l1 "rows @ [r]"] read_orphan_Ok Cons.prems(2) by fastforce
qed simp

definition previous_rows :: "bytes \<Rightarrow> proposal_table \<Rightarrow> proposal_row set" where
  "previous_rows session rows = {r \<in> set rows. prop_session r \<noteq> session}"

lemma read_previous:
  assumes "read_previous_session_locks session rows = Ok locks"
  shows "\<forall>r \<in> previous_rows session rows. \<exists>l \<in> set locks. row_lock r l \<and>
      (\<exists>o1. row_output r = Ok o1 \<and> o1 \<in> set (orphan_outputs l))"
    "\<forall>l \<in> set locks. \<exists>r \<in> previous_rows session rows. row_lock r l"
proof -
  have "locks_of_rows (orphan_rows session rows) locks"
    using read_orphans_Ok [of "[]" "orphan_rows session rows" locks "[]"] assms
    by (simp add: read_previous_session_locks_def locks_of_rows_def)
  moreover have "set (orphan_rows session rows) = previous_rows session rows"
    by (auto simp: orphan_rows_def previous_rows_def)
  ultimately show "\<forall>r \<in> previous_rows session rows. \<exists>l \<in> set locks. row_lock r l \<and>
      (\<exists>o1. row_output r = Ok o1 \<and> o1 \<in> set (orphan_outputs l))"
    "\<forall>l \<in> set locks. \<exists>r \<in> previous_rows session rows. row_lock r l"
    unfolding locks_of_rows_def by simp_all
qed

lemma fold_remove:
  "fold (\<lambda>l. remove_rows (orphan_owner l)) ls rows = filter (\<lambda>r. prop_owner r \<notin> orphan_owner ` set ls) rows"
proof (induction ls arbitrary: rows)
  case (Cons l ls)
  then show ?case by (auto simp: remove_rows_def intro!: filter_cong)
qed simp

text \<open>A row whose lock the recovery releases, at the target height the wallet reports.\<close>

definition to_release :: "bytes \<Rightarrow> u32 option \<Rightarrow> proposal_table \<Rightarrow> proposal_row \<Rightarrow> bool" where
  "to_release session target rows r \<longleftrightarrow> r \<in> previous_rows session rows \<and>
     should_release_after_restart (prop_retain r) target (prop_expiry r)"

context output_lock_store begin

lemma release_within:
  "orphan_owner l \<in> owners \<Longrightarrow> within (others_kept holder owners) (release_orphan E l)"
  unfolding release_orphan_def by (intro others.within_for_each unlock_within)

lemma released_all:
  assumes "for_each (release_orphan E) ls w = (Ok (), w')" "l \<in> set ls" "o1 \<in> set (orphan_outputs l)"
  shows "holder w' o1 \<noteq> Some (orphan_owner l)"
  using assms
proof (induction ls arbitrary: w)
  case (Cons k ls)
  from Cons.prems(1) obtain v where one: "release_orphan E k w = (Ok (), v)" and
    rest: "for_each (release_orphan E) ls v = (Ok (), w')"
    by (auto simp: andthen_Ok)
  show ?case
  proof (cases "l \<in> set ls")
    case True
    then show ?thesis using Cons.IH [OF rest] Cons.prems(3) by blast
  next
    case False
    then have "holder v o1 \<noteq> Some (orphan_owner l)"
      using Cons.prems(2,3) one unlock_all_none unfolding release_orphan_def by fastforce
    moreover have "others_kept holder UNIV v w'"
    proof (rule withinD [where m = "for_each (release_orphan E) ls", OF _ rest])
      show "within (others_kept holder UNIV) (for_each (release_orphan E) ls)"
        by (intro others.within_for_each release_within) simp
    qed
    ultimately show ?thesis unfolding others_kept_def by (metis empty_iff insert_iff option.distinct(1))
  qed
qed simp

lemma recovered:
  assumes "recover_previous_process E session (rows, w) = (Ok (), (rows', w'))"
  obtains target where
    "previous_rows session rows \<noteq> {} \<Longrightarrow> target_height_of E w = Ok target"
    "set rows' = {q \<in> set rows. \<forall>r. to_release session target rows r \<longrightarrow> prop_owner q \<noteq> prop_owner r}"
    "\<forall>r. to_release session target rows r \<longrightarrow>
       (\<exists>o1. row_output r = Ok o1 \<and> holder w' o1 \<noteq> Some (prop_owner r))"
    "others_kept holder (prop_owner ` {r. to_release session target rows r}) w w'"
proof -
  from assms obtain locks where locks: "read_previous_session_locks session rows = Ok locks" and
    rest: "(if locks = [] then yield ()
       else andthen (lift_outcome (map_err ProposalLockFailed (target_height_of E w))) (\<lambda>target.
         let released = filter (\<lambda>l. should_release_after_restart (orphan_retain l) target (orphan_expiry l)) locks in
         andthen (on_store (for_each (release_orphan E) released)) (\<lambda>_.
           modify (\<lambda>(rows, w). (fold (\<lambda>l. remove_rows (orphan_owner l)) released rows, w))))) (rows, w)
      = (Ok () :: (proposal_error, unit) outcome, (rows', w'))"
    unfolding recover_previous_process_def run_basic prod.case andthen_lift_Ok by blast
  note read = read_previous [OF locks]
  show thesis
  proof (cases "locks = []")
    case True
    then have none: "previous_rows session rows = {}" using read(1) by auto
    then have "\<not> to_release session t rows r" for t r by (simp add: to_release_def)
    moreover have "rows' = rows" "w' = w" using rest True by (simp_all add: run_basic)
    ultimately show thesis using none by (intro that [of None]) (auto simp: others.refl)
  next
    case False
    with rest obtain target where target: "target_height_of E w = Ok target" and
      tail: "andthen (on_store (for_each (release_orphan E)
          (filter (\<lambda>l. should_release_after_restart (orphan_retain l) target (orphan_expiry l)) locks))) (\<lambda>_.
           modify (\<lambda>(rows, w). (fold (\<lambda>l. remove_rows (orphan_owner l))
             (filter (\<lambda>l. should_release_after_restart (orphan_retain l) target (orphan_expiry l)) locks) rows, w)))
        (rows, w) = (Ok () :: (proposal_error, unit) outcome, (rows', w'))"
      by (auto simp: andthen_lift_Ok Let_def outcome_simps)
    define released where "released = filter (\<lambda>l. should_release_after_restart (orphan_retain l) target (orphan_expiry l)) locks"
    from tail obtain v where free: "for_each (release_orphan E) released w = (Ok (), v)" and
      fin: "rows' = fold (\<lambda>l. remove_rows (orphan_owner l)) released rows" "w' = v"
      unfolding released_def [symmetric] andthen_Ok [of "on_store _"]
      by (auto simp: on_store_def run_basic outcome_simps split: prod.splits)
    have owners: "orphan_owner ` set released = prop_owner ` {r. to_release session target rows r}"
      using read unfolding released_def to_release_def by (force simp: row_lock_def image_iff)
    have freed: "\<exists>o1. row_output r = Ok o1 \<and> holder w' o1 \<noteq> Some (prop_owner r)" if r: "to_release session target rows r" for r
    proof -
      from r read(1) obtain l o1 where l: "l \<in> set locks" "row_lock r l" "row_output r = Ok o1" "o1 \<in> set (orphan_outputs l)"
        by (auto simp: to_release_def)
      then have "l \<in> set released" using r by (simp add: released_def to_release_def row_lock_def)
      from released_all [OF free this l(4)] l(2,3) fin(2) show ?thesis by (auto simp: row_lock_def)
    qed
    have kept: "others_kept holder (prop_owner ` {r. to_release session target rows r}) w w'"
      unfolding owners [symmetric] fin(2)
    proof (rule withinD [where m = "for_each (release_orphan E) released", OF _ free])
      have "within (others_kept holder (orphan_owner ` set released)) (for_each (release_orphan E) ls)"
        if "set ls \<subseteq> set released" for ls
        using that
      proof (induction ls)
        case Nil
        show ?case by (simp add: within_def others.refl)
      next
        case (Cons l ls)
        have "within (others_kept holder (orphan_owner ` set released)) (andthen (release_orphan E l) (\<lambda>_. for_each (release_orphan E) ls))"
          using Cons by (intro others.within_andthen release_within) auto
        then show ?case by (simp add: within_def)
      qed
      then show "within (others_kept holder (orphan_owner ` set released)) (for_each (release_orphan E) released)" by simp
    qed
    have "set rows' = {q \<in> set rows. \<forall>r. to_release session target rows r \<longrightarrow> prop_owner q \<noteq> prop_owner r}"
      unfolding fin(1) fold_remove owners by auto
    with target freed kept show thesis by (intro that [of target]) auto
  qed
qed

end

end
