(* ===== verification/PartProperties.thy ===== *)
theory PartProperties
  imports ReconcileProperties PartReceiptProps PartRedrawProps PartRecoveryProps LockProps
begin

text \<open>
  The properties of the migration parts, with their witnesses on a small database: one run with
  one or two parts, on a chain without its transactions or with all of them.
\<close>

section \<open>A small database\<close>

definition demo_part :: "char \<Rightarrow> nat \<Rightarrow> u32 \<Rightarrow> string \<Rightarrow> pending_row" where
  "demo_part c index height state =
     demo_child\<lparr>pend_txid := demo_txid c, pend_part_index := Some index, pend_expiry_height := 69120,
       pend_scheduled_height := height, pend_status := state\<rparr>"

definition parts_db :: "string \<Rightarrow> pending_row list \<Rightarrow> migration_db" where
  "parts_db phase ps = \<lparr>stages_db = demo_stages, run_rows = [demo_run\<lparr>run_phase := phase\<rparr>], pending_rows = ps,
     note_rows = [\<lparr>note_run_id = ''r'', note_txid = demo_txid CHR ''A'', note_output_index = 0, note_value = 6990000,
       note_version = 2, note_nullifier = None, note_lock_state = ''locked''\<rparr>], signed_rows = []\<rparr>"

text \<open>JSON columns that all hold the same targets and schedule.\<close>

definition fixed_json :: "u64 list \<Rightarrow> schedule_entry list \<Rightarrow> json_env" where
  "fixed_json targets schedule = \<lparr>targets_of_json = (\<lambda>t. Some targets), json_of_targets = (\<lambda>v. []),
     schedule_of_json = (\<lambda>t. Some schedule), json_of_schedule = (\<lambda>v. []), note_of_json = (\<lambda>t. None),
     json_of_note = (\<lambda>v. []), metadata_of_json = (\<lambda>t. None), json_of_metadata = (\<lambda>v. [])\<rparr>"

text \<open>A chain on which every transaction is mined at height 110, below twenty scanned blocks.\<close>

definition full_chain :: wallet_chain where
  "full_chain = bare_chain\<lparr>tx_block := (\<lambda>blob. Some 110), block_hash_at := (\<lambda>h. Some (replicate 32 0)),
     scanned_ranges := [(0, 130)]\<rparr>"

lemma demo_blobs:
  "txid_blob_variants (demo_txid CHR ''c'') = Ok [replicate 32 204]" "txid_blob_variants (demo_txid CHR ''d'') = Ok [replicate 32 221]"
  by code_simp+

lemma demo_chain:
  "chain_identity_of bare_chain (demo_txid CHR ''c'') = Ok None"
  "chain_identity_of bare_chain (demo_txid CHR ''d'') = Ok None"
  "chain_identity_of full_chain (demo_txid CHR ''c'') = Ok (Some \<lparr>mined_height = 110, in_block_hash = replicate 32 0\<rparr>)"
  by (simp_all add: chain_identity_of_def local_denomination_chain_identity_def bare_chain_def full_chain_def demo_blobs
      u32_max_def)

lemma demo_lower_id: "to_ascii_lowercase (demo_txid CHR ''c'') = demo_txid CHR ''c''"
  "to_ascii_lowercase (demo_txid CHR ''d'') = demo_txid CHR ''d''"
  by code_simp+

lemma demo_distinct: "demo_txid CHR ''d'' \<noteq> demo_txid CHR ''c''" "demo_txid CHR ''c'' \<noteq> demo_txid CHR ''d''"
  by (simp_all add: demo_txid_def)

lemma demo_expiry: "h < 34560 \<Longrightarrow> canonical_expiry h = Ok 69120"
  by (simp add: canonical_expiry_def expiry_height_eq u32_max_def)

lemma demo_part_simps [simp]:
  "pend_txid (demo_part c i h s) = demo_txid c" "pend_run_id (demo_part c i h s) = ''r''"
  "pend_status (demo_part c i h s) = s" "pend_scheduled_height (demo_part c i h s) = h"
  "pend_part_index (demo_part c i h s) = Some i" "pend_expiry_height (demo_part c i h s) = 69120"
  "pend_target_height (demo_part c i h s) = 100" "pend_rebuild_offset (demo_part c i h s) = None"
  by (simp_all add: demo_part_def demo_child_def)

lemma parts_db_simps [simp]:
  "pending_rows (parts_db phase ps) = ps" "signed_rows (parts_db phase ps) = []" "stages_db (parts_db phase ps) = demo_stages"
  "run_rows (parts_db phase ps) = [demo_run\<lparr>run_phase := phase\<rparr>]" "ensure_tables (parts_db phase ps) = parts_db phase ps"
  "find_run (parts_db phase ps) ''r'' = Some (demo_run\<lparr>run_phase := phase\<rparr>)"
  by (simp_all add: parts_db_def ensure_tables_def find_run_def demo_run_def ensure_schema_def demo_stages_def)

lemma demo_live: "is_live (parts_db ''broadcast_scheduled'' ps) ''r''" "unique_runs (parts_db phase ps)"
  by (simp_all add: is_live_def live_run_def unique_runs_def demo_run_def phase_names
      migration_phase_releases_wallet_locks_def)

lemma bare_has_transactions: "has_transactions bare_chain"
  by (simp add: bare_chain_def)

lemma full_chain_simps [simp]:
  "has_transactions full_chain" "has_scan_queue full_chain" "scanned_ranges full_chain = [(0, 130)]"
  "block_hash_at full_chain h = Some (replicate 32 0)"
  by (simp_all add: full_chain_def bare_chain_def)

lemma demo_unique: "unique_txids (parts_db phase [demo_part CHR ''c'' i1 h1 s1, demo_part CHR ''d'' i2 h2 s2])"
  "unique_txids (parts_db phase [demo_part CHR ''c'' i1 h1 s1])"
  by (simp_all add: unique_txids_def demo_distinct)

text \<open>On the bare chain a run without confirmed parts is left as it is.\<close>

lemma quiet_reconcile:
  assumes "\<forall>p \<in> set ps. pend_txid p \<in> {demo_txid CHR ''c'', demo_txid CHR ''d''} \<and> pend_status p \<noteq> ''confirmed''"
    "length ps \<le> 2"
  shows "(reconcile_run_confirmations J bare_chain required clock ''r'' (parts_db ''broadcast_scheduled'' ps)
     :: (part_error, unit) outcome \<times> migration_db) = (Ok (), parts_db ''broadcast_scheduled'' ps)"
proof -
  let ?db = "parts_db ''broadcast_scheduled'' ps"
  have steps: "accumulate (confirm_step bare_chain now ''r'') b (map (\<lambda>p. (pend_txid p, pend_status p)) qs) ?db = (Ok b, ?db)"
    if "set qs \<subseteq> set ps" for qs now b
    using that
  proof (induction qs)
    case (Cons q qs)
    then have q: "pend_txid q \<in> {demo_txid CHR ''c'', demo_txid CHR ''d''}" "pend_status q \<noteq> ''confirmed''" using assms(1) by auto
    have "confirm_step bare_chain now ''r'' b (pend_txid q, pend_status q) ?db = (Ok b, ?db)"
      using q by (auto simp: confirm_step_def action_simps demo_chain)
    then show ?case using Cons by (simp add: andthen_def)
  qed simp
  have watched: "set (watched_parts ?db ''r'') \<subseteq> set ps" by (auto simp: watched_parts_def parts_of_def)
  have "length (filter (\<lambda>p. pend_status p = ''confirmed'') (parts_of ?db ''r'')) = 0"
    using assms(1) by (auto simp: parts_of_def filter_empty_conv)
  then have none: "count_pending_with_status ?db ''r'' ''confirmed'' = Ok 0"
    by (simp add: count_pending_with_status_def part_count_def)
  have some: "\<exists>n. count_parts_for_run ?db ''r'' = Ok n"
    using assms(2) by (auto simp: count_parts_for_run_def part_count_def parts_of_def u32_max_def
        intro: order_trans [OF length_filter_le])
  have unpromoted: "unpromoted_signed_child_pczt_count_with_conn J ?db ''r'' = Ok 0"
    by (simp add: unpromoted_signed_child_pczt_count_with_conn_def unpromoted_signed_child_note_outpoints_with_conn_def
        signed_of_def part_count_def)
  show ?thesis
    using some steps [OF watched] none unpromoted
    by (auto simp: reconcile_run_confirmations_def action_simps andthen_def [of "accumulate _ _ _"] andthen_def [of "yield _"]
        read_run_def ok_or_def finish_confirmations_def bare_chain_def PHASE_WAITING_MIGRATION_CONFIRMATIONS_def)
qed

text \<open>A part to store, with the run's only denomination.\<close>

definition demo_insert :: pending_insert where
  "demo_insert =
     \<lparr>pin_part_index = 0, pin_txid_hex = demo_txid CHR ''c'', pin_raw_tx = [1], pin_target_height = 101,
      pin_anchor_boundary_height = None, pin_expiry_height = 69120, pin_scheduled_height = 110, pin_value_zatoshi = 200,
      pin_fee_zatoshi = 10, pin_selected_note = \<lparr>ref_txid_hex = demo_txid CHR ''a'', ref_output_index = 0,
        ref_value_zatoshi = 210, ref_note_version = 2, ref_nullifier_hex = None\<rparr>,
      pin_metadata = \<lparr>meta_tx_kind = ''m'', meta_funding_account_uuid = ''a'',
        meta_selected_note = \<lparr>ref_txid_hex = demo_txid CHR ''a'', ref_output_index = 0, ref_value_zatoshi = 210,
          ref_note_version = 2, ref_nullifier_hex = None\<rparr>\<rparr>\<rparr>"

lemma fixed_json_simps [simp]:
  "targets_of_json (fixed_json targets schedule) t = Some targets" "schedule_of_json (fixed_json targets schedule) t = Some schedule"
  by (simp_all add: fixed_json_def)

lemma demo_run_simps [simp]:
  "run_key demo_run = ''r''" "run_network demo_run = ''main''" "run_timing_policy demo_run = ''standard''"
  "run_signed_origin demo_run = None" "run_recovery_origin demo_run = None" "run_recovery_max_offset demo_run = None"
  "run_account demo_run = ''a''"
  by (simp_all add: demo_run_def)

lemma andthen_assoc: "andthen (andthen m k) k' s = andthen m (\<lambda>x. andthen (k x) k') s"
  by (auto simp: andthen_def split: prod.splits outcome.splits)

lemma andthen_with_state: "andthen (with_state k) k' s = andthen (k s) k' s"
  by (simp add: andthen_def with_state_def)

lemma demo_run_read:
  "read_run (parts_db phase ps) ''r'' = Ok (demo_run\<lparr>run_phase := phase\<rparr>)"
  "network_from_str ''main'' = Some Main" "timing_policy_from_str ''standard'' = Ok Standard"
  by (simp_all add: read_run_def ok_or_def network_from_str_def timing_policy_from_str_def)

lemma demo_salt: "pending_salt clear_crypto [] = Ok []"
  by (simp add: pending_salt_def decode_base64_def clear_crypto_def clear_unb64_def ok_or_def)

lemma demo_inserted:
  "\<exists>db'. insert_pending_txs clear_crypto counting_rng (fixed_json [200] [\<lparr>part_index = Some 0, value_zatoshi = 200,
     block_offset = 10\<rparr>]) (\<lambda>i. 5) 0 rng ''r'' [demo_insert] [1] [] (parts_db ''ready_to_migrate'' []) = Some (Ok (), db')
     \<and> map pend_txid (pending_rows db') = [demo_txid CHR ''c'']"
proof -
  let ?J = "fixed_json [200] [\<lparr>part_index = Some 0, value_zatoshi = 200, block_offset = 10\<rparr>]"
  let ?db = "parts_db ''ready_to_migrate'' []"
  have drawn: "drawn_schedule counting_rng ?J ''r'' rng ?db = Some (Ok [])"
    by (simp add: drawn_schedule_def demo_run_read run_policy_def ok_or_def)
  have valid: "validate_schedule_with_policy [\<lparr>part_index = Some 0, value_zatoshi = 200, block_offset = 10\<rparr>] [200] Main Standard = Ok ()"
    by (simp add: validate_schedule_with_policy_def validate_schedule_part_indexes_def transfer_constants ok_or_def checked_sub_def)
  have placed: "place_part ?db ''r'' [\<lparr>part_index = Some 0, value_zatoshi = 200, block_offset = 10\<rparr>] [200] None ({}, None, []) demo_insert =
      Ok ({0}, Some 100, [(demo_insert, 10, 100)])"
    by (simp add: place_part_def schedule_entry_for_pending_def demo_insert_def recover_legacy_height_def demo_expiry
        check_origin_def ok_or_def checked_sub_def Let_def)
  have inserted: "pin_raw_tx demo_insert = [1]" "pend_txid (pending_row_of ?J ''r'' raw at demo_insert 100) = demo_txid CHR ''c''" for raw at
    by (simp_all add: demo_insert_def pending_row_of_def)
  have row: "insert_part_row (pending_row_of ?J ''r'' raw at demo_insert 100) db =
      Some (db\<lparr>pending_rows := [pending_row_of ?J ''r'' raw at demo_insert 100]\<rparr>)" if "pending_rows db = []" for raw at db
    using that by (simp add: insert_part_row_def pending_row_of_def demo_insert_def i64_max_def)
  let ?key = "payload_key_new clear_crypto [1] []"
  obtain raw where raw: "payload_key_encrypt clear_crypto 0 ?key [1] = Ok raw"
    by (simp add: payload_key_encrypt_def payload_key_new_def derive_key_def cipher_def encrypt_with_cipher_def
        clear_crypto_def clear_json_def payload_constants Let_def ok_or_def)
  let ?row = "pending_row_of ?J ''r'' raw 10005 demo_insert 100"
  have stored: "accumulate (store_part clear_crypto ?J ''r'' ?key 5) 0 [(demo_insert, 10, 100)] db =
      (Ok 1, db\<lparr>pending_rows := [?row]\<rparr>)" if "pending_rows db = []" for db
    by (simp add: store_part_def action_simps raw inserted checked_add_def i64_max_def ok_or_def row [OF that]
        andthen_assoc andthen_def [of "statement _ _"] statement_def)
  show ?thesis
    by (simp add: insert_pending_txs_def drawn opened_def atomically_def insert_parts_body_def action_simps demo_run_read
        run_policy_def ok_or_def valid placed approved_schedule_def save_signed_origin_def demo_salt andthen_assoc
        andthen_def [of "accumulate _ _ _"] stored inserted del: accumulate.simps)
qed

section \<open>What every operation keeps\<close>

text \<open>
  C1: In every database the operations on migration parts can reach (storing, promoting and replacing
  parts, confirming, broadcasting, receipts, redraws, recovery schedules, stopping, reorg resets and account
  deletion, also when they fail half-way), no transaction id and no part index of a run occurs twice, the status
  of a part is one of the four known ones, a confirmed part was found on a chain the wallet looked at, and a part
  that is scheduled has the expiry that belongs to its broadcast height, or its transaction was found on one of these
  chains and missed by a later look, which has put it back to its target height.
\<close>

theorem parts_stay_well_formed:
  assumes "part_reachable env G J E Ws db" "rng_contract G"
  shows "parts_ok (seen_on Ws) (lost_on Ws) db"
  by (rule reachable_parts_ok [OF assms])

theorem parts_stay_well_formed_witness:
  "\<exists>r db'. insert_pending_txs clear_crypto counting_rng (fixed_json [200] [\<lparr>part_index = Some 0, value_zatoshi = 200,
     block_offset = 10\<rparr>]) (\<lambda>i. 5) 0 7 ''r'' [demo_insert] [1] [] (parts_db ''ready_to_migrate'' []) = Some (r, db') \<and>
     parts_ok {} {} db'"
proof -
  obtain r db' where run: "insert_pending_txs clear_crypto counting_rng (fixed_json [200] [\<lparr>part_index = Some 0,
      value_zatoshi = 200, block_offset = 10\<rparr>]) (\<lambda>i. 5) 0 7 ''r'' [demo_insert] [1] [] (parts_db ''ready_to_migrate'' []) = Some (r, db')"
    using demo_inserted by blast
  have "part_step clear_crypto counting_rng (fixed_json [200] [\<lparr>part_index = Some 0, value_zatoshi = 200,
      block_offset = 10\<rparr>]) (map_store None id) [] (parts_db ''ready_to_migrate'' []) db'"
    by (rule part_step.insert [OF run]) (simp add: demo_insert_def demo_lower_id)
  then have "part_reachable clear_crypto counting_rng (fixed_json [200] [\<lparr>part_index = Some 0, value_zatoshi = 200,
      block_offset = 10\<rparr>]) (map_store None id) ([] @ []) db'"
    by (rule part_reachable.step [OF part_reachable.start, rotated]) simp
  from parts_stay_well_formed [OF this counting.rng_contract_axioms] show ?thesis using run by auto
qed

text \<open>
  C6: However the broadcast side of the wallet operates (reconciling, attempting, broadcasting, marking parts for
  a new signature, applying receipts, redrawing heights, in any order and also with errors), it leaves
  the table's parts and, of every part, the signed transaction with its anchor, expiry, target and original height,
  its value, fee and note: only the status, the planned height and the attempt flag ever change.
\<close>

theorem broadcast_keeps_signed:
  assumes "(upkeep env G J)\<^sup>*\<^sup>* db db'" "rng_contract G"
  shows "map signed_part (pending_rows db') = map signed_part (pending_rows db)"
  using upkeep_runs_signed [OF assms] by (simp add: keeps_signed_def)

theorem broadcast_keeps_signed_witness:
  "map signed_part (pending_rows (snd (mark_pending_broadcast_attempted ''r'' (demo_txid CHR ''c'')
      (parts_db ''broadcast_scheduled'' [demo_part CHR ''c'' 0 110 ''scheduled''])))) =
    map signed_part [demo_part CHR ''c'' 0 110 ''scheduled'']"
proof -
  let ?db = "parts_db ''broadcast_scheduled'' [demo_part CHR ''c'' 0 110 ''scheduled'']"
  obtain r db' where run: "mark_pending_broadcast_attempted ''r'' (demo_txid CHR ''c'') ?db = (r, db')"
    by (cases "mark_pending_broadcast_attempted ''r'' (demo_txid CHR ''c'') ?db")
  have "(upkeep clear_crypto counting_rng (fixed_json [] []))\<^sup>*\<^sup>* ?db db'"
    by (rule r_into_rtranclp, rule upkeep.intros(2) [OF run])
  from broadcast_keeps_signed [OF this counting.rng_contract_axioms] show ?thesis unfolding run by simp
qed

section \<open>Confirmations\<close>

text \<open>
  C3: The confirmation pass over a run that can still change, when it returns without an error, rewrites exactly the
  watched parts of that run, each by what the scanned chain says of its own transaction: mined means
  confirmed, and a confirmed part whose transaction left the chain is scheduled again at its target height. Afterwards
  a watched part is confirmed exactly when its transaction is on the chain.
\<close>

theorem reconcile_rewrites_parts:
  assumes "reconcile_run_confirmations J W required clock run db = (Ok (), db')" "has_transactions W"
    "unique_txids db" "is_live db run"
  shows "pending_rows db' = map (\<lambda>p. if watched run p then settled_part W (clock 0) p else p) (pending_rows db) \<and>
    (\<forall>q \<in> set (pending_rows db'). watched run q \<longrightarrow>
       (pend_status q = ''confirmed'' \<longleftrightarrow> (\<exists>i. chain_identity_of W (pend_txid q) = Ok (Some i))))"
proof
  show "pending_rows db' = map (\<lambda>p. if watched run p then settled_part W (clock 0) p else p) (pending_rows db)"
    using reconcile_rows(1) [OF assms(1-3)] assms(4) by simp
  show "\<forall>q \<in> set (pending_rows db'). watched run q \<longrightarrow>
       (pend_status q = ''confirmed'' \<longleftrightarrow> (\<exists>i. chain_identity_of W (pend_txid q) = Ok (Some i)))"
    using reconcile_agrees [OF assms] by blast
qed

theorem reconcile_rewrites_parts_witness:
  "pending_rows (parts_db ''broadcast_scheduled'' [demo_part CHR ''c'' 0 110 ''scheduled'', demo_part CHR ''d'' 1 120 ''needs_resign'']) =
     map (\<lambda>p. if watched ''r'' p then settled_part bare_chain 5 p else p)
       [demo_part CHR ''c'' 0 110 ''scheduled'', demo_part CHR ''d'' 1 120 ''needs_resign'']"
proof -
  let ?ps = "[demo_part CHR ''c'' 0 110 ''scheduled'', demo_part CHR ''d'' 1 120 ''needs_resign'']"
  have quiet: "reconcile_run_confirmations (fixed_json [] []) bare_chain 10 (\<lambda>i. 5) ''r'' (parts_db ''broadcast_scheduled'' ?ps) =
      (Ok () :: (part_error, unit) outcome, parts_db ''broadcast_scheduled'' ?ps)"
    by (rule quiet_reconcile) simp_all
  show ?thesis
    using conjunct1 [OF reconcile_rewrites_parts [OF quiet bare_has_transactions demo_unique(1) demo_live(1)]]
    by (simp only: parts_db_simps)
qed

text \<open>
  C5: A run becomes complete only when every planned part exists, is confirmed and lies at least as deep in a scanned range of the
  chain as required; the step that completes it also releases the run's notes and deletes its stored
  signatures.
\<close>

theorem completed_run_is_deep:
  assumes "reconcile_run_confirmations J W required clock run db = (Ok (), db')" "has_transactions W"
    "unique_txids db" "unique_runs db"
    "\<forall>r \<in> set (run_rows db). run_key r = run \<longrightarrow> run_phase r \<noteq> PHASE_COMPLETE"
    "r' \<in> set (run_rows db')" "run_key r' = run" "run_phase r' = PHASE_COMPLETE"
  shows "fully_confirmed J W required db' run \<and>
    (\<forall>n \<in> set (note_rows db'). note_run_id n = run \<longrightarrow> note_lock_state n = ''unlocked'') \<and>
    signed_of db' run = []"
  by (rule completed_run [OF assms])

lemma demo_completes:
  "reconcile_run_confirmations (fixed_json [200] []) full_chain 10 (\<lambda>i. 5) ''r''
     (parts_db ''waiting_migration_confirmations'' [demo_part CHR ''c'' 0 110 ''broadcasted'']) =
   (Ok (), complete_run 5 ''r'' (parts_db ''waiting_migration_confirmations'' [demo_part CHR ''c'' 0 110 ''confirmed'']))"
proof -
  let ?J = "fixed_json [200] []"
  let ?db = "parts_db ''waiting_migration_confirmations'' [demo_part CHR ''c'' 0 110 ''confirmed'']"
  have step: "accumulate (confirm_step full_chain 5 ''r'') False [(demo_txid CHR ''c'', ''broadcasted'')]
      (parts_db ''waiting_migration_confirmations'' [demo_part CHR ''c'' 0 110 ''broadcasted'']) = (Ok False, ?db)"
    by (simp add: confirm_step_def action_simps demo_chain andthen_assoc modify_live_def live_run_def phase_names
        migration_phase_releases_wallet_locks_def is_part_def update_parts_def set_status_def parts_db_def demo_part_def demo_child_def)
  have watched: "watched_parts (parts_db ''waiting_migration_confirmations'' [demo_part CHR ''c'' 0 110 ''broadcasted'']) ''r'' =
      [demo_part CHR ''c'' 0 110 ''broadcasted'']" by (simp add: watched_parts_def parts_of_def)
  have unpromoted: "unpromoted_signed_child_pczt_count_with_conn ?J ?db ''r'' = Ok 0"
    by (simp add: unpromoted_signed_child_pczt_count_with_conn_def unpromoted_signed_child_note_outpoints_with_conn_def
        signed_of_def part_count_def)
  have trusted: "all_trusted full_chain 10 [demo_txid CHR ''c''] = Ok True"
    by (simp add: demo_chain synced_orchard_confirmation_count_def saturating_add_def u32_max_def)
  show ?thesis
    by (simp add: reconcile_run_confirmations_def action_simps watched andthen_def [of "accumulate _ _ _"] step
        demo_run_read unpromoted finish_confirmations_def count_parts_for_run_def count_pending_with_status_def parts_of_def
        part_count_def planned_part_count_with_conn_def ok_or_def trusted u32_max_def
        del: accumulate.simps all_trusted.simps)
qed

theorem completed_run_is_deep_witness:
  "fully_confirmed (fixed_json [200] []) full_chain 10
     (complete_run 5 ''r'' (parts_db ''waiting_migration_confirmations'' [demo_part CHR ''c'' 0 110 ''confirmed''])) ''r''"
proof -
  let ?db = "complete_run 5 ''r'' (parts_db ''waiting_migration_confirmations'' [demo_part CHR ''c'' 0 110 ''confirmed''])"
  have rows: "run_rows ?db = [set_phase PHASE_COMPLETE 5 None (demo_run\<lparr>run_phase := ''waiting_migration_confirmations''\<rparr>)]"
    by (simp add: complete_run_def live_run_def migration_phase_releases_wallet_locks_def phase_names unlock_notes_def)
  have "set_phase PHASE_COMPLETE 5 None (demo_run\<lparr>run_phase := ''waiting_migration_confirmations''\<rparr>) \<in> set (run_rows ?db)"
    unfolding rows by simp
  from completed_run_is_deep [OF demo_completes _ _ _ _ this] show ?thesis
    by (simp add: demo_unique demo_live set_phase_def phase_names)
qed

section \<open>Broadcasting\<close>

text \<open>
  C29: The due query returns nothing exactly when nothing of a live run is due, and otherwise one
  transaction: the decrypted part with the least planned height, and the least id at that height, among all scheduled
  parts at or below the tip; it is not on the chain and its expiry is the canonical one of its height.
\<close>

theorem due_part_is_earliest:
  assumes "due_pending_txs env J W required clock run tip password salt64 db = (Ok txs, db')"
    "has_transactions W" "unique_txids db" "is_live db run"
  shows "txs = [] \<and> (\<forall>q \<in> set (pending_rows db'). \<not> is_due run tip q) \<or>
    (\<exists>p \<in> set (pending_rows db'). \<exists>salt raw. txs = [\<lparr>due_txid_hex = pend_txid p, due_raw_tx = raw\<rparr>] \<and>
      is_due run tip p \<and> \<not> mined W (pend_txid p) \<and>
      canonical_expiry (pend_scheduled_height p) = Ok (pend_expiry_height p) \<and>
      pending_salt env salt64 = Ok salt \<and> decrypt_payload env (pend_raw p) password salt = Ok raw \<and>
      (\<forall>q \<in> set (pending_rows db'). is_due run tip q \<longrightarrow>
         pend_scheduled_height p < pend_scheduled_height q \<or>
         pend_scheduled_height p = pend_scheduled_height q \<and> pend_txid p \<le> pend_txid q))"
  by (rule due_part [OF assms])

definition sealed_part :: "string \<Rightarrow> pending_row" where
  "sealed_part raw = (demo_part CHR ''c'' 0 110 ''scheduled'')\<lparr>pend_raw := raw\<rparr>"

lemma sealed_part_simps [simp]:
  "pend_txid (sealed_part raw) = demo_txid CHR ''c''" "pend_run_id (sealed_part raw) = ''r''"
  "pend_status (sealed_part raw) = ''scheduled''" "pend_scheduled_height (sealed_part raw) = 110"
  "pend_expiry_height (sealed_part raw) = 69120" "pend_raw (sealed_part raw) = raw"
  by (simp_all add: sealed_part_def)

theorem due_part_is_earliest_witness:
  "\<exists>raw db'. due_pending_txs clear_crypto (fixed_json [] []) bare_chain 10 (\<lambda>i. 5) ''r'' 115 [1] []
       (parts_db ''broadcast_scheduled'' [demo_part CHR ''d'' 2 112 ''scheduled'', sealed_part raw]) =
     (Ok [\<lparr>due_txid_hex = demo_txid CHR ''c'', due_raw_tx = [7]\<rparr>], db') \<and>
     filter (\<lambda>q. is_due ''r'' 115 q \<and> pend_scheduled_height q < 110) (pending_rows db') = []"
proof -
  obtain raw where raw: "encrypt_payload clear_crypto 0 [7] [1] [] = Ok raw"
    by (simp add: encrypt_payload_def payload_key_encrypt_def payload_key_new_def derive_key_def cipher_def
        encrypt_with_cipher_def clear_crypto_def clear_json_def payload_constants Let_def ok_or_def)
  let ?db = "parts_db ''broadcast_scheduled'' [demo_part CHR ''d'' 2 112 ''scheduled'', sealed_part raw]"
  have quiet: "reconcile_run_confirmations (fixed_json [] []) bare_chain 10 (\<lambda>i. 5) ''r'' ?db = (Ok () :: (part_error, unit) outcome, ?db)"
    by (rule quiet_reconcile) simp_all
  have order: "due_rows ?db ''r'' 115 = [sealed_part raw, demo_part CHR ''d'' 2 112 ''scheduled'']"
    by (cases "demo_txid CHR ''d'' \<le> demo_txid CHR ''c''") (simp_all add: due_rows_def parts_of_def)
  have run: "due_pending_txs clear_crypto (fixed_json [] []) bare_chain 10 (\<lambda>i. 5) ''r'' 115 [1] [] ?db =
      (Ok [\<lparr>due_txid_hex = demo_txid CHR ''c'', due_raw_tx = [7]\<rparr>], ?db)"
    by (simp add: due_pending_txs_def demo_salt opened_def action_simps reconcile_run_pending_confirmations_def
        andthen_def [of "reconcile_run_confirmations _ _ _ _ _"] andthen_assoc quiet order demo_chain demo_expiry
        encrypt_payload_opens [OF clear_crypto_ok raw])
  have unique: "unique_txids ?db" by (simp add: unique_txids_def demo_distinct)
  from due_part_is_earliest [OF run bare_has_transactions unique demo_live(1)]
  have "filter (\<lambda>q. is_due ''r'' 115 q \<and> pend_scheduled_height q < 110) (pending_rows ?db) = []"
    by (auto simp: demo_distinct)
  then show ?thesis using run by blast
qed

text \<open>
  The check before a broadcast sends exactly those scheduled parts to be signed again that are due at the tip
  and whose expiry is not the canonical one for the tip, and counts them; then no due part with another expiry is left,
  and if there was one the run waits for signatures.
\<close>

theorem marked_due_parts:
  assumes "mark_due_parts_with_noncanonical_broadcast_height_for_resign J W required clock run tip db = (Ok n, db')"
  shows "\<exists>expiry db1. canonical_expiry tip = Ok expiry \<and>
    reconcile_run_confirmations J W required clock run (ensure_tables db) = (Ok (), db1) \<and>
    pending_rows db' = map (marked (\<lambda>p. is_due run tip p \<and> pend_expiry_height p \<noteq> expiry)) (pending_rows db1) \<and>
    n = length (filter (\<lambda>p. is_due run tip p \<and> pend_expiry_height p \<noteq> expiry) (pending_rows db1)) \<and>
    (n > 0 \<longrightarrow> (\<forall>r \<in> set (run_rows db'). run_key r = run \<longrightarrow> run_phase r = PHASE_READY_TO_MIGRATE)) \<and>
    (\<forall>q \<in> set (pending_rows db'). is_due run tip q \<longrightarrow> pend_expiry_height q = expiry)"
proof -
  obtain expiry db1 where e: "canonical_expiry tip = Ok expiry" and
    one: "reconcile_run_confirmations J W required clock run (ensure_tables db) = (Ok (), db1)" and
    marks: "marks run (\<lambda>p. is_due run tip p \<and> pend_expiry_height p \<noteq> expiry) db1 n db'"
    by (rule mark_due_Ok [OF assms])
  have "pend_expiry_height q = expiry" if q: "q \<in> set (pending_rows db')" "is_due run tip q" for q
  proof -
    from q(1) marks obtain p where p: "q = marked (\<lambda>p. is_due run tip p \<and> pend_expiry_height p \<noteq> expiry) p"
      unfolding marks_def by auto
    show ?thesis
    proof (cases "is_due run tip p \<and> pend_expiry_height p \<noteq> expiry")
      case True
      then have "pend_status q = ''needs_resign''" by (simp add: p marked_def)
      then show ?thesis using q(2) by (simp add: is_due_def)
    next
      case False
      then have "q = p" by (simp only: p marked_def if_False)
      then show ?thesis using q(2) False by simp
    qed
  qed
  then show ?thesis using e one marks unfolding marks_def by blast
qed

theorem marked_due_parts_witness:
  "\<exists>expiry db1. canonical_expiry 40000 = Ok expiry \<and>
     reconcile_run_confirmations (fixed_json [] []) bare_chain 10 (\<lambda>i. 5) ''r''
       (ensure_tables (parts_db ''broadcast_scheduled'' [demo_part CHR ''c'' 0 110 ''scheduled''])) = (Ok (), db1) \<and>
     (\<forall>q \<in> set (pending_rows (ready_for_resign 5 ''r'' boundary_message (parts_db ''broadcast_scheduled''
        [demo_part CHR ''c'' 0 110 ''needs_resign'']))). is_due ''r'' 40000 q \<longrightarrow> pend_expiry_height q = expiry)"
proof -
  let ?db = "parts_db ''broadcast_scheduled'' [demo_part CHR ''c'' 0 110 ''scheduled'']"
  have quiet: "reconcile_run_confirmations (fixed_json [] []) bare_chain 10 (\<lambda>i. 5) ''r'' ?db = (Ok () :: (part_error, unit) outcome, ?db)"
    by (rule quiet_reconcile) simp_all
  have expiry: "canonical_expiry 40000 = Ok 103680" by (simp add: canonical_expiry_def expiry_height_eq u32_max_def)
  have marked: "update_parts (\<lambda>p. pend_run_id p = ''r'' \<and> pend_status p = ''scheduled'' \<and> pend_scheduled_height p \<le> 40000
       \<and> pend_expiry_height p \<noteq> 103680) (set_status ''needs_resign'') ?db =
     parts_db ''broadcast_scheduled'' [demo_part CHR ''c'' 0 110 ''needs_resign'']"
    by (simp add: update_parts_def parts_db_def demo_part_def demo_child_def set_status_def)
  have "mark_due_parts_with_noncanonical_broadcast_height_for_resign (fixed_json [] []) bare_chain 10 (\<lambda>i. 5) ''r'' 40000 ?db =
      (Ok 1, ready_for_resign 5 ''r'' boundary_message (parts_db ''broadcast_scheduled'' [demo_part CHR ''c'' 0 110 ''needs_resign'']))"
    by (simp add: mark_due_parts_with_noncanonical_broadcast_height_for_resign_def opened_def action_simps expiry atomically_def
        andthen_def [of "atomically _"] andthen_def [of "reconcile_run_confirmations _ _ _ _ _"] quiet
        andthen_def [of "execute_parts _ _"] execute_parts_def marked u32_max_def)
  from marked_due_parts [OF this] show ?thesis by blast
qed

text \<open>
  The expiry check sends exactly the parts to be signed again whose expiry height the tip has reached and that are
  scheduled, or broadcast with their bytes in the wallet, and counts them; all other parts stay as the confirmation
  pass left them.
\<close>

theorem marked_expired_parts:
  assumes "mark_expired_pending_parts_for_resign J W required clock run tip db = (Ok n, db')"
    "has_transactions W" "unique_txids db"
  shows "\<exists>db1. reconcile_run_confirmations J W required clock run (ensure_tables db) = (Ok (), db1) \<and>
    pending_rows db' = map (marked (part_expired W run tip)) (pending_rows db1) \<and>
    n = length (filter (part_expired W run tip) (pending_rows db1)) \<and>
    (n = 0 \<longrightarrow> run_rows db' = run_rows db1)"
proof -
  have "unique_txids db1" if "reconcile_run_confirmations J W required clock run (ensure_tables db) = (Ok (), db1)" for db1
    using reconcile_keeps_unique [OF that assms(2)] assms(3) by (simp add: unique_txids_def)
  then obtain db1 where "reconcile_run_confirmations J W required clock run (ensure_tables db) = (Ok (), db1)"
    "marks run (part_expired W run tip) db1 n db'"
    by (rule mark_expired_Ok [OF assms(1)])
  then show ?thesis unfolding marks_def by blast
qed

theorem marked_expired_parts_witness:
  "\<exists>db1. reconcile_run_confirmations (fixed_json [] []) bare_chain 10 (\<lambda>i. 5) ''r''
       (ensure_tables (parts_db ''broadcast_scheduled'' [demo_part CHR ''c'' 0 110 ''scheduled''])) = (Ok (), db1) \<and>
     1 = length (filter (part_expired bare_chain ''r'' 69120) (pending_rows db1))"
proof -
  let ?db = "parts_db ''broadcast_scheduled'' [demo_part CHR ''c'' 0 110 ''scheduled'']"
  have quiet: "reconcile_run_confirmations (fixed_json [] []) bare_chain 10 (\<lambda>i. 5) ''r'' ?db = (Ok () :: (part_error, unit) outcome, ?db)"
    by (rule quiet_reconcile) simp_all
  have expired: "expired_unconfirmed_pending_txids bare_chain ?db ''r'' 69120 = Ok [demo_txid CHR ''c'']"
    by (simp add: expired_unconfirmed_pending_txids_def parts_of_def pending_row_is_expired_for_resign_def)
  have one: "\<exists>db1. accumulate (mark_for_resign ''r'') 0 [demo_txid CHR ''c''] ?db = (Ok 1, db1)"
    by (simp add: mark_for_resign_def action_simps andthen_assoc andthen_def [of "execute_parts _ _"] execute_parts_def is_part_def)
  then have "\<exists>db'. mark_expired_pending_parts_for_resign (fixed_json [] []) bare_chain 10 (\<lambda>i. 5) ''r'' 69120 ?db = (Ok 1, db')"
    by (auto simp: mark_expired_pending_parts_for_resign_def opened_def action_simps atomically_def
        andthen_def [of "atomically _"] andthen_def [of "reconcile_run_confirmations _ _ _ _ _"] quiet expired
        andthen_def [of "accumulate _ _ _"] u32_max_def simp del: accumulate.simps)
  then obtain db' where run: "mark_expired_pending_parts_for_resign (fixed_json [] []) bare_chain 10 (\<lambda>i. 5) ''r'' 69120 ?db = (Ok 1, db')"
    by blast
  from marked_expired_parts [OF run bare_has_transactions demo_unique(2)] show ?thesis by blast
qed

text \<open>
  C37: A part that was confirmed and then left the chain in a reorg is scheduled again at its target height, without a
  look at its expiry. When that height lies in another expiry window than the part's expiry, and the tip is still in
  the window of the expiry, the run is stuck: the check before a broadcast finds nothing to sign again, and the due
  query fails on every call.
\<close>

theorem demoted_part_blocks_due:
  assumes "reconcile_run_pending_confirmations J W required clock run db = (Ok (), db1)" "has_transactions W"
    "unique_txids db" "is_live db run" "parts_of db run = [p]" "pend_status p = ''confirmed''"
    "chain_identity_of W (pend_txid p) = Ok None" "pend_target_height p \<le> tip"
    "canonical_expiry (pend_target_height p) = Ok e" "e \<noteq> pend_expiry_height p"
    "canonical_expiry tip = Ok (pend_expiry_height p)" "pending_salt env salt64 = Ok salt"
  shows "mark_due_parts_with_noncanonical_broadcast_height_for_resign J W required clock run tip db = (Ok 0, db1) \<and>
    due_pending_txs env J W required clock run tip password salt64 db =
      (Err (DueExpiryNotCanonical (pend_txid p) (pend_target_height p)), ensure_tables db1)"
proof -
  let ?q = "unconfirm_row (clock 0) p"
  have run: "reconcile_run_confirmations J W required clock run (ensure_tables db) = (Ok (), db1)"
    using assms(1) by (simp add: reconcile_run_pending_confirmations_def opened_def action_simps)
  have rows: "pending_rows db1 = map (\<lambda>p. if watched run p then settled_part W (clock 0) p else p) (pending_rows db)"
    using reconcile_rows(1) [OF run assms(2)] assms(3,4) by (simp add: unique_txids_def is_live_def)
  have p: "p \<in> set (pending_rows db)" "pend_run_id p = run"
    using assms(5) by (auto simp: parts_of_def filter_eq_Cons_iff)
  have settled: "settled_part W (clock 0) p = ?q" using assms(6,7) by (simp add: settled_part_def)
  have watched_p: "watched run p" using p(2) assms(6) by (simp add: watched_def)
  have same_run: "pend_run_id (if watched run q then settled_part W (clock 0) q else q) = pend_run_id q" for q
    by simp
  have parts: "parts_of db1 run = [?q]"
    using assms(5) unfolding parts_of_def rows filter_map comp_def same_run by (simp add: watched_p settled)
  have due: "due_rows (ensure_tables db1) run tip = [?q]"
    using parts assms(8) by (simp add: due_rows_def parts_of_def unconfirm_row_def)
  have stuck: "first_due env W password salt [?q] = Err (DueExpiryNotCanonical (pend_txid p) (pend_target_height p))"
    using assms(7,9,10) by (simp add: unconfirm_row_def)
  have none: "filter (\<lambda>q. pend_run_id q = run \<and> pend_status q = ''scheduled'' \<and> pend_scheduled_height q \<le> tip
      \<and> pend_expiry_height q \<noteq> pend_expiry_height p) (pending_rows db1) = []"
  proof -
    have "pend_expiry_height q = pend_expiry_height p" if "q \<in> set (pending_rows db1)" "pend_run_id q = run" for q
    proof -
      from that have "q \<in> set (parts_of db1 run)" by (simp add: parts_of_def)
      then show ?thesis by (simp add: parts unconfirm_row_def)
    qed
    then show ?thesis by (auto simp: filter_empty_conv)
  qed
  then have unmarked: "update_parts (\<lambda>q. pend_run_id q = run \<and> pend_status q = ''scheduled'' \<and> pend_scheduled_height q \<le> tip
      \<and> pend_expiry_height q \<noteq> pend_expiry_height p) (set_status ''needs_resign'') db1 = db1"
  proof -
    have "map (\<lambda>q. if pend_run_id q = run \<and> pend_status q = ''scheduled'' \<and> pend_scheduled_height q \<le> tip
      \<and> pend_expiry_height q \<noteq> pend_expiry_height p then set_status ''needs_resign'' q else q) (pending_rows db1) = pending_rows db1"
      by (rule map_idI) (use none in \<open>auto simp: filter_empty_conv\<close>)
    then show ?thesis unfolding update_parts_def by (simp only:) simp
  qed
  have "mark_due_parts_with_noncanonical_broadcast_height_for_resign J W required clock run tip db = (Ok 0, db1)"
    using assms(11) none unmarked
    by (simp add: mark_due_parts_with_noncanonical_broadcast_height_for_resign_def opened_def action_simps atomically_def
        andthen_def [of "atomically _"] andthen_def [of "reconcile_run_confirmations _ _ _ _ _"] run
        andthen_def [of "execute_parts _ _"] execute_parts_def)
  moreover have "due_pending_txs env J W required clock run tip password salt64 db =
      (Err (DueExpiryNotCanonical (pend_txid p) (pend_target_height p)), ensure_tables db1)"
    using assms(1,12) due stuck
    by (simp add: due_pending_txs_def action_simps andthen_def [of "reconcile_run_pending_confirmations _ _ _ _ _"] opened_def)
  ultimately show ?thesis by blast
qed

text \<open>A part signed for the second window whose target height is in the first one.\<close>

definition late_part :: pending_row where
  "late_part = (demo_part CHR ''c'' 0 34600 ''confirmed'')\<lparr>pend_expiry_height := 103680\<rparr>"

theorem demoted_part_blocks_due_witness:
  "\<exists>db'. due_pending_txs clear_crypto (fixed_json [] []) bare_chain 10 (\<lambda>i. 5) ''r'' 34700 [1] []
     (parts_db ''broadcast_scheduled'' [late_part]) = (Err (DueExpiryNotCanonical (demo_txid CHR ''c'') 100), db')"
proof -
  let ?db = "parts_db ''broadcast_scheduled'' [late_part]"
  have late: "pend_txid late_part = demo_txid CHR ''c''" "pend_run_id late_part = ''r''" "pend_status late_part = ''confirmed''"
    "pend_target_height late_part = 100" "pend_expiry_height late_part = 103680"
    by (simp_all add: late_part_def)
  let ?put = "parts_db ''broadcast_scheduled'' [unconfirm_row 5 late_part]"
  let ?db2 = "update_runs (live_run ''r'') (set_phase PHASE_BROADCAST_SCHEDULED 5 None) ?put"
  have step: "accumulate (confirm_step bare_chain 5 ''r'') False [(demo_txid CHR ''c'', ''confirmed'')] ?db = (Ok True, ?put)"
    by (simp add: confirm_step_def action_simps demo_chain andthen_assoc modify_live_def live_run_def phase_names
        migration_phase_releases_wallet_locks_def is_part_def update_parts_def parts_db_def late)
  have watched: "watched_parts ?db ''r'' = [late_part]" by (simp add: watched_parts_def parts_of_def late)
  have live: "live_run ''r'' (demo_run\<lparr>run_phase := ''broadcast_scheduled''\<rparr>)"
    by (simp add: live_run_def migration_phase_releases_wallet_locks_def phase_names)
  have read: "read_run ?db2 ''r'' = Ok (set_phase PHASE_BROADCAST_SCHEDULED 5 None (demo_run\<lparr>run_phase := ''broadcast_scheduled''\<rparr>))"
    by (simp add: read_run_def find_run_def live ok_or_def set_phase_def)
  have unpromoted: "unpromoted_signed_child_pczt_count_with_conn (fixed_json [] []) ?db2 ''r'' = Ok 0"
    by (simp add: unpromoted_signed_child_pczt_count_with_conn_def unpromoted_signed_child_note_outpoints_with_conn_def
        signed_of_def part_count_def)
  have other_phase: "PHASE_BROADCAST_SCHEDULED \<noteq> PHASE_WAITING_MIGRATION_CONFIRMATIONS" by (simp add: part_phases)
  have counts: "count_parts_for_run ?db2 ''r'' = Ok 1" "count_pending_with_status ?db2 ''r'' ''confirmed'' = Ok 0"
    by (simp_all add: count_parts_for_run_def count_pending_with_status_def parts_of_def part_count_def u32_max_def
        unconfirm_row_def late)
  have "reconcile_run_pending_confirmations (fixed_json [] []) bare_chain 10 (\<lambda>i. 5) ''r'' ?db = (Ok (), ?db2)"
    by (simp add: reconcile_run_pending_confirmations_def opened_def reconcile_run_confirmations_def action_simps
        bare_has_transactions watched late andthen_def [of "accumulate _ _ _"] step read unpromoted finish_confirmations_def
        counts other_phase del: accumulate.simps)
  then have "\<exists>db1. reconcile_run_pending_confirmations (fixed_json [] []) bare_chain 10 (\<lambda>i. 5) ''r'' ?db = (Ok (), db1)" by blast
  then obtain db1 where "reconcile_run_pending_confirmations (fixed_json [] []) bare_chain 10 (\<lambda>i. 5) ''r'' ?db = (Ok (), db1)"
    by blast
  from demoted_part_blocks_due [OF this bare_has_transactions, of late_part 34700 69120 clear_crypto "[]" "[]" "[1]"]
  have "due_pending_txs clear_crypto (fixed_json [] []) bare_chain 10 (\<lambda>i. 5) ''r'' 34700 [1] [] ?db =
      (Err (DueExpiryNotCanonical (demo_txid CHR ''c'') 100), ensure_tables db1)"
    by (simp add: unique_txids_def demo_live parts_of_def late demo_chain demo_salt canonical_expiry_def expiry_height_eq u32_max_def)
  then show ?thesis by blast
qed

section \<open>Receipts of the background broadcaster\<close>

text \<open>A receipt of the first of two due parts, with a new height for the other.\<close>

abbreviation two_due :: "u32 \<Rightarrow> migration_db" where
  "two_due height \<equiv> parts_db ''broadcast_scheduled'' [demo_part CHR ''c'' 0 height ''scheduled'', demo_part CHR ''d'' 2 height ''scheduled'']"

definition demo_update :: "u32 \<Rightarrow> u32 \<Rightarrow> outbox_update" where
  "demo_update start height = \<lparr>upd_item_id = demo_txid CHR ''d'', upd_scheduled_height = height, upd_schedule_start_height = start\<rparr>"

lemma demo_update_simps [simp]:
  "upd_item_id (demo_update start height) = demo_txid CHR ''d''" "upd_scheduled_height (demo_update start height) = height"
  "upd_schedule_start_height (demo_update start height) = start"
  by (simp_all add: demo_update_def)

lemma demo_parts_ok: "height < 34560 \<Longrightarrow> parts_ok seen lost (two_due height)"
  by (simp add: parts_ok_def demo_unique unique_indexes_def index_key_def part_ok_def part_statuses_def demo_lower_id demo_expiry)

lemma demo_receipt_accepted:
  assumes "height \<le> start" "start < 69120" "start < fresh" "fresh \<le> start + 576" "fresh < 69120"
  shows "\<exists>db'. apply_accepted_migration_outbox_receipt (fixed_json [1, 2] []) (\<lambda>i. 5) ''a'' Main ''r'' (demo_txid CHR ''c'')
      start [demo_update start fresh] (two_due height) = (Ok (), db')"
proof -
  have expiry: "\<exists>e. canonical_expiry fresh = Ok e"
    using assms(5) by (auto simp: canonical_expiry_def expiry_height_eq u32_max_def)
  have window: "\<not> 576 < fresh - start" using assms(4) by simp
  have check: "check_receipt (two_due height) ''a'' Main ''r'' (demo_txid CHR ''c'') start [demo_update start fresh] =
      Ok (''scheduled'', [(demo_txid CHR ''d'', demo_update start fresh)])"
    using assms window by (auto simp: Let_def check_receipt_def migration_outbox_run_phase_with_conn_def ok_or_def find_lower_part_def
        demo_lower_id demo_distinct timing_policy_for_run_with_conn_def demo_run_read check_update_def checked_sub_def
        transfer_constants overdue_peers_def parts_of_def)
  have found: "find_lower_part (two_due height) ''r'' (demo_txid CHR ''d'') = Some (demo_part CHR ''d'' 2 height ''scheduled'')"
    by (simp add: find_lower_part_def demo_lower_id demo_distinct)
  from expiry obtain e where e: "canonical_expiry fresh = Ok e" by blast
  define f where "f = (if e = 69120 then moved_row (demo_update start fresh) else set_status ''needs_resign'')"
  have f: "pend_run_id (f p) = pend_run_id p" "pend_txid (f p) = pend_txid p" for p
    by (simp_all add: f_def moved_row_def set_status_def)
  have step: "accumulate (apply_update ''r'') False [(demo_txid CHR ''d'', demo_update start fresh)] (two_due height) =
      (Ok (e \<noteq> 69120), update_parts (is_lower_scheduled ''r'' (demo_txid CHR ''d'')) f (two_due height))"
    by (cases "e = 69120") (simp_all add: apply_update_def action_simps andthen_assoc andthen_with_state found ok_or_def e f_def
        moved_row_def [abs_def])
  show ?thesis
    by (cases "e = 69120") (simp_all add: apply_accepted_migration_outbox_receipt_def opened_def action_simps atomically_def check
        andthen_def [of "accumulate _ _ _"] step ok_or_def update_run_after_pending_broadcast_def count_pending_with_status_def
        part_count_def count_parts_for_run_def parts_of_def planned_part_count_with_conn_def read_run_def find_run_def
        f demo_lower_id demo_distinct is_lower_scheduled_def u32_max_def ready_for_resign_def
        unpromoted_signed_child_pczt_count_with_conn_def unpromoted_signed_child_note_outpoints_with_conn_def signed_of_def
        Let_def del: accumulate.simps)
qed

text \<open>
  C2: A receipt that is accepted rewrites the parts of its run and no others: a scheduled part named by an update moves to
  the reported height, or waits for a new signature when that height crosses its expiry window, and the reported
  transaction itself becomes broadcast. When that transaction was still scheduled, no other part of the run is left due
  at the reported height, except parts that have expired.
\<close>

theorem receipt_effect:
  assumes "apply_accepted_migration_outbox_receipt J clock account network run txid remote updates db = (Ok (), db')"
    "parts_ok seen lost db"
  shows "pending_rows db' = map (accepted_row run (to_ascii_lowercase txid) \<circ> receipt_row run (supplied_of updates)) (pending_rows db) \<and>
    (\<forall>a \<in> set (pending_rows db). pend_run_id a = run \<and> pend_txid a = to_ascii_lowercase txid \<and> pend_status a = ''scheduled'' \<longrightarrow>
       (\<forall>q \<in> set (pending_rows db'). is_due run remote q \<longrightarrow> pend_expiry_height q \<le> remote))"
proof
  show "pending_rows db' = map (accepted_row run (to_ascii_lowercase txid) \<circ> receipt_row run (supplied_of updates)) (pending_rows db)"
    by (rule receipt_Ok [OF assms])
  show "\<forall>a \<in> set (pending_rows db). pend_run_id a = run \<and> pend_txid a = to_ascii_lowercase txid \<and> pend_status a = ''scheduled'' \<longrightarrow>
       (\<forall>q \<in> set (pending_rows db'). is_due run remote q \<longrightarrow> pend_expiry_height q \<le> remote)"
    using receipt_clears_due [OF assms] by blast
qed

theorem receipt_effect_witness:
  "\<exists>db'. apply_accepted_migration_outbox_receipt (fixed_json [1, 2] []) (\<lambda>i. 5) ''a'' Main ''r'' (demo_txid CHR ''c'')
     115 [demo_update 115 120] (two_due 110) = (Ok (), db') \<and> (\<forall>q \<in> set (pending_rows db'). \<not> is_due ''r'' 115 q)"
proof -
  obtain db' where run: "apply_accepted_migration_outbox_receipt (fixed_json [1, 2] []) (\<lambda>i. 5) ''a'' Main ''r'' (demo_txid CHR ''c'')
     115 [demo_update 115 120] (two_due 110) = (Ok (), db')"
    using demo_receipt_accepted [of 110 115 120] by auto
  have ok: "parts_ok seen lost (two_due 110)" by (rule demo_parts_ok) simp
  note effect = receipt_effect [OF run ok]
  have "pend_expiry_height q = 69120" if "q \<in> set (pending_rows db')" for q
    using that conjunct1 [OF effect] by (auto simp: accepted_row_def receipt_row_def moved_row_def set_status_def split: option.splits)
  moreover have "pend_expiry_height q \<le> 115" if "q \<in> set (pending_rows db')" "is_due ''r'' 115 q" for q
    using that conjunct2 [OF effect] by (auto simp: demo_lower_id)
  ultimately have "\<forall>q \<in> set (pending_rows db'). \<not> is_due ''r'' 115 q" by fastforce
  then show ?thesis using run by blast
qed

text \<open>
  A receipt is delivered at least once, and a second delivery of the same receipt is harmless when no update crossed an
  expiry window: it succeeds and changes nothing.
\<close>

theorem receipt_replay_is_idle:
  assumes "apply_accepted_migration_outbox_receipt J clock account network run txid remote updates db = (Ok (), db')"
    "parts_ok seen lost db" "\<not> crossing run (supplied_of updates) db"
  shows "apply_accepted_migration_outbox_receipt J clock' account network run txid remote updates db' =
    (Ok (), ensure_tables db')"
  by (rule replay_same [OF assms])

theorem receipt_replay_is_idle_witness:
  "\<exists>db'. apply_accepted_migration_outbox_receipt (fixed_json [1, 2] []) (\<lambda>i. 5) ''a'' Main ''r'' (demo_txid CHR ''c'')
     115 [demo_update 115 120] (two_due 110) = (Ok (), db') \<and>
   apply_accepted_migration_outbox_receipt (fixed_json [1, 2] []) (\<lambda>i. 6) ''a'' Main ''r'' (demo_txid CHR ''c'')
     115 [demo_update 115 120] db' = (Ok (), ensure_tables db')"
proof -
  obtain db' where run: "apply_accepted_migration_outbox_receipt (fixed_json [1, 2] []) (\<lambda>i. 5) ''a'' Main ''r'' (demo_txid CHR ''c'')
     115 [demo_update 115 120] (two_due 110) = (Ok (), db')"
    using demo_receipt_accepted [of 110 115 120] by auto
  have "parts_ok seen lost (two_due 110)" by (rule demo_parts_ok) simp
  moreover have "\<not> crossing ''r'' (supplied_of [demo_update 115 120]) (two_due 110)"
    by (simp add: crossing_def supplied_of_def crosses_def demo_lower_id demo_distinct demo_expiry)
  ultimately show ?thesis using receipt_replay_is_idle [OF run] run by blast
qed

text \<open>
  C36: The second delivery of a receipt with an update that crossed an expiry window is refused: the crossed part waits
  for a signature at its old height, which the replay check takes for a part that was never moved.
\<close>

theorem crossed_receipt_replay_fails:
  assumes "apply_accepted_migration_outbox_receipt J clock account network run txid remote updates db = (Ok (), db')"
    "parts_ok seen lost db" "crossing run (supplied_of updates) db"
    "\<exists>a \<in> set (pending_rows db). pend_run_id a = run \<and> pend_txid a = to_ascii_lowercase txid \<and> pend_status a = ''scheduled''"
  shows "\<exists>item. apply_accepted_migration_outbox_receipt J clock' account network run txid remote updates db' =
    (Err (ReceiptItemNotScheduled item), ensure_tables db')"
  by (rule replay_refused [OF assms])

theorem crossed_receipt_replay_fails_witness:
  "\<exists>db'. apply_accepted_migration_outbox_receipt (fixed_json [1, 2] []) (\<lambda>i. 5) ''a'' Main ''r'' (demo_txid CHR ''c'')
     34500 [demo_update 34500 34600] (two_due 110) = (Ok (), db') \<and>
   (\<exists>item. apply_accepted_migration_outbox_receipt (fixed_json [1, 2] []) (\<lambda>i. 6) ''a'' Main ''r'' (demo_txid CHR ''c'')
     34500 [demo_update 34500 34600] db' = (Err (ReceiptItemNotScheduled item), ensure_tables db'))"
proof -
  obtain db' where run: "apply_accepted_migration_outbox_receipt (fixed_json [1, 2] []) (\<lambda>i. 5) ''a'' Main ''r'' (demo_txid CHR ''c'')
     34500 [demo_update 34500 34600] (two_due 110) = (Ok (), db')"
    using demo_receipt_accepted [of 110 34500 34600] by auto
  have "parts_ok seen lost (two_due 110)" by (rule demo_parts_ok) simp
  moreover have "crossing ''r'' (supplied_of [demo_update 34500 34600]) (two_due 110)"
    by (simp add: crossing_def supplied_of_def crosses_def demo_lower_id demo_distinct canonical_expiry_def expiry_height_eq u32_max_def)
  moreover have "\<exists>a \<in> set (pending_rows (two_due 110)). pend_run_id a = ''r'' \<and>
      pend_txid a = to_ascii_lowercase (demo_txid CHR ''c'') \<and> pend_status a = ''scheduled''"
    by (simp add: demo_lower_id)
  ultimately show ?thesis using crossed_receipt_replay_fails [OF run] run by blast
qed

text \<open>
  After the redraw of a whole wallet a scheduled part of its network is due only if it is the excluded one,
  which was left as it was: an opened wallet broadcasts one part and no more.
\<close>

theorem wallet_redraw_leaves_none_due:
  assumes "reschedule_wallet_overdue_pending_txs_with_exclusion G J clocks network tip excluded rngs db = Some (Ok (), db')"
    "rng_contract G" "p \<in> set (pending_rows db')" "pend_status p = ''scheduled''" "pend_scheduled_height p \<le> tip"
    "r \<in> set (run_rows db)" "run_key r = pend_run_id p" "run_network r = network_name network"
  shows "excluded = Some (pend_run_id p, pend_txid p) \<and> p \<in> set (pending_rows db)"
  by (rule wallet_redraw_leaves [OF assms])

theorem wallet_redraw_leaves_none_due_witness:
  "\<exists>db' p. reschedule_wallet_overdue_pending_txs_after_accepted no_draws (fixed_json [1] []) (\<lambda>i j. 5) Main 115 ''r'' (demo_txid CHR ''c'')
     (\<lambda>i. ()) (parts_db ''broadcast_scheduled'' [demo_part CHR ''c'' 0 110 ''scheduled'']) = Some (Ok (), db') \<and>
   p \<in> set (pending_rows db') \<and> Some (''r'', demo_txid CHR ''c'') = Some (pend_run_id p, pend_txid p)"
proof -
  let ?db = "parts_db ''broadcast_scheduled'' [demo_part CHR ''c'' 0 110 ''scheduled'']"
  let ?p = "demo_part CHR ''c'' 0 110 ''scheduled''"
  have run: "reschedule_wallet_overdue_pending_txs_with_exclusion no_draws (fixed_json [1] []) (\<lambda>i j. 5) Main 115
     (Some (''r'', demo_txid CHR ''c'')) (\<lambda>i. ()) ?db = Some (Ok (), ?db)"
    by (simp add: reschedule_wallet_overdue_pending_txs_with_exclusion_def overdue_runs_def
        reschedule_overdue_pending_txs_with_options_def overdue_parts_def parts_of_def)
  have draws: "rng_contract no_draws" by unfold_locales (simp_all add: no_draws_def)
  have "Some (''r'', demo_txid CHR ''c'') = Some (pend_run_id ?p, pend_txid ?p) \<and> ?p \<in> set (pending_rows ?db)"
    by (rule wallet_redraw_leaves_none_due [OF run draws, where r = "demo_run\<lparr>run_phase := ''broadcast_scheduled''\<rparr>"]) simp_all
  then show ?thesis using run by (auto simp: reschedule_wallet_overdue_pending_txs_after_accepted_def)
qed

section \<open>Recovery schedules and replacement\<close>

text \<open>
  C33: A recovery schedule is drawn once: after a successful call every part that waits for a signature has a
  saved offset the chain has not passed, parts with such an offset have kept theirs, and a second call at the same height
  finds the same generation, draws nothing and writes nothing, also after a crash in between.
\<close>

theorem rebuild_generation_is_found_again:
  assumes "ensure_rebuild_schedule_generation G J run network candidate rng db = Some (Ok (Some g), db')" "rng_contract G"
    "parts_ok seen lost db" "unique_runs db"
  shows "generation_saved run candidate g db' \<and>
    (\<forall>p \<in> set (pending_rows db). \<not> (waiting run p \<and> stale (candidate - gen_origin_height g) p) \<longrightarrow> p \<in> set (pending_rows db')) \<and>
    ensure_rebuild_schedule_generation G J run network candidate rng' db' = Some (Ok (Some g), ensure_tables db')"
proof -
  note saved = generation_is_saved [OF assms]
  then obtain policy where policy: "timing_policy_for_run_with_conn db' run = Ok policy" by blast
  have "ensure_rebuild_schedule_generation G J run network candidate rng' db' = Some (Ok (Some g), ensure_tables db')"
    by (rule generation_found_again [OF _ _ _ _ policy]) (use saved in blast)+
  then show ?thesis using saved by blast
qed

definition recovery_json :: json_env where
  "recovery_json = fixed_json [6980000] [\<lparr>part_index = Some 0, value_zatoshi = 6980000, block_offset = 10\<rparr>]"

lemma recovery_json_simps [simp]:
  "targets_of_json recovery_json t = Some [6980000]"
  "schedule_of_json recovery_json t = Some [\<lparr>part_index = Some 0, value_zatoshi = 6980000, block_offset = 10\<rparr>]"
  by (simp_all add: recovery_json_def)

definition one_waiting :: migration_db where
  "one_waiting = parts_db ''ready_to_migrate'' [demo_part CHR ''c'' 0 110 ''needs_resign'']"

lemma demo_generation:
  "\<exists>g db'. ensure_rebuild_schedule_generation counting_rng recovery_json ''r'' Main 120 6144 one_waiting = Some (Ok (Some g), db')"
proof -
  let ?p = "demo_part CHR ''c'' 0 110 ''needs_resign''"
  have v: "pend_value ?p = 6980000" by (simp add: demo_part_def demo_child_def)
  have tables: "ensure_tables one_waiting = one_waiting" by (simp add: one_waiting_def)
  have rows: "resign_rows one_waiting ''r'' = [?p]" by (simp add: one_waiting_def resign_rows_def parts_of_def)
  obtain ladder where fresh: "rebuild_schedule_block_offsets counting_rng [\<lparr>part_index = Some 0, value_zatoshi = 6980000, block_offset = 10\<rparr>]
      [6980000] [(0, 6980000)] Main Standard 6144 = Some (Ok [ladder])" and small: "ladder \<le> 576"
    by (simp add: rebuild_schedule_block_offsets_def schedule_block_offset_for_part_def schedule_eval assign_slots_def upt_rec)
  have scan: "scan_row 0 empty_scan ?p = Ok \<lparr>scan_offsets = Map.empty, scan_to_assign = [(demo_txid CHR ''c'', 0, 6980000, None)],
      scan_max = 0, scan_any = False\<rparr>"
    by (simp add: scan_row_def empty_scan_def ok_or_def v)
  have read: "read_run one_waiting ''r'' = Ok (demo_run\<lparr>run_phase := ''ready_to_migrate''\<rparr>)" by (simp add: one_waiting_def demo_run_read)
  have plan: "plan_generation recovery_json one_waiting ''r'' 120 = Ok (Standard, demo_run\<lparr>run_phase := ''ready_to_migrate''\<rparr>, 120, 0,
      \<lparr>scan_offsets = Map.empty, scan_to_assign = [(demo_txid CHR ''c'', 0, 6980000, None)], scan_max = 0, scan_any = False\<rparr>)"
    by (simp add: plan_generation_def timing_policy_for_run_with_conn_def read demo_run_read(3) saturating_sub_def Let_def rows scan
        rebuild_base_def)
  have count: "length (filter (\<lambda>p. is_part ''r'' (demo_txid CHR ''c'') p \<and> pend_status p = ''needs_resign''
      \<and> pend_rebuild_offset p = None) (pending_rows one_waiting)) = 1"
    "length (filter (\<lambda>r. run_key r = ''r'') (run_rows one_waiting)) = 1"
    by (simp_all add: one_waiting_def is_part_def)
  have step: "\<exists>acc db1. accumulate (assign_offset ''r'' 0) (0, Map.empty) [((demo_txid CHR ''c'', 0, 6980000, None), ladder)] one_waiting =
      (Ok acc, db1) \<and> run_rows db1 = run_rows one_waiting"
    using small by (simp add: assign_offset_def action_simps andthen_assoc ok_or_def checked_add_def u32_max_def
        andthen_def [of "execute_parts _ _"] execute_parts_def count)
  then obtain acc db1 where step: "accumulate (assign_offset ''r'' 0) (0, Map.empty) [((demo_txid CHR ''c'', 0, 6980000, None), ladder)]
      one_waiting = (Ok acc, db1)" and same: "run_rows db1 = run_rows one_waiting" by blast
  show ?thesis
    by (cases acc) (simp add: ensure_rebuild_schedule_generation_def tables rows plan fresh_rebuild_offsets_def fresh
        atomically_def action_simps assign_generation_def andthen_def [of "accumulate _ _ _"] step
        persist_generation_def andthen_assoc andthen_with_state same count del: accumulate.simps)
qed

theorem rebuild_generation_is_found_again_witness:
  "\<exists>g db'. ensure_rebuild_schedule_generation counting_rng recovery_json ''r'' Main 120 6144 one_waiting = Some (Ok (Some g), db') \<and>
     ensure_rebuild_schedule_generation counting_rng recovery_json ''r'' Main 120 0 db' = Some (Ok (Some g), ensure_tables db')"
proof -
  obtain g db' where run: "ensure_rebuild_schedule_generation counting_rng recovery_json ''r'' Main 120 6144 one_waiting = Some (Ok (Some g), db')"
    using demo_generation by blast
  have "parts_ok seen lost one_waiting"
    by (simp add: one_waiting_def parts_ok_def demo_unique unique_indexes_def part_ok_def part_statuses_def demo_lower_id)
  moreover have "unique_runs one_waiting" by (simp add: one_waiting_def demo_live)
  ultimately show ?thesis using rebuild_generation_is_found_again [OF run counting.rng_contract_axioms] run by blast
qed

text \<open>
  C4: Replacing parts that were signed again exchanges transactions but not what is migrated: the run has the same
  denominations from the same notes before and after, as a multiset, other runs and all note locks are untouched, and
  the run goes back to broadcasting.
\<close>

theorem replacement_keeps_migration:
  assumes "replace_resigned_pending_parts env J clock draw run tip replacements children password salt64 db = (Ok (), db')"
    "parts_ok seen lost db" "\<forall>x \<in> set replacements. to_ascii_lowercase (pin_txid_hex (snd x)) = pin_txid_hex (snd x)"
  shows "image_mset migrates (mset (parts_of db' run)) = image_mset migrates (mset (parts_of db run)) \<and>
    (\<forall>other. other \<noteq> run \<longrightarrow> parts_of db' other = parts_of db other) \<and> note_rows db' = note_rows db \<and>
    (replacements \<noteq> [] \<longrightarrow> (\<forall>r \<in> set (run_rows db'). run_key r = run \<longrightarrow> run_phase r = PHASE_BROADCAST_SCHEDULED))"
  by (rule replace_migrates [OF assms])

definition demo_replacement :: "string \<times> pending_insert" where
  "demo_replacement = (demo_txid CHR ''c'', demo_insert\<lparr>pin_txid_hex := demo_txid CHR ''d'', pin_scheduled_height := 130,
     pin_value_zatoshi := 6980000, pin_selected_note := \<lparr>ref_txid_hex = demo_txid CHR ''a'', ref_output_index = 0,
       ref_value_zatoshi = 6990000, ref_note_version = 2, ref_nullifier_hex = None\<rparr>\<rparr>)"

lemma demo_replaced:
  "\<exists>db'. replace_resigned_pending_parts clear_crypto recovery_json (\<lambda>i. 5) 0 ''r'' 120 [demo_replacement] [] [1] [] one_waiting = (Ok (), db')"
proof -
  let ?p = "snd demo_replacement"
  let ?key = "payload_key_new clear_crypto [1] []"
  have pair: "demo_replacement = (demo_txid CHR ''c'', ?p)" by (simp add: demo_replacement_def)
  have tables: "ensure_tables one_waiting = one_waiting" by (simp add: one_waiting_def)
  have read: "read_run one_waiting ''r'' = Ok (demo_run\<lparr>run_phase := ''ready_to_migrate''\<rparr>)" by (simp add: one_waiting_def demo_run_read)
  have order: "order_replacements [\<lparr>part_index = Some 0, value_zatoshi = 6980000, block_offset = 10\<rparr>] [demo_replacement] [] =
      ([demo_replacement], [])"
    by (simp add: demo_replacement_def entry_matches_def demo_insert_def swap_remove_def)
  obtain raw where raw: "payload_key_encrypt clear_crypto 0 ?key (pin_raw_tx ?p) = Ok raw"
    by (simp add: payload_key_encrypt_def payload_key_new_def derive_key_def cipher_def encrypt_with_cipher_def
        clear_crypto_def clear_json_def payload_constants Let_def ok_or_def)
  have check: "check_replacement one_waiting ''r'' None (demo_txid CHR ''c'') ?p = Ok (demo_part CHR ''c'' 0 110 ''needs_resign'', 100)"
    by (simp add: check_replacement_def one_waiting_def is_part_def ok_or_def demo_replacement_def demo_insert_def demo_expiry
        replacement_start_def checked_sub_def saturating_sub_def, simp add: demo_part_def demo_child_def demo_lower)
  have row: "insert_part_row ((pending_row_of recovery_json ''r'' raw at ?p 100)\<lparr>pend_original_height := original\<rparr>)
      (delete_part ''r'' (demo_txid CHR ''c'') one_waiting) \<noteq> None" for at original
    by (simp add: insert_part_row_def delete_part_def one_waiting_def is_part_def pending_row_of_def demo_replacement_def
        demo_insert_def i64_max_def)
  obtain db1 where step: "accumulate (replace_part clear_crypto recovery_json 5 ''r'' ?key None 120) 0 [demo_replacement] one_waiting = (Ok 1, db1)"
  proof -
    have time: "checked_add i64_max 5 (saturating_sub (pin_scheduled_height ?p) 120 * 1000) = Some 10005"
      by (simp add: demo_replacement_def saturating_sub_def checked_add_def i64_max_def)
    obtain db1 where "insert_part_row ((pending_row_of recovery_json ''r'' raw 10005 ?p 100)\<lparr>pend_original_height :=
        pend_original_height (demo_part CHR ''c'' 0 110 ''needs_resign'')\<rparr>) (delete_part ''r'' (demo_txid CHR ''c'') one_waiting) = Some db1"
      using row by blast
    then have "accumulate (replace_part clear_crypto recovery_json 5 ''r'' ?key None 120) 0 [(demo_txid CHR ''c'', ?p)] one_waiting = (Ok 1, db1)"
      by (simp add: replace_part_def action_simps andthen_assoc andthen_with_state check raw time ok_or_def
          andthen_def [of "statement _ _"] statement_def)
    then show thesis using that pair by simp
  qed
  show ?thesis
    by (simp add: replace_resigned_pending_parts_def opened_def action_simps tables read ok_or_def demo_salt
        atomically_def order andthen_def [of "accumulate _ _ _"] step insert_signed_child_pczts_with_tx_def
        del: order_replacements.simps accumulate.simps)
qed

theorem replacement_keeps_migration_witness:
  "\<exists>db'. replace_resigned_pending_parts clear_crypto recovery_json (\<lambda>i. 5) 0 ''r'' 120 [demo_replacement] [] [1] [] one_waiting = (Ok (), db') \<and>
     image_mset migrates (mset (parts_of db' ''r'')) = {#(6980000, demo_txid CHR ''a'', 0)#}"
proof -
  obtain db' where run: "replace_resigned_pending_parts clear_crypto recovery_json (\<lambda>i. 5) 0 ''r'' 120 [demo_replacement] [] [1] [] one_waiting = (Ok (), db')"
    using demo_replaced by blast
  have ok: "parts_ok seen lost one_waiting"
    by (simp add: one_waiting_def parts_ok_def demo_unique unique_indexes_def part_ok_def part_statuses_def demo_lower_id)
  have lower: "\<forall>x \<in> set [demo_replacement]. to_ascii_lowercase (pin_txid_hex (snd x)) = pin_txid_hex (snd x)"
    by (simp add: demo_replacement_def demo_lower_id)
  have "image_mset migrates (mset (parts_of one_waiting ''r'')) = {#(6980000, demo_txid CHR ''a'', 0)#}"
    by (simp add: one_waiting_def parts_of_def migrates_def, simp add: demo_part_def demo_child_def demo_lower)
  then show ?thesis using replacement_keeps_migration [OF run ok lower] run by auto
qed

section \<open>Locks\<close>

text \<open>
  C30: Stopping a run discards exactly its parts that the network has not seen, deletes its signatures, unlocks its
  notes, and releases the lock of every note and stage input of the run in the wallet; locks of other owners stay.
\<close>

theorem stopping_releases_everything:
  assumes "output_lock_store E holder" "abandon_run E now account network run (db, w) = (Ok (), (db', w'))" "unique_runs db"
    "\<forall>r \<in> set (run_rows db). run_key r = run \<longrightarrow> run_phase r \<noteq> PHASE_ABANDONED"
  shows "pending_rows db' = filter (\<lambda>p. \<not> discarded run p) (pending_rows db) \<and>
    signed_rows db' = filter (\<lambda>c. sign_run_id c \<noteq> run) (signed_rows db) \<and>
    (\<forall>r \<in> set (run_rows db'). run_key r = run \<longrightarrow> run_phase r = PHASE_ABANDONED) \<and>
    (\<forall>n \<in> set (note_rows db'). note_run_id n = run \<longrightarrow> note_lock_state n = ''unlocked'') \<and>
    (\<forall>c \<in> set (wallet_lock_candidates_with_conn db run).
      \<exists>o1. orchard_output_ref c = Ok o1 \<and> holder w' o1 \<noteq> Some (migration_lock_owner E run)) \<and>
    others_kept holder {migration_lock_owner E run} w w'"
  using output_lock_store.abandon_Ok [OF assms] by blast

lemma demo_outputs:
  "\<exists>o1. orchard_output_ref (demo_txid CHR ''A'', 0) = Ok o1" "\<exists>o1. orchard_output_ref (demo_txid CHR ''b'', 0) = Ok o1"
proof -
  have "hex_decode (demo_txid CHR ''A'') = Some (replicate 32 170)" "hex_decode (demo_txid CHR ''b'') = Some (replicate 32 187)"
    by code_simp+
  then show "\<exists>o1. orchard_output_ref (demo_txid CHR ''A'', 0) = Ok o1" "\<exists>o1. orchard_output_ref (demo_txid CHR ''b'', 0) = Ok o1"
    by (simp_all add: orchard_output_ref_def ok_or_def)
qed


lemma map_unlocks:
  "\<forall>c \<in> set cs. \<exists>o1. orchard_output_ref c = Ok o1 \<Longrightarrow>
    \<exists>w'. unlock_orchard_migration_outputs (map_store height hash) run cs w = (Ok (), w')"
proof (induction cs arbitrary: w)
  case (Cons c cs)
  then obtain o1 where "orchard_output_ref c = Ok o1" by auto
  then obtain v where "unlock_candidate (map_store height hash) (migration_lock_owner (map_store height hash) run) c w = (Ok (), v)"
    by (simp add: unlock_candidate_def action_simps map_store_def map_unlock_def)
  with Cons show ?case by (auto simp: unlock_orchard_migration_outputs_def andthen_def)
qed (simp add: unlock_orchard_migration_outputs_def)

lemma reconcile_eight:
  "reconcile_passes E run dbs i 8 w = andthen (reconcile_pass E run (dbs i) (dbs (Suc i))) (\<lambda>result.
     case result of Some completed \<Rightarrow> yield completed | None \<Rightarrow> reconcile_passes E run dbs (Suc (Suc i)) 7) w"
  using reconcile_passes.simps(2) [of E run dbs i 7 w] by simp

theorem stopping_releases_everything_witness:
  "\<exists>db' w'. abandon_run (map_store (Some 100) id) 5 ''a'' Main ''r''
     (parts_db ''broadcast_scheduled'' [demo_part CHR ''c'' 0 110 ''scheduled'', demo_part CHR ''d'' 2 110 ''broadcasted''], Map.empty)
     = (Ok (), (db', w')) \<and> map pend_status (pending_rows db') = [''broadcasted'']"
proof -
  let ?E = "map_store (Some 100) id"
  let ?db = "parts_db ''broadcast_scheduled'' [demo_part CHR ''c'' 0 110 ''scheduled'', demo_part CHR ''d'' 2 110 ''broadcasted'']"
  have "\<exists>db1. stop_transition 5 ''r'' ''broadcast_scheduled'' ?db = (Ok (), db1) \<and>
      find_run db1 ''r'' = Some ((set_phase PHASE_ABANDONED 5 (Some stopped_message) demo_run)) \<and>
      set (wallet_lock_candidates_with_conn db1 ''r'') = {(demo_txid CHR ''A'', 0), (demo_txid CHR ''b'', 0)}"
    by (simp add: stop_transition_def atomically_def action_simps Let_def find_run_def set_phase_def unlock_notes_def
        discard_parts_def wallet_lock_candidates_with_conn_def parts_db_def demo_stages_def demo_run_def, force)
  then obtain db1 where stop: "stop_transition 5 ''r'' ''broadcast_scheduled'' ?db = (Ok (), db1)" and
    found: "find_run db1 ''r'' = Some (set_phase PHASE_ABANDONED 5 (Some stopped_message) demo_run)" and
    cands: "set (wallet_lock_candidates_with_conn db1 ''r'') = {(demo_txid CHR ''A'', 0), (demo_txid CHR ''b'', 0)}" by blast
  obtain w' where unlock: "unlock_orchard_migration_outputs ?E ''r'' (wallet_lock_candidates_with_conn db1 ''r'') Map.empty = (Ok (), w')"
    using map_unlocks [of "wallet_lock_candidates_with_conn db1 ''r''" "Some 100" id "''r''" Map.empty] demo_outputs cands by auto
  have locks: "reconcile_wallet_locks_for_run ?E ''r'' (db1, Map.empty) = (Ok (), (db1, w'))"
    by (simp add: reconcile_wallet_locks_for_run_def reconcile_wallet_locks_for_run_with_outcome_def reconcile_eight
        reconcile_pass_def wallet_lock_reconciliation_snapshot_def found migration_phase_releases_wallet_locks_def phase_names
        action_simps andthen_assoc andthen_def [of "unlock_orchard_migration_outputs _ _ _"] unlock)
  have active: "''broadcast_scheduled'' \<noteq> PHASE_ABANDONED" "''broadcast_scheduled'' \<noteq> PHASE_COMPLETE"
    "''broadcast_scheduled'' \<noteq> PHASE_FAILED_TERMINAL" by (simp_all add: phase_names)
  have run: "\<exists>db'. abandon_run ?E 5 ''a'' Main ''r'' (?db, Map.empty) = (Ok (), (db', w'))"
    by (simp add: abandon_run_def on_db_def andthen_def [of "\<lambda>(db, w). _ db w"] modify_def with_state_def demo_run_read
        action_simps active stop andthen_def [of "reconcile_wallet_locks_for_run _ _"] locks discard_stages_def)
  then obtain db' where run: "abandon_run ?E 5 ''a'' Main ''r'' (?db, Map.empty) = (Ok (), (db', w'))" by blast
  have "pending_rows db' = filter (\<lambda>p. \<not> discarded ''r'' p) (pending_rows ?db)"
    using stopping_releases_everything [OF map_locks.output_lock_store_axioms run] by (simp add: demo_live active)
  then show ?thesis using run by (auto simp: discarded_def)
qed




text \<open>
  C31: The recovery after a restart releases exactly the proposal locks of earlier processes that may be
  released (those not retained, or past their expiry), deletes the rows of exactly their owners, and leaves every
  other lock of the wallet.
\<close>

theorem proposal_recovery_is_exact:
  assumes "output_lock_store E holder" "recover_previous_process E session (rows, w) = (Ok (), (rows', w'))"
  shows "\<exists>target. (previous_rows session rows \<noteq> {} \<longrightarrow> target_height_of E w = Ok target) \<and>
    set rows' = {q \<in> set rows. \<forall>r. to_release session target rows r \<longrightarrow> prop_owner q \<noteq> prop_owner r} \<and>
    (\<forall>r. to_release session target rows r \<longrightarrow> (\<exists>o1. row_output r = Ok o1 \<and> holder w' o1 \<noteq> Some (prop_owner r))) \<and>
    others_kept holder (prop_owner ` {r. to_release session target rows r}) w w'"
  by (rule output_lock_store.recovered [OF assms]) blast

definition old_row :: proposal_row where
  "old_row = \<lparr>prop_owner = replicate 32 1, prop_session = [7], prop_txid = replicate 32 2, prop_pool = 3,
     prop_output_index = 0, prop_expiry = 50, prop_retain = False\<rparr>"

definition kept_row :: proposal_row where
  "kept_row = old_row\<lparr>prop_owner := replicate 32 3, prop_retain := True, prop_expiry := 200\<rparr>"

text \<open>Two locks of an earlier process, the second retained until a height not yet reached.\<close>

theorem proposal_recovery_is_exact_witness:
  "\<exists>w'. recover_previous_process (map_store (Some 100) id) [8] ([old_row, kept_row], Map.empty) = (Ok (), ([kept_row], w')) \<and>
     others_kept map_holder {replicate 32 1} Map.empty w'"
proof -
  let ?E = "map_store (Some 100) id" and ?rows = "[old_row, kept_row]"
  have order: "orphan_rows [8] ?rows = ?rows"
    by (simp add: orphan_rows_def old_row_def kept_row_def blob_key_def, simp add: numeral_eq_Suc)
  have locks: "read_previous_session_locks [8] ?rows = Ok
      [\<lparr>orphan_owner = replicate 32 1, orphan_expiry = 50, orphan_retain = False,
        orphan_outputs = [\<lparr>oref_txid = replicate 32 2, oref_pool = OrchardPool, oref_index = 0\<rparr>]\<rparr>,
       \<lparr>orphan_owner = replicate 32 3, orphan_expiry = 200, orphan_retain = True,
        orphan_outputs = [\<lparr>oref_txid = replicate 32 2, oref_pool = OrchardPool, oref_index = 0\<rparr>]\<rparr>]"
    by (simp add: read_previous_session_locks_def order, simp add: read_orphan_def old_row_def kept_row_def
        metadata_agrees_def pool_from_code_def u32_max_def)
  have store: "target_height_of ?E w = Ok (Some 100)" "unlock_output ?E = map_unlock" for w by (simp_all add: map_store_def)
  have removed: "remove_rows (replicate 32 1) ?rows = [kept_row]" by (simp add: remove_rows_def old_row_def kept_row_def)
  have free: "for_each (release_orphan ?E) [\<lparr>orphan_owner = replicate 32 1, orphan_expiry = 50, orphan_retain = False,
        orphan_outputs = [\<lparr>oref_txid = replicate 32 2, oref_pool = OrchardPool, oref_index = 0\<rparr>]\<rparr>] Map.empty =
      (Ok () :: (lock_error, unit) outcome, Map.empty)"
    by (simp add: action_simps release_orphan_def store map_unlock_def andthen_def)
  have store_step: "andthen (on_store m) k (rows, w) = (case m w of (r, w') \<Rightarrow>
      case r of Ok x \<Rightarrow> k x (rows, w') | Err e \<Rightarrow> (Err (ProposalLockFailed e), (rows, w')) | Panic \<Rightarrow> (Panic, (rows, w')))"
    for m :: "(lock_map, lock_error, unit) action" and k :: "unit \<Rightarrow> (proposal_table \<times> lock_map, proposal_error, unit) action"
      and rows w
    by (simp add: andthen_def on_store_def split: prod.splits outcome.splits)
  have "\<exists>w'. recover_previous_process ?E [8] (?rows, Map.empty) = (Ok (), ([kept_row], w'))"
    by (simp add: recover_previous_process_def locks action_simps store should_release_after_restart_def
        store_step free removed Let_def del: for_each.simps)
  then obtain w' where run: "recover_previous_process ?E [8] (?rows, Map.empty) = (Ok (), ([kept_row], w'))" by blast
  have prev: "previous_rows [8] ?rows = {old_row, kept_row}" by (auto simp: previous_rows_def old_row_def kept_row_def)
  obtain target where t: "target_height_of ?E Map.empty = Ok target" and
    others: "others_kept map_holder (prop_owner ` {r. to_release [8] target ?rows r}) Map.empty w'"
    using proposal_recovery_is_exact [OF map_locks.output_lock_store_axioms run] prev by auto
  have "target = Some 100" using t store by simp
  then have "{r. to_release [8] target ?rows r} = {old_row}"
    unfolding to_release_def prev by (auto simp: should_release_after_restart_def old_row_def kept_row_def)
  then show ?thesis using run others by (auto simp: old_row_def)
qed

end
