(* ===== verification/AnchorRetention.thy ===== *)
theory AnchorRetention
  imports WalletLocks Anchors "HOL-Library.Product_Lexorder"
begin

text \<open>
  The checkpoints of the Orchard tree that the proofs of prepared notes still need
  (\<open>rust/src/wallet/sync/migration.rs\<close>, \<open>rust/src/wallet/sync/send.rs\<close>): a ledger in the
  migration database says which run needs which checkpoint and whether the migration itself has
  pinned it; the maintenance before and after a scan stages the ledger, pins and unpins, and then
  finishes the releases. The tree is a part of the wallet library: its state is a type parameter,
  \<open>retention_env\<close> holds the calls the code makes. The state of an operation is the pair of the
  ledger and the wallet.
\<close>

record retained_row =
  ret_network :: string
  ret_run_id :: string
  ret_height :: u32
  ret_owns :: bool

type_synonym ledger = "retained_row list"

record retention_candidate =
  cand_run_id :: string
  cand_account :: string
  cand_note :: prepared_note_ref
  cand_policy :: timing_policy

datatype retention_error =
    RetentionPartError part_error
  | LedgerConflict
  | TreeFailed
  | RetentionHeightFailed
  | RetentionAccountInvalid
  | RetentionAccountNotFound
  | RetentionNotesFailed
  | RetentionNoteNotV2
  | RetentionValueInvalid
  | RetentionValueChanged
  | RetentionMinedHeightMissing
  | ActivationUnavailable

text \<open>A note as the wallet returns it, the id in its display form.\<close>

record orchard_note =
  orch_txid_hex :: string
  orch_output_index :: u32
  orch_version :: nat
  orch_value :: u64
  orch_mined_height :: "u32 option"

record 'w retention_env =
  checkpoints_of :: "'w \<Rightarrow> (retention_error, u32 list) outcome"
  retained_of :: "'w \<Rightarrow> (retention_error, u32 set) outcome"
  ensure_retained :: "u32 \<Rightarrow> ('w, retention_error, unit) action"
  remove_retained :: "u32 \<Rightarrow> ('w, retention_error, unit) action"
  anchor_height_of :: "'w \<Rightarrow> (retention_error, u32 option) outcome"
  account_exists :: "'w \<Rightarrow> string \<Rightarrow> (retention_error, bool) outcome"
  unspent_orchard_notes :: "'w \<Rightarrow> string \<Rightarrow> u32 \<Rightarrow> (retention_error, orchard_note list) outcome"
  zatoshis_ok :: "u64 \<Rightarrow> bool"
  nu6_3_activation :: "wallet_network \<Rightarrow> u32 option"
  durable_interval :: u32

section \<open>Who needs an anchor\<close>

definition migration_child_materialization_exists_with_conn :: "migration_db \<Rightarrow> string \<Rightarrow> bool" where
  "migration_child_materialization_exists_with_conn db run_id \<longleftrightarrow>
     signed_of db run_id \<noteq> [] \<or> parts_of db run_id \<noteq> []"

definition PHASE_BROADCASTING :: string where "PHASE_BROADCASTING = ''broadcasting''"
definition PHASE_FAILED_RECOVERABLE :: string where "PHASE_FAILED_RECOVERABLE = ''failed_recoverable''"
definition PHASE_PAUSED :: string where "PHASE_PAUSED = ''paused''"

definition retention_phases :: "string list" where
  "retention_phases =
     [PHASE_WAITING_DENOM_CONFIRMATIONS, PHASE_READY_TO_MIGRATE, PHASE_BROADCAST_SCHEDULED, PHASE_BROADCASTING,
      PHASE_FAILED_RECOVERABLE, PHASE_PAUSED]"

definition materialized_phases :: "string list" where
  "materialized_phases =
     [PHASE_BROADCAST_SCHEDULED, PHASE_BROADCASTING, PHASE_FAILED_RECOVERABLE, PHASE_PAUSED]"

definition note_ref_of_row :: "note_row \<Rightarrow> prepared_note_ref" where
  "note_ref_of_row n =
     \<lparr>ref_txid_hex = note_txid n, ref_output_index = note_output_index n, ref_value_zatoshi = note_value n,
      ref_note_version = note_version n, ref_nullifier_hex = note_nullifier n\<rparr>"

text \<open>The join of the runs with their notes; notes of the same outpoint keep the order of the tables.\<close>

definition retention_rows :: "migration_db \<Rightarrow> wallet_network \<Rightarrow> (run_row \<times> note_row) list" where
  "retention_rows db network =
     sort_key (\<lambda>(r, n). (run_account r, note_txid n, note_output_index n))
       (concat (map (\<lambda>r. map (Pair r) (filter (\<lambda>n. note_run_id n = run_key r \<and> note_version n = 2) (note_rows db)))
          (filter (\<lambda>r. run_network r = network_name network \<and> run_phase r \<in> set retention_phases) (run_rows db))))"

definition remaining_outpoints ::
  "json_env \<Rightarrow> migration_db \<Rightarrow> run_row \<Rightarrow> (part_error, (string \<times> u32) list option) outcome" where
  "remaining_outpoints J db r =
     (if run_phase r \<in> set materialized_phases \<and> migration_child_materialization_exists_with_conn db (run_key r)
      then obind (unpromoted_signed_child_note_outpoints_with_conn J db (run_key r)) (\<lambda>outpoints. Ok (Some outpoints))
      else Ok None)"

definition retention_candidate_of ::
  "json_env \<Rightarrow> migration_db \<Rightarrow> run_row \<times> note_row \<Rightarrow> (part_error, retention_candidate list) outcome" where
  "retention_candidate_of J db = (\<lambda>(r, n).
     obind (remaining_outpoints J db r) (\<lambda>remaining.
       if (case remaining of None \<Rightarrow> False
           | Some outpoints \<Rightarrow> (to_ascii_lowercase (note_txid n), note_output_index n) \<notin> set outpoints)
       then Ok []
       else obind (map_err PartPolicyFailed (timing_policy_from_str (run_timing_policy r))) (\<lambda>policy.
         Ok [\<lparr>cand_run_id = run_key r, cand_account = run_account r, cand_note = note_ref_of_row n,
              cand_policy = policy\<rparr>])))"

definition prepared_anchor_retention_candidates ::
  "json_env \<Rightarrow> migration_db \<Rightarrow> wallet_network \<Rightarrow> (part_error, retention_candidate list) outcome" where
  "prepared_anchor_retention_candidates J db network =
     obind (mapM (retention_candidate_of J db) (retention_rows db network)) (\<lambda>cs. Ok (concat cs))"

section \<open>The ledger\<close>

definition RETENTION_RELEASE_SENTINEL_RUN_ID :: string where
  "RETENTION_RELEASE_SENTINEL_RUN_ID = ''''"

definition of_network :: "wallet_network \<Rightarrow> ledger \<Rightarrow> ledger" where
  "of_network network rows = filter (\<lambda>q. ret_network q = network_name network) rows"

definition migration_anchor_retention_references_exist :: "wallet_network \<Rightarrow> ledger \<Rightarrow> bool" where
  "migration_anchor_retention_references_exist network rows \<longleftrightarrow> of_network network rows \<noteq> []"

definition migration_anchor_retention_references :: "wallet_network \<Rightarrow> ledger \<Rightarrow> (string \<times> u32) set" where
  "migration_anchor_retention_references network rows =
     set (map (\<lambda>q. (ret_run_id q, ret_height q))
       (filter (\<lambda>q. ret_run_id q \<noteq> RETENTION_RELEASE_SENTINEL_RUN_ID) (of_network network rows)))"

definition is_wallet_durable_anchor :: "u32 \<Rightarrow> u32 option \<Rightarrow> u32 \<Rightarrow> bool" where
  "is_wallet_durable_anchor interval floor_height height \<longleftrightarrow>
     (case floor_height of None \<Rightarrow> False | Some h \<Rightarrow> height \<ge> h) \<and> interval dvd height"

definition owned_heights :: "wallet_network \<Rightarrow> ledger \<Rightarrow> u32 set" where
  "owned_heights network rows = set (map ret_height (filter ret_owns (of_network network rows)))"

text \<open>The rows of the wanted references; the first run of a checkpoint takes the ownership.\<close>

fun reference_rows :: "string \<Rightarrow> (u32 \<Rightarrow> bool) \<Rightarrow> u32 set \<Rightarrow> (string \<times> u32) list \<Rightarrow> ledger" where
  "reference_rows name owns assigned [] = []"
| "reference_rows name owns assigned ((run_id, height) # refs) =
     \<lparr>ret_network = name, ret_run_id = run_id, ret_height = height, ret_owns = owns height \<and> height \<notin> assigned\<rparr>
     # reference_rows name owns (if owns height then insert height assigned else assigned) refs"

definition release_row :: "string \<Rightarrow> u32 \<Rightarrow> retained_row" where
  "release_row name height =
     \<lparr>ret_network = name, ret_run_id = RETENTION_RELEASE_SENTINEL_RUN_ID, ret_height = height, ret_owns = True\<rparr>"

definition heights_to_release :: "'w retention_env \<Rightarrow> wallet_network \<Rightarrow> (string \<times> u32) set \<Rightarrow> ledger \<Rightarrow> u32 list" where
  "heights_to_release E network desired rows =
     filter (\<lambda>h. \<not> is_wallet_durable_anchor (durable_interval E) (nu6_3_activation E network) h)
       (sorted_list_of_set (owned_heights network rows - snd ` desired))"

definition migration_owns :: "'w retention_env \<Rightarrow> wallet_network \<Rightarrow> ledger \<Rightarrow> u32 set \<Rightarrow> u32 \<Rightarrow> bool" where
  "migration_owns E network rows retained_before h \<longleftrightarrow>
     h \<in> owned_heights network rows \<or> h \<notin> retained_before
     \<or> \<not> is_wallet_durable_anchor (durable_interval E) (nu6_3_activation E network) h"

text \<open>The key is network, run and height; a conflict rolls the transaction back.\<close>

definition stage_migration_anchor_retention_references ::
  "'w retention_env \<Rightarrow> wallet_network \<Rightarrow> (string \<times> u32) set \<Rightarrow> u32 set \<Rightarrow> (ledger, retention_error, u32 list) action"
where
  "stage_migration_anchor_retention_references E network desired retained_before rows =
     (let release = heights_to_release E network desired rows;
          new = reference_rows (network_name network) (migration_owns E network rows retained_before) {}
                  (sorted_list_of_set desired)
                @ map (release_row (network_name network)) release
      in if distinct (map (\<lambda>q. (ret_run_id q, ret_height q)) new)
         then (Ok release, filter (\<lambda>q. ret_network q \<noteq> network_name network) rows @ new)
         else (Err LedgerConflict, rows))"

definition finish_migration_anchor_retention_releases :: "wallet_network \<Rightarrow> u32 list \<Rightarrow> ledger \<Rightarrow> ledger" where
  "finish_migration_anchor_retention_releases network released rows =
     filter (\<lambda>q. \<not> (ret_network q = network_name network \<and> ret_run_id q = RETENTION_RELEASE_SENTINEL_RUN_ID
       \<and> ret_height q \<in> set released)) rows"

section \<open>Checkpoints\<close>

definition representative_orchard_checkpoint :: "u32 list \<Rightarrow> u32 \<Rightarrow> u32 \<Rightarrow> u32 option" where
  "representative_orchard_checkpoint heights logical_boundary_height note_mined_height =
     (case filter (\<lambda>h. note_mined_height \<le> h \<and> h \<le> logical_boundary_height) heights of
        [] \<Rightarrow> None
      | h # hs \<Rightarrow> Some (Max (set (h # hs))))"

definition migration_anchor_retention_boundary ::
  "wallet_network \<Rightarrow> timing_policy \<Rightarrow> u32 \<Rightarrow> u32 \<Rightarrow> u32 option" where
  "migration_anchor_retention_boundary network policy anchor_height note_mined_height =
     Option.bind (zip318_anchor_boundary_at_or_before_with_policy network policy anchor_height) (\<lambda>boundary.
       if boundary \<ge> note_mined_height then Some boundary else None)"

definition migration_anchor_checkpoints_to_retain ::
  "wallet_network \<Rightarrow> timing_policy \<Rightarrow> u32 \<Rightarrow> u32 \<Rightarrow> u32 \<Rightarrow> u32 list \<Rightarrow> u32 set" where
  "migration_anchor_checkpoints_to_retain network policy anchor_height note_mined_height activation heights =
     (case migration_anchor_retention_boundary network policy anchor_height note_mined_height of
        None \<Rightarrow> {}
      | Some latest_boundary \<Rightarrow>
          set (List.map_filter (\<lambda>boundary. representative_orchard_checkpoint heights boundary note_mined_height)
            (latest_boundary # take 1 (zip318_anchor_candidate_boundaries_with_policy network policy anchor_height
               note_mined_height activation))))"

fun first_of_each_checkpoint :: "u32 set \<Rightarrow> (u32 \<times> u32 option) list \<Rightarrow> (u32 \<times> u32) list" where
  "first_of_each_checkpoint seen [] = []"
| "first_of_each_checkpoint seen ((boundary, None) # rest) = first_of_each_checkpoint seen rest"
| "first_of_each_checkpoint seen ((boundary, Some checkpoint) # rest) =
     (if checkpoint \<in> seen then first_of_each_checkpoint seen rest
      else (boundary, checkpoint) # first_of_each_checkpoint (insert checkpoint seen) rest)"

definition available_orchard_anchor_candidates :: "u32 list \<Rightarrow> u32 list \<Rightarrow> u32 \<Rightarrow> (u32 \<times> u32) list" where
  "available_orchard_anchor_candidates logical_boundaries heights note_mined_height =
     first_of_each_checkpoint {}
       (map (\<lambda>b. (b, representative_orchard_checkpoint heights b note_mined_height)) logical_boundaries)"

text \<open>\<open>(first..batch_end).step_by(modulus)\<close>.\<close>

definition boundaries_from :: "u32 \<Rightarrow> u32 \<Rightarrow> u32 \<Rightarrow> u32 list" where
  "boundaries_from first_boundary batch_end modulus =
     filter (\<lambda>b. (b - first_boundary) mod modulus = 0) [first_boundary ..< batch_end]"

definition checkpoint_representatives_for_scan :: "u32 list \<Rightarrow> u32 \<Rightarrow> u32 \<Rightarrow> u32 \<Rightarrow> u32 \<Rightarrow> u32 set" where
  "checkpoint_representatives_for_scan heights activation frontier batch_end modulus =
     (if modulus = 0 \<or> frontier \<ge> batch_end then {}
      else let first_eligible = max frontier (saturating_add u32_max activation 1);
               remainder = first_eligible mod modulus
        in case (if remainder = 0 then Some first_eligible
                 else checked_add u32_max first_eligible (modulus - remainder)) of
             None \<Rightarrow> {}
           | Some first_boundary \<Rightarrow>
               set (List.map_filter (\<lambda>boundary. representative_orchard_checkpoint heights boundary 0)
                 (boundaries_from first_boundary batch_end modulus)))"

section \<open>The maintenance\<close>

definition on_ledger :: "(ledger, retention_error, 'a) action \<Rightarrow> (ledger \<times> 'w, retention_error, 'a) action" where
  "on_ledger m = (\<lambda>(rows, w). case m rows of (r, rows') \<Rightarrow> (r, (rows', w)))"

definition on_tree :: "('w, retention_error, 'a) action \<Rightarrow> (ledger \<times> 'w, retention_error, 'a) action" where
  "on_tree m = (\<lambda>(rows, w). case m w of (r, w') \<Rightarrow> (r, (rows, w')))"

text \<open>The end of both passes: stage, pin, unpin, finish.\<close>

definition apply_retention ::
  "'w retention_env \<Rightarrow> wallet_network \<Rightarrow> (string \<times> u32) set \<Rightarrow> u32 set \<Rightarrow> (ledger \<times> 'w, retention_error, unit) action"
where
  "apply_retention E network desired retained_before =
     andthen (on_ledger (stage_migration_anchor_retention_references E network desired retained_before)) (\<lambda>released.
     andthen (on_tree (for_each (ensure_retained E) (sorted_list_of_set (snd ` desired)))) (\<lambda>_.
     andthen (on_tree (for_each (remove_retained E) released)) (\<lambda>_.
       on_ledger (modify (finish_migration_anchor_retention_releases network released)))))"

text \<open>All candidates of a run carry the policy of its row; the first one is taken.\<close>

definition run_policies :: "retention_candidate list \<Rightarrow> (string \<times> timing_policy) list" where
  "run_policies cs =
     map (\<lambda>run_id. (run_id, the (map_of (map (\<lambda>c. (cand_run_id c, cand_policy c)) cs) run_id)))
       (sort (remdups (map cand_run_id cs)))"

definition projected_references ::
  "wallet_network \<Rightarrow> retention_candidate list \<Rightarrow> u32 list \<Rightarrow> u32 \<Rightarrow> u32 \<Rightarrow> u32 \<Rightarrow> (string \<times> u32) set" where
  "projected_references network cs heights activation frontier batch_end =
     (\<Union>(run_id, policy) \<in> set (run_policies cs).
        Pair run_id ` checkpoint_representatives_for_scan heights activation frontier batch_end
          (anchor_bucket_modulus network policy))"

definition retain_migration_anchor_checkpoints_before_scan ::
  "'w retention_env \<Rightarrow> json_env \<Rightarrow> migration_db \<Rightarrow> wallet_network \<Rightarrow> u32 \<Rightarrow> u32 \<Rightarrow> u32 set \<Rightarrow>
    (ledger \<times> 'w, retention_error, usize) action" where
  "retain_migration_anchor_checkpoints_before_scan E J db network frontier batch_end incoming =
     andthen (lift_outcome (map_err RetentionPartError (prepared_anchor_retention_candidates J db network))) (\<lambda>cs.
       if cs = [] then yield 0
       else with_state (\<lambda>(rows, w).
         andthen (lift_outcome (checkpoints_of E w)) (\<lambda>heights.
         andthen (lift_outcome (ok_or (nu6_3_activation E network) ActivationUnavailable)) (\<lambda>activation.
         andthen (lift_outcome (retained_of E w)) (\<lambda>retained_before.
           let desired = migration_anchor_retention_references network rows \<union>
                 projected_references network cs (sorted_list_of_set (insert frontier (set heights \<union> incoming)))
                   activation frontier batch_end
           in andthen (apply_retention E network desired retained_before) (\<lambda>_. yield (card (snd ` desired))))))))"

definition migration_anchor_retention_required ::
  "json_env \<Rightarrow> migration_db \<Rightarrow> wallet_network \<Rightarrow> ledger \<Rightarrow> (part_error, bool) outcome" where
  "migration_anchor_retention_required J db network rows =
     obind (prepared_anchor_retention_candidates J db network) (\<lambda>cs.
       Ok (cs \<noteq> [] \<or> migration_anchor_retention_references_exist network rows))"

text \<open>\<open>select_spendable_orchard_v2_notes\<close> of \<open>migration_wallet_ops.rs\<close>.\<close>

definition select_spendable_orchard_v2_notes ::
  "'w retention_env \<Rightarrow> 'w \<Rightarrow> string \<Rightarrow> u32 \<Rightarrow> (retention_error, orchard_note list) outcome" where
  "select_spendable_orchard_v2_notes E w account anchor_height =
     obind (unspent_orchard_notes E w account anchor_height) (\<lambda>notes. Ok (filter (\<lambda>n. orch_version n = 2) notes))"

text \<open>What one prepared note needs; a note the wallet cannot spend yet needs nothing.\<close>

definition candidate_references ::
  "'w retention_env \<Rightarrow> wallet_network \<Rightarrow> u32 \<Rightarrow> u32 \<Rightarrow> u32 list \<Rightarrow> orchard_note list \<Rightarrow> retention_candidate \<Rightarrow>
    (retention_error, (string \<times> u32) set) outcome" where
  "candidate_references E network anchor_height activation heights notes c =
     (case List.find (\<lambda>n. to_ascii_lowercase (orch_txid_hex n) = to_ascii_lowercase (ref_txid_hex (cand_note c))
             \<and> orch_output_index n = ref_output_index (cand_note c)) notes of
        None \<Rightarrow> Ok {}
      | Some selected \<Rightarrow>
          if orch_version selected \<noteq> 2 then Err RetentionNoteNotV2
          else if \<not> zatoshis_ok E (orch_value selected) then Err RetentionValueInvalid
          else if orch_value selected \<noteq> ref_value_zatoshi (cand_note c) then Err RetentionValueChanged
          else obind (ok_or (orch_mined_height selected) RetentionMinedHeightMissing) (\<lambda>mined_height.
            Ok (Pair (cand_run_id c) ` migration_anchor_checkpoints_to_retain network (cand_policy c) anchor_height
                  mined_height activation heights)))"

text \<open>The accounts come in the order of their ids; a \<open>HashMap\<close> may visit them in another order.\<close>

definition account_references ::
  "'w retention_env \<Rightarrow> 'w \<Rightarrow> wallet_network \<Rightarrow> u32 \<Rightarrow> u32 \<Rightarrow> u32 list \<Rightarrow> retention_candidate list \<Rightarrow> string \<Rightarrow>
    (retention_error, (string \<times> u32) set) outcome" where
  "account_references E w network anchor_height activation heights cs account =
     obind (account_exists E w account) (\<lambda>found.
       if \<not> found then Err RetentionAccountNotFound
       else obind (select_spendable_orchard_v2_notes E w account anchor_height) (\<lambda>notes.
         obind (mapM (candidate_references E network anchor_height activation heights notes)
                  (filter (\<lambda>c. cand_account c = account) cs)) (\<lambda>refs. Ok (\<Union>(set refs)))))"

definition wanted_references ::
  "'w retention_env \<Rightarrow> 'w \<Rightarrow> wallet_network \<Rightarrow> u32 \<Rightarrow> u32 \<Rightarrow> u32 list \<Rightarrow> retention_candidate list \<Rightarrow>
    (retention_error, (string \<times> u32) set) outcome" where
  "wanted_references E w network anchor_height activation heights cs =
     obind (mapM (account_references E w network anchor_height activation heights cs) (sort (remdups (map cand_account cs))))
       (\<lambda>refs. Ok (\<Union>(set refs)))"

definition retain_prepared_note_anchor_checkpoints_after_scan ::
  "'w retention_env \<Rightarrow> json_env \<Rightarrow> migration_db \<Rightarrow> wallet_network \<Rightarrow> (ledger \<times> 'w, retention_error, usize) action" where
  "retain_prepared_note_anchor_checkpoints_after_scan E J db network =
     andthen (lift_outcome (map_err RetentionPartError (prepared_anchor_retention_candidates J db network))) (\<lambda>cs.
     with_state (\<lambda>(rows, w).
     andthen (lift_outcome (retained_of E w)) (\<lambda>retained_before.
       if cs = [] then andthen (apply_retention E network {} retained_before) (\<lambda>_. yield 0)
       else andthen (lift_outcome (anchor_height_of E w)) (\<lambda>anchor.
         case anchor of
           None \<Rightarrow> yield 0
         | Some anchor_height \<Rightarrow>
             andthen (lift_outcome (checkpoints_of E w)) (\<lambda>heights.
             andthen (lift_outcome (ok_or (nu6_3_activation E network) ActivationUnavailable)) (\<lambda>activation.
             andthen (lift_outcome (wanted_references E w network anchor_height activation heights cs)) (\<lambda>desired.
             andthen (apply_retention E network desired retained_before) (\<lambda>_. yield (card (snd ` desired))))))))))"

end
