(* ===== verification/AnchorSelection.thy ===== *)
theory AnchorSelection
  imports AnchorRetention PartStop
begin

text \<open>
  The anchor of the next proof of a prepared note (\<open>rust/src/wallet/sync/send.rs\<close>): the
  candidate boundaries that share a checkpoint are one cohort, each cohort is tried for a root and a
  witness, and among those that have one the preferred boundary or a weighted draw decides.

  The tree is a part of the wallet library: \<open>witness_env\<close> holds its two reads (the second caches
  nodes, so it changes the wallet) and the texts its errors have; an error carries the text
  \<open>format!("{e:?}")\<close> renders. What the reads promise is stated in \<open>AnchorSelectionProps\<close>. The library
  runs the closure of \<open>with_orchard_tree_mut\<close> in a transaction of its own; the model keeps the nodes a
  failing closure has cached, which no read of the model can see. Opening the wallet is not a step of the model.
\<close>

record ('w, 'root, 'path) witness_env =
  root_at_checkpoint :: "u32 \<Rightarrow> ('w, string, 'root option) action"
  witness_at_checkpoint :: "orchard_note \<Rightarrow> u32 \<Rightarrow> ('w, string, 'path option) action"
  anchor_not_found :: "u32 \<Rightarrow> string"
  checkpoint_pruned :: string

datatype anchor_error =
    AnchorReadFailed retention_error
  | PreparedNoteNotV2
  | AnchorAccountNotFound
  | WalletMustSync
  | PreparedNoteRevalidatedNotV2
  | PreparedNoteValueInvalid
  | PreparedNoteValueChanged
  | PreparedNoteMinedHeightUnavailable
  | WitnessesFailed string
  | PreparedNoteWitnessMissing
  | SelectedWitnessDisappeared

section \<open>Roots and witnesses\<close>

definition is_orchard_witness_not_ready_error :: "string \<Rightarrow> bool" where
  "is_orchard_witness_not_ready_error error =
     (let lower = to_ascii_lowercase error
      in contains_text ''wallet must sync before finalizing migration'' lower
         \<or> contains_text ''prepared migration note witness missing'' lower
         \<or> (contains_text ''read orchard witnesses'' lower
            \<and> (contains_text ''anchornotfound'' lower \<or> contains_text ''notcontained'' lower
               \<or> contains_text ''checkpoint'' lower \<or> contains_text ''commitmenttree'' lower)))"

text \<open>\<open>map_err\<close> on an operation.\<close>

definition rename_err :: "('e \<Rightarrow> 'f) \<Rightarrow> ('s, 'e, 'a) action \<Rightarrow> ('s, 'f, 'a) action" where
  "rename_err f m s = (case m s of (r, t) \<Rightarrow> (map_err f r, t))"

definition note_witness ::
  "('w, 'root, 'path) witness_env \<Rightarrow> u32 \<Rightarrow> orchard_note \<Rightarrow> ('w, string, orchard_note \<times> 'path) action" where
  "note_witness X anchor_height selected =
     andthen (witness_at_checkpoint X selected anchor_height) (\<lambda>witness.
     andthen (lift_outcome (ok_or witness (checkpoint_pruned X))) (\<lambda>merkle_path. yield (selected, merkle_path)))"

definition orchard_witnesses ::
  "('w, 'root, 'path) witness_env \<Rightarrow> u32 \<Rightarrow> orchard_note list \<Rightarrow>
    ('w, string, 'root \<times> (orchard_note \<times> 'path) list) action" where
  "orchard_witnesses X anchor_height orchard_notes =
     rename_err (\<lambda>e. ''Read Orchard witnesses: '' @ e)
       (andthen (root_at_checkpoint X anchor_height) (\<lambda>root.
        andthen (lift_outcome (ok_or root (anchor_not_found X anchor_height))) (\<lambda>anchor.
        andthen (accumulate (\<lambda>inputs selected. andthen (note_witness X anchor_height selected) (\<lambda>input. yield (inputs @ [input])))
                   [] orchard_notes) (\<lambda>inputs.
        yield (anchor, inputs)))))"

text \<open>The loop down the heights below a boundary of a regtest chain; \<open>last_error\<close> is the last one it passed over.\<close>

fun witnesses_at_or_below ::
  "('w, 'root, 'path) witness_env \<Rightarrow> orchard_note list \<Rightarrow> string option \<Rightarrow> u32 list \<Rightarrow>
    ('w, string, 'root \<times> (orchard_note \<times> 'path) list) action" where
  "witnesses_at_or_below X orchard_notes last_error [] s =
     (Err (case last_error of Some error \<Rightarrow> error
           | None \<Rightarrow> ''Read Orchard witnesses: no regtest checkpoint at or before anchor boundary''), s)"
| "witnesses_at_or_below X orchard_notes last_error (checkpoint # checkpoints) s =
     (case orchard_witnesses X checkpoint orchard_notes s of
        (Ok result, t) \<Rightarrow> (Ok result, t)
      | (Err error, t) \<Rightarrow>
          (if is_orchard_witness_not_ready_error error
           then witnesses_at_or_below X orchard_notes (Some error) checkpoints t
           else (Err error, t))
      | (Panic, t) \<Rightarrow> (Panic, t))"

definition migration_orchard_witnesses ::
  "('w, 'root, 'path) witness_env \<Rightarrow> wallet_network \<Rightarrow> u32 \<Rightarrow> orchard_note list \<Rightarrow>
    ('w, string, 'root \<times> (orchard_note \<times> 'path) list) action" where
  "migration_orchard_witnesses X network boundary orchard_notes =
     (if network \<noteq> Regtest then orchard_witnesses X boundary orchard_notes
      else case List.map_filter orch_mined_height orchard_notes of
          [] \<Rightarrow> lift_outcome (Err ''Prepared migration note mined height unavailable'')
        | h # hs \<Rightarrow>
            let oldest_candidate = max (saturating_sub boundary ZIP318_ANCHOR_AGE_CAP) (Max (set (h # hs)))
            in witnesses_at_or_below X orchard_notes None (rev [oldest_candidate ..< Suc boundary]))"

section \<open>The choice\<close>

text \<open>The loop over the cohorts; a root that is not there yet is passed over.\<close>

fun witnessable_candidates ::
  "('w, 'root, 'path) witness_env \<Rightarrow> wallet_network \<Rightarrow> orchard_note \<Rightarrow> (u32 \<times> u32) list \<Rightarrow>
    ('w, anchor_error, (u32 \<times> 'root \<times> 'path) list) action" where
  "witnessable_candidates X network selected [] s = (Ok [], s)"
| "witnessable_candidates X network selected ((boundary, checkpoint) # rest) s =
     (case migration_orchard_witnesses X network checkpoint [selected] s of
        (Ok (anchor, inputs), t) \<Rightarrow>
          (if inputs = [] then (Err PreparedNoteWitnessMissing, t)
           else andthen (witnessable_candidates X network selected rest)
                  (\<lambda>found. yield ((boundary, anchor, snd (last inputs)) # found)) t)
      | (Err error, t) \<Rightarrow>
          (if is_orchard_witness_not_ready_error error then witnessable_candidates X network selected rest t
           else (Err (WitnessesFailed error), t))
      | (Panic, t) \<Rightarrow> (Panic, t))"

definition preferred_boundary ::
  "wallet_network \<Rightarrow> timing_policy \<Rightarrow> u32 \<Rightarrow> u32 \<Rightarrow> u32 \<Rightarrow> (u32 \<times> u32) list \<Rightarrow> u32 option \<Rightarrow> u32 option" where
  "preferred_boundary network policy anchor_height mined activation available preferred =
     Option.bind preferred (\<lambda>boundary.
       if zip318_anchor_boundary_is_candidate_with_policy network policy boundary anchor_height mined activation
          \<and> boundary \<in> fst ` set available
       then Some boundary else None)"

definition select_boundary ::
  "(u32 \<Rightarrow> u32) \<Rightarrow> wallet_network \<Rightarrow> timing_policy \<Rightarrow> u32 \<Rightarrow> u32 option \<Rightarrow> u32 list \<Rightarrow> u32 option" where
  "select_boundary gen_range network policy anchor_height preferred witnessable_boundaries =
     (case Option.bind preferred (\<lambda>boundary. if boundary \<in> set witnessable_boundaries then Some boundary else None) of
        Some boundary \<Rightarrow> Some boundary
      | None \<Rightarrow> zip318_draw_anchor_boundary_from_available_with_policy gen_range network policy anchor_height
                  witnessable_boundaries)"

definition orchard_anchor_and_witness_for_prepared_note ::
  "'w retention_env \<Rightarrow> ('w, 'root, 'path) witness_env \<Rightarrow> (u32 \<Rightarrow> u32) \<Rightarrow> wallet_network \<Rightarrow> string \<Rightarrow> prepared_note_ref \<Rightarrow>
    u32 option \<Rightarrow> timing_policy \<Rightarrow> ('w, anchor_error, (u32 \<times> 'root \<times> 'path) option) action" where
  "orchard_anchor_and_witness_for_prepared_note E X gen_range network account_uuid note_ref preferred policy =
     (if ref_note_version note_ref \<noteq> 2 then lift_outcome (Err PreparedNoteNotV2)
      else with_state (\<lambda>w.
        andthen (lift_outcome (map_err AnchorReadFailed (account_exists E w account_uuid))) (\<lambda>found.
        andthen (lift_outcome (ensure found AnchorAccountNotFound)) (\<lambda>_.
        andthen (lift_outcome (map_err AnchorReadFailed (anchor_height_of E w))) (\<lambda>heights.
        andthen (lift_outcome (ok_or heights WalletMustSync)) (\<lambda>anchor_height.
        andthen (lift_outcome (map_err AnchorReadFailed (select_spendable_orchard_v2_notes E w account_uuid anchor_height)))
          (\<lambda>available_notes.
          case List.find (\<lambda>n. to_ascii_lowercase (orch_txid_hex n) = to_ascii_lowercase (ref_txid_hex note_ref)
                 \<and> orch_output_index n = ref_output_index note_ref) available_notes of
            None \<Rightarrow> yield None
          | Some selected \<Rightarrow>
              andthen (lift_outcome (ensure (orch_version selected = 2) PreparedNoteRevalidatedNotV2)) (\<lambda>_.
              andthen (lift_outcome (ensure (zatoshis_ok E (orch_value selected)) PreparedNoteValueInvalid)) (\<lambda>_.
              andthen (lift_outcome (ensure (orch_value selected = ref_value_zatoshi note_ref) PreparedNoteValueChanged)) (\<lambda>_.
              andthen (lift_outcome (ok_or (nu6_3_activation E network) (AnchorReadFailed ActivationUnavailable))) (\<lambda>activation.
              andthen (lift_outcome (ok_or (orch_mined_height selected) PreparedNoteMinedHeightUnavailable)) (\<lambda>mined.
              andthen (lift_outcome (map_err AnchorReadFailed (checkpoints_of E w))) (\<lambda>checkpoint_heights.
                let available = available_orchard_anchor_candidates
                      (zip318_anchor_candidate_boundaries_with_policy network policy anchor_height mined activation)
                      checkpoint_heights mined
                in andthen (witnessable_candidates X network selected available) (\<lambda>witnessable.
                   case select_boundary gen_range network policy anchor_height
                          (preferred_boundary network policy anchor_height mined activation available preferred)
                          (map fst witnessable) of
                     None \<Rightarrow> yield None
                   | Some selected_boundary \<Rightarrow>
                       andthen (lift_outcome (ok_or (List.find (\<lambda>c. fst c = selected_boundary) witnessable)
                         SelectedWitnessDisappeared)) (\<lambda>chosen. yield (Some chosen))))))))))))))))"

end
