(* ===== verification/AnchorRetentionProps.thy ===== *)
theory AnchorRetentionProps
  imports AnchorRetention
begin

text \<open>
  Proofs about the retention of anchors, under the contract of the tree's pins. The passes run under
  the wallet's write lock (\<open>with_wallet_db_write_lock\<close> in \<open>sync_engine/mod.rs\<close>), one after the
  other: \<open>maintenance_step\<close> is a whole pass, a pass that ends with an error, a pass the process
  is killed in between two tree operations (the same definition run on \<open>dying E\<close>), or a change
  of the wallet's own durable pins. \<open>retention_step\<close> names the single changes a pass is made
  of; its invariant is what carries over a cut.
\<close>

section \<open>The tree\<close>

locale checkpoint_pins =
  fixes E :: "'w retention_env" and pins :: "'w \<Rightarrow> u32 set"
  assumes retained_read: "retained_of E w = Ok S \<Longrightarrow> S = pins w"
    and pinned: "ensure_retained E h w = (Ok (), w') \<Longrightarrow> h \<in> pins w'"
    and pin_frame: "ensure_retained E h w = (r, w') \<Longrightarrow> pins w \<subseteq> pins w' \<and> pins w' \<subseteq> insert h (pins w)"
    and unpinned: "remove_retained E h w = (Ok (), w') \<Longrightarrow> h \<notin> pins w'"
    and unpin_frame: "remove_retained E h w = (r, w') \<Longrightarrow> pins w' \<subseteq> pins w \<and> pins w - {h} \<subseteq> pins w'"

text \<open>A tree that keeps its checkpoints and pins as plain sets, and knows one account without notes to spend.\<close>

record pin_wallet =
  wallet_checkpoints :: "u32 list"
  wallet_pins :: "u32 set"
  wallet_anchor :: "u32 option"
  wallet_notes :: "orchard_note list"

definition pin_env :: "u32 \<Rightarrow> pin_wallet retention_env" where
  "pin_env activation =
     \<lparr>checkpoints_of = (\<lambda>w. Ok (wallet_checkpoints w)), retained_of = (\<lambda>w. Ok (wallet_pins w)),
      ensure_retained = (\<lambda>h w. if h \<in> set (wallet_checkpoints w)
        then (Ok (), w\<lparr>wallet_pins := insert h (wallet_pins w)\<rparr>) else (Err TreeFailed, w)),
      remove_retained = (\<lambda>h w. (Ok (), w\<lparr>wallet_pins := wallet_pins w - {h}\<rparr>)),
      anchor_height_of = (\<lambda>w. Ok (wallet_anchor w)), account_exists = (\<lambda>w a. Ok True),
      unspent_orchard_notes = (\<lambda>w a h. Ok (wallet_notes w)), zatoshis_ok = (\<lambda>v. v \<le> 2100000000000000),
      nu6_3_activation = (\<lambda>network. Some activation), durable_interval = 4\<rparr>"

interpretation pin_tree: checkpoint_pins "pin_env activation" wallet_pins for activation
  by unfold_locales (auto simp: pin_env_def split: if_splits)

section \<open>The ledger after staging\<close>

abbreviation durable :: "'w retention_env \<Rightarrow> wallet_network \<Rightarrow> u32 \<Rightarrow> bool" where
  "durable E network \<equiv> is_wallet_durable_anchor (durable_interval E) (nu6_3_activation E network)"

definition wanted_heights :: "wallet_network \<Rightarrow> ledger \<Rightarrow> u32 set" where
  "wanted_heights network rows = snd ` migration_anchor_retention_references network rows"

definition releasing :: "wallet_network \<Rightarrow> ledger \<Rightarrow> u32 set" where
  "releasing network rows =
     {ret_height q | q. q \<in> set (of_network network rows) \<and> ret_run_id q = RETENTION_RELEASE_SENTINEL_RUN_ID}"

lemma reference_rows_keys [simp]:
  "map (\<lambda>q. (ret_run_id q, ret_height q)) (reference_rows name owns assigned refs) = refs"
  by (induction refs arbitrary: assigned) auto

lemma reference_rows_network: "q \<in> set (reference_rows name owns assigned refs) \<Longrightarrow> ret_network q = name"
  by (induction refs arbitrary: assigned) auto

lemma reference_rows_owned:
  "ret_height ` {q \<in> set (reference_rows name owns assigned refs). ret_owns q} =
     {h \<in> snd ` set refs. owns h \<and> h \<notin> assigned}"
proof (induction refs arbitrary: assigned)
  case (Cons ref refs)
  obtain run h where ref: "ref = (run, h)" by (cases ref)
  let ?rest = "reference_rows name owns (if owns h then insert h assigned else assigned) refs"
  have "{q \<in> set (reference_rows name owns assigned (ref # refs)). ret_owns q} =
      (if owns h \<and> h \<notin> assigned then {\<lparr>ret_network = name, ret_run_id = run, ret_height = h, ret_owns = True\<rparr>} else {})
      \<union> {q \<in> set ?rest. ret_owns q}"
    by (auto simp: ref)
  then have "ret_height ` {q \<in> set (reference_rows name owns assigned (ref # refs)). ret_owns q} =
      (if owns h \<and> h \<notin> assigned then {h} else {}) \<union> ret_height ` {q \<in> set ?rest. ret_owns q}"
    by (simp add: image_Un)
  also have "\<dots> = {g \<in> snd ` set (ref # refs). owns g \<and> g \<notin> assigned}"
    unfolding Cons.IH by (auto simp: ref)
  finally show ?case .
qed simp

text \<open>What a successful staging leaves, from any ledger.\<close>

lemma staged:
  assumes "stage_migration_anchor_retention_references E network desired retained rows = (Ok released, rows')"
    "finite desired" "\<forall>(run, h) \<in> desired. run \<noteq> RETENTION_RELEASE_SENTINEL_RUN_ID"
  shows "released = heights_to_release E network desired rows"
    "set released = {h \<in> owned_heights network rows - snd ` desired. \<not> durable E network h}"
    "migration_anchor_retention_references network rows' = desired"
    "releasing network rows' = set released"
    "owned_heights network rows' = {h \<in> snd ` desired. migration_owns E network rows retained h} \<union> set released"
    "filter (\<lambda>q. ret_network q \<noteq> network_name network) rows' = filter (\<lambda>q. ret_network q \<noteq> network_name network) rows"
proof -
  let ?name = "network_name network"
  let ?refs = "reference_rows ?name (migration_owns E network rows retained) {} (sorted_list_of_set desired)"
  let ?release = "heights_to_release E network desired rows"
  from assms(1) have rel: "released = ?release" and
    rows': "rows' = filter (\<lambda>q. ret_network q \<noteq> ?name) rows @ ?refs @ map (release_row ?name) ?release"
    by (auto simp: stage_migration_anchor_retention_references_def Let_def split: if_splits)
  show "released = ?release" by (rule rel)
  have "finite (owned_heights network rows)" by (simp add: owned_heights_def)
  then show set_rel: "set released = {h \<in> owned_heights network rows - snd ` desired. \<not> durable E network h}"
    using rel by (auto simp: heights_to_release_def)
  have "filter (\<lambda>q. ret_network q = ?name) ?refs = ?refs"
    by (rule filter_True) (use reference_rows_network in fast)
  then have of_net: "of_network network rows' = ?refs @ map (release_row ?name) ?release"
    unfolding of_network_def rows' by (simp add: release_row_def)
  have keys: "(\<lambda>q. (ret_run_id q, ret_height q)) ` set ?refs = desired"
  proof -
    have "set (map (\<lambda>q. (ret_run_id q, ret_height q)) ?refs) = set (sorted_list_of_set desired)"
      by (simp only: reference_rows_keys)
    then show ?thesis unfolding set_map set_sorted_list_of_set [OF assms(2)] .
  qed
  then have named: "ret_run_id q \<noteq> RETENTION_RELEASE_SENTINEL_RUN_ID" if "q \<in> set ?refs" for q
    using assms(3) that by blast
  have "{q \<in> set (of_network network rows'). ret_run_id q \<noteq> RETENTION_RELEASE_SENTINEL_RUN_ID} = set ?refs"
    using named unfolding of_net by (auto simp: release_row_def)
  then show "migration_anchor_retention_references network rows' = desired"
    using keys by (simp add: migration_anchor_retention_references_def)
  show "releasing network rows' = set released"
  proof -
    have "{q \<in> set (of_network network rows'). ret_run_id q = RETENTION_RELEASE_SENTINEL_RUN_ID} = release_row ?name ` set ?release"
      using named unfolding of_net by (auto simp: release_row_def)
    then have "ret_height ` {q \<in> set (of_network network rows'). ret_run_id q = RETENTION_RELEASE_SENTINEL_RUN_ID} =
        ret_height ` release_row ?name ` set ?release" by simp
    then show ?thesis unfolding releasing_def rel by (simp add: image_image release_row_def setcompr_eq_image)
  qed
  have "{q \<in> set (of_network network rows'). ret_owns q} =
      {q \<in> set ?refs. ret_owns q} \<union> release_row ?name ` set ?release"
    unfolding of_net by (auto simp: release_row_def)
  then have "owned_heights network rows' = ret_height ` {q \<in> set ?refs. ret_owns q} \<union> set ?release"
    by (simp add: owned_heights_def image_Un image_image release_row_def)
  then show "owned_heights network rows' = {h \<in> snd ` desired. migration_owns E network rows retained h} \<union> set released"
    unfolding reference_rows_owned rel using assms(2) by simp
  have none: "filter (\<lambda>q. ret_network q \<noteq> ?name) ?refs = []"
    using reference_rows_network by (auto simp: filter_empty_conv)
  show "filter (\<lambda>q. ret_network q \<noteq> ?name) rows' = filter (\<lambda>q. ret_network q \<noteq> ?name) rows"
    unfolding rows' by (simp add: none release_row_def)
qed

text \<open>A run has a name, so the keys never collide and staging cannot fail.\<close>

lemma staging_succeeds:
  assumes "finite desired" "\<forall>(run, h) \<in> desired. run \<noteq> RETENTION_RELEASE_SENTINEL_RUN_ID"
  shows "\<exists>rows'. stage_migration_anchor_retention_references E network desired retained rows =
    (Ok (heights_to_release E network desired rows), rows')"
proof -
  let ?release = "heights_to_release E network desired rows"
  have "distinct ?release" by (simp add: heights_to_release_def)
  then have "distinct (sorted_list_of_set desired @ map (Pair RETENTION_RELEASE_SENTINEL_RUN_ID) ?release)"
    using assms by (auto simp: distinct_map inj_on_def)
  moreover have "(\<lambda>q. (ret_run_id q, ret_height q)) \<circ> release_row name = Pair RETENTION_RELEASE_SENTINEL_RUN_ID" for name
    by (simp add: release_row_def fun_eq_iff)
  ultimately show ?thesis by (simp add: stage_migration_anchor_retention_references_def Let_def)
qed

section \<open>Steps and their invariant\<close>

text \<open>
  What one pass does to the ledger and the tree, one change at a time: the guards say which heights the pass that staged
  the current ledger pins and unpins.
\<close>

inductive retention_step ::
  "'w retention_env \<Rightarrow> ('w \<Rightarrow> u32 set) \<Rightarrow> wallet_network \<Rightarrow> ledger \<times> 'w \<Rightarrow> ledger \<times> 'w \<Rightarrow> bool"
  for E :: "'w retention_env" and pins :: "'w \<Rightarrow> u32 set" and network :: wallet_network where
  stage: "stage_migration_anchor_retention_references E network desired (pins w) rows = (r, rows') \<Longrightarrow> finite desired \<Longrightarrow>
    \<forall>(run, h) \<in> desired. run \<noteq> RETENTION_RELEASE_SENTINEL_RUN_ID \<Longrightarrow>
    retention_step E pins network (rows, w) (rows', w)"
| pin: "h \<in> wanted_heights network rows \<Longrightarrow> ensure_retained E h w = (r, w') \<Longrightarrow>
    retention_step E pins network (rows, w) (rows, w')"
| unpin: "h \<in> releasing network rows \<Longrightarrow> remove_retained E h w = (r, w') \<Longrightarrow>
    retention_step E pins network (rows, w) (rows, w')"
| finish: "\<forall>h \<in> set released. h \<notin> pins w \<Longrightarrow>
    retention_step E pins network (rows, w) (finish_migration_anchor_retention_releases network released rows, w)"
| wallet: "pins w \<subseteq> pins w' \<Longrightarrow> pins w' \<subseteq> pins w \<union> {h. durable E network h} \<Longrightarrow>
    retention_step E pins network (rows, w) (rows, w')"

definition accounted :: "'w retention_env \<Rightarrow> ('w \<Rightarrow> u32 set) \<Rightarrow> wallet_network \<Rightarrow> ledger \<times> 'w \<Rightarrow> bool" where
  "accounted E pins network = (\<lambda>(rows, w).
     pins w \<subseteq> {h. durable E network h} \<union> owned_heights network rows \<and>
     wanted_heights network rows \<subseteq> {h. durable E network h} \<union> owned_heights network rows \<and>
     (\<forall>h \<in> releasing network rows. \<not> durable E network h \<and> h \<notin> wanted_heights network rows))"

lemma finished_ledger:
  fixes network released rows
  defines "rows' \<equiv> finish_migration_anchor_retention_releases network released rows"
  shows "migration_anchor_retention_references network rows' = migration_anchor_retention_references network rows"
    "releasing network rows' = releasing network rows - set released"
    "owned_heights network rows - (releasing network rows \<inter> set released) \<subseteq> owned_heights network rows'"
  unfolding rows'_def finish_migration_anchor_retention_releases_def
  by (auto simp: migration_anchor_retention_references_def releasing_def owned_heights_def of_network_def)

context checkpoint_pins begin

lemma staged_accounted:
  assumes "stage_migration_anchor_retention_references E network desired (pins w) rows = (r, rows')" "finite desired"
    "\<forall>(run, h) \<in> desired. run \<noteq> RETENTION_RELEASE_SENTINEL_RUN_ID" "accounted E pins network (rows, w)"
  shows "accounted E pins network (rows', w)"
proof -
  obtain rows1 where "stage_migration_anchor_retention_references E network desired (pins w) rows =
      (Ok (heights_to_release E network desired rows), rows1)" using staging_succeeds assms(2,3) by blast
  with assms(1) have run: "stage_migration_anchor_retention_references E network desired (pins w) rows =
      (Ok (heights_to_release E network desired rows), rows')" by simp
  note s = staged [OF run assms(2,3)]
  have pins: "h \<in> {h. durable E network h} \<union> owned_heights network rows'" if "h \<in> pins w" for h
    using that assms(4) unfolding s(5) s(2) by (auto simp: accounted_def migration_owns_def)
  have wanted: "wanted_heights network rows' = snd ` desired" by (simp add: wanted_heights_def s(3))
  have "h \<in> {h. durable E network h} \<union> owned_heights network rows'" if "h \<in> snd ` desired" for h
    using that unfolding s(5) by (auto simp: migration_owns_def)
  then show ?thesis using pins unfolding accounted_def prod.case wanted s(4) s(2) by blast
qed

lemma step_accounted:
  assumes "retention_step E pins network s s'" "accounted E pins network s"
  shows "accounted E pins network s' \<and> pins (snd s) \<inter> {h. durable E network h} \<subseteq> pins (snd s')"
  using assms
proof (cases rule: retention_step.cases)
  case (stage desired w rows r rows')
  then show ?thesis using staged_accounted assms(2) by auto
next
  case (pin h rows w r w')
  then show ?thesis using pin_frame [OF pin(4)] assms(2) by (auto simp: accounted_def)
next
  case (unpin h rows w r w')
  have "\<not> durable E network h" using assms(2) unpin by (auto simp: accounted_def)
  then show ?thesis using unpin_frame [OF unpin(4)] assms(2) unpin(1,2) by (auto simp: accounted_def)
next
  case (finish released w rows)
  let ?rows' = "finish_migration_anchor_retention_releases network released rows"
  have "wanted_heights network ?rows' = wanted_heights network rows"
    by (simp add: wanted_heights_def finished_ledger(1))
  then show ?thesis
    using assms(2) finish finished_ledger(2) [of network released rows] finished_ledger(3) [of network rows released] unfolding accounted_def by fastforce
next
  case (wallet w w' rows)
  then show ?thesis using assms(2) by (auto simp: accounted_def)
qed

lemma steps_accounted:
  assumes "(retention_step E pins network)\<^sup>*\<^sup>* s s'" "accounted E pins network s"
  shows "accounted E pins network s' \<and> pins (snd s) \<inter> {h. durable E network h} \<subseteq> pins (snd s')"
  using assms
proof (induction rule: rtranclp_induct)
  case (step t u)
  then show ?case using step_accounted [OF step.hyps(2)] by blast
qed simp

lemma pin_all:
  assumes "on_tree (for_each (ensure_retained E) hs) (rows, w) = (r, s')" "set hs \<subseteq> wanted_heights network rows"
  shows "fst s' = rows \<and> (retention_step E pins network)\<^sup>*\<^sup>* (rows, w) s' \<and> pins w \<subseteq> pins (snd s') \<and>
    (r = Ok () \<longrightarrow> set hs \<subseteq> pins (snd s'))"
  using assms
proof (induction hs arbitrary: w)
  case Nil
  then show ?case by (auto simp: on_tree_def)
next
  case (Cons h hs)
  obtain x v where v: "ensure_retained E h w = (x, v)" by (metis surj_pair)
  have step: "retention_step E pins network (rows, w) (rows, v)"
    using Cons.prems(2) v by (intro retention_step.pin) auto
  have grows: "pins w \<subseteq> pins v" using pin_frame [OF v] by simp
  show ?case
  proof (cases x)
    case (Ok u)
    then have rest: "on_tree (for_each (ensure_retained E) hs) (rows, v) = (r, s')"
      using Cons.prems(1) v by (simp add: on_tree_def andthen_def)
    have "h \<in> pins v" using pinned v Ok by simp
    with Cons.IH [OF rest] Cons.prems(2) grows step show ?thesis
      by (auto intro: converse_rtranclp_into_rtranclp)
  next
    case (Err e)
    then show ?thesis using Cons.prems(1) v grows step by (auto simp: on_tree_def andthen_def)
  next
    case Panic
    then show ?thesis using Cons.prems(1) v grows step by (auto simp: on_tree_def andthen_def)
  qed
qed

lemma unpin_all:
  assumes "on_tree (for_each (remove_retained E) hs) (rows, w) = (r, s')" "set hs \<subseteq> releasing network rows"
  shows "fst s' = rows \<and> (retention_step E pins network)\<^sup>*\<^sup>* (rows, w) s' \<and> pins (snd s') \<subseteq> pins w \<and>
    pins w - set hs \<subseteq> pins (snd s') \<and> (r = Ok () \<longrightarrow> set hs \<inter> pins (snd s') = {})"
  using assms
proof (induction hs arbitrary: w)
  case Nil
  then show ?case by (auto simp: on_tree_def)
next
  case (Cons h hs)
  obtain x v where v: "remove_retained E h w = (x, v)" by (metis surj_pair)
  have step: "retention_step E pins network (rows, w) (rows, v)"
    using Cons.prems(2) v by (intro retention_step.unpin) auto
  have shrinks: "pins v \<subseteq> pins w" "pins w - {h} \<subseteq> pins v" using unpin_frame [OF v] by simp_all
  show ?case
  proof (cases x)
    case (Ok u)
    then have rest: "on_tree (for_each (remove_retained E) hs) (rows, v) = (r, s')"
      using Cons.prems(1) v by (simp add: on_tree_def andthen_def)
    have "h \<notin> pins v" using unpinned v Ok by simp
    with Cons.IH [OF rest] Cons.prems(2) shrinks step show ?thesis
      by (auto intro: converse_rtranclp_into_rtranclp)
  next
    case (Err e)
    then show ?thesis using Cons.prems(1) v shrinks step by (auto simp: on_tree_def andthen_def)
  next
    case Panic
    then show ?thesis using Cons.prems(1) v shrinks step by (auto simp: on_tree_def andthen_def)
  qed
qed

lemma owned_named: "owned_heights network rows \<subseteq> wanted_heights network rows \<union> releasing network rows"
  by (force simp: owned_heights_def wanted_heights_def releasing_def migration_anchor_retention_references_def)

text \<open>The end of a maintenance pass, when it fails and when it succeeds.\<close>

lemma retention_applied:
  assumes "apply_retention E network desired (pins w) (rows, w) = (r, s')" "finite desired"
    "\<forall>(run, h) \<in> desired. run \<noteq> RETENTION_RELEASE_SENTINEL_RUN_ID"
  shows "(retention_step E pins network)\<^sup>*\<^sup>* (rows, w) s'"
    "r = Ok () \<Longrightarrow> migration_anchor_retention_references network (fst s') = desired \<and> releasing network (fst s') = {} \<and>
      snd ` desired \<subseteq> pins (snd s')"
proof -
  let ?released = "heights_to_release E network desired rows"
  obtain rows1 where run: "stage_migration_anchor_retention_references E network desired (pins w) rows = (Ok ?released, rows1)"
    using staging_succeeds assms(2,3) by blast
  note st = staged [OF run assms(2,3)]
  have step1: "retention_step E pins network (rows, w) (rows1, w)"
    using run assms(2,3) by (intro retention_step.stage)
  obtain x s1 where pin: "on_tree (for_each (ensure_retained E) (sorted_list_of_set (snd ` desired))) (rows1, w) = (x, s1)"
    by (metis surj_pair)
  have "set (sorted_list_of_set (snd ` desired)) \<subseteq> wanted_heights network rows1"
    using assms(2) by (simp add: wanted_heights_def st(3))
  note pinned_all = pin_all [OF pin this]
  obtain w1 where s1: "s1 = (rows1, w1)" using pinned_all by (cases s1) simp
  obtain y s2 where unpin: "on_tree (for_each (remove_retained E) ?released) s1 = (y, s2)" by (metis surj_pair)
  have "set ?released \<subseteq> releasing network rows1" using st(4) by simp
  note unpinned_all = unpin_all [OF unpin [unfolded s1] this]
  obtain w2 where s2: "s2 = (rows1, w2)" using unpinned_all by (cases s2) simp
  let ?rows2 = "finish_migration_anchor_retention_releases network ?released rows1"
  have "apply_retention E network desired (pins w) (rows, w) =
      (case x of Ok u \<Rightarrow> (case y of Ok u \<Rightarrow> (Ok (), (?rows2, w2)) | Err e \<Rightarrow> (Err e, s2) | Panic \<Rightarrow> (Panic, s2))
      | Err e \<Rightarrow> (Err e, s1) | Panic \<Rightarrow> (Panic, s1))"
    by (cases x; cases y) (simp_all add: apply_retention_def andthen_def run on_ledger_def modify_def pin unpin s2)
  then have result: "(r, s') = (case x of Ok u \<Rightarrow> (case y of Ok u \<Rightarrow> (Ok (), (?rows2, w2)) | Err e \<Rightarrow> (Err e, s2) | Panic \<Rightarrow> (Panic, s2))
      | Err e \<Rightarrow> (Err e, s1) | Panic \<Rightarrow> (Panic, s1))"
    using assms(1) by simp
  have step2: "(retention_step E pins network)\<^sup>*\<^sup>* (rows, w) s1"
    using step1 pinned_all by (meson converse_rtranclp_into_rtranclp)
  have step3: "(retention_step E pins network)\<^sup>*\<^sup>* (rows, w) s2"
    using step2 unpinned_all s1 by (meson rtranclp_trans)
  have step4: "(retention_step E pins network)\<^sup>*\<^sup>* (rows, w) (?rows2, w2)" if "y = Ok ()"
  proof -
    have "\<forall>h \<in> set ?released. h \<notin> pins w2" using unpinned_all s2 that by auto
    then have "retention_step E pins network (rows1, w2) (?rows2, w2)" by (rule retention_step.finish)
    then show ?thesis using step3 s2 by (meson rtranclp.rtrancl_into_rtrancl)
  qed
  show "(retention_step E pins network)\<^sup>*\<^sup>* (rows, w) s'"
    using result step2 step3 step4 by (cases x; cases y) auto
  assume "r = Ok ()"
  then have ok: "x = Ok ()" "y = Ok ()" "s' = (?rows2, w2)" using result by (cases x; cases y; simp)+
  have "snd ` desired \<subseteq> pins w2"
  proof
    fix h assume h: "h \<in> snd ` desired"
    then have "h \<in> pins w1" using pinned_all ok(1) s1 assms(2) by auto
    moreover have "h \<notin> set ?released" using h st(2) by auto
    ultimately show "h \<in> pins w2" using unpinned_all s2 by auto
  qed
  then show "migration_anchor_retention_references network (fst s') = desired \<and> releasing network (fst s') = {} \<and>
      snd ` desired \<subseteq> pins (snd s')"
    by (simp add: ok(3) finished_ledger(1,2) st(3,4))
qed

end

section \<open>The passes\<close>

definition named :: "(string \<times> u32) set \<Rightarrow> bool" where
  "named desired \<longleftrightarrow> finite desired \<and> (\<forall>(run, h) \<in> desired. run \<noteq> RETENTION_RELEASE_SENTINEL_RUN_ID)"

definition runs_named :: "migration_db \<Rightarrow> bool" where
  "runs_named db \<longleftrightarrow> (\<forall>r \<in> set (run_rows db). run_key r \<noteq> RETENTION_RELEASE_SENTINEL_RUN_ID)"

lemma candidate_of_run:
  assumes "prepared_anchor_retention_candidates J db network = Ok cs" "c \<in> set cs"
  shows "cand_run_id c \<in> run_key ` set (run_rows db)"
proof -
  from assms obtain css where css: "mapM (retention_candidate_of J db) (retention_rows db network) = Ok css" "cs = concat css"
    by (auto simp: prepared_anchor_retention_candidates_def outcome_simps)
  with assms(2) obtain ds where ds: "ds \<in> set css" "c \<in> set ds" by auto
  from mapM_Ok_member [OF css(1) ds(1)] obtain rn where rn: "rn \<in> set (retention_rows db network)"
    "retention_candidate_of J db rn = Ok ds" by blast
  obtain r n where "rn = (r, n)" by (cases rn)
  with rn ds(2) have "r \<in> set (run_rows db)" "cand_run_id c = run_key r"
    by (auto simp: retention_rows_def retention_candidate_of_def outcome_simps split: if_splits)
  then show ?thesis by blast
qed

lemma finite_checkpoints: "finite (migration_anchor_checkpoints_to_retain network policy anchor mined activation heights)"
  unfolding migration_anchor_checkpoints_to_retain_def by (simp only: finite.emptyI finite_set split: option.split) simp

lemma candidate_references_Ok:
  assumes "candidate_references E network anchor activation heights ns c = Ok refs"
  shows "finite refs \<and> fst ` refs \<subseteq> {cand_run_id c}"
proof -
  have "refs = {} \<or> (\<exists>mined. refs = Pair (cand_run_id c) `
      migration_anchor_checkpoints_to_retain network (cand_policy c) anchor mined activation heights)"
    using assms by (auto simp: candidate_references_def outcome_simps split: option.splits if_splits
        simp del: migration_anchor_checkpoints_to_retain_def)
  then show ?thesis using finite_checkpoints by auto
qed

lemma union_refs:
  "(\<And>A. A \<in> set rs \<Longrightarrow> finite A \<and> fst ` A \<subseteq> S) \<Longrightarrow> finite (\<Union>(set rs)) \<and> fst ` (\<Union>(set rs)) \<subseteq> S"
  by (induction rs) (auto simp: image_Un)

lemma account_references_Ok:
  assumes "account_references E w network anchor activation heights cs account = Ok refs"
  shows "finite refs \<and> fst ` refs \<subseteq> cand_run_id ` set cs"
proof -
  from assms obtain ns rs where rs: "mapM (candidate_references E network anchor activation heights ns)
      (filter (\<lambda>c. cand_account c = account) cs) = Ok rs" "refs = \<Union>(set rs)"
    by (auto simp: account_references_def outcome_simps split: if_splits)
  have "finite A \<and> fst ` A \<subseteq> cand_run_id ` set cs" if A: "A \<in> set rs" for A
  proof -
    obtain c where "c \<in> set cs" "candidate_references E network anchor activation heights ns c = Ok A"
      using mapM_Ok_member [OF rs(1) A] by auto
    then show ?thesis using candidate_references_Ok by fastforce
  qed
  then show ?thesis unfolding rs(2) by (rule union_refs)
qed

lemma wanted_references_Ok:
  assumes "wanted_references E w network anchor activation heights cs = Ok refs"
  shows "finite refs \<and> fst ` refs \<subseteq> cand_run_id ` set cs"
proof -
  from assms obtain rs where rs: "mapM (account_references E w network anchor activation heights cs)
      (sort (remdups (map cand_account cs))) = Ok rs" "refs = \<Union>(set rs)"
    by (auto simp: wanted_references_def outcome_simps)
  have "finite A \<and> fst ` A \<subseteq> cand_run_id ` set cs" if A: "A \<in> set rs" for A
  proof -
    obtain account where "account_references E w network anchor activation heights cs account = Ok A"
      using mapM_Ok_member [OF rs(1) A] by auto
    then show ?thesis by (rule account_references_Ok)
  qed
  then show ?thesis unfolding rs(2) by (rule union_refs)
qed

lemma wanted_named:
  assumes "prepared_anchor_retention_candidates J db network = Ok cs" "runs_named db" "finite refs"
    "fst ` refs \<subseteq> cand_run_id ` set cs"
  shows "named refs"
  unfolding named_def
proof (intro conjI assms(3) ballI)
  fix ref assume "ref \<in> refs"
  then have "fst ref \<in> cand_run_id ` set cs" using assms(4) by (rule subsetD [OF _ imageI, rotated])
  then obtain c where "c \<in> set cs" "fst ref = cand_run_id c" by (rule imageE)
  then have "fst ref \<in> run_key ` set (run_rows db)" using candidate_of_run [OF assms(1)] by simp
  then have "fst ref \<noteq> RETENTION_RELEASE_SENTINEL_RUN_ID" using assms(2) unfolding runs_named_def by (elim imageE) simp
  then show "case ref of (run, h) \<Rightarrow> run \<noteq> RETENTION_RELEASE_SENTINEL_RUN_ID" by (simp add: case_prod_beta)
qed

lemma finite_representatives: "finite (checkpoint_representatives_for_scan heights activation frontier batch_end modulus)"
  unfolding checkpoint_representatives_for_scan_def Let_def
  by (simp only: finite.emptyI finite_set split: option.split if_split) simp

lemma projected_references_Ok:
  "finite (projected_references network cs heights activation frontier batch_end) \<and>
    fst ` projected_references network cs heights activation frontier batch_end \<subseteq> cand_run_id ` set cs"
proof
  show "finite (projected_references network cs heights activation frontier batch_end)"
    unfolding projected_references_def by (intro finite_UN_I finite_set) (auto intro: finite_representatives)
  have "fst p \<in> cand_run_id ` set cs" if "p \<in> set (run_policies cs)" for p
    using that unfolding run_policies_def by auto
  then show "fst ` projected_references network cs heights activation frontier batch_end \<subseteq> cand_run_id ` set cs"
    unfolding projected_references_def by fastforce
qed

lemma references_named: "named (migration_anchor_retention_references network rows)"
  by (auto simp: named_def migration_anchor_retention_references_def)

text \<open>What the pass after a scan comes down to.\<close>

lemma after_scan_cases:
  assumes "retain_prepared_note_anchor_checkpoints_after_scan E J db network (rows, w) = (r, s')" "runs_named db"
  obtains (unchanged) "s' = (rows, w)" "\<And>n. r = Ok n \<Longrightarrow> anchor_height_of E w = Ok None"
  | (applied) cs retained desired x where "prepared_anchor_retention_candidates J db network = Ok cs"
      "retained_of E w = Ok retained" "apply_retention E network desired retained (rows, w) = (x, s')"
      "\<And>n. r = Ok n \<Longrightarrow> x = Ok ()" "named desired"
      "cs = [] \<and> desired = {} \<or> cs \<noteq> [] \<and> (\<exists>anchor heights activation. anchor_height_of E w = Ok (Some anchor) \<and>
         checkpoints_of E w = Ok heights \<and> nu6_3_activation E network = Some activation \<and>
         wanted_references E w network anchor activation heights cs = Ok desired)"
proof -
  let ?pass = "retain_prepared_note_anchor_checkpoints_after_scan E J db network (rows, w)"
  note defs = retain_prepared_note_anchor_checkpoints_after_scan_def action_simps
  show thesis
  proof (cases "prepared_anchor_retention_candidates J db network")
    case (Ok cs)
    show thesis
    proof (cases "retained_of E w")
      case retained: (Ok retained)
      obtain x t where empty: "apply_retention E network {} retained (rows, w) = (x, t)" by (metis surj_pair)
      show thesis
      proof (cases "cs = []")
        case True
        have "(r, s') = (map_err id (obind x (\<lambda>_. Ok 0)), t)"
          using assms(1) Ok retained True empty by (cases x) (auto simp: defs andthen_def [of "apply_retention _ _ _ _"])
        then show thesis using applied [OF Ok retained, of "{}" x] empty True
          by (cases x) (auto simp: named_def)
      next
        case False
        show thesis
        proof (cases "\<exists>anchor heights activation desired. anchor_height_of E w = Ok (Some anchor) \<and>
         checkpoints_of E w = Ok heights \<and> nu6_3_activation E network = Some activation \<and>
         wanted_references E w network anchor activation heights cs = Ok desired")
          case True
          then obtain anchor heights activation desired where t: "anchor_height_of E w = Ok (Some anchor)"
            "checkpoints_of E w = Ok heights" "nu6_3_activation E network = Some activation"
            "wanted_references E w network anchor activation heights cs = Ok desired" by blast
          obtain x u where ap: "apply_retention E network desired retained (rows, w) = (x, u)" by (metis surj_pair)
          have "(r, s') = (map_err id (obind x (\<lambda>_. Ok (card (snd ` desired)))), u)"
            using assms(1) Ok retained False t ap
            by (cases x) (auto simp: defs ok_or_def andthen_def [of "apply_retention _ _ _ _"])
          moreover have "named desired" using wanted_named [OF Ok assms(2)] wanted_references_Ok [OF t(4)] by blast
          ultimately show thesis using applied [OF Ok retained, of desired x] ap False t
            by (cases x) auto
        next
          case none: False
          have "s' = (rows, w) \<and> (\<forall>n. r = Ok n \<longrightarrow> anchor_height_of E w = Ok None)"
            using assms(1) Ok retained False none
            by (auto simp: defs ok_or_def andthen_def [of "lift_outcome _"] lift_outcome_def split: outcome.splits option.splits)
          then show thesis using unchanged by blast
        qed
      qed
    qed (use assms(1) Ok unchanged in \<open>auto simp: defs\<close>)
  qed (use assms(1) unchanged in \<open>auto simp: defs\<close>)
qed

lemma before_scan_cases:
  assumes "retain_migration_anchor_checkpoints_before_scan E J db network frontier batch_end incoming (rows, w) = (r, s')"
    "runs_named db"
  obtains (unchanged) "s' = (rows, w)" "\<And>n. r = Ok n \<Longrightarrow> prepared_anchor_retention_candidates J db network = Ok []"
  | (applied) cs heights activation retained desired x where "prepared_anchor_retention_candidates J db network = Ok cs"
      "checkpoints_of E w = Ok heights" "nu6_3_activation E network = Some activation" "retained_of E w = Ok retained"
      "apply_retention E network desired retained (rows, w) = (x, s')" "\<And>n. r = Ok n \<Longrightarrow> x = Ok ()" "named desired"
      "desired = migration_anchor_retention_references network rows \<union>
         projected_references network cs (sorted_list_of_set (insert frontier (set heights \<union> incoming))) activation frontier batch_end"
proof -
  note defs = retain_migration_anchor_checkpoints_before_scan_def action_simps
  show thesis
  proof (cases "prepared_anchor_retention_candidates J db network")
    case (Ok cs)
    show thesis
    proof (cases "cs \<noteq> [] \<and> (\<exists>heights activation retained. checkpoints_of E w = Ok heights \<and>
        nu6_3_activation E network = Some activation \<and> retained_of E w = Ok retained)")
      case True
      then obtain heights activation retained where t: "cs \<noteq> []" "checkpoints_of E w = Ok heights"
        "nu6_3_activation E network = Some activation" "retained_of E w = Ok retained" by blast
      define desired where "desired = migration_anchor_retention_references network rows \<union>
         projected_references network cs (sorted_list_of_set (insert frontier (set heights \<union> incoming))) activation frontier batch_end"
      obtain x u where ap: "apply_retention E network desired retained (rows, w) = (x, u)" by (metis surj_pair)
      have "(r, s') = (map_err id (obind x (\<lambda>_. Ok (card (snd ` desired)))), u)"
        using assms(1) Ok t ap
        by (cases x) (auto simp: defs ok_or_def Let_def desired_def [symmetric] andthen_def [of "apply_retention _ _ _ _"])
      moreover have "named desired"
        using references_named [of network rows] projected_references_Ok
          wanted_named [OF Ok assms(2), of "projected_references network cs
            (sorted_list_of_set (insert frontier (set heights \<union> incoming))) activation frontier batch_end"]
        unfolding desired_def named_def by blast
      ultimately show thesis using applied [OF Ok t(2-4), of desired x] ap desired_def
        by (cases x) auto
    next
      case False
      have "s' = (rows, w) \<and> (\<forall>n. r = Ok n \<longrightarrow> cs = [])"
        using assms(1) Ok False
        by (auto simp: defs ok_or_def andthen_def [of "lift_outcome _"] lift_outcome_def
            split: outcome.splits option.splits if_splits)
      then show thesis using unchanged Ok by blast
    qed
  qed (use assms(1) unchanged in \<open>auto simp: defs\<close>)
qed

context checkpoint_pins begin

lemma after_scan_steps:
  assumes "retain_prepared_note_anchor_checkpoints_after_scan E J db network (rows, w) = (r, s')" "runs_named db"
  shows "(retention_step E pins network)\<^sup>*\<^sup>* (rows, w) s'"
  using assms
proof (cases rule: after_scan_cases)
  case (applied cs retained desired x)
  have "retained = pins w" using retained_read [OF applied(2)] .
  then show ?thesis using retention_applied(1) [of network desired w rows x s'] applied(3,5) by (simp add: named_def)
qed simp

lemma before_scan_steps:
  assumes "retain_migration_anchor_checkpoints_before_scan E J db network frontier batch_end incoming (rows, w) = (r, s')"
    "runs_named db"
  shows "(retention_step E pins network)\<^sup>*\<^sup>* (rows, w) s'"
  using assms
proof (cases rule: before_scan_cases)
  case (applied cs heights activation retained desired x)
  have "retained = pins w" using retained_read [OF applied(4)] .
  then show ?thesis using retention_applied(1) [of network desired w rows x s'] applied(5,7) by (simp add: named_def)
qed simp

lemma after_scan_pins:
  assumes "retain_prepared_note_anchor_checkpoints_after_scan E J db network (rows, w) = (Ok n, (rows', w'))"
    "runs_named db" "anchor_height_of E w \<noteq> Ok None"
  shows "releasing network rows' = {} \<and> wanted_heights network rows' \<subseteq> pins w' \<and>
    (accounted E pins network (rows, w) \<longrightarrow> pins w' \<subseteq> {h. durable E network h} \<union> wanted_heights network rows')"
  using assms(1,2)
proof (cases rule: after_scan_cases)
  case unchanged
  then show ?thesis using assms(3) by blast
next
  case (applied cs retained desired x)
  have "retained = pins w" using retained_read [OF applied(2)] .
  then have run: "apply_retention E network desired (pins w) (rows, w) = (Ok (), (rows', w'))"
    using applied(3,4) by simp
  have fin: "finite desired" "\<forall>(run, h) \<in> desired. run \<noteq> RETENTION_RELEASE_SENTINEL_RUN_ID"
    using applied(5) by (simp_all add: named_def)
  note ends = retention_applied [OF run fin]
  have "accounted E pins network (rows', w')" if "accounted E pins network (rows, w)"
    using steps_accounted [OF ends(1) that] by blast
  then show ?thesis using ends(2) owned_named [of network rows'] by (auto simp: wanted_heights_def accounted_def)
qed

lemma before_scan_pins:
  assumes "retain_migration_anchor_checkpoints_before_scan E J db network frontier batch_end incoming (rows, w) = (Ok n, (rows', w'))"
    "runs_named db" "prepared_anchor_retention_candidates J db network = Ok cs" "cs \<noteq> []"
    "checkpoints_of E w = Ok heights" "nu6_3_activation E network = Some activation"
  shows "migration_anchor_retention_references network rows' = migration_anchor_retention_references network rows \<union>
      projected_references network cs (sorted_list_of_set (insert frontier (set heights \<union> incoming))) activation frontier batch_end"
    "wanted_heights network rows' \<subseteq> pins w'"
proof -
  have "migration_anchor_retention_references network rows' = migration_anchor_retention_references network rows \<union>
      projected_references network cs (sorted_list_of_set (insert frontier (set heights \<union> incoming))) activation frontier batch_end \<and>
    wanted_heights network rows' \<subseteq> pins w'"
    using assms(1,2)
  proof (cases rule: before_scan_cases)
    case unchanged
    then show ?thesis using assms(3,4) by simp
  next
    case (applied cs' heights' activation' retained desired x)
    have "retained = pins w" using retained_read [OF applied(4)] .
    then have run: "apply_retention E network desired (pins w) (rows, w) = (Ok (), (rows', w'))"
      using applied(5,6) by simp
    have fin: "finite desired" "\<forall>(run, h) \<in> desired. run \<noteq> RETENTION_RELEASE_SENTINEL_RUN_ID"
      using applied(7) by (simp_all add: named_def)
    have "cs' = cs" "heights' = heights" "activation' = activation" using applied(1-3) assms(3,5,6) by simp_all
    then show ?thesis using retention_applied(2) [OF run fin] applied(8) by (auto simp: wanted_heights_def)
  qed
  then show "migration_anchor_retention_references network rows' = migration_anchor_retention_references network rows \<union>
      projected_references network cs (sorted_list_of_set (insert frontier (set heights \<union> incoming))) activation frontier batch_end"
    "wanted_heights network rows' \<subseteq> pins w'" by blast+
qed

end

section \<open>Passes that are cut off, and passes after each other\<close>

text \<open>
  The process may be killed in a pass. \<open>dying E\<close> is the tree of a process that is killed at the start of
  its tree operation \<open>k\<close> or right after it: the state carries the number of operations left, and the pass
  stops there with what it has written. A cut before the first write leaves the state as it was.
\<close>

definition dying_op :: "('w, 'e, unit) action \<Rightarrow> ('w \<times> nat, 'e, unit) action" where
  "dying_op op = (\<lambda>(w, k).
     if k = 0 then (Panic, (w, 0))
     else case op w of (r, w') \<Rightarrow> (if k = 1 then Panic else r, (w', k - 1)))"

definition dying :: "'w retention_env \<Rightarrow> ('w \<times> nat) retention_env" where
  "dying E =
     \<lparr>checkpoints_of = checkpoints_of E \<circ> fst, retained_of = retained_of E \<circ> fst,
      ensure_retained = (\<lambda>h. dying_op (ensure_retained E h)), remove_retained = (\<lambda>h. dying_op (remove_retained E h)),
      anchor_height_of = anchor_height_of E \<circ> fst, account_exists = account_exists E \<circ> fst,
      unspent_orchard_notes = unspent_orchard_notes E \<circ> fst, zatoshis_ok = zatoshis_ok E,
      nu6_3_activation = nu6_3_activation E, durable_interval = durable_interval E\<rparr>"

lemma dying_simps [simp]:
  "checkpoints_of (dying E) s = checkpoints_of E (fst s)" "retained_of (dying E) s = retained_of E (fst s)"
  "ensure_retained (dying E) h = dying_op (ensure_retained E h)" "remove_retained (dying E) h = dying_op (remove_retained E h)"
  "anchor_height_of (dying E) s = anchor_height_of E (fst s)" "account_exists (dying E) s = account_exists E (fst s)"
  "unspent_orchard_notes (dying E) s = unspent_orchard_notes E (fst s)" "zatoshis_ok (dying E) = zatoshis_ok E"
  "nu6_3_activation (dying E) = nu6_3_activation E" "durable_interval (dying E) = durable_interval E"
  by (simp_all add: dying_def)

lemma dying_op_result:
  "dying_op op (w, k) = (r, (w', k')) \<Longrightarrow> w' = w \<and> r = Panic \<or> (\<exists>x. op w = (x, w') \<and> (r = x \<or> r = Panic))"
  by (cases "op w") (auto simp: dying_op_def split: if_splits)

lemma accounted_dying: "accounted (dying E) (pins \<circ> fst) network (rows, (w, k)) = accounted E pins network (rows, w)"
  by (simp add: accounted_def)

text \<open>One pass, complete or cut off; the policy of the runs and the notes may differ from pass to pass.\<close>

inductive maintenance_pass ::
  "'w retention_env \<Rightarrow> json_env \<Rightarrow> wallet_network \<Rightarrow> ledger \<times> 'w \<Rightarrow> ledger \<times> 'w \<Rightarrow> bool"
  for E :: "'w retention_env" and J :: json_env and network :: wallet_network where
  after_scan: "runs_named db \<Longrightarrow>
    retain_prepared_note_anchor_checkpoints_after_scan E J db network (rows, w) = (r, (rows', w')) \<Longrightarrow>
    maintenance_pass E J network (rows, w) (rows', w')"
| after_scan_cut: "runs_named db \<Longrightarrow>
    retain_prepared_note_anchor_checkpoints_after_scan (dying E) J db network (rows, (w, k)) = (r, (rows', (w', k'))) \<Longrightarrow>
    maintenance_pass E J network (rows, w) (rows', w')"
| before_scan: "runs_named db \<Longrightarrow>
    retain_migration_anchor_checkpoints_before_scan E J db network frontier batch_end incoming (rows, w) = (r, (rows', w')) \<Longrightarrow>
    maintenance_pass E J network (rows, w) (rows', w')"
| before_scan_cut: "runs_named db \<Longrightarrow>
    retain_migration_anchor_checkpoints_before_scan (dying E) J db network frontier batch_end incoming (rows, (w, k)) =
      (r, (rows', (w', k'))) \<Longrightarrow>
    maintenance_pass E J network (rows, w) (rows', w')"

text \<open>The wallet itself pins only checkpoints it keeps; a rewind or a pruning may drop pins.\<close>

inductive maintenance_step ::
  "'w retention_env \<Rightarrow> ('w \<Rightarrow> u32 set) \<Rightarrow> json_env \<Rightarrow> wallet_network \<Rightarrow> ledger \<times> 'w \<Rightarrow> ledger \<times> 'w \<Rightarrow> bool"
  for E :: "'w retention_env" and pins :: "'w \<Rightarrow> u32 set" and J :: json_env and network :: wallet_network where
  pass: "maintenance_pass E J network s s' \<Longrightarrow> maintenance_step E pins J network s s'"
| wallet: "pins w' \<subseteq> pins w \<union> {h. durable E network h} \<Longrightarrow> maintenance_step E pins J network (rows, w) (rows, w')"

context checkpoint_pins begin

lemma dying_pins: "checkpoint_pins (dying E) (pins \<circ> fst)"
proof
  fix h :: u32 and s s' :: "'w \<times> nat" and r
  obtain w k w' k' where s: "s = (w, k)" "s' = (w', k')" by (cases s, cases s')
  show "ensure_retained (dying E) h s = (r, s') \<Longrightarrow> (pins \<circ> fst) s \<subseteq> (pins \<circ> fst) s' \<and> (pins \<circ> fst) s' \<subseteq> insert h ((pins \<circ> fst) s)"
    using dying_op_result [of "ensure_retained E h" w k r w' k'] pin_frame [of h w _ w'] by (auto simp: s)
  show "remove_retained (dying E) h s = (r, s') \<Longrightarrow> (pins \<circ> fst) s' \<subseteq> (pins \<circ> fst) s \<and> (pins \<circ> fst) s - {h} \<subseteq> (pins \<circ> fst) s'"
    using dying_op_result [of "remove_retained E h" w k r w' k'] unpin_frame [of h w _ w'] by (auto simp: s)
  show "ensure_retained (dying E) h s = (Ok (), s') \<Longrightarrow> h \<in> (pins \<circ> fst) s'"
    using dying_op_result [of "ensure_retained E h" w k "Ok ()" w' k'] pinned [of h w w'] by (auto simp: s)
  show "remove_retained (dying E) h s = (Ok (), s') \<Longrightarrow> h \<notin> (pins \<circ> fst) s'"
    using dying_op_result [of "remove_retained E h" w k "Ok ()" w' k'] unpinned [of h w w'] by (auto simp: s)
  show "retained_of (dying E) s = Ok S \<Longrightarrow> S = (pins \<circ> fst) s" for S
    using retained_read [of w S] by (simp add: s)
qed

lemma pass_accounted:
  assumes "maintenance_pass E J network (rows, w) (rows', w')" "accounted E pins network (rows, w)"
  shows "accounted E pins network (rows', w') \<and> pins w \<inter> {h. durable E network h} \<subseteq> pins w'"
  using assms(1)
proof cases
  case (after_scan db r)
  from steps_accounted [OF after_scan_steps [OF after_scan(2,1)] assms(2)] show ?thesis by simp
next
  case (before_scan db frontier batch_end incoming r)
  from steps_accounted [OF before_scan_steps [OF before_scan(2,1)] assms(2)] show ?thesis by simp
next
  case (after_scan_cut db k r k')
  have "accounted (dying E) (pins \<circ> fst) network (rows, (w, k))" using assms(2) by (simp only: accounted_dying)
  from checkpoint_pins.steps_accounted [OF dying_pins
      checkpoint_pins.after_scan_steps [OF dying_pins after_scan_cut(2,1)] this]
  show ?thesis by (simp add: accounted_dying)
next
  case (before_scan_cut db frontier batch_end incoming k r k')
  have "accounted (dying E) (pins \<circ> fst) network (rows, (w, k))" using assms(2) by (simp only: accounted_dying)
  from checkpoint_pins.steps_accounted [OF dying_pins
      checkpoint_pins.before_scan_steps [OF dying_pins before_scan_cut(2,1)] this]
  show ?thesis by (simp add: accounted_dying)
qed

lemma maintenance_accounted:
  assumes "(maintenance_step E pins J network)\<^sup>*\<^sup>* s s'" "accounted E pins network s"
  shows "accounted E pins network s'"
  using assms
proof (induction rule: rtranclp_induct)
  case (step t u)
  have acc: "accounted E pins network t" using step.IH step.prems by blast
  from step.hyps(2) show ?case
  proof cases
    case pass
    obtain rows w rows' w' where tu: "t = (rows, w)" "u = (rows', w')" by (cases t, cases u)
    show ?thesis using pass_accounted [OF pass [unfolded tu]] acc unfolding tu by blast
  next
    case (wallet w' w rows)
    show ?thesis using acc wallet(3) unfolding wallet(1,2) accounted_def by auto
  qed
qed simp

end

text \<open>The references of one note, once the pass has read everything.\<close>

lemma needed_checkpoint_wanted:
  assumes "wanted_references E w network anchor activation heights cs = Ok refs" "c \<in> set cs"
    "select_spendable_orchard_v2_notes E w (cand_account c) anchor = Ok ns"
    "List.find (\<lambda>n. to_ascii_lowercase (orch_txid_hex n) = to_ascii_lowercase (ref_txid_hex (cand_note c))
       \<and> orch_output_index n = ref_output_index (cand_note c)) ns = Some selected"
    "orch_mined_height selected = Some mined"
    "h \<in> migration_anchor_checkpoints_to_retain network (cand_policy c) anchor mined activation heights"
  shows "(cand_run_id c, h) \<in> refs"
proof -
  from assms(1) obtain rs where rs: "mapM (account_references E w network anchor activation heights cs)
      (sort (remdups (map cand_account cs))) = Ok rs" "refs = \<Union>(set rs)"
    by (auto simp: wanted_references_def outcome_simps)
  have "cand_account c \<in> set (sort (remdups (map cand_account cs)))" using assms(2) by simp
  then obtain A where A: "A \<in> set rs" "account_references E w network anchor activation heights cs (cand_account c) = Ok A"
    using mapM_Ok_result [OF rs(1)] by blast
  from A(2) assms(3) obtain bs where bs: "mapM (candidate_references E network anchor activation heights ns)
      (filter (\<lambda>d. cand_account d = cand_account c) cs) = Ok bs" "A = \<Union>(set bs)"
    by (auto simp: account_references_def outcome_simps split: if_splits)
  have "c \<in> set (filter (\<lambda>d. cand_account d = cand_account c) cs)" using assms(2) by simp
  then obtain B where B: "B \<in> set bs" "candidate_references E network anchor activation heights ns c = Ok B"
    using mapM_Ok_result [OF bs(1)] by blast
  have "B = Pair (cand_run_id c) ` migration_anchor_checkpoints_to_retain network (cand_policy c) anchor mined activation heights"
    using B(2) assms(4,5) unfolding candidate_references_def assms(4) option.case
    by (simp add: ok_or_def split: if_splits)
  then show ?thesis using assms(6) A(1) B(1) rs(2) bs(2) by blast
qed

text \<open>The boundaries of a batch are all visited.\<close>

lemma boundary_visited:
  assumes "0 < modulus" "b mod modulus = 0" "first_eligible \<le> b" "b < batch_end" "batch_end \<le> u32_max"
  shows "\<exists>first_boundary. (if first_eligible mod modulus = 0 then Some first_eligible
      else checked_add u32_max first_eligible (modulus - first_eligible mod modulus)) = Some first_boundary \<and>
    b \<in> set (boundaries_from first_boundary batch_end modulus)"
proof -
  define first_boundary where "first_boundary = (if first_eligible mod modulus = 0 then first_eligible
      else first_eligible + (modulus - first_eligible mod modulus))"
  obtain k where k: "b = modulus * k" using assms(2) by auto
  define q where "q = first_eligible div modulus"
  have split: "first_eligible = modulus * q + first_eligible mod modulus" by (simp add: q_def)
  have small: "first_eligible mod modulus < modulus" using assms(1) by simp
  have fb: "first_boundary = (if first_eligible mod modulus = 0 then modulus * q else modulus * Suc q)"
    unfolding first_boundary_def using split small by (simp, linarith)
  have le: "first_boundary \<le> b"
  proof (cases "first_eligible mod modulus = 0")
    case True
    then show ?thesis using assms(3) by (simp add: first_boundary_def)
  next
    case False
    then have "modulus * q < modulus * k" using split assms(3) k by linarith
    then have "Suc q \<le> k" by simp
    then have "modulus * Suc q \<le> modulus * k" by (rule mult_le_mono2)
    then show ?thesis using False fb k by simp
  qed
  have "first_boundary mod modulus = 0" by (simp add: fb)
  then have "(b - first_boundary) mod modulus = 0" using assms(2) le
    by (metis mod_0_imp_dvd dvd_diff_nat mod_eq_0_iff_dvd)
  then have mem: "b \<in> set (boundaries_from first_boundary batch_end modulus)"
    using le assms(4) by (simp add: boundaries_from_def)
  have "(if first_eligible mod modulus = 0 then Some first_eligible
      else checked_add u32_max first_eligible (modulus - first_eligible mod modulus)) = Some first_boundary"
    using le assms(4,5) by (simp add: first_boundary_def checked_add_def split: if_splits)
  with mem show ?thesis by blast
qed

lemma candidate_policy:
  assumes "prepared_anchor_retention_candidates J db network = Ok cs" "c \<in> set cs"
  shows "\<exists>r \<in> set (run_rows db). run_key r = cand_run_id c \<and>
    timing_policy_from_str (run_timing_policy r) = Ok (cand_policy c)"
proof -
  from assms obtain css where css: "mapM (retention_candidate_of J db) (retention_rows db network) = Ok css" "cs = concat css"
    by (auto simp: prepared_anchor_retention_candidates_def outcome_simps)
  with assms(2) obtain ds where ds: "ds \<in> set css" "c \<in> set ds" by auto
  from mapM_Ok_member [OF css(1) ds(1)] obtain rn where rn: "rn \<in> set (retention_rows db network)"
    "retention_candidate_of J db rn = Ok ds" by blast
  obtain r n where "rn = (r, n)" by (cases rn)
  with rn ds(2) have "r \<in> set (run_rows db)" "run_key r = cand_run_id c"
    "timing_policy_from_str (run_timing_policy r) = Ok (cand_policy c)"
    by (auto simp: retention_rows_def retention_candidate_of_def outcome_simps split: if_splits)
  then show ?thesis by blast
qed

lemma run_policy_of_candidate:
  assumes "prepared_anchor_retention_candidates J db network = Ok cs" "c \<in> set cs" "distinct (map run_key (run_rows db))"
  shows "(cand_run_id c, cand_policy c) \<in> set (run_policies cs)"
proof -
  have same: "cand_policy d = cand_policy c" if d: "d \<in> set cs" "cand_run_id d = cand_run_id c" for d
  proof -
    obtain r where r: "r \<in> set (run_rows db)" "run_key r = cand_run_id c"
      "timing_policy_from_str (run_timing_policy r) = Ok (cand_policy c)" using candidate_policy [OF assms(1,2)] by blast
    obtain q where q: "q \<in> set (run_rows db)" "run_key q = cand_run_id d"
      "timing_policy_from_str (run_timing_policy q) = Ok (cand_policy d)" using candidate_policy [OF assms(1) d(1)] by blast
    have "q = r" using assms(3) r(1,2) q(1,2) d(2) by (auto simp: distinct_map inj_on_def)
    then show ?thesis using r(3) q(3) by simp
  qed
  have "map_of (map (\<lambda>c. (cand_run_id c, cand_policy c)) cs) (cand_run_id c) \<noteq> None"
    unfolding map_of_eq_None_iff using assms(2) by force
  then obtain p where p: "map_of (map (\<lambda>c. (cand_run_id c, cand_policy c)) cs) (cand_run_id c) = Some p" by blast
  then have "(cand_run_id c, p) \<in> set (map (\<lambda>c. (cand_run_id c, cand_policy c)) cs)" by (rule map_of_SomeD)
  then obtain d where "d \<in> set cs" "cand_run_id d = cand_run_id c" "cand_policy d = p" by auto
  then have "p = cand_policy c" using same by blast
  then show ?thesis using assms(2) p by (force simp: run_policies_def)
qed

lemma candidate_loop_bounds:
  "b \<in> set (candidate_loop m latest lower ages) \<Longrightarrow> lower \<le> b \<and> b \<le> latest"
  by (induction ages) (auto simp: outcome_simps split: option.splits if_splits)

lemma first_candidate_retained:
  assumes "zip318_anchor_candidate_boundaries_with_policy network policy anchor mined activation = b # bs"
    "representative_orchard_checkpoint heights b mined = Some h"
  shows "h \<in> migration_anchor_checkpoints_to_retain network policy anchor mined activation heights"
proof -
  from assms(1) obtain latest where latest: "zip318_anchor_boundary_at_or_before_with_policy network policy anchor = Some latest"
    "b \<in> set (candidate_loop (anchor_bucket_modulus network policy) latest
       (max mined (saturating_add u32_max activation 1)) (candidate_ages network policy))"
    by (auto simp: zip318_anchor_candidate_boundaries_with_policy_def split: option.splits)
  from candidate_loop_bounds [OF latest(2)] have "mined \<le> latest" by simp
  then have "migration_anchor_retention_boundary network policy anchor mined = Some latest"
    using latest(1) by (simp add: migration_anchor_retention_boundary_def)
  then show ?thesis using assms by (auto simp: migration_anchor_checkpoints_to_retain_def List.map_filter_def)
qed

section \<open>One run, one note\<close>

definition anchor_run :: run_row where
  "anchor_run = \<lparr>run_key = ''r'', run_account = ''a'', run_network = ''regtest'', run_phase = PHASE_READY_TO_MIGRATE,
     run_created_at_ms = 0, run_updated_at_ms = 0, run_targets = [], run_schedule = [], run_timing_policy = ''standard'',
     run_preparation_policy = ''immediate'', run_proof_retry_height = None, run_signed_origin = None,
     run_rebased_origin = None, run_recovery_origin = None, run_recovery_max_offset = None, run_last_error = None\<rparr>"

definition anchor_note :: note_row where
  "anchor_note = \<lparr>note_run_id = ''r'', note_txid = ''n'', note_output_index = 0, note_value = 7, note_version = 2,
     note_nullifier = None, note_lock_state = ''locked''\<rparr>"

definition anchor_db :: migration_db where
  "anchor_db = \<lparr>stages_db = empty_db, run_rows = [anchor_run], pending_rows = [], note_rows = [anchor_note], signed_rows = []\<rparr>"

definition plain_json :: json_env where
  "plain_json = \<lparr>targets_of_json = (\<lambda>t. None), json_of_targets = (\<lambda>v. []), schedule_of_json = (\<lambda>t. None),
     json_of_schedule = (\<lambda>v. []), note_of_json = (\<lambda>t. None), json_of_note = (\<lambda>v. []), metadata_of_json = (\<lambda>t. None),
     json_of_metadata = (\<lambda>v. [])\<rparr>"

definition anchor_wallet :: pin_wallet where
  "anchor_wallet = \<lparr>wallet_checkpoints = [2, 5, 6], wallet_pins = {4}, wallet_anchor = Some 6,
     wallet_notes = [\<lparr>orch_txid_hex = ''n'', orch_output_index = 0, orch_version = 2, orch_value = 7, orch_mined_height = Some 3\<rparr>]\<rparr>"

lemma anchor_db_candidates: "prepared_anchor_retention_candidates plain_json anchor_db Regtest = Ok [\<lparr>cand_run_id = ''r'', cand_account = ''a'',
   cand_note = \<lparr>ref_txid_hex = ''n'', ref_output_index = 0, ref_value_zatoshi = 7, ref_note_version = 2, ref_nullifier_hex = None\<rparr>,
   cand_policy = Standard\<rparr>]"
  by code_simp

lemma pin_env_simps [simp]:
  "checkpoints_of (pin_env a) w = Ok (wallet_checkpoints w)" "retained_of (pin_env a) w = Ok (wallet_pins w)"
  "anchor_height_of (pin_env a) w = Ok (wallet_anchor w)" "account_exists (pin_env a) w acc = Ok True"
  "unspent_orchard_notes (pin_env a) w acc h = Ok (wallet_notes w)" "zatoshis_ok (pin_env a) v = (v \<le> 2100000000000000)"
  "nu6_3_activation (pin_env a) network = Some a" "durable_interval (pin_env a) = 4"
  "ensure_retained (pin_env a) h w = (if h \<in> set (wallet_checkpoints w)
     then (Ok (), w\<lparr>wallet_pins := insert h (wallet_pins w)\<rparr>) else (Err TreeFailed, w))"
  "remove_retained (pin_env a) h w = (Ok (), w\<lparr>wallet_pins := wallet_pins w - {h}\<rparr>)"
  by (simp_all add: pin_env_def)

lemma anchor_db_boundaries: "zip318_anchor_candidate_boundaries_with_policy Regtest Standard 6 3 2 = [6, 5, 4, 3]"
  by (simp add: anchor_eval)

lemma anchor_db_checkpoints: "migration_anchor_checkpoints_to_retain Regtest Standard 6 3 2 [2, 5, 6] = {6}"
  by (simp add: migration_anchor_checkpoints_to_retain_def migration_anchor_retention_boundary_def anchor_db_boundaries
      zip318_anchor_boundary_at_or_before_with_policy_def anchor_constants representative_orchard_checkpoint_def
      List.map_filter_def)

lemma anchor_db_wanted: "wanted_references (pin_env 2) anchor_wallet Regtest 6 2 [2, 5, 6]
    [\<lparr>cand_run_id = ''r'', cand_account = ''a'',
       cand_note = \<lparr>ref_txid_hex = ''n'', ref_output_index = 0, ref_value_zatoshi = 7, ref_note_version = 2, ref_nullifier_hex = None\<rparr>,
       cand_policy = Standard\<rparr>] = Ok {(''r'', 6)}"
  by (simp add: wanted_references_def account_references_def select_spendable_orchard_v2_notes_def candidate_references_def
      anchor_wallet_def anchor_db_checkpoints ok_or_def)

lemma anchor_wallet_simps [simp]:
  "wallet_checkpoints anchor_wallet = [2, 5, 6]" "wallet_pins anchor_wallet = {4}" "wallet_anchor anchor_wallet = Some 6"
  by (simp_all add: anchor_wallet_def)

lemma anchor_db_applied:
  "apply_retention (pin_env 2) Regtest {(''r'', 6)} {4} ([], anchor_wallet) =
    (Ok (), ([\<lparr>ret_network = ''regtest'', ret_run_id = ''r'', ret_height = 6, ret_owns = True\<rparr>], anchor_wallet\<lparr>wallet_pins := {6, 4}\<rparr>))"
  by (simp add: apply_retention_def stage_migration_anchor_retention_references_def heights_to_release_def owned_heights_def
      of_network_def migration_owns_def on_ledger_def on_tree_def andthen_def modify_def
      finish_migration_anchor_retention_releases_def RETENTION_RELEASE_SENTINEL_RUN_ID_def)

lemma anchor_db_after_scan:
  "retain_prepared_note_anchor_checkpoints_after_scan (pin_env 2) plain_json anchor_db Regtest ([], anchor_wallet) =
    (Ok (card {6 :: nat}), ([\<lparr>ret_network = ''regtest'', ret_run_id = ''r'', ret_height = 6, ret_owns = True\<rparr>],
       anchor_wallet\<lparr>wallet_pins := {6, 4}\<rparr>))"
  by (simp add: retain_prepared_note_anchor_checkpoints_after_scan_def anchor_db_candidates action_simps anchor_db_wanted
      ok_or_def andthen_def [of "apply_retention _ _ _ _"] anchor_db_applied)

text \<open>The process is killed right after it has pinned the checkpoint.\<close>

lemma anchor_db_cut:
  "retain_prepared_note_anchor_checkpoints_after_scan (dying (pin_env 2)) plain_json anchor_db Regtest ([], (anchor_wallet, 1)) =
    (Panic, ([\<lparr>ret_network = ''regtest'', ret_run_id = ''r'', ret_height = 6, ret_owns = True\<rparr>],
       (anchor_wallet\<lparr>wallet_pins := {6, 4}\<rparr>, 0)))"
proof -
  have wanted: "wanted_references (dying (pin_env 2)) (anchor_wallet, 1) Regtest 6 2 [2, 5, 6]
      [\<lparr>cand_run_id = ''r'', cand_account = ''a'',
         cand_note = \<lparr>ref_txid_hex = ''n'', ref_output_index = 0, ref_value_zatoshi = 7, ref_note_version = 2, ref_nullifier_hex = None\<rparr>,
         cand_policy = Standard\<rparr>] = Ok {(''r'', 6)}"
    by (simp add: wanted_references_def account_references_def select_spendable_orchard_v2_notes_def candidate_references_def
        anchor_wallet_def anchor_db_checkpoints ok_or_def)
  have "apply_retention (dying (pin_env 2)) Regtest {(''r'', 6)} {4} ([], (anchor_wallet, 1)) =
      (Panic, ([\<lparr>ret_network = ''regtest'', ret_run_id = ''r'', ret_height = 6, ret_owns = True\<rparr>],
        (anchor_wallet\<lparr>wallet_pins := {6, 4}\<rparr>, 0)))"
    by (simp add: apply_retention_def stage_migration_anchor_retention_references_def heights_to_release_def owned_heights_def
        of_network_def migration_owns_def on_ledger_def on_tree_def andthen_def dying_op_def)
  then show ?thesis
    by (simp add: retain_prepared_note_anchor_checkpoints_after_scan_def anchor_db_candidates action_simps wanted [simplified]
        ok_or_def andthen_def [of "apply_retention _ _ _ _"])
qed

lemma anchor_db_accounted: "accounted (pin_env 2) wallet_pins Regtest ([], anchor_wallet)"
  by (simp add: accounted_def wanted_heights_def migration_anchor_retention_references_def releasing_def of_network_def
      is_wallet_durable_anchor_def)

lemma anchor_db_named: "runs_named anchor_db" "distinct (map run_key (run_rows anchor_db))"
  by (simp_all add: runs_named_def anchor_db_def anchor_run_def RETENTION_RELEASE_SENTINEL_RUN_ID_def)

lemma anchor_db_representatives: "checkpoint_representatives_for_scan [2, 5, 6, 7] 2 6 8 (Suc 0) = {6, 7}"
proof -
  have "[6 ..< 8] = [6, 7 :: nat]" by (simp add: upt_rec)
  then have "boundaries_from 6 8 (Suc 0) = [6, 7]" by (simp add: boundaries_from_def)
  moreover have "representative_orchard_checkpoint [2, 5, 6, 7] 6 0 = Some 6" "representative_orchard_checkpoint [2, 5, 6, 7] 7 0 = Some 7"
    by (simp_all add: representative_orchard_checkpoint_def)
  ultimately have "List.map_filter (\<lambda>b. representative_orchard_checkpoint [2, 5, 6, 7] b 0) (boundaries_from 6 8 (Suc 0)) = [6, 7]"
    by (simp only: List.map_filter_def) simp
  then show ?thesis by (simp add: checkpoint_representatives_for_scan_def saturating_add_def u32_max_def)
qed

definition batch_wallet :: pin_wallet where
  "batch_wallet = anchor_wallet\<lparr>wallet_checkpoints := [2, 5, 6, 7]\<rparr>"

lemma batch_wallet_simps [simp]: "wallet_checkpoints batch_wallet = [2, 5, 6, 7]" "wallet_pins batch_wallet = {4}"
  by (simp_all add: batch_wallet_def)

lemma anchor_db_before_scan:
  "\<exists>n s'. retain_migration_anchor_checkpoints_before_scan (pin_env 2) plain_json anchor_db Regtest 6 8 {7} ([], batch_wallet) = (Ok n, s')"
proof -
  have refs: "projected_references Regtest [\<lparr>cand_run_id = ''r'', cand_account = ''a'',
       cand_note = \<lparr>ref_txid_hex = ''n'', ref_output_index = 0, ref_value_zatoshi = 7, ref_note_version = 2, ref_nullifier_hex = None\<rparr>,
       cand_policy = Standard\<rparr>] [2, 5, 6, 7] 2 6 8 = {(''r'', 6), (''r'', 7)}"
    by (simp add: projected_references_def run_policies_def anchor_constants anchor_db_representatives)
  have old: "migration_anchor_retention_references Regtest [] = {}"
    by (simp add: migration_anchor_retention_references_def of_network_def)
  have heights: "sorted_list_of_set (insert 6 (set [2, 5, 6, 7] \<union> {7})) = [2, 5, 6, 7 :: nat]"
    unfolding set_simps by (subst insert_absorb) (simp_all add: insert_commute)
  have ends: "\<exists>t. apply_retention (pin_env 2) Regtest {(''r'', 6), (''r'', 7)} {4} ([], batch_wallet) = (Ok (), t)"
    by (simp add: apply_retention_def stage_migration_anchor_retention_references_def heights_to_release_def owned_heights_def
      of_network_def migration_owns_def on_ledger_def on_tree_def andthen_def modify_def Let_def is_wallet_durable_anchor_def)
  then show ?thesis
    by (simp add: retain_migration_anchor_checkpoints_before_scan_def anchor_db_candidates action_simps ok_or_def refs old heights [simplified]
        andthen_def [of "apply_retention _ _ _ _"] Let_def) (auto simp: action_simps)
qed

section \<open>What a successful pass leaves for the next proof\<close>

lemma after_scan_references:
  assumes "checkpoint_pins E pins" "runs_named db"
    "retain_prepared_note_anchor_checkpoints_after_scan E J db network (rows, w) = (Ok n, (rows', w'))"
    "prepared_anchor_retention_candidates J db network = Ok cs" "c \<in> set cs"
    "anchor_height_of E w = Ok (Some anchor)" "checkpoints_of E w = Ok heights" "nu6_3_activation E network = Some activation"
  obtains refs where "wanted_references E w network anchor activation heights cs = Ok refs" "snd ` refs \<subseteq> pins w'"
  using assms(3,2)
proof (cases rule: after_scan_cases)
  case unchanged
  then show thesis using assms(6) by simp
next
  case (applied cs' retained desired x)
  have "retained = pins w" using checkpoint_pins.retained_read [OF assms(1) applied(2)] .
  then have run: "apply_retention E network desired (pins w) (rows, w) = (Ok (), (rows', w'))"
    using applied(3,4) by simp
  have "finite desired" "\<forall>(run, h) \<in> desired. run \<noteq> RETENTION_RELEASE_SENTINEL_RUN_ID"
    using applied(5) by (simp_all add: named_def)
  note ends = checkpoint_pins.retention_applied(2) [OF assms(1) run this]
  have "cs' = cs" using applied(1) assms(4) by simp
  then have "wanted_references E w network anchor activation heights cs = Ok desired"
    using applied(6) assms(5-8) by auto
  then show thesis using that ends by simp
qed

text \<open>What the pass has checked of the account and of a note it has found.\<close>

lemma candidate_revalidated:
  assumes "wanted_references E w network anchor activation heights cs = Ok refs" "c \<in> set cs"
  shows "account_exists E w (cand_account c) = Ok True"
    "select_spendable_orchard_v2_notes E w (cand_account c) anchor = Ok ns \<Longrightarrow>
     List.find (\<lambda>n. to_ascii_lowercase (orch_txid_hex n) = to_ascii_lowercase (ref_txid_hex (cand_note c))
       \<and> orch_output_index n = ref_output_index (cand_note c)) ns = Some selected \<Longrightarrow>
     orch_version selected = 2 \<and> zatoshis_ok E (orch_value selected) \<and> orch_value selected = ref_value_zatoshi (cand_note c)"
proof -
  from assms(1) obtain rs where rs: "mapM (account_references E w network anchor activation heights cs)
      (sort (remdups (map cand_account cs))) = Ok rs" by (auto simp: wanted_references_def outcome_simps)
  have "cand_account c \<in> set (sort (remdups (map cand_account cs)))" using assms(2) by simp
  then obtain A where A: "account_references E w network anchor activation heights cs (cand_account c) = Ok A"
    using mapM_Ok_result [OF rs] by blast
  then show "account_exists E w (cand_account c) = Ok True"
    by (auto simp: account_references_def outcome_simps split: if_splits)
  assume ns: "select_spendable_orchard_v2_notes E w (cand_account c) anchor = Ok ns" and
    found: "List.find (\<lambda>n. to_ascii_lowercase (orch_txid_hex n) = to_ascii_lowercase (ref_txid_hex (cand_note c))
       \<and> orch_output_index n = ref_output_index (cand_note c)) ns = Some selected"
  from A ns obtain bs where bs: "mapM (candidate_references E network anchor activation heights ns)
      (filter (\<lambda>d. cand_account d = cand_account c) cs) = Ok bs"
    by (auto simp: account_references_def outcome_simps split: if_splits)
  have "c \<in> set (filter (\<lambda>d. cand_account d = cand_account c) cs)" using assms(2) by simp
  then obtain B where "candidate_references E network anchor activation heights ns c = Ok B"
    using mapM_Ok_result [OF bs] by blast
  then show "orch_version selected = 2 \<and> zatoshis_ok E (orch_value selected) \<and> orch_value selected = ref_value_zatoshi (cand_note c)"
    unfolding candidate_references_def found option.case by (simp split: if_splits)
qed

lemma candidate_note_v2:
  assumes "prepared_anchor_retention_candidates J db network = Ok cs" "c \<in> set cs"
  shows "ref_note_version (cand_note c) = 2"
proof -
  from assms obtain css where css: "mapM (retention_candidate_of J db) (retention_rows db network) = Ok css" "cs = concat css"
    by (auto simp: prepared_anchor_retention_candidates_def outcome_simps)
  with assms(2) obtain ds where ds: "ds \<in> set css" "c \<in> set ds" by auto
  from mapM_Ok_member [OF css(1) ds(1)] obtain rn where rn: "rn \<in> set (retention_rows db network)"
    "retention_candidate_of J db rn = Ok ds" by blast
  obtain r n where "rn = (r, n)" by (cases rn)
  with rn ds(2) show ?thesis
    by (auto simp: retention_rows_def retention_candidate_of_def note_ref_of_row_def outcome_simps split: if_splits)
qed

section \<open>Properties\<close>

text \<open>
  C21: However many passes run, before and after scans, whether they succeed, fail or are cut off by the end of the
  process between any two of their tree operations, and whatever durable pins the wallet gains or loses between
  them, every pinned checkpoint is one the wallet keeps anyway or is recorded as owned by the migration, so that a
  later pass can release it; and no further pass, however it ends, unpins an anchor the wallet keeps.
\<close>

theorem anchors_stay_accounted:
  assumes "checkpoint_pins E pins" "(maintenance_step E pins J network)\<^sup>*\<^sup>* (rows, w) (rows', w')"
    "accounted E pins network (rows, w)"
  shows "accounted E pins network (rows', w') \<and>
    pins w' \<subseteq> {h. durable E network h} \<union> owned_heights network rows' \<and>
    (\<forall>rows'' w''. maintenance_pass E J network (rows', w') (rows'', w'') \<longrightarrow>
       pins w' \<inter> {h. durable E network h} \<subseteq> pins w'')"
proof (intro conjI allI impI)
  show acc: "accounted E pins network (rows', w')"
    using checkpoint_pins.maintenance_accounted [OF assms(1) assms(2) assms(3)] .
  then show "pins w' \<subseteq> {h. durable E network h} \<union> owned_heights network rows'" by (simp add: accounted_def)
  show "pins w' \<inter> {h. durable E network h} \<subseteq> pins w''"
    if "maintenance_pass E J network (rows', w') (rows'', w'')" for rows'' w''
    using checkpoint_pins.pass_accounted [OF assms(1) that acc] by simp
qed

theorem anchors_stay_accounted_witness:
  "\<exists>k. retain_prepared_note_anchor_checkpoints_after_scan (dying (pin_env 2)) plain_json anchor_db Regtest ([], (anchor_wallet, 1)) =
     (Panic, ([\<lparr>ret_network = ''regtest'', ret_run_id = ''r'', ret_height = 6, ret_owns = True\<rparr>],
       (anchor_wallet\<lparr>wallet_pins := {6, 4}\<rparr>, k))) \<and>
     accounted (pin_env 2) wallet_pins Regtest
       ([\<lparr>ret_network = ''regtest'', ret_run_id = ''r'', ret_height = 6, ret_owns = True\<rparr>], anchor_wallet\<lparr>wallet_pins := {6, 4}\<rparr>)"
proof -
  have "(maintenance_step (pin_env 2) wallet_pins plain_json Regtest)\<^sup>*\<^sup>* ([], anchor_wallet)
      ([\<lparr>ret_network = ''regtest'', ret_run_id = ''r'', ret_height = 6, ret_owns = True\<rparr>], anchor_wallet\<lparr>wallet_pins := {6, 4}\<rparr>)"
    using maintenance_pass.after_scan_cut [OF anchor_db_named(1) anchor_db_cut] by (blast intro: maintenance_step.pass)
  from anchors_stay_accounted [OF pin_tree.checkpoint_pins_axioms this anchor_db_accounted] show ?thesis
    using anchor_db_cut by blast
qed

text \<open>
  C22: The pass after a scan consists of such steps, also when it fails; when it succeeds and the wallet knows an anchor
  height, no release is left open, every checkpoint the ledger refers to is pinned, and, whatever had
  happened to earlier passes, nothing else is pinned but the anchors the wallet keeps.
\<close>

theorem scan_maintenance_settles:
  assumes "checkpoint_pins E pins" "runs_named db"
    "retain_prepared_note_anchor_checkpoints_after_scan E J db network (rows, w) = (r, (rows', w'))"
  shows "(retention_step E pins network)\<^sup>*\<^sup>* (rows, w) (rows', w') \<and>
    ((\<exists>n. r = Ok n) \<and> anchor_height_of E w \<noteq> Ok None \<longrightarrow>
       releasing network rows' = {} \<and> wanted_heights network rows' \<subseteq> pins w' \<and>
       (accounted E pins network (rows, w) \<longrightarrow> pins w' \<subseteq> {h. durable E network h} \<union> wanted_heights network rows'))"
proof (intro conjI impI)
  show "(retention_step E pins network)\<^sup>*\<^sup>* (rows, w) (rows', w')"
    using checkpoint_pins.after_scan_steps [OF assms(1,3,2)] .
next
  assume "(\<exists>n. r = Ok n) \<and> anchor_height_of E w \<noteq> Ok None"
  then obtain n where n: "r = Ok n" "anchor_height_of E w \<noteq> Ok None" by blast
  note pins = checkpoint_pins.after_scan_pins [OF assms(1) assms(3) [unfolded n(1)] assms(2) n(2)]
  then show "releasing network rows' = {}" "wanted_heights network rows' \<subseteq> pins w'" by blast+
  show "pins w' \<subseteq> {h. durable E network h} \<union> wanted_heights network rows'" if "accounted E pins network (rows, w)"
    using pins that by blast
qed

theorem scan_maintenance_settles_witness:
  "retain_prepared_note_anchor_checkpoints_after_scan (pin_env 2) plain_json anchor_db Regtest ([], anchor_wallet) =
     (Ok (card {6 :: nat}), ([\<lparr>ret_network = ''regtest'', ret_run_id = ''r'', ret_height = 6, ret_owns = True\<rparr>], anchor_wallet\<lparr>wallet_pins := {6, 4}\<rparr>)) \<and>
   releasing Regtest [\<lparr>ret_network = ''regtest'', ret_run_id = ''r'', ret_height = 6, ret_owns = True\<rparr>] = {}"
proof -
  have "anchor_height_of (pin_env 2) anchor_wallet \<noteq> Ok None" by simp
  then have "releasing Regtest [\<lparr>ret_network = ''regtest'', ret_run_id = ''r'', ret_height = 6, ret_owns = True\<rparr>] = {}"
    using scan_maintenance_settles [OF pin_tree.checkpoint_pins_axioms anchor_db_named(1) anchor_db_after_scan] by blast
  then show ?thesis using anchor_db_after_scan by blast
qed

text \<open>
  C23: The pass before a scan pins, for every run that still proves, the representative checkpoint of each boundary
  the batch contains, and records it in the ledger, before the scan can prune it; what the ledger referred to before
  stays pinned.
\<close>

theorem batch_boundaries_are_pinned:
  assumes "checkpoint_pins E pins" "runs_named db" "distinct (map run_key (run_rows db))"
    "retain_migration_anchor_checkpoints_before_scan E J db network frontier batch_end incoming (rows, w) = (Ok n, (rows', w'))"
    "prepared_anchor_retention_candidates J db network = Ok cs" "c \<in> set cs"
    "checkpoints_of E w = Ok heights" "nu6_3_activation E network = Some activation"
    "b mod anchor_bucket_modulus network (cand_policy c) = 0" "max frontier (saturating_add u32_max activation 1) \<le> b"
    "b < batch_end" "batch_end \<le> u32_max"
    "representative_orchard_checkpoint (sorted_list_of_set (insert frontier (set heights \<union> incoming))) b 0 = Some h"
  shows "(cand_run_id c, h) \<in> migration_anchor_retention_references network rows' \<and> h \<in> pins w' \<and>
    wanted_heights network rows \<subseteq> pins w'"
proof -
  let ?cps = "sorted_list_of_set (insert frontier (set heights \<union> incoming))"
  let ?m = "anchor_bucket_modulus network (cand_policy c)"
  have "cs \<noteq> []" using assms(6) by auto
  note pins = checkpoint_pins.before_scan_pins [OF assms(1,4,2,5) this assms(7,8)]
  have "h \<in> checkpoint_representatives_for_scan ?cps activation frontier batch_end ?m"
  proof -
    obtain first_boundary where fb: "(if max frontier (saturating_add u32_max activation 1) mod ?m = 0
        then Some (max frontier (saturating_add u32_max activation 1))
        else checked_add u32_max (max frontier (saturating_add u32_max activation 1))
               (?m - max frontier (saturating_add u32_max activation 1) mod ?m)) = Some first_boundary"
      "b \<in> set (boundaries_from first_boundary batch_end ?m)"
      using boundary_visited [OF modulus_positive assms(9-12)] by blast
    have "h \<in> set (List.map_filter (\<lambda>boundary. representative_orchard_checkpoint ?cps boundary 0)
        (boundaries_from first_boundary batch_end ?m))"
      using fb(2) assms(13) by (force simp: List.map_filter_def)
    moreover have "\<not> (?m = 0 \<or> frontier \<ge> batch_end)" using assms(10,11) by simp
    ultimately show ?thesis unfolding checkpoint_representatives_for_scan_def Let_def fb(1) by simp
  qed
  then have "(cand_run_id c, h) \<in> projected_references network cs ?cps activation frontier batch_end"
    using run_policy_of_candidate [OF assms(5,6,3)] unfolding projected_references_def by fastforce
  then have ref: "(cand_run_id c, h) \<in> migration_anchor_retention_references network rows'" using pins(1) by blast
  then have "h \<in> wanted_heights network rows'" unfolding wanted_heights_def by force
  moreover have "wanted_heights network rows \<subseteq> wanted_heights network rows'"
    using pins(1) unfolding wanted_heights_def by blast
  ultimately show ?thesis using ref pins(2) by blast
qed

theorem batch_boundaries_are_pinned_witness:
  "\<exists>n rows' w'. retain_migration_anchor_checkpoints_before_scan (pin_env 2) plain_json anchor_db Regtest 6 8 {7} ([], batch_wallet) =
     (Ok n, (rows', w')) \<and> 7 \<in> wallet_pins w'"
proof -
  obtain n rows' w' where run: "retain_migration_anchor_checkpoints_before_scan (pin_env 2) plain_json anchor_db Regtest 6 8 {7}
      ([], batch_wallet) = (Ok n, (rows', w'))" using anchor_db_before_scan by (metis surj_pair)
  have heights: "sorted_list_of_set (insert 6 (set [2, 5, 6, 7] \<union> {7})) = [2, 5, 6, 7 :: nat]"
    unfolding set_simps by (subst insert_absorb) (simp_all add: insert_commute)
  have rep: "representative_orchard_checkpoint (sorted_list_of_set (insert 6 (set [2, 5, 6, 7] \<union> {7}))) 7 0 = Some 7"
    unfolding heights by (simp add: representative_orchard_checkpoint_def)
  have "(''r'', 7) \<in> migration_anchor_retention_references Regtest rows' \<and> 7 \<in> wallet_pins w' \<and>
      wanted_heights Regtest [] \<subseteq> wallet_pins w'"
    using batch_boundaries_are_pinned [OF pin_tree.checkpoint_pins_axioms anchor_db_named run anchor_db_candidates _ _ _ _ _ _ _ rep,
        where c = "\<lparr>cand_run_id = ''r'', cand_account = ''a'', cand_note = \<lparr>ref_txid_hex = ''n'',
            ref_output_index = 0, ref_value_zatoshi = 7, ref_note_version = 2, ref_nullifier_hex = None\<rparr>,
            cand_policy = Standard\<rparr>" and activation = 2]
    by (simp add: anchor_constants saturating_add_def u32_max_def)
  then show ?thesis using run by blast
qed

end
