(* ===== verification/AnchorSelectionProps.thy ===== *)
theory AnchorSelectionProps
  imports AnchorSelection AnchorRetentionProps "HOL-Library.Sublist"
begin

text \<open>
  The next proof of a prepared note finds an anchor: the contract of the tree's reads extends that of
  its pins (a pinned checkpoint keeps its root and the witnesses of the notes mined at or below it), each
  loop of \<open>AnchorSelection\<close> is followed under it, and the property joins them with what the
  maintenance after the scan has pinned.
\<close>

section \<open>The reads of the tree\<close>

locale anchor_witnesses = checkpoint_pins E pins
  for E :: "'w retention_env" and pins :: "'w \<Rightarrow> u32 set" +
  fixes X :: "('w, 'root, 'path) witness_env" and root_of :: "u32 \<Rightarrow> 'root" and path_of :: "orchard_note \<Rightarrow> u32 \<Rightarrow> 'path"
  assumes root_frame: "root_at_checkpoint X h w = (r, w') \<Longrightarrow> pins w' = pins w \<and> checkpoints_of E w' = checkpoints_of E w"
    and root_value: "root_at_checkpoint X h w = (Ok (Some a), w') \<Longrightarrow> a = root_of h"
    and root_error: "root_at_checkpoint X h w = (Err e, w') \<Longrightarrow> contains_text ''commitmenttree'' (to_ascii_lowercase e)"
    and root_returns: "root_at_checkpoint X h w \<noteq> (Panic, w')"
    and root_kept: "checkpoints_of E w = Ok hs \<Longrightarrow> h \<in> set hs \<Longrightarrow> h \<in> pins w \<Longrightarrow>
      fst (root_at_checkpoint X h w) = Ok (Some (root_of h))"
    and witness_frame: "witness_at_checkpoint X n h w = (p, w') \<Longrightarrow> pins w' = pins w \<and> checkpoints_of E w' = checkpoints_of E w"
    and witness_value: "witness_at_checkpoint X n h w = (Ok (Some b), w') \<Longrightarrow> b = path_of n h"
    and witness_error: "witness_at_checkpoint X n h w = (Err e, w') \<Longrightarrow> contains_text ''commitmenttree'' (to_ascii_lowercase e)"
    and witness_returns: "witness_at_checkpoint X n h w \<noteq> (Panic, w')"
    and witness_kept: "checkpoints_of E w = Ok hs \<Longrightarrow> h \<in> set hs \<Longrightarrow> h \<in> pins w \<Longrightarrow> orch_mined_height n = Some m \<Longrightarrow> m \<le> h \<Longrightarrow>
      fst (witness_at_checkpoint X n h w) = Ok (Some (path_of n h))"
    and not_found_text: "contains_text ''anchornotfound'' (to_ascii_lowercase (anchor_not_found X h))"
    and pruned_text: "contains_text ''checkpoint'' (to_ascii_lowercase (checkpoint_pruned X))"

text \<open>A tree that has exactly the checkpoints it lists: the root is named by its height, the witness by the note too.\<close>

definition pin_witnesses :: "(pin_wallet, u32, orchard_note \<times> u32) witness_env" where
  "pin_witnesses =
     \<lparr>root_at_checkpoint = (\<lambda>h w. (Ok (if h \<in> set (wallet_checkpoints w) then Some h else None), w)),
      witness_at_checkpoint = (\<lambda>n h w. (Ok (if h \<in> set (wallet_checkpoints w) then Some (n, h) else None), w)),
      anchor_not_found = (\<lambda>h. ''Proposal(AnchorNotFound)''),
      checkpoint_pruned = ''CommitmentTree(Query(CheckpointPruned))''\<rparr>"

lemma pin_witness_texts:
  "contains_text ''anchornotfound'' (to_ascii_lowercase ''Proposal(AnchorNotFound)'')"
  "contains_text ''checkpoint'' (to_ascii_lowercase ''CommitmentTree(Query(CheckpointPruned))'')"
  by code_simp+

lemma pin_witness_simps [simp]:
  "root_at_checkpoint pin_witnesses h w = (Ok (if h \<in> set (wallet_checkpoints w) then Some h else None), w)"
  "witness_at_checkpoint pin_witnesses n h w = (Ok (if h \<in> set (wallet_checkpoints w) then Some (n, h) else None), w)"
  "anchor_not_found pin_witnesses h = ''Proposal(AnchorNotFound)''"
  "checkpoint_pruned pin_witnesses = ''CommitmentTree(Query(CheckpointPruned))''"
  by (simp_all add: pin_witnesses_def)

interpretation pin_reads: anchor_witnesses "pin_env activation" wallet_pins pin_witnesses id Pair for activation
  by unfold_locales (auto simp only: pin_witness_simps pin_witness_texts pin_env_simps fst_conv prod.inject outcome.inject
    outcome.distinct option.inject id_apply if_True split: if_splits)

section \<open>Errors that only mean not yet\<close>

lemma contains_text_append: "contains_text needle hay \<Longrightarrow> contains_text needle (before @ hay)"
  by (induction before) auto

lemma contains_text_prefix: "contains_text needle hay \<Longrightarrow> contains_text needle (hay @ after)"
proof (induction hay)
  case Nil
  then show ?case by (cases after) auto
next
  case (Cons c cs)
  show ?case
  proof (cases "take (length needle) (c # cs) = needle")
    case True
    then have "length needle \<le> length (c # cs)" by (metis length_take min.cobounded1)
    then have "take (length needle) ((c # cs) @ after) = take (length needle) (c # cs)"
      by (subst take_append) simp
    then show ?thesis using True by simp
  next
    case False
    then show ?thesis using Cons by simp
  qed
qed

lemma read_error_not_ready:
  assumes "contains_text needle (to_ascii_lowercase e)"
    "needle \<in> {''anchornotfound'', ''notcontained'', ''checkpoint'', ''commitmenttree''}"
  shows "is_orchard_witness_not_ready_error (''Read Orchard witnesses: '' @ e)"
proof -
  have "to_ascii_lowercase ''Read Orchard witnesses: '' = ''read orchard witnesses: ''" by code_simp
  then have lower: "to_ascii_lowercase (''Read Orchard witnesses: '' @ e) = ''read orchard witnesses: '' @ to_ascii_lowercase e"
    by (simp only: to_ascii_lowercase_def map_append)
  have "contains_text ''read orchard witnesses'' ''read orchard witnesses: ''" by code_simp
  from contains_text_prefix [OF this]
  have "contains_text ''read orchard witnesses'' (''read orchard witnesses: '' @ to_ascii_lowercase e)" .
  moreover have "contains_text needle (''read orchard witnesses: '' @ to_ascii_lowercase e)"
    using contains_text_append [OF assms(1)] .
  ultimately show ?thesis
    unfolding is_orchard_witness_not_ready_error_def Let_def lower using assms(2) by auto
qed

lemma no_checkpoint_not_ready:
  "is_orchard_witness_not_ready_error ''Read Orchard witnesses: no regtest checkpoint at or before anchor boundary''"
  by code_simp

section \<open>Roots and witnesses of one note\<close>

text \<open>What a search for the root and the witness of one note may end with, within the heights \<open>H\<close>.\<close>

definition found_or_not_ready ::
  "(u32 \<Rightarrow> 'root) \<Rightarrow> (orchard_note \<Rightarrow> u32 \<Rightarrow> 'path) \<Rightarrow> orchard_note \<Rightarrow> u32 set \<Rightarrow>
    (string, 'root \<times> (orchard_note \<times> 'path) list) outcome \<Rightarrow> bool" where
  "found_or_not_ready root_of path_of n H r \<longleftrightarrow>
     (\<exists>h \<in> H. r = Ok (root_of h, [(n, path_of n h)])) \<or> (\<exists>e. r = Err e \<and> is_orchard_witness_not_ready_error e)"

lemma found_or_not_ready_mono: "found_or_not_ready root_of path_of n H r \<Longrightarrow> H \<subseteq> G \<Longrightarrow> found_or_not_ready root_of path_of n G r"
  unfolding found_or_not_ready_def by blast

context anchor_witnesses begin

definition same_tree :: "'w \<Rightarrow> 'w \<Rightarrow> bool" where
  "same_tree w w' \<longleftrightarrow> pins w' = pins w \<and> checkpoints_of E w' = checkpoints_of E w"

definition kept :: "'w \<Rightarrow> u32 \<Rightarrow> bool" where
  "kept w h \<longleftrightarrow> (\<exists>hs. checkpoints_of E w = Ok hs \<and> h \<in> set hs \<and> h \<in> pins w)"

lemma kept_same: "same_tree w w' \<Longrightarrow> kept w' h = kept w h"
  by (simp add: same_tree_def kept_def)

lemma same_tree_trans: "same_tree u v \<Longrightarrow> same_tree v w \<Longrightarrow> same_tree u w"
  by (simp add: same_tree_def)

lemma same_tree_refl: "same_tree w w"
  by (simp add: same_tree_def)

lemma orchard_witnesses_one:
  assumes "orchard_witnesses X h [n] w = (r, w')"
  shows "same_tree w w'" "found_or_not_ready root_of path_of n {h} r"
    "kept w h \<Longrightarrow> orch_mined_height n = Some m \<Longrightarrow> m \<le> h \<Longrightarrow> r = Ok (root_of h, [(n, path_of n h)])"
proof -
  obtain x u where root: "root_at_checkpoint X h w = (x, u)" by (metis surj_pair)
  obtain y v where witness: "witness_at_checkpoint X n h u = (y, v)" by (metis surj_pair)
  note defs = orchard_witnesses_def rename_err_def note_witness_def action_simps root witness
  note frame = root_frame [OF root] witness_frame [OF witness]
  have "same_tree w w' \<and> found_or_not_ready root_of path_of n {h} r \<and>
    (kept w h \<and> orch_mined_height n = Some m \<and> m \<le> h \<longrightarrow> r = Ok (root_of h, [(n, path_of n h)]))"
  proof (cases x)
    case (Ok root')
    show ?thesis
    proof (cases root')
      case None
      have "(r, w') = (Err (''Read Orchard witnesses: '' @ anchor_not_found X h), u)"
        using assms Ok None by (simp add: defs ok_or_def andthen_def)
      moreover have "\<not> kept w h" using root_kept [of w _ h] root Ok None unfolding kept_def by force
      ultimately show ?thesis using frame read_error_not_ready [OF not_found_text]
        by (simp add: found_or_not_ready_def same_tree_def)
    next
      case (Some a)
      have a: "a = root_of h" using root_value root Ok Some by blast
      show ?thesis
      proof (cases y)
        case yOk: (Ok w'')
        show ?thesis
        proof (cases w'')
          case None
          have "(r, w') = (Err (''Read Orchard witnesses: '' @ checkpoint_pruned X), v)"
            using assms Ok Some yOk None by (simp add: defs ok_or_def andthen_def)
          moreover have "\<not> (kept w h \<and> orch_mined_height n = Some m \<and> m \<le> h)"
            using witness_kept [of u _ h n m] witness yOk None frame unfolding kept_def by force
          ultimately show ?thesis using frame read_error_not_ready [OF pruned_text]
            by (simp add: found_or_not_ready_def same_tree_def)
        next
          case (Some p)
          have "p = path_of n h" using witness_value witness yOk Some by blast
          then have "(r, w') = (Ok (root_of h, [(n, path_of n h)]), v)"
            using assms Ok \<open>root' = Some a\<close> yOk Some a by (simp add: defs ok_or_def andthen_def)
          then show ?thesis using frame by (simp add: found_or_not_ready_def same_tree_def)
        qed
      next
        case (Err e)
        have "(r, w') = (Err (''Read Orchard witnesses: '' @ e), v)"
          using assms Ok Some Err by (simp add: defs ok_or_def andthen_def)
        moreover have "\<not> (kept w h \<and> orch_mined_height n = Some m \<and> m \<le> h)"
          using witness_kept [of u _ h n m] witness Err frame unfolding kept_def by force
        ultimately show ?thesis using frame read_error_not_ready [OF witness_error [OF witness [unfolded Err]]]
          by (simp add: found_or_not_ready_def same_tree_def)
      next
        case Panic
        then show ?thesis using witness witness_returns by blast
      qed
    qed
  next
    case (Err e)
    have "(r, w') = (Err (''Read Orchard witnesses: '' @ e), u)" using assms Err by (simp add: defs andthen_def)
    moreover have "\<not> kept w h" using root_kept [of w _ h] root Err unfolding kept_def by force
    ultimately show ?thesis using frame read_error_not_ready [OF root_error [OF root [unfolded Err]]]
      by (simp add: found_or_not_ready_def same_tree_def)
  next
    case Panic
    then show ?thesis using root root_returns by blast
  qed
  then show "same_tree w w'" "found_or_not_ready root_of path_of n {h} r"
    "kept w h \<Longrightarrow> orch_mined_height n = Some m \<Longrightarrow> m \<le> h \<Longrightarrow> r = Ok (root_of h, [(n, path_of n h)])" by blast+
qed

lemma witnesses_at_or_below_result:
  assumes "witnesses_at_or_below X [n] earlier hs w = (r, w')" "pred_option is_orchard_witness_not_ready_error earlier"
  shows "same_tree w w' \<and> found_or_not_ready root_of path_of n (set hs) r"
  using assms
proof (induction hs arbitrary: earlier w)
  case Nil
  then show ?case using no_checkpoint_not_ready
    by (cases earlier) (auto simp: found_or_not_ready_def same_tree_refl)
next
  case (Cons h hs)
  obtain x u where read: "orchard_witnesses X h [n] w = (x, u)" by (metis surj_pair)
  note one = orchard_witnesses_one(1,2) [OF read]
  from one(2) consider "x = Ok (root_of h, [(n, path_of n h)])" | e where "x = Err e" "is_orchard_witness_not_ready_error e"
    unfolding found_or_not_ready_def by blast
  then show ?case
  proof cases
    case 1
    then have "w' = u" "r = x" using Cons.prems(1) read by simp_all
    then show ?thesis using 1 one(1) by (simp add: found_or_not_ready_def)
  next
    case (2 e)
    then have "witnesses_at_or_below X [n] (Some e) hs u = (r, w')" using Cons.prems(1) read by simp
    from Cons.IH [OF this] 2(2) have rest: "same_tree u w'" "found_or_not_ready root_of path_of n (set hs) r" by simp_all
    show ?thesis using same_tree_trans [OF one(1) rest(1)] found_or_not_ready_mono [OF rest(2)] by auto
  qed
qed

lemma migration_orchard_witnesses_one:
  assumes "migration_orchard_witnesses X network h [n] w = (r, w')" "orch_mined_height n = Some m" "m \<le> h"
  shows "same_tree w w' \<and> found_or_not_ready root_of path_of n {m .. h} r \<and> (kept w h \<longrightarrow> r = Ok (root_of h, [(n, path_of n h)]))"
proof (cases "network = Regtest")
  case False
  then have "orchard_witnesses X h [n] w = (r, w')" using assms(1) by (simp add: migration_orchard_witnesses_def)
  note one = orchard_witnesses_one [OF this]
  have "found_or_not_ready root_of path_of n {m .. h} r" using found_or_not_ready_mono [OF one(2)] assms(3) by simp
  then show ?thesis using one(1) one(3) [OF _ assms(2,3)] by blast
next
  case True
  define oldest where "oldest = max (saturating_sub h ZIP318_ANCHOR_AGE_CAP) m"
  have range: "m \<le> oldest" "oldest \<le> h" using assms(3) by (auto simp: oldest_def saturating_sub_def)
  have run: "witnesses_at_or_below X [n] None (rev [oldest ..< Suc h]) w = (r, w')"
  proof -
    have "List.map_filter orch_mined_height [n] = [m]" "Max (set [m]) = m"
      using assms(2) by (simp_all add: List.map_filter_def)
    then show ?thesis
      using assms(1) True unfolding migration_orchard_witnesses_def oldest_def by (simp del: upt_Suc set_simps)
  qed
  have rest: "same_tree w w' \<and> found_or_not_ready root_of path_of n (set (rev [oldest ..< Suc h])) r"
    using witnesses_at_or_below_result [OF run] by (simp only: option.pred_inject)
  have first: "rev [oldest ..< Suc h] = h # rev [oldest ..< h]" using range(2) by simp
  obtain x u where read: "orchard_witnesses X h [n] w = (x, u)" by (metis surj_pair)
  have "r = Ok (root_of h, [(n, path_of n h)])" if "kept w h"
    using run orchard_witnesses_one(3) [OF read that assms(2,3)] read unfolding first by simp
  moreover have "found_or_not_ready root_of path_of n {m .. h} r"
  proof (rule found_or_not_ready_mono [OF conjunct2 [OF rest]])
    show "set (rev [oldest ..< Suc h]) \<subseteq> {m .. h}" using range by auto
  qed
  ultimately show ?thesis using rest by blast
qed

text \<open>
  The loop over the cohorts: each entry it collects has the root and the witness of one checkpoint between the note and
  the cohort's, and a kept checkpoint is never passed over.
\<close>

definition proved :: "orchard_note \<Rightarrow> u32 \<Rightarrow> (u32 \<times> u32) list \<Rightarrow> (u32 \<times> 'root \<times> 'path) set" where
  "proved n m available = {(b, root_of g, path_of n g) | b g h. (b, h) \<in> set available \<and> m \<le> g \<and> g \<le> h}"

lemma proved_Cons: "proved n m available \<subseteq> proved n m (bh # available)"
  unfolding proved_def by fastforce

lemma proved_here: "m \<le> g \<Longrightarrow> g \<le> h \<Longrightarrow> (b, root_of g, path_of n g) \<in> proved n m ((b, h) # available)"
  unfolding proved_def by fastforce

definition kept_boundaries :: "'w \<Rightarrow> (u32 \<times> u32) list \<Rightarrow> u32 set" where
  "kept_boundaries w available = fst ` {bh \<in> set available. kept w (snd bh)}"

lemma kept_boundaries_Cons:
  "kept_boundaries w ((b, h) # available) = (if kept w h then insert b (kept_boundaries w available) else kept_boundaries w available)"
  unfolding kept_boundaries_def by (auto simp: image_iff)

lemma kept_boundaries_same: "same_tree w w' \<Longrightarrow> kept_boundaries w' available = kept_boundaries w available"
  by (simp add: kept_boundaries_def kept_same)

lemma witnessable_candidates_result:
  assumes "witnessable_candidates X network n available w = (r, w')" "orch_mined_height n = Some m"
    "snd ` set available \<subseteq> {m ..}"
  shows "\<exists>ws. r = Ok ws \<and> subseq (map fst ws) (map fst available) \<and> set ws \<subseteq> proved n m available \<and>
    kept_boundaries w available \<subseteq> fst ` set ws"
  using assms(1,3)
proof (induction available arbitrary: r w w')
  case Nil
  then show ?case by (intro exI [of _ "[]"]) (simp add: kept_boundaries_def)
next
  case (Cons bh available)
  obtain b h where bh: "bh = (b, h)" by (cases bh)
  have mh: "m \<le> h" using Cons.prems(2) bh by simp
  obtain x u where read: "migration_orchard_witnesses X network h [n] w = (x, u)" by (metis surj_pair)
  note one = migration_orchard_witnesses_one [OF read assms(2) mh]
  obtain y v where rest: "witnessable_candidates X network n available u = (y, v)" by (metis surj_pair)
  have "snd ` set available \<subseteq> {m ..}" using Cons.prems(2) by simp
  from Cons.IH [OF rest this] obtain ws where ws: "y = Ok ws" "subseq (map fst ws) (map fst available)"
    "set ws \<subseteq> proved n m available" "kept_boundaries w available \<subseteq> fst ` set ws"
    using kept_boundaries_same one by metis
  from one consider g where "g \<in> {m .. h}" "x = Ok (root_of g, [(n, path_of n g)])"
    | e where "x = Err e" "is_orchard_witness_not_ready_error e" unfolding found_or_not_ready_def by blast
  then show ?case
  proof cases
    case (1 g)
    then have "m \<le> g" "g \<le> h" by simp_all
    note here = proved_here [OF this]
    let ?ws = "(b, root_of g, path_of n g) # ws"
    have "r = Ok ?ws" using Cons.prems(1) read 1(2) rest ws(1) by (simp add: bh andthen_def yield_def)
    moreover have "subseq (map fst ?ws) (map fst (bh # available))" using ws(2) bh by simp
    moreover have "set ?ws \<subseteq> proved n m (bh # available)"
      using ws(3) proved_Cons here unfolding bh by fastforce
    moreover have "kept_boundaries w (bh # available) \<subseteq> fst ` set ?ws"
      using ws(4) unfolding bh kept_boundaries_Cons by auto
    ultimately show ?thesis by blast
  next
    case (2 e)
    have "r = Ok ws" using Cons.prems(1) read 2 rest ws(1) by (simp add: bh)
    moreover have "\<not> kept w h" using one 2(1) by auto
    then have "kept_boundaries w (bh # available) \<subseteq> fst ` set ws"
      using ws(4) unfolding bh kept_boundaries_Cons by simp
    moreover have "subseq (map fst ws) (map fst (bh # available))" using ws(2) by (simp add: list_emb_Cons)
    moreover have "set ws \<subseteq> proved n m (bh # available)" using ws(3) proved_Cons by fast
    ultimately show ?thesis by blast
  qed
qed

end

section \<open>Cohorts\<close>

lemma subseq_set: "subseq xs ys \<Longrightarrow> set xs \<subseteq> set ys"
  by (induction rule: list_emb.induct) auto

lemma subseq_imp_distinct: "subseq xs ys \<Longrightarrow> distinct ys \<Longrightarrow> distinct xs"
  by (induction rule: list_emb.induct) (auto dest: list_emb_set)

lemma representative_bounds:
  assumes "representative_orchard_checkpoint heights b m = Some h"
  shows "h \<in> set heights \<and> m \<le> h \<and> h \<le> b"
proof -
  define xs where "xs = filter (\<lambda>h. m \<le> h \<and> h \<le> b) heights"
  have "xs \<noteq> []" "h = Max (set xs)"
    using assms unfolding representative_orchard_checkpoint_def xs_def [symmetric] by (auto split: list.splits)
  then have "h \<in> set xs" by simp
  then show ?thesis by (simp add: xs_def)
qed

text \<open>Losing checkpoints other than the representative does not change it.\<close>

lemma representative_kept:
  assumes "representative_orchard_checkpoint heights b m = Some h" "set heights' \<subseteq> set heights" "h \<in> set heights'"
  shows "representative_orchard_checkpoint heights' b m = Some h"
proof -
  define xs where "xs = filter (\<lambda>h. m \<le> h \<and> h \<le> b) heights"
  define ys where "ys = filter (\<lambda>h. m \<le> h \<and> h \<le> b) heights'"
  have max: "h = Max (set xs)"
    using assms(1) unfolding representative_orchard_checkpoint_def xs_def [symmetric] by (auto split: list.splits)
  have h: "h \<in> set ys" using assms(3) representative_bounds [OF assms(1)] by (simp add: ys_def)
  have "set ys \<subseteq> set xs" using assms(2) by (auto simp: xs_def ys_def)
  then have "Max (set ys) = h" using h max by (intro Max_eqI) auto
  then show ?thesis using h unfolding representative_orchard_checkpoint_def ys_def [symmetric]
    by (cases ys) auto
qed

lemma first_of_each_checkpoint_result:
  "subseq (map fst (first_of_each_checkpoint seen bs)) (map fst bs) \<and>
   (\<forall>(b, h) \<in> set (first_of_each_checkpoint seen bs). (b, Some h) \<in> set bs)"
proof (induction seen bs rule: first_of_each_checkpoint.induct)
  case (2 seen b rest)
  then show ?case by (auto simp: list_emb_Cons)
next
  case (3 seen b h rest)
  show ?case
  proof (cases "h \<in> seen")
    case True
    then show ?thesis using 3(1) by (auto simp: list_emb_Cons)
  next
    case False
    then show ?thesis using 3(2) by auto
  qed
qed simp

lemma available_candidates_result:
  fixes bs heights m
  defines "available \<equiv> available_orchard_anchor_candidates bs heights m"
  shows "subseq (map fst available) bs"
    "(b, h) \<in> set available \<Longrightarrow> m \<le> h \<and> h \<le> b"
    "bs = b # rest \<Longrightarrow> representative_orchard_checkpoint heights b m = Some h \<Longrightarrow> (b, h) \<in> set available"
proof -
  let ?reps = "map (\<lambda>b. (b, representative_orchard_checkpoint heights b m)) bs"
  note firsts = first_of_each_checkpoint_result [of "{}" ?reps]
  show "subseq (map fst available) bs"
    using firsts unfolding available_def available_orchard_anchor_candidates_def by (simp add: comp_def)
  show "bs = b # rest \<Longrightarrow> representative_orchard_checkpoint heights b m = Some h \<Longrightarrow> (b, h) \<in> set available"
    by (simp add: available_def available_orchard_anchor_candidates_def)
  assume "(b, h) \<in> set available"
  then have "(b, Some h) \<in> set ?reps"
    using firsts unfolding available_def available_orchard_anchor_candidates_def by blast
  then have "representative_orchard_checkpoint heights b m = Some h" by auto
  from representative_bounds [OF this] show "m \<le> h \<and> h \<le> b" by simp
qed

section \<open>The draw among the cohorts that can be proved\<close>

lemma draw_from_candidates:
  assumes "set bs \<subseteq> set (zip318_anchor_candidate_boundaries_with_policy network policy obs mined nu)" "distinct bs" "bs \<noteq> []"
    "\<And>n. 0 < n \<Longrightarrow> gen_range n < n"
  shows "\<exists>b \<in> set bs. zip318_draw_anchor_boundary_from_available_with_policy gen_range network policy obs bs = Some b"
proof -
  let ?candidates = "zip318_anchor_candidate_boundaries_with_policy network policy obs mined nu"
  obtain latest where L: "zip318_anchor_boundary_at_or_before_with_policy network policy obs = Some latest"
    using assms(1,3) by (cases "zip318_anchor_boundary_at_or_before_with_policy network policy obs")
      (auto simp: zip318_anchor_candidate_boundaries_with_policy_def)
  let ?age = "\<lambda>b. the (zip318_anchor_boundary_age network policy latest b)"
  let ?w = "map (\<lambda>b. (b, 2 ^ (ZIP318_ANCHOR_AGE_CAP - ?age b) :: nat)) bs"
  have ages: "\<forall>b \<in> set bs. zip318_anchor_boundary_age network policy latest b = Some (?age b)"
    using assms(1) L by (metis candidates_age option.inject option.sel subsetD)
  have total: "total_of ?w = sum_list (map (\<lambda>b. 2 ^ (ZIP318_ANCHOR_AGE_CAP - ?age b)) bs)"
    by (simp add: total_of_def comp_def)
  have "length ?candidates \<le> 5"
  proof -
    have "length (candidate_loop m l lo (candidate_ages network policy)) \<le> 5" for m l lo
      by (rule le_trans [OF length_candidate_loop]) (simp add: candidate_ages_def ZIP318_ANCHOR_AGE_CAP_def)
    then show ?thesis by (simp add: zip318_anchor_candidate_boundaries_with_policy_def split: option.split)
  qed
  moreover have "length bs \<le> length ?candidates"
    using card_mono [OF _ assms(1)] distinct_card [OF assms(2)] card_length [of ?candidates] by simp
  moreover have "total_of ?w \<le> length bs * 16"
    unfolding total
  proof (rule order_trans [OF sum_list_mono])
    show "(2::nat) ^ (ZIP318_ANCHOR_AGE_CAP - ?age b) \<le> (\<lambda>_. 16) b" for b
      using power_increasing [of "4 - ?age b" 4 "2::nat"] by (simp add: ZIP318_ANCHOR_AGE_CAP_def)
  qed (simp add: sum_list_triv)
  ultimately have bound: "total_of ?w \<le> u32_max" by (simp add: u32_max_def)
  have pos: "0 < total_of ?w" using assms(3) by (cases bs) (auto simp: total_of_def)
  have "zip318_draw_anchor_boundary_from_available_with_policy gen_range network policy obs bs
      = pick_weighted ?w (gen_range (total_of ?w))"
    using L assms(3) bound pos ages
    by (simp add: zip318_draw_anchor_boundary_from_available_with_policy_def total weigh_candidates_Some)
  moreover obtain b w where "pick_weighted ?w (gen_range (total_of ?w)) = Some b" "(b, w) \<in> set ?w"
    using pick_weighted_total [OF assms(4) [OF pos]] by blast
  ultimately show ?thesis by auto
qed

text \<open>The choice: a preferred boundary that can be proved, otherwise a draw.\<close>

lemma select_boundary_result:
  assumes "set bs \<subseteq> set (zip318_anchor_candidate_boundaries_with_policy network policy obs mined nu)" "distinct bs" "bs \<noteq> []"
    "\<And>n. 0 < n \<Longrightarrow> gen_range n < n"
  shows "\<exists>b \<in> set bs. select_boundary gen_range network policy obs preferred bs = Some b \<and>
    (\<forall>p. preferred = Some p \<and> p \<in> set bs \<longrightarrow> b = p)"
proof -
  obtain b where "b \<in> set bs" "zip318_draw_anchor_boundary_from_available_with_policy gen_range network policy obs bs = Some b"
    using draw_from_candidates [OF assms(1) assms(2) assms(3) assms(4)] by blast
  then show ?thesis by (cases preferred) (auto simp: select_boundary_def)
qed

lemma find_key: "k \<in> fst ` set ws \<Longrightarrow> \<exists>c. List.find (\<lambda>c. fst c = k) ws = Some c \<and> c \<in> set ws \<and> fst c = k"
  by (induction ws) auto

text \<open>The operation once it has read the wallet.\<close>

lemma selection_run:
  assumes "ref_note_version n = 2" "account_exists E v account = Ok True" "anchor_height_of E v = Ok (Some anchor)"
    "select_spendable_orchard_v2_notes E v account anchor = Ok ns"
    "List.find (\<lambda>m. to_ascii_lowercase (orch_txid_hex m) = to_ascii_lowercase (ref_txid_hex n)
       \<and> orch_output_index m = ref_output_index n) ns = Some selected"
    "orch_version selected = 2 \<and> zatoshis_ok E (orch_value selected) \<and> orch_value selected = ref_value_zatoshi n"
    "nu6_3_activation E network = Some activation" "orch_mined_height selected = Some mined" "checkpoints_of E v = Ok heights"
  shows "orchard_anchor_and_witness_for_prepared_note E X gen_range network account n preferred policy v =
    (let available = available_orchard_anchor_candidates
           (zip318_anchor_candidate_boundaries_with_policy network policy anchor mined activation) heights mined
     in andthen (witnessable_candidates X network selected available) (\<lambda>witnessable.
          case select_boundary gen_range network policy anchor
                 (preferred_boundary network policy anchor mined activation available preferred) (map fst witnessable) of
            None \<Rightarrow> yield None
          | Some selected_boundary \<Rightarrow>
              andthen (lift_outcome (ok_or (List.find (\<lambda>c. fst c = selected_boundary) witnessable)
                SelectedWitnessDisappeared)) (\<lambda>chosen. yield (Some chosen))) v)"
proof -
  have "zatoshis_ok E (ref_value_zatoshi n)" using assms(6) by metis
  with assms show ?thesis
    by (simp add: orchard_anchor_and_witness_for_prepared_note_def action_simps ok_or_def ensure_def Let_def)
qed

context anchor_witnesses begin

text \<open>
  The operation once it has read the wallet: it returns the root and the witness of one checkpoint between the note
  and the chosen boundary, and takes the preferred boundary when that one is the newest candidate.
\<close>

lemma selection_returns:
  assumes "ref_note_version n = 2" "account_exists E v account = Ok True" "anchor_height_of E v = Ok (Some anchor)"
    "select_spendable_orchard_v2_notes E v account anchor = Ok ns"
    "List.find (\<lambda>m. to_ascii_lowercase (orch_txid_hex m) = to_ascii_lowercase (ref_txid_hex n)
       \<and> orch_output_index m = ref_output_index n) ns = Some selected"
    "orch_version selected = 2 \<and> zatoshis_ok E (orch_value selected) \<and> orch_value selected = ref_value_zatoshi n"
    "nu6_3_activation E network = Some activation" "orch_mined_height selected = Some mined" "checkpoints_of E v = Ok heights"
    "zip318_anchor_candidate_boundaries_with_policy network policy anchor mined activation = b # bs"
    "representative_orchard_checkpoint heights b mined = Some h" "kept v h" "\<And>n. 0 < n \<Longrightarrow> gen_range n < n" "anchor < u32_max"
  shows "\<exists>b' g v'. orchard_anchor_and_witness_for_prepared_note E X gen_range network account n preferred policy v =
      (Ok (Some (b', root_of g, path_of selected g)), v') \<and>
    b' \<in> set (b # bs) \<and> mined \<le> g \<and> g \<le> b' \<and> (preferred = Some b \<longrightarrow> b' = b)"
proof -
  define available where "available = available_orchard_anchor_candidates (b # bs) heights mined"
  note av = available_candidates_result [where bs = "b # bs" and heights = heights and m = mined, folded available_def]
  have bh: "(b, h) \<in> set available" using av(3) [OF refl assms(11)] .
  obtain r v' where run: "witnessable_candidates X network selected available v = (r, v')" by (metis surj_pair)
  have "snd ` set available \<subseteq> {mined ..}" using av(2) by auto
  from witnessable_candidates_result [OF run assms(8) this] obtain ws where ws: "r = Ok ws"
    "subseq (map fst ws) (map fst available)" "set ws \<subseteq> proved selected mined available"
    "kept_boundaries v available \<subseteq> fst ` set ws" by blast
  have sub: "subseq (map fst ws) (b # bs)" using subseq_order.trans [OF ws(2) av(1)] .
  have "b \<in> kept_boundaries v available" using bh assms(12) unfolding kept_boundaries_def by force
  then have in_ws: "b \<in> set (map fst ws)" using ws(4) by auto
  have subset: "set (map fst ws) \<subseteq> set (zip318_anchor_candidate_boundaries_with_policy network policy anchor mined activation)"
    using subseq_set [OF sub] unfolding assms(10) .
  have dist: "distinct (map fst ws)"
    using subseq_imp_distinct [OF sub] distinct_candidates [of network policy anchor mined activation] unfolding assms(10) .
  have nonempty: "map fst ws \<noteq> []" using in_ws by auto
  let ?preferred = "preferred_boundary network policy anchor mined activation available preferred"
  from select_boundary_result [OF subset dist nonempty assms(13), where preferred = ?preferred]
  obtain b' where b': "b' \<in> set (map fst ws)"
    "select_boundary gen_range network policy anchor ?preferred (map fst ws) = Some b'"
    "\<And>p. ?preferred = Some p \<Longrightarrow> p \<in> set (map fst ws) \<Longrightarrow> b' = p" by blast
  have "b' \<in> fst ` set ws" using b'(1) by simp
  from find_key [OF this] obtain c where c: "List.find (\<lambda>c. fst c = b') ws = Some c" "c \<in> set ws" "fst c = b'" by blast
  obtain k g where g: "(b', k) \<in> set available" "mined \<le> g" "g \<le> k" "c = (b', root_of g, path_of selected g)"
    using subsetD [OF ws(3) c(2)] c(3) unfolding proved_def by auto
  have run': "orchard_anchor_and_witness_for_prepared_note E X gen_range network account n preferred policy v = (Ok (Some c), v')"
    using selection_run [OF assms(1-9), where X = X and preferred = preferred and policy = policy and gen_range = gen_range]
      run ws(1) b'(2) c(1) unfolding assms(10) available_def [symmetric]
    by (simp add: andthen_def action_simps ok_or_def)
  moreover have "g \<le> b'" using g(3) av(2) [OF g(1)] by simp
  moreover have "b' \<in> set (b # bs)" using subsetD [OF subseq_set [OF sub] b'(1)] .
  moreover have "b' = b" if "preferred = Some b"
  proof -
    have "b \<in> set (zip318_anchor_candidate_boundaries_with_policy network policy anchor mined activation)"
      unfolding assms(10) by simp
    then have "zip318_anchor_boundary_is_candidate_with_policy network policy b anchor mined activation"
      using anchor_candidates_iff_is_candidate [OF assms(14)] by blast
    moreover have "b \<in> fst ` set available" using imageI [OF bh, of fst] by simp
    ultimately have "?preferred = Some b" using that by (simp add: preferred_boundary_def)
    then show ?thesis using b'(3) in_ws by blast
  qed
  ultimately show ?thesis using g(2,4) by blast
qed

end

section \<open>Property\<close>

text \<open>
  C20: After a successful maintenance pass the next proof of a prepared note finds an anchor. As long as the anchor
  height and the spendable notes are those of the pass, whatever else the wallet has pinned or pruned since (it prunes
  no pinned checkpoint), whatever the random draw and whatever boundary was preferred before: when the newest eligible
  candidate boundary of a spendable note has a checkpoint at all, the selection succeeds. It returns one of the
  note's candidate boundaries together with the root and the witness of one and the same checkpoint, which lies
  between the block of the note and the chosen boundary; and a preferred boundary that is still the newest eligible one
  is honoured.
\<close>

theorem next_proof_finds_anchor:
  assumes "anchor_witnesses E pins X root_of path_of" "runs_named db"
    "retain_prepared_note_anchor_checkpoints_after_scan E J db network (rows, w) = (Ok n, (rows', w'))"
    "prepared_anchor_retention_candidates J db network = Ok cs" "c \<in> set cs"
    "anchor_height_of E w = Ok (Some anchor)" "checkpoints_of E w = Ok heights" "nu6_3_activation E network = Some activation"
    "select_spendable_orchard_v2_notes E w (cand_account c) anchor = Ok ns"
    "List.find (\<lambda>n. to_ascii_lowercase (orch_txid_hex n) = to_ascii_lowercase (ref_txid_hex (cand_note c))
       \<and> orch_output_index n = ref_output_index (cand_note c)) ns = Some selected"
    "orch_mined_height selected = Some mined" "anchor < u32_max"
    "zip318_anchor_candidate_boundaries_with_policy network (cand_policy c) anchor mined activation = b # bs"
    "representative_orchard_checkpoint heights b mined = Some h"
    "pins w' \<subseteq> pins v" "checkpoints_of E v = Ok heights'" "set heights' \<subseteq> set heights"
    "set heights \<inter> pins v \<subseteq> set heights'"
    "account_exists E v = account_exists E w" "anchor_height_of E v = anchor_height_of E w"
    "unspent_orchard_notes E v = unspent_orchard_notes E w" "\<And>n. 0 < n \<Longrightarrow> gen_range n < n"
  shows "\<exists>b' g v'. orchard_anchor_and_witness_for_prepared_note E X gen_range network (cand_account c) (cand_note c)
        preferred (cand_policy c) v = (Ok (Some (b', root_of g, path_of selected g)), v') \<and>
    b' \<in> set (b # bs) \<and> mined \<le> g \<and> g \<le> b' \<and> (preferred = Some b \<longrightarrow> b' = b)"
proof -
  have tree: "checkpoint_pins E pins" using assms(1) by (simp add: anchor_witnesses_def)
  obtain refs where refs: "wanted_references E w network anchor activation heights cs = Ok refs" "snd ` refs \<subseteq> pins w'"
    using after_scan_references [OF tree assms(2-8)] .
  have "h \<in> migration_anchor_checkpoints_to_retain network (cand_policy c) anchor mined activation heights"
    using first_candidate_retained [OF assms(13,14)] .
  from needed_checkpoint_wanted [OF refs(1) assms(5,9-11) this] have "h \<in> pins v" using refs(2) assms(15) by force
  then have "h \<in> set heights'" using assms(18) representative_bounds [OF assms(14)] by blast
  then have rep: "representative_orchard_checkpoint heights' b mined = Some h" and kept: "anchor_witnesses.kept E pins v h"
    using representative_kept [OF assms(14,17)] \<open>h \<in> pins v\<close> assms(16)
    by (simp_all add: anchor_witnesses.kept_def [OF assms(1)])
  have reads: "account_exists E v (cand_account c) = Ok True" "anchor_height_of E v = Ok (Some anchor)"
    "select_spendable_orchard_v2_notes E v (cand_account c) anchor = Ok ns"
    using candidate_revalidated(1) [OF refs(1) assms(5)] assms(6,9,19-21)
    by (simp_all add: select_spendable_orchard_v2_notes_def)
  show ?thesis
    using anchor_witnesses.selection_returns [OF assms(1) candidate_note_v2 [OF assms(4,5)] reads assms(10)
      candidate_revalidated(2) [OF refs(1) assms(5,9,10)] assms(8,11,16,13) rep kept assms(22,12)] .
qed

theorem next_proof_finds_anchor_witness:
  "\<exists>b g v. orchard_anchor_and_witness_for_prepared_note (pin_env 2) pin_witnesses (\<lambda>n. n - 1) Regtest ''a''
      \<lparr>ref_txid_hex = ''n'', ref_output_index = 0, ref_value_zatoshi = 7, ref_note_version = 2, ref_nullifier_hex = None\<rparr>
      None Standard (anchor_wallet\<lparr>wallet_pins := {6, 4}, wallet_checkpoints := [6]\<rparr>) =
      (Ok (Some (b, g, (\<lparr>orch_txid_hex = ''n'', orch_output_index = 0, orch_version = 2, orch_value = 7,
         orch_mined_height = Some 3\<rparr>, g))), v) \<and>
    b \<in> {6, 5, 4, 3} \<and> 3 \<le> g \<and> g \<le> b"
proof -
  let ?n = "\<lparr>orch_txid_hex = ''n'', orch_output_index = 0, orch_version = 2, orch_value = 7, orch_mined_height = Some 3\<rparr>"
  have notes_of: "select_spendable_orchard_v2_notes (pin_env 2) anchor_wallet ''a'' 6 = Ok [?n]"
    by (simp add: select_spendable_orchard_v2_notes_def anchor_wallet_def)
  have rep: "representative_orchard_checkpoint [2, 5, 6] 6 3 = Some 6"
    by (simp add: representative_orchard_checkpoint_def)
  have same: "account_exists (pin_env 2) v = account_exists (pin_env 2) w" for v w by (simp add: pin_env_def)
  have small: "(6 :: nat) < u32_max" by (simp add: u32_max_def)
  show ?thesis
    using next_proof_finds_anchor [OF pin_reads.anchor_witnesses_axioms anchor_db_named(1) anchor_db_after_scan
        anchor_db_candidates, where c = "\<lparr>cand_run_id = ''r'', cand_account = ''a'', cand_note = \<lparr>ref_txid_hex = ''n'',
          ref_output_index = 0, ref_value_zatoshi = 7, ref_note_version = 2, ref_nullifier_hex = None\<rparr>,
          cand_policy = Standard\<rparr>" and ns = "[?n]" and selected = ?n and mined = 3 and b = 6 and bs = "[5, 4, 3]"
        and heights = "[2, 5, 6]" and anchor = 6 and activation = 2 and h = 6 and heights' = "[6]"
        and v = "anchor_wallet\<lparr>wallet_pins := {6, 4}, wallet_checkpoints := [6]\<rparr>" and preferred = None
        and gen_range = "\<lambda>n. n - 1"]
    by (simp add: notes_of anchor_db_boundaries rep small same) (simp add: pin_env_def anchor_wallet_def)
qed

end
