(* ===== verification/Resubmit.thy ===== *)
theory Resubmit
  imports Bytes "HOL-Library.List_Lexorder" "HOL-Library.Product_Lexorder"
begin

text \<open>
  The automatic resubmission of pending transactions (\<open>rust/src/wallet/sync/send.rs\<close>): the
  order that sends a transparent parent before its child, and the pass that submits, retries once and
  stops when it is cancelled. The reader of a raw transaction belongs to a library: \<open>read_tx\<close>
  gives its id and the ids its transparent inputs spend, or nothing when it cannot be read. The
  answers of the network and of the cancellation are functions of the number of the call.
\<close>

record resubmittable_tx =
  rs_txid :: bytes
  rs_raw :: bytes
  rs_expiry_height :: u32

record ordered_tx =
  ord_tx :: resubmittable_tx
  ord_parents :: "bytes list"

type_synonym tx_reader = "bytes \<Rightarrow> (bytes \<times> bytes list) option"

section \<open>The candidates\<close>

text \<open>The columns of \<open>v_transactions\<close> that the query reads; an absent value is NULL and fails its test.\<close>

record v_transaction =
  vt_txid :: bytes
  vt_raw :: "bytes option"
  vt_mined_height :: "int option"
  vt_expiry_height :: "int option"
  vt_account_balance_delta :: "int option"

definition resubmittable_row :: "u32 \<Rightarrow> v_transaction \<Rightarrow> bool" where
  "resubmittable_row current_height r \<longleftrightarrow> vt_mined_height r = None \<and>
     (case vt_expiry_height r of None \<Rightarrow> False | Some h \<Rightarrow> h = 0 \<or> h > int current_height) \<and>
     (case vt_account_balance_delta r of None \<Rightarrow> False | Some d \<Rightarrow> d < 0) \<and> vt_raw r \<noteq> None"

definition expiry_of_row :: "int option \<Rightarrow> u32" where
  "expiry_of_row h = (case h of None \<Rightarrow> 0 | Some h \<Rightarrow> nat (max h 0) mod 2 ^ 32)"

definition get_resubmittable_txs :: "v_transaction list \<Rightarrow> u32 \<Rightarrow> resubmittable_tx list" where
  "get_resubmittable_txs view current_height =
     map (\<lambda>(txid, raw, expiry). \<lparr>rs_txid = txid, rs_raw = the raw, rs_expiry_height = expiry_of_row expiry\<rparr>)
       (remdups (map (\<lambda>r. (vt_txid r, vt_raw r, vt_expiry_height r)) (filter (resubmittable_row current_height) view)))"

text \<open>The table \<open>transactions\<close>, and the lookup of the bytes of an id; \<open>Err\<close> is a missing row.\<close>

type_synonym raw_table = "(bytes \<times> bytes option) list"

definition raw_of_txid :: "raw_table \<Rightarrow> bytes \<Rightarrow> (unit, bytes) outcome" where
  "raw_of_txid txs txid =
     (case List.find (\<lambda>(t, raw). t = txid \<and> raw \<noteq> None) txs of Some (_, Some raw) \<Rightarrow> Ok raw | _ \<Rightarrow> Err ())"

definition get_resubmittable_txs_excluding ::
  "v_transaction list \<Rightarrow> raw_table \<Rightarrow> u32 \<Rightarrow> bytes set \<Rightarrow> (unit, resubmittable_tx list) outcome" where
  "get_resubmittable_txs_excluding view txs current_height excluded =
     (if excluded = {} then Ok (get_resubmittable_txs view current_height)
      else mapM (\<lambda>(txid, expiry). obind (raw_of_txid txs txid) (\<lambda>raw.
               Ok \<lparr>rs_txid = txid, rs_raw = raw, rs_expiry_height = expiry_of_row expiry\<rparr>))
             (filter (\<lambda>(txid, expiry). txid \<notin> excluded)
               (remdups (map (\<lambda>r. (vt_txid r, vt_expiry_height r)) (filter (resubmittable_row current_height) view)))))"

section \<open>The order\<close>

text \<open>\<open>by_txid\<close>: the first candidate of an id.\<close>

definition index_of_txid :: "resubmittable_tx list \<Rightarrow> bytes \<Rightarrow> nat option" where
  "index_of_txid cs txid = List.find (\<lambda>i. rs_txid (cs ! i) = txid) [0 ..< length cs]"

text \<open>The ids that a candidate spends, when its bytes can be read and carry its id.\<close>

definition spent_txids :: "tx_reader \<Rightarrow> resubmittable_tx \<Rightarrow> bytes list" where
  "spent_txids read_tx c =
     (case read_tx (rs_raw c) of None \<Rightarrow> []
      | Some (txid, prevouts) \<Rightarrow> if txid = rs_txid c then prevouts else [])"

text \<open>The set of parent indices, here as the list of its members.\<close>

definition parents_of :: "tx_reader \<Rightarrow> resubmittable_tx list \<Rightarrow> nat \<Rightarrow> nat list" where
  "parents_of read_tx cs child = remdups (List.map_filter (index_of_txid cs) (spent_txids read_tx (cs ! child)))"

definition children_of :: "tx_reader \<Rightarrow> resubmittable_tx list \<Rightarrow> nat \<Rightarrow> nat list" where
  "children_of read_tx cs parent = filter (\<lambda>child. parent \<in> set (parents_of read_tx cs child)) [0 ..< length cs]"

definition parent_txids_of :: "tx_reader \<Rightarrow> resubmittable_tx list \<Rightarrow> nat \<Rightarrow> bytes list" where
  "parent_txids_of read_tx cs child = sort (map (\<lambda>p. rs_txid (cs ! p)) (parents_of read_tx cs child))"

type_synonym ready_set = "(bytes \<times> nat) list"

text \<open>One child loses a parent; \<open>indegree[child] -= 1\<close> is checked. The ready set is a \<open>BTreeSet\<close>.\<close>

definition release_child ::
  "resubmittable_tx list \<Rightarrow> nat list \<times> ready_set \<Rightarrow> nat \<Rightarrow> (unit, nat list \<times> ready_set) outcome" where
  "release_child cs = (\<lambda>(indegree, ready) child.
     if indegree ! child = 0 then Panic
     else let degree = indegree ! child - 1 in
       Ok (indegree[child := degree], if degree = 0 then insort_insert (rs_txid (cs ! child), child) ready else ready))"

lemma release_child_bound:
  assumes "release_child cs (indegree, ready) child = Ok (indegree', ready')" "child < length indegree"
  shows "length indegree' = length indegree \<and> sum_list indegree' + length ready' \<le> sum_list indegree + length ready"
proof -
  have "0 < indegree ! child" "indegree' = indegree[child := indegree ! child - 1]"
    "length ready' \<le> Suc (length ready)"
    using assms(1) by (auto simp: release_child_def Let_def insort_insert_key_def split: if_splits)
  moreover have "indegree ! child \<le> sum_list indegree" using assms(2) by (intro elem_le_sum_list)
  ultimately show ?thesis using assms(2) by (simp add: sum_list_update)
qed

lemma release_children_bound:
  "foldM (release_child cs) (indegree, ready) children = Ok (indegree', ready') \<Longrightarrow> \<forall>c \<in> set children. c < length indegree \<Longrightarrow>
    length indegree' = length indegree \<and> sum_list indegree' + length ready' \<le> sum_list indegree + length ready"
proof (induction children arbitrary: indegree ready)
  case (Cons c children)
  then obtain i r where one: "release_child cs (indegree, ready) c = Ok (i, r)" and
    rest: "foldM (release_child cs) (i, r) children = Ok (indegree', ready')"
    by (auto simp: obind_eq_Ok)
  show ?case using release_child_bound [OF one] Cons.IH [OF rest] Cons.prems(2) by simp
qed simp

text \<open>The loop over the ready set; every round takes one entry from it.\<close>

function order_loop ::
  "tx_reader \<Rightarrow> resubmittable_tx list \<Rightarrow> nat list \<Rightarrow> ready_set \<Rightarrow> nat list \<Rightarrow> (unit, nat list) outcome" where
  "order_loop read_tx cs indegree [] order = Ok order"
| "order_loop read_tx cs indegree ((txid, i) # ready) order =
     (if length indegree \<noteq> length cs then Panic
      else case foldM (release_child cs) (indegree, ready) (children_of read_tx cs i) of
        Ok (indegree', ready') \<Rightarrow> order_loop read_tx cs indegree' ready' (order @ [i])
      | Err e \<Rightarrow> Err e
      | Panic \<Rightarrow> Panic)"
  by pat_completeness auto

termination
proof (relation "measure (\<lambda>(read_tx, cs, indegree, ready, order). sum_list indegree + length ready)", goal_cases)
  case (2 read_tx cs indegree txid i ready order x indegree' ready')
  then have "foldM (release_child cs) (indegree, ready) (children_of read_tx cs i) = Ok (indegree', ready')" by simp
  from release_children_bound [OF this] 2 show ?case by (simp add: children_of_def)
qed simp

text \<open>At the end every candidate is taken once from its place: \<open>expect("unique topological index")\<close>.\<close>

definition order_resubmittable_transactions ::
  "tx_reader \<Rightarrow> resubmittable_tx list \<Rightarrow> (unit, ordered_tx list) outcome" where
  "order_resubmittable_transactions read_tx cs =
     (let indegree = map (\<lambda>i. length (parents_of read_tx cs i)) [0 ..< length cs];
          ready = sort (map (\<lambda>i. (rs_txid (cs ! i), i)) (filter (\<lambda>i. indegree ! i = 0) [0 ..< length cs]))
      in obind (order_loop read_tx cs indegree ready []) (\<lambda>emitted.
           let unresolved = sort_key (\<lambda>i. rs_txid (cs ! i)) (filter (\<lambda>i. i \<notin> set emitted) [0 ..< length cs]);
               order = (if length emitted = length cs then emitted else emitted @ unresolved)
           in if \<not> distinct order \<or> \<not> set order \<subseteq> {..< length cs} then Panic
              else Ok (map (\<lambda>i. \<lparr>ord_tx = cs ! i, ord_parents = parent_txids_of read_tx cs i\<rparr>) order)))"

section \<open>The pass\<close>

record resubmit_stats =
  stat_attempted :: usize
  stat_succeeded :: usize
  stat_failed :: usize

text \<open>\<open>exits k\<close> is the \<open>k\<close>-th answer of \<open>should_exit\<close>, \<open>accepts k raw\<close> that of the network to the \<open>k\<close>-th broadcast.\<close>

record network_script =
  exits :: "nat \<Rightarrow> bool"
  accepts :: "nat \<Rightarrow> bytes \<Rightarrow> bool"

text \<open>The state of a pass: the calls so far, the ids accepted, the transactions sent with their answers.\<close>

record pass_state =
  exit_calls :: nat
  pass_stats :: resubmit_stats
  accepted_txids :: "bytes set"
  sent_log :: "(bytes \<times> bool) list"

definition resubmit_dependencies_succeeded :: "ordered_tx \<Rightarrow> bytes set \<Rightarrow> bool" where
  "resubmit_dependencies_succeeded c succeeded \<longleftrightarrow> list_all (\<lambda>txid. txid \<in> succeeded) (ord_parents c)"

definition should_exit :: "network_script \<Rightarrow> pass_state \<Rightarrow> bool \<times> pass_state" where
  "should_exit N st = (exits N (exit_calls st), st\<lparr>exit_calls := Suc (exit_calls st)\<rparr>)"

definition broadcast_tx :: "network_script \<Rightarrow> resubmittable_tx \<Rightarrow> pass_state \<Rightarrow> bool \<times> pass_state" where
  "broadcast_tx N tx st =
     (let answer = accepts N (length (sent_log st)) (rs_raw tx)
      in (answer, st\<lparr>sent_log := sent_log st @ [(rs_txid tx, answer)]\<rparr>))"

definition count_success :: "resubmittable_tx \<Rightarrow> pass_state \<Rightarrow> pass_state" where
  "count_success tx st =
     st\<lparr>pass_stats := (pass_stats st)\<lparr>stat_succeeded := stat_succeeded (pass_stats st) + 1\<rparr>,
       accepted_txids := insert (rs_txid tx) (accepted_txids st)\<rparr>"

definition count_failure :: "pass_state \<Rightarrow> pass_state" where
  "count_failure st = st\<lparr>pass_stats := (pass_stats st)\<lparr>stat_failed := stat_failed (pass_stats st) + 1\<rparr>\<rparr>"

text \<open>One candidate whose parents were accepted: the flag says that the pass goes on.\<close>

definition submit_candidate :: "network_script \<Rightarrow> resubmittable_tx \<Rightarrow> pass_state \<Rightarrow> bool \<times> pass_state" where
  "submit_candidate N tx st =
     (case broadcast_tx N tx st of
        (True, st1) \<Rightarrow> (True, count_success tx st1)
      | (False, st1) \<Rightarrow>
          (case should_exit N st1 of
             (True, st2) \<Rightarrow> (False, count_failure st2)
           | (False, st2) \<Rightarrow>
               (case broadcast_tx N tx st2 of
                  (True, st3) \<Rightarrow> (True, count_success tx st3)
                | (False, st3) \<Rightarrow> (True, count_failure st3))))"

fun resubmit_loop :: "network_script \<Rightarrow> ordered_tx list \<Rightarrow> pass_state \<Rightarrow> pass_state" where
  "resubmit_loop N [] st = st"
| "resubmit_loop N (c # cs) st =
     (case should_exit N st of
        (True, st1) \<Rightarrow> st1
      | (False, st1) \<Rightarrow>
          if \<not> resubmit_dependencies_succeeded c (accepted_txids st1) then resubmit_loop N cs (count_failure st1)
          else (case submit_candidate N (ord_tx c) st1 of
              (True, st2) \<Rightarrow> resubmit_loop N cs st2
            | (False, st2) \<Rightarrow> st2))"

definition initial_pass :: "nat \<Rightarrow> nat \<Rightarrow> pass_state" where
  "initial_pass calls attempted =
     \<lparr>exit_calls = calls, pass_stats = \<lparr>stat_attempted = attempted, stat_succeeded = 0, stat_failed = 0\<rparr>,
      accepted_txids = {}, sent_log = []\<rparr>"

text \<open>A failed query ends the pass before it starts, and so does an empty one.\<close>

definition resubmit_pending_transactions ::
  "tx_reader \<Rightarrow> network_script \<Rightarrow> (unit, resubmittable_tx list) outcome \<Rightarrow> (unit, pass_state) outcome" where
  "resubmit_pending_transactions read_tx N candidates =
     (case should_exit N (initial_pass 0 0) of
        (True, st) \<Rightarrow> Ok st
      | (False, st) \<Rightarrow>
          (case candidates of
             Ok cs \<Rightarrow>
               obind (order_resubmittable_transactions read_tx cs) (\<lambda>ordered.
                 Ok (resubmit_loop N ordered (st\<lparr>pass_stats := (pass_stats st)\<lparr>stat_attempted := length ordered\<rparr>\<rparr>)))
           | Err e \<Rightarrow> Ok st
           | Panic \<Rightarrow> Panic))"

definition resubmit_wallet_transactions ::
  "tx_reader \<Rightarrow> network_script \<Rightarrow> v_transaction list \<Rightarrow> raw_table \<Rightarrow> u32 \<Rightarrow> bytes set \<Rightarrow> (unit, pass_state) outcome" where
  "resubmit_wallet_transactions read_tx N view txs current_height excluded =
     resubmit_pending_transactions read_tx N (get_resubmittable_txs_excluding view txs current_height excluded)"

end
