(* ===== verification/ResubmitProps.thy ===== *)
theory ResubmitProps
  imports Resubmit "HOL-Library.Multiset"
begin

text \<open>
  Proofs about the resubmission: the loop invariant of the dependency order (the ready set holds exactly
  the candidates whose parents are all emitted), and what a pass sends.
\<close>

section \<open>One round\<close>

lemma release_children_Ok:
  assumes "distinct children" "\<forall>c \<in> set children. c < length indegree \<and> indegree ! c > 0"
  shows "\<exists>indegree' ready'. foldM (release_child cs) (indegree, ready) children = Ok (indegree', ready') \<and>
    length indegree' = length indegree \<and>
    (\<forall>i < length indegree. indegree' ! i = (if i \<in> set children then indegree ! i - 1 else indegree ! i)) \<and>
    set ready' = set ready \<union> (\<lambda>i. (rs_txid (cs ! i), i)) ` {i \<in> set children. indegree ! i = 1} \<and>
    (distinct ready \<longrightarrow> distinct ready')"
  using assms
proof (induction children arbitrary: indegree ready)
  case (Cons c children)
  let ?indegree = "indegree[c := indegree ! c - 1]"
  let ?ready = "if indegree ! c - 1 = 0 then insort_insert (rs_txid (cs ! c), c) ready else ready"
  have c: "c < length indegree" "0 < indegree ! c" "c \<notin> set children" using Cons.prems by auto
  have one: "release_child cs (indegree, ready) c = Ok (?indegree, ?ready)"
    using c(2) by (simp add: release_child_def Let_def)
  have "\<forall>d \<in> set children. d < length ?indegree \<and> ?indegree ! d > 0"
    using Cons.prems(2) c(3) by (auto simp: nth_list_update)
  with Cons.IH [of ?indegree ?ready] Cons.prems(1) obtain indegree' ready' where
    rest: "foldM (release_child cs) (?indegree, ?ready) children = Ok (indegree', ready')"
      "length indegree' = length indegree"
      "\<forall>i < length indegree. indegree' ! i = (if i \<in> set children then ?indegree ! i - 1 else ?indegree ! i)"
      "set ready' = set ?ready \<union> (\<lambda>i. (rs_txid (cs ! i), i)) ` {i \<in> set children. ?indegree ! i = 1}"
      "distinct ?ready \<longrightarrow> distinct ready'"
    by auto
  have "foldM (release_child cs) (indegree, ready) (c # children) = Ok (indegree', ready')"
    using one rest(1) by simp
  moreover have "\<forall>i < length indegree. indegree' ! i = (if i \<in> set (c # children) then indegree ! i - 1 else indegree ! i)"
    using rest(3) c by (auto simp: nth_list_update)
  moreover have "set ready' = set ready \<union> (\<lambda>i. (rs_txid (cs ! i), i)) ` {i \<in> set (c # children). indegree ! i = 1}"
  proof -
    have "{i \<in> set children. ?indegree ! i = 1} = {i \<in> set children. indegree ! i = 1}"
    proof (rule Collect_cong)
      fix i
      show "(i \<in> set children \<and> ?indegree ! i = 1) = (i \<in> set children \<and> indegree ! i = 1)"
        using c(3) by (cases "i = c") simp_all
    qed
    moreover have "{i \<in> set (c # children). indegree ! i = 1} =
        (if indegree ! c = 1 then {c} else {}) \<union> {i \<in> set children. indegree ! i = 1}" by auto
    ultimately show ?thesis using rest(4) c(2) by (auto simp: set_insort_insert split: if_splits)
  qed
  moreover have "distinct ready \<longrightarrow> distinct ready'" using rest(5) by (simp add: distinct_insort_insert)
  ultimately show ?case using rest(2) by blast
qed simp

section \<open>The loop\<close>

lemma index_of_txid_Some: "index_of_txid cs txid = Some i \<Longrightarrow> i < length cs \<and> rs_txid (cs ! i) = txid"
  by (auto simp: index_of_txid_def find_Some_iff)

lemma parent_index: "p \<in> set (parents_of read_tx cs i) \<Longrightarrow> p < length cs"
  by (auto simp: parents_of_def List.map_filter_def dest: index_of_txid_Some)

lemma distinct_parents [simp]: "distinct (parents_of read_tx cs i)"
  by (simp add: parents_of_def)

definition order_ok :: "tx_reader \<Rightarrow> resubmittable_tx list \<Rightarrow> nat list \<Rightarrow> bool" where
  "order_ok read_tx cs order \<longleftrightarrow> distinct order \<and> set order \<subseteq> {..< length cs} \<and>
     (\<forall>k < length order. set (parents_of read_tx cs (order ! k)) \<subseteq> set (take k order))"

definition loop_ok :: "tx_reader \<Rightarrow> resubmittable_tx list \<Rightarrow> nat list \<Rightarrow> ready_set \<Rightarrow> nat list \<Rightarrow> bool" where
  "loop_ok read_tx cs indegree ready order \<longleftrightarrow> order_ok read_tx cs order \<and> length indegree = length cs \<and> distinct ready \<and>
     (\<forall>i < length cs. indegree ! i = card (set (parents_of read_tx cs i) - set order)) \<and>
     set ready = (\<lambda>i. (rs_txid (cs ! i), i)) `
       {i. i < length cs \<and> i \<notin> set order \<and> set (parents_of read_tx cs i) \<subseteq> set order}"

lemma order_ok_snoc:
  assumes "order_ok read_tx cs order" "i < length cs" "i \<notin> set order" "set (parents_of read_tx cs i) \<subseteq> set order"
  shows "order_ok read_tx cs (order @ [i])"
  using assms by (auto simp: order_ok_def nth_append less_Suc_eq)

lemma order_ok_parents: "order_ok read_tx cs order \<Longrightarrow> j \<in> set order \<Longrightarrow> set (parents_of read_tx cs j) \<subseteq> set order"
  by (metis in_set_conv_nth order_ok_def set_take_subset subset_trans)

lemma loop_round:
  assumes "loop_ok read_tx cs indegree ((txid, i) # ready) order"
  shows "\<exists>indegree' ready'. foldM (release_child cs) (indegree, ready) (children_of read_tx cs i) = Ok (indegree', ready') \<and>
    loop_ok read_tx cs indegree' ready' (order @ [i])"
proof -
  let ?par = "\<lambda>j. set (parents_of read_tx cs j)"
  let ?open = "\<lambda>order. {j. j < length cs \<and> j \<notin> set order \<and> ?par j \<subseteq> set order}"
  let ?entry = "\<lambda>j. (rs_txid (cs ! j), j)"
  have ok: "order_ok read_tx cs order" "length indegree = length cs"
    "\<And>j. j < length cs \<Longrightarrow> indegree ! j = card (?par j - set order)"
    "insert (txid, i) (set ready) = ?entry ` ?open order" "(txid, i) \<notin> set ready" "distinct ready"
    using assms by (auto simp: loop_ok_def)
  have "(txid, i) \<in> ?entry ` ?open order" using ok(4) by blast
  then have i: "i < length cs" "i \<notin> set order" "?par i \<subseteq> set order" "txid = rs_txid (cs ! i)" by auto
  have inj: "inj_on ?entry A" for A by (auto simp: inj_on_def)
  have rest: "set ready = ?entry ` (?open order - {i})"
  proof -
    have "set ready = ?entry ` ?open order - {?entry i}" using ok(4,5) i(4) by auto
    also have "\<dots> = ?entry ` (?open order - {i})" by auto
    finally show ?thesis .
  qed
  have fin: "finite (?par j)" for j by simp
  have child: "j < length cs \<and> i \<in> ?par j \<and> j \<noteq> i \<and> j \<notin> set order" if "j \<in> set (children_of read_tx cs i)" for j
  proof -
    have j: "j < length cs" "i \<in> ?par j" using that by (auto simp: children_of_def)
    have "j \<notin> set order" using order_ok_parents [OF ok(1)] j(2) i(2) by blast
    then show ?thesis using j i(2,3) by blast
  qed
  have "distinct (children_of read_tx cs i)" by (simp add: children_of_def)
  moreover have "\<forall>j \<in> set (children_of read_tx cs i). j < length indegree \<and> indegree ! j > 0"
  proof
    fix j assume "j \<in> set (children_of read_tx cs i)"
    note j = child [OF this]
    have "i \<in> ?par j - set order" using j i(2) by blast
    then have "card (?par j - set order) > 0" by (metis card_gt_0_iff empty_iff finite_Diff fin)
    then show "j < length indegree \<and> indegree ! j > 0" using ok(2,3) j by simp
  qed
  ultimately obtain indegree' ready' where
    run: "foldM (release_child cs) (indegree, ready) (children_of read_tx cs i) = Ok (indegree', ready')" and
    len: "length indegree' = length indegree" and
    deg: "\<forall>j < length indegree. indegree' ! j = (if j \<in> set (children_of read_tx cs i) then indegree ! j - 1 else indegree ! j)" and
    set': "set ready' = set ready \<union> ?entry ` {j \<in> set (children_of read_tx cs i). indegree ! j = 1}" and
    dist: "distinct ready \<longrightarrow> distinct ready'"
    using release_children_Ok [of "children_of read_tx cs i" indegree cs ready] by blast
  have deg': "indegree' ! j = card (?par j - set (order @ [i]))" if j: "j < length cs" for j
  proof (cases "i \<in> ?par j")
    case True
    then have "j \<in> set (children_of read_tx cs i)" using j by (simp add: children_of_def)
    moreover have "?par j - set (order @ [i]) = (?par j - set order) - {i}" by auto
    moreover have "i \<in> ?par j - set order" using True i(2) by blast
    ultimately show ?thesis using deg ok(2,3) j by (simp add: card_Diff_singleton)
  next
    case False
    then have "j \<notin> set (children_of read_tx cs i)" by (simp add: children_of_def)
    moreover have "?par j - set (order @ [i]) = ?par j - set order" using False by auto
    ultimately show ?thesis using deg ok(2,3) j by simp
  qed
  have "?open (order @ [i]) = (?open order - {i}) \<union> {j \<in> set (children_of read_tx cs i). indegree ! j = 1}"
  proof (rule set_eqI)
    fix j
    show "j \<in> ?open (order @ [i]) \<longleftrightarrow> j \<in> (?open order - {i}) \<union> {j \<in> set (children_of read_tx cs i). indegree ! j = 1}"
    proof (cases "j \<in> set (children_of read_tx cs i)")
      case True
      note c = child [OF True]
      have "i \<in> ?par j - set order" using c i(2) by blast
      then have "indegree ! j = 1 \<longleftrightarrow> ?par j - set order = {i}"
        using ok(3) c by (metis One_nat_def card_1_singletonE card.empty card.insert empty_iff finite.emptyI singletonD)
      also have "\<dots> \<longleftrightarrow> ?par j \<subseteq> set (order @ [i])" using \<open>i \<in> ?par j - set order\<close> by auto
      finally have "indegree ! j = 1 \<longleftrightarrow> ?par j \<subseteq> set (order @ [i])" .
      moreover have "j \<notin> ?open order" using c i(2) by blast
      ultimately show ?thesis using True c by simp
    next
      case False
      then have "i \<notin> ?par j \<or> j \<ge> length cs" by (auto simp: children_of_def)
      then show ?thesis using False by auto
    qed
  qed
  then have "set ready' = ?entry ` ?open (order @ [i])" using set' rest by (simp only: image_Un)
  then show ?thesis
    using run len deg' dist ok(2,6) order_ok_snoc [OF ok(1) i(1-3)] unfolding loop_ok_def by auto
qed

lemma loop_result:
  assumes "loop_ok read_tx cs indegree ready order"
  shows "\<exists>emitted. order_loop read_tx cs indegree ready order = Ok emitted \<and> order_ok read_tx cs emitted \<and>
    (\<forall>i < length cs. i \<notin> set emitted \<longrightarrow> (\<exists>p \<in> set (parents_of read_tx cs i). p \<notin> set emitted))"
  using assms
proof (induction read_tx cs indegree ready order rule: order_loop.induct)
  case (1 read_tx cs indegree order)
  then show ?case by (auto simp: loop_ok_def)
next
  case (2 read_tx cs indegree txid i ready order)
  have len: "length indegree = length cs" using 2(2) by (simp add: loop_ok_def)
  obtain indegree' ready' where run: "foldM (release_child cs) (indegree, ready) (children_of read_tx cs i) = Ok (indegree', ready')"
    and ok: "loop_ok read_tx cs indegree' ready' (order @ [i])"
    using loop_round [OF 2(2)] by blast
  from 2(1) [OF _ run refl ok] len show ?case by (simp add: run)
qed

lemma length_parents: "length (parents_of read_tx cs i) = card (set (parents_of read_tx cs i))"
  by (simp add: distinct_card)

lemma initial_loop_ok:
  "loop_ok read_tx cs (map (\<lambda>i. length (parents_of read_tx cs i)) [0 ..< length cs])
     (sort (map (\<lambda>i. (rs_txid (cs ! i), i))
       (filter (\<lambda>i. map (\<lambda>i. length (parents_of read_tx cs i)) [0 ..< length cs] ! i = 0) [0 ..< length cs]))) []"
proof -
  have "inj_on (\<lambda>i. (rs_txid (cs ! i), i)) A" for A by (auto simp: inj_on_def)
  then show ?thesis unfolding loop_ok_def order_ok_def by (auto simp: length_parents distinct_map)
qed

text \<open>The positions of the candidates in the result, and how many of them the loop emitted.\<close>

lemma order_resubmittable_cases:
  "\<exists>order k. order_resubmittable_transactions read_tx cs =
       Ok (map (\<lambda>i. \<lparr>ord_tx = cs ! i, ord_parents = parent_txids_of read_tx cs i\<rparr>) order) \<and>
     distinct order \<and> set order = {..< length cs} \<and> k \<le> length order \<and>
     (\<forall>j < k. set (parents_of read_tx cs (order ! j)) \<subseteq> set (take j order)) \<and>
     (\<forall>i \<in> set (drop k order). \<exists>p \<in> set (parents_of read_tx cs i). p \<in> set (drop k order)) \<and>
     sorted (map (\<lambda>i. rs_txid (cs ! i)) (drop k order))"
proof -
  obtain emitted where run: "order_loop read_tx cs (map (\<lambda>i. length (parents_of read_tx cs i)) [0 ..< length cs])
       (sort (map (\<lambda>i. (rs_txid (cs ! i), i))
         (filter (\<lambda>i. map (\<lambda>i. length (parents_of read_tx cs i)) [0 ..< length cs] ! i = 0) [0 ..< length cs]))) [] = Ok emitted"
    and ok: "order_ok read_tx cs emitted"
    and stuck: "\<forall>i < length cs. i \<notin> set emitted \<longrightarrow> (\<exists>p \<in> set (parents_of read_tx cs i). p \<notin> set emitted)"
    using loop_result [OF initial_loop_ok] by blast
  define unresolved where "unresolved = sort_key (\<lambda>i. rs_txid (cs ! i)) (filter (\<lambda>i. i \<notin> set emitted) [0 ..< length cs])"
  have em: "distinct emitted" "set emitted \<subseteq> {..< length cs}"
    "\<forall>k < length emitted. set (parents_of read_tx cs (emitted ! k)) \<subseteq> set (take k emitted)"
    using ok by (auto simp: order_ok_def)
  have un: "set unresolved = {..< length cs} - set emitted" "distinct unresolved"
    by (auto simp: unresolved_def)
  have all: "set (emitted @ unresolved) = {..< length cs}" "distinct (emitted @ unresolved)" using em un by auto
  have "length emitted = length cs \<Longrightarrow> unresolved = []"
    using un(1) em(1,2) by (metis Diff_cancel card_lessThan card_subset_eq distinct_card finite_lessThan set_empty)
  then have "(if length emitted = length cs then emitted else emitted @ unresolved) = emitted @ unresolved" by auto
  then have "order_resubmittable_transactions read_tx cs =
      Ok (map (\<lambda>i. \<lparr>ord_tx = cs ! i, ord_parents = parent_txids_of read_tx cs i\<rparr>) (emitted @ unresolved))"
    using all unfolding order_resubmittable_transactions_def Let_def run unresolved_def by simp
  moreover have "\<forall>j < length emitted. set (parents_of read_tx cs ((emitted @ unresolved) ! j)) \<subseteq> set (take j (emitted @ unresolved))"
    using em(3) by (simp add: nth_append)
  moreover have "\<forall>i \<in> set unresolved. \<exists>p \<in> set (parents_of read_tx cs i). p \<in> set unresolved"
    using stuck un(1) parent_index by fastforce
  moreover have "sorted (map (\<lambda>i. rs_txid (cs ! i)) unresolved)" by (simp add: unresolved_def)
  ultimately show ?thesis using all
    by (intro exI [of _ "emitted @ unresolved"] exI [of _ "length emitted"]) simp
qed

lemma unresolved_cycle:
  assumes "\<forall>i < length cs. \<forall>p \<in> set (parents_of read_tx cs i). (rank p :: nat) < rank i"
    and "set rest \<subseteq> {..< length cs}" "\<forall>i \<in> set rest. \<exists>p \<in> set (parents_of read_tx cs i). p \<in> set rest"
  shows "rest = []"
proof (rule ccontr)
  assume "rest \<noteq> []"
  define m where "m = arg_min_on rank (set rest)"
  have m: "m \<in> set rest" using \<open>rest \<noteq> []\<close> unfolding m_def by (intro arg_min_if_finite) auto
  then obtain p where "p \<in> set (parents_of read_tx cs m)" "p \<in> set rest" using assms(3) by blast
  moreover have "\<not> rank p < rank m" using \<open>p \<in> set rest\<close> \<open>rest \<noteq> []\<close> arg_min_if_finite(2) [of "set rest" rank] unfolding m_def by blast
  ultimately show False using assms(1,2) m by blast
qed

section \<open>The pass\<close>

definition log_ok :: "ordered_tx set \<Rightarrow> (bytes \<times> bool) list \<Rightarrow> bool" where
  "log_ok C log \<longleftrightarrow> (\<forall>k < length log. \<exists>c \<in> C. rs_txid (ord_tx c) = fst (log ! k) \<and>
     (\<forall>txid \<in> set (ord_parents c). (txid, True) \<in> set (take k log)))"

definition pass_ok :: "ordered_tx set \<Rightarrow> pass_state \<Rightarrow> bool" where
  "pass_ok C st \<longleftrightarrow> log_ok C (sent_log st) \<and> accepted_txids st = {txid. (txid, True) \<in> set (sent_log st)} \<and>
     stat_succeeded (pass_stats st) = length (filter snd (sent_log st))"

lemma log_ok_snoc:
  assumes "log_ok C log" "c \<in> C" "\<forall>txid \<in> set (ord_parents c). (txid, True) \<in> set log"
  shows "log_ok C (log @ [(rs_txid (ord_tx c), answer)])"
  unfolding log_ok_def
proof (intro allI impI)
  fix k assume k: "k < length (log @ [(rs_txid (ord_tx c), answer)])"
  show "\<exists>d \<in> C. rs_txid (ord_tx d) = fst ((log @ [(rs_txid (ord_tx c), answer)]) ! k) \<and>
     (\<forall>txid \<in> set (ord_parents d). (txid, True) \<in> set (take k (log @ [(rs_txid (ord_tx c), answer)])))"
  proof (cases "k = length log")
    case True
    then show ?thesis using assms(2,3) by (intro bexI [of _ c]) auto
  next
    case False
    then show ?thesis using k assms(1) by (auto simp: log_ok_def nth_append)
  qed
qed

definition settled_count :: "pass_state \<Rightarrow> nat" where
  "settled_count st = stat_succeeded (pass_stats st) + stat_failed (pass_stats st)"

lemmas submit_defs = submit_candidate_def broadcast_tx_def should_exit_def count_success_def count_failure_def Let_def

lemma submit_candidate_ok:
  assumes "pass_ok C st" "c \<in> C" "resubmit_dependencies_succeeded c (accepted_txids st)"
  shows "pass_ok C (snd (submit_candidate N (ord_tx c) st))"
proof -
  have par: "\<forall>txid \<in> set (ord_parents c). (txid, True) \<in> set (sent_log st)"
    using assms(1,3) by (auto simp: pass_ok_def resubmit_dependencies_succeeded_def list_all_iff)
  have one: "log_ok C (sent_log st @ [(rs_txid (ord_tx c), a)])" for a
    using log_ok_snoc [OF _ assms(2) par] assms(1) by (simp add: pass_ok_def)
  have two: "log_ok C ((sent_log st @ [(rs_txid (ord_tx c), a)]) @ [(rs_txid (ord_tx c), b)])" for a b
    using log_ok_snoc [OF one assms(2)] par by simp
  show ?thesis using assms(1) one two [of False] two [of _ True]
    by (auto simp: pass_ok_def submit_defs split: bool.splits)
qed

lemma submit_candidate_count:
  "settled_count (snd (submit_candidate N tx st)) = Suc (settled_count st) \<and>
   length (sent_log (snd (submit_candidate N tx st))) \<le> length (sent_log st) + 2 \<and>
   stat_attempted (pass_stats (snd (submit_candidate N tx st))) = stat_attempted (pass_stats st) \<and>
   ((\<forall>k. \<not> exits N k) \<longrightarrow> fst (submit_candidate N tx st))"
  by (auto simp: settled_count_def submit_defs split: bool.splits)

lemma resubmit_loop_ok:
  "pass_ok C st \<Longrightarrow> set ordered \<subseteq> C \<Longrightarrow> pass_ok C (resubmit_loop N ordered st)"
proof (induction N ordered st rule: resubmit_loop.induct)
  case (2 N c cs st)
  have calls: "pass_ok C (st\<lparr>exit_calls := n\<rparr>)" "pass_ok C (count_failure (st\<lparr>exit_calls := n\<rparr>))" for n
    using 2(3) by (simp_all add: pass_ok_def count_failure_def)
  show ?case
  proof (cases "exits N (exit_calls st)")
    case True
    then show ?thesis using calls by (simp add: should_exit_def)
  next
    case False
    define st1 where "st1 = st\<lparr>exit_calls := Suc (exit_calls st)\<rparr>"
    have ex: "should_exit N st = (False, st1)" using False by (simp add: should_exit_def st1_def)
    show ?thesis
    proof (cases "resubmit_dependencies_succeeded c (accepted_txids st1)")
      case False
      then show ?thesis using 2(1) [OF ex [symmetric] refl] 2(4) calls ex unfolding st1_def by simp
    next
      case True
      obtain go st2 where sub: "submit_candidate N (ord_tx c) st1 = (go, st2)" by fastforce
      have "pass_ok C st2" using submit_candidate_ok [OF _ _ True, of C N] sub calls 2(4) unfolding st1_def by simp
      then show ?thesis using 2(2) [OF ex [symmetric] refl] True 2(4) sub ex by (cases go) auto
    qed
  qed
qed simp

lemma resubmit_loop_count:
  "settled_count (resubmit_loop N ordered st) \<le> settled_count st + length ordered \<and>
   length (sent_log (resubmit_loop N ordered st)) + 2 * settled_count st \<le>
     length (sent_log st) + 2 * settled_count (resubmit_loop N ordered st) \<and>
   stat_attempted (pass_stats (resubmit_loop N ordered st)) = stat_attempted (pass_stats st) \<and>
   ((\<forall>k. \<not> exits N k) \<longrightarrow> settled_count (resubmit_loop N ordered st) = settled_count st + length ordered)"
proof (induction ordered arbitrary: st)
  case (Cons c ordered)
  define st1 where "st1 = st\<lparr>exit_calls := Suc (exit_calls st)\<rparr>"
  have st1: "settled_count st1 = settled_count st" "sent_log st1 = sent_log st" "pass_stats st1 = pass_stats st"
    by (simp_all add: st1_def settled_count_def)
  have fail: "settled_count (count_failure st1) = Suc (settled_count st1)" "sent_log (count_failure st1) = sent_log st1"
    "stat_attempted (pass_stats (count_failure st1)) = stat_attempted (pass_stats st1)"
    by (simp_all add: count_failure_def settled_count_def)
  obtain go st2 where sub: "submit_candidate N (ord_tx c) st1 = (go, st2)" by fastforce
  show ?case
    using Cons.IH [of "count_failure st1"] Cons.IH [of st2] submit_candidate_count [of N "ord_tx c" st1] st1 fail sub
    by (auto simp: should_exit_def simp flip: st1_def split: bool.splits)
qed simp

lemma resubmit_loop_accepting:
  assumes "\<forall>k. \<not> exits N k" "\<forall>k raw. accepts N k raw"
    and "\<forall>j < length ordered. \<forall>txid \<in> set (ord_parents (ordered ! j)).
       txid \<in> accepted_txids st \<union> (rs_txid \<circ> ord_tx) ` set (take j ordered)"
  shows "sent_log (resubmit_loop N ordered st) = sent_log st @ map (\<lambda>c. (rs_txid (ord_tx c), True)) ordered"
  using assms(3)
proof (induction ordered arbitrary: st)
  case (Cons c ordered)
  define st1 where "st1 = st\<lparr>exit_calls := Suc (exit_calls st)\<rparr>"
  define st2 where "st2 = count_success (ord_tx c) (st1\<lparr>sent_log := sent_log st1 @ [(rs_txid (ord_tx c), True)]\<rparr>)"
  have "resubmit_dependencies_succeeded c (accepted_txids st1)"
    using Cons.prems [rule_format, of 0] by (auto simp: resubmit_dependencies_succeeded_def list_all_iff st1_def)
  then have run: "resubmit_loop N (c # ordered) st = resubmit_loop N ordered st2"
    using assms(1,2) by (simp add: should_exit_def submit_candidate_def broadcast_tx_def st2_def flip: st1_def)
  have st2: "accepted_txids st2 = insert (rs_txid (ord_tx c)) (accepted_txids st)"
    "sent_log st2 = sent_log st @ [(rs_txid (ord_tx c), True)]"
    by (simp_all add: st2_def count_success_def st1_def)
  have "\<forall>j < length ordered. \<forall>txid \<in> set (ord_parents (ordered ! j)).
      txid \<in> accepted_txids st2 \<union> (rs_txid \<circ> ord_tx) ` set (take j ordered)"
  proof (intro allI impI ballI)
    fix j txid assume "j < length ordered" "txid \<in> set (ord_parents (ordered ! j))"
    then show "txid \<in> accepted_txids st2 \<union> (rs_txid \<circ> ord_tx) ` set (take j ordered)"
      using Cons.prems [rule_format, of "Suc j" txid] by (auto simp: st2)
  qed
  from Cons.IH [OF this] show ?case unfolding run by (simp add: st2)
qed simp

end
