(* ===== verification/ResubmitOrder.thy ===== *)
theory ResubmitOrder
  imports ResubmitProps
begin

text \<open>
  The order of the resubmission does not depend on the order of the query: it is the greedy order
  that always takes the least id among the candidates whose parents are taken, followed by the
  remaining ids in order. Everything here is over the ids, which are distinct.
\<close>

section \<open>Ids and positions\<close>

lemma index_of_txid_None: "index_of_txid cs txid = None \<longleftrightarrow> txid \<notin> rs_txid ` set cs"
  unfolding index_of_txid_def find_None_iff image_iff by (auto, metis in_set_conv_nth)

lemma parent_ids: "(\<lambda>p. rs_txid (cs ! p)) ` set (parents_of read_tx cs i) = set (spent_txids read_tx (cs ! i)) \<inter> rs_txid ` set cs"
proof (rule set_eqI)
  fix txid
  show "txid \<in> (\<lambda>p. rs_txid (cs ! p)) ` set (parents_of read_tx cs i) \<longleftrightarrow>
      txid \<in> set (spent_txids read_tx (cs ! i)) \<inter> rs_txid ` set cs"
  proof (cases "index_of_txid cs txid")
    case None
    then have "txid \<notin> rs_txid ` set cs" by (simp add: index_of_txid_None)
    moreover have "rs_txid (cs ! p) \<in> rs_txid ` set cs" if "p \<in> set (parents_of read_tx cs i)" for p
      using parent_index [OF that] by simp
    ultimately show ?thesis by blast
  next
    case (Some p)
    moreover have "txid \<in> rs_txid ` set cs" using Some by (metis index_of_txid_None option.distinct(1))
    ultimately show ?thesis
      by (force simp: parents_of_def map_filter_def image_iff dest: index_of_txid_Some)
  qed
qed

definition ids_distinct :: "resubmittable_tx list \<Rightarrow> bool" where
  "ids_distinct cs \<longleftrightarrow> distinct (map rs_txid cs)"

lemma position_inj: "ids_distinct cs \<Longrightarrow> inj_on (\<lambda>i. rs_txid (cs ! i)) {..< length cs}"
  by (auto simp: ids_distinct_def inj_on_def distinct_conv_nth)

lemma position_inj_eq: "ids_distinct cs \<Longrightarrow> i < length cs \<Longrightarrow> j < length cs \<Longrightarrow> rs_txid (cs ! i) = rs_txid (cs ! j) \<longleftrightarrow> i = j"
  using position_inj [of cs] by (auto simp: inj_on_def)

lemma position_ids_subset:
  assumes "ids_distinct cs" "A \<subseteq> {..< length cs}" "B \<subseteq> {..< length cs}"
  shows "(\<lambda>i. rs_txid (cs ! i)) ` A \<subseteq> (\<lambda>i. rs_txid (cs ! i)) ` B \<longleftrightarrow> A \<subseteq> B"
  using inj_on_image_mem_iff [OF position_inj [OF assms(1)] _ assms(3)] assms(2) by blast

definition ids_ready :: "tx_reader \<Rightarrow> resubmittable_tx set \<Rightarrow> bytes set \<Rightarrow> bytes set" where
  "ids_ready read_tx C taken =
     rs_txid ` {c \<in> C. rs_txid c \<notin> taken \<and> set (spent_txids read_tx c) \<inter> rs_txid ` C \<subseteq> taken}"

lemma ids_ready_positions:
  assumes "ids_distinct cs" "set order \<subseteq> {..< length cs}"
  shows "ids_ready read_tx (set cs) ((\<lambda>i. rs_txid (cs ! i)) ` set order) =
    (\<lambda>i. rs_txid (cs ! i)) ` {i. i < length cs \<and> i \<notin> set order \<and> set (parents_of read_tx cs i) \<subseteq> set order}"
proof -
  have one: "rs_txid (cs ! i) \<notin> (\<lambda>i. rs_txid (cs ! i)) ` set order \<longleftrightarrow> i \<notin> set order" if "i < length cs" for i
    using position_inj_eq [OF assms(1) that] assms(2) by (auto simp: image_iff)
  have two: "set (spent_txids read_tx (cs ! i)) \<inter> rs_txid ` set cs \<subseteq> (\<lambda>i. rs_txid (cs ! i)) ` set order \<longleftrightarrow>
      set (parents_of read_tx cs i) \<subseteq> set order" for i
    unfolding parent_ids [symmetric] using position_ids_subset [OF assms(1) _ assms(2)] parent_index by (metis lessThan_iff subsetI)
  have "{c \<in> set cs. rs_txid c \<notin> (\<lambda>i. rs_txid (cs ! i)) ` set order \<and>
         set (spent_txids read_tx c) \<inter> rs_txid ` set cs \<subseteq> (\<lambda>i. rs_txid (cs ! i)) ` set order} =
      (\<lambda>i. cs ! i) ` {i. i < length cs \<and> i \<notin> set order \<and> set (parents_of read_tx cs i) \<subseteq> set order}" (is "?A = ?B")
  proof (intro equalityI subsetI)
    fix c assume c: "c \<in> ?A"
    then obtain i where "i < length cs" "c = cs ! i" by (auto simp: in_set_conv_nth)
    then show "c \<in> ?B" using c one [of i] two [of i] by blast
  next
    fix c assume "c \<in> ?B"
    then obtain i where "i < length cs" "c = cs ! i" "i \<notin> set order" "set (parents_of read_tx cs i) \<subseteq> set order" by blast
    then show "c \<in> ?A" using one [of i] two [of i] by simp
  qed
  then show ?thesis unfolding ids_ready_def by (simp add: image_image)
qed

section \<open>The greedy order\<close>

definition greedy :: "tx_reader \<Rightarrow> resubmittable_tx set \<Rightarrow> bytes list \<Rightarrow> bool" where
  "greedy read_tx C ids \<longleftrightarrow> (\<forall>k < length ids. ids ! k \<in> ids_ready read_tx C (set (take k ids)) \<and>
     (\<forall>txid \<in> ids_ready read_tx C (set (take k ids)). ids ! k \<le> txid))"

lemma greedy_start: "greedy read_tx C (map f [])"
  by (simp add: greedy_def)

lemma greedy_snoc:
  assumes "greedy read_tx C ids" "txid \<in> ids_ready read_tx C (set ids)" "\<forall>t \<in> ids_ready read_tx C (set ids). txid \<le> t"
  shows "greedy read_tx C (ids @ [txid])"
  using assms by (auto simp: greedy_def nth_append less_Suc_eq)

lemma greedy_unique:
  assumes "greedy read_tx C ids" "greedy read_tx C ids'"
    and "ids_ready read_tx C (set ids) = {}" "ids_ready read_tx C (set ids') = {}"
  shows "ids = ids'"
proof -
  have same: "k \<le> length ids \<Longrightarrow> k \<le> length ids' \<Longrightarrow> take k ids = take k ids'" for k
  proof (induction k)
    case (Suc k)
    then have eq: "take k ids = take k ids'" by simp
    have "ids ! k \<le> ids' ! k" "ids' ! k \<le> ids ! k"
      using Suc.prems assms(1,2) eq unfolding greedy_def by (metis Suc_le_lessD)+
    then show ?case using Suc.prems eq by (simp add: take_Suc_conv_app_nth)
  qed simp
  have "\<not> length ids < length ids'"
  proof
    assume less: "length ids < length ids'"
    then have "take (length ids) ids' = ids" using same [of "length ids"] by simp
    then have "ids' ! length ids \<in> ids_ready read_tx C (set ids)" using assms(2) less unfolding greedy_def by metis
    then show False using assms(3) by simp
  qed
  moreover have "\<not> length ids' < length ids"
  proof
    assume less: "length ids' < length ids"
    then have "take (length ids') ids = ids'" using same [of "length ids'"] by simp
    then have "ids ! length ids' \<in> ids_ready read_tx C (set ids')" using assms(1) less unfolding greedy_def by metis
    then show False using assms(4) by simp
  qed
  ultimately show ?thesis using same [of "length ids"] by simp
qed

section \<open>The loop is greedy\<close>

lemma release_children_sorted:
  "foldM (release_child cs) (indegree, ready) children = Ok (indegree', ready') \<Longrightarrow> sorted ready \<Longrightarrow> sorted ready'"
proof (induction children arbitrary: indegree ready)
  case (Cons c children)
  then obtain i r where one: "release_child cs (indegree, ready) c = Ok (i, r)" and
    rest: "foldM (release_child cs) (i, r) children = Ok (indegree', ready')"
    by (auto simp: obind_eq_Ok)
  have "sorted r" using one Cons.prems(2) by (auto simp: release_child_def Let_def sorted_insort_insert split: if_splits)
  then show ?case by (rule Cons.IH [OF rest])
qed simp

lemma loop_head:
  assumes "loop_ok read_tx cs indegree ((txid, i) # ready) order" "sorted ((txid, i) # ready)" "ids_distinct cs"
  shows "rs_txid (cs ! i) \<in> ids_ready read_tx (set cs) ((\<lambda>i. rs_txid (cs ! i)) ` set order) \<and>
    (\<forall>t \<in> ids_ready read_tx (set cs) ((\<lambda>i. rs_txid (cs ! i)) ` set order). rs_txid (cs ! i) \<le> t)"
proof -
  let ?open = "{i. i < length cs \<and> i \<notin> set order \<and> set (parents_of read_tx cs i) \<subseteq> set order}"
  have sub: "set order \<subseteq> {..< length cs}" and
    rdy: "set ((txid, i) # ready) = (\<lambda>i. (rs_txid (cs ! i), i)) ` ?open"
    using assms(1) by (auto simp: loop_ok_def order_ok_def)
  have head: "(txid, i) \<in> (\<lambda>i. (rs_txid (cs ! i), i)) ` ?open" using rdy by (metis list.set_intros(1))
  then have i: "i \<in> ?open" "txid = rs_txid (cs ! i)" by auto
  have "rs_txid (cs ! i) \<le> rs_txid (cs ! j)" if "j \<in> ?open" for j
  proof -
    have "(rs_txid (cs ! j), j) \<in> set ((txid, i) # ready)" unfolding rdy using that by blast
    then have "(txid, i) \<le> (rs_txid (cs ! j), j)" using assms(2) by auto
    then show ?thesis using i(2) by (auto simp: less_eq_prod_def)
  qed
  then show ?thesis unfolding ids_ready_positions [OF assms(3) sub] using i(1) by blast
qed

lemma loop_greedy:
  assumes "loop_ok read_tx cs indegree ready order" "sorted ready" "ids_distinct cs"
    and "greedy read_tx (set cs) (map (\<lambda>i. rs_txid (cs ! i)) order)"
  shows "\<exists>emitted. order_loop read_tx cs indegree ready order = Ok emitted \<and> order_ok read_tx cs emitted \<and>
    greedy read_tx (set cs) (map (\<lambda>i. rs_txid (cs ! i)) emitted) \<and>
    ids_ready read_tx (set cs) (set (map (\<lambda>i. rs_txid (cs ! i)) emitted)) = {}"
  using assms
proof (induction read_tx cs indegree ready order rule: order_loop.induct)
  case (1 read_tx cs indegree order)
  then have "order_ok read_tx cs order" "{i. i < length cs \<and> i \<notin> set order \<and> set (parents_of read_tx cs i) \<subseteq> set order} = {}"
    by (auto simp: loop_ok_def)
  then show ?case using 1 ids_ready_positions [of cs order read_tx] by (simp add: order_ok_def)
next
  case (2 read_tx cs indegree txid i ready order)
  have len: "length indegree = length cs" using 2(2) by (simp add: loop_ok_def)
  obtain indegree' ready' where run: "foldM (release_child cs) (indegree, ready) (children_of read_tx cs i) = Ok (indegree', ready')"
    and ok: "loop_ok read_tx cs indegree' ready' (order @ [i])"
    using loop_round [OF 2(2)] by blast
  have "sorted ready'" using release_children_sorted [OF run] 2(3) by simp
  moreover have "greedy read_tx (set cs) (map (\<lambda>i. rs_txid (cs ! i)) (order @ [i]))"
    using greedy_snoc [OF 2(5)] loop_head [OF 2(2-4)] by simp
  ultimately show ?case using 2(1) [OF _ run refl ok _ 2(4)] len by (simp add: run)
qed

section \<open>The result\<close>

lemma parent_txids_sorted:
  assumes "ids_distinct cs"
  shows "parent_txids_of read_tx cs i = sorted_list_of_set (set (spent_txids read_tx (cs ! i)) \<inter> rs_txid ` set cs)"
proof -
  have "inj_on (\<lambda>p. rs_txid (cs ! p)) (set (parents_of read_tx cs i))"
    by (rule inj_on_subset [OF position_inj [OF assms]]) (auto dest: parent_index)
  then have "distinct (parent_txids_of read_tx cs i)" by (simp add: parent_txids_of_def distinct_map)
  moreover have "sorted (parent_txids_of read_tx cs i)" by (simp add: parent_txids_of_def)
  moreover have "set (parent_txids_of read_tx cs i) = set (spent_txids read_tx (cs ! i)) \<inter> rs_txid ` set cs"
    by (simp add: parent_txids_of_def parent_ids)
  ultimately show ?thesis using sorted_list_of_set.idem_if_sorted_distinct [of "parent_txids_of read_tx cs i"] by simp
qed

definition entry_of :: "tx_reader \<Rightarrow> resubmittable_tx set \<Rightarrow> resubmittable_tx \<Rightarrow> ordered_tx" where
  "entry_of read_tx C c =
     \<lparr>ord_tx = c, ord_parents = sorted_list_of_set (set (spent_txids read_tx c) \<inter> rs_txid ` C)\<rparr>"

lemma order_by_ids:
  assumes "ids_distinct cs"
  shows "\<exists>order ids. order_resubmittable_transactions read_tx cs = Ok (map (entry_of read_tx (set cs)) order) \<and>
    set order \<subseteq> set cs \<and> map rs_txid order = ids @ sorted_list_of_set (rs_txid ` set cs - set ids) \<and>
    greedy read_tx (set cs) ids \<and> ids_ready read_tx (set cs) (set ids) = {}"
proof -
  let ?ready = "sort (map (\<lambda>i. (rs_txid (cs ! i), i))
         (filter (\<lambda>i. map (\<lambda>i. length (parents_of read_tx cs i)) [0 ..< length cs] ! i = 0) [0 ..< length cs]))"
  obtain emitted where run: "order_loop read_tx cs (map (\<lambda>i. length (parents_of read_tx cs i)) [0 ..< length cs]) ?ready [] = Ok emitted"
    and ok: "order_ok read_tx cs emitted" and g: "greedy read_tx (set cs) (map (\<lambda>i. rs_txid (cs ! i)) emitted)"
    and e: "ids_ready read_tx (set cs) (set (map (\<lambda>i. rs_txid (cs ! i)) emitted)) = {}"
    using loop_greedy [OF initial_loop_ok [of read_tx cs] sorted_sort assms greedy_start] by blast
  define unresolved where "unresolved = sort_key (\<lambda>i. rs_txid (cs ! i)) (filter (\<lambda>i. i \<notin> set emitted) [0 ..< length cs])"
  have em: "distinct emitted" "set emitted \<subseteq> {..< length cs}" using ok by (auto simp: order_ok_def)
  have un: "set unresolved = {..< length cs} - set emitted" "distinct unresolved"
    "sorted (map (\<lambda>i. rs_txid (cs ! i)) unresolved)"
    by (auto simp: unresolved_def)
  define order where "order = emitted @ unresolved"
  have all: "set order = {..< length cs}" "distinct order" using em un unfolding order_def by auto
  have "length emitted = length cs \<Longrightarrow> unresolved = []"
    using un(1) em(1,2) by (metis Diff_cancel card_lessThan card_subset_eq distinct_card finite_lessThan set_empty)
  then have "(if length emitted = length cs then emitted else emitted @ unresolved) = order" by (auto simp: order_def)
  then have res: "order_resubmittable_transactions read_tx cs =
      Ok (map (\<lambda>i. \<lparr>ord_tx = cs ! i, ord_parents = parent_txids_of read_tx cs i\<rparr>) order)"
    using all unfolding order_resubmittable_transactions_def Let_def run unresolved_def by simp
  have "distinct (map (\<lambda>i. rs_txid (cs ! i)) unresolved)"
    using un(1,2) by (auto simp: distinct_map intro: inj_on_subset [OF position_inj [OF assms]])
  moreover have "set (map (\<lambda>i. rs_txid (cs ! i)) unresolved) =
      rs_txid ` set cs - set (map (\<lambda>i. rs_txid (cs ! i)) emitted)"
  proof -
    have "(\<lambda>i. rs_txid (cs ! i)) ` ({..< length cs} - set emitted) =
        (\<lambda>i. rs_txid (cs ! i)) ` {..< length cs} - (\<lambda>i. rs_txid (cs ! i)) ` set emitted"
      by (rule inj_on_image_set_diff [OF position_inj [OF assms]]) (use em(2) in auto)
    moreover have "rs_txid ` set cs = (\<lambda>i. rs_txid (cs ! i)) ` {..< length cs}"
      by (auto simp: set_conv_nth image_iff)
    ultimately show ?thesis by (simp add: un(1))
  qed
  ultimately have "map (\<lambda>i. rs_txid (cs ! i)) unresolved =
      sorted_list_of_set (rs_txid ` set cs - set (map (\<lambda>i. rs_txid (cs ! i)) emitted))"
    using un(3) sorted_list_of_set.idem_if_sorted_distinct [of "map (\<lambda>i. rs_txid (cs ! i)) unresolved"] by simp
  then have "map rs_txid (map ((!) cs) order) = map (\<lambda>i. rs_txid (cs ! i)) emitted @
      sorted_list_of_set (rs_txid ` set cs - set (map (\<lambda>i. rs_txid (cs ! i)) emitted))"
    by (simp add: order_def comp_def)
  moreover have "order_resubmittable_transactions read_tx cs = Ok (map (entry_of read_tx (set cs)) (map ((!) cs) order))"
    unfolding res by (simp add: entry_of_def parent_txids_sorted [OF assms])
  moreover have "set (map ((!) cs) order) \<subseteq> set cs" by (simp add: all(1) image_subset_iff)
  ultimately show ?thesis using g e
    by (intro exI [of _ "map ((!) cs) order"] exI [of _ "map (\<lambda>i. rs_txid (cs ! i)) emitted"]) simp
qed

lemma order_of_permuted:
  assumes "ids_distinct cs" "mset cs' = mset cs"
  shows "order_resubmittable_transactions read_tx cs' = order_resubmittable_transactions read_tx cs"
proof -
  have same: "set cs' = set cs" using assms(2) by (rule mset_eq_setD)
  have "distinct (map rs_txid cs')"
    using assms by (metis ids_distinct_def mset_eq_imp_distinct_iff mset_map)
  then have d: "ids_distinct cs'" by (simp add: ids_distinct_def)
  obtain order ids where a: "order_resubmittable_transactions read_tx cs = Ok (map (entry_of read_tx (set cs)) order)"
    "set order \<subseteq> set cs" "map rs_txid order = ids @ sorted_list_of_set (rs_txid ` set cs - set ids)"
    "greedy read_tx (set cs) ids" "ids_ready read_tx (set cs) (set ids) = {}"
    using order_by_ids [OF assms(1)] by blast
  obtain order' ids' where b: "order_resubmittable_transactions read_tx cs' = Ok (map (entry_of read_tx (set cs)) order')"
    "set order' \<subseteq> set cs" "map rs_txid order' = ids' @ sorted_list_of_set (rs_txid ` set cs - set ids')"
    "greedy read_tx (set cs) ids'" "ids_ready read_tx (set cs) (set ids') = {}"
    using order_by_ids [OF d] unfolding same by blast
  have "ids' = ids" by (rule greedy_unique [OF b(4) a(4) b(5) a(5)])
  then have "map rs_txid order' = map rs_txid order" using a(3) b(3) by simp
  moreover have "inj_on rs_txid (set cs)" using assms(1) by (simp add: ids_distinct_def distinct_map)
  then have "inj_on rs_txid (set order' \<union> set order)" using a(2) b(2) by (meson Un_least inj_on_subset)
  ultimately have "order' = order" by (metis map_inj_on)
  then show ?thesis using a(1) b(1) by simp
qed

end
