(* ===== verification/ResubmitProperties.thy ===== *)
theory ResubmitProperties
  imports ResubmitOrder
begin

text \<open>
  The properties of the automatic resubmission: the order of a pass, its independence of the query,
  what may be sent and when, and that an undisturbed pass sends everything.
\<close>

section \<open>What the properties say\<close>

definition acyclic_spends :: "tx_reader \<Rightarrow> resubmittable_tx list \<Rightarrow> (nat \<Rightarrow> nat) \<Rightarrow> bool" where
  "acyclic_spends read_tx cs rank \<longleftrightarrow>
     list_all (\<lambda>i. list_all (\<lambda>p. rank p < rank i) (parents_of read_tx cs i)) [0 ..< length cs]"

text \<open>Positions that wait for each other: each has a parent among them, and they are in the order of their ids.\<close>

definition waiting_set :: "tx_reader \<Rightarrow> resubmittable_tx list \<Rightarrow> nat list \<Rightarrow> bool" where
  "waiting_set read_tx cs rest \<longleftrightarrow> sorted (map (\<lambda>i. rs_txid (cs ! i)) rest) \<and>
     list_all (\<lambda>i. list_ex (\<lambda>p. p \<in> set rest) (parents_of read_tx cs i)) rest"

definition entry_at :: "tx_reader \<Rightarrow> resubmittable_tx list \<Rightarrow> nat \<Rightarrow> ordered_tx" where
  "entry_at read_tx cs i = \<lparr>ord_tx = cs ! i, ord_parents = parent_txids_of read_tx cs i\<rparr>"

text \<open>Every send of the log is one of a candidate whose parents the log accepted before.\<close>

definition sent_after_parents :: "tx_reader \<Rightarrow> resubmittable_tx list \<Rightarrow> (bytes \<times> bool) list \<Rightarrow> bool" where
  "sent_after_parents read_tx cs log \<longleftrightarrow>
     list_all (\<lambda>k. list_ex (\<lambda>i. rs_txid (cs ! i) = fst (log ! k) \<and>
         list_all (\<lambda>p. (rs_txid (cs ! p), True) \<in> set (take k log)) (parents_of read_tx cs i)) [0 ..< length cs])
       [0 ..< length log]"

section \<open>The order\<close>

lemma mset_positions: "distinct order \<Longrightarrow> set order = {..< length cs} \<Longrightarrow> mset (map ((!) cs) order) = mset cs"
proof -
  assume "distinct order" "set order = {..< length cs}"
  then have "mset order = mset [0 ..< length cs]"
    by (metis atLeast_upt distinct_upt set_eq_iff_mset_eq_distinct)
  then have "mset (map ((!) cs) order) = mset (map ((!) cs) [0 ..< length cs])" by simp
  then show ?thesis by (simp add: map_nth)
qed

lemma order_entries:
  "\<exists>emitted deferred. order_resubmittable_transactions read_tx cs = Ok (map (entry_at read_tx cs) (emitted @ deferred)) \<and>
     distinct (emitted @ deferred) \<and> set (emitted @ deferred) = {..< length cs} \<and>
     order_ok read_tx cs emitted \<and> waiting_set read_tx cs deferred"
proof -
  obtain order k where o: "order_resubmittable_transactions read_tx cs =
       Ok (map (\<lambda>i. \<lparr>ord_tx = cs ! i, ord_parents = parent_txids_of read_tx cs i\<rparr>) order)"
     "distinct order" "set order = {..< length cs}" "k \<le> length order"
     "\<forall>j < k. set (parents_of read_tx cs (order ! j)) \<subseteq> set (take j order)"
     "\<forall>i \<in> set (drop k order). \<exists>p \<in> set (parents_of read_tx cs i). p \<in> set (drop k order)"
     "sorted (map (\<lambda>i. rs_txid (cs ! i)) (drop k order))"
    using order_resubmittable_cases [of read_tx cs] by blast
  have "order_ok read_tx cs (take k order)"
    using o(2-5) set_take_subset [of k order] by (auto simp: order_ok_def)
  moreover have "waiting_set read_tx cs (drop k order)"
    using o(6,7) by (auto simp: waiting_set_def list_all_iff list_ex_iff)
  moreover have "entry_at read_tx cs = (\<lambda>i. \<lparr>ord_tx = cs ! i, ord_parents = parent_txids_of read_tx cs i\<rparr>)"
    by (auto simp: entry_at_def)
  ultimately show ?thesis using o(1-3)
    by (intro exI [of _ "take k order"] exI [of _ "drop k order"]) simp
qed

lemma order_entries_acyclic:
  assumes "acyclic_spends read_tx cs rank"
  shows "\<exists>order. order_resubmittable_transactions read_tx cs = Ok (map (entry_at read_tx cs) order) \<and>
    set order = {..< length cs} \<and> order_ok read_tx cs order"
proof -
  obtain emitted deferred where e: "order_resubmittable_transactions read_tx cs = Ok (map (entry_at read_tx cs) (emitted @ deferred))"
     "set (emitted @ deferred) = {..< length cs}" "order_ok read_tx cs emitted" "waiting_set read_tx cs deferred"
    using order_entries by blast
  have "\<forall>i < length cs. \<forall>p \<in> set (parents_of read_tx cs i). rank p < rank i"
    using assms by (auto simp: acyclic_spends_def list_all_iff)
  moreover have "set deferred \<subseteq> {..< length cs}" using e(2) by auto
  moreover have "\<forall>i \<in> set deferred. \<exists>p \<in> set (parents_of read_tx cs i). p \<in> set deferred"
    using e(4) by (auto simp: waiting_set_def list_all_iff list_ex_iff)
  ultimately have "deferred = []" by (rule unresolved_cycle)
  then show ?thesis using e by auto
qed

section \<open>The pass over the ordered candidates\<close>

lemma initial_pass_ok: "pass_ok C (initial_pass calls n)" "settled_count (initial_pass calls n) = 0"
  "sent_log (initial_pass calls n) = []" "stat_attempted (pass_stats (initial_pass calls n)) = n"
  by (simp_all add: initial_pass_def pass_ok_def log_ok_def settled_count_def)

lemma resubmit_pass_eq:
  assumes "order_resubmittable_transactions read_tx cs = Ok ordered" "\<not> exits N 0"
  shows "resubmit_pending_transactions read_tx N (Ok cs) = Ok (resubmit_loop N ordered (initial_pass 1 (length ordered)))"
  using assms by (simp add: resubmit_pending_transactions_def should_exit_def initial_pass_def)

lemma resubmit_pass_cases:
  "candidates \<noteq> Panic \<Longrightarrow> resubmit_pending_transactions read_tx N candidates = Ok (initial_pass 1 0) \<or>
   (\<exists>cs ordered. candidates = Ok cs \<and> \<not> exits N 0 \<and> order_resubmittable_transactions read_tx cs = Ok ordered \<and>
      resubmit_pending_transactions read_tx N candidates = Ok (resubmit_loop N ordered (initial_pass 1 (length ordered))))"
proof (cases "exits N 0 \<or> (\<exists>e. candidates = Err e)")
  case True
  then show ?thesis
    by (auto simp: resubmit_pending_transactions_def should_exit_def initial_pass_def split: bool.split)
next
  case False
  assume "candidates \<noteq> Panic"
  with False obtain cs where "candidates = Ok cs" "\<not> exits N 0" by (cases candidates) auto
  moreover obtain ordered where "order_resubmittable_transactions read_tx cs = Ok ordered" using order_entries by blast
  ultimately show ?thesis using resubmit_pass_eq by blast
qed

lemma entry_parents:
  "txid \<in> set (ord_parents (entry_at read_tx cs i)) \<longleftrightarrow> (\<exists>p \<in> set (parents_of read_tx cs i). txid = rs_txid (cs ! p))"
  by (auto simp: entry_at_def parent_txids_of_def)

lemma ordered_pass_log:
  assumes "order_resubmittable_transactions read_tx cs = Ok ordered" "pass_ok (set ordered) st" "k < length (sent_log st)"
  shows "\<exists>i. i < length cs \<and> rs_txid (cs ! i) = fst (sent_log st ! k) \<and>
    (\<lambda>p. (rs_txid (cs ! p), True)) ` set (parents_of read_tx cs i) \<subseteq> set (take k (sent_log st))"
proof -
  obtain emitted deferred where
    run: "order_resubmittable_transactions read_tx cs = Ok (map (entry_at read_tx cs) (emitted @ deferred))"
    and all: "set (emitted @ deferred) = {..< length cs}"
    using order_entries [of read_tx cs] by blast
  define order where "order = emitted @ deferred"
  have o: "ordered = map (entry_at read_tx cs) order" "set order = {..< length cs}"
    using run all assms(1) by (simp_all add: order_def)
  obtain c where c: "c \<in> set ordered" "rs_txid (ord_tx c) = fst (sent_log st ! k)"
    "\<forall>txid \<in> set (ord_parents c). (txid, True) \<in> set (take k (sent_log st))"
    using assms(2,3) unfolding pass_ok_def log_ok_def by blast
  then obtain i where "i \<in> set order" "c = entry_at read_tx cs i" using o(1) by auto
  then show ?thesis using c(2,3) o(2) by (intro exI [of _ i]) (auto simp: entry_at_def parent_txids_of_def)
qed

lemma ordered_log_sent:
  assumes "order_resubmittable_transactions read_tx cs = Ok ordered" "pass_ok (set ordered) st"
  shows "sent_after_parents read_tx cs (sent_log st)"
  unfolding sent_after_parents_def list_all_iff list_ex_iff
proof
  fix k assume "k \<in> set [0 ..< length (sent_log st)]"
  then obtain i where i: "i < length cs" "rs_txid (cs ! i) = fst (sent_log st ! k)"
    "(\<lambda>p. (rs_txid (cs ! p), True)) ` set (parents_of read_tx cs i) \<subseteq> set (take k (sent_log st))"
    using ordered_pass_log [OF assms, of k] by auto
  have "\<forall>p \<in> set (parents_of read_tx cs i). (rs_txid (cs ! p), True) \<in> set (take k (sent_log st))"
    using i(3) by blast
  then show "\<exists>i \<in> set [0 ..< length cs]. rs_txid (cs ! i) = fst (sent_log st ! k) \<and>
      (\<forall>p \<in> set (parents_of read_tx cs i). (rs_txid (cs ! p), True) \<in> set (take k (sent_log st)))"
    using i(1,2) by (intro bexI [of _ i]) simp_all
qed

lemma pass_result:
  assumes "candidates \<noteq> Panic"
  shows "\<exists>st. resubmit_pending_transactions read_tx N candidates = Ok st \<and>
    stat_succeeded (pass_stats st) + stat_failed (pass_stats st) \<le> stat_attempted (pass_stats st) \<and>
    length (sent_log st) \<le> 2 * (stat_succeeded (pass_stats st) + stat_failed (pass_stats st)) \<and>
    stat_succeeded (pass_stats st) = length (filter snd (sent_log st)) \<and>
    (case candidates of Ok cs \<Rightarrow> sent_after_parents read_tx cs (sent_log st) | _ \<Rightarrow> sent_log st = [])"
  using resubmit_pass_cases [OF assms, of read_tx N]
proof (elim disjE exE conjE)
  assume "resubmit_pending_transactions read_tx N candidates = Ok (initial_pass 1 0)"
  then show ?thesis
    by (intro exI [of _ "initial_pass 1 0"]) (simp add: initial_pass_def sent_after_parents_def split: outcome.split)
next
  fix cs ordered
  assume cs: "candidates = Ok cs" and run: "order_resubmittable_transactions read_tx cs = Ok ordered"
    and pass: "resubmit_pending_transactions read_tx N candidates = Ok (resubmit_loop N ordered (initial_pass 1 (length ordered)))"
  define st where "st = resubmit_loop N ordered (initial_pass 1 (length ordered))"
  have ok: "pass_ok (set ordered) st" unfolding st_def by (rule resubmit_loop_ok [OF initial_pass_ok(1)]) simp
  have "settled_count st \<le> stat_attempted (pass_stats st)" "length (sent_log st) \<le> 2 * settled_count st"
    using resubmit_loop_count [of N ordered "initial_pass 1 (length ordered)"] unfolding st_def initial_pass_ok by simp_all
  moreover have "stat_succeeded (pass_stats st) = length (filter snd (sent_log st))" using ok by (simp add: pass_ok_def)
  ultimately show ?thesis
    using pass [folded st_def] ordered_log_sent [OF run ok] by (simp add: cs settled_count_def)
qed

lemma undisturbed_pass_log:
  assumes "order_resubmittable_transactions read_tx cs = Ok (map (entry_at read_tx cs) order)" "order_ok read_tx cs order"
    and "\<forall>k. \<not> exits N k" "\<forall>k raw. accepts N k raw"
  shows "\<exists>st. resubmit_pending_transactions read_tx N (Ok cs) = Ok st \<and>
    sent_log st = map (\<lambda>i. (rs_txid (cs ! i), True)) order \<and> stat_succeeded (pass_stats st) = length order \<and>
    stat_failed (pass_stats st) = 0"
proof -
  let ?ordered = "map (entry_at read_tx cs) order"
  let ?start = "initial_pass 1 (length ?ordered)"
  have "\<forall>j < length ?ordered. \<forall>txid \<in> set (ord_parents (?ordered ! j)).
      txid \<in> accepted_txids ?start \<union> (rs_txid \<circ> ord_tx) ` set (take j ?ordered)"
  proof (intro allI impI ballI)
    fix j txid assume j: "j < length ?ordered" and t: "txid \<in> set (ord_parents (?ordered ! j))"
    then obtain p where p: "p \<in> set (parents_of read_tx cs (order ! j))" "txid = rs_txid (cs ! p)"
      by (auto simp: entry_parents)
    have "p \<in> set (take j order)" using p(1) j assms(2) unfolding order_ok_def by auto
    then show "txid \<in> accepted_txids ?start \<union> (rs_txid \<circ> ord_tx) ` set (take j ?ordered)"
      using p(2) by (auto simp: take_map entry_at_def image_iff)
  qed
  from resubmit_loop_accepting [OF assms(3,4) this]
  have log: "sent_log (resubmit_loop N ?ordered ?start) = map (\<lambda>i. (rs_txid (cs ! i), True)) order"
    by (simp add: initial_pass_ok entry_at_def comp_def)
  have "pass_ok UNIV (resubmit_loop N ?ordered ?start)" by (rule resubmit_loop_ok [OF initial_pass_ok(1)]) simp
  then have "stat_succeeded (pass_stats (resubmit_loop N ?ordered ?start)) = length order"
    unfolding pass_ok_def log by (simp add: comp_def)
  moreover have "settled_count (resubmit_loop N ?ordered ?start) = length order"
    using resubmit_loop_count [of N ?ordered ?start] assms(3) by (simp add: initial_pass_ok)
  ultimately have "stat_failed (pass_stats (resubmit_loop N ?ordered ?start)) = 0" by (simp add: settled_count_def)
  with log \<open>stat_succeeded _ = _\<close> show ?thesis using resubmit_pass_eq [OF assms(1)] assms(3) by simp
qed

section \<open>The candidates of the query\<close>

lemma raw_of_txid_cases: "(\<exists>raw. raw_of_txid txs txid = Ok raw) \<or> raw_of_txid txs txid = Err ()"
  by (auto simp: raw_of_txid_def split: option.splits)

lemma mapM_not_Panic: "(\<And>x. f x \<noteq> Panic) \<Longrightarrow> mapM f xs \<noteq> Panic"
proof (induction xs)
  case (Cons x xs)
  then show ?case using Cons.prems [of x] by (cases "f x"; cases "mapM f xs") auto
qed simp

lemma candidates_not_Panic: "get_resubmittable_txs_excluding view txs current_height excluded \<noteq> Panic"
  unfolding get_resubmittable_txs_excluding_def
  by (auto intro!: mapM_not_Panic simp: split_beta) (metis obind.simps outcome.distinct raw_of_txid_cases)

lemma candidate_row:
  assumes "get_resubmittable_txs_excluding view txs current_height excluded = Ok cs" "c \<in> set cs"
  shows "\<exists>r \<in> set view. resubmittable_row current_height r \<and> vt_txid r = rs_txid c \<and> rs_txid c \<notin> excluded"
proof (cases "excluded = {}")
  case True
  then obtain r where "r \<in> set view" "resubmittable_row current_height r" "vt_txid r = rs_txid c"
    using assms by (auto simp: get_resubmittable_txs_excluding_def get_resubmittable_txs_def)
  then show ?thesis using True by blast
next
  case False
  then have run: "mapM (\<lambda>(txid, expiry). obind (raw_of_txid txs txid) (\<lambda>raw.
      Ok \<lparr>rs_txid = txid, rs_raw = raw, rs_expiry_height = expiry_of_row expiry\<rparr>))
    (filter (\<lambda>(txid, expiry). txid \<notin> excluded)
      (remdups (map (\<lambda>r. (vt_txid r, vt_expiry_height r)) (filter (resubmittable_row current_height) view)))) = Ok cs"
    using assms(1) by (simp add: get_resubmittable_txs_excluding_def)
  from mapM_Ok_member [OF run assms(2)] show ?thesis by (auto simp: obind_eq_Ok)
qed

lemma remdups_map_inj: "inj_on g (set xs) \<Longrightarrow> remdups (map g xs) = map g (remdups xs)"
  by (induction xs) (auto simp: inj_on_def)

definition get_ok :: "('e, 'a) outcome \<Rightarrow> 'a" where
  "get_ok m = (case m of Ok x \<Rightarrow> x)"

lemma get_ok_Ok [simp]: "get_ok (Ok x) = x"
  by (simp add: get_ok_def)

text \<open>The view shows the bytes that the table of transactions holds.\<close>

definition raws_agree :: "v_transaction list \<Rightarrow> raw_table \<Rightarrow> bool" where
  "raws_agree view txs \<longleftrightarrow> list_all (\<lambda>r. case vt_raw r of None \<Rightarrow> True | Some raw \<Rightarrow> raw_of_txid txs (vt_txid r) = Ok raw) view"

lemma excluding_eq_filter:
  assumes "raws_agree view txs"
  shows "get_resubmittable_txs_excluding view txs current_height excluded =
    Ok (filter (\<lambda>c. rs_txid c \<notin> excluded) (get_resubmittable_txs view current_height))"
proof (cases "excluded = {}")
  case True
  then show ?thesis by (simp add: get_resubmittable_txs_excluding_def)
next
  case False
  define rows where "rows = filter (resubmittable_row current_height) view"
  define pairs where "pairs = map (\<lambda>r. (vt_txid r, vt_expiry_height r)) rows"
  define triple where "triple = (\<lambda>p :: bytes \<times> int option. (fst p, Some (get_ok (raw_of_txid txs (fst p))), snd p))"
  define tx where "tx = (\<lambda>p :: bytes \<times> int option.
    \<lparr>rs_txid = fst p, rs_raw = get_ok (raw_of_txid txs (fst p)), rs_expiry_height = expiry_of_row (snd p)\<rparr>)"
  have raw: "raw_of_txid txs (vt_txid r) = Ok (the (vt_raw r)) \<and> vt_raw r = Some (the (vt_raw r))" if "r \<in> set rows" for r
    using that assms by (auto simp: rows_def raws_agree_def list_all_iff resubmittable_row_def split: option.splits)
  have "map (\<lambda>r. (vt_txid r, vt_raw r, vt_expiry_height r)) rows = map triple pairs"
    unfolding pairs_def map_map by (rule map_cong [OF refl]) (use raw in \<open>simp add: triple_def\<close>)
  moreover have "remdups (map triple pairs) = map triple (remdups pairs)"
    by (rule remdups_map_inj) (auto simp: inj_on_def triple_def)
  ultimately have "get_resubmittable_txs view current_height =
      map (\<lambda>(txid, raw, expiry). \<lparr>rs_txid = txid, rs_raw = the raw, rs_expiry_height = expiry_of_row expiry\<rparr>)
        (map triple (remdups pairs))"
    by (simp only: get_resubmittable_txs_def flip: rows_def)
  then have all: "get_resubmittable_txs view current_height = map tx (remdups pairs)"
    by (simp add: triple_def tx_def)
  have "mapM (\<lambda>(txid, expiry). obind (raw_of_txid txs txid) (\<lambda>raw.
      Ok \<lparr>rs_txid = txid, rs_raw = raw, rs_expiry_height = expiry_of_row expiry\<rparr>))
    (filter (\<lambda>(txid, expiry). txid \<notin> excluded) (remdups pairs)) =
    Ok (map tx (filter (\<lambda>(txid, expiry). txid \<notin> excluded) (remdups pairs)))"
    by (rule mapM_all_Ok) (use raw in \<open>auto simp: pairs_def tx_def\<close>)
  moreover have "filter (\<lambda>c. rs_txid c \<notin> excluded) (map tx (remdups pairs)) =
      map tx (filter (\<lambda>(txid, expiry). txid \<notin> excluded) (remdups pairs))"
    by (simp add: filter_map comp_def case_prod_unfold tx_def)
  ultimately show ?thesis using False
    by (simp add: get_resubmittable_txs_excluding_def all flip: rows_def pairs_def)
qed

section \<open>The properties\<close>

text \<open>
  C25: When no pending transaction depends on itself, directly or through others, the order never
  fails: it holds every candidate once, each after all the candidates whose outputs it spends, and
  each with the sorted list of their ids.
\<close>

theorem resubmission_sends_parents_first:
  "acyclic_spends read_tx cs rank \<Longrightarrow>
     \<exists>order. order_resubmittable_transactions read_tx cs =
         Ok (map (\<lambda>i. \<lparr>ord_tx = cs ! i, ord_parents = parent_txids_of read_tx cs i\<rparr>) order) \<and>
       mset (map ((!) cs) order) = mset cs \<and> order_ok read_tx cs order"
proof -
  assume "acyclic_spends read_tx cs rank"
  then obtain order where o: "order_resubmittable_transactions read_tx cs = Ok (map (entry_at read_tx cs) order)"
    "set order = {..< length cs}" "order_ok read_tx cs order"
    using order_entries_acyclic by blast
  have "entry_at read_tx cs = (\<lambda>i. \<lparr>ord_tx = cs ! i, ord_parents = parent_txids_of read_tx cs i\<rparr>)"
    by (auto simp: entry_at_def)
  then show ?thesis using o mset_positions [of order cs] by (intro exI [of _ order]) (simp add: order_ok_def)
qed

text \<open>
  C26: A pass does not depend on the order in which the query returns the candidates, as long as
  their ids differ.
\<close>

theorem resubmission_order_is_deterministic:
  "distinct (map rs_txid cs) \<Longrightarrow> mset cs' = mset cs \<Longrightarrow>
     order_resubmittable_transactions read_tx cs' = order_resubmittable_transactions read_tx cs"
  by (rule order_of_permuted) (simp_all add: ids_distinct_def)

text \<open>
  C24: Whatever the network and the cancellation answer, a transaction is put on the wire only after
  every candidate it spends from has been accepted earlier in the same pass; the pass counts at most
  as many results as it attempts, sends at most twice for each of them, and reports as many successes
  as answers that accepted.
\<close>

theorem resubmission_child_follows_accepted_parents:
  "\<exists>st. resubmit_pending_transactions read_tx N (Ok cs) = Ok st \<and>
     sent_after_parents read_tx cs (sent_log st) \<and>
     stat_succeeded (pass_stats st) + stat_failed (pass_stats st) \<le> stat_attempted (pass_stats st) \<and>
     length (sent_log st) \<le> 2 * (stat_succeeded (pass_stats st) + stat_failed (pass_stats st)) \<and>
     stat_succeeded (pass_stats st) = length (filter snd (sent_log st))"
  using pass_result [of "Ok cs" read_tx N] by auto

text \<open>
  C28: A pass that is not cancelled, over a network that accepts, sends every candidate exactly once
  and counts no failure, when no candidate depends on itself.
\<close>

theorem undisturbed_resubmission_sends_all:
  "acyclic_spends read_tx cs rank \<Longrightarrow> \<forall>k. \<not> exits N k \<Longrightarrow> \<forall>k raw. accepts N k raw \<Longrightarrow>
     \<exists>st. resubmit_pending_transactions read_tx N (Ok cs) = Ok st \<and>
       mset (sent_log st) = mset (map (\<lambda>c. (rs_txid c, True)) cs) \<and>
       stat_succeeded (pass_stats st) = length cs \<and> stat_failed (pass_stats st) = 0"
proof -
  assume acyc: "acyclic_spends read_tx cs rank" and N: "\<forall>k. \<not> exits N k" "\<forall>k raw. accepts N k raw"
  obtain order where o: "order_resubmittable_transactions read_tx cs = Ok (map (entry_at read_tx cs) order)"
    "set order = {..< length cs}" "order_ok read_tx cs order"
    using order_entries_acyclic [OF acyc] by blast
  obtain st where st: "resubmit_pending_transactions read_tx N (Ok cs) = Ok st"
    "sent_log st = map (\<lambda>i. (rs_txid (cs ! i), True)) order" "stat_succeeded (pass_stats st) = length order"
    "stat_failed (pass_stats st) = 0"
    using undisturbed_pass_log [OF o(1,3) N] by blast
  have m: "mset (map ((!) cs) order) = mset cs" by (rule mset_positions) (use o(2,3) in \<open>auto simp: order_ok_def\<close>)
  have "map (\<lambda>i. (rs_txid (cs ! i), True)) order = map (\<lambda>c. (rs_txid c, True)) (map ((!) cs) order)" by simp
  then have "mset (sent_log st) = mset (map (\<lambda>c. (rs_txid c, True)) cs)"
    using st(2) m by (metis mset_map)
  moreover have "length order = length cs" using m by (metis length_map size_mset)
  ultimately show ?thesis using st by simp
qed

text \<open>
  C27: A pass of the wallet never fails, and puts on the wire only transactions of the wallet that are
  unmined, not past their expiry height, outbound, with their bytes, and not excluded by the caller.
\<close>

theorem resubmission_sends_only_eligible:
  "\<exists>st. resubmit_wallet_transactions read_tx N view txs current_height excluded = Ok st \<and>
     fst ` set (sent_log st) \<subseteq> vt_txid ` {r. r \<in> set view \<and> resubmittable_row current_height r} - excluded"
proof -
  let ?candidates = "get_resubmittable_txs_excluding view txs current_height excluded"
  obtain st where st: "resubmit_pending_transactions read_tx N ?candidates = Ok st"
    "case ?candidates of Ok cs \<Rightarrow> sent_after_parents read_tx cs (sent_log st) | _ \<Rightarrow> sent_log st = []"
    using pass_result [OF candidates_not_Panic] by blast
  have "txid \<in> vt_txid ` {r. r \<in> set view \<and> resubmittable_row current_height r} - excluded"
    if sent: "(txid, answer) \<in> set (sent_log st)" for txid answer
  proof (cases ?candidates)
    case (Ok cs)
    obtain k where k: "k < length (sent_log st)" "sent_log st ! k = (txid, answer)"
      using sent by (auto simp: in_set_conv_nth)
    then obtain i where "i < length cs" "rs_txid (cs ! i) = txid"
      using st(2) Ok by (force simp: sent_after_parents_def list_all_iff list_ex_iff)
    then show ?thesis using candidate_row [OF Ok, of "cs ! i"] by force
  qed (use st(2) sent in auto)
  then show ?thesis using st(1) by (intro exI [of _ st]) (auto simp: resubmit_wallet_transactions_def)
qed

text \<open>
  The query that leaves the excluded ids out before it loads their bytes returns what the plain
  query returns without them, when the view shows the bytes of the table of transactions.
\<close>

theorem excluding_query_filters:
  "raws_agree view txs \<Longrightarrow> get_resubmittable_txs_excluding view txs current_height excluded =
     Ok (filter (\<lambda>c. rs_txid c \<notin> excluded) (get_resubmittable_txs view current_height))"
  by (rule excluding_eq_filter)

section \<open>The properties at a concrete input\<close>

text \<open>Raw bytes that start with the id and go on with the ids of the outputs spent.\<close>

definition short_reader :: tx_reader where
  "short_reader raw = (case raw of [] \<Rightarrow> None | txid # spent \<Rightarrow> Some ([txid], map (\<lambda>t. [t]) spent))"

definition pending_family :: "resubmittable_tx list" where
  "pending_family =
     [\<lparr>rs_txid = [2], rs_raw = [2, 7, 5], rs_expiry_height = 90\<rparr>,
      \<lparr>rs_txid = [5], rs_raw = [5, 4], rs_expiry_height = 80\<rparr>,
      \<lparr>rs_txid = [7], rs_raw = [7, 5, 9], rs_expiry_height = 80\<rparr>]"

definition open_network :: network_script where
  "open_network = \<lparr>exits = \<lambda>k. False, accepts = \<lambda>k raw. True\<rparr>"

definition refusing_network :: network_script where
  "refusing_network = \<lparr>exits = \<lambda>k. False, accepts = \<lambda>k raw. False\<rparr>"

lemma pending_family_acyclic: "acyclic_spends short_reader pending_family (\<lambda>i. [2, 0, 1] ! i)"
  by code_simp

theorem resubmission_sends_parents_first_witness:
  "\<exists>order. order_resubmittable_transactions short_reader pending_family =
       Ok (map (\<lambda>i. \<lparr>ord_tx = pending_family ! i, ord_parents = parent_txids_of short_reader pending_family i\<rparr>) order) \<and>
     mset (map ((!) pending_family) order) = mset pending_family \<and> order_ok short_reader pending_family order"
  by (rule resubmission_sends_parents_first [OF pending_family_acyclic])

theorem resubmission_order_is_deterministic_witness:
  "order_resubmittable_transactions short_reader (rev pending_family) = order_resubmittable_transactions short_reader pending_family \<and>
   rev pending_family \<noteq> pending_family"
proof
  have "distinct (map rs_txid pending_family)" by (simp add: pending_family_def)
  then show "order_resubmittable_transactions short_reader (rev pending_family) =
      order_resubmittable_transactions short_reader pending_family"
    by (rule resubmission_order_is_deterministic) simp
  show "rev pending_family \<noteq> pending_family" by (simp add: pending_family_def)
qed

theorem undisturbed_resubmission_sends_all_witness:
  "\<exists>st. resubmit_pending_transactions short_reader open_network (Ok pending_family) = Ok st \<and>
     mset (sent_log st) = mset (map (\<lambda>c. (rs_txid c, True)) pending_family) \<and>
     stat_succeeded (pass_stats st) = length pending_family \<and> stat_failed (pass_stats st) = 0"
  by (rule undisturbed_resubmission_sends_all [OF pending_family_acyclic]) (simp_all add: open_network_def)

text \<open>A pending payment seen by two accounts, one that is mined, and the excluded one.\<close>

definition sample_view :: "v_transaction list" where
  "sample_view =
     [\<lparr>vt_txid = [2], vt_raw = Some [2, 7], vt_mined_height = None, vt_expiry_height = Some 90, vt_account_balance_delta = Some (- 5)\<rparr>,
      \<lparr>vt_txid = [2], vt_raw = Some [2, 7], vt_mined_height = None, vt_expiry_height = Some 90, vt_account_balance_delta = Some (- 1)\<rparr>,
      \<lparr>vt_txid = [3], vt_raw = Some [3], vt_mined_height = Some 40, vt_expiry_height = Some 0, vt_account_balance_delta = Some (- 5)\<rparr>,
      \<lparr>vt_txid = [4], vt_raw = Some [4], vt_mined_height = None, vt_expiry_height = Some 0, vt_account_balance_delta = Some (- 5)\<rparr>]"

definition sample_raws :: raw_table where
  "sample_raws = [([2], Some [2, 7]), ([3], Some [3]), ([4], Some [4])]"

theorem excluding_query_filters_witness:
  "get_resubmittable_txs_excluding sample_view sample_raws 50 {[4]} = Ok [\<lparr>rs_txid = [2], rs_raw = [2, 7], rs_expiry_height = 90\<rparr>]"
proof -
  have "raws_agree sample_view sample_raws" by code_simp
  from excluding_query_filters [OF this, of 50 "{[4]}"] show ?thesis
    by (simp add: get_resubmittable_txs_def sample_view_def resubmittable_row_def expiry_of_row_def)
qed

end
