(* ===== verification/Spec2Isabelle.thy ===== *)
theory Spec2Isabelle
  imports PrepProperties Anchors SplitProps ScheduleProps PrepTiming CompactSigs SecretPayload
    StageProperties ReconcileProperties PartProperties AnchorSelectionProps ResubmitProperties
begin

text \<open>
  A verification library for the Ironwood migration of the wallet: the part of
  \<open>rust/src/wallet/sync/migration.rs\<close> and of the files under \<open>migration/\<close> that decides how a
  balance is cut into canonical ZIP 318 denominations, which preparation transactions mint the
  notes for it, when each of them and each migration part is broadcast, and how the signed
  preparation transactions are stored, advanced, and reconciled with the chain after a reorg.

  \<^bold>\<open>The program.\<close> The wallet moves its value into the Ironwood pool in parts of canonical
  values. \<open>split_plan.rs\<close> chooses the denominations with \<open>denomination_policy.rs\<close> and asks
  \<open>preparation_plan.rs\<close> for a layered graph of padded transactions that turns the wallet's
  notes into exactly the notes the parts need. The graph becomes a list of split stages; each
  stage is signed, encrypted with \<open>secret_payload.rs\<close> and stored by \<open>stages.rs\<close> with
  the outpoints it spends and the notes it mints. \<open>preparation_policy.rs\<close> spreads the stages
  over time, \<open>schedule.rs\<close> the migration parts that spend the final notes; the networks,
  timing policies and delays come from \<open>policy.rs\<close>. While a run is waiting, every look at the
  wallet's scanned chain goes through the reconciliation in \<open>migration.rs\<close>, which confirms
  the stages that are on the chain, resets those that left it with all their descendants, and
  removes the parts that spent the lost notes. The parts themselves are signed, stored,
  scheduled, broadcast one at a time, confirmed, and signed again when their expiry window
  passes; the broadcast happens in the wallet or in a background process that reports with
  receipts. Meanwhile the notes and the inputs of the stages are locked in the wallet library,
  as are the inputs of ordinary send proposals (\<open>proposal_locks.rs\<close>).

  \<^bold>\<open>Theories and sources.\<close>

  \<^item> \<open>Prelude\<close>: machine integers, the result type, the interface of a text codec.
    \<open>Errors\<close>: the error messages, one datatype per source file.
  \<^item> \<open>Policy\<close>: \<open>network.rs\<close>, \<open>policy.rs\<close>. \<open>Denominations\<close>,
    \<open>Anchors\<close>: \<open>denomination_policy.rs\<close>.
  \<^item> \<open>PrepTypes\<close>, \<open>PrepPlan\<close>, \<open>PrepGreedy\<close>: the definitions of
    \<open>preparation_plan.rs\<close>; \<open>PrepTree\<close> (the balanced split tree), \<open>PrepGraph\<close> (the wiring
    of a layered plan), \<open>PrepCorrect\<close> (the loop invariants) and \<open>PrepProperties\<close> their proofs.
  \<^item> \<open>SplitPlan\<close>: \<open>split_plan.rs\<close>; \<open>SplitProps\<close> its proofs.
  \<^item> \<open>Schedule\<close>: \<open>schedule.rs\<close> and \<open>schedule_block_offset_for_part\<close>;
    \<open>ScheduleProps\<close> its proofs. \<open>PrepTiming\<close>: the pure part of \<open>preparation_policy.rs\<close>.
  \<^item> \<open>Bytes\<close>, \<open>CompactSigs\<close>: the signature blob of \<open>keystone.rs\<close>.
    \<open>SecretPayload\<close>: \<open>secret_payload.rs\<close>.
  \<^item> \<open>StageTypes\<close>, \<open>StageStore\<close>, \<open>StageTransitions\<close>: the tables and the
    operations of \<open>stages.rs\<close>, with the broadcast-attempt flags and the cleanup of a
    stopped run from \<open>migration.rs\<close> and the rerandomised heights of
    \<open>preparation_policy.rs\<close>. \<open>StageInvariant\<close>, \<open>StageMachine\<close>: the invariant and the
    step relation. \<open>StageBatch\<close>, \<open>StageStorage\<close>, \<open>StageAccept\<close>: what a
    validated batch is and how it is stored. \<open>StageProps\<close>, \<open>StageReads\<close>,
    \<open>StageHeights\<close>, \<open>StageProperties\<close>: the branches of the writers, the readers, the
    broadcast order, and the properties.
  \<^item> \<open>MigrationDb\<close>, \<open>Reconcile\<close>: the other tables, the lookup of a transaction on the
    scanned chain, the reset of the children, and the reconciliation.
    \<open>ReconcileProps\<close>, \<open>ReconcileCorrect\<close>, \<open>ReconcileTheorems\<close>,
    \<open>ReconcileProperties\<close>: its proofs.
  \<^item> \<open>Action\<close>: operations that change a state and may fail, transactions, loops of statements,
    and the relations that such an operation keeps.
  \<^item> \<open>PartTypes\<close> to \<open>PartStop\<close>: the migration parts and the life of a run in
    \<open>migration.rs\<close>. \<open>PartTypes\<close>: rows, phases and counts. \<open>PartConfirm\<close>: the confirmation pass
    (\<open>reconcile_run_confirmations\<close>). \<open>PartBroadcast\<close>: due parts, expiry checks, broadcast marks.
    \<open>PartReschedule\<close>: redraws and receipts. \<open>PartInsert\<close>: storing, rebasing and promoting
    signed parts. \<open>PartRecovery\<close>: recovery schedules and replacements. \<open>PartStop\<close>: drafts,
    creating, retiring and stopping a run.
  \<^item> \<open>WalletLocks\<close>: \<open>migration_wallet_ops.rs\<close> and the reconciliation of the locks.
    \<open>ProposalLocks\<close>: \<open>proposal_locks.rs\<close>. The end of \<open>PartStop\<close> and \<open>PartTypes\<close> use the
    classification of \<open>broadcast.rs\<close>.
  \<^item> \<open>AnchorRetention\<close>: the checkpoints that proofs still need, the ledger in
    \<open>migration.rs\<close> and the maintenance passes in \<open>send.rs\<close>; \<open>AnchorRetentionProps\<close>: the single
    changes of a pass (\<open>retention_step\<close>), the passes after each other, complete or cut off
    (\<open>maintenance_step\<close>), the invariant and the properties. \<open>AnchorSelection\<close>: the choice of the
    anchor and the witness of the next proof in \<open>send.rs\<close>; \<open>AnchorSelectionProps\<close>: that it succeeds
    after a pass.
  \<^item> \<open>Resubmit\<close>: the automatic resubmission of pending transactions, the query of the candidates
    in \<open>transactions.rs\<close> and their dependency order and the pass in \<open>send.rs\<close>; \<open>ResubmitProps\<close>: the loop
    invariants, \<open>ResubmitOrder\<close>: the order as a greedy order over ids, \<open>ResubmitProperties\<close>: the properties.
  \<^item> \<open>PartConfirmProps\<close>, \<open>PartBroadcastProps\<close>, \<open>PartInvariant\<close>, \<open>PartReach\<close>,
    \<open>PartReceiptProps\<close>, \<open>PartRedrawProps\<close>, \<open>PartRecoveryProps\<close>, \<open>LockProps\<close>: the proofs
    about them, with the step relations \<open>upkeep\<close> (what the broadcast side does) and \<open>part_step\<close>
    (everything that writes the table of parts, the deletion of an account included);
    \<open>PartProperties\<close>: the properties.

  \<^bold>\<open>State.\<close> A SQLite table is the list of its rows in the order of insertion, a row a record
  of its columns in their SQL form (text statuses, nullable columns as options, encrypted columns
  as payload text). \<open>stage_db\<close> holds the three stage tables, \<open>migration_db\<close> adds the runs,
  the pending transactions and the prepared notes, \<open>wallet_chain\<close> is what the wallet's own
  tables say of the scanned chain. A statement is a filter or a map over the rows; the
  constraints of the schema are checked where a row is written, and a transaction that fails
  returns the database it started from. A writer returns its result together with the database
  it leaves, so that a failing branch shows what it has changed; an operation that also locks
  outputs works on the pair of the database and the state of the wallet's lock store. The
  process-wide switches of the migration are fields of a record passed as an argument, the
  clock is a function from the place where it is read, and a random draw comes from the state
  of a generator.

  \<^bold>\<open>Results and numbers.\<close> A function returns \<open>Ok\<close>, \<open>Err\<close> or \<open>Panic\<close>: overflow of a plain
  operator, an index out of range and \<open>expect\<close> are panics (the arithmetic is that of a build
  with overflow checks). Unsigned integers are natural numbers with the width written out in
  each operation that can leave it; bytes are 8-bit words.

  \<^bold>\<open>Loops and termination.\<close> A loop over a collection is a structural recursion or a fold with
  the loop variables as accumulator. The others carry their measure: the denomination loop the
  remaining value, the greedy layers the value that is still unspent, the propagation of a reorg
  the stages that are not yet affected. No fuel is used, but where the code itself bounds a loop
  (eight passes over the locks) the bound is an argument. The redrawing loop of the schedule
  may run forever with an adversarial generator; it is a \<open>partial_function (option)\<close>,
  \<open>draw_delay_returns\<close> states when it returns, and the operations above it return \<open>None\<close> where
  it does not.

  \<^bold>\<open>Parameters.\<close> Third-party code is a record of functions passed as an argument, with the
  behaviour the crates document as a named predicate or locale: \<open>planner_env\<close> (the
  range of \<open>Zatoshis\<close> and the conventional fee; \<open>planner_contract\<close>), \<open>rng_env\<close>
  (the random generator, \<open>shuffle\<close> and the exponential distribution; \<open>rng_contract\<close>),
  \<open>crypto_env\<close> (cipher, key derivation, base64, JSON; \<open>crypto_ok\<close>), the confirmations that
  the librustzcash policy asks for, \<open>json_env\<close> (the codec of the JSON columns),
  \<open>lock_env\<close> (the output locks of the wallet library, and SHA-256; \<open>output_lock_store\<close>),
  \<open>retention_env\<close> (the pins of its Orchard tree; \<open>checkpoint_pins\<close>), \<open>witness_env\<close> (the reads of
  that tree; \<open>anchor_witnesses\<close>, which extends \<open>checkpoint_pins\<close>), \<open>tx_reader\<close> (the reader of raw
  transactions), \<open>network_script\<close> (the answers of the network and of the cancellation) and
  \<open>wallet_chain\<close>. Each of these contracts has an interpretation, so that it is known to be
  satisfiable.

  \<^bold>\<open>What the lemmas show.\<close> The planner: every plan mints exactly the notes requested, spends
  every note once and after it exists, conserves value in every transaction, leaves no
  intermediate note behind and at most one residual. The split plan assigns every canonical
  output one note and keeps approved targets. Anchors: the candidate list and the
  predicate agree, the draw has the documented weights, and retry heights make progress.
  Schedules: drawing and validating agree, in both directions. The codecs: round trips, and
  the blob decoder accepts only what the encoder writes. The stage store: an invariant of every
  reachable database, the life of a stage under every operation, validation equivalent to
  a declarative predicate and complete for insertion, every branch of the writers. The
  reconciliation: it refines a specification per stage, agrees with the chain,
  is idempotent, returns, and resets exactly the children it should. The parts: an invariant of
  every reachable database, signed transactions that no later operation alters, the exact effect of
  the confirmation pass, of the expiry checks, of receipts and of redraws, completion only of
  runs that are deep in the chain, recovery schedules that are drawn once, replacements that keep
  what is migrated. The locks: they follow the phase of the run, stopping and recovery release
  exactly what they should and never the lock of another owner. The anchors: whatever passes of the
  maintenance run one after the other, also when they fail or the process ends inside one, each pinned
  checkpoint is accounted for, and after a successful pass the selection for the next proof finds an
  anchor. The resubmission: its order never fails, puts parents
  first and does not depend on the order of the query, and a transaction is sent only after all the
  candidates it spends from were accepted in the same pass.

  \<^bold>\<open>Bounds of the model.\<close> The reconciliation reads with one connection and writes with two
  others; the model runs these in sequence without another process in between.
  \<open>SQLite\<close> integer columns are natural numbers (every writer stores an unsigned value) and
  reading one as \<open>u32\<close> fails when it does not fit. I/O failures of the database itself
  (disk, locking) are not branches of the model. Where a query leaves the order of ties open (the
  newest of two runs created in the same millisecond) the model takes the first row. The passes over
  the anchors hold the wallet's write lock, so two of them never overlap.

  \<^bold>\<open>Not modelled.\<close> Functions compiled for tests only; the upgrades of databases written by
  earlier versions (\<open>schema.rs\<close>); of \<open>migration.rs\<close> the projections for the user interface and
  the export of the outbox to the background broadcaster;
  building, proving and sending new transactions (\<open>send.rs\<close>, \<open>pczt.rs\<close>), which drive the
  librustzcash builders; the sync engine; the names protocol; voting; key storage; the network
  layers and the bindings.
\<close>

end
